(* ===== verification/Prelude.thy ===== *)
theory Prelude
  imports Main "HOL-Library.Word" "HOL-Library.Monad_Syntax"
begin

unbundle bit_operations_syntax

section \<open>Prelude: machine integers, panics and shared lemmas\<close>

text \<open>
  What every component of the model shares: the width of the machine integers (a 64-bit
  Linux target, so \<open>usize\<close>, \<open>u64\<close> and the bit patterns of \<open>i64\<close> are all 64-bit words),
  the reading of a panic, the integer operations of the Rust standard library that the
  sources call, indexing that panics, and the generic lemmas on words, lists and options
  the component theories use.

  An operation that can panic (an index out of range, \<open>unwrap\<close> on \<open>None\<close>, an arithmetic
  overflow or a failed \<open>debug_assert!\<close> of the checked profile, \<open>unreachable!\<close>) returns
  \<open>'a option\<close>, \<open>None\<close> being the panic. An \<open>io::Result\<close> is a sum, \<open>Inl\<close> being the error.
\<close>

type_synonym u8 = "8 word"
type_synonym u32 = "32 word"
type_synonym i32 = "32 word"
type_synonym u64 = "64 word"
type_synonym usize = "64 word"
type_synonym i64 = "64 word"

text \<open>The kinds of \<open>std::io::Error\<close> the sources test for or construct.\<close>

datatype io_error = Interrupted | WouldBlock | AlreadyExists | NotFound | OtherError string

type_synonym 'a io_result = "io_error + 'a"

named_theorems panic_simps \<open>equations that decide whether a partial operation panics\<close>

subsection \<open>Integer operations of the standard library\<close>

text \<open>\<open>a + b\<close> and \<open>a - b\<close> of the checked profile, \<open>checked_mul\<close>, \<open>saturating_add\<close> and
  \<open>saturating_mul\<close> of \<open>u64\<close>.\<close>

definition add_u64 :: "u64 \<Rightarrow> u64 \<Rightarrow> u64 option" where
  "add_u64 a b = (if unat a + unat b < 2 ^ 64 then Some (a + b) else None)"

definition sub_u64 :: "u64 \<Rightarrow> u64 \<Rightarrow> u64 option" where
  "sub_u64 a b = (if b \<le> a then Some (a - b) else None)"

definition checked_mul :: "u64 \<Rightarrow> u64 \<Rightarrow> u64 option" where
  "checked_mul a b = (if unat a * unat b < 2 ^ 64 then Some (a * b) else None)"

definition saturating_add :: "u64 \<Rightarrow> u64 \<Rightarrow> u64" where
  "saturating_add a b = (if unat a + unat b < 2 ^ 64 then a + b else - 1)"

definition saturating_mul :: "u64 \<Rightarrow> u64 \<Rightarrow> u64" where
  "saturating_mul a b = (if unat a * unat b < 2 ^ 64 then a * b else - 1)"

text \<open>\<open>usize::next_power_of_two\<close>: the least power of two not below the argument, a panic
  when it does not fit.\<close>

definition next_power_of_two :: "usize \<Rightarrow> usize option" where
  "next_power_of_two n = map_option (\<lambda>k. push_bit k 1) (find (\<lambda>k. unat n \<le> 2 ^ k) [0..<64])"

subsection \<open>Indexing a vector\<close>

definition vec_get :: "'a list \<Rightarrow> nat \<Rightarrow> 'a option" where
  "vec_get xs i = (if i < length xs then Some (xs ! i) else None)"

definition vec_set :: "'a list \<Rightarrow> nat \<Rightarrow> 'a \<Rightarrow> 'a list option" where
  "vec_set xs i x = (if i < length xs then Some (xs[i := x]) else None)"

lemma vec_get_Some [simp, panic_simps]: "i < length xs \<Longrightarrow> vec_get xs i = Some (xs ! i)"
  by (simp add: vec_get_def)

lemma vec_set_Some [simp, panic_simps]: "i < length xs \<Longrightarrow> vec_set xs i x = Some (xs[i := x])"
  by (simp add: vec_set_def)

subsection \<open>Words\<close>

lemma unat_max_u64 [simp]: "unat (- 1 :: 64 word) = 18446744073709551615"
  by (simp add: unat_word_ariths unsigned_minus_1_eq_mask mask_eq_exp_minus_1)

lemma add_one_u64 [panic_simps]:
  assumes "(a :: u64) < b"
  shows "add_u64 a 1 = Some (a + 1)" and "unat (a + 1) = Suc (unat a)"
proof -
  have "unat a < unat b" using assms by (simp add: word_less_nat_alt)
  moreover have "unat b < 2 ^ 64" using unsigned_less[of b] by simp
  ultimately have *: "unat a + 1 < 2 ^ 64" by simp
  then show "add_u64 a 1 = Some (a + 1)" by (simp add: add_u64_def)
  show "unat (a + 1) = Suc (unat a)" using * by (simp add: unat_word_ariths)
qed

lemma less_add_one_u64: "(a :: u64) < b \<Longrightarrow> x < a + 1 \<longleftrightarrow> x \<le> a"
  by (simp add: word_less_nat_alt word_le_nat_alt add_one_u64 less_Suc_eq_le)

lemma and_mask_less:
  "unat (t AND m) \<le> unat (m :: 'a :: len word)"
  using word_and_le1[of t m] by (simp add: word_le_nat_alt)

lemma word_eq_bits: "a = b \<longleftrightarrow> (\<forall>n. bit a n \<longleftrightarrow> bit (b :: 'a :: len word) n)"
  by (auto intro: bit_eqI)

lemma bit_imp_exp_le:
  assumes "bit (w :: 'a :: len word) n" shows "2 ^ n \<le> unat w"
proof -
  have "bit (unat w) n" using assms by (simp add: bit_unsigned_iff bit_imp_le_length)
  then have "0 < unat w div 2 ^ n" by (simp add: bit_iff_odd odd_pos)
  then show ?thesis by (simp add: div_greater_zero_iff)
qed

subsection \<open>Options\<close>

lemma bind_Some_iff: "(x \<bind> f = Some y) \<longleftrightarrow> (\<exists>a. x = Some a \<and> f a = Some y)"
  by (cases x) auto

end
