(* ===== verification/LazyCell.thy ===== *)
theory LazyCell
  imports Prelude
begin

section \<open>The lazily filled cell\<close>

text \<open>
  \<open>src/lazycell.rs\<close>: a cell that is empty or holds one value. A method on \<open>&self\<close> that
  changes the cell through \<open>UnsafeCell\<close> returns the new cell. A closure given to
  \<open>borrow_with\<close> and its variants may itself reach the cell, so it is a function of the cell
  that returns the value and the cell it leaves behind.
\<close>

record 'a lazy_cell =
  lc_inner :: "'a option"

definition lc_new :: "'a lazy_cell" where
  "lc_new = \<lparr>lc_inner = None\<rparr>"

text \<open>\<open>fill\<close>: \<open>Err(value)\<close> (here \<open>Inl\<close>) gives the value back when the cell is full.\<close>

definition lc_fill :: "'a lazy_cell \<Rightarrow> 'a \<Rightarrow> ('a + unit) \<times> 'a lazy_cell" where
  "lc_fill c value =
     (if lc_inner c \<noteq> None then (Inl value, c)
      else (Inr (), c\<lparr>lc_inner := Some value\<rparr>))"

definition lc_replace :: "'a lazy_cell \<Rightarrow> 'a \<Rightarrow> 'a option \<times> 'a lazy_cell" where
  "lc_replace c value = (lc_inner c, c\<lparr>lc_inner := Some value\<rparr>)"

definition lc_borrow :: "'a lazy_cell \<Rightarrow> 'a option" where
  "lc_borrow c = lc_inner c"

definition lc_filled :: "'a lazy_cell \<Rightarrow> bool" where
  "lc_filled c \<longleftrightarrow> lc_borrow c \<noteq> None"

definition lc_borrow_mut :: "'a lazy_cell \<Rightarrow> 'a option" where
  "lc_borrow_mut c = lc_inner c"

definition lc_borrow_with ::
    "'a lazy_cell \<Rightarrow> ('a lazy_cell \<Rightarrow> 'a \<times> 'a lazy_cell) \<Rightarrow> ('a \<times> 'a lazy_cell) option" where
  "lc_borrow_with c f =
     (case lc_borrow c of
        Some value \<Rightarrow> Some (value, c)
      | None \<Rightarrow>
         (let (value, c1) = f c; (r, c2) = lc_fill c1 value
          in case r of Inl _ \<Rightarrow> None
             | Inr _ \<Rightarrow> (case lc_borrow c2 of None \<Rightarrow> None | Some v \<Rightarrow> Some (v, c2))))"

definition lc_borrow_mut_with ::
    "'a lazy_cell \<Rightarrow> ('a lazy_cell \<Rightarrow> 'a \<times> 'a lazy_cell) \<Rightarrow> ('a \<times> 'a lazy_cell) option" where
  "lc_borrow_mut_with c f =
     do { c2 \<leftarrow> (if \<not> lc_filled c
                 then (let (value, c1) = f c; (r, c2) = lc_fill c1 value
                       in case r of Inl _ \<Rightarrow> None | Inr _ \<Rightarrow> Some c2)
                 else Some c);
          v \<leftarrow> lc_borrow_mut c2;
          Some (v, c2) }"

text \<open>The fallible variants: \<open>?\<close> returns the closure's error and leaves its cell.\<close>

definition lc_try_borrow_with ::
    "'a lazy_cell \<Rightarrow> ('a lazy_cell \<Rightarrow> ('e + 'a) \<times> 'a lazy_cell)
       \<Rightarrow> (('e + 'a) \<times> 'a lazy_cell) option" where
  "lc_try_borrow_with c f =
     (case lc_borrow c of
        Some value \<Rightarrow> Some (Inr value, c)
      | None \<Rightarrow>
         (case f c of
            (Inl e, c1) \<Rightarrow> Some (Inl e, c1)
          | (Inr value, c1) \<Rightarrow>
             (let (r, c2) = lc_fill c1 value
              in case r of Inl _ \<Rightarrow> None
                 | Inr _ \<Rightarrow> (case lc_borrow c2 of None \<Rightarrow> None | Some v \<Rightarrow> Some (Inr v, c2)))))"

definition lc_try_borrow_mut_with ::
    "'a lazy_cell \<Rightarrow> ('a lazy_cell \<Rightarrow> ('e + 'a) \<times> 'a lazy_cell)
       \<Rightarrow> (('e + 'a) \<times> 'a lazy_cell) option" where
  "lc_try_borrow_mut_with c f =
     (if lc_filled c then do { v \<leftarrow> lc_borrow_mut c; Some (Inr v, c) }
      else
         (case f c of
            (Inl e, c1) \<Rightarrow> Some (Inl e, c1)
          | (Inr value, c1) \<Rightarrow>
             (let (r, c2) = lc_fill c1 value
              in case r of Inl _ \<Rightarrow> None
                 | Inr _ \<Rightarrow> do { v \<leftarrow> lc_borrow_mut c2; Some (Inr v, c2) })))"

definition lc_into_inner :: "'a lazy_cell \<Rightarrow> 'a option" where
  "lc_into_inner c = lc_inner c"

definition lc_get :: "'a lazy_cell \<Rightarrow> 'a option" where
  "lc_get c = lc_inner c"

lemmas lc_defs = lc_new_def lc_fill_def lc_replace_def lc_borrow_def lc_filled_def
  lc_borrow_mut_def lc_borrow_with_def lc_borrow_mut_with_def lc_try_borrow_with_def
  lc_try_borrow_mut_with_def lc_into_inner_def lc_get_def

lemma lc_fill_new [simp]: "lc_fill lc_new v = (Inr (), \<lparr>lc_inner = Some v\<rparr>)"
  by (simp add: lc_defs)

lemma lc_borrow_fill [simp]:
  "lc_borrow (snd (lc_fill c v)) = Some (case lc_borrow c of None \<Rightarrow> v | Some w \<Rightarrow> w)"
  by (auto simp: lc_defs)

text \<open>A cell is written at most once through \<open>fill\<close>: any number of fills leaves the
  first value that reached it, and every later fill gives its own value back.\<close>

theorem lc_fill_once:
  "lc_borrow (fold (\<lambda>v c. snd (lc_fill c v)) vs c) =
     (case lc_borrow c of Some w \<Rightarrow> Some w | None \<Rightarrow> (case vs of [] \<Rightarrow> None | v # _ \<Rightarrow> Some v)) \<and>
   fst (lc_fill c v) = (if lc_filled c then Inl v else Inr ())"
proof -
  have "lc_borrow (fold (\<lambda>v c. snd (lc_fill c v)) vs c) = Some w" if "lc_borrow c = Some w" for w c
    using that by (induction vs arbitrary: c) simp_all
  then show ?thesis
    by (auto simp: lc_filled_def lc_fill_def lc_borrow_def split: option.splits list.splits)
qed

text \<open>\<open>borrow_with\<close> runs the closure only on an empty cell, returns what the cell then
  holds, and panics exactly when the closure itself filled the cell.\<close>

theorem lc_borrow_with_cases:
  "lc_borrow_with c f =
     (if lc_filled c then Some (the (lc_borrow c), c)
      else if lc_filled (snd (f c)) then None
      else Some (fst (f c), \<lparr>lc_inner = Some (fst (f c))\<rparr>)) \<and>
   lc_borrow_mut_with c f = lc_borrow_with c f"
  by (cases c; cases "f c"; cases "snd (f c)") (auto simp: lc_defs Let_def split: option.splits)

end
