(* ===== verification/EventImp.thy ===== *)
theory EventImp
  imports Prelude
begin

unbundle bit_operations_syntax

section \<open>Readiness sets, poll options, tokens and events\<close>

text \<open>
  The data of \<open>src/event_imp.rs\<close>, \<open>src/token.rs\<close> and \<open>src/sys/unix/ready.rs\<close>: the bit sets
  \<open>Ready\<close>, \<open>PollOpt\<close> and \<open>UnixReady\<close> with every operation the sources define on them, tokens,
  events and job entries. A job (\<open>Arc<Mutex<dyn FnMut(i64)>>\<close>) is opaque user code, the type
  variable \<open>'j\<close>.
\<close>

subsection \<open>Tokens\<close>

datatype token = Token (token_val: usize)

definition token_from_usize :: "usize \<Rightarrow> token" where
  "token_from_usize val = Token val"

definition usize_from_token :: "token \<Rightarrow> usize" where
  "usize_from_token t = (case t of Token v \<Rightarrow> v)"

lemma usize_from_token_Token [simp]: "usize_from_token (Token v) = v"
  by (simp add: usize_from_token_def)

lemma usize_from_token_eq [simp]: "usize_from_token a = usize_from_token b \<longleftrightarrow> a = b"
  by (cases a; cases b) simp

subsection \<open>Ready\<close>

datatype ready = Ready (ready_bits: usize)

definition READABLE :: usize where "READABLE = 0b00001"
definition WRITABLE :: usize where "WRITABLE = 0b00010"
definition ERROR :: usize where "ERROR = 0b00100"
definition HUP :: usize where "HUP = 0b01000"

text \<open>The constants of \<open>sys/unix/ready.rs\<close>.\<close>

definition UNIX_ERROR :: usize where "UNIX_ERROR = 0b000100"
definition UNIX_HUP :: usize where "UNIX_HUP = 0b001000"
definition AIO :: usize where "AIO = 0b000000"
definition LIO :: usize where "LIO = 0b101000"
definition PRI :: usize where "PRI = 0b1001000"

definition READY_ALL :: usize where
  "READY_ALL = UNIX_ERROR OR UNIX_HUP OR AIO OR LIO OR PRI"

lemmas ready_consts = READABLE_def WRITABLE_def ERROR_def HUP_def
  UNIX_ERROR_def UNIX_HUP_def AIO_def LIO_def PRI_def

definition ready_as_usize :: "ready \<Rightarrow> usize" where
  "ready_as_usize events = ready_bits events"

definition ready_from_usize :: "usize \<Rightarrow> ready" where
  "ready_from_usize events = Ready events"

definition ready_empty :: ready where "ready_empty = Ready 0"
definition ready_readable :: ready where "ready_readable = Ready READABLE"
definition ready_writable :: ready where "ready_writable = Ready WRITABLE"
definition ready_error :: ready where "ready_error = Ready ERROR"
definition ready_hup :: ready where "ready_hup = Ready HUP"
definition ready_all :: ready where "ready_all = Ready (READABLE OR WRITABLE OR READY_ALL)"

definition ready_bitor :: "ready \<Rightarrow> ready \<Rightarrow> ready" where
  "ready_bitor a b = Ready (ready_bits a OR ready_bits b)"

definition ready_bitxor :: "ready \<Rightarrow> ready \<Rightarrow> ready" where
  "ready_bitxor a b = Ready (ready_bits a XOR ready_bits b)"

definition ready_bitand :: "ready \<Rightarrow> ready \<Rightarrow> ready" where
  "ready_bitand a b = Ready (ready_bits a AND ready_bits b)"

definition ready_sub :: "ready \<Rightarrow> ready \<Rightarrow> ready" where
  "ready_sub a b = Ready (ready_bits a AND NOT (ready_bits b))"

definition ready_not :: "ready \<Rightarrow> ready" where
  "ready_not a = Ready (NOT (ready_bits a))"

definition ready_is_empty :: "ready \<Rightarrow> bool" where
  "ready_is_empty r \<longleftrightarrow> r = ready_empty"

definition ready_contains :: "ready \<Rightarrow> ready \<Rightarrow> bool" where
  "ready_contains self other \<longleftrightarrow> ready_bitand self other = other"

definition ready_is_readable :: "ready \<Rightarrow> bool" where
  "ready_is_readable r = ready_contains r ready_readable"

definition ready_is_writable :: "ready \<Rightarrow> bool" where
  "ready_is_writable r = ready_contains r ready_writable"

definition ready_is_error :: "ready \<Rightarrow> bool" where
  "ready_is_error r = ready_contains r (Ready ERROR)"

definition ready_is_hup :: "ready \<Rightarrow> bool" where
  "ready_is_hup r = ready_contains r (Ready HUP)"

definition ready_insert :: "ready \<Rightarrow> ready \<Rightarrow> ready" where
  "ready_insert self other = Ready (ready_bits self OR ready_bits other)"

definition ready_remove :: "ready \<Rightarrow> ready \<Rightarrow> ready" where
  "ready_remove self other = Ready (ready_bits self AND NOT (ready_bits other))"

text \<open>\<open>impl fmt::Debug for Ready\<close>: the loop over the flag table, \<open>one\<close> recording that
  something has been written.\<close>

fun fmt_flags :: "('r \<Rightarrow> 'r \<Rightarrow> bool) \<Rightarrow> 'r \<Rightarrow> ('r \<times> string) list \<Rightarrow> bool \<Rightarrow> string" where
  "fmt_flags cont self [] one = (if \<not> one then ''(empty)'' else [])"
| "fmt_flags cont self ((flag, msg) # flags) one =
     (if cont self flag
      then (if one then '' | '' else []) @ msg @ fmt_flags cont self flags True
      else fmt_flags cont self flags one)"

definition ready_flags :: "(ready \<times> string) list" where
  "ready_flags = [(ready_readable, ''Readable''), (ready_writable, ''Writable''),
     (Ready ERROR, ''Error''), (Ready HUP, ''HUP'')]"

definition ready_fmt :: "ready \<Rightarrow> string" where
  "ready_fmt self = fmt_flags ready_contains self ready_flags False"

subsection \<open>UnixReady\<close>

datatype unix_ready = UnixReady (unix_inner: ready)

definition unix_aio :: unix_ready where "unix_aio = UnixReady (ready_from_usize AIO)"
definition unix_hup :: unix_ready where "unix_hup = UnixReady (ready_from_usize UNIX_HUP)"
definition unix_error :: unix_ready where "unix_error = UnixReady (ready_from_usize UNIX_ERROR)"
definition unix_priority :: unix_ready where "unix_priority = UnixReady (ready_from_usize PRI)"

definition unix_is_priority :: "unix_ready \<Rightarrow> bool" where
  "unix_is_priority u = ready_contains (unix_inner u) (ready_from_usize PRI)"

definition unix_is_error :: "unix_ready \<Rightarrow> bool" where
  "unix_is_error u = ready_contains (unix_inner u) (ready_from_usize UNIX_ERROR)"

definition unix_from_ready :: "ready \<Rightarrow> unix_ready" where
  "unix_from_ready src = UnixReady src"

definition ready_from_unix :: "unix_ready \<Rightarrow> ready" where
  "ready_from_unix src = unix_inner src"

subsection \<open>PollOpt\<close>

datatype poll_opt = PollOpt (opt_bits: usize)

definition opt_empty :: poll_opt where "opt_empty = PollOpt 0"
definition opt_edge :: poll_opt where "opt_edge = PollOpt 0b0001"
definition opt_level :: poll_opt where "opt_level = PollOpt 0b0010"
definition opt_oneshot :: poll_opt where "opt_oneshot = PollOpt 0b0100"
definition opt_urgent :: poll_opt where "opt_urgent = PollOpt 0b1000"

definition opt_bitor :: "poll_opt \<Rightarrow> poll_opt \<Rightarrow> poll_opt" where
  "opt_bitor a b = PollOpt (opt_bits a OR opt_bits b)"

definition opt_bitxor :: "poll_opt \<Rightarrow> poll_opt \<Rightarrow> poll_opt" where
  "opt_bitxor a b = PollOpt (opt_bits a XOR opt_bits b)"

definition opt_bitand :: "poll_opt \<Rightarrow> poll_opt \<Rightarrow> poll_opt" where
  "opt_bitand a b = PollOpt (opt_bits a AND opt_bits b)"

definition opt_sub :: "poll_opt \<Rightarrow> poll_opt \<Rightarrow> poll_opt" where
  "opt_sub a b = PollOpt (opt_bits a AND NOT (opt_bits b))"

definition opt_not :: "poll_opt \<Rightarrow> poll_opt" where
  "opt_not a = PollOpt (NOT (opt_bits a))"

definition opt_all :: poll_opt where
  "opt_all = opt_bitor (opt_bitor opt_edge opt_level) opt_oneshot"

definition opt_contains :: "poll_opt \<Rightarrow> poll_opt \<Rightarrow> bool" where
  "opt_contains self other \<longleftrightarrow> opt_bitand self other = other"

definition opt_insert :: "poll_opt \<Rightarrow> poll_opt \<Rightarrow> poll_opt" where
  "opt_insert self other = PollOpt (opt_bits self OR opt_bits other)"

definition opt_remove :: "poll_opt \<Rightarrow> poll_opt \<Rightarrow> poll_opt" where
  "opt_remove self other = PollOpt (opt_bits self AND NOT (opt_bits other))"

definition opt_is_edge :: "poll_opt \<Rightarrow> bool" where
  "opt_is_edge o' = opt_contains o' opt_edge"

definition opt_is_level :: "poll_opt \<Rightarrow> bool" where
  "opt_is_level o' = opt_contains o' opt_level"

definition opt_is_oneshot :: "poll_opt \<Rightarrow> bool" where
  "opt_is_oneshot o' = opt_contains o' opt_oneshot"

definition opt_is_urgent :: "poll_opt \<Rightarrow> bool" where
  "opt_is_urgent o' = opt_contains o' opt_urgent"

definition opt_as_usize :: "poll_opt \<Rightarrow> usize" where
  "opt_as_usize opt = opt_bits opt"

definition opt_from_usize :: "usize \<Rightarrow> poll_opt" where
  "opt_from_usize opt = PollOpt opt"

definition opt_flags :: "(poll_opt \<times> string) list" where
  "opt_flags = [(opt_edge, ''Edge-Triggered''), (opt_level, ''Level-Triggered''),
     (opt_oneshot, ''OneShot'')]"

definition opt_fmt :: "poll_opt \<Rightarrow> string" where
  "opt_fmt self = fmt_flags opt_contains self opt_flags False"

subsection \<open>Events and job entries\<close>

datatype token_type =
  SocketEvent | NotifyEvent | TimersEvent | JobsEvent | TokenEvent | AcceptEvent | OtherEvent

record token_entry =
  ttype :: token_type
  te_token :: token

record event =
  ev_kind :: ready
  ev_token :: token_entry

definition event_new :: "ready \<Rightarrow> token_entry \<Rightarrow> event" where
  "event_new readiness tok = \<lparr>ev_kind = readiness, ev_token = tok\<rparr>"

text \<open>
  A job is a closure. \<open>Noop\<close> is the closure \<open>|_| {}\<close> the sources put where no job is wanted,
  \<open>PrintJob\<close> one that only prints a message, \<open>Job j\<close> one that the user (or a component above)
  supplied.
\<close>

datatype 'j job = Noop | PrintJob string | Job 'j

record 'j job_entry =
  je_token_entry :: token_entry
  je_job :: "'j job"
  je_ready :: ready

subsection \<open>The derived orders\<close>

text \<open>\<open>#[derive(PartialOrd, Ord)]\<close> on the one-field tuple structs compares the field.\<close>

instantiation token :: linorder
begin
definition less_eq_token :: "token \<Rightarrow> token \<Rightarrow> bool" where
  "less_eq_token a b \<longleftrightarrow> token_val a \<le> token_val b"
definition less_token :: "token \<Rightarrow> token \<Rightarrow> bool" where
  "less_token a b \<longleftrightarrow> token_val a < token_val b"
instance
  by standard (auto simp: less_eq_token_def less_token_def intro: token.expand)
end

instantiation ready :: linorder
begin
definition less_eq_ready :: "ready \<Rightarrow> ready \<Rightarrow> bool" where
  "less_eq_ready a b \<longleftrightarrow> ready_bits a \<le> ready_bits b"
definition less_ready :: "ready \<Rightarrow> ready \<Rightarrow> bool" where
  "less_ready a b \<longleftrightarrow> ready_bits a < ready_bits b"
instance
  by standard (auto simp: less_eq_ready_def less_ready_def intro: ready.expand)
end

instantiation poll_opt :: linorder
begin
definition less_eq_poll_opt :: "poll_opt \<Rightarrow> poll_opt \<Rightarrow> bool" where
  "less_eq_poll_opt a b \<longleftrightarrow> opt_bits a \<le> opt_bits b"
definition less_poll_opt :: "poll_opt \<Rightarrow> poll_opt \<Rightarrow> bool" where
  "less_poll_opt a b \<longleftrightarrow> opt_bits a < opt_bits b"
instance
  by standard (auto simp: less_eq_poll_opt_def less_poll_opt_def intro: poll_opt.expand)
end

subsection \<open>The algebra of the two flag sets\<close>

text \<open>
  \<open>Ready\<close> and \<open>PollOpt\<close> offer the same operations on a bit set. The contract is stated bit
  by bit; the facts below hold of every type that keeps it.
\<close>

locale flag_set =
  fixes cont :: "'f \<Rightarrow> 'f \<Rightarrow> bool"
    and ins :: "'f \<Rightarrow> 'f \<Rightarrow> 'f"
    and rem :: "'f \<Rightarrow> 'f \<Rightarrow> 'f"
    and inter :: "'f \<Rightarrow> 'f \<Rightarrow> 'f"
    and bits :: "'f \<Rightarrow> usize"
  assumes cont_bits: "cont a b \<longleftrightarrow> (\<forall>n. bit (bits b) n \<longrightarrow> bit (bits a) n)"
    and ins_bits: "bit (bits (ins a b)) n \<longleftrightarrow> bit (bits a) n \<or> bit (bits b) n"
    and rem_bits: "bit (bits (rem a b)) n \<longleftrightarrow> bit (bits a) n \<and> \<not> bit (bits b) n"
    and inter_bits: "bit (bits (inter a b)) n \<longleftrightarrow> bit (bits a) n \<and> bit (bits b) n"
    and bits_inject: "bits a = bits b \<Longrightarrow> a = b"
begin

lemmas flag_bits = cont_bits ins_bits rem_bits inter_bits

lemma bits_eqI: "(\<And>n. bit (bits a) n \<longleftrightarrow> bit (bits b) n) \<Longrightarrow> a = b"
  by (rule bits_inject) (rule bit_eqI, simp)

lemma cont_refl: "cont a a"
  by (simp add: flag_bits)

lemma cont_trans: "cont a b \<Longrightarrow> cont b c \<Longrightarrow> cont a c"
  by (simp add: flag_bits)

lemma cont_antisym: "cont a b \<Longrightarrow> cont b a \<Longrightarrow> a = b"
  by (rule bits_eqI) (auto simp: flag_bits)

lemma cont_ins_iff: "cont c (ins a b) \<longleftrightarrow> cont c a \<and> cont c b"
  by (auto simp: flag_bits)

lemma cont_inter_iff: "cont (inter a b) c \<longleftrightarrow> cont a c \<and> cont b c"
  by (auto simp: flag_bits)

lemma cont_rem_iff: "cont (rem a b) c \<longleftrightarrow> cont a c \<and> bits (inter b c) = 0"
proof -
  have "bits (inter b c) = 0 \<longleftrightarrow> (\<forall>n. \<not> (bit (bits b) n \<and> bit (bits c) n))"
    by (simp add: word_eq_bits inter_bits)
  then show ?thesis by (auto simp: flag_bits)
qed

lemma ins_rem_absorb: "ins (rem a b) b = ins a b"
  by (rule bits_eqI) (auto simp: flag_bits)

lemma rem_ins_absorb: "rem (ins a b) b = rem a b"
  by (rule bits_eqI) (auto simp: flag_bits)

text \<open>What \<open>Debug\<close> writes: the placeholder exactly when no flag of the table is set.\<close>

lemma fmt_flags_not_empty:
  assumes "\<forall>(f, m) \<in> set fs. m \<noteq> [] \<and> hd m \<noteq> CHR ''(''"
  shows "fmt_flags cont r fs False = ''(empty)'' \<longleftrightarrow> (\<forall>(f, m) \<in> set fs. \<not> cont r f)"
  using assms
proof (induction fs)
  case (Cons fm fs)
  obtain f m where fm: "fm = (f, m)" by (cases fm)
  then obtain c ms where "m = c # ms" "c \<noteq> CHR ''(''" using Cons.prems by (cases m) auto
  then show ?case using Cons fm by auto
qed simp

end

lemma ready_contains_bits:
  "ready_contains a b \<longleftrightarrow> (\<forall>n. bit (ready_bits b) n \<longrightarrow> bit (ready_bits a) n)"
  by (cases a; cases b)
    (auto simp: ready_contains_def ready_bitand_def word_eq_bits bit_and_iff)

lemma opt_contains_bits:
  "opt_contains a b \<longleftrightarrow> (\<forall>n. bit (opt_bits b) n \<longrightarrow> bit (opt_bits a) n)"
  by (cases a; cases b)
    (auto simp: opt_contains_def opt_bitand_def word_eq_bits bit_and_iff)

interpretation ready_flag: flag_set ready_contains ready_insert ready_remove ready_bitand ready_bits
  by unfold_locales
    (auto simp: ready_contains_bits ready_insert_def ready_remove_def ready_bitand_def
      bit_or_iff bit_and_iff bit_not_iff intro: ready.expand dest: bit_imp_possible_bit)

interpretation opt_flag: flag_set opt_contains opt_insert opt_remove opt_bitand opt_bits
  by unfold_locales
    (auto simp: opt_contains_bits opt_insert_def opt_remove_def opt_bitand_def
      bit_or_iff bit_and_iff bit_not_iff intro: poll_opt.expand dest: bit_imp_possible_bit)

subsection \<open>Properties\<close>

text \<open>\<open>insert\<close> is the least upper bound and \<open>&\<close> the greatest lower bound of the
  containment order, \<open>remove\<close> takes away exactly the given flags.\<close>

theorem ready_flag_algebra:
  "(ready_contains c (ready_insert a b) \<longleftrightarrow> ready_contains c a \<and> ready_contains c b) \<and>
   (ready_contains (ready_bitand a b) c \<longleftrightarrow> ready_contains a c \<and> ready_contains b c) \<and>
   (ready_contains (ready_remove a b) c \<longleftrightarrow>
      ready_contains a c \<and> ready_is_empty (ready_bitand b c)) \<and>
   ready_remove (ready_insert a b) b = ready_remove a b"
proof -
  have "ready_is_empty (ready_bitand b c) \<longleftrightarrow> ready_bits (ready_bitand b c) = 0"
    by (cases "ready_bitand b c") (simp add: ready_is_empty_def ready_empty_def)
  then show ?thesis
    by (simp add: ready_flag.cont_ins_iff ready_flag.cont_inter_iff ready_flag.cont_rem_iff
        ready_flag.rem_ins_absorb)
qed

text \<open>\<open>Debug\<close> prints the placeholder exactly for a set with none of the four flags it
  knows, which is not the same as an empty set.\<close>

theorem ready_fmt_empty_iff:
  "ready_fmt r = ''(empty)'' \<longleftrightarrow>
     \<not> ready_is_readable r \<and> \<not> ready_is_writable r \<and> \<not> ready_is_error r \<and> \<not> ready_is_hup r"
proof -
  have "ready_fmt r = ''(empty)'' \<longleftrightarrow> (\<forall>(f, m) \<in> set ready_flags. \<not> ready_contains r f)"
    unfolding ready_fmt_def by (rule ready_flag.fmt_flags_not_empty) (simp add: ready_flags_def)
  then show ?thesis
    by (simp add: ready_flags_def ready_is_readable_def ready_is_writable_def
        ready_is_error_def ready_is_hup_def)
qed

text \<open>The priority flag of \<open>UnixReady\<close> contains the hang-up flag: every event reported
  with priority readiness also reads as a hang-up.\<close>

theorem priority_is_hup:
  "ready_is_hup (ready_insert r (ready_from_unix unix_priority))"
proof -
  have "ready_contains (ready_from_unix unix_priority) (Ready HUP)"
    by (simp add: ready_contains_def ready_bitand_def ready_from_unix_def unix_priority_def
        ready_from_usize_def ready_consts)
  then show ?thesis
    unfolding ready_is_hup_def
    using ready_flag.cont_trans ready_flag.cont_refl ready_flag.cont_ins_iff by blast
qed

end
