(* ===== verification/ReadinessState.thy ===== *)
theory ReadinessState
  imports EventImp
begin

unbundle bit_operations_syntax

section \<open>The packed readiness state\<close>

text \<open>
  \<open>ReadinessState\<close> of \<open>src/poll.rs\<close>: one \<open>usize\<close> that packs the readiness, the interest and the
  poll options of a node (four bits each), the read and write positions of its token
  buffer (two bits each) and the two flags \<open>queued\<close> and \<open>dropped\<close>. A failed
  \<open>debug_assert!\<close> and \<open>unreachable!\<close> are panics (\<open>None\<close>).
\<close>

definition READINESS_SHIFT :: nat where "READINESS_SHIFT = 0"
definition INTEREST_SHIFT :: nat where "INTEREST_SHIFT = 4"
definition POLL_OPT_SHIFT :: nat where "POLL_OPT_SHIFT = 8"
definition TOKEN_RD_SHIFT :: nat where "TOKEN_RD_SHIFT = 12"
definition TOKEN_WR_SHIFT :: nat where "TOKEN_WR_SHIFT = 14"
definition QUEUED_SHIFT :: nat where "QUEUED_SHIFT = 16"
definition DROPPED_SHIFT :: nat where "DROPPED_SHIFT = 17"

definition MASK_2 :: usize where "MASK_2 = 4 - 1"
definition MASK_4 :: usize where "MASK_4 = 16 - 1"
definition QUEUED_MASK :: usize where "QUEUED_MASK = push_bit QUEUED_SHIFT 1"
definition DROPPED_MASK :: usize where "DROPPED_MASK = push_bit DROPPED_SHIFT 1"

lemmas shift_defs = READINESS_SHIFT_def INTEREST_SHIFT_def POLL_OPT_SHIFT_def
  TOKEN_RD_SHIFT_def TOKEN_WR_SHIFT_def QUEUED_SHIFT_def DROPPED_SHIFT_def

datatype readiness_state = ReadinessState (rs_val: usize)

definition rs_new :: "ready \<Rightarrow> poll_opt \<Rightarrow> readiness_state option" where
  "rs_new interest opt =
     (let interest = ready_as_usize interest; opt = opt_as_usize opt
      in if \<not> interest \<le> MASK_4 then None
         else if \<not> opt \<le> MASK_4 then None
         else (let val = push_bit INTEREST_SHIFT interest;
                   val = val OR push_bit POLL_OPT_SHIFT opt
               in Some (ReadinessState val)))"

definition rs_get :: "readiness_state \<Rightarrow> usize \<Rightarrow> nat \<Rightarrow> usize" where
  "rs_get self msk shift = drop_bit shift (rs_val self) AND msk"

definition rs_set :: "readiness_state \<Rightarrow> usize \<Rightarrow> usize \<Rightarrow> nat \<Rightarrow> readiness_state" where
  "rs_set self val msk shift =
     ReadinessState ((rs_val self AND NOT (push_bit shift msk)) OR push_bit shift val)"

definition rs_readiness :: "readiness_state \<Rightarrow> ready" where
  "rs_readiness self = ready_from_usize (rs_get self MASK_4 READINESS_SHIFT)"

definition rs_interest :: "readiness_state \<Rightarrow> ready" where
  "rs_interest self = ready_from_usize (rs_get self MASK_4 INTEREST_SHIFT)"

definition rs_poll_opt :: "readiness_state \<Rightarrow> poll_opt" where
  "rs_poll_opt self = opt_from_usize (rs_get self MASK_4 POLL_OPT_SHIFT)"

definition rs_effective_readiness :: "readiness_state \<Rightarrow> ready" where
  "rs_effective_readiness self = ready_bitand (rs_readiness self) (rs_interest self)"

definition rs_set_readiness :: "readiness_state \<Rightarrow> ready \<Rightarrow> readiness_state" where
  "rs_set_readiness self v = rs_set self (ready_as_usize v) MASK_4 READINESS_SHIFT"

definition rs_set_interest :: "readiness_state \<Rightarrow> ready \<Rightarrow> readiness_state" where
  "rs_set_interest self v = rs_set self (ready_as_usize v) MASK_4 INTEREST_SHIFT"

definition rs_set_poll_opt :: "readiness_state \<Rightarrow> poll_opt \<Rightarrow> readiness_state" where
  "rs_set_poll_opt self v = rs_set self (opt_as_usize v) MASK_4 POLL_OPT_SHIFT"

definition rs_disarm :: "readiness_state \<Rightarrow> readiness_state" where
  "rs_disarm self = rs_set_interest self ready_empty"

definition rs_is_queued :: "readiness_state \<Rightarrow> bool" where
  "rs_is_queued self \<longleftrightarrow> rs_val self AND QUEUED_MASK = QUEUED_MASK"

definition rs_is_dropped :: "readiness_state \<Rightarrow> bool" where
  "rs_is_dropped self \<longleftrightarrow> rs_val self AND DROPPED_MASK = DROPPED_MASK"

definition rs_set_queued :: "readiness_state \<Rightarrow> readiness_state option" where
  "rs_set_queued self =
     (if rs_is_dropped self then None else Some (ReadinessState (rs_val self OR QUEUED_MASK)))"

definition rs_set_dequeued :: "readiness_state \<Rightarrow> readiness_state option" where
  "rs_set_dequeued self =
     (if \<not> rs_is_queued self then None
      else Some (ReadinessState (rs_val self AND NOT QUEUED_MASK)))"

definition rs_token_read_pos :: "readiness_state \<Rightarrow> usize" where
  "rs_token_read_pos self = rs_get self MASK_2 TOKEN_RD_SHIFT"

definition rs_token_write_pos :: "readiness_state \<Rightarrow> usize" where
  "rs_token_write_pos self = rs_get self MASK_2 TOKEN_WR_SHIFT"

definition rs_set_token_write_pos :: "readiness_state \<Rightarrow> usize \<Rightarrow> readiness_state" where
  "rs_set_token_write_pos self val = rs_set self val MASK_2 TOKEN_WR_SHIFT"

definition rs_update_token_read_pos :: "readiness_state \<Rightarrow> readiness_state" where
  "rs_update_token_read_pos self =
     (let val = rs_token_write_pos self in rs_set self val MASK_2 TOKEN_RD_SHIFT)"

definition rs_next_token_pos :: "readiness_state \<Rightarrow> usize option" where
  "rs_next_token_pos self =
     (let rd = rs_token_read_pos self; wr = rs_token_write_pos self
      in if wr = 0 then (if rd = 1 then Some 2 else if rd = 2 then Some 1
                         else if rd = 0 then Some 1 else None)
         else if wr = 1 then (if rd = 0 then Some 2 else if rd = 2 then Some 0
                         else if rd = 1 then Some 2 else None)
         else if wr = 2 then (if rd = 0 then Some 1 else if rd = 1 then Some 0
                         else if rd = 2 then Some 0 else None)
         else None)"

subsection \<open>Bit fields\<close>

text \<open>
  Every accessor goes through \<open>get\<close> and \<open>set\<close> with a mask of consecutive ones. A field is
  given by its mask, its shift and its width; two fields that do not overlap do not see
  each other's updates.
\<close>

locale bit_field =
  fixes msk :: usize and sh :: nat and wd :: nat
  assumes msk_bits: "bit msk n \<longleftrightarrow> n < wd"
    and msk_less: "unat msk < 2 ^ wd"
    and fits: "sh + wd \<le> 64"
begin

lemma get_bits: "bit (rs_get s msk sh) n \<longleftrightarrow> n < wd \<and> bit (rs_val s) (sh + n)"
  by (auto simp: rs_get_def bit_and_iff bit_drop_bit_eq msk_bits)

lemma le_msk_bits: "v \<le> msk \<Longrightarrow> bit v n \<Longrightarrow> n < wd"
proof -
  assume "v \<le> msk" "bit v n"
  then have "2 ^ n \<le> unat v" "unat v \<le> unat msk"
    by (simp_all add: bit_imp_exp_le word_le_nat_alt)
  with msk_less have "2 ^ n < (2 :: nat) ^ wd" by linarith
  then show "n < wd" by simp
qed

lemma set_bits:
  assumes "v \<le> msk"
  shows "bit (rs_val (rs_set s v msk sh)) n \<longleftrightarrow>
     (if sh \<le> n \<and> n < sh + wd then bit v (n - sh) else bit (rs_val s) n)"
proof (cases "sh \<le> n \<and> n < sh + wd")
  case True
  with fits show ?thesis
    by (auto simp: rs_set_def bit_or_iff bit_and_iff bit_not_iff bit_push_bit_iff msk_bits)
next
  case False
  with le_msk_bits[OF assms, of "n - sh"] show ?thesis
    by (auto simp: rs_set_def bit_or_iff bit_and_iff bit_not_iff bit_push_bit_iff msk_bits
        dest: bit_imp_le_length)
qed

lemma get_set: "v \<le> msk \<Longrightarrow> rs_get (rs_set s v msk sh) msk sh = v"
  by (rule bit_word_eqI) (auto simp: get_bits set_bits dest: le_msk_bits)

lemma get_le: "rs_get s msk sh \<le> msk"
  by (simp add: rs_get_def word_and_le1)

lemma get_or_flag: "(\<And>n. sh \<le> n \<Longrightarrow> n < sh + wd \<Longrightarrow> \<not> bit m n) \<Longrightarrow>
    rs_get (ReadinessState (w OR m)) msk sh = rs_get (ReadinessState w) msk sh"
  by (rule bit_word_eqI) (auto simp: get_bits bit_or_iff)

lemma get_and_not_flag: "(\<And>n. sh \<le> n \<Longrightarrow> n < sh + wd \<Longrightarrow> \<not> bit m n) \<Longrightarrow>
    rs_get (ReadinessState (w AND NOT m)) msk sh = rs_get (ReadinessState w) msk sh"
  using fits by (intro bit_word_eqI) (auto simp: get_bits bit_and_iff bit_not_iff)

lemma frame_bit:
  "v \<le> msk \<Longrightarrow> \<not> (sh \<le> n \<and> n < sh + wd) \<Longrightarrow> bit (rs_val (rs_set s v msk sh)) n = bit (rs_val s) n"
  by (auto simp: set_bits)

end

locale two_fields = a: bit_field m1 s1 w1 + b: bit_field m2 s2 w2
  for m1 s1 w1 m2 s2 w2 +
  assumes disjoint: "s1 + w1 \<le> s2 \<or> s2 + w2 \<le> s1"
begin

lemma get_set_other: "v \<le> m2 \<Longrightarrow> rs_get (rs_set s v m2 s2) m1 s1 = rs_get s m1 s1"
  using disjoint by (intro bit_word_eqI) (auto simp: a.get_bits b.set_bits)

lemma get_set_other': "v \<le> m1 \<Longrightarrow> rs_get (rs_set s v m1 s1) m2 s2 = rs_get s m2 s2"
  using disjoint by (intro bit_word_eqI) (auto simp: b.get_bits a.set_bits)

end

lemma MASK_4_bits: "bit MASK_4 n \<longleftrightarrow> n < 4"
proof -
  have *: "MASK_4 = mask 4" by (simp add: MASK_4_def mask_eq_exp_minus_1)
  show ?thesis unfolding * by (subst bit_mask_iff) auto
qed

lemma MASK_2_bits: "bit MASK_2 n \<longleftrightarrow> n < 2"
proof -
  have *: "MASK_2 = mask 2" by (simp add: MASK_2_def mask_eq_exp_minus_1)
  show ?thesis unfolding * by (subst bit_mask_iff) auto
qed

lemma unat_MASK [simp]: "unat MASK_4 = 15" "unat MASK_2 = 3"
  by (simp_all add: MASK_4_def MASK_2_def)

interpretation f_rdy: bit_field MASK_4 0 4
  by unfold_locales (simp_all add: MASK_4_bits)
interpretation f_int: bit_field MASK_4 4 4
  by unfold_locales (simp_all add: MASK_4_bits)
interpretation f_opt: bit_field MASK_4 8 4
  by unfold_locales (simp_all add: MASK_4_bits)
interpretation f_rd: bit_field MASK_2 12 2
  by unfold_locales (simp_all add: MASK_2_bits)
interpretation f_wr: bit_field MASK_2 14 2
  by unfold_locales (simp_all add: MASK_2_bits)

interpretation rdy_int: two_fields MASK_4 0 4 MASK_4 4 4 by unfold_locales simp
interpretation rdy_opt: two_fields MASK_4 0 4 MASK_4 8 4 by unfold_locales simp
interpretation rdy_rd: two_fields MASK_4 0 4 MASK_2 12 2 by unfold_locales simp
interpretation rdy_wr: two_fields MASK_4 0 4 MASK_2 14 2 by unfold_locales simp
interpretation int_opt: two_fields MASK_4 4 4 MASK_4 8 4 by unfold_locales simp
interpretation int_rd: two_fields MASK_4 4 4 MASK_2 12 2 by unfold_locales simp
interpretation int_wr: two_fields MASK_4 4 4 MASK_2 14 2 by unfold_locales simp
interpretation opt_rd: two_fields MASK_4 8 4 MASK_2 12 2 by unfold_locales simp
interpretation opt_wr: two_fields MASK_4 8 4 MASK_2 14 2 by unfold_locales simp
interpretation rd_wr: two_fields MASK_2 12 2 MASK_2 14 2 by unfold_locales simp

lemmas field_same = f_rdy.get_set f_int.get_set f_opt.get_set f_rd.get_set f_wr.get_set

lemmas field_other =
  rdy_int.get_set_other rdy_int.get_set_other' rdy_opt.get_set_other rdy_opt.get_set_other'
  rdy_rd.get_set_other rdy_rd.get_set_other' rdy_wr.get_set_other rdy_wr.get_set_other'
  int_opt.get_set_other int_opt.get_set_other' int_rd.get_set_other int_rd.get_set_other'
  int_wr.get_set_other int_wr.get_set_other' opt_rd.get_set_other opt_rd.get_set_other'
  opt_wr.get_set_other opt_wr.get_set_other' rd_wr.get_set_other rd_wr.get_set_other'

subsection \<open>The flags\<close>

lemma QUEUED_MASK_bits: "bit QUEUED_MASK n \<longleftrightarrow> n = 16"
  unfolding QUEUED_MASK_def QUEUED_SHIFT_def by (simp only: bit_push_bit_iff bit_1_iff) auto

lemma DROPPED_MASK_bits: "bit DROPPED_MASK n \<longleftrightarrow> n = 17"
  unfolding DROPPED_MASK_def DROPPED_SHIFT_def by (simp only: bit_push_bit_iff bit_1_iff) auto

lemma rs_is_queued_bit: "rs_is_queued s \<longleftrightarrow> bit (rs_val s) 16"
  by (auto simp: rs_is_queued_def word_eq_bits bit_and_iff QUEUED_MASK_bits)

lemma rs_is_dropped_bit: "rs_is_dropped s \<longleftrightarrow> bit (rs_val s) 17"
  by (auto simp: rs_is_dropped_def word_eq_bits bit_and_iff DROPPED_MASK_bits)

lemmas flag_bits = rs_is_queued_bit rs_is_dropped_bit

lemma flag_frame [simp]:
  assumes "v \<le> MASK_4"
  shows "rs_is_queued (rs_set s v MASK_4 0) = rs_is_queued s"
    and "rs_is_dropped (rs_set s v MASK_4 0) = rs_is_dropped s"
    and "rs_is_queued (rs_set s v MASK_4 4) = rs_is_queued s"
    and "rs_is_dropped (rs_set s v MASK_4 4) = rs_is_dropped s"
    and "rs_is_queued (rs_set s v MASK_4 8) = rs_is_queued s"
    and "rs_is_dropped (rs_set s v MASK_4 8) = rs_is_dropped s"
  using assms by (simp_all add: flag_bits f_rdy.set_bits f_int.set_bits f_opt.set_bits)

lemma flag_frame_pos [simp]:
  assumes "v \<le> MASK_2"
  shows "rs_is_queued (rs_set s v MASK_2 12) = rs_is_queued s"
    and "rs_is_dropped (rs_set s v MASK_2 12) = rs_is_dropped s"
    and "rs_is_queued (rs_set s v MASK_2 14) = rs_is_queued s"
    and "rs_is_dropped (rs_set s v MASK_2 14) = rs_is_dropped s"
  using assms by (simp_all add: flag_bits f_rd.set_bits f_wr.set_bits)

lemmas get_flags =
  f_rdy.get_or_flag f_int.get_or_flag f_opt.get_or_flag f_rd.get_or_flag f_wr.get_or_flag
  f_rdy.get_and_not_flag f_int.get_and_not_flag f_opt.get_and_not_flag f_rd.get_and_not_flag
  f_wr.get_and_not_flag

subsection \<open>The fields, and the operations as updates of the fields\<close>

text \<open>What a packed state says, field by field: the specification of the packing.\<close>

record state_view =
  v_readiness :: ready
  v_interest :: ready
  v_opt :: poll_opt
  v_read_pos :: usize
  v_write_pos :: usize
  v_queued :: bool
  v_dropped :: bool

definition rs_view :: "readiness_state \<Rightarrow> state_view" where
  "rs_view s = \<lparr>v_readiness = rs_readiness s, v_interest = rs_interest s, v_opt = rs_poll_opt s,
     v_read_pos = rs_token_read_pos s, v_write_pos = rs_token_write_pos s,
     v_queued = rs_is_queued s, v_dropped = rs_is_dropped s\<rparr>"

lemmas rs_getters = rs_readiness_def rs_interest_def rs_poll_opt_def rs_token_read_pos_def
  rs_token_write_pos_def

named_theorems view_simps \<open>the effect of each operation on the fields\<close>

lemma view_set_readiness [view_simps]:
  "ready_bits r \<le> MASK_4 \<Longrightarrow> rs_view (rs_set_readiness s r) = (rs_view s)\<lparr>v_readiness := r\<rparr>"
  by (cases r) (simp add: rs_view_def rs_getters rs_set_readiness_def ready_as_usize_def
      ready_from_usize_def shift_defs field_same field_other)

lemma view_set_interest [view_simps]:
  "ready_bits r \<le> MASK_4 \<Longrightarrow> rs_view (rs_set_interest s r) = (rs_view s)\<lparr>v_interest := r\<rparr>"
  by (cases r) (simp add: rs_view_def rs_getters rs_set_interest_def ready_as_usize_def
      ready_from_usize_def shift_defs field_same field_other)

lemma view_set_poll_opt [view_simps]:
  "opt_bits r \<le> MASK_4 \<Longrightarrow> rs_view (rs_set_poll_opt s r) = (rs_view s)\<lparr>v_opt := r\<rparr>"
  by (cases r) (simp add: rs_view_def rs_getters rs_set_poll_opt_def opt_as_usize_def
      opt_from_usize_def shift_defs field_same field_other)

lemma view_disarm [view_simps]: "rs_view (rs_disarm s) = (rs_view s)\<lparr>v_interest := ready_empty\<rparr>"
  unfolding rs_disarm_def by (rule view_set_interest) (simp add: ready_empty_def)

lemma view_set_token_write_pos [view_simps]:
  "p \<le> MASK_2 \<Longrightarrow> rs_view (rs_set_token_write_pos s p) = (rs_view s)\<lparr>v_write_pos := p\<rparr>"
  by (simp add: rs_view_def rs_getters rs_set_token_write_pos_def shift_defs field_same field_other)

lemma token_pos_le: "rs_token_write_pos s \<le> MASK_2" "rs_token_read_pos s \<le> MASK_2"
  by (simp_all add: rs_getters shift_defs f_wr.get_le f_rd.get_le)

lemma view_update_token_read_pos [view_simps]:
  "rs_view (rs_update_token_read_pos s) = (rs_view s)\<lparr>v_read_pos := v_write_pos (rs_view s)\<rparr>"
  using token_pos_le(1)[of s]
  by (simp add: rs_view_def rs_getters rs_update_token_read_pos_def Let_def shift_defs
      field_same field_other)

lemma rs_set_queued_iff [view_simps]:
  "rs_set_queued s = (if v_dropped (rs_view s) then None
     else Some (ReadinessState (rs_val s OR QUEUED_MASK)))"
  by (simp add: rs_set_queued_def rs_view_def)

lemma view_or_queued [view_simps]:
  "rs_view (ReadinessState (rs_val s OR QUEUED_MASK)) = (rs_view s)\<lparr>v_queued := True\<rparr>"
  by (simp add: rs_view_def rs_getters flag_bits bit_or_iff QUEUED_MASK_bits shift_defs get_flags)

lemma rs_set_dequeued_iff [view_simps]:
  "rs_set_dequeued s = (if v_queued (rs_view s)
     then Some (ReadinessState (rs_val s AND NOT QUEUED_MASK)) else None)"
  by (simp add: rs_set_dequeued_def rs_view_def)

lemma view_and_not_queued [view_simps]:
  "rs_view (ReadinessState (rs_val s AND NOT QUEUED_MASK)) = (rs_view s)\<lparr>v_queued := False\<rparr>"
  by (simp add: rs_view_def rs_getters flag_bits bit_and_iff bit_not_iff QUEUED_MASK_bits
      shift_defs get_flags)

lemma view_or_dropped_queued [view_simps]:
  "rs_view (ReadinessState (rs_val s OR (DROPPED_MASK OR QUEUED_MASK))) =
     (rs_view s)\<lparr>v_queued := True, v_dropped := True\<rparr>"
  by (simp add: rs_view_def rs_getters flag_bits bit_or_iff QUEUED_MASK_bits DROPPED_MASK_bits
      shift_defs get_flags)

lemma view_new [view_simps]:
  assumes "ready_bits i \<le> MASK_4" "opt_bits p \<le> MASK_4"
  shows "\<exists>s. rs_new i p = Some s \<and>
    rs_view s = \<lparr>v_readiness = ready_empty, v_interest = i, v_opt = p, v_read_pos = 0,
      v_write_pos = 0, v_queued = False, v_dropped = False\<rparr>"
proof -
  let ?z = "ReadinessState 0"
  let ?s = "rs_set (rs_set ?z (ready_bits i) MASK_4 4) (opt_bits p) MASK_4 8"
  have b: "bit (rs_val ?s) n = bit (push_bit 4 (ready_bits i) OR push_bit 8 (opt_bits p)) n" for n
    using assms f_int.le_msk_bits[of "ready_bits i" "n - 4"] f_opt.le_msk_bits[of "opt_bits p" "n - 8"]
    by (auto simp: f_opt.set_bits f_int.set_bits bit_or_iff bit_push_bit_iff
        dest: bit_imp_le_length)
  have "rs_val ?s = push_bit 4 (ready_bits i) OR push_bit 8 (opt_bits p)"
    by (rule bit_eqI) (rule b)
  then have s: "rs_new i p = Some ?s"
    using assms by (simp add: rs_new_def Let_def ready_as_usize_def opt_as_usize_def shift_defs)
      (metis readiness_state.collapse)
  have z: "rs_get ?z m k = 0" for m k by (simp add: rs_get_def)
  have "rs_view ?s = (rs_view ?z)\<lparr>v_interest := i, v_opt := p\<rparr>"
    using view_set_poll_opt[OF assms(2), of "rs_set_interest ?z i"] view_set_interest[OF assms(1), of ?z]
    by (simp add: rs_set_poll_opt_def rs_set_interest_def ready_as_usize_def opt_as_usize_def shift_defs)
  then show ?thesis
    using s by (simp add: rs_view_def rs_getters z ready_from_usize_def opt_from_usize_def
        ready_empty_def flag_bits)
qed

lemma effective_view: "rs_effective_readiness s = ready_bitand (v_readiness (rs_view s)) (v_interest (rs_view s))"
  by (simp add: rs_effective_readiness_def rs_view_def)

text \<open>C36. The packing implements the record of its fields: for arguments that fit their
  fields, each operation updates its own field and no other.\<close>

theorem readiness_state_refines_fields:
  assumes "ready_bits r \<le> MASK_4" and "opt_bits p \<le> MASK_4" and "w \<le> MASK_2"
  shows "rs_view (rs_set_readiness s r) = (rs_view s)\<lparr>v_readiness := r\<rparr> \<and>
    rs_view (rs_set_interest s r) = (rs_view s)\<lparr>v_interest := r\<rparr> \<and>
    rs_view (rs_set_poll_opt s p) = (rs_view s)\<lparr>v_opt := p\<rparr> \<and>
    rs_view (rs_disarm s) = (rs_view s)\<lparr>v_interest := ready_empty\<rparr> \<and>
    rs_view (rs_set_token_write_pos s w) = (rs_view s)\<lparr>v_write_pos := w\<rparr> \<and>
    rs_view (rs_update_token_read_pos s) = (rs_view s)\<lparr>v_read_pos := v_write_pos (rs_view s)\<rparr> \<and>
    map_option rs_view (rs_set_queued s) =
      (if v_dropped (rs_view s) then None else Some ((rs_view s)\<lparr>v_queued := True\<rparr>)) \<and>
    map_option rs_view (rs_set_dequeued s) =
      (if v_queued (rs_view s) then Some ((rs_view s)\<lparr>v_queued := False\<rparr>) else None) \<and>
    map_option rs_view (rs_new r p) = Some \<lparr>v_readiness = ready_empty, v_interest = r,
      v_opt = p, v_read_pos = 0, v_write_pos = 0, v_queued = False, v_dropped = False\<rparr>"
  using assms view_new[OF assms(1,2)] by (auto simp: view_simps)

theorem readiness_state_refines_fields_witness:
  "rs_view (rs_set_readiness (ReadinessState 0x30000) ready_readable) =
     (rs_view (ReadinessState 0x30000))\<lparr>v_readiness := ready_readable\<rparr> \<and>
   map_option rs_view (rs_set_queued (ReadinessState 0x30000)) = None"
  using readiness_state_refines_fields[of ready_readable opt_edge 2 "ReadinessState 0x30000"]
  by (simp add: ready_readable_def READABLE_def MASK_4_def opt_edge_def MASK_2_def
      rs_set_queued_def rs_is_dropped_bit DROPPED_MASK_bits)

lemma next_token_pos_cases:
  "case rs_next_token_pos s of
     None \<Rightarrow> rs_token_read_pos s = 3 \<or> rs_token_write_pos s = 3
   | Some q \<Rightarrow> q \<le> 2 \<and> q \<noteq> rs_token_read_pos s \<and> q \<noteq> rs_token_write_pos s"
proof -
  have four: "x = 0 \<or> x = 1 \<or> x = 2 \<or> x = 3" if "x \<le> 3" for x :: usize
  proof -
    have "unat x \<le> 3" using that by (simp add: word_le_nat_alt)
    then have "unat x = 0 \<or> unat x = 1 \<or> unat x = 2 \<or> unat x = 3" by linarith
    then show ?thesis by (auto simp: word_unat_eq_iff)
  qed
  have "rs_token_read_pos s \<le> 3" "rs_token_write_pos s \<le> 3"
    using token_pos_le[of s] by (simp_all add: MASK_2_def)
  from four[OF this(1)] four[OF this(2)] show ?thesis
    by (elim disjE) (simp_all add: rs_next_token_pos_def Let_def)
qed

text \<open>The token buffer has three slots: the next position is a slot that is neither the one
  a reader may be reading nor the one last written; the \<open>unreachable!\<close> arms are reached
  only from positions outside the buffer.\<close>

theorem next_token_pos_free:
  "case rs_next_token_pos s of
     None \<Rightarrow> rs_token_read_pos s = 3 \<or> rs_token_write_pos s = 3
   | Some q \<Rightarrow> q \<le> 2 \<and> q \<noteq> rs_token_read_pos s \<and> q \<noteq> rs_token_write_pos s"
  by (rule next_token_pos_cases)

text \<open>An argument that does not fit its field spills into the next one: setting the
  readiness to \<open>Ready::all()\<close> adds writable and error interest nobody registered.\<close>

theorem set_readiness_all_corrupts_interest:
  "rs_interest (rs_set_readiness s ready_all) =
     ready_bitor (rs_interest s) (ready_bitor ready_writable ready_error)"
proof -
  have "rs_get (rs_set s 0x6f MASK_4 0) MASK_4 4 = rs_get s MASK_4 4 OR 6"
  proof (rule bit_word_eqI)
    fix n
    have "drop_bit 4 (0x6f :: usize) = 6" by simp
    then have high: "bit (0x6f :: usize) (4 + n) = bit (6 :: usize) n"
      by (metis bit_drop_bit_eq comp_apply)
    have small: "n < 4" if "bit (6 :: usize) n"
    proof -
      have "(2 :: nat) ^ n < 2 ^ 4" using bit_imp_exp_le[OF that] by simp
      then show ?thesis using power_less_imp_less_exp[of 2 n 4] by simp
    qed
    show "bit (rs_get (rs_set s 0x6f MASK_4 0) MASK_4 4) n = bit (rs_get s MASK_4 4 OR 6) n"
      using high small
      by (auto simp: f_int.get_bits rs_set_def bit_or_iff bit_and_iff bit_not_iff MASK_4_bits
          dest: bit_imp_le_length)
  qed
  then show ?thesis
    by (simp add: rs_interest_def rs_set_readiness_def ready_as_usize_def ready_all_def READY_ALL_def
        ready_consts shift_defs ready_from_usize_def ready_bitor_def ready_writable_def ready_error_def)
qed

end
