(* ===== verification/Convert.thy ===== *)
theory Convert
  imports Prelude
begin

section \<open>Durations and their conversion to milliseconds\<close>

text \<open>
  \<open>std::time::Duration\<close> (whole seconds and fewer than \<open>10^9\<close> nanoseconds) and the conversion
  \<open>convert::millis\<close> of \<open>src/lib.rs\<close>, of which \<open>src/sys/unix/epoll.rs\<close> holds a second copy.
  It rounds up and saturates.
\<close>

record duration =
  as_secs :: u64
  subsec_nanos :: u32

definition duration_ok :: "duration \<Rightarrow> bool" where
  "duration_ok d \<longleftrightarrow> unat (subsec_nanos d) < 1000000000"

definition from_millis :: "u64 \<Rightarrow> duration" where
  "from_millis ms = \<lparr>as_secs = ms div 1000, subsec_nanos = ucast (ms mod 1000) * 1000000\<rparr>"

definition duration_zero :: duration where
  "duration_zero = \<lparr>as_secs = 0, subsec_nanos = 0\<rparr>"

definition NANOS_PER_MILLI :: u32 where "NANOS_PER_MILLI = 1000000"
definition MILLIS_PER_SEC :: u64 where "MILLIS_PER_SEC = 1000"

definition millis :: "duration \<Rightarrow> u64" where
  "millis d =
     (let ms = (subsec_nanos d + NANOS_PER_MILLI - 1) div NANOS_PER_MILLI
      in saturating_add (saturating_mul (as_secs d) MILLIS_PER_SEC) (ucast ms))"

text \<open>The duration in nanoseconds, the reference the conversion is measured against.\<close>

definition duration_nanos :: "duration \<Rightarrow> nat" where
  "duration_nanos d = unat (as_secs d) * 1000000000 + unat (subsec_nanos d)"

lemma unat_saturating_add: "unat (saturating_add a b) = min (unat a + unat b) (2 ^ 64 - 1)"
  by (auto simp: saturating_add_def unat_word_ariths)

lemma unat_saturating_mul: "unat (saturating_mul a b) = min (unat a * unat b) (2 ^ 64 - 1)"
  by (auto simp: saturating_mul_def unat_word_ariths)

lemma unat_ucast_u32: "unat (ucast (w :: u32) :: u64) = unat w"
proof -
  have "unat w < 2 ^ LENGTH(32)" by (rule unsigned_less)
  then show ?thesis by (simp add: unsigned_ucast_eq take_bit_nat_eq_self)
qed

lemma millis_nat:
  assumes "duration_ok d"
  shows "unat (millis d) = min ((duration_nanos d + 999999) div 1000000) (2 ^ 64 - 1)"
proof -
  let ?n = "unat (subsec_nanos d)"
  have n: "?n < 1000000000" using assms by (simp add: duration_ok_def)
  have eq: "subsec_nanos d + NANOS_PER_MILLI - 1 = subsec_nanos d + 999999"
    by (simp add: NANOS_PER_MILLI_def)
  have add: "unat (subsec_nanos d + 999999) = ?n + 999999"
    using n by (simp add: unat_word_ariths)
  then have ms: "unat ((subsec_nanos d + NANOS_PER_MILLI - 1) div NANOS_PER_MILLI) = (?n + 999999) div 1000000"
    unfolding eq by (simp add: NANOS_PER_MILLI_def unat_div_distrib)
  moreover note unat_ucast_u32
  moreover have "(duration_nanos d + 999999) div 1000000 =
      unat (as_secs d) * 1000 + (?n + 999999) div 1000000"
    by (simp add: duration_nanos_def)
  ultimately show ?thesis
    by (simp add: millis_def Let_def unat_saturating_add unat_saturating_mul MILLIS_PER_SEC_def)
qed

text \<open>The conversion is the duration in milliseconds rounded up, capped at the largest
  \<open>u64\<close>: no arithmetic in it wraps.\<close>

theorem millis_rounds_up:
  assumes "duration_ok d"
  shows "unat (millis d) = min ((duration_nanos d + 999999) div 1000000) (2 ^ 64 - 1)"
  by (rule millis_nat [OF assms])

theorem millis_rounds_up_witness:
  "unat (millis \<lparr>as_secs = 2, subsec_nanos = 1\<rparr>) = 2001"
  by (subst millis_rounds_up) (simp_all add: duration_ok_def duration_nanos_def)

end
