(* ===== verification/Epoll.thy ===== *)
theory Epoll
  imports EventImp Convert
begin

unbundle bit_operations_syntax

section \<open>The epoll selector\<close>

text \<open>
  \<open>src/sys/unix/epoll.rs\<close>: the map from descriptors to job entries, the translation between
  readiness and epoll's event masks, and \<open>select\<close>, \<open>register\<close>, \<open>reregister\<close> and
  \<open>deregister\<close>. The kernel is a parameter: \<open>k_ctl\<close> and \<open>k_wait\<close> are \<open>epoll_ctl\<close> and
  \<open>epoll_wait\<close>, each returning the kernel's next state. The masks are the values of the
  Linux ABI. Arguments of the logging macros are evaluated only when the level is enabled;
  where they can panic, the flag \<open>dbg\<close> says whether it is.
\<close>

definition EPOLLIN :: u32 where "EPOLLIN = 0x1"
definition EPOLLPRI :: u32 where "EPOLLPRI = 0x2"
definition EPOLLOUT :: u32 where "EPOLLOUT = 0x4"
definition EPOLLERR :: u32 where "EPOLLERR = 0x8"
definition EPOLLHUP :: u32 where "EPOLLHUP = 0x10"
definition EPOLLONESHOT :: u32 where "EPOLLONESHOT = 0x40000000"
definition EPOLLET :: u32 where "EPOLLET = 0x80000000"

lemmas epoll_consts = EPOLLIN_def EPOLLPRI_def EPOLLOUT_def EPOLLERR_def EPOLLHUP_def
  EPOLLONESHOT_def EPOLLET_def

record epoll_event =
  ee_events :: u32
  ee_u64 :: u64

datatype ctl_op = EPOLL_CTL_ADD | EPOLL_CTL_MOD | EPOLL_CTL_DEL

record 'k epoll_ops =
  k_ctl :: "'k \<Rightarrow> ctl_op \<Rightarrow> i32 \<Rightarrow> epoll_event \<Rightarrow> unit io_result \<times> 'k"
  k_wait :: "'k \<Rightarrow> nat \<Rightarrow> i32 \<Rightarrow> epoll_event list io_result \<times> 'k"

record ('j, 'k) selector =
  sel_id :: usize
  sel_kernel :: 'k
  sel_events_map :: "i32 \<rightharpoonup> 'j job_entry"

text \<open>\<open>Events\<close>: the raw events and the job entries found for them. The capacities are those of
  the two vectors; a push beyond one grows it.\<close>

record 'j events =
  evs_events :: "epoll_event list"
  evs_entries :: "'j job_entry list"
  evs_events_cap :: nat
  evs_entries_cap :: nat

definition events_with_capacity :: "nat \<Rightarrow> 'j events" where
  "events_with_capacity u =
     \<lparr>evs_events = [], evs_entries = [], evs_events_cap = u, evs_entries_cap = u\<rparr>"

definition events_len :: "'j events \<Rightarrow> nat" where
  "events_len e = length (evs_entries e)"

definition events_capacity :: "'j events \<Rightarrow> nat" where
  "events_capacity e = evs_entries_cap e"

definition events_is_empty :: "'j events \<Rightarrow> bool" where
  "events_is_empty e \<longleftrightarrow> evs_entries e = []"

definition events_get_mut :: "'j events \<Rightarrow> nat \<Rightarrow> 'j job_entry option" where
  "events_get_mut e idx = vec_get (evs_entries e) idx"

definition events_clear :: "'j events \<Rightarrow> 'j events" where
  "events_clear e = e\<lparr>evs_events := [], evs_entries := []\<rparr>"

definition push_raw :: "epoll_event \<Rightarrow> 'j events \<Rightarrow> 'j events" where
  "push_raw x e = e\<lparr>evs_events := evs_events e @ [x],
     evs_events_cap := max (evs_events_cap e) (Suc (length (evs_events e)))\<rparr>"

definition push_entry :: "'j job_entry \<Rightarrow> 'j events \<Rightarrow> 'j events" where
  "push_entry x e = e\<lparr>evs_entries := evs_entries e @ [x],
     evs_entries_cap := max (evs_entries_cap e) (Suc (length (evs_entries e)))\<rparr>"

subsection \<open>Event masks\<close>

definition ioevent_to_epoll :: "ready \<Rightarrow> poll_opt \<Rightarrow> u32" where
  "ioevent_to_epoll interest opts =
     (let kind = 0;
          kind = (if ready_is_readable interest then kind OR EPOLLIN else kind);
          kind = (if ready_is_writable interest then kind OR EPOLLOUT else kind);
          kind = (if unix_is_priority (unix_from_ready interest) then kind OR EPOLLPRI else kind);
          kind = (if opt_is_edge opts then kind OR EPOLLET else kind);
          kind = (if opt_is_level opts then kind AND NOT EPOLLET else kind);
          kind = (if opt_is_oneshot opts then kind OR EPOLLONESHOT else kind)
      in kind)"

definition ready_of_epoll :: "u32 \<Rightarrow> ready" where
  "ready_of_epoll epoll =
     (let kind = ready_empty;
          kind = (if epoll AND EPOLLIN \<noteq> 0 then ready_bitor kind ready_readable else kind);
          kind = (if epoll AND EPOLLOUT \<noteq> 0 then ready_bitor kind ready_writable else kind);
          kind = (if epoll AND EPOLLPRI \<noteq> 0
                  then ready_bitor (ready_bitor kind ready_readable) (ready_from_unix unix_priority)
                  else kind);
          kind = (if epoll AND EPOLLERR \<noteq> 0
                  then ready_bitor kind (ready_from_unix unix_error) else kind);
          kind = (if epoll AND EPOLLHUP \<noteq> 0
                  then ready_bitor kind (ready_from_unix unix_hup) else kind)
      in kind)"

definition events_get_ready :: "'j events \<Rightarrow> nat \<Rightarrow> ready option" where
  "events_get_ready e idx =
     map_option (\<lambda>ev. ready_of_epoll (ee_events ev)) (vec_get (evs_events e) idx)"

definition push_event :: "'j events \<Rightarrow> event \<Rightarrow> 'j job \<Rightarrow> 'j events" where
  "push_event e ev job =
     push_entry \<lparr>je_token_entry = ev_token ev, je_job = job, je_ready = ready_empty\<rparr>
       (push_raw \<lparr>ee_events = ioevent_to_epoll (ev_kind ev) opt_empty,
                  ee_u64 = usize_from_token (te_token (ev_token ev))\<rparr> e)"

subsection \<open>The operations of the selector\<close>

definition i32_max :: u64 where "i32_max = 0x7fffffff"

definition select_timeout_ms :: "duration option \<Rightarrow> i32" where
  "select_timeout_ms timeout =
     (case timeout of None \<Rightarrow> - 1 | Some to \<Rightarrow> ucast (min (millis to) i32_max))"

text \<open>
  The loop over the events \<open>epoll_wait\<close> returned. Its state is the descriptor map, the
  events and the pair \<open>notify_idx\<close>, \<open>has_notify\<close>; \<open>continue\<close> is the branch that leaves
  the entries as they are.
\<close>

definition select_step ::
    "nat \<Rightarrow> (i32 \<rightharpoonup> 'j job_entry) \<times> 'j events \<times> nat \<times> bool
       \<Rightarrow> ((i32 \<rightharpoonup> 'j job_entry) \<times> 'j events \<times> nat \<times> bool) option" where
  "select_step i st =
     (case st of (m, evts, notify_idx, has_notify) \<Rightarrow>
      do { ev \<leftarrow> vec_get (evs_events evts) i;
           let fd = (ucast (ee_u64 ev) :: i32);
           case m fd of
             Some job_entry \<Rightarrow>
               if ttype (je_token_entry job_entry) = NotifyEvent then Some (m, evts, i, True)
               else do { r \<leftarrow> events_get_ready evts i;
                         let job_entry = job_entry\<lparr>je_ready := r\<rparr>;
                         Some (m(fd \<mapsto> job_entry), push_entry job_entry evts,
                               notify_idx, has_notify) }
           | None \<Rightarrow> Some (m, evts, notify_idx, has_notify) })"

fun select_loop ::
    "nat list \<Rightarrow> (i32 \<rightharpoonup> 'j job_entry) \<times> 'j events \<times> nat \<times> bool
       \<Rightarrow> ((i32 \<rightharpoonup> 'j job_entry) \<times> 'j events \<times> nat \<times> bool) option" where
  "select_loop [] st = Some st"
| "select_loop (i # is) st = do { st \<leftarrow> select_step i st; select_loop is st }"

definition selector_select ::
    "'k epoll_ops \<Rightarrow> ('j, 'k) selector \<Rightarrow> 'j events \<Rightarrow> duration option
       \<Rightarrow> (bool io_result \<times> ('j, 'k) selector \<times> 'j events) option" where
  "selector_select K self evts timeout =
     (let evts = events_clear evts
      in case k_wait K (sel_kernel self) (evs_events_cap evts) (select_timeout_ms timeout) of
           (Inl e, k) \<Rightarrow> Some (Inl e, self\<lparr>sel_kernel := k\<rparr>, evts)
         | (Inr raw, k) \<Rightarrow>
             do { (m, evts, notify_idx, has_notify) \<leftarrow>
                    select_loop [0..<length raw]
                      (sel_events_map self, evts\<lparr>evs_events := raw\<rparr>, 0, False);
                  let self = self\<lparr>sel_kernel := k, sel_events_map := m\<rparr>;
                  if has_notify
                  then Some (Inr True, self, evts\<lparr>evs_events :=
                         take notify_idx (evs_events evts) @ drop (Suc notify_idx) (evs_events evts)\<rparr>)
                  else Some (Inr False, self, evts) })"

definition selector_register ::
    "'k epoll_ops \<Rightarrow> ('j, 'k) selector \<Rightarrow> i32 \<Rightarrow> token_entry \<Rightarrow> ready \<Rightarrow> poll_opt \<Rightarrow> 'j job
       \<Rightarrow> unit io_result \<times> ('j, 'k) selector" where
  "selector_register K self fd tok interests opts job =
     (let info = \<lparr>ee_events = ioevent_to_epoll interests opts, ee_u64 = scast fd\<rparr>;
          self = self\<lparr>sel_events_map := (sel_events_map self)(fd \<mapsto>
                   \<lparr>je_token_entry = tok, je_job = job, je_ready = ready_empty\<rparr>)\<rparr>
      in case k_ctl K (sel_kernel self) EPOLL_CTL_ADD fd info of
           (Inl e, k) \<Rightarrow> (Inl e, self\<lparr>sel_kernel := k\<rparr>)
         | (Inr _, k) \<Rightarrow> (Inr (), self\<lparr>sel_kernel := k\<rparr>))"

definition selector_reregister ::
    "'k epoll_ops \<Rightarrow> ('j, 'k) selector \<Rightarrow> i32 \<Rightarrow> token_entry \<Rightarrow> ready \<Rightarrow> poll_opt
       \<Rightarrow> unit io_result \<times> ('j, 'k) selector" where
  "selector_reregister K self fd tok interests opts =
     (let t = te_token tok;
          info = \<lparr>ee_events = ioevent_to_epoll interests opts, ee_u64 = usize_from_token t\<rparr>
      in case k_ctl K (sel_kernel self) EPOLL_CTL_MOD fd info of
           (Inl e, k) \<Rightarrow> (Inl e, self\<lparr>sel_kernel := k\<rparr>)
         | (Inr _, k) \<Rightarrow> (Inr (), self\<lparr>sel_kernel := k\<rparr>))"

definition selector_deregister ::
    "'k epoll_ops \<Rightarrow> bool \<Rightarrow> ('j, 'k) selector \<Rightarrow> i32
       \<Rightarrow> (unit io_result \<times> ('j, 'k) selector) option" where
  "selector_deregister K dbg self fd =
     (let info = \<lparr>ee_events = 0, ee_u64 = 0\<rparr>
      in case k_ctl K (sel_kernel self) EPOLL_CTL_DEL fd info of
           (Inl e, k) \<Rightarrow> Some (Inl e, self\<lparr>sel_kernel := k\<rparr>)
         | (Inr _, k) \<Rightarrow>
             (let v = sel_events_map self fd;
                  self = self\<lparr>sel_kernel := k, sel_events_map := (sel_events_map self)(fd := None)\<rparr>
              in if dbg \<and> v = None then None else Some (Inr (), self)))"

subsection \<open>Masks, bit by bit\<close>

lemma flag_test: "(w AND push_bit n 1 \<noteq> 0) \<longleftrightarrow> bit (w :: 'a :: len word) n"
  by (simp add: push_bit_eq_mult and_exp_eq_0_iff_not_bit)

lemma ready_flag_bit:
  "ready_is_readable r \<longleftrightarrow> bit (ready_bits r) 0"
  "ready_is_writable r \<longleftrightarrow> bit (ready_bits r) 1"
  "ready_is_error r \<longleftrightarrow> bit (ready_bits r) 2"
  "ready_is_hup r \<longleftrightarrow> bit (ready_bits r) 3"
proof -
  have exp: "bit ((2 :: usize) ^ k) n \<longleftrightarrow> n = k" if "k < 64" for k n
    using that by (auto simp: bit_exp_iff)
  have "bit READABLE n \<longleftrightarrow> n = 0" "bit WRITABLE n \<longleftrightarrow> n = 1" "bit ERROR n \<longleftrightarrow> n = 2"
    "bit HUP n \<longleftrightarrow> n = 3" for n
    using exp[of 0 n] exp[of 1 n] exp[of 2 n] exp[of 3 n] by (simp_all add: ready_consts)
  then show "ready_is_readable r \<longleftrightarrow> bit (ready_bits r) 0"
    "ready_is_writable r \<longleftrightarrow> bit (ready_bits r) 1"
    "ready_is_error r \<longleftrightarrow> bit (ready_bits r) 2"
    "ready_is_hup r \<longleftrightarrow> bit (ready_bits r) 3"
    by (simp_all add: ready_is_readable_def ready_is_writable_def ready_is_error_def
        ready_is_hup_def ready_contains_bits ready_readable_def ready_writable_def)
qed

lemma epoll_flag_bit:
  "w AND EPOLLIN \<noteq> 0 \<longleftrightarrow> bit w 0" "w AND EPOLLPRI \<noteq> 0 \<longleftrightarrow> bit w 1"
  "w AND EPOLLOUT \<noteq> 0 \<longleftrightarrow> bit w 2" "w AND EPOLLERR \<noteq> 0 \<longleftrightarrow> bit w 3"
  "w AND EPOLLHUP \<noteq> 0 \<longleftrightarrow> bit w 4"
  using and_exp_eq_0_iff_not_bit[of w 0] and_exp_eq_0_iff_not_bit[of w 1]
    and_exp_eq_0_iff_not_bit[of w 2] and_exp_eq_0_iff_not_bit[of w 3]
    and_exp_eq_0_iff_not_bit[of w 4]
  by (simp_all add: epoll_consts)

lemmas ready_of_epoll_bits = ready_of_epoll_def Let_def epoll_flag_bit ready_flag_bit
  ready_bitor_def ready_empty_def ready_readable_def ready_writable_def ready_from_unix_def
  unix_priority_def unix_error_def unix_hup_def ready_from_usize_def ready_consts

text \<open>What a raw event is reported as: readable for input or priority data, writable, error;
  and a hang-up also for mere priority data, because the priority flag holds the hang-up bit.\<close>

theorem get_ready_flags:
  "(ready_is_readable (ready_of_epoll w) \<longleftrightarrow> \<not> (w AND EPOLLIN = 0 \<and> w AND EPOLLPRI = 0)) \<and>
   (ready_is_writable (ready_of_epoll w) \<longleftrightarrow> w AND EPOLLOUT \<noteq> 0) \<and>
   (ready_is_error (ready_of_epoll w) \<longleftrightarrow> w AND EPOLLERR \<noteq> 0) \<and>
   (ready_is_hup (ready_of_epoll w) \<longleftrightarrow> \<not> (w AND EPOLLHUP = 0 \<and> w AND EPOLLPRI = 0))"
  by (auto simp: ready_of_epoll_bits bit_or_iff)

text \<open>The mask asked of the kernel: input, output and edge triggering exactly as
  requested, level taking precedence over edge, and one-shot.\<close>

theorem ioevent_to_epoll_flags:
  "(ioevent_to_epoll i o' AND EPOLLIN \<noteq> 0 \<longleftrightarrow> ready_is_readable i) \<and>
   (ioevent_to_epoll i o' AND EPOLLOUT \<noteq> 0 \<longleftrightarrow> ready_is_writable i) \<and>
   (ioevent_to_epoll i o' AND EPOLLET \<noteq> 0 \<longleftrightarrow> opt_is_edge o' \<and> \<not> opt_is_level o') \<and>
   (ioevent_to_epoll i o' AND EPOLLONESHOT \<noteq> 0 \<longleftrightarrow> opt_is_oneshot o')"
  by (simp add: ioevent_to_epoll_def Let_def epoll_consts)

subsection \<open>What \<open>select\<close> dispatches\<close>

definition dispatch_entry :: "(i32 \<rightharpoonup> 'j job_entry) \<Rightarrow> epoll_event \<Rightarrow> 'j job_entry list" where
  "dispatch_entry m ev =
     (case m (ucast (ee_u64 ev)) of
        None \<Rightarrow> []
      | Some je \<Rightarrow> if ttype (je_token_entry je) = NotifyEvent then []
                  else [je\<lparr>je_ready := ready_of_epoll (ee_events ev)\<rparr>])"

definition is_notify :: "(i32 \<rightharpoonup> 'j job_entry) \<Rightarrow> epoll_event \<Rightarrow> bool" where
  "is_notify m ev \<longleftrightarrow> (case m (ucast (ee_u64 ev)) of
      None \<Rightarrow> False | Some je \<Rightarrow> ttype (je_token_entry je) = NotifyEvent)"

text \<open>Two descriptor maps that differ at most in the readiness last reported.\<close>

definition same_jobs :: "(i32 \<rightharpoonup> 'j job_entry) \<Rightarrow> (i32 \<rightharpoonup> 'j job_entry) \<Rightarrow> bool" where
  "same_jobs m m' \<longleftrightarrow> (\<forall>fd. map_option (\<lambda>je. je\<lparr>je_ready := ready_empty\<rparr>) (m fd) =
                              map_option (\<lambda>je. je\<lparr>je_ready := ready_empty\<rparr>) (m' fd))"

lemma same_jobs_entry:
  assumes "same_jobs m m'"
  shows "m' fd = None \<longleftrightarrow> m fd = None"
    and "m' fd = Some je' \<Longrightarrow> \<exists>je. m fd = Some je \<and> je_token_entry je = je_token_entry je' \<and>
           je\<lparr>je_ready := r\<rparr> = je'\<lparr>je_ready := r\<rparr>"
proof -
  have *: "map_option (\<lambda>je. je\<lparr>je_ready := ready_empty\<rparr>) (m fd) =
      map_option (\<lambda>je. je\<lparr>je_ready := ready_empty\<rparr>) (m' fd)"
    using assms by (simp add: same_jobs_def)
  show "m' fd = None \<longleftrightarrow> m fd = None" using * by (cases "m fd"; cases "m' fd") auto
  assume "m' fd = Some je'"
  with * obtain je where "m fd = Some je" "je\<lparr>je_ready := ready_empty\<rparr> = je'\<lparr>je_ready := ready_empty\<rparr>"
    by (cases "m fd") auto
  then show "\<exists>je. m fd = Some je \<and> je_token_entry je = je_token_entry je' \<and>
      je\<lparr>je_ready := r\<rparr> = je'\<lparr>je_ready := r\<rparr>"
    by (intro exI[of _ je]) (cases je; cases je'; simp)
qed

lemma same_jobs_upd:
  "same_jobs m m' \<Longrightarrow> m' fd = Some je \<Longrightarrow> same_jobs m (m'(fd \<mapsto> je\<lparr>je_ready := r\<rparr>))"
  by (auto simp: same_jobs_def)

lemma dispatch_same_jobs:
  assumes "same_jobs m m'"
  shows "dispatch_entry m' ev = dispatch_entry m ev" "is_notify m' ev = is_notify m ev"
  using same_jobs_entry[OF assms, of "ucast (ee_u64 ev)"]
  by (auto simp: dispatch_entry_def is_notify_def split: option.splits)

lemma select_loop_spec:
  assumes "same_jobs m m'" "\<forall>i \<in> set is. i < length (evs_events evts)"
  shows "\<exists>m'' evts' ni. select_loop is (m', evts, n, h) = Some (m'', evts', ni,
      h \<or> (\<exists>i \<in> set is. is_notify m (evs_events evts ! i))) \<and> same_jobs m m'' \<and>
      evs_events evts' = evs_events evts \<and>
      evs_entries evts' = evs_entries evts @ concat (map (\<lambda>i. dispatch_entry m (evs_events evts ! i)) is)"
  using assms
proof (induction "is" arbitrary: m' evts n h)
  case (Cons i "is")
  let ?ev = "evs_events evts ! i"
  let ?fd = "ucast (ee_u64 ?ev) :: i32"
  have i: "i < length (evs_events evts)" using Cons.prems by simp
  note d = dispatch_same_jobs[OF Cons.prems(1), of ?ev]
  obtain m1 evts1 n1 where step: "select_step i (m', evts, n, h) = Some (m1, evts1, n1, h \<or> is_notify m' ?ev)"
    "same_jobs m m1" "evs_events evts1 = evs_events evts"
    "evs_entries evts1 = evs_entries evts @ dispatch_entry m' ?ev"
  proof (cases "m' ?fd")
    case None
    then show ?thesis
      using that[of m' evts n] Cons.prems i by (simp add: select_step_def dispatch_entry_def is_notify_def)
  next
    case (Some je)
    show ?thesis
    proof (cases "ttype (je_token_entry je) = NotifyEvent")
      case True
      then show ?thesis using that[of m' evts i] Cons.prems i Some
        by (simp add: select_step_def dispatch_entry_def is_notify_def)
    next
      case False
      let ?je = "je\<lparr>je_ready := ready_of_epoll (ee_events ?ev)\<rparr>"
      have "same_jobs m (m'(?fd \<mapsto> ?je))" using Cons.prems(1) Some by (rule same_jobs_upd)
      then show ?thesis using that[of "m'(?fd \<mapsto> ?je)" "push_entry ?je evts" n] False i Some
        by (simp add: select_step_def dispatch_entry_def is_notify_def events_get_ready_def
            push_entry_def Let_def)
    qed
  qed
  have "\<forall>i \<in> set is. i < length (evs_events evts1)" using Cons.prems step(3) by simp
  from Cons.IH[OF step(2) this, of n1 "h \<or> is_notify m ?ev"] show ?case
    using step d by (auto simp: disj_assoc)
qed (simp add: assms)

text \<open>The capacity of the entries grows only when they outgrow it.\<close>

lemma select_step_cap:
  assumes "select_step i (m, e, n, h) = Some (m', e', n', h')" "length (evs_entries e) \<le> evs_entries_cap e"
  shows "evs_entries_cap e' = max (evs_entries_cap e) (length (evs_entries e'))"
  using assms by (auto simp: select_step_def push_entry_def Let_def bind_Some_iff split: option.splits if_splits)

lemma select_loop_grows:
  "select_loop is st = Some st' \<Longrightarrow> length (evs_entries (fst (snd st))) \<le> length (evs_entries (fst (snd st')))"
proof (induction "is" arbitrary: st)
  case (Cons i "is")
  then obtain st1 where s1: "select_step i st = Some st1" "select_loop is st1 = Some st'"
    by (auto simp: bind_Some_iff)
  have "length (evs_entries (fst (snd st))) \<le> length (evs_entries (fst (snd st1)))"
    using s1(1) by (auto simp: select_step_def push_entry_def Let_def bind_Some_iff split: option.splits if_splits prod.splits)
  then show ?case using Cons.IH[OF s1(2)] by simp
qed simp

lemma select_loop_cap:
  "select_loop is st = Some st' \<Longrightarrow> length (evs_entries (fst (snd st))) \<le> evs_entries_cap (fst (snd st)) \<Longrightarrow>
    evs_entries_cap (fst (snd st')) = max (evs_entries_cap (fst (snd st))) (length (evs_entries (fst (snd st'))))"
proof (induction "is" arbitrary: st)
  case (Cons i "is")
  obtain m e n h where st: "st = (m, e, n, h)" by (cases st)
  obtain m1 e1 n1 h1 where s1: "select_step i (m, e, n, h) = Some (m1, e1, n1, h1)"
    "select_loop is (m1, e1, n1, h1) = Some st'"
    using Cons.prems(1) by (auto simp: st bind_Some_iff)
  have c: "evs_entries_cap e1 = max (evs_entries_cap e) (length (evs_entries e1))"
    using select_step_cap[OF s1(1)] Cons.prems(2) by (simp add: st)
  then have ih: "evs_entries_cap (fst (snd st')) = max (evs_entries_cap e1) (length (evs_entries (fst (snd st'))))"
    using Cons.IH[OF s1(2)] by simp
  have "length (evs_entries e1) \<le> length (evs_entries (fst (snd st')))"
    using select_loop_grows[OF s1(2)] by simp
  then show ?case unfolding ih c st by simp
qed (auto simp: max_def)

lemma select_spec:
  assumes "k_wait K (sel_kernel s) (evs_events_cap e) (select_timeout_ms t) = (Inr raw, k)"
  shows "\<exists>s' e'. selector_select K s e t = Some (Inr (\<exists>ev \<in> set raw. is_notify (sel_events_map s) ev), s', e') \<and>
    evs_entries e' = concat (map (dispatch_entry (sel_events_map s)) raw) \<and>
    sel_id s' = sel_id s \<and> sel_kernel s' = k \<and> same_jobs (sel_events_map s) (sel_events_map s') \<and>
    evs_entries_cap e' = max (evs_entries_cap e) (length (evs_entries e'))"
proof -
  let ?m = "sel_events_map s"
  let ?e = "(events_clear e)\<lparr>evs_events := raw\<rparr>"
  have "same_jobs ?m ?m" by (simp add: same_jobs_def)
  moreover have "\<forall>i \<in> set [0..<length raw]. i < length (evs_events ?e)" by simp
  ultimately obtain m'' e' ni where loop:
    "select_loop [0..<length raw] (?m, ?e, 0, False) = Some (m'', e', ni,
       \<exists>i \<in> {0..<length raw}. is_notify ?m (raw ! i))"
    "same_jobs ?m m''"
    "evs_entries e' = concat (map (\<lambda>i. dispatch_entry ?m (raw ! i)) [0..<length raw])"
    using select_loop_spec[of ?m ?m "[0..<length raw]" ?e 0 False] by (auto simp: events_clear_def)
  have "map (\<lambda>i. dispatch_entry ?m (raw ! i)) [0..<length raw] = map (dispatch_entry ?m) raw"
    by (rule nth_equalityI) simp_all
  moreover have "(\<exists>i \<in> {0..<length raw}. is_notify ?m (raw ! i)) \<longleftrightarrow> (\<exists>ev \<in> set raw. is_notify ?m ev)"
    by (auto simp: set_conv_nth) blast
  moreover have "evs_entries_cap e' = max (evs_entries_cap e) (length (evs_entries e'))"
    using select_loop_cap[OF loop(1)] by (simp add: events_clear_def)
  ultimately show ?thesis
    using loop assms by (auto simp: selector_select_def Let_def events_clear_def)
qed

text \<open>C35. \<open>select\<close> never panics: for whatever events the kernel returns it dispatches, in the
  kernel's order, one entry per event of a registered descriptor (with that descriptor's job
  and the reported readiness), reports a wake-up exactly when the notifier's descriptor is among
  them, and leaves every registration as it was.\<close>

theorem select_dispatches:
  assumes "k_wait K (sel_kernel s) (evs_events_cap e) (select_timeout_ms t) = (Inr raw, k)"
  shows "\<exists>s' e'. selector_select K s e t = Some (Inr (\<exists>ev \<in> set raw. is_notify (sel_events_map s) ev), s', e') \<and>
    evs_entries e' = concat (map (dispatch_entry (sel_events_map s)) raw) \<and>
    sel_id s' = sel_id s \<and> sel_kernel s' = k \<and> same_jobs (sel_events_map s) (sel_events_map s')"
  using select_spec[OF assms] by blast

theorem select_dispatches_witness:
  fixes K :: "nat epoll_ops"
  defines "K \<equiv> \<lparr>k_ctl = \<lambda>k _ _ _. (Inr (), k),
      k_wait = \<lambda>k _ _. (Inr [\<lparr>ee_events = 1, ee_u64 = 7\<rparr>, \<lparr>ee_events = 4, ee_u64 = 9\<rparr>], Suc k)\<rparr>"
  shows "\<exists>s' e'. selector_select K
      \<lparr>sel_id = 1, sel_kernel = 0, sel_events_map = [7 \<mapsto>
         \<lparr>je_token_entry = \<lparr>ttype = SocketEvent, te_token = Token 3\<rparr>, je_job = Job ''j'', je_ready = ready_empty\<rparr>]\<rparr>
      (events_with_capacity 8) None = Some (Inr False, s', e') \<and>
    evs_entries e' = [\<lparr>je_token_entry = \<lparr>ttype = SocketEvent, te_token = Token 3\<rparr>,
         je_job = Job ''j'', je_ready = ready_readable\<rparr>]"
  using select_dispatches[of K "\<lparr>sel_id = 1, sel_kernel = 0, sel_events_map = [7 \<mapsto>
         \<lparr>je_token_entry = \<lparr>ttype = SocketEvent, te_token = Token 3\<rparr>, je_job = Job ''j'', je_ready = ready_empty\<rparr>]\<rparr>"
      "events_with_capacity 8" None]
  by (force simp: K_def dispatch_entry_def is_notify_def ready_of_epoll_def Let_def epoll_consts
      ready_bitor_def ready_empty_def ready_readable_def READABLE_def)

subsection \<open>Registration\<close>

lemma ucast_scast_i32 [simp]: "ucast (scast (fd :: i32) :: u64) = fd"
  by (rule bit_word_eqI) (simp add: bit_word_ucast_iff bit_word_scast_iff bit_imp_le_length)

text \<open>
  What the code relies on from \<open>epoll\<close>: \<open>data k fd\<close> is the 64-bit datum the kernel in state
  \<open>k\<close> reports with events of \<open>fd\<close>, and a successful addition or modification sets it.
\<close>

definition kernel_keeps_data :: "'k epoll_ops \<Rightarrow> ('k \<Rightarrow> i32 \<Rightarrow> u64 option) \<Rightarrow> bool" where
  "kernel_keeps_data K data \<longleftrightarrow> (\<forall>k op fd info k'. op \<noteq> EPOLL_CTL_DEL \<longrightarrow>
     k_ctl K k op fd info = (Inr (), k') \<longrightarrow> data k' fd = Some (ee_u64 info))"

text \<open>The interest list as a map, the instance the witnesses use.\<close>

definition map_kernel :: "(i32 \<rightharpoonup> u64) epoll_ops" where
  "map_kernel = \<lparr>k_ctl = \<lambda>k op fd info. (Inr (), if op = EPOLL_CTL_DEL then k(fd := None)
       else k(fd \<mapsto> ee_u64 info)), k_wait = \<lambda>k _ _. (Inr [], k)\<rparr>"

lemma map_kernel_keeps_data: "kernel_keeps_data map_kernel (\<lambda>k. k)"
  by (auto simp: kernel_keeps_data_def map_kernel_def)



text \<open>A registration the kernel refuses is still recorded: the call returns the error and
  yet the descriptor's previous job has been replaced by the refused one.\<close>

theorem failed_register_replaces_job:
  assumes "fst (selector_register K s fd tok i o' job) = Inl err"
  shows "sel_events_map (snd (selector_register K s fd tok i o' job)) fd =
      Some \<lparr>je_token_entry = tok, je_job = job, je_ready = ready_empty\<rparr>"
  using assms by (auto simp: selector_register_def Let_def split: prod.splits sum.splits)

theorem failed_register_replaces_job_witness:
  fixes K :: "unit epoll_ops"
  defines "K \<equiv> \<lparr>k_ctl = \<lambda>k _ _ _. (Inl AlreadyExists, k), k_wait = \<lambda>k _ _. (Inr [], k)\<rparr>"
  shows "fst (selector_register K \<lparr>sel_id = 1, sel_kernel = (), sel_events_map = [5 \<mapsto>
       \<lparr>je_token_entry = \<lparr>ttype = SocketEvent, te_token = Token 3\<rparr>, je_job = Job ''old'', je_ready = ready_empty\<rparr>]\<rparr>
      5 \<lparr>ttype = SocketEvent, te_token = Token 4\<rparr> ready_readable opt_edge (Job ''new'')) = Inl AlreadyExists \<and>
    map_option je_job (sel_events_map (snd (selector_register K \<lparr>sel_id = 1, sel_kernel = (), sel_events_map = [5 \<mapsto>
       \<lparr>je_token_entry = \<lparr>ttype = SocketEvent, te_token = Token 3\<rparr>, je_job = Job ''old'', je_ready = ready_empty\<rparr>]\<rparr>
      5 \<lparr>ttype = SocketEvent, te_token = Token 4\<rparr> ready_readable opt_edge (Job ''new''))) 5) = Some (Job ''new'')"
    (is "fst ?r = _ \<and> _")
proof
  show *: "fst ?r = Inl AlreadyExists"
    by (simp add: selector_register_def K_def)
  show "map_option je_job (sel_events_map (snd ?r) 5) = Some (Job ''new'')"
    by (simp add: failed_register_replaces_job[OF *])
qed

text \<open>\<open>reregister\<close> hands the kernel the token in place of the descriptor: afterwards an event
  of the descriptor is looked up under the number of its token, so it goes to the job of
  whichever descriptor has that number, or to none.\<close>

theorem reregister_misroutes:
  assumes "kernel_keeps_data K data"
    and "selector_reregister K s fd tok i o' = (Inr (), s')"
    and "data (sel_kernel s') fd = Some (ee_u64 ev)"
  shows "dispatch_entry (sel_events_map s') ev =
      (case sel_events_map s (ucast (token_val (te_token tok))) of
         None \<Rightarrow> []
       | Some je \<Rightarrow> if ttype (je_token_entry je) = NotifyEvent then []
                   else [je\<lparr>je_ready := ready_of_epoll (ee_events ev)\<rparr>])"
proof -
  have "ee_u64 ev = token_val (te_token tok)" "sel_events_map s' = sel_events_map s"
    using assms by (cases "te_token tok";
      fastforce simp: selector_reregister_def Let_def kernel_keeps_data_def split: prod.splits sum.splits)+
  then show ?thesis by (simp add: dispatch_entry_def)
qed

theorem reregister_misroutes_witness:
  "dispatch_entry (sel_events_map (snd (selector_reregister map_kernel
      \<lparr>sel_id = 1, sel_kernel = [5 \<mapsto> 5], sel_events_map = [5 \<mapsto>
       \<lparr>je_token_entry = \<lparr>ttype = SocketEvent, te_token = Token 3\<rparr>, je_job = Job ''j'', je_ready = ready_empty\<rparr>]\<rparr>
      5 \<lparr>ttype = SocketEvent, te_token = Token 3\<rparr> ready_readable opt_edge)))
     \<lparr>ee_events = 1, ee_u64 = 3\<rparr> = []"
proof -
  have "selector_reregister map_kernel
      \<lparr>sel_id = 1, sel_kernel = [5 \<mapsto> 5], sel_events_map = [5 \<mapsto>
       \<lparr>je_token_entry = \<lparr>ttype = SocketEvent, te_token = Token 3\<rparr>, je_job = Job ''j'', je_ready = ready_empty\<rparr>]\<rparr>
      5 \<lparr>ttype = SocketEvent, te_token = Token 3\<rparr> ready_readable opt_edge =
    (Inr (), \<lparr>sel_id = 1, sel_kernel = [5 \<mapsto> 3], sel_events_map = [5 \<mapsto>
       \<lparr>je_token_entry = \<lparr>ttype = SocketEvent, te_token = Token 3\<rparr>, je_job = Job ''j'', je_ready = ready_empty\<rparr>]\<rparr>)"
    by (simp add: selector_reregister_def map_kernel_def)
  from reregister_misroutes[OF map_kernel_keeps_data this] show ?thesis
    by (simp add: selector_reregister_def map_kernel_def)
qed

text \<open>The timeout handed to \<open>epoll_wait\<close>: only an absent timeout waits forever; a given one
  is rounded up to milliseconds and capped, so it is never negative and is zero only for a
  zero duration.\<close>

theorem select_timeout_bounds:
  assumes "duration_ok d"
  shows "select_timeout_ms None = - 1 \<and> 0 \<le> sint (select_timeout_ms (Some d)) \<and>
    sint (select_timeout_ms (Some d)) =
      min (int ((duration_nanos d + 999999) div 1000000)) (2 ^ 31 - 1) \<and>
    (select_timeout_ms (Some d) = 0 \<longleftrightarrow> duration_nanos d = 0)"
proof -
  let ?m = "(duration_nanos d + 999999) div 1000000"
  let ?w = "select_timeout_ms (Some d)"
  have "unat (min (millis d) i32_max) = min ?m (2 ^ 31 - 1)"
    by (simp add: min_def word_le_nat_alt millis_nat[OF assms] i32_max_def)
  then have u: "unat ?w = min ?m (2 ^ 31 - 1)"
    by (simp add: select_timeout_ms_def unsigned_ucast_eq take_bit_nat_eq_self)
  then have s: "sint ?w = int (min ?m (2 ^ 31 - 1))"
    by (simp add: sint_uint uint_nat signed_take_bit_int_eq_self)
  have "?w = 0 \<longleftrightarrow> unat ?w = 0" by (simp add: unat_eq_zero)
  also have "\<dots> \<longleftrightarrow> duration_nanos d = 0" by (cases "duration_nanos d = 0") (simp_all add: u min_def div_greater_zero_iff)
  finally show ?thesis using s by (simp add: select_timeout_ms_def)
qed

theorem select_timeout_bounds_witness:
  "select_timeout_ms (Some \<lparr>as_secs = 3000000, subsec_nanos = 1\<rparr>) \<noteq> 0 \<and>
   sint (select_timeout_ms (Some \<lparr>as_secs = 3000000, subsec_nanos = 1\<rparr>)) = 2 ^ 31 - 1"
  using select_timeout_bounds[of "\<lparr>as_secs = 3000000, subsec_nanos = 1\<rparr>"]
  by (simp add: duration_ok_def duration_nanos_def)

end
