(* ===== verification/Awakener.thy ===== *)
theory Awakener
  imports Prelude
begin

section \<open>The awakener\<close>

text \<open>
  \<open>src/sys/unix/awakener.rs\<close>: a non-blocking pipe whose read end is registered with the
  selector. Writing a byte makes the selector return; \<open>cleanup\<close> reads until the pipe has
  nothing more. The two ends are one parameter, the pipe, with its two system calls.
\<close>

record 'p pipe_ops =
  pipe_write :: "'p \<Rightarrow> u8 list \<Rightarrow> nat io_result \<times> 'p"
  pipe_read :: "'p \<Rightarrow> nat \<Rightarrow> u8 list io_result \<times> 'p"

definition aw_wakeup :: "'p pipe_ops \<Rightarrow> 'p \<Rightarrow> unit io_result \<times> 'p" where
  "aw_wakeup P p =
     (case pipe_write P p [1] of
        (Inr _, p') \<Rightarrow> (Inr (), p')
      | (Inl e, p') \<Rightarrow> if e = WouldBlock then (Inr (), p') else (Inl e, p'))"

text \<open>The loop of \<open>cleanup\<close>: \<open>None\<close> would be a loop that never ends.\<close>

partial_function (option) aw_cleanup :: "'p pipe_ops \<Rightarrow> 'p \<Rightarrow> 'p option" where
  "aw_cleanup P p =
     (case pipe_read P p 128 of
        (Inr bytes, p') \<Rightarrow> if 0 < length bytes then aw_cleanup P p' else Some p'
      | (Inl _, p') \<Rightarrow> Some p')"

text \<open>What a non-blocking pipe of capacity \<open>cap\<close> documents; \<open>level\<close> counts the bytes in it.\<close>

locale nonblocking_pipe =
  fixes P :: "'p pipe_ops" and level :: "'p \<Rightarrow> nat" and cap :: nat
  assumes read_empty: "level p = 0 \<Longrightarrow> pipe_read P p n = (Inl WouldBlock, p)"
    and read_some: "0 < level p \<Longrightarrow> 0 < n \<Longrightarrow>
      \<exists>bs p'. pipe_read P p n = (Inr bs, p') \<and> length bs = min n (level p) \<and> level p' = level p - length bs"
    and write_byte: "level p < cap \<Longrightarrow> \<exists>p'. pipe_write P p [b] = (Inr 1, p') \<and> level p' = Suc (level p)"
    and write_full: "cap \<le> level p \<Longrightarrow> pipe_write P p [b] = (Inl WouldBlock, p)"
    and cap_pos: "0 < cap"
begin

lemma cleanup_drains: "\<exists>p'. aw_cleanup P p = Some p' \<and> level p' = 0"
proof (induction "level p" arbitrary: p rule: less_induct)
  case less
  show ?case
  proof (cases "level p = 0")
    case True
    then show ?thesis by (subst aw_cleanup.simps) (simp add: read_empty)
  next
    case False
    then obtain bs p' where r: "pipe_read P p 128 = (Inr bs, p')" "length bs = min 128 (level p)"
      "level p' = level p - length bs"
      using read_some[of p 128] by auto
    with False have "level p' < level p" "bs \<noteq> []" by auto
    from less[OF this(1)] show ?thesis using r(1) \<open>bs \<noteq> []\<close> by (subst aw_cleanup.simps) simp
  qed
qed

lemma wakeup_ok: "\<exists>p'. aw_wakeup P p = (Inr (), p') \<and> 0 < level p'"
proof (cases "level p < cap")
  case True
  then show ?thesis using write_byte[of p 1] by (auto simp: aw_wakeup_def)
next
  case False
  then show ?thesis using write_full[of p 1] cap_pos by (auto simp: aw_wakeup_def)
qed

end

text \<open>A byte counter of bounded capacity keeps the contract.\<close>

definition count_pipe :: "nat \<Rightarrow> nat pipe_ops" where
  "count_pipe c = \<lparr>
     pipe_write = \<lambda>p bs. (if p < c then (Inr 1, Suc p) else (Inl WouldBlock, p)),
     pipe_read = \<lambda>p n. (if p = 0 then (Inl WouldBlock, p)
                        else (Inr (replicate (min n p) 1), p - min n p))\<rparr>"

interpretation count_pipe: nonblocking_pipe "count_pipe 65536" "\<lambda>p. p" 65536
  by unfold_locales (auto simp: count_pipe_def)

text \<open>Waking up never fails for a full pipe, always leaves the pipe readable, and \<open>cleanup\<close>
  returns with the pipe empty, so a later wake-up is again seen as an edge.\<close>

theorem awakener_cycle:
  assumes "nonblocking_pipe P level cap"
  shows "\<exists>p1 p2. aw_wakeup P p = (Inr (), p1) \<and> 0 < level p1 \<and>
    aw_cleanup P p1 = Some p2 \<and> level p2 = 0"
  using nonblocking_pipe.wakeup_ok[OF assms, of p] nonblocking_pipe.cleanup_drains[OF assms] by blast

theorem awakener_cycle_witness:
  "\<exists>p1 p2. aw_wakeup (count_pipe 65536) 65536 = (Inr (), p1) \<and> 0 < p1 \<and>
     aw_cleanup (count_pipe 65536) p1 = Some p2 \<and> p2 = 0"
  using awakener_cycle[OF count_pipe.nonblocking_pipe_axioms, of 65536] by simp

end
