(* ===== verification/ReadinessQueue.thy ===== *)
theory ReadinessQueue
  imports ReadinessState Epoll Awakener
begin

unbundle bit_operations_syntax

section \<open>The readiness queue\<close>

text \<open>
  The intrusive multi-producer single-consumer queue of \<open>src/poll.rs\<close>: nodes on the heap linked by
  \<open>next_readiness\<close>, \<open>head_readiness\<close> where producers append, \<open>tail_readiness\<close> where the
  poller takes, and the three marker nodes. The heap is explicit: an address maps to its
  node while it is allocated, \<open>release_node\<close> frees it, and an access to a freed node is a
  panic (\<open>None\<close>), so a theorem that an operation returns is a memory-safety statement.

  A \<open>compare_exchange\<close> loop is one atomic read-modify-write: an iteration that fails
  writes nothing and starts again from the value it read. The operations are composed of
  these atomic pieces in the order of the source.
\<close>

datatype addr = EndMarker | SleepMarker | ClosedMarker | Node nat

record 'j rnode =
  nd_state :: readiness_state
  nd_token_0 :: token_entry
  nd_token_1 :: token_entry
  nd_token_2 :: token_entry
  nd_next :: "addr option"
  nd_update_lock :: bool
  nd_queue :: "nat option"
  nd_ref_count :: usize
  nd_job :: "'j job"

text \<open>
  \<open>rq_id\<close> identifies the queue (the pointer \<open>ReadinessNode.readiness_queue\<close> compares),
  \<open>rq_strong\<close> is the strong count of its \<open>Arc\<close>, \<open>rq_pipe\<close> the awakener's pipe.
\<close>

record ('j, 'p) rqueue =
  rq_id :: nat
  rq_heap :: "addr \<rightharpoonup> 'j rnode"
  rq_head :: addr
  rq_tail :: addr
  rq_strong :: usize
  rq_pipe :: 'p

datatype dequeue = Data addr | Empty | Inconsistent

definition null_token :: token_entry where
  "null_token = \<lparr>ttype = TokenEvent, te_token = Token 0\<rparr>"

definition node_new ::
    "nat option \<Rightarrow> token_entry \<Rightarrow> ready \<Rightarrow> poll_opt \<Rightarrow> usize \<Rightarrow> 'j rnode option" where
  "node_new queue tok interest opt ref_count =
     do { st \<leftarrow> rs_new interest opt;
          Some \<lparr>nd_state = st, nd_token_0 = tok, nd_token_1 = null_token, nd_token_2 = null_token,
                nd_next = None, nd_update_lock = False, nd_queue = queue,
                nd_ref_count = ref_count, nd_job = Noop\<rparr> }"

definition node_marker :: "'j rnode option" where
  "node_marker =
     do { st \<leftarrow> rs_new ready_empty opt_empty;
          Some \<lparr>nd_state = st, nd_token_0 = null_token, nd_token_1 = null_token,
                nd_token_2 = null_token, nd_next = None, nd_update_lock = False,
                nd_queue = None, nd_ref_count = 0, nd_job = Noop\<rparr> }"

definition rqueue_new :: "nat \<Rightarrow> 'p \<Rightarrow> ('j, 'p) rqueue option" where
  "rqueue_new qid pipe =
     do { end_marker \<leftarrow> node_marker;
          sleep_marker \<leftarrow> node_marker;
          closed_marker \<leftarrow> node_marker;
          Some \<lparr>rq_id = qid,
                rq_heap = [EndMarker \<mapsto> end_marker, SleepMarker \<mapsto> sleep_marker,
                           ClosedMarker \<mapsto> closed_marker],
                rq_head = EndMarker, rq_tail = EndMarker, rq_strong = 1, rq_pipe = pipe\<rparr> }"

subsection \<open>Access to the heap\<close>

definition node_modify :: "('j, 'p) rqueue \<Rightarrow> addr \<Rightarrow> ('j rnode \<Rightarrow> 'j rnode) \<Rightarrow> ('j, 'p) rqueue option" where
  "node_modify q a f =
     (case rq_heap q a of
        None \<Rightarrow> None
      | Some n \<Rightarrow> Some (q\<lparr>rq_heap := (rq_heap q)(a \<mapsto> f n)\<rparr>))"

definition release_node :: "('j, 'p) rqueue \<Rightarrow> addr \<Rightarrow> ('j, 'p) rqueue option" where
  "release_node q ptr =
     do { node \<leftarrow> rq_heap q ptr;
          q \<leftarrow> node_modify q ptr (\<lambda>n. n\<lparr>nd_ref_count := nd_ref_count n - 1\<rparr>);
          if nd_ref_count node \<noteq> 1 then Some q
          else (let q = q\<lparr>rq_heap := (rq_heap q)(ptr := None)\<rparr>
                in if nd_queue node = None then Some q
                   else Some (q\<lparr>rq_strong := rq_strong q - 1\<rparr>)) }"

subsection \<open>Appending\<close>

text \<open>
  \<open>enqueue_node\<close> up to the exchange of \<open>head_readiness\<close>: the old head, or \<open>None\<close> when the queue
  is closed and the node's reference has been given back instead.
\<close>

definition enqueue_swap :: "('j, 'p) rqueue \<Rightarrow> addr \<Rightarrow> (addr option \<times> ('j, 'p) rqueue) option" where
  "enqueue_swap q node_ptr =
     do { q \<leftarrow> node_modify q node_ptr (\<lambda>n. n\<lparr>nd_next := None\<rparr>);
          let prev = rq_head q;
          if prev = ClosedMarker
          then if node_ptr = ClosedMarker then None
               else if node_ptr = SleepMarker then None
               else if node_ptr \<noteq> EndMarker
                    then do { node \<leftarrow> rq_heap q node_ptr;
                              if nd_ref_count node < 2 then None
                              else do { q \<leftarrow> release_node q node_ptr; Some (None, q) } }
                    else Some (None, q)
          else Some (Some prev, q\<lparr>rq_head := node_ptr\<rparr>) }"

text \<open>The store of the old head's link, which completes the append.\<close>

definition enqueue_link :: "('j, 'p) rqueue \<Rightarrow> addr \<Rightarrow> addr \<Rightarrow> (bool \<times> ('j, 'p) rqueue) option" where
  "enqueue_link q prev node_ptr =
     do { p \<leftarrow> rq_heap q prev;
          if nd_next p \<noteq> None then None
          else do { q \<leftarrow> node_modify q prev (\<lambda>n. n\<lparr>nd_next := Some node_ptr\<rparr>);
                    Some (prev = SleepMarker, q) } }"

definition enqueue_node :: "('j, 'p) rqueue \<Rightarrow> addr \<Rightarrow> (bool \<times> ('j, 'p) rqueue) option" where
  "enqueue_node q node_ptr =
     do { (r, q) \<leftarrow> enqueue_swap q node_ptr;
          case r of None \<Rightarrow> Some (False, q) | Some prev \<Rightarrow> enqueue_link q prev node_ptr }"

definition rq_wakeup :: "'p pipe_ops \<Rightarrow> ('j, 'p) rqueue \<Rightarrow> unit io_result \<times> ('j, 'p) rqueue" where
  "rq_wakeup P q = (case aw_wakeup P (rq_pipe q) of (r, p) \<Rightarrow> (r, q\<lparr>rq_pipe := p\<rparr>))"

definition enqueue_node_with_wakeup ::
    "'p pipe_ops \<Rightarrow> ('j, 'p) rqueue \<Rightarrow> addr \<Rightarrow> (unit io_result \<times> ('j, 'p) rqueue) option" where
  "enqueue_node_with_wakeup P q node_ptr =
     do { (w, q) \<leftarrow> enqueue_node q node_ptr;
          if w then Some (rq_wakeup P q) else Some (Inr (), q) }"

text \<open>\<open>ReadinessNode::enqueue_with_wakeup\<close>: a node not yet associated with a queue is left alone.\<close>

definition node_enqueue_with_wakeup ::
    "'p pipe_ops \<Rightarrow> ('j, 'p) rqueue \<Rightarrow> addr \<Rightarrow> (unit io_result \<times> ('j, 'p) rqueue) option" where
  "node_enqueue_with_wakeup P q a =
     do { n \<leftarrow> rq_heap q a;
          if nd_queue n = None then Some (Inr (), q) else enqueue_node_with_wakeup P q a }"

subsection \<open>Taking\<close>

definition clear_sleep_marker :: "('j, 'p) rqueue \<Rightarrow> ('j, 'p) rqueue option" where
  "clear_sleep_marker q =
     (if rq_tail q \<noteq> SleepMarker then Some q
      else do { q \<leftarrow> node_modify q EndMarker (\<lambda>n. n\<lparr>nd_next := None\<rparr>);
                if rq_head q = SleepMarker
                then Some (q\<lparr>rq_head := EndMarker, rq_tail := EndMarker\<rparr>)
                else if rq_head q = EndMarker then None
                else Some q })"

definition is_marker :: "addr \<Rightarrow> bool" where
  "is_marker a \<longleftrightarrow> a = EndMarker \<or> a = SleepMarker \<or> a = ClosedMarker"

text \<open>\<open>dequeue_node\<close> after its first conditional, with \<open>tail\<close> and \<open>next\<close> as it left them.\<close>

definition dequeue_rest ::
    "('j, 'p) rqueue \<Rightarrow> addr option \<Rightarrow> addr \<Rightarrow> addr option \<Rightarrow> (dequeue \<times> ('j, 'p) rqueue) option" where
  "dequeue_rest q until tail nxt =
     (if Some tail = until then Some (Empty, q)
      else case nxt of
             Some n \<Rightarrow> Some (Data tail, q\<lparr>rq_tail := n\<rparr>)
           | None \<Rightarrow>
               if rq_head q \<noteq> tail then Some (Inconsistent, q)
               else do { (_, q) \<leftarrow> enqueue_node q EndMarker;
                         t \<leftarrow> rq_heap q tail;
                         case nd_next t of
                           Some n \<Rightarrow> Some (Data tail, q\<lparr>rq_tail := n\<rparr>)
                         | None \<Rightarrow> Some (Inconsistent, q) })"

definition dequeue_node ::
    "('j, 'p) rqueue \<Rightarrow> addr option \<Rightarrow> (dequeue \<times> ('j, 'p) rqueue) option" where
  "dequeue_node q until =
     (let tail = rq_tail q
      in do { t \<leftarrow> rq_heap q tail;
              let nxt = nd_next t;
              if is_marker tail
              then case nxt of
                     None \<Rightarrow> do { q \<leftarrow> clear_sleep_marker q; Some (Empty, q) }
                   | Some n \<Rightarrow> do { t' \<leftarrow> rq_heap q n;
                                    dequeue_rest (q\<lparr>rq_tail := n\<rparr>) until n (nd_next t') }
              else dequeue_rest q until tail nxt })"

definition prepare_for_sleep :: "('j, 'p) rqueue \<Rightarrow> (bool \<times> ('j, 'p) rqueue) option" where
  "prepare_for_sleep q =
     (if rq_tail q = SleepMarker then Some (rq_head q = SleepMarker, q)
      else if rq_tail q \<noteq> EndMarker then Some (False, q)
      else do { q \<leftarrow> node_modify q SleepMarker (\<lambda>n. n\<lparr>nd_next := None\<rparr>);
                if rq_head q = EndMarker
                then do { e \<leftarrow> rq_heap q EndMarker;
                          if nd_next e \<noteq> None then None
                          else Some (True, q\<lparr>rq_head := SleepMarker, rq_tail := SleepMarker\<rparr>) }
                else if rq_head q = SleepMarker then None
                else Some (False, q) })"

subsection \<open>Draining into the events\<close>

definition node_token :: "'j rnode \<Rightarrow> usize \<Rightarrow> token_entry option" where
  "node_token n pos =
     (if pos = 0 then Some (nd_token_0 n) else if pos = 1 then Some (nd_token_1 n)
      else if pos = 2 then Some (nd_token_2 n) else None)"

text \<open>
  The state transition of \<open>ReadinessQueue::poll\<close>, the body of its compare-and-swap loop:
  \<open>Inl\<close> for a dropped node, otherwise the new state and the readiness to report.
\<close>

definition poll_transition :: "readiness_state \<Rightarrow> (unit + readiness_state \<times> ready) option" where
  "poll_transition state =
     (if \<not> rs_is_queued state then None
      else if rs_is_dropped state then Some (Inl ())
      else (let readiness = rs_effective_readiness state; opt = rs_poll_opt state
            in do { nxt \<leftarrow> (if opt_is_edge opt
                            then do { n \<leftarrow> rs_set_dequeued state;
                                      Some (if opt_is_oneshot opt \<and> \<not> ready_is_empty readiness
                                            then rs_disarm n else n) }
                            else if ready_is_empty readiness then rs_set_dequeued state
                            else Some state);
                    Some (Inr (rs_update_token_read_pos nxt, readiness)) }))"

text \<open>The treatment of a dequeued node: the rest of the body of \<open>'outer\<close>.\<close>

definition poll_node ::
    "('j, 'p) rqueue \<Rightarrow> 'j events \<Rightarrow> addr option \<Rightarrow> addr
       \<Rightarrow> (('j, 'p) rqueue \<times> 'j events \<times> addr option) option" where
  "poll_node q dst until ptr =
     do { node \<leftarrow> rq_heap q ptr;
          tr \<leftarrow> poll_transition (nd_state node);
          case tr of
            Inl _ \<Rightarrow> do { q \<leftarrow> release_node q ptr; Some (q, dst, until) }
          | Inr (nxt, readiness) \<Rightarrow>
              do { q \<leftarrow> node_modify q ptr (\<lambda>n. n\<lparr>nd_state := nxt\<rparr>);
                   (q, until) \<leftarrow>
                     (if rs_is_queued nxt
                      then do { (_, q) \<leftarrow> enqueue_node q ptr;
                                Some (q, if until = None then Some ptr else until) }
                      else Some (q, until));
                   if \<not> ready_is_empty readiness
                   then do { node \<leftarrow> rq_heap q ptr;
                             tok \<leftarrow> node_token node (rs_token_read_pos nxt);
                             let dst = push_event dst (event_new readiness tok) (nd_job node);
                             q \<leftarrow> node_modify q ptr (\<lambda>n. n\<lparr>nd_job := Noop\<rparr>);
                             Some (q, dst, until) }
                   else Some (q, dst, until) } }"

text \<open>The loop \<open>'outer\<close>: \<open>None\<close> is a panic or a loop that does not end.\<close>

partial_function (option) poll_loop ::
    "('j, 'p) rqueue \<Rightarrow> 'j events \<Rightarrow> addr option \<Rightarrow> (('j, 'p) rqueue \<times> 'j events) option" where
  "poll_loop q dst until =
     (if events_len dst < events_capacity dst
      then (case dequeue_node q until of
              None \<Rightarrow> None
            | Some (Data ptr, q) \<Rightarrow>
                (case poll_node q dst until ptr of
                   None \<Rightarrow> None
                 | Some (q, dst, until) \<Rightarrow> poll_loop q dst until)
            | Some (_, q) \<Rightarrow> Some (q, dst))
      else Some (q, dst))"

definition rqueue_poll :: "('j, 'p) rqueue \<Rightarrow> 'j events \<Rightarrow> (('j, 'p) rqueue \<times> 'j events) option" where
  "rqueue_poll q dst =
     do { q \<leftarrow> (if events_len dst = events_capacity dst then clear_sleep_marker q else Some q);
          poll_loop q dst None }"

text \<open>\<open>Drop for ReadinessQueue\<close>: close the queue, then give back every node still in it.\<close>

partial_function (option) drain_loop :: "('j, 'p) rqueue \<Rightarrow> ('j, 'p) rqueue option" where
  "drain_loop q =
     (case dequeue_node q None of
        None \<Rightarrow> None
      | Some (Empty, q) \<Rightarrow> Some q
      | Some (Inconsistent, q) \<Rightarrow> drain_loop q
      | Some (Data ptr, q) \<Rightarrow>
          (case rq_heap q ptr of
             None \<Rightarrow> None
           | Some node \<Rightarrow>
               if rs_is_queued (nd_state node)
               then (case release_node q ptr of None \<Rightarrow> None | Some q \<Rightarrow> drain_loop q)
               else None))"

definition rqueue_drop :: "('j, 'p) rqueue \<Rightarrow> ('j, 'p) rqueue option" where
  "rqueue_drop q = do { (_, q) \<leftarrow> enqueue_node q ClosedMarker; drain_loop q }"

subsection \<open>The list a quiescent queue holds\<close>

text \<open>
  Between operations the queue is a list: from the tail along the links to the head. Only its
  first element may be a marker, the others are nodes; the nodes among them, in order, are
  the contents of the queue.
\<close>

fun linked :: "(addr \<rightharpoonup> 'j rnode) \<Rightarrow> addr list \<Rightarrow> bool" where
  "linked h [] \<longleftrightarrow> True"
| "linked h [a] \<longleftrightarrow> (\<exists>n. h a = Some n \<and> nd_next n = None)"
| "linked h (a # b # xs) \<longleftrightarrow> (\<exists>n. h a = Some n \<and> nd_next n = Some b) \<and> linked h (b # xs)"

definition queue_nodes :: "addr list \<Rightarrow> addr list" where
  "queue_nodes xs = filter (\<lambda>a. \<not> is_marker a) xs"

definition queue_inv :: "('j, 'p) rqueue \<Rightarrow> addr list \<Rightarrow> bool" where
  "queue_inv q xs \<longleftrightarrow> xs \<noteq> [] \<and> distinct xs \<and> linked (rq_heap q) xs \<and>
     rq_tail q = hd xs \<and> rq_head q = last xs \<and> hd xs \<noteq> ClosedMarker \<and>
     (\<forall>a \<in> set (tl xs). \<not> is_marker a) \<and>
     rq_heap q EndMarker \<noteq> None \<and> rq_heap q SleepMarker \<noteq> None \<and> rq_heap q ClosedMarker \<noteq> None"

text \<open>Two queues whose heaps differ at most in the links.\<close>

definition same_nodes :: "('j, 'p) rqueue \<Rightarrow> ('j, 'p) rqueue \<Rightarrow> bool" where
  "same_nodes q q' \<longleftrightarrow> rq_id q' = rq_id q \<and> rq_strong q' = rq_strong q \<and> rq_pipe q' = rq_pipe q \<and>
     (\<forall>a. map_option (\<lambda>n. n\<lparr>nd_next := None\<rparr>) (rq_heap q' a) =
          map_option (\<lambda>n. n\<lparr>nd_next := None\<rparr>) (rq_heap q a))"

lemma same_nodes_refl [simp]: "same_nodes q q"
  by (simp add: same_nodes_def)

lemma same_nodes_trans: "same_nodes p q \<Longrightarrow> same_nodes q r \<Longrightarrow> same_nodes p r"
  by (simp add: same_nodes_def)

lemma same_nodes_None: "same_nodes q q' \<Longrightarrow> rq_heap q' a = None \<longleftrightarrow> rq_heap q a = None"
proof -
  assume "same_nodes q q'"
  then have "map_option (\<lambda>n. n\<lparr>nd_next := None\<rparr>) (rq_heap q' a) =
      map_option (\<lambda>n. n\<lparr>nd_next := None\<rparr>) (rq_heap q a)"
    by (simp add: same_nodes_def)
  then show ?thesis by (cases "rq_heap q a"; cases "rq_heap q' a") auto
qed

lemma same_nodes_Some:
  assumes "same_nodes q q'" "rq_heap q' a = Some n'"
  obtains n where "rq_heap q a = Some n" "n' = n\<lparr>nd_next := nd_next n'\<rparr>"
proof -
  have "map_option (\<lambda>n. n\<lparr>nd_next := None\<rparr>) (rq_heap q' a) =
      map_option (\<lambda>n. n\<lparr>nd_next := None\<rparr>) (rq_heap q a)"
    using assms(1) by (simp add: same_nodes_def)
  then obtain n where "rq_heap q a = Some n" "n\<lparr>nd_next := None\<rparr> = n'\<lparr>nd_next := None\<rparr>"
    using assms(2) by (cases "rq_heap q a") auto
  then show ?thesis using that[of n] by (cases n; cases n') simp
qed

lemma linked_alloc: "linked h xs \<Longrightarrow> a \<in> set xs \<Longrightarrow> h a \<noteq> None"
  by (induction h xs rule: linked.induct) auto

lemma linked_cong:
  "(\<And>a. a \<in> set xs \<Longrightarrow> map_option nd_next (h' a) = map_option nd_next (h a)) \<Longrightarrow>
   linked h' xs = linked h xs"
proof (induction h xs rule: linked.induct)
  case (2 h a)
  then have "map_option nd_next (h' a) = map_option nd_next (h a)" by simp
  then show ?case by (cases "h a"; cases "h' a") auto
next
  case (3 h a b xs)
  then have "map_option nd_next (h' a) = map_option nd_next (h a)" "linked h' (b # xs) = linked h (b # xs)"
    by simp_all
  then show ?case by (cases "h a"; cases "h' a") auto
qed simp

lemma linked_ConsD: "linked h (a # xs) \<Longrightarrow> linked h xs"
  by (cases xs) auto

lemma linked_last: "linked h xs \<Longrightarrow> xs \<noteq> [] \<Longrightarrow> \<exists>n. h (last xs) = Some n \<and> nd_next n = None"
  by (induction h xs rule: linked.induct) auto

lemma linked_snoc:
  assumes "linked h xs" "xs \<noteq> []" "distinct (xs @ [a])" "h (last xs) = Some n" "h a = Some m" "nd_next m = None"
  shows "linked (h(last xs \<mapsto> n\<lparr>nd_next := Some a\<rparr>)) (xs @ [a])"
  using assms
proof (induction h xs rule: linked.induct)
  case (3 h b c xs)
  have "b \<noteq> last (c # xs)" using "3.prems"(3) by (metis distinct.simps(2) distinct_append last_in_set list.distinct(1))
  with 3 show ?case by auto
qed auto

lemma queue_nodes_eq:
  "queue_inv q xs \<Longrightarrow> queue_nodes xs = (if is_marker (hd xs) then tl xs else xs)"
  by (cases xs) (auto simp: queue_inv_def queue_nodes_def intro: filter_True)

lemma queue_invD:
  assumes "queue_inv q xs"
  shows "xs \<noteq> []" "distinct xs" "linked (rq_heap q) xs" "rq_tail q = hd xs" "rq_head q = last xs"
    "hd xs \<noteq> ClosedMarker" "a \<in> set (tl xs) \<Longrightarrow> \<not> is_marker a"
    "rq_heap q EndMarker \<noteq> None" "rq_heap q SleepMarker \<noteq> None" "rq_heap q ClosedMarker \<noteq> None"
  using assms by (auto simp: queue_inv_def)

lemma queue_inv_last: "queue_inv q xs \<Longrightarrow> last xs \<noteq> ClosedMarker"
  by (cases xs) (auto simp: queue_inv_def is_marker_def split: if_splits)

lemma enqueue_raw:
  assumes inv: "queue_inv q xs" and a: "a \<notin> set xs" "rq_heap q a \<noteq> None"
  shows "\<exists>q'. enqueue_node q a = Some (last xs = SleepMarker, q') \<and> linked (rq_heap q') (xs @ [a]) \<and>
    rq_head q' = a \<and> rq_tail q' = rq_tail q \<and> same_nodes q q'"
proof -
  obtain m where m: "rq_heap q a = Some m" using a(2) by auto
  let ?h = "(rq_heap q)(a \<mapsto> m\<lparr>nd_next := None\<rparr>)"
  note xs = queue_invD[OF inv]
  have "linked ?h xs = linked (rq_heap q) xs" using a(1) by (intro linked_cong) auto
  with xs have l: "linked ?h xs" by simp
  from linked_last[OF l xs(1)] obtain n where n: "?h (last xs) = Some n" "nd_next n = None" by auto
  have ne: "last xs \<noteq> a" using a(1) xs(1) by (metis last_in_set)
  let ?h' = "?h(last xs \<mapsto> n\<lparr>nd_next := Some a\<rparr>)"
  let ?q' = "q\<lparr>rq_heap := ?h', rq_head := a\<rparr>"
  have "enqueue_node q a = Some (last xs = SleepMarker, ?q')"
    using m n ne xs(5) queue_inv_last[OF inv]
    by (simp add: enqueue_node_def enqueue_swap_def enqueue_link_def node_modify_def Let_def)
  moreover have "linked ?h' (xs @ [a])"
    by (rule linked_snoc[OF l xs(1) _ n(1)]) (use a(1) xs(2) in auto)
  moreover have "same_nodes q ?q'"
    using m n ne by (auto simp: same_nodes_def)
  ultimately show ?thesis by fastforce
qed

lemma enqueue_node_spec:
  assumes inv: "queue_inv q xs" and a: "\<not> is_marker a" "a \<notin> set xs" "rq_heap q a \<noteq> None"
  shows "\<exists>q'. enqueue_node q a = Some (last xs = SleepMarker, q') \<and> queue_inv q' (xs @ [a]) \<and>
    same_nodes q q'"
proof -
  obtain q' where q': "enqueue_node q a = Some (last xs = SleepMarker, q')"
    "linked (rq_heap q') (xs @ [a])" "rq_head q' = a" "rq_tail q' = rq_tail q" "same_nodes q q'"
    using enqueue_raw[OF inv a(2,3)] by blast
  have "queue_inv q' (xs @ [a])"
    using q' queue_invD[OF inv] a same_nodes_None[OF q'(5)]
    by (cases xs) (auto simp: queue_inv_def)
  with q' show ?thesis by blast
qed

lemma clear_sleep_marker_spec:
  assumes inv: "queue_inv q xs"
  shows "\<exists>q'. clear_sleep_marker q = Some q' \<and> same_nodes q q' \<and>
    queue_inv q' (if xs = [SleepMarker] then [EndMarker] else xs)"
proof (cases "hd xs = SleepMarker")
  case False
  then have "clear_sleep_marker q = Some q"
    using queue_invD(4)[OF inv] by (simp add: clear_sleep_marker_def)
  with False inv show ?thesis by (intro exI[of _ q]) auto
next
  case True
  note xs = queue_invD[OF inv]
  obtain e where e: "rq_heap q EndMarker = Some e" using xs(8) by auto
  let ?q = "q\<lparr>rq_heap := (rq_heap q)(EndMarker \<mapsto> e\<lparr>nd_next := None\<rparr>)\<rparr>"
  have s: "same_nodes q ?q" using e by (auto simp: same_nodes_def)
  have notin: "EndMarker \<notin> set xs"
    using True xs(1,7) by (cases xs) (auto simp: is_marker_def)
  show ?thesis
  proof (cases "xs = [SleepMarker]")
    case single: True
    let ?q' = "?q\<lparr>rq_head := EndMarker, rq_tail := EndMarker\<rparr>"
    have "clear_sleep_marker q = Some ?q'"
      using single xs(4,5) e by (simp add: clear_sleep_marker_def node_modify_def)
    moreover have "same_nodes q ?q'" using s by (simp add: same_nodes_def)
    moreover have "queue_inv ?q' [EndMarker]"
      using xs(8-10) by (auto simp: queue_inv_def)
    ultimately show ?thesis using single by auto
  next
    case more: False
    then have "tl xs \<noteq> []" using True xs(1) by (cases xs) auto
    then have "last xs \<in> set (tl xs)" by (metis last_in_set last_tl)
    then have "\<not> is_marker (last xs)" using xs(7) by blast
    then have "last xs \<noteq> SleepMarker" "last xs \<noteq> EndMarker" by (auto simp: is_marker_def)
    then have "clear_sleep_marker q = Some ?q"
      using True xs(4,5) e by (simp add: clear_sleep_marker_def node_modify_def)
    moreover have "queue_inv ?q xs"
    proof -
      have "linked (rq_heap ?q) xs = linked (rq_heap q) xs"
        using notin by (intro linked_cong) auto
      then show ?thesis using inv by (auto simp: queue_inv_def)
    qed
    ultimately show ?thesis using s more by auto
  qed
qed

lemma dequeue_rest_spec:
  assumes inv: "queue_inv q (a # r)" and a: "\<not> is_marker a" and n: "rq_heap q a = Some n"
  shows "\<exists>q' xs'. dequeue_rest q until a (nd_next n) =
      Some (if Some a = until then Empty else Data a, q') \<and> queue_inv q' xs' \<and> same_nodes q q' \<and>
      queue_nodes xs' = (if Some a = until then a # r else r)"
proof (cases "Some a = until")
  case True
  have "queue_nodes (a # r) = a # r" using queue_nodes_eq[OF inv] a by simp
  then show ?thesis using True inv
    by (intro exI[of _ q] exI[of _ "a # r"]) (auto simp: dequeue_rest_def)
next
  case False
  note xs = queue_invD[OF inv]
  show ?thesis
  proof (cases r)
    case (Cons b bs)
    let ?q' = "q\<lparr>rq_tail := b\<rparr>"
    have "nd_next n = Some b" using xs(3) Cons n by simp
    moreover have b: "\<not> is_marker b" using xs(7) Cons by simp
    moreover have "queue_inv ?q' r"
      using inv b Cons by (auto simp: queue_inv_def is_marker_def)
    moreover have "queue_nodes r = r"
      using queue_nodes_eq[OF calculation(3)] b Cons by simp
    ultimately show ?thesis using False
      by (intro exI[of _ ?q'] exI[of _ r]) (simp add: dequeue_rest_def same_nodes_def)
  next
    case Nil
    have nn: "nd_next n = None" using xs(3) Nil n by simp
    have "EndMarker \<notin> set (a # r)" using a Nil by (auto simp: is_marker_def)
    from enqueue_raw[OF inv this xs(8)] obtain w q1 where q1: "enqueue_node q EndMarker = Some (w, q1)"
      "linked (rq_heap q1) [a, EndMarker]" "rq_head q1 = EndMarker" "same_nodes q q1"
      using Nil by auto
    then obtain n1 where n1: "rq_heap q1 a = Some n1" "nd_next n1 = Some EndMarker"
      "linked (rq_heap q1) [EndMarker]" by auto
    let ?q' = "q1\<lparr>rq_tail := EndMarker\<rparr>"
    have "dequeue_rest q until a (nd_next n) = Some (Data a, ?q')"
      using False nn xs(5) Nil q1 n1 by (simp add: dequeue_rest_def)
    moreover have "queue_inv ?q' [EndMarker]"
      using n1(3) q1(3) xs(8-10) same_nodes_None[OF q1(4)]
      by (simp add: queue_inv_def del: linked.simps)
    moreover have "same_nodes q ?q'" using q1(4) by (simp add: same_nodes_def)
    ultimately show ?thesis using False Nil
      by (intro exI[of _ ?q'] exI[of _ "[EndMarker]"]) (simp add: queue_nodes_def is_marker_def)
  qed
qed

text \<open>
  Taking from a quiescent queue: nothing when it is empty or its first node is \<open>until\<close>,
  otherwise the first node; never \<open>Inconsistent\<close>.
\<close>

lemma dequeue_node_spec:
  assumes inv: "queue_inv q xs"
  shows "\<exists>r q' xs'. dequeue_node q until = Some (r, q') \<and> queue_inv q' xs' \<and> same_nodes q q' \<and>
    (case queue_nodes xs of
       [] \<Rightarrow> r = Empty \<and> xs' = [EndMarker]
     | a # as \<Rightarrow> if Some a = until then r = Empty \<and> queue_nodes xs' = a # as
                else r = Data a \<and> queue_nodes xs' = as)"
proof -
  note xs = queue_invD[OF inv]
  obtain m r where mr: "xs = m # r" using xs(1) by (cases xs) auto
  obtain n where n: "rq_heap q m = Some n" using linked_alloc[OF xs(3), of m] mr by auto
  show ?thesis
  proof (cases "is_marker m")
    case False
    then have "queue_nodes xs = m # r" using queue_nodes_eq[OF inv] mr by simp
    moreover have "dequeue_node q until = dequeue_rest q until m (nd_next n)"
      using xs(4) mr n False by (simp add: dequeue_node_def)
    ultimately show ?thesis
      using dequeue_rest_spec[OF inv[unfolded mr] False n, of until] by (auto split: if_splits)
  next
    case True
    then have qn: "queue_nodes xs = r" using queue_nodes_eq[OF inv] mr by simp
    show ?thesis
    proof (cases r)
      case Nil
      obtain q' where q': "clear_sleep_marker q = Some q'" "same_nodes q q'"
        "queue_inv q' (if xs = [SleepMarker] then [EndMarker] else xs)"
        using clear_sleep_marker_spec[OF inv] by blast
      have "m = SleepMarker \<or> m = EndMarker"
        using True xs(6) mr by (auto simp: is_marker_def)
      then have "queue_inv q' [EndMarker]" using q'(3) mr Nil by auto
      moreover have "dequeue_node q until = Some (Empty, q')"
        using xs(3,4) mr n True Nil q'(1) by (simp add: dequeue_node_def)
      ultimately show ?thesis using q'(2) qn Nil by auto
    next
      case (Cons a as)
      let ?q1 = "q\<lparr>rq_tail := a\<rparr>"
      have a: "\<not> is_marker a" using xs(7) mr Cons by simp
      have inv1: "queue_inv ?q1 (a # as)"
        using inv mr Cons a by (auto simp: queue_inv_def is_marker_def)
      obtain n1 where n1: "rq_heap ?q1 a = Some n1"
        using linked_alloc[OF queue_invD(3)[OF inv1], of a] by auto
      have "nd_next n = Some a" using xs(3) mr Cons n by simp
      then have "dequeue_node q until = dequeue_rest ?q1 until a (nd_next n1)"
        using xs(4) mr n n1 True by (simp add: dequeue_node_def)
      moreover have "same_nodes q q' \<longleftrightarrow> same_nodes ?q1 q'" for q' by (simp add: same_nodes_def)
      ultimately show ?thesis
        using dequeue_rest_spec[OF inv1 a n1, of until] qn Cons by (auto split: if_splits)
    qed
  qed
qed

lemma prepare_for_sleep_spec:
  assumes inv: "queue_inv q xs"
  shows "\<exists>q' xs'. prepare_for_sleep q = Some (queue_nodes xs = [], q') \<and> queue_inv q' xs' \<and>
    same_nodes q q' \<and> queue_nodes xs' = queue_nodes xs \<and>
    (queue_nodes xs = [] \<longrightarrow> xs' = [SleepMarker])"
proof -
  note xs = queue_invD[OF inv]
  obtain m r where mr: "xs = m # r" using xs(1) by (cases xs) auto
  note qn = queue_nodes_eq[OF inv, unfolded mr, simplified]
  consider "m = SleepMarker" | "m = EndMarker" | "\<not> is_marker m"
    using xs(6) mr by (auto simp: is_marker_def)
  then show ?thesis
  proof cases
    case 1
    have "(last xs = SleepMarker) = (r = [])"
    proof (cases "r = []")
      case False
      then have "last xs \<in> set (tl xs)" using mr by simp
      then have "\<not> is_marker (last xs)" using xs(7) by blast
      then show ?thesis using False by (auto simp: is_marker_def)
    qed (simp add: mr 1)
    then have "prepare_for_sleep q = Some (queue_nodes xs = [], q)"
      using xs(4,5) mr 1 qn by (simp add: prepare_for_sleep_def is_marker_def)
    then show ?thesis using inv mr 1 qn
      by (intro exI[of _ q] exI[of _ xs]) (simp add: is_marker_def)
  next
    case 3
    then have "prepare_for_sleep q = Some (False, q)"
      using xs(4) mr by (auto simp: prepare_for_sleep_def is_marker_def)
    then show ?thesis using inv mr 3 qn
      by (intro exI[of _ q] exI[of _ xs]) simp
  next
    case 2
    obtain sm where sm: "rq_heap q SleepMarker = Some sm" using xs(9) by auto
    let ?q = "q\<lparr>rq_heap := (rq_heap q)(SleepMarker \<mapsto> sm\<lparr>nd_next := None\<rparr>)\<rparr>"
    have s: "same_nodes q ?q" using sm by (auto simp: same_nodes_def)
    have notin: "SleepMarker \<notin> set xs" using 2 xs(7) mr by (auto simp: is_marker_def)
    have "linked (rq_heap ?q) xs = linked (rq_heap q) xs" using notin by (intro linked_cong) auto
    then have inv1: "queue_inv ?q xs" using inv by (auto simp: queue_inv_def)
    show ?thesis
    proof (cases "r = []")
      case True
      let ?q' = "?q\<lparr>rq_head := SleepMarker, rq_tail := SleepMarker\<rparr>"
      obtain e where e: "rq_heap q EndMarker = Some e" "nd_next e = None"
        using xs(3) mr 2 True by auto
      have "prepare_for_sleep q = Some (True, ?q')"
        using xs(4,5) mr 2 True sm e by (simp add: prepare_for_sleep_def node_modify_def)
      moreover have "queue_inv ?q' [SleepMarker]"
        using xs(8-10) by (auto simp: queue_inv_def)
      moreover have "same_nodes q ?q'" using s by (simp add: same_nodes_def)
      ultimately show ?thesis using mr 2 True qn
        by (intro exI[of _ ?q'] exI[of _ "[SleepMarker]"]) (simp add: queue_nodes_def is_marker_def)
    next
      case False
      then have "last xs \<in> set (tl xs)" using mr by simp
      then have "\<not> is_marker (last xs)" using xs(7) by blast
      then have "last xs \<noteq> EndMarker" "last xs \<noteq> SleepMarker" by (auto simp: is_marker_def)
      then have "prepare_for_sleep q = Some (False, ?q)"
        using xs(4,5) mr 2 sm by (simp add: prepare_for_sleep_def node_modify_def)
      then show ?thesis using inv1 s mr 2 qn False
        by (intro exI[of _ ?q] exI[of _ xs]) (simp add: is_marker_def)
    qed
  qed
qed

subsection \<open>First in, first out\<close>

fun enq_all :: "('q \<Rightarrow> 'a \<Rightarrow> 'q option) \<Rightarrow> 'q \<Rightarrow> 'a list \<Rightarrow> 'q option" where
  "enq_all enq q [] = Some q"
| "enq_all enq q (a # as) = do { q \<leftarrow> enq q a; enq_all enq q as }"

fun deq_all :: "('q \<Rightarrow> ('a option \<times> 'q) option) \<Rightarrow> nat \<Rightarrow> 'q \<Rightarrow> ('a list \<times> 'q) option" where
  "deq_all deq 0 q = Some ([], q)"
| "deq_all deq (Suc n) q =
     do { (r, q) \<leftarrow> deq q;
          case r of None \<Rightarrow> Some ([], q)
                  | Some a \<Rightarrow> do { (as, q) \<leftarrow> deq_all deq n q; Some (a # as, q) } }"

text \<open>
  The contract of a queue whose elements are memory cells: \<open>ok q a\<close> says that the cell \<open>a\<close>
  may be appended, \<open>repr q as\<close> that \<open>q\<close> holds \<open>as\<close>.
\<close>

locale fifo_queue =
  fixes enq :: "'q \<Rightarrow> 'a \<Rightarrow> 'q option"
    and deq :: "'q \<Rightarrow> ('a option \<times> 'q) option"
    and repr :: "'q \<Rightarrow> 'a list \<Rightarrow> bool"
    and ok :: "'q \<Rightarrow> 'a \<Rightarrow> bool"
  assumes enq_repr: "repr q as \<Longrightarrow> ok q a \<Longrightarrow> a \<notin> set as \<Longrightarrow>
      \<exists>q'. enq q a = Some q' \<and> repr q' (as @ [a]) \<and> (\<forall>b. ok q b \<longrightarrow> ok q' b)"
    and deq_nil: "repr q [] \<Longrightarrow> \<exists>q'. deq q = Some (None, q') \<and> repr q' []"
    and deq_cons: "repr q (a # as) \<Longrightarrow> \<exists>q'. deq q = Some (Some a, q') \<and> repr q' as"
begin

lemma enq_all_repr:
  "repr q cs \<Longrightarrow> distinct (cs @ as) \<Longrightarrow> \<forall>a \<in> set as. ok q a \<Longrightarrow>
   \<exists>q'. enq_all enq q as = Some q' \<and> repr q' (cs @ as)"
proof (induction as arbitrary: q cs)
  case (Cons a as)
  obtain q1 where q1: "enq q a = Some q1" "repr q1 (cs @ [a])" "\<forall>b. ok q b \<longrightarrow> ok q1 b"
    using enq_repr[OF Cons.prems(1), of a] Cons.prems(2,3) by auto
  have "\<forall>b \<in> set as. ok q1 b" using q1(3) Cons.prems(3) by simp
  with Cons.IH[OF q1(2)] Cons.prems(2) q1(1) show ?case by auto
qed simp

lemma deq_all_repr:
  "repr q cs \<Longrightarrow> length cs < n \<Longrightarrow> \<exists>q'. deq_all deq n q = Some (cs, q') \<and> repr q' []"
proof (induction n arbitrary: q cs)
  case (Suc n)
  show ?case
  proof (cases cs)
    case Nil
    then show ?thesis using deq_nil[of q] Suc.prems(1) by auto
  next
    case (Cons a as)
    then obtain q1 where "deq q = Some (Some a, q1)" "repr q1 as"
      using deq_cons[of q a as] Suc.prems(1) by auto
    with Suc.IH[of q1 as] Suc.prems(2) Cons show ?thesis by auto
  qed
qed simp

lemma fifo: "repr q cs \<Longrightarrow> distinct (cs @ as) \<Longrightarrow> \<forall>a \<in> set as. ok q a \<Longrightarrow> length (cs @ as) < n \<Longrightarrow>
   \<exists>q1 q2. enq_all enq q as = Some q1 \<and> deq_all deq n q1 = Some (cs @ as, q2) \<and> repr q2 []"
  using enq_all_repr deq_all_repr by blast

end

definition rq_enq :: "('j, 'p) rqueue \<Rightarrow> addr \<Rightarrow> ('j, 'p) rqueue option" where
  "rq_enq q a = map_option snd (enqueue_node q a)"

definition rq_deq :: "('j, 'p) rqueue \<Rightarrow> (addr option \<times> ('j, 'p) rqueue) option" where
  "rq_deq q = map_option (\<lambda>(r, q). (case r of Data a \<Rightarrow> Some a | _ \<Rightarrow> None, q)) (dequeue_node q None)"

definition rq_repr :: "('j, 'p) rqueue \<Rightarrow> addr list \<Rightarrow> bool" where
  "rq_repr q cs \<longleftrightarrow> (\<exists>xs. queue_inv q xs \<and> queue_nodes xs = cs)"

definition rq_ok :: "('j, 'p) rqueue \<Rightarrow> addr \<Rightarrow> bool" where
  "rq_ok q a \<longleftrightarrow> \<not> is_marker a \<and> rq_heap q a \<noteq> None"

lemma queue_nodes_marker [simp]: "queue_nodes [EndMarker] = []" "queue_nodes [SleepMarker] = []"
  by (simp_all add: queue_nodes_def is_marker_def)

lemma in_queue_nodes: "\<not> is_marker a \<Longrightarrow> a \<in> set (queue_nodes xs) \<longleftrightarrow> a \<in> set xs"
  by (simp add: queue_nodes_def)

interpretation rq: fifo_queue "rq_enq :: ('j, 'p) rqueue \<Rightarrow> addr \<Rightarrow> _" rq_deq rq_repr rq_ok
proof
  fix q :: "('j, 'p) rqueue" and as a
  assume "rq_repr q as" and ok: "rq_ok q a" and new: "a \<notin> set as"
  then obtain xs where xs: "queue_inv q xs" "queue_nodes xs = as" by (auto simp: rq_repr_def)
  have "a \<notin> set xs" using new xs(2) ok in_queue_nodes by (auto simp: rq_ok_def)
  then obtain q' where q': "enqueue_node q a = Some (last xs = SleepMarker, q')"
    "queue_inv q' (xs @ [a])" "same_nodes q q'"
    using enqueue_node_spec[OF xs(1)] ok by (auto simp: rq_ok_def)
  have "queue_nodes (xs @ [a]) = as @ [a]" using xs(2) ok by (simp add: queue_nodes_def rq_ok_def)
  with q' show "\<exists>q'. rq_enq q a = Some q' \<and> rq_repr q' (as @ [a]) \<and> (\<forall>b. rq_ok q b \<longrightarrow> rq_ok q' b)"
    using same_nodes_None[OF q'(3)] by (auto simp: rq_enq_def rq_repr_def rq_ok_def simp del: not_None_eq)
next
  fix q :: "('j, 'p) rqueue"
  assume "rq_repr q []"
  then obtain xs where xs: "queue_inv q xs" "queue_nodes xs = []" by (auto simp: rq_repr_def)
  from dequeue_node_spec[OF xs(1), of None] xs(2)
  show "\<exists>q'. rq_deq q = Some (None, q') \<and> rq_repr q' []"
    by (auto simp: rq_deq_def rq_repr_def intro!: exI[of _ "[EndMarker]"])
next
  fix q :: "('j, 'p) rqueue" and a as
  assume "rq_repr q (a # as)"
  then obtain xs where xs: "queue_inv q xs" "queue_nodes xs = a # as" by (auto simp: rq_repr_def)
  from dequeue_node_spec[OF xs(1), of None] xs(2)
  show "\<exists>q'. rq_deq q = Some (Some a, q') \<and> rq_repr q' as"
    by (auto simp: rq_deq_def rq_repr_def)
qed

subsection \<open>Properties of the queue\<close>

lemma rqueue_new_inv: "\<exists>q. rqueue_new i p = Some q \<and> queue_inv q [EndMarker] \<and>
    rq_id q = i \<and> rq_strong q = 1 \<and> rq_pipe q = p \<and> (\<forall>k. rq_heap q (Node k) = None)"
proof -
  obtain s where s: "rs_new ready_empty opt_empty = Some s"
    using view_new[of ready_empty opt_empty] by (auto simp: ready_empty_def opt_empty_def)
  show ?thesis
    by (simp add: rqueue_new_def node_marker_def s queue_inv_def)
qed

text \<open>C22. The queue is first-in first-out: nodes appended to it, markers and all, come out
  after those it held, in the order they were appended, with nothing lost, repeated or
  left behind, and the queue is then empty.\<close>

theorem readiness_queue_fifo:
  assumes "queue_inv q xs" and "distinct (queue_nodes xs @ as)"
    and "\<forall>a \<in> set as. \<not> is_marker a \<and> rq_heap q a \<noteq> None"
    and "length (queue_nodes xs @ as) < n"
  shows "\<exists>q1 q2. enq_all rq_enq q as = Some q1 \<and>
    deq_all rq_deq n q1 = Some (queue_nodes xs @ as, q2) \<and> rq_repr q2 []"
  using assms by (intro rq.fifo) (auto simp: rq_repr_def rq_ok_def)

text \<open>No wake-up is lost: \<open>prepare_for_sleep\<close> says that the poller may sleep exactly when
  the queue is empty, and the first node appended after that asks for a wake-up.\<close>

theorem sleep_is_woken:
  assumes "queue_inv q xs" and "\<not> is_marker a" and "rq_heap q a \<noteq> None" and "a \<notin> set xs"
  shows "\<exists>q1. prepare_for_sleep q = Some (queue_nodes xs = [], q1) \<and>
    (queue_nodes xs = [] \<longrightarrow> (\<exists>q2. enqueue_node q1 a = Some (True, q2) \<and> rq_repr q2 [a]))"
proof -
  obtain q1 ys where q1: "prepare_for_sleep q = Some (queue_nodes xs = [], q1)" "queue_inv q1 ys"
    "same_nodes q q1" "queue_nodes xs = [] \<longrightarrow> ys = [SleepMarker]"
    using prepare_for_sleep_spec[OF assms(1)] by blast
  have "\<exists>q2. enqueue_node q1 a = Some (True, q2) \<and> rq_repr q2 [a]" if "queue_nodes xs = []"
  proof -
    have ys: "ys = [SleepMarker]" using q1(4) that by simp
    have "a \<notin> set ys" using ys assms(2) by (auto simp: is_marker_def)
    moreover have "rq_heap q1 a \<noteq> None" using assms(3) same_nodes_None[OF q1(3)] by auto
    ultimately obtain q2 where "enqueue_node q1 a = Some (last ys = SleepMarker, q2)" "queue_inv q2 (ys @ [a])"
      using enqueue_node_spec[OF q1(2) assms(2)] by blast
    then show ?thesis using ys assms(2)
      by (auto simp: rq_repr_def queue_nodes_def is_marker_def intro!: exI[of _ "[SleepMarker, a]"])
  qed
  with q1 show ?thesis by blast
qed

text \<open>A queue with two allocated nodes, for the witnesses.\<close>

definition example_node :: "nat option \<Rightarrow> nat \<Rightarrow> string rnode" where
  "example_node i st = \<lparr>nd_state = ReadinessState (of_nat st), nd_token_0 = null_token,
     nd_token_1 = null_token, nd_token_2 = null_token, nd_next = None, nd_update_lock = False,
     nd_queue = i, nd_ref_count = 2, nd_job = Noop\<rparr>"

definition example_queue :: "nat option \<Rightarrow> nat \<Rightarrow> (string, nat) rqueue" where
  "example_queue i st = \<lparr>rq_id = 0,
     rq_heap = [EndMarker \<mapsto> example_node None 0, SleepMarker \<mapsto> example_node None 0,
       ClosedMarker \<mapsto> example_node None 0, Node 0 \<mapsto> example_node i st, Node 1 \<mapsto> example_node i st],
     rq_head = EndMarker, rq_tail = EndMarker, rq_strong = 1, rq_pipe = 0\<rparr>"

lemma example_queue_inv: "queue_inv (example_queue i st) [EndMarker]"
  by (simp add: queue_inv_def example_queue_def example_node_def)

theorem readiness_queue_fifo_witness:
  "\<exists>q1 q2. enq_all rq_enq (example_queue None 0) [Node 1, Node 0] = Some q1 \<and>
     deq_all rq_deq 3 q1 = Some ([Node 1, Node 0], q2) \<and> rq_repr q2 []"
  using readiness_queue_fifo[OF example_queue_inv, of "[Node 1, Node 0]" None 0 3]
  by (simp add: example_queue_def is_marker_def)

theorem sleep_is_woken_witness:
  "\<exists>q1 q2. prepare_for_sleep (example_queue None 0) = Some (True, q1) \<and>
     enqueue_node q1 (Node 0) = Some (True, q2) \<and> rq_repr q2 [Node 0]"
  using sleep_is_woken[OF example_queue_inv, of "Node 0" None 0]
  by (auto simp: example_queue_def is_marker_def)

end
