(* ===== verification/QueueThreads.thy ===== *)
theory QueueThreads
  imports ReadinessQueue
begin

section \<open>The readiness queue under interleaving\<close>

text \<open>
  \<open>enqueue_node\<close>, \<open>dequeue_node\<close>, \<open>clear_sleep_marker\<close> and \<open>prepare_for_sleep\<close> of \<open>src/poll.rs\<close> once more, as a step
  relation: any number of producers append while one poller takes, and each rule is one access to
  memory that another thread may see. A compare-and-swap loop is the exchange that succeeds. The
  clearing of a link that no other thread can reach goes with the access before it. What a node
  holds beside its link plays no part here, save the queued bit: a producer appends a node only after
  it has set the bit, and the poller clears it when it has taken the node, or appends the node
  again. The queue is not closed here, see \<open>QueueClose\<close>.
\<close>

datatype prod_pc = PIdle | PReady addr | PLink addr addr | PWake

text \<open>Where the poller is: idle, about to load the link of the tail (a first or a second time), about to load
  the head, to clear the sleep marker, to append (and whether it then loads the link again), to
  store the link, holding a node it has taken, about to return, preparing to sleep, or asleep.\<close>

datatype cons_pc =
    CIdle
  | CFirst "addr option"
  | CSecond "addr option"
  | CHead
  | CClear
  | CEnq addr bool
  | CLink addr addr bool
  | CReload
  | CData addr
  | CRet dequeue
  | CPrep
  | CSleep

text \<open>The ghosts \<open>qt_enq\<close> and \<open>qt_out\<close> are the nodes in the order of the exchanges of the head, and in the order
  the poller took them. \<open>qt_wake\<close> says that the awakener's pipe can be read.\<close>

record queue_threads =
  qt_next :: "addr \<Rightarrow> addr option"
  qt_head :: addr
  qt_tail :: addr
  qt_queued :: "addr set"
  qt_prods :: "nat \<Rightarrow> prod_pc"
  qt_cons :: cons_pc
  qt_wake :: bool
  qt_enq :: "addr list"
  qt_out :: "addr list"

definition qt_init :: queue_threads where
  "qt_init = \<lparr>qt_next = (\<lambda>_. None), qt_head = EndMarker, qt_tail = EndMarker, qt_queued = {},
     qt_prods = (\<lambda>_. PIdle), qt_cons = CIdle, qt_wake = False, qt_enq = [], qt_out = []\<rparr>"

inductive prod_step :: "queue_threads \<Rightarrow> queue_threads \<Rightarrow> bool" where
  start: "qt_prods s i = PIdle \<Longrightarrow> \<not> is_marker a \<Longrightarrow> a \<notin> qt_queued s \<Longrightarrow>
    prod_step s (s\<lparr>qt_queued := insert a (qt_queued s), qt_next := (qt_next s)(a := None), qt_prods := (qt_prods s)(i := PReady a)\<rparr>)"
| swap: "qt_prods s i = PReady a \<Longrightarrow>
    prod_step s (s\<lparr>qt_prods := (qt_prods s)(i := PLink (qt_head s) a), qt_head := a, qt_enq := qt_enq s @ [a]\<rparr>)"
| link: "qt_prods s i = PLink p a \<Longrightarrow>
    prod_step s (s\<lparr>qt_next := (qt_next s)(p := Some a),
      qt_prods := (qt_prods s)(i := if p = SleepMarker then PWake else PIdle)\<rparr>)"
| wake: "qt_prods s i = PWake \<Longrightarrow> prod_step s (s\<lparr>qt_wake := True, qt_prods := (qt_prods s)(i := PIdle)\<rparr>)"

text \<open>After the first conditional of \<open>dequeue_node\<close>.\<close>

definition deciding :: "queue_threads \<Rightarrow> addr option \<Rightarrow> bool" where
  "deciding s u \<longleftrightarrow> qt_cons s = CSecond u \<or> qt_cons s = CFirst u \<and> \<not> is_marker (qt_tail s)"

inductive cons_step :: "queue_threads \<Rightarrow> queue_threads \<Rightarrow> bool" where
  dequeue: "qt_cons s = CIdle \<Longrightarrow> cons_step s (s\<lparr>qt_cons := CFirst u\<rparr>)"
| marker_empty: "qt_cons s = CFirst u \<Longrightarrow> is_marker (qt_tail s) \<Longrightarrow> qt_next s (qt_tail s) = None \<Longrightarrow> qt_tail s \<noteq> SleepMarker \<Longrightarrow>
    cons_step s (s\<lparr>qt_cons := CRet Empty\<rparr>)"
| marker_sleep: "qt_cons s = CFirst u \<Longrightarrow> qt_next s (qt_tail s) = None \<Longrightarrow> qt_tail s = SleepMarker \<Longrightarrow>
    cons_step s (s\<lparr>qt_cons := CClear, qt_next := (qt_next s)(EndMarker := None)\<rparr>)"
| marker_skip: "qt_cons s = CFirst u \<Longrightarrow> is_marker (qt_tail s) \<Longrightarrow> qt_next s (qt_tail s) = Some m \<Longrightarrow>
    cons_step s (s\<lparr>qt_cons := CSecond u, qt_tail := m\<rparr>)"
| until: "deciding s u \<Longrightarrow> Some (qt_tail s) = u \<Longrightarrow> cons_step s (s\<lparr>qt_cons := CRet Empty\<rparr>)"
| data: "deciding s u \<Longrightarrow> Some (qt_tail s) \<noteq> u \<Longrightarrow> qt_next s (qt_tail s) = Some m \<Longrightarrow>
    cons_step s (s\<lparr>qt_cons := CData (qt_tail s), qt_out := qt_out s @ [qt_tail s], qt_tail := m\<rparr>)"
| last: "deciding s u \<Longrightarrow> Some (qt_tail s) \<noteq> u \<Longrightarrow> qt_next s (qt_tail s) = None \<Longrightarrow> cons_step s (s\<lparr>qt_cons := CHead\<rparr>)"
| head_moved: "qt_cons s = CHead \<Longrightarrow> qt_head s \<noteq> qt_tail s \<Longrightarrow> cons_step s (s\<lparr>qt_cons := CRet Inconsistent\<rparr>)"
| head_same: "qt_cons s = CHead \<Longrightarrow> qt_head s = qt_tail s \<Longrightarrow>
    cons_step s (s\<lparr>qt_cons := CEnq EndMarker True, qt_next := (qt_next s)(EndMarker := None)\<rparr>)"
| swap: "qt_cons s = CEnq a r \<Longrightarrow>
    cons_step s (s\<lparr>qt_cons := CLink (qt_head s) a r, qt_head := a, qt_enq := (if is_marker a then qt_enq s else qt_enq s @ [a])\<rparr>)"
| link: "qt_cons s = CLink p a r \<Longrightarrow>
    cons_step s (s\<lparr>qt_next := (qt_next s)(p := Some a), qt_cons := if r then CReload else CIdle\<rparr>)"
| reload_data: "qt_cons s = CReload \<Longrightarrow> qt_next s (qt_tail s) = Some m \<Longrightarrow>
    cons_step s (s\<lparr>qt_cons := CData (qt_tail s), qt_out := qt_out s @ [qt_tail s], qt_tail := m\<rparr>)"
| reload_none: "qt_cons s = CReload \<Longrightarrow> qt_next s (qt_tail s) = None \<Longrightarrow> cons_step s (s\<lparr>qt_cons := CRet Inconsistent\<rparr>)"
| clear_ok: "qt_cons s = CClear \<Longrightarrow> qt_head s = SleepMarker \<Longrightarrow>
    cons_step s (s\<lparr>qt_cons := CRet Empty, qt_head := EndMarker, qt_tail := EndMarker\<rparr>)"
| clear_no: "qt_cons s = CClear \<Longrightarrow> qt_head s \<noteq> SleepMarker \<Longrightarrow> cons_step s (s\<lparr>qt_cons := CRet Empty\<rparr>)"
| full: "qt_cons s = CIdle \<Longrightarrow> qt_tail s = SleepMarker \<Longrightarrow>
    cons_step s (s\<lparr>qt_cons := CClear, qt_next := (qt_next s)(EndMarker := None)\<rparr>)"
| return: "qt_cons s = CRet r \<Longrightarrow> cons_step s (s\<lparr>qt_cons := CIdle\<rparr>)"
| dequeued: "qt_cons s = CData t \<Longrightarrow> cons_step s (s\<lparr>qt_cons := CIdle, qt_queued := qt_queued s - {t}\<rparr>)"
| requeue: "qt_cons s = CData t \<Longrightarrow> cons_step s (s\<lparr>qt_cons := CEnq t False, qt_next := (qt_next s)(t := None)\<rparr>)"
| prepare_again: "qt_cons s = CIdle \<Longrightarrow> qt_tail s = SleepMarker \<Longrightarrow> qt_head s = SleepMarker \<Longrightarrow> cons_step s (s\<lparr>qt_cons := CSleep\<rparr>)"
| prepare: "qt_cons s = CIdle \<Longrightarrow> qt_tail s = EndMarker \<Longrightarrow>
    cons_step s (s\<lparr>qt_cons := CPrep, qt_next := (qt_next s)(SleepMarker := None)\<rparr>)"
| prepare_ok: "qt_cons s = CPrep \<Longrightarrow> qt_head s = EndMarker \<Longrightarrow>
    cons_step s (s\<lparr>qt_cons := CSleep, qt_head := SleepMarker, qt_tail := SleepMarker\<rparr>)"
| prepare_no: "qt_cons s = CPrep \<Longrightarrow> qt_head s \<noteq> EndMarker \<Longrightarrow> cons_step s (s\<lparr>qt_cons := CIdle\<rparr>)"
| woken: "qt_cons s = CSleep \<Longrightarrow> qt_wake s \<Longrightarrow> cons_step s (s\<lparr>qt_cons := CIdle, qt_wake := False\<rparr>)"
| other_event: "qt_cons s = CSleep \<Longrightarrow> cons_step s (s\<lparr>qt_cons := CIdle\<rparr>)"

inductive qt_reach :: "queue_threads \<Rightarrow> bool" where
  init: "qt_reach qt_init"
| prod: "qt_reach s \<Longrightarrow> prod_step s s' \<Longrightarrow> qt_reach s'"
| cons: "qt_reach s \<Longrightarrow> cons_step s s' \<Longrightarrow> qt_reach s'"

text \<open>The debug assertions of the accesses that threads are about to make.\<close>

definition qt_asserts :: "queue_threads \<Rightarrow> bool" where
  "qt_asserts s \<longleftrightarrow> (\<forall>i p a. qt_prods s i = PLink p a \<longrightarrow> qt_next s p = None) \<and>
     (\<forall>p a r. qt_cons s = CLink p a r \<longrightarrow> qt_next s p = None) \<and>
     (qt_cons s = CClear \<longrightarrow> qt_head s \<noteq> EndMarker) \<and>
     (qt_cons s = CPrep \<longrightarrow> qt_head s \<noteq> SleepMarker \<and> (qt_head s = EndMarker \<longrightarrow> qt_next s EndMarker = None))"

subsection \<open>Neighbours in a list\<close>

fun adj :: "'a list \<Rightarrow> 'a \<Rightarrow> 'a \<Rightarrow> bool" where
  "adj [] p a \<longleftrightarrow> False"
| "adj (x # xs) p a \<longleftrightarrow> (xs \<noteq> [] \<and> p = x \<and> a = hd xs) \<or> adj xs p a"

lemma adj_in: "adj xs p a \<Longrightarrow> p \<in> set xs \<and> a \<in> set (tl xs) \<and> a \<in> set xs"
  by (induction xs) (auto simp: neq_Nil_conv)

lemma adj_snoc: "adj (xs @ [b]) p a \<longleftrightarrow> adj xs p a \<or> xs \<noteq> [] \<and> p = last xs \<and> a = b"
  by (induction xs) auto

lemma adj_fun: "distinct xs \<Longrightarrow> adj xs p a \<Longrightarrow> adj xs p b \<Longrightarrow> a = b"
  by (induction xs) (auto dest: adj_in)

lemma adj_inj: "distinct xs \<Longrightarrow> adj xs p a \<Longrightarrow> adj xs q a \<Longrightarrow> p = q"
proof (induction xs)
  case (Cons x xs)
  then show ?case by (cases xs) (auto dest: adj_in)
qed simp

lemma adj_last: "distinct xs \<Longrightarrow> adj xs p a \<Longrightarrow> p \<noteq> last xs"
proof (induction xs)
  case (Cons x xs)
  then show ?case by (cases xs) (auto dest: adj_in)
qed simp

lemma adj_hd: "xs = x # y # ys \<Longrightarrow> adj xs x y"
  by simp

subsection \<open>The invariant\<close>

text \<open>\<open>xs\<close> is the chain from the tail to the head. A link of it is there, or a thread is about to store it; that
  thread is the only one. Only the first of the chain may be a marker, save that the end marker may
  stand further back behind nodes (a poller that lost a race has appended it).\<close>

definition linking :: "queue_threads \<Rightarrow> addr \<Rightarrow> addr \<Rightarrow> bool" where
  "linking s p a \<longleftrightarrow> (\<exists>i. qt_prods s i = PLink p a) \<or> (\<exists>r. qt_cons s = CLink p a r)"

definition chain :: "queue_threads \<Rightarrow> addr list \<Rightarrow> bool" where
  "chain s xs \<longleftrightarrow> xs \<noteq> [] \<and> distinct xs \<and> hd xs = qt_tail s \<and> last xs = qt_head s \<and> qt_next s (last xs) = None \<and>
     (\<forall>p a. adj xs p a \<longrightarrow> qt_next s p = Some a \<or> qt_next s p = None \<and> linking s p a) \<and>
     hd xs \<noteq> ClosedMarker \<and> (\<forall>x \<in> set (tl xs). is_marker x \<longrightarrow> x = EndMarker \<and> \<not> is_marker (hd xs))"

definition links_ok :: "queue_threads \<Rightarrow> addr list \<Rightarrow> bool" where
  "links_ok s xs \<longleftrightarrow>
     (\<forall>i p a. qt_prods s i = PLink p a \<longrightarrow> adj xs p a \<and> qt_next s p = None) \<and>
     (\<forall>p a r. qt_cons s = CLink p a r \<longrightarrow> adj xs p a \<and> qt_next s p = None) \<and>
     (\<forall>i j p a b. qt_prods s i = PLink p a \<longrightarrow> qt_prods s j = PLink p b \<longrightarrow> i = j) \<and>
     (\<forall>i p a b r. qt_prods s i = PLink p a \<longrightarrow> qt_cons s \<noteq> CLink p b r)"

text \<open>The node a thread holds outside the chain.\<close>

definition cons_holds :: "queue_threads \<Rightarrow> addr \<Rightarrow> bool" where
  "cons_holds s a \<longleftrightarrow> qt_cons s = CData a \<or> (\<exists>r. qt_cons s = CEnq a r)"

definition held_ok :: "queue_threads \<Rightarrow> addr list \<Rightarrow> bool" where
  "held_ok s xs \<longleftrightarrow>
     (\<forall>i a. qt_prods s i = PReady a \<longrightarrow> a \<notin> set xs \<and> \<not> is_marker a \<and> a \<in> qt_queued s \<and> qt_next s a = None \<and> \<not> cons_holds s a) \<and>
     (\<forall>i j a. qt_prods s i = PReady a \<longrightarrow> qt_prods s j = PReady a \<longrightarrow> i = j) \<and>
     (\<forall>a. cons_holds s a \<longrightarrow> a \<notin> set xs) \<and>
     (\<forall>a. qt_cons s = CData a \<longrightarrow> \<not> is_marker a \<and> a \<in> qt_queued s) \<and>
     set (queue_nodes xs) \<subseteq> qt_queued s"

text \<open>A wakeup is on its way.\<close>

definition waking :: "queue_threads \<Rightarrow> bool" where
  "waking s \<longleftrightarrow> qt_wake s \<or> (\<exists>i. qt_prods s i = PWake \<or> (\<exists>a. qt_prods s i = PLink SleepMarker a))"

definition cons_ok :: "queue_threads \<Rightarrow> addr list \<Rightarrow> bool" where
  "cons_ok s xs \<longleftrightarrow>
     (case qt_cons s of
        CSecond u \<Rightarrow> \<not> is_marker (hd xs)
      | CHead \<Rightarrow> \<not> is_marker (hd xs)
      | CReload \<Rightarrow> \<not> is_marker (hd xs)
      | CLink p a r \<Rightarrow> r \<longrightarrow> \<not> is_marker (hd xs)
      | CEnq a r \<Rightarrow> qt_next s a = None \<and> (if is_marker a then a = EndMarker \<and> r \<and> \<not> is_marker (hd xs) else \<not> r \<and> a \<in> qt_queued s)
      | CClear \<Rightarrow> hd xs = SleepMarker \<and> qt_next s EndMarker = None
      | CPrep \<Rightarrow> hd xs = EndMarker \<and> qt_next s SleepMarker = None
      | CSleep \<Rightarrow> hd xs = SleepMarker \<and> (xs = [SleepMarker] \<or> waking s)
      | _ \<Rightarrow> True)"

definition qt_inv :: "queue_threads \<Rightarrow> addr list \<Rightarrow> bool" where
  "qt_inv s xs \<longleftrightarrow> chain s xs \<and> links_ok s xs \<and> held_ok s xs \<and> cons_ok s xs \<and> qt_out s @ queue_nodes xs = qt_enq s"

lemmas qt_inv_defs = qt_inv_def chain_def links_ok_def held_ok_def cons_ok_def cons_holds_def linking_def

lemma qt_inv_init: "qt_inv qt_init [EndMarker]"
  by (simp add: qt_inv_defs qt_init_def is_marker_def)

lemma queue_nodes_snoc: "queue_nodes (xs @ [a]) = queue_nodes xs @ (if is_marker a then [] else [a])"
  by (simp add: queue_nodes_def)

lemma queue_nodes_cons: "queue_nodes (x # xs) = (if is_marker x then queue_nodes xs else x # queue_nodes xs)"
  by (simp add: queue_nodes_def)

lemma set_queue_nodes: "set (queue_nodes xs) = {x \<in> set xs. \<not> is_marker x}"
  by (auto simp: queue_nodes_def)

lemma is_marker_simps [simp]: "is_marker EndMarker" "is_marker SleepMarker" "is_marker ClosedMarker"
  by (simp_all add: is_marker_def)

lemma qt_invI:
  "chain s xs \<and> links_ok s xs \<Longrightarrow> held_ok s xs \<Longrightarrow> cons_ok s xs \<Longrightarrow> qt_out s @ queue_nodes xs = qt_enq s \<Longrightarrow> qt_inv s xs"
  by (simp add: qt_inv_def)

lemma chain_tail:
  assumes "chain s xs"
  obtains ys where "xs = qt_tail s # ys"
  using assms by (cases xs) (auto simp: chain_def)

lemma chain_next:
  assumes "chain s xs" "qt_next s (qt_tail s) = Some m"
  obtains ys where "xs = qt_tail s # m # ys"
proof -
  obtain ys where ys: "xs = qt_tail s # ys" using chain_tail[OF assms(1)] .
  show thesis
  proof (cases ys)
    case Nil
    then show ?thesis using assms ys by (simp add: chain_def)
  next
    case (Cons y zs)
    then have "qt_next s (qt_tail s) = Some y \<or> qt_next s (qt_tail s) = None"
      using assms(1) ys by (auto simp: chain_def)
    then show ?thesis using that assms(2) ys Cons by simp
  qed
qed

lemma chain_single: "chain s xs \<Longrightarrow> qt_head s = qt_tail s \<Longrightarrow> xs = [qt_tail s]"
  unfolding chain_def by (metis distinct.simps(2) last.simps last_in_set list.exhaust_sel)

lemma chain_marker: "chain s xs \<Longrightarrow> is_marker (hd xs) \<Longrightarrow> is_marker m \<Longrightarrow> m \<in> set xs \<Longrightarrow> m = hd xs"
  unfolding chain_def by (metis list.exhaust_sel set_ConsD)

text \<open>A step that leaves the links of the chain, and the threads about to store one, as they are.\<close>

lemma chain_frame:
  assumes "chain s xs" "links_ok s xs" "qt_tail s' = qt_tail s" "qt_head s' = qt_head s"
    and n: "\<And>p. p \<in> set xs \<Longrightarrow> qt_next s' p = qt_next s p"
    and "\<And>i p a. qt_prods s' i = PLink p a \<longleftrightarrow> qt_prods s i = PLink p a"
    and "\<And>p a r. qt_cons s' = CLink p a r \<longleftrightarrow> qt_cons s = CLink p a r"
  shows "chain s' xs \<and> links_ok s' xs"
proof -
  have l: "linking s' = linking s" using assms by (simp add: linking_def fun_eq_iff)
  have k: "adj xs p a \<Longrightarrow> qt_next s' p = qt_next s p" for p a using n adj_in by fast
  then have k0: "adj xs p a \<Longrightarrow> qt_next s p = None \<Longrightarrow> qt_next s' p = None" for p a by simp
  have f: "xs \<noteq> []" "hd xs = qt_tail s" "last xs = qt_head s" "qt_next s (last xs) = None"
    using assms(1) unfolding chain_def by blast+
  have "qt_next s' (last xs) = None" using n[OF last_in_set[OF f(1)]] f(4) by simp
  moreover have "adj xs p a \<Longrightarrow> qt_next s' p = Some a \<or> qt_next s' p = None \<and> linking s' p a" for p a
    using assms(1) l k unfolding chain_def by metis
  moreover have "hd xs = qt_tail s'" "last xs = qt_head s'" using f assms(3,4) by simp_all
  ultimately have "chain s' xs" using assms(1) unfolding chain_def by blast
  moreover have "links_ok s' xs"
    unfolding links_ok_def assms(6,7)
  proof (intro conjI allI impI)
    fix i p a assume "qt_prods s i = PLink p a"
    then have "adj xs p a" "qt_next s p = None" using assms(2) unfolding links_ok_def by metis+
    then show "adj xs p a" "qt_next s' p = None" using k0 by simp_all
  next
    fix p a r assume "qt_cons s = CLink p a r"
    then have "adj xs p a" "qt_next s p = None" using assms(2) unfolding links_ok_def by metis+
    then show "adj xs p a" "qt_next s' p = None" using k0 by simp_all
  qed (use assms(2) in \<open>simp only: links_ok_def; blast\<close>)+
  ultimately show ?thesis ..
qed

text \<open>The exchange of the head, the store of a link, and the poller's step forward.\<close>

lemma chain_snoc:
  assumes c: "chain s xs" "links_ok s xs" and a: "a \<notin> set xs" "qt_next s a = None"
    and m: "is_marker a \<longrightarrow> a = EndMarker \<and> \<not> is_marker (hd xs)"
    and s': "qt_tail s' = qt_tail s" "qt_head s' = a" "qt_next s' = qt_next s"
    and l: "\<And>p b. linking s' p b \<longleftrightarrow> linking s p b \<or> p = qt_head s \<and> b = a"
  shows "chain s' (xs @ [a])"
proof -
  have "adj (xs @ [a]) p b \<Longrightarrow> qt_next s p = Some b \<or> qt_next s p = None \<and> linking s' p b" for p b
    using c(1) l by (auto simp: chain_def adj_snoc)
  then show ?thesis using c(1) a m s' by (auto simp: chain_def hd_append)
qed

lemma chain_link:
  assumes c: "chain s xs" "links_ok s xs" and a: "linking s p a"
    and s': "qt_tail s' = qt_tail s" "qt_head s' = qt_head s" "qt_next s' = (qt_next s)(p := Some a)"
    and l: "\<And>q b. q \<noteq> p \<Longrightarrow> linking s' q b \<longleftrightarrow> linking s q b"
  shows "chain s' xs"
proof -
  have d: "distinct xs" "adj xs p a" using c a unfolding chain_def links_ok_def linking_def by blast+
  have "adj xs q b \<Longrightarrow> qt_next s' q = Some b \<or> qt_next s' q = None \<and> linking s' q b" for q b
    using c(1) d s'(3) l[of q b] adj_fun[OF d(1), of p a b] unfolding chain_def by (cases "q = p") auto
  moreover have "qt_next s' (last xs) = None"
    using c(1) adj_last[OF d] s'(3) unfolding chain_def by auto
  ultimately show ?thesis using c(1) s'(1,2) unfolding chain_def by metis
qed

lemma chain_pop:
  assumes c: "chain s (t # m # ys)" "links_ok s (t # m # ys)" and n: "qt_next s t = Some m"
    and s': "qt_tail s' = m" "qt_head s' = qt_head s" "qt_next s' = qt_next s" "qt_prods s' = qt_prods s"
    and l: "\<And>p a r. qt_cons s \<noteq> CLink p a r" "\<And>p a r. qt_cons s' \<noteq> CLink p a r"
  shows "chain s' (m # ys) \<and> links_ok s' (m # ys)"
proof -
  have "linking s' = linking s" using s'(4) l by (simp add: linking_def fun_eq_iff)
  moreover have "m \<noteq> ClosedMarker \<and> (\<forall>x \<in> set ys. is_marker x \<longrightarrow> x = EndMarker \<and> \<not> is_marker m)"
    using c(1) unfolding chain_def by auto
  ultimately have "chain s' (m # ys)" using c(1) s' unfolding chain_def by auto
  moreover have "links_ok s' (m # ys)"
    using c(2) s' l n unfolding links_ok_def by (metis adj.simps(2) option.distinct(1))
  ultimately show ?thesis ..
qed

subsection \<open>The producers keep it\<close>

lemma ex_upd: "f i \<noteq> w \<Longrightarrow> (\<exists>j. (f(i := v)) j = w) \<longleftrightarrow> v = w \<or> (\<exists>j. f j = w)"
  by (metis fun_upd_apply)

lemma waking_upd:
  assumes "qt_prods s i = c" "c \<noteq> PWake" "\<And>a. c \<noteq> PLink SleepMarker a" "waking s"
    "qt_wake s' = qt_wake s" "\<And>j. j \<noteq> i \<Longrightarrow> qt_prods s' j = qt_prods s j"
  shows "waking s'"
  using assms unfolding waking_def by metis

lemma inv_start:
  assumes "qt_inv s xs" "qt_prods s i = PIdle" "\<not> is_marker a" "a \<notin> qt_queued s"
  shows "qt_inv (s\<lparr>qt_queued := insert a (qt_queued s), qt_next := (qt_next s)(a := None), qt_prods := (qt_prods s)(i := PReady a)\<rparr>) xs"
    (is "qt_inv ?s xs")
proof (rule qt_invI)
  have c: "chain s xs" "links_ok s xs" "held_ok s xs" "cons_ok s xs" "qt_out s @ queue_nodes xs = qt_enq s"
    using assms(1) by (simp_all add: qt_inv_def)
  have a: "a \<notin> set xs" using assms(3,4) c(3) by (auto simp: held_ok_def set_queue_nodes)
  show "chain ?s xs \<and> links_ok ?s xs"
    by (rule chain_frame[OF c(1,2)]) (use a assms(2) in auto)
  have "\<not> cons_holds s a"
    using c(3,4) assms(3,4) by (auto simp: held_ok_def cons_ok_def cons_holds_def)
  moreover have "cons_holds ?s = cons_holds s" by (simp add: cons_holds_def fun_eq_iff)
  ultimately show "held_ok ?s xs" using c(3) a assms(3,4) by (simp add: held_ok_def) blast
  show "cons_ok ?s xs"
    using c(4) assms(2-4) waking_upd[OF assms(2)] by (auto simp: cons_ok_def split: cons_pc.splits)
  show "qt_out ?s @ queue_nodes xs = qt_enq ?s" using c(5) by simp
qed

lemma inv_swap:
  assumes "qt_inv s xs" "qt_prods s i = PReady a"
  shows "qt_inv (s\<lparr>qt_prods := (qt_prods s)(i := PLink (qt_head s) a), qt_head := a, qt_enq := qt_enq s @ [a]\<rparr>) (xs @ [a])"
    (is "qt_inv ?s _")
proof (rule qt_invI)
  have c: "chain s xs" "links_ok s xs" "held_ok s xs" "cons_ok s xs" "qt_out s @ queue_nodes xs = qt_enq s"
    using assms(1) by (simp_all add: qt_inv_def)
  have a: "a \<notin> set xs" "\<not> is_marker a" "a \<in> qt_queued s" "qt_next s a = None" "\<not> cons_holds s a"
    "\<And>j. qt_prods s j = PReady a \<Longrightarrow> j = i"
    using c(3) assms(2) unfolding held_ok_def by blast+
  have x: "xs \<noteq> []" "last xs = qt_head s" "distinct xs" "hd (xs @ [a]) = hd xs" "qt_next s (qt_head s) = None"
    using c(1) by (auto simp: chain_def)
  have n: "\<not> adj xs (qt_head s) b" for b using adj_last[OF x(3)] x(2) by metis
  have "linking ?s p b \<longleftrightarrow> linking s p b \<or> p = qt_head s \<and> b = a" for p b
    using assms(2) ex_upd[of "qt_prods s" i "PLink p b"] by (auto simp: linking_def simp del: fun_upd_apply)
  then have "chain ?s (xs @ [a])" by (intro chain_snoc[OF c(1,2) a(1,4)]) (use a(2) in simp_all)
  moreover have "links_ok ?s (xs @ [a])"
    using c(2) n x unfolding links_ok_def by (simp add: adj_snoc) metis
  ultimately show "chain ?s (xs @ [a]) \<and> links_ok ?s (xs @ [a])" ..
  have "cons_holds ?s = cons_holds s" by (simp add: cons_holds_def fun_eq_iff)
  then show "held_ok ?s (xs @ [a])"
    using c(3) a unfolding held_ok_def by (auto simp: queue_nodes_snoc split: if_splits)
  have "waking s \<Longrightarrow> waking ?s" by (rule waking_upd[OF assms(2)]) simp_all
  moreover have "qt_head s = SleepMarker \<Longrightarrow> waking ?s" by (auto simp: waking_def)
  ultimately show "cons_ok ?s (xs @ [a])"
    using c(4) x unfolding cons_ok_def by (auto split: cons_pc.splits)
  show "qt_out ?s @ queue_nodes (xs @ [a]) = qt_enq ?s" using c(5) a(2) by (simp add: queue_nodes_snoc)
qed

lemma inv_link:
  assumes "qt_inv s xs" "qt_prods s i = PLink p a"
  shows "qt_inv (s\<lparr>qt_next := (qt_next s)(p := Some a),
      qt_prods := (qt_prods s)(i := if p = SleepMarker then PWake else PIdle)\<rparr>) xs"
    (is "qt_inv ?s _")
proof (rule qt_invI)
  have c: "chain s xs" "links_ok s xs" "held_ok s xs" "cons_ok s xs" "qt_out s @ queue_nodes xs = qt_enq s"
    using assms(1) by (simp_all add: qt_inv_def)
  have u: "adj xs p a" "\<And>j b. qt_prods s j = PLink p b \<Longrightarrow> j = i" "\<And>b r. qt_cons s \<noteq> CLink p b r"
    using c(2) assms(2) unfolding links_ok_def by blast+
  have p: "p \<in> set xs" using adj_in[OF u(1)] by simp
  have "q \<noteq> p \<Longrightarrow> linking ?s q b \<longleftrightarrow> linking s q b" for q b
    using assms(2) by (simp add: linking_def) (metis prod_pc.inject(2))
  then have "chain ?s xs" by (intro chain_link[OF c(1,2), of p a]) (use assms(2) in \<open>auto simp: linking_def\<close>)
  moreover have "links_ok ?s xs"
    using c(2) u unfolding links_ok_def by auto
  ultimately show "chain ?s xs \<and> links_ok ?s xs" ..
  have "cons_holds ?s = cons_holds s" by (simp add: cons_holds_def fun_eq_iff)
  then show "held_ok ?s xs" using c(3) p unfolding held_ok_def by (auto split: if_splits)
  have "\<And>b r. qt_cons s = CEnq b r \<Longrightarrow> b \<noteq> p" using c(3) p by (auto simp: held_ok_def cons_holds_def)
  moreover have "waking s \<Longrightarrow> waking ?s" 
    using assms(2) waking_upd[OF assms(2), of ?s] by (cases "p = SleepMarker") (auto simp: waking_def)
  ultimately show "cons_ok ?s xs"
    using c(4) chain_marker[OF c(1) _ _ p] unfolding cons_ok_def by (auto split: cons_pc.splits)
  show "qt_out ?s @ queue_nodes xs = qt_enq ?s" using c(5) by simp
qed

lemma inv_wake:
  assumes "qt_inv s xs" "qt_prods s i = PWake"
  shows "qt_inv (s\<lparr>qt_wake := True, qt_prods := (qt_prods s)(i := PIdle)\<rparr>) xs" (is "qt_inv ?s _")
proof (rule qt_invI)
  have c: "chain s xs" "links_ok s xs" "held_ok s xs" "cons_ok s xs" "qt_out s @ queue_nodes xs = qt_enq s"
    using assms(1) by (simp_all add: qt_inv_def)
  show "chain ?s xs \<and> links_ok ?s xs"
    by (rule chain_frame[OF c(1,2)]) (use assms(2) in auto)
  have "cons_holds ?s = cons_holds s" by (simp add: cons_holds_def fun_eq_iff)
  then show "held_ok ?s xs" using c(3) unfolding held_ok_def by auto
  show "cons_ok ?s xs" using c(4) by (auto simp: cons_ok_def waking_def split: cons_pc.splits)
  show "qt_out ?s @ queue_nodes xs = qt_enq ?s" using c(5) by simp
qed

lemma prod_step_inv: "prod_step s s' \<Longrightarrow> qt_inv s xs \<Longrightarrow> \<exists>xs'. qt_inv s' xs'"
  by (erule prod_step.cases) (blast intro: inv_start inv_swap inv_link inv_wake)+

subsection \<open>The poller keeps it\<close>

text \<open>A step that at most clears the link of a marker outside the chain.\<close>

lemma cons_frame:
  assumes "qt_inv s xs" "cons_ok s' xs"
    and s': "qt_tail s' = qt_tail s" "qt_head s' = qt_head s" "qt_prods s' = qt_prods s" "qt_queued s' = qt_queued s"
      "qt_enq s' = qt_enq s" "qt_out s' = qt_out s"
    and n: "\<And>p. p \<in> set xs \<Longrightarrow> qt_next s' p = qt_next s p" "\<And>p. qt_next s p = None \<Longrightarrow> qt_next s' p = None"
    and l: "\<And>p a r. qt_cons s \<noteq> CLink p a r" "\<And>p a r. qt_cons s' \<noteq> CLink p a r"
    and h: "\<And>a. cons_holds s' a \<Longrightarrow> is_marker a \<and> a \<notin> set xs" "\<And>a. qt_cons s' \<noteq> CData a"
  shows "qt_inv s' xs"
proof (rule qt_invI)
  have c: "chain s xs" "links_ok s xs" "held_ok s xs" "qt_out s @ queue_nodes xs = qt_enq s"
    using assms(1) by (simp_all add: qt_inv_def)
  show "chain s' xs \<and> links_ok s' xs" by (intro chain_frame[OF c(1,2)]) (use s' l n in simp_all)
  show "held_ok s' xs" using c(3) n(2) h s' unfolding held_ok_def by simp blast
  show "qt_out s' @ queue_nodes xs = qt_enq s'" using c(4) s' by simp
qed (rule assms(2))

lemma inv_pop:
  assumes "qt_inv s xs" "qt_next s (qt_tail s) = Some m" "\<And>p a r. qt_cons s \<noteq> CLink p a r" "\<And>a. \<not> cons_holds s a"
    and s': "qt_tail s' = m" "qt_head s' = qt_head s" "qt_next s' = qt_next s" "qt_prods s' = qt_prods s"
      "qt_queued s' = qt_queued s" "qt_enq s' = qt_enq s"
    and k: "if is_marker (qt_tail s) then (\<exists>u. qt_cons s' = CSecond u) \<and> qt_out s' = qt_out s
      else qt_cons s' = CData (qt_tail s) \<and> qt_out s' = qt_out s @ [qt_tail s]"
  shows "\<exists>xs'. qt_inv s' xs'"
proof -
  have c: "chain s xs" "links_ok s xs" "held_ok s xs" "qt_out s @ queue_nodes xs = qt_enq s"
    using assms(1) by (simp_all add: qt_inv_def)
  obtain ys where xs: "xs = qt_tail s # m # ys" using chain_next[OF c(1) assms(2)] .
  have d: "qt_tail s \<notin> set (m # ys)" "is_marker (qt_tail s) \<Longrightarrow> \<not> is_marker m"
    using c(1) xs by (auto simp: chain_def)
  have l: "qt_cons s' \<noteq> CLink p a r" for p a r using k by (auto split: if_splits)
  have h: "cons_holds s' a \<longleftrightarrow> qt_cons s' = CData a" "qt_cons s' = CData a \<longleftrightarrow> \<not> is_marker (qt_tail s) \<and> a = qt_tail s" for a
    using k by (auto simp: cons_holds_def split: if_splits)
  have "held_ok s' (m # ys)"
    using c(3) d h s' xs unfolding held_ok_def by (auto simp: queue_nodes_cons split: if_splits)
  moreover have "cons_ok s' (m # ys)" using k d(2) by (auto simp: cons_ok_def split: if_splits)
  moreover have "qt_out s' @ queue_nodes (m # ys) = qt_enq s'"
    using c(4) k xs s' by (auto simp: queue_nodes_cons split: if_splits)
  ultimately have "qt_inv s' (m # ys)"
    using chain_pop[OF c(1)[unfolded xs] c(2)[unfolded xs] assms(2) s'(1-4) assms(3) l] qt_invI by blast
  then show ?thesis ..
qed

lemma inv_cons_swap:
  assumes "qt_inv s xs" "qt_cons s = CEnq a r"
  shows "qt_inv (s\<lparr>qt_cons := CLink (qt_head s) a r, qt_head := a, qt_enq := (if is_marker a then qt_enq s else qt_enq s @ [a])\<rparr>) (xs @ [a])"
    (is "qt_inv ?s _")
proof (rule qt_invI)
  have c: "chain s xs" "links_ok s xs" "held_ok s xs" "cons_ok s xs" "qt_out s @ queue_nodes xs = qt_enq s"
    using assms(1) by (simp_all add: qt_inv_def)
  have a: "a \<notin> set xs" "qt_next s a = None" "\<And>j. qt_prods s j \<noteq> PReady a"
    using c(3,4) assms(2) by (auto simp: held_ok_def cons_holds_def cons_ok_def)
  have m: "if is_marker a then a = EndMarker \<and> r \<and> \<not> is_marker (hd xs) else \<not> r \<and> a \<in> qt_queued s"
    using c(4) assms(2) by (simp add: cons_ok_def)
  have x: "xs \<noteq> []" "last xs = qt_head s" "distinct xs" "hd (xs @ [a]) = hd xs" "qt_next s (qt_head s) = None"
    using c(1) by (auto simp: chain_def)
  have n: "\<not> adj xs (qt_head s) b" for b using adj_last[OF x(3)] x(2) by metis
  have "linking ?s p b \<longleftrightarrow> linking s p b \<or> p = qt_head s \<and> b = a" for p b
    using assms(2) by (auto simp: linking_def)
  then have "chain ?s (xs @ [a])" by (intro chain_snoc[OF c(1,2) a(1,2)]) (use m in \<open>auto split: if_splits\<close>)
  moreover have "links_ok ?s (xs @ [a])"
    using c(2) n x assms(2) unfolding links_ok_def by (simp add: adj_snoc) metis
  ultimately show "chain ?s (xs @ [a]) \<and> links_ok ?s (xs @ [a])" ..
  show "held_ok ?s (xs @ [a])"
    using c(3) a m unfolding held_ok_def by (auto simp: cons_holds_def queue_nodes_snoc split: if_splits)
  show "cons_ok ?s (xs @ [a])" using m x by (auto simp: cons_ok_def split: if_splits)
  show "qt_out ?s @ queue_nodes (xs @ [a]) = qt_enq ?s" using c(5) by (simp add: queue_nodes_snoc)
qed

lemma inv_cons_link:
  assumes "qt_inv s xs" "qt_cons s = CLink p a r"
  shows "qt_inv (s\<lparr>qt_next := (qt_next s)(p := Some a), qt_cons := if r then CReload else CIdle\<rparr>) xs"
    (is "qt_inv ?s _")
proof (rule qt_invI)
  have c: "chain s xs" "links_ok s xs" "held_ok s xs" "cons_ok s xs" "qt_out s @ queue_nodes xs = qt_enq s"
    using assms(1) by (simp_all add: qt_inv_def)
  have u: "adj xs p a" "\<And>j b. qt_prods s j \<noteq> PLink p b"
    using c(2) assms(2) unfolding links_ok_def by blast+
  have p: "p \<in> set xs" using adj_in[OF u(1)] by simp
  have "q \<noteq> p \<Longrightarrow> linking ?s q b \<longleftrightarrow> linking s q b" for q b
    using assms(2) by (auto simp: linking_def)
  then have "chain ?s xs" by (intro chain_link[OF c(1,2), of p a]) (use assms(2) in \<open>auto simp: linking_def\<close>)
  moreover have "links_ok ?s xs"
    using c(2) u unfolding links_ok_def by auto
  ultimately show "chain ?s xs \<and> links_ok ?s xs" ..
  show "held_ok ?s xs" using c(3) p unfolding held_ok_def by (auto simp: cons_holds_def split: if_splits)
  show "cons_ok ?s xs" using c(4) assms(2) unfolding cons_ok_def by auto
  show "qt_out ?s @ queue_nodes xs = qt_enq ?s" using c(5) by simp
qed

text \<open>The exchange of one marker for the other in a queue that holds only a marker.\<close>

lemma inv_marker:
  assumes "qt_inv s xs" "xs = [k]" "is_marker k" "is_marker m" "m \<noteq> ClosedMarker" "qt_next s m = None"
    and "\<And>p a r. qt_cons s \<noteq> CLink p a r" "\<And>p a r. qt_cons s' \<noteq> CLink p a r" "\<And>a. \<not> cons_holds s' a" "cons_ok s' [m]"
    and s': "qt_tail s' = m" "qt_head s' = m" "qt_prods s' = qt_prods s" "qt_queued s' = qt_queued s"
      "qt_enq s' = qt_enq s" "qt_out s' = qt_out s" "qt_next s' = qt_next s"
  shows "qt_inv s' [m]"
proof (rule qt_invI)
  have c: "chain s xs" "links_ok s xs" "held_ok s xs" "qt_out s @ queue_nodes xs = qt_enq s"
    using assms(1) by (simp_all add: qt_inv_def)
  have "chain s' [m]" using s' assms(5,6) by (simp add: chain_def)
  moreover have "links_ok s' [m]" using c(2) assms(2,7,8) s' by (auto simp: links_ok_def)
  ultimately show "chain s' [m] \<and> links_ok s' [m]" ..
  show "held_ok s' [m]"
    using c(3) assms(4,9) s' unfolding held_ok_def by (auto simp: queue_nodes_cons queue_nodes_def cons_holds_def)
  show "qt_out s' @ queue_nodes [m] = qt_enq s'" using c(4) assms(2-4) s' by (simp add: queue_nodes_def)
qed (rule assms(10))

lemma qt_inv_hd:
  assumes "qt_inv s xs"
  shows "hd xs = qt_tail s" "cons_ok s xs" "qt_head s = qt_tail s \<Longrightarrow> xs = [qt_tail s]"
    "is_marker (qt_tail s) \<Longrightarrow> is_marker m \<Longrightarrow> m \<noteq> qt_tail s \<Longrightarrow> m \<notin> set xs"
    "qt_head s = SleepMarker \<Longrightarrow> xs = [SleepMarker]" "qt_next s (qt_head s) = None"
proof -
  have c: "chain s xs" "cons_ok s xs" using assms by (simp_all add: qt_inv_def)
  show h: "hd xs = qt_tail s" and "cons_ok s xs" and "qt_next s (qt_head s) = None"
    using c unfolding chain_def by metis+
  show "qt_head s = qt_tail s \<Longrightarrow> xs = [qt_tail s]" using chain_single[OF c(1)] .
  show "m \<notin> set xs" if "is_marker (qt_tail s)" "is_marker m" "m \<noteq> qt_tail s"
    using chain_marker[OF c(1), of m] that h by auto
  show "xs = [SleepMarker]" if "qt_head s = SleepMarker"
  proof -
    have l: "last xs = SleepMarker" "xs \<noteq> []" using c(1) that by (simp_all add: chain_def)
    then have "SleepMarker \<notin> set (tl xs)" using c(1) unfolding chain_def
      by (metis addr.distinct(1) is_marker_simps(2))
    then have "tl xs = []" using last_in_set[of "tl xs"] last_tl[of xs] l by fastforce
    then show ?thesis using l by (cases xs) simp_all
  qed
qed

text \<open>The node just taken is in no other hands.\<close>

lemma inv_dequeued:
  assumes "qt_inv s xs" "qt_cons s = CData t"
  shows "qt_inv (s\<lparr>qt_cons := CIdle, qt_queued := qt_queued s - {t}\<rparr>) xs" (is "qt_inv ?s _")
proof (rule qt_invI)
  have c: "chain s xs" "links_ok s xs" "held_ok s xs" "qt_out s @ queue_nodes xs = qt_enq s"
    using assms(1) by (simp_all add: qt_inv_def)
  show "chain ?s xs \<and> links_ok ?s xs" by (rule chain_frame[OF c(1,2)]) (use assms(2) in auto)
  have "t \<notin> set xs" "\<And>i. qt_prods s i \<noteq> PReady t" using c(3) assms(2) by (auto simp: held_ok_def cons_holds_def)
  then show "held_ok ?s xs" using c(3) by (auto simp: held_ok_def cons_holds_def set_queue_nodes)
qed (use assms(1) in \<open>simp_all add: cons_ok_def qt_inv_def\<close>)

lemma inv_requeue:
  assumes "qt_inv s xs" "qt_cons s = CData t"
  shows "qt_inv (s\<lparr>qt_cons := CEnq t False, qt_next := (qt_next s)(t := None)\<rparr>) xs" (is "qt_inv ?s _")
proof (rule qt_invI)
  have c: "chain s xs" "links_ok s xs" "held_ok s xs" "qt_out s @ queue_nodes xs = qt_enq s"
    using assms(1) by (simp_all add: qt_inv_def)
  have t: "t \<notin> set xs" "\<not> is_marker t" "t \<in> qt_queued s" using c(3) assms(2) by (auto simp: held_ok_def cons_holds_def)
  then show "chain ?s xs \<and> links_ok ?s xs" by (intro chain_frame[OF c(1,2)]) (use assms(2) in auto)
  have "cons_holds ?s = cons_holds s" using assms(2) by (auto simp: cons_holds_def fun_eq_iff)
  then show "held_ok ?s xs" using c(3) by (auto simp: held_ok_def)
  show "cons_ok ?s xs" using t by (simp add: cons_ok_def)
qed (use assms(1) in \<open>simp add: qt_inv_def\<close>)

lemma cons_step_inv:
  assumes "cons_step s s'" "qt_inv s xs"
  shows "\<exists>xs'. qt_inv s' xs'"
proof -
  note h = qt_inv_hd[OF assms(2)]
  note frame = exI[of "qt_inv s'" xs, OF cons_frame[OF assms(2)]]
  note defs = cons_ok_def cons_holds_def deciding_def
  show ?thesis using assms(1)
  proof (cases rule: cons_step.cases)
    case (dequeue u)
    then show ?thesis by (intro frame) (auto simp: defs)
  next
    case (marker_empty u)
    then show ?thesis by (intro frame) (auto simp: defs)
  next
    case (marker_sleep u)
    then show ?thesis using h h(4)[of EndMarker] by (intro frame) (auto simp: defs)
  next
    case (marker_skip u m)
    then show ?thesis by (intro inv_pop[OF assms(2)]) (auto simp: defs)
  next
    case (until u)
    then show ?thesis by (intro frame) (auto simp: defs)
  next
    case (data u m)
    then show ?thesis using h by (intro inv_pop[OF assms(2)]) (auto simp: defs)
  next
    case (last u)
    then show ?thesis using h by (intro frame) (auto simp: defs)
  next
    case head_moved
    then show ?thesis by (intro frame) (auto simp: defs)
  next
    case head_same
    then show ?thesis using h h(4)[of EndMarker] by (intro frame) (auto simp: defs)
  next
    case (swap a r)
    then show ?thesis using inv_cons_swap[OF assms(2)] by blast
  next
    case (link p a r)
    then show ?thesis using inv_cons_link[OF assms(2)] by blast
  next
    case (reload_data m)
    then show ?thesis using h by (intro inv_pop[OF assms(2)]) (auto simp: defs)
  next
    case reload_none
    then show ?thesis by (intro frame) (auto simp: defs)
  next
    case clear_ok
    then show ?thesis using h
      by (intro exI[of "qt_inv s'" "[EndMarker]"] inv_marker[OF assms(2), of SleepMarker EndMarker]) (auto simp: defs)
  next
    case clear_no
    then show ?thesis by (intro frame) (auto simp: defs)
  next
    case full
    then show ?thesis using h h(4)[of EndMarker] by (intro frame) (auto simp: defs)
  next
    case (return r)
    then show ?thesis by (intro frame) (auto simp: defs)
  next
    case (dequeued t)
    then show ?thesis using inv_dequeued[OF assms(2)] by blast
  next
    case (requeue t)
    then show ?thesis using inv_requeue[OF assms(2)] by blast
  next
    case prepare_again
    then show ?thesis using h by (intro frame) (auto simp: defs)
  next
    case prepare
    then show ?thesis using h h(4)[of SleepMarker] by (intro frame) (auto simp: defs)
  next
    case prepare_ok
    then show ?thesis using h
      by (intro exI[of "qt_inv s'" "[SleepMarker]"] inv_marker[OF assms(2), of EndMarker SleepMarker]) (auto simp: defs)
  next
    case prepare_no
    then show ?thesis by (intro frame) (auto simp: defs)
  next
    case woken
    then show ?thesis by (intro frame) (auto simp: defs)
  next
    case other_event
    then show ?thesis by (intro frame) (auto simp: defs)
  qed
qed

lemma qt_reach_inv: "qt_reach s \<Longrightarrow> \<exists>xs. qt_inv s xs"
proof (induction rule: qt_reach.induct)
  case init
  then show ?case using qt_inv_init by blast
next
  case (prod s s')
  then show ?case using prod_step_inv by blast
next
  case (cons s s')
  then show ?case using cons_step_inv by blast
qed

lemma qt_inv_asserts: "qt_inv s xs \<Longrightarrow> qt_asserts s"
proof -
  assume i: "qt_inv s xs"
  note h = qt_inv_hd[OF i]
  have l: "links_ok s xs" "qt_head s \<in> set xs"
    using i last_in_set unfolding qt_inv_def chain_def by metis+
  have "qt_cons s = CClear \<Longrightarrow> qt_head s \<noteq> EndMarker" "qt_cons s = CPrep \<Longrightarrow> qt_head s \<noteq> SleepMarker"
    using h(1,2) h(4)[of "qt_head s"] l(2) by (auto simp: cons_ok_def)
  then show ?thesis using l(1) h(6) unfolding qt_asserts_def links_ok_def by metis
qed

subsection \<open>Properties\<close>

text \<open>C23. Under every interleaving of producers and the poller, at the grain of single accesses, the debug
  assertions of the queue hold, and the poller takes the nodes in the order in which the producers'
  exchanges of the head succeeded: what it has not taken yet is a suffix of what was appended, in
  which no node occurs twice and every node has its queued bit set.\<close>

theorem queue_threads_fifo:
  assumes "qt_reach s"
  shows "qt_asserts s \<and> (\<exists>rest. qt_enq s = qt_out s @ rest \<and> distinct rest \<and> set rest \<subseteq> qt_queued s)"
proof -
  obtain xs where i: "qt_inv s xs" using qt_reach_inv[OF assms] by blast
  then have "distinct (queue_nodes xs)" "set (queue_nodes xs) \<subseteq> qt_queued s" "qt_enq s = qt_out s @ queue_nodes xs"
    unfolding qt_inv_def chain_def held_ok_def queue_nodes_def by (simp_all add: distinct_filter)
  then show ?thesis using qt_inv_asserts[OF i] by blast
qed

text \<open>A run: the poller goes to sleep on the empty queue, a producer appends a node, stores the link, and the
  poller stops waiting for another event.\<close>

definition qt_raced :: queue_threads where
  "qt_raced = qt_init\<lparr>qt_head := Node 0, qt_tail := SleepMarker, qt_queued := {Node 0},
     qt_prods := (\<lambda>_. PIdle)(0 := PLink SleepMarker (Node 0)), qt_cons := CSleep, qt_enq := [Node 0]\<rparr>"

definition qt_sent :: queue_threads where
  "qt_sent = qt_raced\<lparr>qt_next := (\<lambda>_. None)(SleepMarker := Some (Node 0)), qt_prods := (\<lambda>_. PIdle)(0 := PWake), qt_cons := CIdle\<rparr>"

lemma qt_raced_reach: "qt_reach qt_raced"
proof -
  let ?a = "qt_init\<lparr>qt_cons := CPrep, qt_next := (qt_next qt_init)(SleepMarker := None)\<rparr>"
  let ?b = "?a\<lparr>qt_cons := CSleep, qt_head := SleepMarker, qt_tail := SleepMarker\<rparr>"
  let ?c = "?b\<lparr>qt_queued := insert (Node 0) (qt_queued ?b), qt_next := (qt_next ?b)(Node 0 := None),
    qt_prods := (qt_prods ?b)(0 := PReady (Node 0))\<rparr>"
  let ?d = "?c\<lparr>qt_prods := (qt_prods ?c)(0 := PLink (qt_head ?c) (Node 0)), qt_head := Node 0, qt_enq := qt_enq ?c @ [Node 0]\<rparr>"
  have "cons_step qt_init ?a" by (rule cons_step.prepare) (simp_all add: qt_init_def)
  moreover have "cons_step ?a ?b" by (rule cons_step.prepare_ok) (simp_all add: qt_init_def)
  moreover have "prod_step ?b ?c" by (rule prod_step.start) (simp_all add: qt_init_def is_marker_def)
  moreover have "prod_step ?c ?d" by (rule prod_step.swap) simp
  moreover have "?d = qt_raced" by (simp add: qt_raced_def qt_init_def fun_eq_iff)
  ultimately show ?thesis using qt_reach.intros by metis
qed

lemma qt_sent_reach: "qt_reach qt_sent"
proof -
  let ?a = "qt_raced\<lparr>qt_next := (qt_next qt_raced)(SleepMarker := Some (Node 0)),
    qt_prods := (qt_prods qt_raced)(0 := if SleepMarker = SleepMarker then PWake else PIdle)\<rparr>"
  have "prod_step qt_raced ?a" by (rule prod_step.link) (simp add: qt_raced_def)
  moreover have "cons_step ?a (?a\<lparr>qt_cons := CIdle\<rparr>)" by (rule cons_step.other_event) (simp add: qt_raced_def)
  moreover have "?a\<lparr>qt_cons := CIdle\<rparr> = qt_sent" by (simp add: qt_sent_def qt_raced_def qt_init_def fun_eq_iff)
  ultimately show ?thesis using qt_raced_reach qt_reach.intros by metis
qed

theorem queue_threads_fifo_witness:
  "qt_asserts qt_sent \<and> (\<exists>rest. [Node 0] = [] @ rest \<and> distinct rest \<and> set rest \<subseteq> {Node 0})"
  using queue_threads_fifo[OF qt_sent_reach] by (simp add: qt_sent_def qt_raced_def qt_init_def)

text \<open>C24. No wakeup is lost: while the poller sleeps and a node waits in the queue, the awakener's pipe is
  readable, or a producer is about to write to it, or a producer is about to store the sleep marker's
  link, and will then see that it has to wake the poller.\<close>

theorem queue_threads_no_lost_wakeup:
  assumes "qt_reach s" "qt_cons s = CSleep" "qt_out s \<noteq> qt_enq s"
  shows "waking s"
proof -
  obtain xs where i: "qt_inv s xs" using qt_reach_inv[OF assms(1)] by blast
  then have "xs = [SleepMarker] \<or> waking s" using assms(2) by (simp add: qt_inv_def cons_ok_def)
  moreover have "xs \<noteq> [SleepMarker]"
    using i assms(3) by (auto simp: qt_inv_def queue_nodes_def)
  ultimately show ?thesis by simp
qed

theorem queue_threads_no_lost_wakeup_witness: "waking qt_raced"
  by (rule queue_threads_no_lost_wakeup[OF qt_raced_reach]) (simp_all add: qt_raced_def qt_init_def)

subsection \<open>The poller alone\<close>

text \<open>The functions of \<open>ReadinessQueue\<close> run an operation without interruption. A state of the step relation
  agrees with a queue of theirs when links, head and tail are the same.\<close>

definition qt_agrees :: "('j, 'p) rqueue \<Rightarrow> queue_threads \<Rightarrow> bool" where
  "qt_agrees q s \<longleftrightarrow> (\<forall>a n. rq_heap q a = Some n \<longrightarrow> qt_next s a = nd_next n) \<and> qt_head s = rq_head q \<and> qt_tail s = rq_tail q"

definition after :: "dequeue \<Rightarrow> cons_pc" where
  "after r = (case r of Data a \<Rightarrow> CData a | _ \<Rightarrow> CRet r)"

lemma qt_agrees_modify:
  "node_modify q a (\<lambda>n. n\<lparr>nd_next := v\<rparr>) = Some q' \<Longrightarrow> qt_agrees q s \<Longrightarrow>
   qt_next s' = (qt_next s)(a := v) \<Longrightarrow> qt_head s' = qt_head s \<Longrightarrow> qt_tail s' = qt_tail s \<Longrightarrow>
   qt_agrees q' s' \<and> rq_head q' = rq_head q \<and> rq_tail q' = rq_tail q"
  by (auto simp: node_modify_def qt_agrees_def split: option.splits)

lemma enqueue_end_run:
  assumes "enqueue_node q EndMarker = Some (w, q')" "qt_agrees q s" "qt_cons s = CHead" "rq_head q = rq_tail q"
    "rq_head q \<noteq> ClosedMarker"
  shows "\<exists>s'. cons_step\<^sup>*\<^sup>* s s' \<and> qt_agrees q' s' \<and> qt_cons s' = CReload \<and> qt_out s' = qt_out s \<and> qt_tail s' = qt_tail s \<and> qt_prods s' = qt_prods s"
proof -
  obtain q1 where q1: "node_modify q EndMarker (\<lambda>n. n\<lparr>nd_next := None\<rparr>) = Some q1"
    using assms(1) by (auto simp: enqueue_node_def enqueue_swap_def bind_eq_Some_conv)
  let ?s1 = "s\<lparr>qt_cons := CEnq EndMarker True, qt_next := (qt_next s)(EndMarker := None)\<rparr>"
  have a1: "qt_agrees q1 ?s1" "rq_head q1 = rq_head q" "rq_tail q1 = rq_tail q"
    using qt_agrees_modify[OF q1 assms(2), of ?s1] by simp_all
  let ?q2 = "q1\<lparr>rq_head := EndMarker\<rparr>"
  have sw: "enqueue_swap q EndMarker = Some (Some (rq_head q), ?q2)"
    using q1 a1(2) assms(5) by (simp add: enqueue_swap_def Let_def)
  then have q': "node_modify ?q2 (rq_head q) (\<lambda>n. n\<lparr>nd_next := Some EndMarker\<rparr>) = Some q'"
    using assms(1) by (auto simp: enqueue_node_def enqueue_link_def bind_eq_Some_conv split: if_splits)
  let ?s2 = "?s1\<lparr>qt_cons := CLink (qt_head ?s1) EndMarker True, qt_head := EndMarker,
    qt_enq := (if is_marker EndMarker then qt_enq ?s1 else qt_enq ?s1 @ [EndMarker])\<rparr>"
  let ?s3 = "?s2\<lparr>qt_next := (qt_next ?s2)(qt_head s := Some EndMarker), qt_cons := if True then CReload else CIdle\<rparr>"
  have h: "qt_head s = rq_head q" "qt_head s = qt_tail s" using assms(2,4) by (simp_all add: qt_agrees_def)
  have "cons_step s ?s1" by (rule cons_step.head_same) (use assms(3) h in simp_all)
  moreover have "cons_step ?s1 ?s2" by (rule cons_step.swap) simp
  moreover have "cons_step ?s2 ?s3" by (rule cons_step.link) simp
  moreover have "qt_agrees ?q2 ?s2" using a1 by (simp add: qt_agrees_def)
  then have "qt_agrees q' ?s3" using qt_agrees_modify[OF q', of ?s2 ?s3] h by simp
  ultimately have "cons_step\<^sup>*\<^sup>* s ?s3" "qt_agrees q' ?s3" by (auto intro: converse_rtranclp_into_rtranclp)
  then show ?thesis by (intro exI[of _ ?s3]) simp
qed

lemma dequeue_rest_run:
  assumes "dequeue_rest q u (rq_tail q) nx = Some (r, q')" "qt_agrees q s" "deciding s u" "qt_next s (qt_tail s) = nx"
    "rq_head q \<noteq> ClosedMarker"
  shows "\<exists>s'. cons_step\<^sup>*\<^sup>* s s' \<and> qt_agrees q' s' \<and> qt_cons s' = after r \<and>
    qt_out s' = qt_out s @ (case r of Data a \<Rightarrow> [a] | _ \<Rightarrow> []) \<and> qt_prods s' = qt_prods s"
proof -
  have t: "qt_tail s = rq_tail q" "qt_head s = rq_head q" using assms(2) by (simp_all add: qt_agrees_def)
  show ?thesis
  proof (cases "Some (rq_tail q) = u")
    case True
    have "cons_step s (s\<lparr>qt_cons := CRet Empty\<rparr>)" by (rule cons_step.until) (use assms(3) True t in auto)
    then show ?thesis using True assms(1,2)
      by (intro exI[of _ "s\<lparr>qt_cons := CRet Empty\<rparr>"]) (auto simp: dequeue_rest_def after_def qt_agrees_def)
  next
    case u: False
    show ?thesis
    proof (cases nx)
      case (Some m)
      let ?s = "s\<lparr>qt_cons := CData (qt_tail s), qt_out := qt_out s @ [qt_tail s], qt_tail := m\<rparr>"
      have "cons_step s ?s" by (rule cons_step.data) (use assms(3,4) u t Some in auto)
      then show ?thesis using u assms(1,2) Some
        by (intro exI[of _ ?s]) (auto simp: dequeue_rest_def after_def qt_agrees_def)
    next
      case None
      let ?h = "s\<lparr>qt_cons := CHead\<rparr>"
      have 1: "cons_step s ?h" by (rule cons_step.last) (use assms(3,4) u t None in auto)
      show ?thesis
      proof (cases "rq_head q = rq_tail q")
        case False
        have "cons_step ?h (?h\<lparr>qt_cons := CRet Inconsistent\<rparr>)" by (rule cons_step.head_moved) (use False t in auto)
        then have "cons_step\<^sup>*\<^sup>* s (?h\<lparr>qt_cons := CRet Inconsistent\<rparr>)" 
          using 1 by (auto intro: converse_rtranclp_into_rtranclp)
        then show ?thesis using False u assms(1,2) None
          by (intro exI[of _ "?h\<lparr>qt_cons := CRet Inconsistent\<rparr>"]) (auto simp: dequeue_rest_def after_def qt_agrees_def)
      next
        case True
        obtain w q1 n where q1: "enqueue_node q EndMarker = Some (w, q1)" "rq_heap q1 (rq_tail q) = Some n"
          and res: "(r, q') = (case nd_next n of Some m \<Rightarrow> (Data (rq_tail q), q1\<lparr>rq_tail := m\<rparr>) | None \<Rightarrow> (Inconsistent, q1))"
          using assms(1) u None True by (auto simp: dequeue_rest_def bind_eq_Some_conv split: option.splits)
        have "qt_agrees q ?h" using assms(2) by (simp add: qt_agrees_def)
        then obtain s1 where s1: "cons_step\<^sup>*\<^sup>* ?h s1" "qt_agrees q1 s1" "qt_cons s1 = CReload" "qt_out s1 = qt_out s"
            "qt_tail s1 = qt_tail s" "qt_prods s1 = qt_prods s"
          using enqueue_end_run[OF q1(1), of ?h] True assms(5) by auto
        have t1: "qt_tail s1 = rq_tail q" using s1(5) t(1) by simp
        have n1: "qt_next s1 (qt_tail s1) = nd_next n" using s1(2) q1(2) t1 by (simp add: qt_agrees_def)
        have r1: "cons_step\<^sup>*\<^sup>* s s1" using 1 s1(1) by (rule converse_rtranclp_into_rtranclp)
        show ?thesis
        proof (cases "nd_next n")
          case None
          have "cons_step s1 (s1\<lparr>qt_cons := CRet Inconsistent\<rparr>)"
            by (rule cons_step.reload_none) (use s1(3) n1 None in auto)
          then have "cons_step\<^sup>*\<^sup>* s (s1\<lparr>qt_cons := CRet Inconsistent\<rparr>)" by (rule rtranclp.rtrancl_into_rtrancl[OF r1])
          then show ?thesis using res None s1
            by (intro exI[of _ "s1\<lparr>qt_cons := CRet Inconsistent\<rparr>"]) (auto simp: after_def qt_agrees_def)
        next
          case (Some m)
          let ?s = "s1\<lparr>qt_cons := CData (qt_tail s1), qt_out := qt_out s1 @ [qt_tail s1], qt_tail := m\<rparr>"
          have "cons_step s1 ?s" by (rule cons_step.reload_data) (use s1(3) n1 Some in auto)
          then have "cons_step\<^sup>*\<^sup>* s ?s" by (rule rtranclp.rtrancl_into_rtrancl[OF r1])
          then show ?thesis using res Some s1 t1
            by (intro exI[of _ ?s]) (auto simp: after_def qt_agrees_def)
        qed
      qed
    qed
  qed
qed

lemma dequeue_run:
  assumes "dequeue_node q u = Some (r, q')" "qt_agrees q s" "qt_cons s = CIdle" "rq_head q \<noteq> ClosedMarker"
  shows "\<exists>s'. cons_step\<^sup>*\<^sup>* s s' \<and> qt_agrees q' s' \<and> qt_cons s' = after r \<and>
    qt_out s' = qt_out s @ (case r of Data a \<Rightarrow> [a] | _ \<Rightarrow> [])"
proof -
  let ?f = "s\<lparr>qt_cons := CFirst u\<rparr>"
  have f: "cons_step s ?f" by (rule cons_step.dequeue) (rule assms(3))
  have a: "qt_agrees q ?f" using assms(2) by (simp add: qt_agrees_def)
  have t: "qt_tail s = rq_tail q" "qt_head s = rq_head q" using assms(2) by (simp_all add: qt_agrees_def)
  obtain n where n: "rq_heap q (rq_tail q) = Some n" using assms(1) by (auto simp: dequeue_node_def Let_def bind_eq_Some_conv)
  then have nx: "qt_next s (rq_tail q) = nd_next n" using assms(2) by (simp add: qt_agrees_def)
  consider (rest) "\<not> is_marker (rq_tail q)" | (skip) m where "is_marker (rq_tail q)" "nd_next n = Some m"
    | (empty) "is_marker (rq_tail q)" "nd_next n = None" "rq_tail q \<noteq> SleepMarker"
    | (sleep) "nd_next n = None" "rq_tail q = SleepMarker" by fastforce
  then show ?thesis
  proof cases
    case rest
    then have "dequeue_rest q u (rq_tail q) (nd_next n) = Some (r, q')"
      using assms(1) n by (simp add: dequeue_node_def Let_def)
    from dequeue_rest_run[OF this a] rest f nx t assms(4) show ?thesis
      by (auto simp: deciding_def intro: converse_rtranclp_into_rtranclp)
  next
    case skip
    then obtain n' where n': "rq_heap q m = Some n'" "dequeue_rest (q\<lparr>rq_tail := m\<rparr>) u m (nd_next n') = Some (r, q')"
      using assms(1) n by (auto simp: dequeue_node_def Let_def bind_eq_Some_conv)
    let ?g = "?f\<lparr>qt_cons := CSecond u, qt_tail := m\<rparr>"
    have g: "cons_step ?f ?g" by (rule cons_step.marker_skip) (use skip nx t in simp_all)
    have "qt_agrees (q\<lparr>rq_tail := m\<rparr>) ?g" "qt_next ?g m = nd_next n'" using assms(2) n'(1) by (simp_all add: qt_agrees_def)
    with dequeue_rest_run[of "q\<lparr>rq_tail := m\<rparr>" u "nd_next n'" r q' ?g] n'(2) assms(4) f g show ?thesis
      by (auto simp: deciding_def intro: converse_rtranclp_into_rtranclp)
  next
    case empty
    have "cons_step ?f (?f\<lparr>qt_cons := CRet Empty\<rparr>)" by (rule cons_step.marker_empty) (use empty nx t in simp_all)
    moreover have "(r, q') = (Empty, q)" using assms(1) n empty by (simp add: dequeue_node_def clear_sleep_marker_def)
    ultimately show ?thesis using f a
      by (intro exI[of _ "?f\<lparr>qt_cons := CRet Empty\<rparr>"]) (auto simp: after_def qt_agrees_def intro: converse_rtranclp_into_rtranclp)
  next
    case sleep
    let ?g = "?f\<lparr>qt_cons := CClear, qt_next := (qt_next ?f)(EndMarker := None)\<rparr>"
    have g: "cons_step ?f ?g" by (rule cons_step.marker_sleep) (use sleep nx t in simp_all)
    obtain q1 where q1: "node_modify q EndMarker (\<lambda>n. n\<lparr>nd_next := None\<rparr>) = Some q1"
      and "(if rq_head q1 = SleepMarker then Some (q1\<lparr>rq_head := EndMarker, rq_tail := EndMarker\<rparr>)
        else if rq_head q1 = EndMarker then None else Some q1) = Some q'" and r: "r = Empty"
      using assms(1) n sleep by (auto simp: dequeue_node_def clear_sleep_marker_def Let_def bind_eq_Some_conv)
    then have q': "q' = (if rq_head q1 = SleepMarker then q1\<lparr>rq_head := EndMarker, rq_tail := EndMarker\<rparr> else q1)"
      by (simp split: if_splits)
    have a1: "qt_agrees q1 ?g" "rq_head q1 = rq_head q" using qt_agrees_modify[OF q1 a, of ?g] by simp_all
    show ?thesis
    proof (cases "rq_head q = SleepMarker")
      case True
      let ?h = "?g\<lparr>qt_cons := CRet Empty, qt_head := EndMarker, qt_tail := EndMarker\<rparr>"
      have "cons_step ?g ?h" by (rule cons_step.clear_ok) (use True t in simp_all)
      then have "cons_step\<^sup>*\<^sup>* s ?h" using f g by (auto intro: converse_rtranclp_into_rtranclp)
      then show ?thesis using True a1 q' r
        by (intro exI[of _ ?h]) (auto simp: after_def qt_agrees_def)
    next
      case False
      let ?h = "?g\<lparr>qt_cons := CRet Empty\<rparr>"
      have "cons_step ?g ?h" by (rule cons_step.clear_no) (use False t in simp_all)
      then have "cons_step\<^sup>*\<^sup>* s ?h" using f g by (auto intro: converse_rtranclp_into_rtranclp)
      then show ?thesis using False a1 q' r
        by (intro exI[of _ ?h]) (auto simp: after_def qt_agrees_def)
    qed
  qed
qed

text \<open>A queue of the functions with the links, head and tail of a state.\<close>

definition qt_queue :: "queue_threads \<Rightarrow> (string, nat) rqueue" where
  "qt_queue s = (example_queue None 0)\<lparr>rq_heap := (\<lambda>a. Some ((example_node None 0)\<lparr>nd_next := qt_next s a\<rparr>)),
     rq_head := qt_head s, rq_tail := qt_tail s\<rparr>"

lemma qt_queue_agrees: "qt_agrees (qt_queue s) s"
  by (simp add: qt_agrees_def qt_queue_def)

lemma qt_queue_dequeue:
  assumes i: "qt_inv s xs" and l: "\<And>p a. \<not> linking s p a" and e: "qt_enq s = qt_out s @ a # rest"
  shows "\<exists>q'. dequeue_node (qt_queue s) None = Some (Data a, q')"
proof -
  have c: "chain s xs" using i by (simp add: qt_inv_def)
  have nodes: "queue_nodes xs = a # rest" using i e by (simp add: qt_inv_def)
  have nx: "adj xs p b \<Longrightarrow> qt_next s p = Some b" for p b using c l unfolding chain_def by blast
  have hd: "hd xs = qt_tail s" "last xs = qt_head s" "qt_next s (last xs) = None" "qt_tail s \<noteq> ClosedMarker"
    using c unfolding chain_def by metis+
  have m: "\<not> is_marker a" using nodes by (auto simp: queue_nodes_def filter_eq_Cons_iff)
  have rest: "\<exists>q'. dequeue_rest (qt_queue s\<lparr>rq_tail := a\<rparr>) None a (qt_next s a) = Some (Data a, q')"
    if "qt_next s a = None \<Longrightarrow> qt_head s = a"
  proof (cases "qt_next s a")
    case None
    then show ?thesis using that m
      by (auto simp: dequeue_rest_def enqueue_node_def enqueue_swap_def enqueue_link_def node_modify_def qt_queue_def
          example_queue_def bind_eq_Some_conv is_marker_def)
  qed (simp add: dequeue_rest_def)
  have last: "qt_head s = a" if "xs = ys @ a # zs" "qt_next s a = None" for ys zs
  proof (cases zs)
    case Nil
    then show ?thesis using that hd(2) by simp
  next
    case (Cons z zs')
    then have "adj xs a z" using that(1) by (induction ys arbitrary: xs) auto
    then show ?thesis using nx that(2) by fastforce
  qed
  show ?thesis
  proof (cases "is_marker (qt_tail s)")
    case False
    then obtain zs where xs: "xs = a # zs" using nodes hd(1) c
      by (cases xs) (auto simp: queue_nodes_cons chain_def)
    then show ?thesis using rest last[of "[]"] hd(1) m
      by (auto simp: dequeue_node_def Let_def qt_queue_def)
  next
    case True
    then obtain zs where xs: "xs = qt_tail s # a # zs" using nodes hd(1) c
    proof -
      obtain ys where ys: "xs = qt_tail s # ys" using chain_tail[OF c] .
      then have "\<forall>x \<in> set ys. \<not> is_marker x" using c True by (auto simp: chain_def)
      then have "queue_nodes ys = ys" by (simp add: queue_nodes_def)
      then show ?thesis using that nodes ys True by (simp add: queue_nodes_cons)
    qed
    then have "qt_next s (qt_tail s) = Some a" using nx by simp
    then show ?thesis using rest last[of "[qt_tail s]"] xs True
      by (auto simp: dequeue_node_def Let_def qt_queue_def)
  qed
qed

text \<open>A node that has been appended can be taken: when no producer stands between its exchange of the head
  and its store of the link, the poller's \<open>dequeue_node\<close>, running
  alone, comes back with the oldest node not yet taken.\<close>

theorem queue_threads_delivers:
  assumes "qt_reach s" "qt_cons s = CIdle" "\<forall>i p b. qt_prods s i \<noteq> PLink p b" "qt_enq s = qt_out s @ a # rest"
  shows "\<exists>s'. cons_step\<^sup>*\<^sup>* s s' \<and> qt_cons s' = CData a \<and> qt_out s' = qt_out s @ [a]"
proof -
  obtain xs where i: "qt_inv s xs" using qt_reach_inv[OF assms(1)] by blast
  obtain q' where q': "dequeue_node (qt_queue s) None = Some (Data a, q')"
    using qt_queue_dequeue[OF i _ assms(4)] assms(2,3) by (auto simp: linking_def)
  have "hd xs \<noteq> ClosedMarker" "last xs = qt_head s" "last xs \<noteq> ClosedMarker"
    using i unfolding qt_inv_def chain_def
    by (metis addr.distinct(3) is_marker_simps(3) last_in_set list.exhaust_sel set_ConsD)+
  then have "rq_head (qt_queue s) \<noteq> ClosedMarker" by (simp add: qt_queue_def)
  from dequeue_run[OF q' qt_queue_agrees assms(2) this] show ?thesis by (auto simp: after_def)
qed

theorem queue_threads_delivers_witness:
  "\<exists>s'. cons_step\<^sup>*\<^sup>* qt_sent s' \<and> qt_cons s' = CData (Node 0) \<and> qt_out s' = [Node 0]"
  using queue_threads_delivers[OF qt_sent_reach, of "Node 0" "[]"]
  by (simp add: qt_sent_def qt_raced_def qt_init_def)

end
