(* ===== verification/QueueClose.thy ===== *)
theory QueueClose
  imports QueueThreads
begin

section \<open>Closing the readiness queue under interleaving\<close>

text \<open>
  \<open>Drop\<close> for \<open>ReadinessQueue\<close> (\<open>src/poll.rs\<close>) while other threads go on appending, in the steps of the theory \<open>QueueThreads\<close>:
  the poller is gone, its thread appends the closed marker and then takes the nodes to give them back. A
  thread that finds the closed marker at the head gives back its node itself. The start is the exchange of
  the head for the closed marker, which no append can follow.
\<close>

text \<open>Where the closing thread is: about to store the link to the closed marker, to load the link of the tail (a first or
  a second time), to load the head, to load the link again, holding a node it has taken, done.\<close>

datatype close_pc = XLink addr | XFirst | XSecond | XHead | XReload | XData addr | XDone

text \<open>The ghosts are the nodes given back by the closing thread and by the threads that found the queue closed.\<close>

record queue_closing =
  cl_q :: queue_threads
  cl_pc :: close_pc
  cl_released :: "addr list"
  cl_refused :: "addr list"

definition closing :: "queue_threads \<Rightarrow> queue_closing" where
  "closing s = \<lparr>cl_q = s\<lparr>qt_next := (qt_next s)(ClosedMarker := None), qt_head := ClosedMarker\<rparr>,
     cl_pc = XLink (qt_head s), cl_released = [], cl_refused = []\<rparr>"

abbreviation set_q :: "queue_threads \<Rightarrow> queue_closing \<Rightarrow> queue_closing" where
  "set_q s c \<equiv> c\<lparr>cl_q := s\<rparr>"

definition close_deciding :: "queue_closing \<Rightarrow> bool" where
  "close_deciding c \<longleftrightarrow> cl_pc c = XSecond \<or> cl_pc c = XFirst \<and> \<not> is_marker (qt_tail (cl_q c))"

text \<open>The steps of the closing thread. \<open>dequeue_node\<close> is as in \<open>cons_step\<close>, save that \<open>clear_sleep_marker\<close> and the appending
  of the end marker find the closed marker at the head and do no more than to clear the link of the end
  marker. \<open>Empty\<close> ends the loop, \<open>Inconsistent\<close> starts it again.\<close>

inductive close_step :: "queue_closing \<Rightarrow> queue_closing \<Rightarrow> bool" where
  link: "cl_pc c = XLink p \<Longrightarrow> s = cl_q c \<Longrightarrow>
    close_step c (c\<lparr>cl_q := s\<lparr>qt_next := (qt_next s)(p := Some ClosedMarker)\<rparr>, cl_pc := XFirst\<rparr>)"
| marker_empty: "cl_pc c = XFirst \<Longrightarrow> s = cl_q c \<Longrightarrow> is_marker (qt_tail s) \<Longrightarrow> qt_next s (qt_tail s) = None \<Longrightarrow>
    close_step c (c\<lparr>cl_q := (if qt_tail s = SleepMarker then s\<lparr>qt_next := (qt_next s)(EndMarker := None)\<rparr> else s), cl_pc := XDone\<rparr>)"
| marker_skip: "cl_pc c = XFirst \<Longrightarrow> s = cl_q c \<Longrightarrow> is_marker (qt_tail s) \<Longrightarrow> qt_next s (qt_tail s) = Some m \<Longrightarrow>
    close_step c (c\<lparr>cl_q := s\<lparr>qt_tail := m\<rparr>, cl_pc := XSecond\<rparr>)"
| data: "close_deciding c \<Longrightarrow> s = cl_q c \<Longrightarrow> qt_next s (qt_tail s) = Some m \<Longrightarrow>
    close_step c (c\<lparr>cl_q := s\<lparr>qt_tail := m\<rparr>, cl_pc := XData (qt_tail s)\<rparr>)"
| last: "close_deciding c \<Longrightarrow> s = cl_q c \<Longrightarrow> qt_next s (qt_tail s) = None \<Longrightarrow> close_step c (c\<lparr>cl_pc := XHead\<rparr>)"
| head_moved: "cl_pc c = XHead \<Longrightarrow> s = cl_q c \<Longrightarrow> qt_head s \<noteq> qt_tail s \<Longrightarrow> close_step c (c\<lparr>cl_pc := XFirst\<rparr>)"
| head_same: "cl_pc c = XHead \<Longrightarrow> s = cl_q c \<Longrightarrow> qt_head s = qt_tail s \<Longrightarrow>
    close_step c (c\<lparr>cl_q := s\<lparr>qt_next := (qt_next s)(EndMarker := None)\<rparr>, cl_pc := XReload\<rparr>)"
| reload_data: "cl_pc c = XReload \<Longrightarrow> s = cl_q c \<Longrightarrow> qt_next s (qt_tail s) = Some m \<Longrightarrow>
    close_step c (c\<lparr>cl_q := s\<lparr>qt_tail := m\<rparr>, cl_pc := XData (qt_tail s)\<rparr>)"
| reload_none: "cl_pc c = XReload \<Longrightarrow> s = cl_q c \<Longrightarrow> qt_next s (qt_tail s) = None \<Longrightarrow> close_step c (c\<lparr>cl_pc := XFirst\<rparr>)"
| release: "cl_pc c = XData a \<Longrightarrow> close_step c (c\<lparr>cl_pc := XFirst, cl_released := cl_released c @ [a]\<rparr>)"

text \<open>The other threads: a step of theirs that does not exchange the head, or the refusal.\<close>

inductive late_step :: "queue_closing \<Rightarrow> queue_closing \<Rightarrow> bool" where
  running: "prod_step (cl_q c) s' \<Longrightarrow> qt_enq s' = qt_enq (cl_q c) \<Longrightarrow> late_step c (set_q s' c)"
| refused: "qt_prods (cl_q c) i = PReady a \<Longrightarrow> s = cl_q c \<Longrightarrow> qt_head s = ClosedMarker \<Longrightarrow>
    late_step c (c\<lparr>cl_q := s\<lparr>qt_prods := (qt_prods s)(i := PIdle)\<rparr>, cl_refused := cl_refused c @ [a]\<rparr>)"

inductive cl_reach :: "queue_threads \<Rightarrow> queue_closing \<Rightarrow> bool" for s where
  init: "cl_reach s (closing s)"
| close: "cl_reach s c \<Longrightarrow> close_step c c' \<Longrightarrow> cl_reach s c'"
| late: "cl_reach s c \<Longrightarrow> late_step c c' \<Longrightarrow> cl_reach s c'"

subsection \<open>The invariant\<close>

text \<open>\<open>xs\<close> is the chain from the tail to the closed marker. A link of it is there, or one thread is about to store
  it: the closing thread that to the closed marker, others those of the nodes they were appending when the
  queue was closed.\<close>

definition close_linking :: "queue_closing \<Rightarrow> addr \<Rightarrow> addr \<Rightarrow> bool" where
  "close_linking c p a \<longleftrightarrow> cl_pc c = XLink p \<and> a = ClosedMarker \<or> (\<exists>i. qt_prods (cl_q c) i = PLink p a)"

definition close_chain :: "queue_closing \<Rightarrow> addr list \<Rightarrow> bool" where
  "close_chain c xs \<longleftrightarrow> xs \<noteq> [] \<and> distinct xs \<and> hd xs = qt_tail (cl_q c) \<and> last xs = ClosedMarker \<and>
     qt_next (cl_q c) ClosedMarker = None \<and>
     (\<forall>p a. adj xs p a \<longrightarrow> qt_next (cl_q c) p = Some a \<or> qt_next (cl_q c) p = None \<and> close_linking c p a) \<and>
     (\<forall>x \<in> set (tl xs). is_marker x \<longrightarrow> x = ClosedMarker \<or> x = EndMarker \<and> \<not> is_marker (hd xs))"

definition close_links :: "queue_closing \<Rightarrow> addr list \<Rightarrow> bool" where
  "close_links c xs \<longleftrightarrow>
     (\<forall>p a. close_linking c p a \<longrightarrow> adj xs p a \<and> qt_next (cl_q c) p = None) \<and>
     (\<forall>i j p a b. qt_prods (cl_q c) i = PLink p a \<longrightarrow> qt_prods (cl_q c) j = PLink p b \<longrightarrow> i = j) \<and>
     (\<forall>i p a. cl_pc c = XLink p \<longrightarrow> qt_prods (cl_q c) i \<noteq> PLink p a)"

text \<open>No thread is between the exchange of the head and the store of the link.\<close>

definition no_append :: "queue_threads \<Rightarrow> bool" where
  "no_append s \<longleftrightarrow> (\<forall>i p a. qt_prods s i \<noteq> PLink p a)"

definition close_at :: "bool \<Rightarrow> queue_closing \<Rightarrow> addr list \<Rightarrow> bool" where
  "close_at quiet c xs \<longleftrightarrow>
     (case cl_pc c of
        XSecond \<Rightarrow> is_marker (hd xs) \<longrightarrow> hd xs = ClosedMarker
      | XHead \<Rightarrow> is_marker (hd xs) \<longrightarrow> hd xs = ClosedMarker
      | XReload \<Rightarrow> xs = [ClosedMarker]
      | XDone \<Rightarrow> quiet \<longrightarrow> xs = [ClosedMarker]
      | _ \<Rightarrow> True)"

definition in_hand :: "queue_closing \<Rightarrow> addr list" where
  "in_hand c = (case cl_pc c of XData a \<Rightarrow> [a] | _ \<Rightarrow> [])"

text \<open>\<open>ns\<close> are the nodes that were in the queue when it was closed.\<close>

definition late_ok :: "addr list \<Rightarrow> queue_closing \<Rightarrow> bool" where
  "late_ok ns c \<longleftrightarrow> qt_head (cl_q c) = ClosedMarker \<and>
     (\<forall>i a. qt_prods (cl_q c) i = PReady a \<longrightarrow> a \<in> qt_queued (cl_q c) \<and> a \<notin> set ns \<and> a \<notin> set (cl_refused c)) \<and>
     (\<forall>i j a. qt_prods (cl_q c) i = PReady a \<longrightarrow> qt_prods (cl_q c) j = PReady a \<longrightarrow> i = j) \<and>
     distinct (ns @ cl_refused c) \<and> set (ns @ cl_refused c) \<subseteq> qt_queued (cl_q c)"

text \<open>\<open>quiet\<close> says that no append was half done when the queue was closed.\<close>

definition close_with :: "bool \<Rightarrow> addr list \<Rightarrow> queue_closing \<Rightarrow> addr list \<Rightarrow> bool" where
  "close_with quiet ns c xs \<longleftrightarrow> late_ok ns c \<and> close_chain c xs \<and> close_links c xs \<and> close_at quiet c xs \<and>
     cl_released c @ in_hand c @ queue_nodes xs = ns \<and> (quiet \<longrightarrow> no_append (cl_q c))"

lemma close_withD:
  assumes "close_with quiet ns c xs"
  shows "late_ok ns c" "close_chain c xs" "close_links c xs" "close_at quiet c xs"
    "cl_released c @ in_hand c @ queue_nodes xs = ns" "quiet \<Longrightarrow> no_append (cl_q c)"
  using assms by (auto simp: close_with_def)

lemma closing_inv:
  assumes "qt_inv s xs" "qt_cons s = CIdle"
  shows "close_with (no_append s) (queue_nodes xs) (closing s) (xs @ [ClosedMarker])"
proof -
  have c: "chain s xs" "held_ok s xs" "links_ok s xs" using assms(1) by (simp_all add: qt_inv_def)
  have x: "xs \<noteq> []" "distinct xs" "hd xs = qt_tail s" "last xs = qt_head s" "hd xs \<noteq> ClosedMarker"
    and l: "\<And>p a. adj xs p a \<Longrightarrow> qt_next s p = Some a \<or> qt_next s p = None \<and> (\<exists>i. qt_prods s i = PLink p a)"
    and m: "\<forall>x \<in> set (tl xs). is_marker x \<longrightarrow> x = EndMarker \<and> \<not> is_marker (hd xs)"
    and n: "qt_next s (qt_head s) = None"
    using c(1) assms(2) by (auto simp: chain_def linking_def)
  have closed: "ClosedMarker \<notin> set xs" using m x(1,5) by (cases xs) auto
  have pl: "adj xs p a \<and> qt_next s p = None \<and> p \<noteq> ClosedMarker \<and> p \<noteq> qt_head s" if "qt_prods s i = PLink p a" for i p a
    using c(3) that adj_in adj_last[OF x(2)] closed x(4) unfolding links_ok_def by metis
  have k: "close_linking (closing s) p a \<longleftrightarrow> p = qt_head s \<and> a = ClosedMarker \<or> (\<exists>i. qt_prods s i = PLink p a)" for p a
    by (auto simp: close_linking_def closing_def)
  have nx: "qt_next (cl_q (closing s)) p = (if p = ClosedMarker then None else qt_next s p)" for p
    by (simp add: closing_def)
  have "qt_next (cl_q (closing s)) p = Some a \<or> qt_next (cl_q (closing s)) p = None \<and> close_linking (closing s) p a"
    if "adj (xs @ [ClosedMarker]) p a" for p a
  proof -
    have "adj xs p a \<or> p = qt_head s \<and> a = ClosedMarker" using that x(4) by (auto simp: adj_snoc)
    moreover have "adj xs p a \<Longrightarrow> p \<noteq> ClosedMarker" using adj_in closed by metis
    ultimately show ?thesis using l n unfolding k nx by auto
  qed
  moreover have "\<forall>x \<in> set (tl (xs @ [ClosedMarker])). is_marker x \<longrightarrow> x = ClosedMarker \<or> x = EndMarker \<and> \<not> is_marker (hd xs)"
    using m x(1) by (cases xs) auto
  ultimately have "close_chain (closing s) (xs @ [ClosedMarker])"
    using x closed unfolding close_chain_def by (auto simp: closing_def hd_append)
  moreover have "close_links (closing s) (xs @ [ClosedMarker])"
    using pl n c(3) x(1,4) unfolding close_links_def k nx links_ok_def by (auto simp: adj_snoc closing_def)
  moreover have "close_at (no_append s) (closing s) (xs @ [ClosedMarker])" by (simp add: close_at_def closing_def)
  moreover have "late_ok (queue_nodes xs) (closing s)"
    using c(2) x(2) unfolding late_ok_def held_ok_def closing_def by (auto simp: queue_nodes_def)
  ultimately show ?thesis
    unfolding close_with_def by (simp add: closing_def in_hand_def queue_nodes_snoc no_append_def)
qed

text \<open>A step that leaves the chain, its links and the threads about to store one as they are.\<close>

lemma close_frame:
  assumes "close_chain c xs" "close_links c xs" "qt_tail (cl_q c') = qt_tail (cl_q c)"
    and "\<And>p. p \<in> set xs \<Longrightarrow> qt_next (cl_q c') p = qt_next (cl_q c) p"
    and "\<And>i p a. qt_prods (cl_q c') i = PLink p a \<longleftrightarrow> qt_prods (cl_q c) i = PLink p a"
    and "\<And>p. cl_pc c' = XLink p \<longleftrightarrow> cl_pc c = XLink p"
  shows "close_chain c' xs \<and> close_links c' xs"
proof -
  have k: "close_linking c' = close_linking c" using assms(5,6) by (simp add: close_linking_def fun_eq_iff)
  have n: "qt_next (cl_q c') ClosedMarker = None"
    using assms(1) assms(4)[of ClosedMarker] last_in_set[of xs] unfolding close_chain_def by metis
  have "qt_next (cl_q c') p = Some a \<or> qt_next (cl_q c') p = None \<and> close_linking c' p a" if "adj xs p a" for p a
    using assms(1) assms(4)[of p] adj_in[OF that] that unfolding close_chain_def k by metis
  then have 1: "close_chain c' xs" using assms(1,3) n unfolding close_chain_def by auto
  have "adj xs p a \<and> qt_next (cl_q c') p = None" if "close_linking c' p a" for p a
    using assms(2) assms(4)[of p] that adj_in unfolding close_links_def k by metis
  then have "close_links c' xs" using assms(2,5,6) unfolding close_links_def by simp
  with 1 show ?thesis by blast
qed

lemma close_chain_nodes:
  assumes "close_with quiet ns c xs"
  shows "set xs \<subseteq> {a. is_marker a} \<union> qt_queued (cl_q c)"
  using assms unfolding close_with_def late_ok_def by (auto simp: set_queue_nodes)

text \<open>A thread that was half way through an append stores its link.\<close>

lemma close_links_other:
  assumes "close_chain c xs" "close_links c xs" "close_linking c p a" "qt_tail (cl_q c') = qt_tail (cl_q c)"
    and "qt_next (cl_q c') = (qt_next (cl_q c))(p := Some a)"
    and "\<And>q b. close_linking c' q b \<longleftrightarrow> close_linking c q b \<and> q \<noteq> p"
    and "\<And>i q b. qt_prods (cl_q c') i = PLink q b \<Longrightarrow> qt_prods (cl_q c) i = PLink q b"
    and "\<And>q. cl_pc c' = XLink q \<Longrightarrow> cl_pc c = XLink q"
  shows "close_chain c' xs \<and> close_links c' xs"
proof -
  have d: "distinct xs" "last xs = ClosedMarker" using assms(1) unfolding close_chain_def by blast+
  have pa: "adj xs p a" using assms(2,3) unfolding close_links_def by blast
  then have p: "p \<noteq> ClosedMarker" using adj_last[OF d(1)] d(2) by metis
  have "qt_next (cl_q c') q = Some b \<or> qt_next (cl_q c') q = None \<and> close_linking c' q b" if "adj xs q b" for q b
  proof (cases "q = p")
    case True
    then show ?thesis using adj_fun[OF d(1) pa] that assms(5) by simp
  next
    case False
    then show ?thesis using assms(1,5,6) that unfolding close_chain_def by auto
  qed
  then have 1: "close_chain c' xs" using assms(1,4,5) p unfolding close_chain_def by auto
  have 2: "adj xs q b \<and> qt_next (cl_q c') q = None" if "close_linking c' q b" for q b
    using that assms(2,5,6) unfolding close_links_def by auto
  have "i = j" if "qt_prods (cl_q c') i = PLink q b" "qt_prods (cl_q c') j = PLink q b'" for i j q b b'
    using that[THEN assms(7)] assms(2) unfolding close_links_def by blast
  moreover have "qt_prods (cl_q c') i \<noteq> PLink q b" if "cl_pc c' = XLink q" for i q b
    using assms(8)[OF that] assms(7)[of i q b] assms(2) unfolding close_links_def by blast
  ultimately have "close_links c' xs" using 2 unfolding close_links_def by blast
  with 1 show ?thesis by blast
qed

lemma late_step_inv:
  assumes "late_step c c'" "close_with quiet ns c xs"
  shows "close_with quiet ns c' xs"
proof -
  note x = close_withD[OF assms(2)]
  note q = close_chain_nodes[OF assms(2)]
  note l = x(1)[unfolded late_ok_def]
  have "late_ok ns c' \<and> close_chain c' xs \<and> close_links c' xs \<and> cl_pc c' = cl_pc c \<and> cl_released c' = cl_released c \<and>
      (no_append (cl_q c) \<longrightarrow> no_append (cl_q c'))"
    using assms(1)
  proof cases
    case (running s')
    from running(2) show ?thesis
    proof cases
      case (start i a)
      have a: "a \<notin> set xs" "a \<notin> set ns" "a \<notin> set (cl_refused c)" using start(3,4) q l by auto
      have "late_ok ns c'" using l start a unfolding running(1) late_ok_def by auto
      moreover have "close_chain c' xs \<and> close_links c' xs"
        by (rule close_frame[OF x(2,3)]) (use running(1) start a in \<open>auto split: if_splits\<close>)
      ultimately show ?thesis using running(1) start by (auto simp: no_append_def)
    next
      case (swap i a)
      then show ?thesis using running(3) by simp
    next
      case (link i p a)
      have "late_ok ns c'" using l link unfolding running(1) late_ok_def by auto
      moreover have k: "close_linking c p a" using link(2) by (auto simp: close_linking_def)
      have pr: "qt_prods s' j = PLink u b \<longleftrightarrow> qt_prods (cl_q c) j = PLink u b \<and> j \<noteq> i" for j u b using link by auto
      have only: "qt_prods (cl_q c) j = PLink p b \<Longrightarrow> j = i" "cl_pc c \<noteq> XLink p" for j b
        using x(3) link(2) unfolding close_links_def by blast+
      have "close_linking c' u b \<longleftrightarrow> close_linking c u b \<and> u \<noteq> p" for u b
      proof -
        have "close_linking c' u b \<longleftrightarrow> cl_pc c = XLink u \<and> b = ClosedMarker \<or> (\<exists>j. qt_prods (cl_q c) j = PLink u b \<and> j \<noteq> i)"
          by (simp add: close_linking_def running(1) pr)
        moreover have "j \<noteq> i \<longleftrightarrow> u \<noteq> p" if "qt_prods (cl_q c) j = PLink u b" for j using that only(1)[of j b] link(2) by auto
        ultimately show ?thesis using only(2) unfolding close_linking_def by metis
      qed
      then have "close_chain c' xs \<and> close_links c' xs"
        by (intro close_links_other[OF x(2,3) k]) (use running(1) link in \<open>auto split: if_splits\<close>)
      ultimately show ?thesis using running(1) link by (auto simp: no_append_def)
    next
      case (wake i)
      have "late_ok ns c'" using l wake unfolding running(1) late_ok_def by auto
      moreover have "close_chain c' xs \<and> close_links c' xs"
        by (rule close_frame[OF x(2,3)]) (use running(1) wake in \<open>auto split: if_splits\<close>)
      ultimately show ?thesis using running(1) wake by (auto simp: no_append_def)
    qed
  next
    case (refused i a s)
    have a: "a \<in> qt_queued s" "a \<notin> set ns" "a \<notin> set (cl_refused c)" "\<And>j. qt_prods s j = PReady a \<Longrightarrow> j = i"
      using l refused(2,3) by blast+
    have "late_ok ns c'" using l a refused(3) unfolding refused(1) late_ok_def by auto
    moreover have "close_chain c' xs \<and> close_links c' xs"
      by (rule close_frame[OF x(2,3)]) (use refused in \<open>auto split: if_splits\<close>)
    ultimately show ?thesis using refused by (auto simp: no_append_def)
  qed
  then show ?thesis using x(4-6) unfolding close_with_def close_at_def in_hand_def by simp
qed

lemma close_chain_next:
  assumes "close_chain c xs" "qt_next (cl_q c) (qt_tail (cl_q c)) = Some m"
  obtains ys where "xs = qt_tail (cl_q c) # m # ys"
proof -
  obtain ys where ys: "xs = qt_tail (cl_q c) # ys" using assms(1) unfolding close_chain_def by (metis list.exhaust_sel)
  show thesis
  proof (cases ys)
    case Nil
    then show ?thesis using assms ys unfolding close_chain_def by simp
  next
    case (Cons y zs)
    then have "adj xs (qt_tail (cl_q c)) y" using ys by simp
    then have "y = m" using assms unfolding close_chain_def by (metis option.distinct(1) option.inject)
    then show ?thesis using that ys Cons by simp
  qed
qed

text \<open>Where no append is half done, a missing link at the tail is the end of the chain.\<close>

lemma close_chain_none:
  assumes "close_chain c xs" "qt_next (cl_q c) (qt_tail (cl_q c)) = None" "\<And>p. cl_pc c \<noteq> XLink p" "no_append (cl_q c)"
  shows "xs = [ClosedMarker]"
proof -
  obtain ys where ys: "xs = qt_tail (cl_q c) # ys" using assms(1) unfolding close_chain_def by (metis list.exhaust_sel)
  have "ys = []"
  proof (rule ccontr)
    assume "ys \<noteq> []"
    then have "adj xs (qt_tail (cl_q c)) (hd ys)" using ys by simp
    then show False using assms unfolding close_chain_def close_linking_def no_append_def by (metis option.distinct(1))
  qed
  then show ?thesis using assms(1) ys unfolding close_chain_def by simp
qed

lemma closed_single:
  assumes "close_chain c xs" "hd xs = ClosedMarker"
  shows "xs = [ClosedMarker]"
  using assms unfolding close_chain_def by (metis distinct.simps(2) last.simps last_in_set list.exhaust_sel)

text \<open>The tail moves on.\<close>

lemma close_pop_inv:
  assumes inv: "close_with quiet ns c (t # m # ys)" and n: "qt_next (cl_q c) t = Some m"
    and pc: "\<And>p. cl_pc c \<noteq> XLink p" "in_hand c = []"
    and c': "c' = c\<lparr>cl_q := (cl_q c)\<lparr>qt_tail := m\<rparr>, cl_pc := (if is_marker t then XSecond else XData t)\<rparr>"
  shows "close_with quiet ns c' (m # ys)"
proof -
  note x = close_withD[OF inv]
  have k: "close_linking c' p a = close_linking c p a" for p a using pc by (simp add: close_linking_def c')
  have t: "close_linking c p a \<Longrightarrow> p \<noteq> t" for p a using x(3) n unfolding close_links_def by auto
  have d: "distinct (t # m # ys)" using x(2) unfolding close_chain_def by blast
  have "close_chain c' (m # ys)" using x(2) d last_in_set[of ys] unfolding close_chain_def k by (cases "ys = []") (auto simp: c')
  moreover have "close_links c' (m # ys)"
    using x(3) t pc unfolding close_links_def k by (auto simp: c')
  moreover have "close_at quiet c' (m # ys)" using x(2) unfolding close_at_def c' close_chain_def by auto
  moreover have "cl_released c' @ in_hand c' @ queue_nodes (m # ys) = ns"
    using x(5) pc(2) unfolding c' queue_nodes_cons[of t "m # ys"]
    by (cases "is_marker t") (simp_all add: in_hand_def)
  moreover have "late_ok ns c'" using x(1) unfolding late_ok_def c' by simp
  ultimately show ?thesis using x(6) unfolding close_with_def by (simp add: c' no_append_def)
qed

text \<open>A step that changes where the closing thread is, and at most the link of the end marker where that is out of the
  chain.\<close>

lemma close_move_inv:
  assumes inv: "close_with quiet ns c xs" and at: "close_at quiet c' xs"
    and pc: "\<And>p. cl_pc c \<noteq> XLink p" "\<And>p. cl_pc c' \<noteq> XLink p"
    and q: "cl_q c' = cl_q c \<or> EndMarker \<notin> set xs \<and> cl_q c' = (cl_q c)\<lparr>qt_next := (qt_next (cl_q c))(EndMarker := None)\<rparr>"
    and r: "cl_released c' @ in_hand c' = cl_released c @ in_hand c" "cl_refused c' = cl_refused c"
  shows "close_with quiet ns c' xs"
proof -
  note x = close_withD[OF inv]
  have "close_chain c' xs \<and> close_links c' xs" by (rule close_frame[OF x(2,3)]) (use q pc in auto)
  moreover have "late_ok ns c'" using x(1) q r(2) unfolding late_ok_def by auto
  moreover have "cl_released c' @ in_hand c' @ queue_nodes xs = ns" using x(5) r(1) by (metis append.assoc)
  moreover have "qt_prods (cl_q c') = qt_prods (cl_q c)" using q by auto
  ultimately show ?thesis using at x(6) unfolding close_with_def no_append_def by simp
qed

text \<open>How far the closing thread is from its next look at the tail.\<close>

fun close_rank :: "close_pc \<Rightarrow> nat" where
  "close_rank XDone = 0"
| "close_rank XFirst = 1"
| "close_rank XReload = 2"
| "close_rank (XData a) = 2"
| "close_rank (XLink p) = 2"
| "close_rank XHead = 3"
| "close_rank XSecond = 4"

lemma close_step_inv:
  assumes "close_step c c'" "close_with quiet ns c xs"
  shows "\<exists>xs'. close_with quiet ns c' xs' \<and> (length xs' < length xs \<or>
    xs' = xs \<and> (close_rank (cl_pc c') < close_rank (cl_pc c) \<or> cl_pc c = XFirst \<and> cl_pc c' = XHead))"
proof -
  note x = close_withD[OF assms(2)]
  have h: "hd xs = qt_tail (cl_q c)" using x(2) unfolding close_chain_def by blast
  show ?thesis
    using assms(1)
  proof cases
    case (link p s)
    have k: "close_linking c p ClosedMarker" using link(2) by (simp add: close_linking_def)
    have pr: "close_linking c p a \<Longrightarrow> a = ClosedMarker" "\<And>i a. qt_prods (cl_q c) i \<noteq> PLink p a" for a
      using x(3) link(2) unfolding close_links_def close_linking_def by blast+
    have "close_linking c' u b \<longleftrightarrow> close_linking c u b \<and> u \<noteq> p" for u b
      using link pr unfolding close_linking_def by auto
    then have "close_chain c' xs \<and> close_links c' xs"
      by (intro close_links_other[OF x(2,3) k]) (use link in auto)
    moreover have "late_ok ns c'" using x(1) link unfolding late_ok_def by simp
    ultimately have "close_with quiet ns c' xs"
      using x(4-6) link unfolding close_with_def close_at_def in_hand_def no_append_def by simp
    then show ?thesis using link by (intro exI[of _ xs]) simp
  next
    case (marker_empty s)
    have e: "EndMarker \<notin> set xs" if "qt_tail s = SleepMarker"
      using x(2) h marker_empty(3) that unfolding close_chain_def by (cases xs) auto
    have "xs = [ClosedMarker]" if quiet
      by (rule close_chain_none[OF x(2)]) (use marker_empty x(6) that in simp_all)
    then have "close_with quiet ns c' xs"
      by (intro close_move_inv[OF assms(2)]) (use e marker_empty in \<open>auto simp: close_at_def in_hand_def\<close>)
    then show ?thesis using marker_empty by (intro exI[of _ xs]) simp
  next
    case (marker_skip s m)
    obtain ys where ys: "xs = qt_tail (cl_q c) # m # ys" using close_chain_next[OF x(2)] marker_skip by metis
    show ?thesis
      using close_pop_inv[OF assms(2)[unfolded ys], of c'] marker_skip ys
      by (intro exI[of _ "m # ys"]) (auto simp: in_hand_def)
  next
    case (data s m)
    have pc: "in_hand c = []" "\<And>p. cl_pc c \<noteq> XLink p" using data(2) by (auto simp: in_hand_def close_deciding_def)
    have "qt_next s ClosedMarker = None" using x(2) data(3) unfolding close_chain_def by simp
    then have nm: "\<not> is_marker (qt_tail s)"
      using x(4) h data(2,3,4) by (auto simp: close_at_def close_deciding_def)
    obtain ys where ys: "xs = qt_tail (cl_q c) # m # ys" using close_chain_next[OF x(2)] data by metis
    show ?thesis
      using close_pop_inv[OF assms(2)[unfolded ys], of c'] data nm pc ys
      by (intro exI[of _ "m # ys"]) auto
  next
    case (last s)
    have "is_marker (hd xs) \<longrightarrow> hd xs = ClosedMarker"
      using last(2) x(4) h by (auto simp: close_deciding_def close_at_def)
    then have "close_with quiet ns c' xs"
      by (intro close_move_inv[OF assms(2)]) (use last in \<open>auto simp: close_at_def in_hand_def close_deciding_def\<close>)
    then show ?thesis using last by (intro exI[of _ xs]) (auto simp: close_deciding_def)
  next
    case (head_moved s)
    have "close_with quiet ns c' xs"
      by (rule close_move_inv[OF assms(2)]) (use head_moved in \<open>auto simp: close_at_def in_hand_def\<close>)
    then show ?thesis using head_moved by (intro exI[of _ xs]) simp
  next
    case (head_same s)
    have xs: "xs = [ClosedMarker]" using closed_single[OF x(2)] h head_same x(1) unfolding late_ok_def by simp
    have "close_with quiet ns c' xs"
      by (rule close_move_inv[OF assms(2)]) (use xs head_same in \<open>auto simp: close_at_def in_hand_def\<close>)
    then show ?thesis using head_same by (intro exI[of _ xs]) simp
  next
    case (reload_data s m)
    have "xs = [ClosedMarker]" using x(4) reload_data by (simp add: close_at_def)
    then show ?thesis using h x(2) reload_data unfolding close_chain_def by simp
  next
    case (reload_none s)
    have "close_with quiet ns c' xs"
      by (rule close_move_inv[OF assms(2)]) (use reload_none in \<open>auto simp: close_at_def in_hand_def\<close>)
    then show ?thesis using reload_none by (intro exI[of _ xs]) simp
  next
    case (release a)
    have "close_with quiet ns c' xs"
      by (rule close_move_inv[OF assms(2)]) (use release in \<open>auto simp: close_at_def in_hand_def\<close>)
    then show ?thesis using release by (intro exI[of _ xs]) simp
  qed
qed

lemma cl_reach_inv:
  assumes "cl_reach s c" "qt_inv s xs" "qt_cons s = CIdle"
  shows "\<exists>ys. close_with (no_append s) (queue_nodes xs) c ys"
  using assms by (induction rule: cl_reach.induct) (blast intro: closing_inv late_step_inv dest: close_step_inv)+

subsection \<open>Closing ends\<close>

text \<open>What the closing thread has left to do where no append is half done: nothing that others do adds to it.\<close>

definition close_left :: "addr list \<Rightarrow> queue_closing \<Rightarrow> nat \<Rightarrow> bool" where
  "close_left ns c k \<longleftrightarrow> (\<exists>xs. close_with True ns c xs \<and> k = 8 * length xs + close_rank (cl_pc c))"

lemma close_left_late:
  assumes "late_step c c'" "close_left ns c k"
  shows "close_left ns c' k"
proof -
  obtain xs where xs: "close_with True ns c xs" "k = 8 * length xs + close_rank (cl_pc c)"
    using assms(2) unfolding close_left_def by blast
  moreover have "cl_pc c' = cl_pc c" using assms(1) by cases auto
  ultimately show ?thesis using late_step_inv[OF assms(1) xs(1)] unfolding close_left_def by auto
qed

lemma close_links_tail:
  assumes "close_with True ns c xs" "\<And>p. cl_pc c \<noteq> XLink p"
  shows "hd xs = qt_tail (cl_q c)"
    "qt_next (cl_q c) (qt_tail (cl_q c)) = None \<Longrightarrow> xs = [ClosedMarker]"
  using close_chain_none[OF close_withD(2)[OF assms(1)] _ assms(2)] close_withD(2,6)[OF assms(1)]
  by (auto simp: close_chain_def)

lemma close_left_step:
  assumes "close_step c c'" "close_left ns c k"
  shows "\<exists>k' < k. close_left ns c' k'"
proof -
  obtain xs where xs: "close_with True ns c xs" "k = 8 * length xs + close_rank (cl_pc c)"
    using assms(2) unfolding close_left_def by blast
  obtain xs' where xs': "close_with True ns c' xs'" and d: "length xs' < length xs \<or>
    xs' = xs \<and> (close_rank (cl_pc c') < close_rank (cl_pc c) \<or> cl_pc c = XFirst \<and> cl_pc c' = XHead)"
    using close_step_inv[OF assms(1) xs(1)] by blast
  have "\<not> (cl_pc c = XFirst \<and> cl_pc c' = XHead)"
  proof
    assume pc: "cl_pc c = XFirst \<and> cl_pc c' = XHead"
    from assms(1) have "\<not> is_marker (qt_tail (cl_q c))" "qt_next (cl_q c) (qt_tail (cl_q c)) = None"
      by (cases; use pc in \<open>auto simp: close_deciding_def\<close>)+
    then show False using close_links_tail[OF xs(1)] pc by auto
  qed
  moreover have "close_rank (cl_pc c') < 8" by (cases "cl_pc c'") simp_all
  ultimately have "8 * length xs' + close_rank (cl_pc c') < k" using d xs(2) by auto
  then show ?thesis using xs' unfolding close_left_def by blast
qed

text \<open>The closing thread is never stuck.\<close>

lemma close_step_enabled: "cl_pc c = XDone \<or> (\<exists>c'. close_step c c')"
proof (cases "cl_pc c")
  case XFirst
  show ?thesis
  proof (cases "is_marker (qt_tail (cl_q c))")
    case True
    then show ?thesis using XFirst by (cases "qt_next (cl_q c) (qt_tail (cl_q c))") (auto intro: close_step.intros)
  next
    case False
    then have "close_deciding c" using XFirst by (simp add: close_deciding_def)
    then show ?thesis by (cases "qt_next (cl_q c) (qt_tail (cl_q c))") (auto intro: close_step.intros)
  qed
next
  case XSecond
  then have "close_deciding c" by (simp add: close_deciding_def)
  then show ?thesis by (cases "qt_next (cl_q c) (qt_tail (cl_q c))") (auto intro: close_step.intros)
next
  case XReload
  show ?thesis
    by (cases "qt_next (cl_q c) (qt_tail (cl_q c))") (use XReload in \<open>auto intro: close_step.intros\<close>)
next
  case XHead
  then show ?thesis by (cases "qt_head (cl_q c) = qt_tail (cl_q c)") (auto intro: close_step.intros)
qed (auto intro: close_step.intros)

lemma late_steps_left: "late_step\<^sup>*\<^sup>* c c' \<Longrightarrow> close_left ns c k \<Longrightarrow> close_left ns c' k"
  by (induction rule: rtranclp_induct) (blast intro: close_left_late)+

text \<open>A step of the closing thread, with any number of steps of the other threads before and after it.\<close>

definition close_turn :: "queue_closing \<Rightarrow> queue_closing \<Rightarrow> bool" where
  "close_turn = late_step\<^sup>*\<^sup>* OO close_step OO late_step\<^sup>*\<^sup>*"

lemma close_turn_left: "close_turn c c' \<Longrightarrow> close_left ns c k \<Longrightarrow> \<exists>k' < k. close_left ns c' k'"
  unfolding close_turn_def by (blast dest: late_steps_left close_left_step)

lemma close_done_stays:
  assumes "cl_pc c = XDone"
  shows "\<not> close_turn c c'"
proof
  assume "close_turn c c'"
  then obtain c1 c2 where "late_step\<^sup>*\<^sup>* c c1" "close_step c1 c2" unfolding close_turn_def by blast
  moreover have "late_step\<^sup>*\<^sup>* c c1 \<Longrightarrow> cl_pc c1 = XDone" for c1
    by (induction rule: rtranclp_induct) (use assms in \<open>auto elim: late_step.cases\<close>)
  ultimately show False by (auto simp: close_deciding_def elim: close_step.cases)
qed

lemma close_turns_left:
  "(close_turn ^^ m) c c' \<Longrightarrow> close_left ns c k \<Longrightarrow> \<exists>k'. m + k' \<le> k \<and> close_left ns c' k'"
proof (induction m arbitrary: c' )
  case (Suc m)
  then obtain c1 where c1: "(close_turn ^^ m) c c1" "close_turn c1 c'" by auto
  obtain k1 where "m + k1 \<le> k" "close_left ns c1 k1" using Suc.IH[OF c1(1) Suc.prems(2)] by blast
  then obtain k2 where "k2 < k1" "close_left ns c' k2" using close_turn_left[OF c1(2)] by blast
  then show ?case using \<open>m + k1 \<le> k\<close> by (intro exI[of _ k2]) simp
qed auto

lemma close_left_done: "close_left ns c k \<Longrightarrow> \<exists>c'. close_step\<^sup>*\<^sup>* c c' \<and> cl_pc c' = XDone"
proof (induction k arbitrary: c rule: less_induct)
  case (less k)
  show ?case
  proof (cases "cl_pc c = XDone")
    case False
    then obtain c1 where c1: "close_step c c1" using close_step_enabled by blast
    then obtain k1 where "k1 < k" "close_left ns c1 k1" using close_left_step less.prems by blast
    then show ?thesis using less.IH c1 by (blast intro: converse_rtranclp_into_rtranclp)
  qed blast
qed

subsection \<open>Properties\<close>

lemma idle_close_with:
  assumes "qt_reach s" "qt_cons s = CIdle" "cl_reach s c"
  obtains ns ys where "close_with (no_append s) ns c ys" "qt_enq s = qt_out s @ ns"
proof -
  obtain xs where xs: "qt_inv s xs" using qt_reach_inv[OF assms(1)] by blast
  moreover have "qt_enq s = qt_out s @ queue_nodes xs" using xs by (simp add: qt_inv_def)
  ultimately show thesis using that cl_reach_inv[OF assms(3) xs assms(2)] by blast
qed

text \<open>C29. Closing the readiness queue gives back no node twice, and every node if no append was half done. However the
  closing and the other threads interleave, also those that were between the exchange of the head and the
  store of the link when the queue was closed: the nodes given back by the closing thread and by the threads that find the queue
  closed are all different and marked as queued, no link is overwritten, and the closing thread gives back
  nodes of the queue in their order, after those that the poller took. If no thread was between the
  exchange and the store when the queue was closed, then once the closing thread is done it has given back
  all of them. (What happens otherwise is the property C40.)\<close>

theorem closing_gives_back:
  assumes "qt_reach s" "qt_cons s = CIdle" "cl_reach s c"
  shows "distinct (cl_released c @ cl_refused c) \<and> set (cl_released c @ cl_refused c) \<subseteq> qt_queued (cl_q c) \<and>
    (\<forall>p. cl_pc c = XLink p \<longrightarrow> qt_next (cl_q c) p = None) \<and>
    (\<forall>i p a. qt_prods (cl_q c) i = PLink p a \<longrightarrow> qt_next (cl_q c) p = None) \<and>
    (\<forall>a. cl_pc c = XData a \<longrightarrow> a \<in> qt_queued (cl_q c)) \<and>
    (\<exists>rest. qt_enq s = qt_out s @ cl_released c @ rest \<and>
       (cl_pc c = XDone \<and> (\<forall>i p a. qt_prods s i \<noteq> PLink p a) \<longrightarrow> rest = []))"
proof -
  obtain ns xs where inv: "close_with (no_append s) ns c xs" and enq: "qt_enq s = qt_out s @ ns"
    using idle_close_with[OF assms] .
  note x = close_withD[OF inv]
  have l: "distinct (ns @ cl_refused c)" "set (ns @ cl_refused c) \<subseteq> qt_queued (cl_q c)"
    using x(1) unfolding late_ok_def by blast+
  have "qt_next (cl_q c) p = None" if "cl_pc c = XLink p" for p
    using x(3) that unfolding close_links_def close_linking_def by blast
  moreover have "qt_next (cl_q c) p = None" if "qt_prods (cl_q c) i = PLink p a" for i p a
    using x(3) that unfolding close_links_def close_linking_def by blast
  moreover have "a \<in> qt_queued (cl_q c)" if "cl_pc c = XData a" for a using l(2) x(5) that by (auto simp: in_hand_def)
  moreover have "in_hand c @ queue_nodes xs = []" if "cl_pc c = XDone" "\<forall>i p a. qt_prods s i \<noteq> PLink p a"
    using x(4) that by (simp add: close_at_def in_hand_def queue_nodes_def no_append_def)
  moreover have "distinct (cl_released c @ cl_refused c)" "set (cl_released c @ cl_refused c) \<subseteq> qt_queued (cl_q c)"
    using l x(5) by auto
  moreover have "qt_enq s = qt_out s @ cl_released c @ (in_hand c @ queue_nodes xs)" using enq x(5) by simp
  ultimately show ?thesis by blast
qed

text \<open>C30. The closing ends, once no append is half done. From every state of such an interleaving in which no thread is
  between the exchange of the head and the store of the link (no thread gets there any more, since the
  queue is closed), there is a bound on the steps the closing thread can make in whatever interleaving
  with steps of the others, and as long as it has not reached its end it can make a step.\<close>

theorem closing_ends:
  assumes "qt_reach s" "qt_cons s = CIdle" "cl_reach s c" "\<And>i p a. qt_prods (cl_q c) i \<noteq> PLink p a"
  shows "\<exists>n. \<forall>m c'. (close_turn ^^ m) c c' \<longrightarrow> m \<le> n \<and> (cl_pc c' = XDone \<or> (\<exists>c''. close_step c' c''))"
proof -
  obtain ns xs where inv: "close_with (no_append s) ns c xs" using idle_close_with[OF assms(1-3)] .
  show ?thesis
  proof (cases "cl_pc c = XDone")
    case True
    have "m = 0" if "(close_turn ^^ m) c c'" for m c'
      using that close_done_stays[OF True] by (cases m) (auto dest: relpowp_Suc_D2 simp del: relpowp.simps(2))
    then have "m = 0 \<and> c' = c" if "(close_turn ^^ m) c c'" for m c' using that by fastforce
    then show ?thesis using True by (metis le_zero_eq)
  next
    case False
    then have "close_with True ns c xs"
      using close_withD[OF inv] assms(4) by (simp add: close_with_def close_at_def no_append_def split: close_pc.splits)
    then have "close_left ns c (8 * length xs + close_rank (cl_pc c))" unfolding close_left_def by blast
    from close_turns_left[OF _ this] show ?thesis using close_step_enabled by (meson add_leD1)
  qed
qed

text \<open>A node that a thread has marked as queued and is not about to append stays as it is: nobody gives it back.\<close>

definition forgotten :: "addr \<Rightarrow> queue_closing \<Rightarrow> bool" where
  "forgotten a c \<longleftrightarrow> cl_pc c = XDone \<and> a \<in> qt_queued (cl_q c) \<and> (\<forall>i. qt_prods (cl_q c) i \<noteq> PReady a) \<and>
     a \<notin> set (cl_released c) \<and> a \<notin> set (cl_refused c)"

lemma forgotten_stays:
  assumes "forgotten a c" "close_step c c' \<or> late_step c c'"
  shows "forgotten a c'"
proof -
  have "\<not> close_step c c'" using assms(1) by (auto simp: forgotten_def close_deciding_def elim: close_step.cases)
  then have "late_step c c'" using assms(2) by blast
  then show ?thesis
  proof cases
    case (running s')
    from running(2) show ?thesis by cases (use assms(1) running(1) in \<open>auto simp: forgotten_def\<close>)
  next
    case (refused i b s)
    then show ?thesis using assms(1) by (auto simp: forgotten_def)
  qed
qed

lemma forgotten_for_ever: "(\<lambda>c c'. close_step c c' \<or> late_step c c')\<^sup>*\<^sup>* c c' \<Longrightarrow> forgotten a c \<Longrightarrow> forgotten a c'"
  by (induction rule: rtranclp_induct) (blast intro: forgotten_stays)+

text \<open>One thread has exchanged the head for its node and has not stored the link when the queue is closed.\<close>

definition mid_append :: queue_threads where
  "mid_append = qt_init\<lparr>qt_queued := {Node 0}, qt_prods := (qt_prods qt_init)(0 := PLink EndMarker (Node 0)), qt_head := Node 0,
     qt_enq := [Node 0]\<rparr>"

lemma mid_append_reach: "qt_reach mid_append"
proof -
  let ?a = "qt_init\<lparr>qt_queued := insert (Node 0) (qt_queued qt_init), qt_next := (qt_next qt_init)(Node 0 := None),
    qt_prods := (qt_prods qt_init)(0 := PReady (Node 0))\<rparr>"
  let ?b = "?a\<lparr>qt_prods := (qt_prods ?a)(0 := PLink (qt_head ?a) (Node 0)), qt_head := Node 0, qt_enq := qt_enq ?a @ [Node 0]\<rparr>"
  have "prod_step qt_init ?a" by (rule prod_step.start) (simp_all add: qt_init_def is_marker_def)
  moreover have "prod_step ?a ?b" by (rule prod_step.swap) simp
  moreover have "?b = mid_append" by (simp add: mid_append_def qt_init_def fun_eq_iff)
  ultimately show ?thesis using qt_reach.prod[OF qt_reach.prod[OF qt_reach.init]] by metis
qed

text \<open>C40. A queue that is closed while a thread is between its exchange and its store forgets the node: the closing thread
  finds no link at the end marker, takes that for the end of the queue and stops, and whatever
  happens afterwards the node is never given back.\<close>

theorem closing_race_leaks:
  "\<exists>s c. qt_reach s \<and> qt_cons s = CIdle \<and> cl_reach s c \<and> cl_pc c = XDone \<and> qt_enq s = [Node 0] \<and> qt_out s = [] \<and>
     (\<nexists>c'. (\<lambda>c c'. close_step c c' \<or> late_step c c')\<^sup>*\<^sup>* c c' \<and> Node 0 \<in> set (cl_released c' @ cl_refused c'))"
proof -
  let ?c = "closing mid_append"
  let ?c1 = "?c\<lparr>cl_q := (cl_q ?c)\<lparr>qt_next := (qt_next (cl_q ?c))(Node 0 := Some ClosedMarker)\<rparr>, cl_pc := XFirst\<rparr>"
  let ?c2 = "?c1\<lparr>cl_pc := XDone\<rparr>"
  have "close_step ?c ?c1" by (rule close_step.link) (simp_all add: closing_def mid_append_def)
  moreover have "close_step ?c1 ?c2"
    using close_step.marker_empty[of ?c1 "cl_q ?c1"] by (simp add: closing_def mid_append_def qt_init_def)
  ultimately have r: "cl_reach mid_append ?c2" by (blast intro: cl_reach.intros)
  have "forgotten (Node 0) ?c2" by (auto simp: forgotten_def closing_def mid_append_def qt_init_def)
  note f = forgotten_for_ever[OF _ this]
  have "\<nexists>c'. (\<lambda>c c'. close_step c c' \<or> late_step c c')\<^sup>*\<^sup>* ?c2 c' \<and> Node 0 \<in> set (cl_released c' @ cl_refused c')"
    using f unfolding forgotten_def by auto
  moreover have "qt_cons mid_append = CIdle" "qt_enq mid_append = [Node 0]" "qt_out mid_append = []" "cl_pc ?c2 = XDone"
    by (simp_all add: mid_append_def qt_init_def)
  ultimately show ?thesis using mid_append_reach r by (intro exI[of _ mid_append] exI[of _ ?c2]) blast
qed

text \<open>One node in the queue, its link stored.\<close>

definition one_appended :: queue_threads where
  "one_appended = mid_append\<lparr>qt_next := (qt_next mid_append)(EndMarker := Some (Node 0)), qt_prods := (\<lambda>_. PIdle)\<rparr>"

lemma one_appended_reach: "qt_reach one_appended"
proof -
  have "prod_step mid_append (mid_append\<lparr>qt_next := (qt_next mid_append)(EndMarker := Some (Node 0)),
      qt_prods := (qt_prods mid_append)(0 := if EndMarker = SleepMarker then PWake else PIdle)\<rparr>)"
    by (rule prod_step.link) (simp add: mid_append_def)
  moreover have "(qt_prods mid_append)(0 := if EndMarker = SleepMarker then PWake else PIdle) = (\<lambda>_. PIdle)"
    by (simp add: mid_append_def qt_init_def fun_eq_iff)
  ultimately show ?thesis using qt_reach.prod[OF mid_append_reach] unfolding one_appended_def by metis
qed

lemma one_appended_quiet: "qt_cons one_appended = CIdle" "qt_prods one_appended i \<noteq> PLink p a"
  by (simp_all add: one_appended_def mid_append_def qt_init_def)

text \<open>From the closing of \<open>mid_append\<close> after the thread has stored its link.\<close>

definition late_linked :: queue_closing where
  "late_linked = set_q ((cl_q (closing mid_append))\<lparr>qt_next := (qt_next (cl_q (closing mid_append)))(EndMarker := Some (Node 0)),
     qt_prods := (qt_prods (cl_q (closing mid_append)))(0 := PIdle)\<rparr>) (closing mid_append)"

lemma late_linked_reach: "cl_reach mid_append late_linked"
proof -
  let ?c = "closing mid_append"
  have "prod_step (cl_q ?c) ((cl_q ?c)\<lparr>qt_next := (qt_next (cl_q ?c))(EndMarker := Some (Node 0)),
      qt_prods := (qt_prods (cl_q ?c))(0 := if EndMarker = SleepMarker then PWake else PIdle)\<rparr>)"
    by (rule prod_step.link) (simp add: closing_def mid_append_def)
  then have "late_step ?c late_linked" unfolding late_linked_def by (intro late_step.running) simp_all
  then show ?thesis by (rule cl_reach.late[OF cl_reach.init])
qed

theorem closing_ends_witness:
  "\<exists>n. (\<nexists>c'. (close_turn ^^ Suc n) late_linked c') \<and> (\<exists>c''. close_step late_linked c'')"
proof -
  have q: "\<And>i p a. qt_prods (cl_q late_linked) i \<noteq> PLink p a" "qt_cons mid_append = CIdle" "cl_pc late_linked \<noteq> XDone"
    by (simp_all add: late_linked_def mid_append_def closing_def qt_init_def)
  obtain n where n: "\<And>m c'. (close_turn ^^ m) late_linked c' \<Longrightarrow> m \<le> n \<and> (cl_pc c' = XDone \<or> (\<exists>c''. close_step c' c''))"
    using closing_ends[OF mid_append_reach q(2) late_linked_reach q(1)] by blast
  have "\<nexists>c'. (close_turn ^^ Suc n) late_linked c'" using n[of "Suc n"] not_less_eq_eq by blast
  moreover have "(close_turn ^^ 0) late_linked late_linked" by simp
  then have "\<exists>c''. close_step late_linked c''" using n q(3) by blast
  ultimately show ?thesis by blast
qed

lemma cl_reach_run: "close_step\<^sup>*\<^sup>* c c' \<Longrightarrow> cl_reach s c \<Longrightarrow> cl_reach s c'"
  by (induction rule: rtranclp_induct) (blast intro: cl_reach.close)+

theorem closing_gives_back_witness: "\<exists>c. cl_reach one_appended c \<and> cl_pc c = XDone \<and> cl_released c = [Node 0]"
proof -
  obtain xs where "qt_inv one_appended xs" using qt_reach_inv[OF one_appended_reach] by blast
  from closing_inv[OF this one_appended_quiet(1)] have "\<exists>ns ys. close_with True ns (closing one_appended) ys"
    using one_appended_quiet(2) by (auto simp: no_append_def)
  then obtain ns k where "close_left ns (closing one_appended) k" by (auto simp: close_left_def)
  then obtain c where c: "close_step\<^sup>*\<^sup>* (closing one_appended) c" "cl_pc c = XDone" using close_left_done by blast
  have r: "cl_reach one_appended c" by (rule cl_reach_run[OF c(1) cl_reach.init])
  have "qt_enq one_appended = [Node 0]" "qt_out one_appended = []" by (simp_all add: one_appended_def mid_append_def qt_init_def)
  then show ?thesis
    using closing_gives_back[OF one_appended_reach one_appended_quiet(1) r] c(2) r one_appended_quiet(2) by auto
qed

end
