(* ===== verification/Registration.thy ===== *)
theory Registration
  imports ReadinessQueue
begin

unbundle bit_operations_syntax

section \<open>Registrations\<close>

text \<open>
  \<open>RegistrationInner\<close>, \<open>Registration\<close> and \<open>SetReadiness\<close> of \<open>src/poll.rs\<close>: handles on a node of the
  readiness queue. A handle is the address of its node; every operation takes the queue
  with its heap and returns it. The invariant \<open>reg_inv\<close> ties the packed state, the reference
  counts and the queue together: a queued node is in the queue, and a node stays allocated
  exactly as long as a handle or the queue holds it.
\<close>

definition MAX_REFCOUNT :: usize where "MAX_REFCOUNT = 0x7fffffffffffffff"

definition reg_readiness :: "('j, 'p) rqueue \<Rightarrow> addr \<Rightarrow> ready option" where
  "reg_readiness q a = map_option (\<lambda>n. rs_readiness (nd_state n)) (rq_heap q a)"

definition reg_set_readiness ::
    "'p pipe_ops \<Rightarrow> ('j, 'p) rqueue \<Rightarrow> addr \<Rightarrow> ready \<Rightarrow> (unit io_result \<times> ('j, 'p) rqueue) option" where
  "reg_set_readiness P q a ready =
     do { n \<leftarrow> rq_heap q a;
          let state = nd_state n;
          if rs_is_dropped state then Some (Inr (), q)
          else do { let nxt = rs_set_readiness state ready;
                    nxt \<leftarrow> (if \<not> ready_is_empty (rs_effective_readiness nxt)
                            then rs_set_queued nxt else Some nxt);
                    q \<leftarrow> node_modify q a (\<lambda>n. n\<lparr>nd_state := nxt\<rparr>);
                    if \<not> rs_is_queued state \<and> rs_is_queued nxt
                    then node_enqueue_with_wakeup P q a
                    else Some (Inr (), q) } }"

definition store_token :: "('j, 'p) rqueue \<Rightarrow> addr \<Rightarrow> usize \<Rightarrow> token_entry \<Rightarrow> ('j, 'p) rqueue option" where
  "store_token q a pos tok =
     (if pos = 0 then node_modify q a (\<lambda>n. n\<lparr>nd_token_0 := tok\<rparr>)
      else if pos = 1 then node_modify q a (\<lambda>n. n\<lparr>nd_token_1 := tok\<rparr>)
      else if pos = 2 then node_modify q a (\<lambda>n. n\<lparr>nd_token_2 := tok\<rparr>)
      else None)"

text \<open>\<open>update\<close> once the node is associated with this queue.\<close>

definition reg_update_node ::
    "'p pipe_ops \<Rightarrow> ('j, 'p) rqueue \<Rightarrow> addr \<Rightarrow> token_entry \<Rightarrow> ready \<Rightarrow> poll_opt \<Rightarrow> 'j job
       \<Rightarrow> (unit io_result \<times> ('j, 'p) rqueue) option" where
  "reg_update_node P q a tok interest opt job =
     do { n \<leftarrow> rq_heap q a;
          if nd_update_lock n then Some (Inr (), q)
          else do {
            q \<leftarrow> node_modify q a (\<lambda>n. n\<lparr>nd_update_lock := True\<rparr>);
            let state = nd_state n;
            let curr_token_pos = rs_token_write_pos state;
            curr_token \<leftarrow> node_token n curr_token_pos;
            (next_token_pos, q) \<leftarrow>
              (if tok \<noteq> curr_token
               then do { p \<leftarrow> rs_next_token_pos state; q \<leftarrow> store_token q a p tok; Some (p, q) }
               else Some (curr_token_pos, q));
            if rs_is_dropped state then None
            else do {
              let nxt = rs_set_token_write_pos state next_token_pos;
              let nxt = rs_set_interest nxt interest;
              let nxt = rs_set_poll_opt nxt opt;
              nxt \<leftarrow> (if \<not> ready_is_empty (rs_effective_readiness nxt)
                      then rs_set_queued nxt else Some nxt);
              q \<leftarrow> node_modify q a (\<lambda>n. n\<lparr>nd_state := nxt\<rparr>);
              q \<leftarrow> node_modify q a (\<lambda>n. n\<lparr>nd_update_lock := False\<rparr>);
              if \<not> rs_is_queued state \<and> rs_is_queued nxt
              then do { q \<leftarrow> node_modify q a (\<lambda>n. n\<lparr>nd_job := job\<rparr>);
                        enqueue_node_with_wakeup P q a }
              else Some (Inr (), q) } } }"

definition other_poll_error :: io_error where
  "other_poll_error = OtherError ''Registration handle associated with another Poll instance''"

definition reg_update ::
    "'p pipe_ops \<Rightarrow> ('j, 'p) rqueue \<Rightarrow> addr \<Rightarrow> token_entry \<Rightarrow> ready \<Rightarrow> poll_opt \<Rightarrow> 'j job
       \<Rightarrow> (unit io_result \<times> ('j, 'p) rqueue) option" where
  "reg_update P q a tok interest opt job =
     do { n \<leftarrow> rq_heap q a;
          case nd_queue n of
            None \<Rightarrow>
              do { q \<leftarrow> node_modify q a (\<lambda>n. n\<lparr>nd_queue := Some (rq_id q),
                                               nd_ref_count := nd_ref_count n + 1\<rparr>);
                   let q = q\<lparr>rq_strong := rq_strong q + 1\<rparr>;
                   reg_update_node P q a tok interest opt job }
          | Some i \<Rightarrow>
              if i \<noteq> rq_id q then Some (Inl other_poll_error, q)
              else reg_update_node P q a tok interest opt job }"

definition reg_clone :: "('j, 'p) rqueue \<Rightarrow> addr \<Rightarrow> ('j, 'p) rqueue option" where
  "reg_clone q a =
     do { n \<leftarrow> rq_heap q a;
          let old_size = nd_ref_count n;
          q \<leftarrow> node_modify q a (\<lambda>n. n\<lparr>nd_ref_count := nd_ref_count n + 1\<rparr>);
          if old_size AND NOT MAX_REFCOUNT \<noteq> 0 then None else Some q }"

text \<open>
  \<open>Registration::new2\<close> and \<open>Registration::new\<close>: the node and its two handles. \<open>k\<close> is the
  address the allocator returns, which is not in use.
\<close>

definition registration_new2 :: "('j, 'p) rqueue \<Rightarrow> nat \<Rightarrow> (addr \<times> ('j, 'p) rqueue) option" where
  "registration_new2 q k =
     (if rq_heap q (Node k) \<noteq> None then None
      else do { n \<leftarrow> node_new None null_token ready_empty opt_empty 2;
                Some (Node k, q\<lparr>rq_heap := (rq_heap q)(Node k \<mapsto> n)\<rparr>) })"

definition registration_new ::
    "('j, 'p) rqueue \<Rightarrow> nat \<Rightarrow> token_entry \<Rightarrow> ready \<Rightarrow> poll_opt \<Rightarrow> (addr \<times> ('j, 'p) rqueue) option" where
  "registration_new q k tok interest opt =
     (if rq_heap q (Node k) \<noteq> None then None
      else do { n \<leftarrow> node_new (Some (rq_id q)) tok interest opt 3;
                Some (Node k, q\<lparr>rq_heap := (rq_heap q)(Node k \<mapsto> n), rq_strong := rq_strong q + 1\<rparr>) })"

definition registration_deregister ::
    "'p pipe_ops \<Rightarrow> ('j, 'p) rqueue \<Rightarrow> addr \<Rightarrow> (unit io_result \<times> ('j, 'p) rqueue) option" where
  "registration_deregister P q a = reg_update P q a null_token ready_empty opt_empty Noop"

definition registration_reregister ::
    "'p pipe_ops \<Rightarrow> ('j, 'p) rqueue \<Rightarrow> addr \<Rightarrow> token_entry \<Rightarrow> ready \<Rightarrow> poll_opt
       \<Rightarrow> (unit io_result \<times> ('j, 'p) rqueue) option" where
  "registration_reregister P q a tok interest opts = reg_update P q a tok interest opts Noop"

definition flag_as_dropped :: "readiness_state \<Rightarrow> (bool \<times> readiness_state) option" where
  "flag_as_dropped prev =
     (if rs_is_dropped prev then None
      else Some (\<not> rs_is_queued prev,
                 ReadinessState (rs_val prev OR (DROPPED_MASK OR QUEUED_MASK))))"

text \<open>Dropping a \<open>Registration\<close> runs its own \<open>drop\<close>, then that of the handle inside; a
  \<open>SetReadiness\<close> has only the latter.\<close>

definition registration_drop ::
    "'p pipe_ops \<Rightarrow> ('j, 'p) rqueue \<Rightarrow> addr \<Rightarrow> ('j, 'p) rqueue option" where
  "registration_drop P q a =
     do { n \<leftarrow> rq_heap q a;
          (enq, st) \<leftarrow> flag_as_dropped (nd_state n);
          q \<leftarrow> node_modify q a (\<lambda>n. n\<lparr>nd_state := st\<rparr>);
          q \<leftarrow> (if enq then map_option snd (node_enqueue_with_wakeup P q a) else Some q);
          release_node q a }"

definition set_readiness_drop :: "('j, 'p) rqueue \<Rightarrow> addr \<Rightarrow> ('j, 'p) rqueue option" where
  "set_readiness_drop q a = release_node q a"

subsection \<open>The invariant\<close>

text \<open>
  What holds of a node between operations. \<open>inq\<close> says whether the queue holds it, \<open>h\<close> counts
  the handles on it. An associated node is also held by the queue, until the queue has
  taken it out after it was dropped.
\<close>

definition node_core :: "nat \<Rightarrow> bool \<Rightarrow> 'j rnode \<Rightarrow> bool" where
  "node_core qid inq n \<longleftrightarrow>
     (let v = rs_view (nd_state n) in
      \<not> nd_update_lock n \<and> v_read_pos v \<le> 2 \<and> v_write_pos v \<le> 2 \<and>
      (nd_queue n = None \<or> nd_queue n = Some qid) \<and>
      (nd_queue n = None \<longrightarrow> v_interest v = ready_empty) \<and>
      (inq \<longrightarrow> v_queued v \<and> nd_queue n = Some qid) \<and>
      (v_queued v \<and> \<not> v_dropped v \<longrightarrow> inq) \<and>
      (nd_queue n \<noteq> None \<and> \<not> v_dropped v \<and> \<not> opt_is_edge (v_opt v) \<and>
         \<not> ready_is_empty (ready_bitand (v_readiness v) (v_interest v)) \<longrightarrow> inq))"

definition node_ok :: "nat \<Rightarrow> bool \<Rightarrow> nat \<Rightarrow> 'j rnode \<Rightarrow> bool" where
  "node_ok qid inq h n \<longleftrightarrow> node_core qid inq n \<and> 0 < unat (nd_ref_count n) \<and>
     unat (nd_ref_count n) =
       h + (if nd_queue n = None \<or> v_dropped (rs_view (nd_state n)) \<and> \<not> inq then 0 else 1)"

definition nodes_ok :: "('j, 'p) rqueue \<Rightarrow> addr set \<Rightarrow> (nat \<Rightarrow> nat) \<Rightarrow> bool" where
  "nodes_ok q S H \<longleftrightarrow> (\<forall>k. H k \<le> 2 ^ 63) \<and> (\<forall>k. 0 < H k \<longrightarrow> rq_heap q (Node k) \<noteq> None) \<and>
     (\<forall>k n. rq_heap q (Node k) = Some n \<longrightarrow> node_ok (rq_id q) (Node k \<in> S) (H k) n)"

definition reg_inv :: "('j, 'p) rqueue \<Rightarrow> addr list \<Rightarrow> (nat \<Rightarrow> nat) \<Rightarrow> bool" where
  "reg_inv q cs H \<longleftrightarrow> rq_repr q cs \<and> nodes_ok q (set cs) H"

lemma node_core_upd [simp]: "node_core i b (n\<lparr>nd_next := x\<rparr>) = node_core i b n"
  "node_core i b (n\<lparr>nd_ref_count := c\<rparr>) = node_core i b n"
  "node_core i b (n\<lparr>nd_job := j\<rparr>) = node_core i b n"
  by (simp_all add: node_core_def)

lemma node_ok_next [simp]: "node_ok i b h (n\<lparr>nd_next := x\<rparr>) = node_ok i b h n"
  "node_ok i b h (n\<lparr>nd_job := j\<rparr>) = node_ok i b h n"
  by (simp_all add: node_ok_def)

lemma is_marker_Node [simp]: "\<not> is_marker (Node k)"
  by (simp add: is_marker_def)

lemma nodes_okD:
  assumes "nodes_ok q S H"
  shows "H k \<le> 2 ^ 63" "0 < H k \<Longrightarrow> \<exists>n. rq_heap q (Node k) = Some n"
    "rq_heap q (Node k) = Some n \<Longrightarrow> node_ok (rq_id q) (Node k \<in> S) (H k) n"
    "rq_heap q (Node k) = None \<Longrightarrow> H k = 0"
  using assms by (auto simp: nodes_ok_def)

lemma nodes_ok_pipe [simp]: "nodes_ok (q\<lparr>rq_pipe := p\<rparr>) S H = nodes_ok q S H"
  "nodes_ok (q\<lparr>rq_strong := s\<rparr>) S H = nodes_ok q S H"
  by (simp_all add: nodes_ok_def)

lemma rq_repr_pipe [simp]: "rq_repr (q\<lparr>rq_pipe := p\<rparr>) cs = rq_repr q cs"
  "rq_repr (q\<lparr>rq_strong := s\<rparr>) cs = rq_repr q cs"
  by (simp_all add: rq_repr_def queue_inv_def)

lemma nodes_ok_same:
  assumes "nodes_ok q S H" "same_nodes q q'"
  shows "nodes_ok q' S H"
proof -
  have "node_ok (rq_id q') (Node k \<in> S) (H k) n'" if n': "rq_heap q' (Node k) = Some n'" for k n'
  proof -
    obtain n where n: "rq_heap q (Node k) = Some n" "n' = n\<lparr>nd_next := nd_next n'\<rparr>"
      using same_nodes_Some[OF assms(2) n'] .
    then have "node_ok (rq_id q) (Node k \<in> S) (H k) n" using nodes_okD(3)[OF assms(1)] by simp
    moreover have "rq_id q' = rq_id q" using assms(2) by (simp add: same_nodes_def)
    ultimately show ?thesis using n(2) node_ok_next(1) by metis
  qed
  then show ?thesis
    using assms(1) same_nodes_None[OF assms(2)] by (auto simp: nodes_ok_def simp del: not_None_eq)
qed

text \<open>Writing one node, with its handles and its membership.\<close>

lemma nodes_ok_write:
  assumes "nodes_ok q S H" "\<And>j. j \<noteq> k \<Longrightarrow> Node j \<in> S' \<longleftrightarrow> Node j \<in> S" "h \<le> 2 ^ 63"
    "node_ok (rq_id q) (Node k \<in> S') h n'"
  shows "nodes_ok (q\<lparr>rq_heap := (rq_heap q)(Node k \<mapsto> n')\<rparr>) S' (H(k := h))"
  using assms by (auto simp: nodes_ok_def)

lemma nodes_ok_update:
  assumes "nodes_ok q S H" "\<And>j. j \<noteq> k \<Longrightarrow> Node j \<in> S' \<longleftrightarrow> Node j \<in> S"
    "node_ok (rq_id q) (Node k \<in> S') (H k) n'"
  shows "nodes_ok (q\<lparr>rq_heap := (rq_heap q)(Node k \<mapsto> n')\<rparr>) S' H"
  using nodes_ok_write[OF assms(1,2) nodes_okD(1)[OF assms(1)] assms(3)] by simp

lemma nodes_ok_free:
  assumes "nodes_ok q S H" "\<And>j. j \<noteq> k \<Longrightarrow> Node j \<in> S' \<longleftrightarrow> Node j \<in> S"
  shows "nodes_ok (q\<lparr>rq_heap := (rq_heap q)(Node k := None)\<rparr>) S' (H(k := 0))"
  using assms by (auto simp: nodes_ok_def)

lemma rq_repr_alloc: "rq_repr q cs \<Longrightarrow> a \<in> set cs \<Longrightarrow> rq_heap q a \<noteq> None"
  by (auto simp: rq_repr_def queue_inv_def queue_nodes_def dest: linked_alloc)

lemma rq_repr_cong:
  assumes "rq_repr q cs" "\<And>a. \<not> is_marker a \<Longrightarrow> a \<in> set cs \<Longrightarrow> map_option nd_next (h a) = map_option nd_next (rq_heap q a)"
    "\<And>a. is_marker a \<Longrightarrow> h a = rq_heap q a"
  shows "rq_repr (q\<lparr>rq_heap := h\<rparr>) cs"
proof -
  obtain xs where xs: "queue_inv q xs" "queue_nodes xs = cs" using assms(1) by (auto simp: rq_repr_def)
  have "map_option nd_next (h a) = map_option nd_next (rq_heap q a)" if "a \<in> set xs" for a
    using that assms(2,3)[of a] xs(2) in_queue_nodes[of a xs] by (cases "is_marker a") auto
  then have "linked h xs = linked (rq_heap q) xs" by (rule linked_cong)
  moreover have "h EndMarker = rq_heap q EndMarker" "h SleepMarker = rq_heap q SleepMarker"
    "h ClosedMarker = rq_heap q ClosedMarker"
    by (simp_all add: assms(3) is_marker_def)
  ultimately have "queue_inv (q\<lparr>rq_heap := h\<rparr>) xs" using xs(1) by (auto simp: queue_inv_def)
  then show ?thesis using xs(2) by (auto simp: rq_repr_def)
qed

lemma rq_repr_write:
  assumes "rq_repr q cs" "Node k \<notin> set cs \<or> (\<exists>n. rq_heap q (Node k) = Some n \<and> nd_next n' = nd_next n)"
  shows "rq_repr (q\<lparr>rq_heap := (rq_heap q)(Node k \<mapsto> n')\<rparr>) cs"
  using assms by (intro rq_repr_cong) auto

lemma rq_repr_free:
  "rq_repr q cs \<Longrightarrow> Node k \<notin> set cs \<Longrightarrow> rq_repr (q\<lparr>rq_heap := (rq_heap q)(Node k := None)\<rparr>) cs"
  by (intro rq_repr_cong) auto

lemma enqueue_repr:
  assumes "rq_repr q cs" "Node k \<notin> set cs" "rq_heap q (Node k) \<noteq> None"
  shows "\<exists>w q'. enqueue_node q (Node k) = Some (w, q') \<and> rq_repr q' (cs @ [Node k]) \<and> same_nodes q q'"
proof -
  obtain xs where xs: "queue_inv q xs" "queue_nodes xs = cs" using assms(1) by (auto simp: rq_repr_def)
  then have "Node k \<notin> set xs" using assms(2) in_queue_nodes[of "Node k" xs] by simp
  with enqueue_node_spec[OF xs(1), of "Node k"] assms(3) xs(2)
  show ?thesis by (fastforce simp: rq_repr_def queue_nodes_def)
qed

lemma dequeue_repr:
  assumes "rq_repr q cs"
  shows "\<exists>r q'. dequeue_node q until = Some (r, q') \<and> same_nodes q q' \<and>
    (if cs = [] \<or> Some (hd cs) = until then r = Empty \<and> rq_repr q' cs
     else r = Data (hd cs) \<and> rq_repr q' (tl cs))"
proof -
  obtain xs where xs: "queue_inv q xs" "queue_nodes xs = cs" using assms by (auto simp: rq_repr_def)
  have *: "queue_inv q' [EndMarker] \<Longrightarrow> rq_repr q' []" for q' :: "('a, 'b) rqueue"
    by (auto simp: rq_repr_def intro!: exI[of _ "[EndMarker]"])
  from dequeue_node_spec[OF xs(1), of until] xs(2) show ?thesis
    by (cases cs) (fastforce simp: rq_repr_def split: if_splits)+
qed

lemma rq_repr_distinct: "rq_repr q cs \<Longrightarrow> distinct cs"
  by (auto simp: rq_repr_def queue_inv_def queue_nodes_def)

lemma rq_repr_Node: "rq_repr q cs \<Longrightarrow> a \<in> set cs \<Longrightarrow> \<exists>k. a = Node k"
  by (cases a) (auto simp: rq_repr_def queue_nodes_def is_marker_def)

text \<open>Two heaps that agree on a node up to its link.\<close>

definition same_node :: "('j, 'p) rqueue \<Rightarrow> ('j, 'p) rqueue \<Rightarrow> addr \<Rightarrow> bool" where
  "same_node q q' a \<longleftrightarrow> map_option (\<lambda>n. n\<lparr>nd_next := None\<rparr>) (rq_heap q' a) =
     map_option (\<lambda>n. n\<lparr>nd_next := None\<rparr>) (rq_heap q a)"

lemma same_nodes_node: "same_nodes q q' \<Longrightarrow> same_node q q' a"
  by (simp add: same_nodes_def same_node_def)

lemma same_node_refl [simp]: "same_node q q a"
  by (simp add: same_node_def)

lemma same_node_trans [trans]: "same_node p q a \<Longrightarrow> same_node q r a \<Longrightarrow> same_node p r a"
  by (simp add: same_node_def)

lemma same_node_Some:
  assumes "same_node q q' a" "rq_heap q a = Some n"
  shows "\<exists>x. rq_heap q' a = Some (n\<lparr>nd_next := x\<rparr>)"
proof -
  obtain n' where "rq_heap q' a = Some n'" "n\<lparr>nd_next := None\<rparr> = n'\<lparr>nd_next := None\<rparr>"
    using assms by (cases "rq_heap q' a") (auto simp: same_node_def)
  then show ?thesis by (cases n; cases n') (auto intro!: exI[of _ "nd_next n'"])
qed

text \<open>An operation on one node leaves every other node as it is, links apart.\<close>

definition others_same :: "('j, 'p) rqueue \<Rightarrow> ('j, 'p) rqueue \<Rightarrow> addr \<Rightarrow> bool" where
  "others_same q q' a \<longleftrightarrow> (\<forall>b. b \<noteq> a \<longrightarrow> same_node q q' b)"

lemma others_same_refl [simp]: "others_same q q a"
  by (simp add: others_same_def)

lemma others_same_trans: "others_same p q a \<Longrightarrow> others_same q r a \<Longrightarrow> others_same p r a"
  by (simp add: others_same_def same_node_def)

lemma others_same_write [simp]: "others_same q (q\<lparr>rq_heap := (rq_heap q)(a := x)\<rparr>) a"
  "others_same (q\<lparr>rq_heap := (rq_heap q)(a := x)\<rparr>) q' a = others_same q q' a"
  by (simp_all add: others_same_def same_node_def)

lemma others_same_fields [simp]: "others_same q (q'\<lparr>rq_pipe := p\<rparr>) a = others_same q q' a"
  "others_same q (q'\<lparr>rq_strong := c\<rparr>) a = others_same q q' a"
  "others_same (q\<lparr>rq_strong := c\<rparr>) q' a = others_same q q' a"
  by (simp_all add: others_same_def same_node_def)

lemma others_same_nodes: "same_nodes q q' \<Longrightarrow> others_same q q' a"
  by (simp add: others_same_def same_nodes_node)

text \<open>Writing a node and appending it, with the wake-up when the poller sleeps.\<close>

lemma enqueue_with_wakeup_inv:
  assumes inv: "reg_inv q cs H" and n: "rq_heap q (Node k) \<noteq> None" and out: "Node k \<notin> set cs"
    and ok: "node_ok (rq_id q) True (H k) n'"
  shows "\<exists>r q2. enqueue_node_with_wakeup P (q\<lparr>rq_heap := (rq_heap q)(Node k \<mapsto> n')\<rparr>) (Node k) = Some (r, q2) \<and>
    reg_inv q2 (cs @ [Node k]) H \<and> (\<exists>x. rq_heap q2 (Node k) = Some (n'\<lparr>nd_next := x\<rparr>)) \<and>
    others_same q q2 (Node k)"
proof -
  let ?q = "q\<lparr>rq_heap := (rq_heap q)(Node k \<mapsto> n')\<rparr>"
  have "rq_repr ?q cs" using inv out by (intro rq_repr_write) (auto simp: reg_inv_def)
  then obtain w q1 where q1: "enqueue_node ?q (Node k) = Some (w, q1)" "rq_repr q1 (cs @ [Node k])"
    "same_nodes ?q q1"
    using enqueue_repr[of ?q cs k] out by auto
  have "nodes_ok ?q (set (cs @ [Node k])) H"
    using inv ok by (intro nodes_ok_update[where S = "set cs"]) (auto simp: reg_inv_def)
  then have "reg_inv q1 (cs @ [Node k]) H"
    using q1(2,3) nodes_ok_same by (auto simp: reg_inv_def)
  moreover have "rq_heap q1 (Node k) \<noteq> None" using same_nodes_None[OF q1(3), of "Node k"] by simp
  then have "\<exists>x. rq_heap q1 (Node k) = Some (n'\<lparr>nd_next := x\<rparr>)"
    using same_nodes_Some[OF q1(3), of "Node k"] by (metis fun_upd_same not_None_eq option.inject rqueue.select_convs(2) rqueue.update_convs(2) rqueue.surjective)
  moreover have "others_same q q1 (Node k)"
    by (rule others_same_trans[OF others_same_write(1) others_same_nodes[OF q1(3)]])
  ultimately show ?thesis
    using q1(1) by (cases "aw_wakeup P (rq_pipe q1)")
      (auto simp: enqueue_node_with_wakeup_def rq_wakeup_def reg_inv_def)
qed

subsection \<open>The operations keep the invariant\<close>

lemma node_modify_Some: "rq_heap q a = Some n \<Longrightarrow>
    node_modify q a f = Some (q\<lparr>rq_heap := (rq_heap q)(a \<mapsto> f n)\<rparr>)"
  by (simp add: node_modify_def)

lemma view_pos: "v_write_pos (rs_view s) = rs_token_write_pos s" "v_read_pos (rs_view s) = rs_token_read_pos s"
  by (simp_all add: rs_view_def)

lemma view_flags [simp]: "rs_is_dropped s = v_dropped (rs_view s)" "rs_is_queued s = v_queued (rs_view s)"
  by (simp_all add: rs_view_def)

lemma reg_inv_update:
  assumes "reg_inv q cs H" "rq_heap q (Node k) = Some n" "nd_next n' = nd_next n"
    "node_ok (rq_id q) (Node k \<in> set cs) (H k) n'"
  shows "reg_inv (q\<lparr>rq_heap := (rq_heap q)(Node k \<mapsto> n')\<rparr>) cs H"
  using assms unfolding reg_inv_def by (intro conjI rq_repr_write nodes_ok_update[where S = "set cs"]) auto

lemma node_ok_live:
  assumes "\<not> v_dropped (rs_view (nd_state n))"
  shows "node_ok i b h n \<longleftrightarrow>
    (let v = rs_view (nd_state n) in
     \<not> nd_update_lock n \<and> v_read_pos v \<le> 2 \<and> v_write_pos v \<le> 2 \<and> v_queued v = b \<and>
     (if nd_queue n = None then \<not> b \<and> v_interest v = ready_empty \<and> unat (nd_ref_count n) = h
      else nd_queue n = Some i \<and> unat (nd_ref_count n) = Suc h \<and>
        (\<not> opt_is_edge (v_opt v) \<and> \<not> ready_is_empty (ready_bitand (v_readiness v) (v_interest v)) \<longrightarrow> b)) \<and>
     0 < unat (nd_ref_count n))"
  unfolding node_ok_def node_core_def Let_def by (cases "nd_queue n"; cases b) (use assms in \<open>simp; blast\<close>)+

lemma ready_bitand_empty [simp]: "ready_bitand r ready_empty = ready_empty"
  by (simp add: ready_bitand_def ready_empty_def)

lemma ready_is_empty_empty [simp]: "ready_is_empty ready_empty"
  by (simp add: ready_is_empty_def)

lemma node_ok_readiness:
  assumes "node_ok i b h n"
    and "rs_view st = (rs_view (nd_state n))\<lparr>v_readiness := r, v_queued := v_queued (rs_view (nd_state n)) \<or>
      \<not> ready_is_empty (ready_bitand r (v_interest (rs_view (nd_state n))))\<rparr>"
    and "\<not> v_dropped (rs_view (nd_state n))"
  shows "node_ok i (b \<or> \<not> ready_is_empty (ready_bitand r (v_interest (rs_view (nd_state n))))) h (n\<lparr>nd_state := st\<rparr>)"
proof -
  have "\<not> v_dropped (rs_view (nd_state (n\<lparr>nd_state := st\<rparr>)))" using assms(2,3) by simp
  with node_ok_live[OF this] assms(1)[unfolded node_ok_live[OF assms(3)]] assms(2) show ?thesis
    by (cases "nd_queue n") (simp_all add: Let_def)
qed

lemma set_readiness_inv:
  assumes inv: "reg_inv q cs H" and n: "rq_heap q (Node k) = Some n" and r: "ready_bits r \<le> MASK_4"
  shows "\<exists>res q' cs'. reg_set_readiness P q (Node k) r = Some (res, q') \<and> reg_inv q' cs' H \<and>
    others_same q q' (Node k) \<and>
    (if v_dropped (rs_view (nd_state n)) then q' = q \<and> cs' = cs
     else let e = ready_bitand r (v_interest (rs_view (nd_state n))) in
       (\<exists>n'. rq_heap q' (Node k) = Some n' \<and> rs_view (nd_state n') = (rs_view (nd_state n))
           \<lparr>v_readiness := r, v_queued := v_queued (rs_view (nd_state n)) \<or> \<not> ready_is_empty e\<rparr> \<and>
           n' = n\<lparr>nd_state := nd_state n', nd_next := nd_next n'\<rparr>) \<and>
       cs' = (if ready_is_empty e \<or> Node k \<in> set cs then cs else cs @ [Node k]))"
proof -
  let ?v = "rs_view (nd_state n)"
  let ?e = "ready_bitand r (v_interest ?v)"
  have ok: "node_ok (rq_id q) (Node k \<in> set cs) (H k) n"
    using inv nodes_okD(3) n by (auto simp: reg_inv_def)
  consider (dropped) "v_dropped ?v" | (idle) "\<not> v_dropped ?v" "ready_is_empty ?e \<or> Node k \<in> set cs"
    | (new) "\<not> v_dropped ?v" "\<not> ready_is_empty ?e" "Node k \<notin> set cs" by blast
  then show ?thesis
  proof cases
    case dropped
    then show ?thesis using inv n
      by (intro exI[of _ "Inr ()"] exI[of _ q] exI[of _ cs]) (simp add: reg_set_readiness_def)
  next
    case idle
    have qd: "v_queued ?v = (Node k \<in> set cs)"
      using ok unfolding node_ok_live[OF idle(1)] by (simp add: Let_def)
    define st where "st = (if ready_is_empty ?e then rs_set_readiness (nd_state n) r
      else ReadinessState (rs_val (rs_set_readiness (nd_state n) r) OR QUEUED_MASK))"
    let ?n = "n\<lparr>nd_state := st\<rparr>"
    let ?q = "q\<lparr>rq_heap := (rq_heap q)(Node k \<mapsto> ?n)\<rparr>"
    have v: "rs_view st = ?v\<lparr>v_readiness := r, v_queued := v_queued ?v \<or> \<not> ready_is_empty ?e\<rparr>"
      using r by (simp add: st_def view_simps)
    have "reg_set_readiness P q (Node k) r = Some (Inr (), ?q)"
      using n idle r qd
      by (auto simp: reg_set_readiness_def view_simps effective_view node_modify_Some st_def)
    moreover have "(Node k \<in> set cs \<or> \<not> ready_is_empty ?e) = (Node k \<in> set cs)"
      using idle(2) by blast
    then have "node_ok (rq_id q) (Node k \<in> set cs) (H k) ?n"
      using node_ok_readiness[OF ok v idle(1)] by (simp only:)
    then have "reg_inv ?q cs H" by (intro reg_inv_update[OF inv n]) simp_all
    ultimately show ?thesis using idle v by auto
  next
    case new
    let ?st = "ReadinessState (rs_val (rs_set_readiness (nd_state n) r) OR QUEUED_MASK)"
    let ?n = "n\<lparr>nd_state := ?st\<rparr>"
    let ?q = "q\<lparr>rq_heap := (rq_heap q)(Node k \<mapsto> ?n)\<rparr>"
    have v: "rs_view ?st = ?v\<lparr>v_readiness := r, v_queued := v_queued ?v \<or> \<not> ready_is_empty ?e\<rparr>"
      using r new by (simp add: view_simps)
    note live = ok[unfolded node_ok_live[OF new(1)] Let_def]
    have nq: "\<not> v_queued ?v" using live new(3) by simp
    have assoc: "nd_queue n = Some (rq_id q)"
      using live new(2) by (auto split: if_splits)
    have "reg_set_readiness P q (Node k) r = enqueue_node_with_wakeup P ?q (Node k)"
      using n new r nq assoc
      by (simp add: reg_set_readiness_def view_simps effective_view node_modify_Some
          node_enqueue_with_wakeup_def)
    moreover have "node_ok (rq_id q) True (H k) ?n"
      using node_ok_readiness[OF ok v new(1)] new by simp
    moreover note enqueue_with_wakeup_inv[OF inv _ new(3) this, of P]
    ultimately obtain res q2 x where "reg_set_readiness P q (Node k) r = Some (res, q2)"
      "reg_inv q2 (cs @ [Node k]) H" "rq_heap q2 (Node k) = Some (?n\<lparr>nd_next := x\<rparr>)"
      "others_same q q2 (Node k)"
      using n by auto
    then show ?thesis using new v by (intro exI[of _ res] exI[of _ q2] exI[of _ "cs @ [Node k]"]) simp
  qed
qed

definition set_node_token :: "'j rnode \<Rightarrow> usize \<Rightarrow> token_entry \<Rightarrow> 'j rnode" where
  "set_node_token n p tok =
     (if p = 0 then n\<lparr>nd_token_0 := tok\<rparr> else if p = 1 then n\<lparr>nd_token_1 := tok\<rparr> else n\<lparr>nd_token_2 := tok\<rparr>)"

lemma le_2_cases: "(p :: usize) \<le> 2 \<Longrightarrow> p = 0 \<or> p = 1 \<or> p = 2"
proof -
  assume "p \<le> 2"
  then have "unat p = 0 \<or> unat p = 1 \<or> unat p = 2" by (auto simp: word_le_nat_alt)
  then show ?thesis by (auto simp: word_unat_eq_iff)
qed

lemma store_token_Some:
  "rq_heap q a = Some n \<Longrightarrow> p \<le> 2 \<Longrightarrow>
   store_token q a p tok = Some (q\<lparr>rq_heap := (rq_heap q)(a \<mapsto> set_node_token n p tok)\<rparr>)"
  by (auto simp: store_token_def node_modify_Some set_node_token_def dest!: le_2_cases)

lemma set_node_token_simps [simp]:
  "nd_state (set_node_token n p tok) = nd_state n" "nd_next (set_node_token n p tok) = nd_next n"
  "nd_update_lock (set_node_token n p tok) = nd_update_lock n"
  "nd_queue (set_node_token n p tok) = nd_queue n"
  "nd_ref_count (set_node_token n p tok) = nd_ref_count n" "nd_job (set_node_token n p tok) = nd_job n"
  by (simp_all add: set_node_token_def)

lemma node_token_set: "p \<le> 2 \<Longrightarrow> node_token (set_node_token n p tok) p = Some tok"
  by (auto simp: node_token_def set_node_token_def dest!: le_2_cases)

lemma node_token_Some: "p \<le> 2 \<Longrightarrow> \<exists>t. node_token n p = Some t"
  by (auto simp: node_token_def dest!: le_2_cases)

lemma node_token_upd [simp]:
  "node_token (n\<lparr>nd_state := s\<rparr>) p = node_token n p" "node_token (n\<lparr>nd_job := j\<rparr>) p = node_token n p"
  "node_token (n\<lparr>nd_queue := i\<rparr>) p = node_token n p" "node_token (n\<lparr>nd_ref_count := c\<rparr>) p = node_token n p"
  "node_token (n\<lparr>nd_next := x\<rparr>) p = node_token n p" "node_token (n\<lparr>nd_update_lock := l\<rparr>) p = node_token n p"
  by (simp_all add: node_token_def)

text \<open>The token is in the slot the next report will read, whether or not a new slot was taken.\<close>

definition tok_pos :: "'j rnode \<Rightarrow> token_entry \<Rightarrow> usize" where
  "tok_pos n tok = (let wr = rs_token_write_pos (nd_state n) in
     if node_token n wr = Some tok then wr else the (rs_next_token_pos (nd_state n)))"

lemma tok_pos_le:
  assumes "rs_token_write_pos (nd_state n) \<le> 2" "rs_token_read_pos (nd_state n) \<le> 2"
  shows "tok_pos n tok \<le> 2"
    and "rs_next_token_pos (nd_state n) \<noteq> None"
proof -
  have "\<not> (3 :: usize) \<le> 2" by simp
  then have "rs_token_read_pos (nd_state n) \<noteq> 3" "rs_token_write_pos (nd_state n) \<noteq> 3" using assms by metis+
  then show "rs_next_token_pos (nd_state n) \<noteq> None"
    using next_token_pos_cases[of "nd_state n"] by (auto split: option.splits)
  then show "tok_pos n tok \<le> 2"
    using assms next_token_pos_cases[of "nd_state n"] by (auto simp: tok_pos_def Let_def split: option.splits)
qed

lemma node_ok_interest:
  assumes "node_ok i b h n" "\<not> v_dropped (rs_view (nd_state n))" "nd_queue n = Some i" "p \<le> 2"
    and "ne = (\<not> ready_is_empty (ready_bitand (v_readiness (rs_view (nd_state n))) interest))"
    and "rs_view (nd_state n') = (rs_view (nd_state n))\<lparr>v_write_pos := p, v_interest := interest,
      v_opt := opt, v_queued := v_queued (rs_view (nd_state n)) \<or> ne\<rparr>"
    and "nd_update_lock n' = nd_update_lock n" "nd_queue n' = nd_queue n" "nd_ref_count n' = nd_ref_count n"
  shows "node_ok i (b \<or> ne) h n'"
proof -
  have "\<not> v_dropped (rs_view (nd_state n'))" using assms(2,6) by simp
  with node_ok_live[OF this] assms(1)[unfolded node_ok_live[OF assms(2)]] assms(3-9) show ?thesis
    by (simp add: Let_def)
qed

text \<open>The state that \<open>update\<close> computes.\<close>

definition upd_state :: "readiness_state \<Rightarrow> usize \<Rightarrow> ready \<Rightarrow> poll_opt \<Rightarrow> readiness_state" where
  "upd_state s p interest opt =
     (let nxt = rs_set_poll_opt (rs_set_interest (rs_set_token_write_pos s p) interest) opt
      in if ready_is_empty (rs_effective_readiness nxt) then nxt
         else ReadinessState (rs_val nxt OR QUEUED_MASK))"

lemma le_2_MASK_2: "(p :: usize) \<le> 2 \<Longrightarrow> p \<le> MASK_2"
  by (auto simp: MASK_2_def dest!: le_2_cases)

lemma view_upd_state:
  assumes "p \<le> 2" "ready_bits interest \<le> MASK_4" "opt_bits opt \<le> MASK_4"
  shows "rs_view (upd_state s p interest opt) = (rs_view s)\<lparr>v_write_pos := p, v_interest := interest,
     v_opt := opt, v_queued := v_queued (rs_view s) \<or>
       \<not> ready_is_empty (ready_bitand (v_readiness (rs_view s)) interest)\<rparr>"
  using assms le_2_MASK_2 by (simp add: upd_state_def Let_def view_simps effective_view)

definition upd_node :: "'j rnode \<Rightarrow> token_entry \<Rightarrow> ready \<Rightarrow> poll_opt \<Rightarrow> 'j rnode" where
  "upd_node n tok interest opt =
     (if node_token n (rs_token_write_pos (nd_state n)) = Some tok then n
      else set_node_token n (tok_pos n tok) tok)
     \<lparr>nd_state := upd_state (nd_state n) (tok_pos n tok) interest opt\<rparr>"

lemma set_node_token_lock [simp]:
  "set_node_token (n\<lparr>nd_update_lock := b\<rparr>) p tok = (set_node_token n p tok)\<lparr>nd_update_lock := b\<rparr>"
  by (simp add: set_node_token_def)

lemma unlock_id: "\<not> nd_update_lock n \<Longrightarrow> n\<lparr>nd_update_lock := False\<rparr> = n"
  by (cases n) simp

lemma upd_node_simps [simp]:
  "nd_next (upd_node n tok interest opt) = nd_next n" "nd_queue (upd_node n tok interest opt) = nd_queue n"
  "nd_update_lock (upd_node n tok interest opt) = nd_update_lock n"
  "nd_ref_count (upd_node n tok interest opt) = nd_ref_count n"
  "nd_job (upd_node n tok interest opt) = nd_job n"
  "nd_state (upd_node n tok interest opt) = upd_state (nd_state n) (tok_pos n tok) interest opt"
  by (simp_all add: upd_node_def)

lemma upd_state_interp:
  assumes "\<not> v_dropped (rs_view s)" "p \<le> 2" "ready_bits interest \<le> MASK_4" "opt_bits opt \<le> MASK_4"
  shows "(let nxt = rs_set_token_write_pos s p; nxt = rs_set_interest nxt interest;
              nxt = rs_set_poll_opt nxt opt
          in if \<not> ready_is_empty (rs_effective_readiness nxt) then rs_set_queued nxt else Some nxt) =
         Some (upd_state s p interest opt)"
  using assms le_2_MASK_2 by (simp add: upd_state_def Let_def view_simps effective_view)

lemma reg_update_node_eq:
  assumes n: "rq_heap q (Node k) = Some n" and live: "\<not> v_dropped (rs_view (nd_state n))"
    and lock: "\<not> nd_update_lock n"
    and pos: "rs_token_write_pos (nd_state n) \<le> 2" "rs_token_read_pos (nd_state n) \<le> 2"
    and args: "ready_bits interest \<le> MASK_4" "opt_bits opt \<le> MASK_4"
  shows "reg_update_node P q (Node k) tok interest opt job =
    (let n' = upd_node n tok interest opt; q' = q\<lparr>rq_heap := (rq_heap q)(Node k \<mapsto> n')\<rparr>
     in if \<not> v_queued (rs_view (nd_state n)) \<and> v_queued (rs_view (nd_state n'))
        then enqueue_node_with_wakeup P (q\<lparr>rq_heap := (rq_heap q)(Node k \<mapsto> n'\<lparr>nd_job := job\<rparr>)\<rparr>) (Node k)
        else Some (Inr (), q'))"
proof -
  obtain t where t: "node_token n (rs_token_write_pos (nd_state n)) = Some t"
    using node_token_Some[OF pos(1)] by blast
  obtain p where p: "rs_next_token_pos (nd_state n) = Some p" using tok_pos_le(2)[OF pos] by blast
  have tp: "tok_pos n tok = (if tok = t then rs_token_write_pos (nd_state n) else p)"
    using t p by (auto simp: tok_pos_def Let_def)
  have p2: "tok_pos n tok \<le> 2" using tok_pos_le(1)[OF pos] .
  note st = upd_state_interp[OF live p2 args, unfolded Let_def]
  have un: "upd_node n tok interest opt =
      (if tok = t then n else set_node_token n p tok)\<lparr>nd_state := upd_state (nd_state n) (tok_pos n tok) interest opt\<rparr>"
    using t tp by (auto simp: upd_node_def)
  show ?thesis
  proof (cases "tok = t")
    case True
    then have tp': "tok_pos n tok = rs_token_write_pos (nd_state n)" using tp by simp
    show ?thesis
      using n lock t live tp' un True
      by (simp add: reg_update_node_def Let_def st[unfolded tp'] node_modify_Some unlock_id)
  next
    case False
    then have tp': "tok_pos n tok = p" using tp by simp
    show ?thesis
      using n lock t p live tp' un False p2
      by (simp add: reg_update_node_def Let_def st[unfolded tp'] store_token_Some node_modify_Some unlock_id)
  qed
qed

lemma update_node_inv:
  assumes inv: "reg_inv q cs H" and n: "rq_heap q (Node k) = Some n"
    and live: "\<not> v_dropped (rs_view (nd_state n))" and assoc: "nd_queue n = Some (rq_id q)"
    and args: "ready_bits interest \<le> MASK_4" "opt_bits opt \<le> MASK_4"
    and e: "e = ready_bitand (v_readiness (rs_view (nd_state n))) interest"
  shows "\<exists>res q' cs' n'. reg_update_node P q (Node k) tok interest opt job = Some (res, q') \<and>
    reg_inv q' cs' H \<and> others_same q q' (Node k) \<and> rq_heap q' (Node k) = Some n' \<and>
    rs_view (nd_state n') = (rs_view (nd_state n))\<lparr>v_write_pos := tok_pos n tok, v_interest := interest,
       v_opt := opt, v_queued := v_queued (rs_view (nd_state n)) \<or> \<not> ready_is_empty e\<rparr> \<and>
    node_token n' (tok_pos n tok) = Some tok \<and>
    cs' = (if ready_is_empty e \<or> Node k \<in> set cs then cs else cs @ [Node k]) \<and>
    nd_job n' = (if ready_is_empty e \<or> Node k \<in> set cs then nd_job n else job)"
proof -
  let ?v = "rs_view (nd_state n)"
  let ?n = "upd_node n tok interest opt"
  have ok: "node_ok (rq_id q) (Node k \<in> set cs) (H k) n"
    using inv nodes_okD(3) n by (auto simp: reg_inv_def)
  note live_ok = ok[unfolded node_ok_live[OF live] Let_def]
  have lock: "\<not> nd_update_lock n" and qd: "v_queued ?v = (Node k \<in> set cs)" using live_ok by simp_all
  have pos: "rs_token_write_pos (nd_state n) \<le> 2" "rs_token_read_pos (nd_state n) \<le> 2"
    using live_ok by (simp_all add: view_pos)
  have p2: "tok_pos n tok \<le> 2" by (rule tok_pos_le(1)[OF pos])
  have v: "rs_view (nd_state ?n) = ?v\<lparr>v_write_pos := tok_pos n tok, v_interest := interest,
       v_opt := opt, v_queued := v_queued ?v \<or> \<not> ready_is_empty e\<rparr>"
    using view_upd_state[OF p2 args, of "nd_state n"] e by simp
  have tok: "node_token ?n (tok_pos n tok) = Some tok"
    using node_token_set[OF p2] by (auto simp: upd_node_def tok_pos_def Let_def)
  have ok': "node_ok (rq_id q) (Node k \<in> set cs \<or> \<not> ready_is_empty e) (H k) (?n\<lparr>nd_job := j\<rparr>)" for j
    by (rule node_ok_interest[OF ok live assoc p2, where interest = interest and opt = opt])
      (simp_all add: e v[simplified])
  note eq = reg_update_node_eq[OF n live lock pos args, of P tok job, unfolded Let_def v, simplified qd, simplified]
  show ?thesis
  proof (cases "ready_is_empty e \<or> Node k \<in> set cs")
    case True
    then have "(Node k \<in> set cs \<or> \<not> ready_is_empty e) = (Node k \<in> set cs)" by blast
    then have "node_ok (rq_id q) (Node k \<in> set cs) (H k) ?n"
      using ok'[of "nd_job ?n"] by (simp del: upd_node_simps)
    then have "reg_inv (q\<lparr>rq_heap := (rq_heap q)(Node k \<mapsto> ?n)\<rparr>) cs H"
      by (intro reg_inv_update[OF inv n]) simp_all
    moreover have "reg_update_node P q (Node k) tok interest opt job =
        Some (Inr (), q\<lparr>rq_heap := (rq_heap q)(Node k \<mapsto> ?n)\<rparr>)" using eq True by auto
    ultimately show ?thesis using True v tok by auto
  next
    case False
    have "node_ok (rq_id q) True (H k) (?n\<lparr>nd_job := job\<rparr>)" using ok'[of job] False by simp
    from enqueue_with_wakeup_inv[OF inv _ _ this, of P] n False
    obtain r q2 x where "enqueue_node_with_wakeup P (q\<lparr>rq_heap := (rq_heap q)(Node k \<mapsto> ?n\<lparr>nd_job := job\<rparr>)\<rparr>) (Node k) = Some (r, q2)"
      "reg_inv q2 (cs @ [Node k]) H" "rq_heap q2 (Node k) = Some (?n\<lparr>nd_job := job\<rparr>\<lparr>nd_next := x\<rparr>)"
      "others_same q q2 (Node k)" by auto
    moreover from this eq have "reg_update_node P q (Node k) tok interest opt job = Some (r, q2)"
      using False by auto
    ultimately show ?thesis using False v tok
      by (intro exI[of _ r] exI[of _ q2] exI[of _ "cs @ [Node k]"] exI[of _ "?n\<lparr>nd_job := job, nd_next := x\<rparr>"]) simp
  qed
qed

lemma reg_inv_node: "reg_inv q cs H \<Longrightarrow> rq_heap q (Node k) = Some n \<Longrightarrow>
    node_ok (rq_id q) (Node k \<in> set cs) (H k) n"
  using nodes_okD(3) by (auto simp: reg_inv_def)

lemma unat_add_one: "unat (w :: usize) \<le> 2 ^ 63 \<Longrightarrow> unat (w + 1) = Suc (unat w)"
  by (simp add: unat_word_ariths)

lemma update_inv:
  assumes inv: "reg_inv q cs H" and n: "rq_heap q (Node k) = Some n"
    and live: "\<not> v_dropped (rs_view (nd_state n))"
    and args: "ready_bits interest \<le> MASK_4" "opt_bits opt \<le> MASK_4"
    and e: "e = ready_bitand (v_readiness (rs_view (nd_state n))) interest"
  shows "\<exists>res q' cs' n'. reg_update P q (Node k) tok interest opt job = Some (res, q') \<and>
    reg_inv q' cs' H \<and> others_same q q' (Node k) \<and> rq_heap q' (Node k) = Some n' \<and>
    rs_view (nd_state n') = (rs_view (nd_state n))\<lparr>v_write_pos := tok_pos n tok, v_interest := interest,
       v_opt := opt, v_queued := v_queued (rs_view (nd_state n)) \<or> \<not> ready_is_empty e\<rparr> \<and>
    node_token n' (tok_pos n tok) = Some tok \<and>
    cs' = (if ready_is_empty e \<or> Node k \<in> set cs then cs else cs @ [Node k]) \<and>
    nd_job n' = (if ready_is_empty e \<or> Node k \<in> set cs then nd_job n else job)"
proof (cases "nd_queue n")
  case (Some i)
  then have "i = rq_id q"
    using reg_inv_node[OF inv n] unfolding node_ok_live[OF live] by (simp add: Let_def)
  then have "reg_update P q (Node k) tok interest opt job = reg_update_node P q (Node k) tok interest opt job"
    using n Some by (simp add: reg_update_def)
  then show ?thesis using update_node_inv[OF inv n live _ args e] Some \<open>i = rq_id q\<close> by simp
next
  case None
  let ?n = "n\<lparr>nd_queue := Some (rq_id q), nd_ref_count := nd_ref_count n + 1\<rparr>"
  let ?q = "q\<lparr>rq_heap := (rq_heap q)(Node k \<mapsto> ?n), rq_strong := rq_strong q + 1\<rparr>"
  note ok = reg_inv_node[OF inv n, unfolded node_ok_live[OF live] Let_def]
  have "H k \<le> 2 ^ 63" using inv nodes_okD(1) by (auto simp: reg_inv_def)
  then have "unat (nd_ref_count n + 1) = Suc (H k)" using ok None by (simp add: unat_add_one)
  then have "node_ok (rq_id q) (Node k \<in> set cs) (H k) ?n"
    using ok None live by (subst node_ok_live) (simp_all add: Let_def)
  then have "reg_inv (q\<lparr>rq_heap := (rq_heap q)(Node k \<mapsto> ?n)\<rparr>) cs H"
    by (intro reg_inv_update[OF inv n]) simp_all
  then have inv': "reg_inv ?q cs H" by (simp add: reg_inv_def)
  have n': "rq_heap ?q (Node k) = Some ?n" by simp
  have "tok_pos ?n tok = tok_pos n tok" by (simp add: tok_pos_def Let_def)
  moreover have "reg_update P q (Node k) tok interest opt job = reg_update_node P ?q (Node k) tok interest opt job"
    using n None by (simp add: reg_update_def node_modify_Some)
  ultimately show ?thesis
    using update_node_inv[OF inv' n' _ _ args, of e P tok job] live e by (simp cong: if_cong)
qed

lemma release_gen:
  assumes repr: "rq_repr q cs" and n: "rq_heap q (Node k) = Some n" and ok: "nodes_ok q S H"
    and S': "\<And>j. j \<noteq> k \<Longrightarrow> Node j \<in> S' \<longleftrightarrow> Node j \<in> S"
    and last: "nd_ref_count n = 1 \<Longrightarrow> Node k \<notin> set cs \<and> h = 0"
    and more: "nd_ref_count n \<noteq> 1 \<Longrightarrow>
      node_ok (rq_id q) (Node k \<in> S') h (n\<lparr>nd_ref_count := nd_ref_count n - 1\<rparr>) \<and> h \<le> 2 ^ 63"
  shows "\<exists>q'. release_node q (Node k) = Some q' \<and> rq_repr q' cs \<and> nodes_ok q' S' (H(k := h)) \<and>
    rq_heap q' = (rq_heap q)(Node k := if nd_ref_count n = 1 then None
       else Some (n\<lparr>nd_ref_count := nd_ref_count n - 1\<rparr>))"
proof (cases "nd_ref_count n = 1")
  case True
  have "rq_repr (q\<lparr>rq_heap := (rq_heap q)(Node k := None)\<rparr>) cs"
    using rq_repr_free[OF repr] last True by blast
  moreover have "nodes_ok (q\<lparr>rq_heap := (rq_heap q)(Node k := None)\<rparr>) S' (H(k := h))"
    using nodes_ok_free[OF ok S'] last True by simp
  ultimately show ?thesis
    using n True by (cases "nd_queue n") (auto simp: release_node_def node_modify_Some)
next
  case False
  let ?n = "n\<lparr>nd_ref_count := nd_ref_count n - 1\<rparr>"
  have "rq_repr (q\<lparr>rq_heap := (rq_heap q)(Node k \<mapsto> ?n)\<rparr>) cs" using repr n by (intro rq_repr_write) auto
  moreover have "nodes_ok (q\<lparr>rq_heap := (rq_heap q)(Node k \<mapsto> ?n)\<rparr>) S' (H(k := h))"
    using more[OF False] by (intro nodes_ok_write[OF ok S']) simp_all
  ultimately show ?thesis using n False by (simp add: release_node_def node_modify_Some)
qed

lemma unat_sub_one: "0 < unat (w :: usize) \<Longrightarrow> unat (w - 1) = unat w - 1"
  by (metis One_nat_def Suc_leI unat_1 unat_sub_if')

lemma node_ok_ref:
  "node_ok i b h n \<Longrightarrow> unat (nd_ref_count n) =
      h + (if nd_queue n = None \<or> v_dropped (rs_view (nd_state n)) \<and> \<not> b then 0 else 1) \<and>
    (b \<longrightarrow> unat (nd_ref_count n) = h + 1) \<and> 0 < unat (nd_ref_count n)"
proof -
  assume ok: "node_ok i b h n"
  then have "node_core i b n" unfolding node_ok_def by blast
  then have "b \<longrightarrow> nd_queue n = Some i" unfolding node_core_def Let_def by blast
  then have "b \<longrightarrow> (if nd_queue n = None \<or> v_dropped (rs_view (nd_state n)) \<and> \<not> b then 0 else 1) = (1 :: nat)"
    by simp
  then have "b \<longrightarrow> unat (nd_ref_count n) = h + 1" using ok unfolding node_ok_def by linarith
  then show ?thesis using ok unfolding node_ok_def by blast
qed

lemma ref_one: "nd_ref_count n = 1 \<longleftrightarrow> unat (nd_ref_count n) = 1"
  by (simp add: word_unat_eq_iff)

lemma node_ok_set_ref:
  assumes "node_ok i b h n" "0 < unat c" "unat c + h = unat (nd_ref_count n) + h'"
  shows "node_ok i b h' (n\<lparr>nd_ref_count := c\<rparr>)"
proof -
  have *: "nd_ref_count (n\<lparr>nd_ref_count := c\<rparr>) = c" "nd_queue (n\<lparr>nd_ref_count := c\<rparr>) = nd_queue n"
    "nd_state (n\<lparr>nd_ref_count := c\<rparr>) = nd_state n" by simp_all
  from assms(1) have 1: "node_core i b n" and 2: "unat (nd_ref_count n) =
      h + (if nd_queue n = None \<or> v_dropped (rs_view (nd_state n)) \<and> \<not> b then 0 else 1)"
    unfolding node_ok_def by blast+
  have "unat c = h' + (if nd_queue n = None \<or> v_dropped (rs_view (nd_state n)) \<and> \<not> b then 0 else 1)"
    using 2 assms(3) by linarith
  then show ?thesis unfolding node_ok_def node_core_upd * using 1 assms(2) by blast
qed

lemma node_ok_sub:
  assumes "node_ok i b h n" "0 < h" "1 < unat (nd_ref_count n)"
  shows "node_ok i b (h - 1) (n\<lparr>nd_ref_count := nd_ref_count n - 1\<rparr>)"
proof -
  have "0 < unat (nd_ref_count n)" using assms(3) by linarith
  note unat_sub_one[OF this]
  then show ?thesis using assms(2,3) by (intro node_ok_set_ref[OF assms(1)]) linarith+
qed

text \<open>A handle is dropped.\<close>

lemma release_handle_inv:
  assumes inv: "reg_inv q cs H" and h: "0 < H k"
  shows "\<exists>q'. release_node q (Node k) = Some q' \<and> reg_inv q' cs (H(k := H k - 1)) \<and>
     others_same q q' (Node k) \<and>
     (\<forall>n'. rq_heap q' (Node k) = Some n' \<longrightarrow> (\<exists>n. rq_heap q (Node k) = Some n \<and> nd_state n' = nd_state n))"
proof -
  obtain n where n: "rq_heap q (Node k) = Some n" using inv h nodes_okD(2)[of q "set cs" H k] by (auto simp: reg_inv_def)
  have H: "H k \<le> 2 ^ 63" using inv nodes_okD(1) by (auto simp: reg_inv_def)
  note ok = reg_inv_node[OF inv n]
  have 1: "Node k \<notin> set cs \<and> H k - 1 = 0" if "nd_ref_count n = 1"
    using node_ok_ref[OF ok] that h unfolding ref_one by linarith
  have 2: "node_ok (rq_id q) (Node k \<in> set cs) (H k - 1) (n\<lparr>nd_ref_count := nd_ref_count n - 1\<rparr>) \<and> H k - 1 \<le> 2 ^ 63"
    if r: "nd_ref_count n \<noteq> 1"
  proof -
    have "1 < unat (nd_ref_count n)" using node_ok_ref[OF ok] r unfolding ref_one by linarith
    from node_ok_sub[OF ok h this] show ?thesis using H by simp
  qed
  have repr: "rq_repr q cs" and nodes: "nodes_ok q (set cs) H" using inv by (simp_all add: reg_inv_def)
  have "nodes_ok q (set cs) H \<Longrightarrow> \<exists>q'. release_node q (Node k) = Some q' \<and> rq_repr q' cs \<and>
      nodes_ok q' (set cs) (H(k := H k - 1)) \<and>
      rq_heap q' = (rq_heap q)(Node k := if nd_ref_count n = 1 then None
       else Some (n\<lparr>nd_ref_count := nd_ref_count n - 1\<rparr>))"
    by (rule release_gen[OF repr n, where S = "set cs"]) (use 1 2 in simp_all)
  with nodes obtain q' where q': "release_node q (Node k) = Some q'" "reg_inv q' cs (H(k := H k - 1))"
    and h': "rq_heap q' = (rq_heap q)(Node k := if nd_ref_count n = 1 then None
       else Some (n\<lparr>nd_ref_count := nd_ref_count n - 1\<rparr>))" by (auto simp: reg_inv_def)
  have "others_same q q' (Node k)" using h' by (simp add: others_same_def same_node_def)
  then show ?thesis using q' h' n by auto
qed

text \<open>A \<open>Registration\<close> is dropped.\<close>

lemma registration_drop_inv:
  assumes inv: "reg_inv q cs H" and n: "rq_heap q (Node k) = Some n" and h: "0 < H k"
    and live: "\<not> v_dropped (rs_view (nd_state n))"
  shows "\<exists>q'. registration_drop P q (Node k) = Some q' \<and>
    reg_inv q' (if Node k \<in> set cs \<or> nd_queue n = None then cs else cs @ [Node k]) (H(k := H k - 1)) \<and>
    others_same q q' (Node k) \<and>
    (\<forall>n'. rq_heap q' (Node k) = Some n' \<longrightarrow> v_dropped (rs_view (nd_state n')))"
proof -
  let ?st = "ReadinessState (rs_val (nd_state n) OR (DROPPED_MASK OR QUEUED_MASK))"
  let ?n = "n\<lparr>nd_state := ?st\<rparr>"
  let ?q = "q\<lparr>rq_heap := (rq_heap q)(Node k \<mapsto> ?n)\<rparr>"
  note ok = reg_inv_node[OF inv n, unfolded node_ok_live[OF live] Let_def]
  have fl: "flag_as_dropped (nd_state n) = Some (\<not> v_queued (rs_view (nd_state n)), ?st)"
    using live by (simp add: flag_as_dropped_def)
  have v: "rs_view ?st = (rs_view (nd_state n))\<lparr>v_queued := True, v_dropped := True\<rparr>"
    by (simp add: view_simps)
  have okn: "node_ok (rq_id q) (nd_queue n \<noteq> None) (H k) ?n"
    using ok v by (cases "nd_queue n") (simp_all add: node_ok_def node_core_def Let_def)
  consider (stay) "Node k \<in> set cs \<or> nd_queue n = None" | (app) "Node k \<notin> set cs" "nd_queue n \<noteq> None" by blast
  then show ?thesis
  proof cases
    case stay
    then have "node_ok (rq_id q) (Node k \<in> set cs) (H k) ?n" using okn ok by (auto split: if_splits)
    then have "reg_inv ?q cs H" by (intro reg_inv_update[OF inv n]) simp_all
    from release_handle_inv[OF this h] obtain q' where q': "release_node ?q (Node k) = Some q'"
      "reg_inv q' cs (H(k := H k - 1))" "others_same q q' (Node k)"
      "\<And>n'. rq_heap q' (Node k) = Some n' \<Longrightarrow> nd_state n' = ?st" by auto
    have "registration_drop P q (Node k) = release_node ?q (Node k)"
      using n fl stay ok by (auto simp: registration_drop_def node_modify_Some node_enqueue_with_wakeup_def split: if_splits)
    moreover have "(if Node k \<in> set cs \<or> nd_queue n = None then cs else cs @ [Node k]) = cs"
      using stay by simp
    moreover have "v_dropped (rs_view (nd_state n'))" if "rq_heap q' (Node k) = Some n'" for n'
      unfolding q'(4)[OF that] v by simp
    ultimately show ?thesis using q'(1-3) by (intro exI[of _ q']) simp
  next
    case app
    then obtain i where i: "nd_queue n = Some i" by auto
    have "node_ok (rq_id q) True (H k) ?n" using okn i by simp
    from enqueue_with_wakeup_inv[OF inv _ app(1) this, of P] n obtain r q2
      where q2: "enqueue_node_with_wakeup P ?q (Node k) = Some (r, q2)" "reg_inv q2 (cs @ [Node k]) H"
        "\<exists>x. rq_heap q2 (Node k) = Some (?n\<lparr>nd_next := x\<rparr>)" "others_same q q2 (Node k)" by auto
    then have st2: "\<And>m. rq_heap q2 (Node k) = Some m \<Longrightarrow> nd_state m = ?st" by auto
    from release_handle_inv[OF q2(2) h] obtain q' where q': "release_node q2 (Node k) = Some q'"
      "reg_inv q' (cs @ [Node k]) (H(k := H k - 1))" "others_same q2 q' (Node k)"
      "\<And>n'. rq_heap q' (Node k) = Some n' \<Longrightarrow> nd_state n' = ?st" using st2 by metis
    have "registration_drop P q (Node k) = release_node q2 (Node k)"
      using n fl app(1) i ok q2(1) by (simp add: registration_drop_def node_modify_Some node_enqueue_with_wakeup_def)
    moreover have "others_same q q' (Node k)" using others_same_trans[OF q2(4) q'(3)] .
    moreover have "v_dropped (rs_view (nd_state n'))" if "rq_heap q' (Node k) = Some n'" for n'
      unfolding q'(4)[OF that] v by simp
    ultimately show ?thesis using q'(1,2) app(1) i by (intro exI[of _ q']) simp
  qed
qed

text \<open>A handle is cloned.\<close>

lemma clone_inv:
  assumes inv: "reg_inv q cs H" and n: "rq_heap q (Node k) = Some n"
    and few: "unat (nd_ref_count n) < 2 ^ 63"
  shows "\<exists>q'. reg_clone q (Node k) = Some q' \<and> reg_inv q' cs (H(k := H k + 1))"
proof -
  let ?n = "n\<lparr>nd_ref_count := nd_ref_count n + 1\<rparr>"
  let ?q = "q\<lparr>rq_heap := (rq_heap q)(Node k \<mapsto> ?n)\<rparr>"
  have "nd_ref_count n AND NOT MAX_REFCOUNT = 0"
  proof (rule bit_word_eqI)
    fix i
    have m: "MAX_REFCOUNT = mask 63" by (simp add: MAX_REFCOUNT_def mask_eq_exp_minus_1)
    have "i < 63" if "bit (nd_ref_count n) i"
    proof -
      have "2 ^ i < (2 :: nat) ^ 63" using bit_imp_exp_le[OF that] few by (rule le_less_trans)
      then show ?thesis by (rule power_less_imp_less_exp[rotated]) simp
    qed
    then show "bit (nd_ref_count n AND NOT MAX_REFCOUNT) i = bit (0 :: usize) i"
      unfolding m by (auto simp: bit_and_iff bit_not_iff bit_mask_iff)
  qed
  then have "reg_clone q (Node k) = Some ?q" using n by (simp add: reg_clone_def node_modify_Some)
  moreover note ok = reg_inv_node[OF inv n]
  have u: "unat (nd_ref_count n + 1) = Suc (unat (nd_ref_count n))" using few by (simp add: unat_add_one)
  have le: "H k + 1 \<le> 2 ^ 63" using ok few unfolding node_ok_def by linarith
  have "node_ok (rq_id q) (Node k \<in> set cs) (H k + 1) ?n"
    using ok by (simp add: node_ok_def u)
  then have "nodes_ok ?q (set cs) (H(k := H k + 1))"
    using inv le by (intro nodes_ok_write[where S = "set cs"]) (simp_all add: reg_inv_def)
  moreover have "rq_repr ?q cs" using inv n by (intro rq_repr_write) (auto simp: reg_inv_def)
  ultimately show ?thesis by (simp add: reg_inv_def)
qed

text \<open>The two constructors.\<close>

lemma new_node:
  assumes "ready_bits interest \<le> MASK_4" "opt_bits opt \<le> MASK_4"
  obtains st where "node_new i tok interest opt c = Some
      \<lparr>nd_state = st, nd_token_0 = tok, nd_token_1 = null_token, nd_token_2 = null_token,
       nd_next = None, nd_update_lock = False, nd_queue = i, nd_ref_count = c, nd_job = Noop\<rparr>"
    "rs_view st = \<lparr>v_readiness = ready_empty, v_interest = interest, v_opt = opt, v_read_pos = 0,
      v_write_pos = 0, v_queued = False, v_dropped = False\<rparr>"
  using view_new[OF assms] that by (auto simp: node_new_def)

lemma ready_bitand_empty' [simp]: "ready_bitand ready_empty r = ready_empty"
  by (simp add: ready_bitand_def ready_empty_def)

lemma alloc_inv:
  assumes inv: "reg_inv q cs H" and free: "rq_heap q (Node k) = None"
    and ok: "node_ok (rq_id q) False 2 n"
  shows "reg_inv (q\<lparr>rq_heap := (rq_heap q)(Node k \<mapsto> n)\<rparr>) cs (H(k := 2))"
proof -
  have out: "Node k \<notin> set cs" using inv free rq_repr_alloc[of q cs "Node k"] by (auto simp: reg_inv_def)
  then have "rq_repr (q\<lparr>rq_heap := (rq_heap q)(Node k \<mapsto> n)\<rparr>) cs"
    using inv by (intro rq_repr_write) (auto simp: reg_inv_def)
  moreover have "nodes_ok (q\<lparr>rq_heap := (rq_heap q)(Node k \<mapsto> n)\<rparr>) (set cs) (H(k := 2))"
    using inv ok out by (intro nodes_ok_write[where S = "set cs"]) (simp_all add: reg_inv_def)
  ultimately show ?thesis by (simp add: reg_inv_def)
qed

lemma new2_inv:
  assumes inv: "reg_inv q cs H" and free: "rq_heap q (Node k) = None"
  shows "\<exists>q' n. registration_new2 q k = Some (Node k, q') \<and> reg_inv q' cs (H(k := 2)) \<and>
     rq_heap q' = (rq_heap q)(Node k \<mapsto> n) \<and> rs_view (nd_state n) =
       \<lparr>v_readiness = ready_empty, v_interest = ready_empty, v_opt = opt_empty, v_read_pos = 0,
      v_write_pos = 0, v_queued = False, v_dropped = False\<rparr> \<and> nd_queue n = None \<and> nd_job n = Noop"
proof -
  have "ready_bits ready_empty \<le> MASK_4" "opt_bits opt_empty \<le> MASK_4"
    by (simp_all add: ready_empty_def opt_empty_def)
  from new_node[OF this, of None null_token 2] obtain st where st: "node_new None null_token ready_empty opt_empty 2 =
    Some \<lparr>nd_state = st, nd_token_0 = null_token, nd_token_1 = null_token, nd_token_2 = null_token,
       nd_next = None, nd_update_lock = False, nd_queue = None, nd_ref_count = 2, nd_job = Noop :: 'a job\<rparr>"
    "rs_view st = \<lparr>v_readiness = ready_empty, v_interest = ready_empty, v_opt = opt_empty, v_read_pos = 0,
      v_write_pos = 0, v_queued = False, v_dropped = False\<rparr>" .
  then show ?thesis
    using free alloc_inv[OF inv free] by (auto simp: registration_new2_def node_ok_def node_core_def Let_def)
qed

lemma new_inv:
  assumes inv: "reg_inv q cs H" and free: "rq_heap q (Node k) = None"
    and args: "ready_bits interest \<le> MASK_4" "opt_bits opt \<le> MASK_4"
  shows "\<exists>q'. registration_new q k tok interest opt = Some (Node k, q') \<and> reg_inv q' cs (H(k := 2))"
proof -
  from new_node[OF args, of "Some (rq_id q)" tok 3] obtain st where st: "node_new (Some (rq_id q)) tok interest opt 3 =
    Some \<lparr>nd_state = st, nd_token_0 = tok, nd_token_1 = null_token, nd_token_2 = null_token,
       nd_next = None, nd_update_lock = False, nd_queue = Some (rq_id q), nd_ref_count = 3, nd_job = Noop :: 'a job\<rparr>"
    "rs_view st = \<lparr>v_readiness = ready_empty, v_interest = interest, v_opt = opt, v_read_pos = 0,
      v_write_pos = 0, v_queued = False, v_dropped = False\<rparr>" .
  let ?n = "\<lparr>nd_state = st, nd_token_0 = tok, nd_token_1 = null_token, nd_token_2 = null_token,
       nd_next = None, nd_update_lock = False, nd_queue = Some (rq_id q), nd_ref_count = 3, nd_job = Noop :: 'a job\<rparr>"
  have "node_ok (rq_id q) False 2 ?n" using st by (simp add: node_ok_def node_core_def Let_def)
  from alloc_inv[OF inv free this] show ?thesis
    using free st by (simp add: registration_new_def reg_inv_def)
qed

end
