(* ===== verification/QueuePoll.thy ===== *)
theory QueuePoll
  imports Registration
begin

unbundle bit_operations_syntax

section \<open>Polling the readiness queue\<close>

text \<open>
  What \<open>ReadinessQueue::poll\<close> does with the nodes it finds: the loop of the theory
  ReadinessQueue is related to a walk over the list of queued nodes. Every node
  is visited at most once, the visited ones are reported, put back or released, and the
  invariant of the registrations is kept.
\<close>

subsection \<open>One node\<close>

text \<open>What the poller makes of a queued node: its readiness, whether it reports it, whether it
  puts the node back, and the job entry it reports.\<close>

definition node_effective :: "'j rnode \<Rightarrow> ready" where
  "node_effective n = rs_effective_readiness (nd_state n)"

definition node_reports :: "'j rnode \<Rightarrow> bool" where
  "node_reports n \<longleftrightarrow> \<not> rs_is_dropped (nd_state n) \<and> \<not> ready_is_empty (node_effective n)"

definition node_stays :: "'j rnode \<Rightarrow> bool" where
  "node_stays n \<longleftrightarrow> node_reports n \<and> \<not> opt_is_edge (rs_poll_opt (nd_state n))"

definition node_entry :: "'j rnode \<Rightarrow> 'j job_entry" where
  "node_entry n = \<lparr>je_token_entry = the (node_token n (rs_token_write_pos (nd_state n))),
     je_job = nd_job n, je_ready = ready_empty\<rparr>"

lemmas node_visit_defs = node_effective_def node_reports_def node_stays_def

lemma node_visit_next [simp]:
  "node_reports (n\<lparr>nd_next := x\<rparr>) = node_reports n" "node_stays (n\<lparr>nd_next := x\<rparr>) = node_stays n"
  "node_entry (n\<lparr>nd_next := x\<rparr>) = node_entry n"
  by (simp_all add: node_visit_defs node_entry_def)

lemma view_opt: "rs_poll_opt s = v_opt (rs_view s)"
  by (cases "rs_view s") (simp add: rs_view_def del: view_flags)

lemma transition_spec:
  assumes "v_queued (rs_view s)" "\<not> v_dropped (rs_view s)"
    and "e = rs_effective_readiness s" "stays = (\<not> opt_is_edge (rs_poll_opt s) \<and> \<not> ready_is_empty e)"
  shows "\<exists>nxt. poll_transition s = Some (Inr (nxt, e)) \<and> rs_view nxt = (rs_view s)
    \<lparr>v_read_pos := v_write_pos (rs_view s), v_queued := stays,
     v_interest := if opt_is_edge (v_opt (rs_view s)) \<and> opt_is_oneshot (v_opt (rs_view s)) \<and>
        \<not> ready_is_empty e then ready_empty else v_interest (rs_view s)\<rparr>"
  using assms
  by (cases "opt_is_edge (v_opt (rs_view s))"; cases "opt_is_oneshot (v_opt (rs_view s))";
      cases "ready_is_empty e") (simp_all add: poll_transition_def view_simps view_opt Let_def)

lemma node_core_dequeued:
  assumes "node_core i True n" "\<not> v_dropped (rs_view (nd_state n))"
    and "rs_view (nd_state n') = (rs_view (nd_state n))
      \<lparr>v_read_pos := v_write_pos (rs_view (nd_state n)), v_queued := node_stays n, v_interest := r\<rparr>"
    and "r = ready_empty \<or> r = v_interest (rs_view (nd_state n))"
    and "nd_update_lock n' = nd_update_lock n" "nd_queue n' = nd_queue n"
  shows "node_core i (node_stays n) n'"
proof -
  let ?v = "rs_view (nd_state n)"
  have st: "node_stays n \<longleftrightarrow> \<not> opt_is_edge (v_opt ?v) \<and> \<not> ready_is_empty (ready_bitand (v_readiness ?v) (v_interest ?v))"
    using assms(2) by (auto simp: node_visit_defs effective_view view_opt)
  have q: "nd_queue n = Some i" "\<not> nd_update_lock n" "v_write_pos ?v \<le> 2"
    using assms(1) unfolding node_core_def Let_def by blast+
  show ?thesis unfolding node_core_def Let_def assms(3,5,6)
    using q assms(2,4) st by auto
qed

text \<open>The queue gives back its hold on a dropped node.\<close>

lemma release_queue_inv:
  assumes repr: "rq_repr q cs" and nodes: "nodes_ok q (insert (Node k) (set cs)) H"
    and out: "Node k \<notin> set cs" and n: "rq_heap q (Node k) = Some n"
    and dropped: "v_dropped (rs_view (nd_state n))"
  shows "\<exists>q'. release_node q (Node k) = Some q' \<and> reg_inv q' cs H \<and>
    rq_heap q' = (rq_heap q)(Node k := if H k = 0 then None
       else Some (n\<lparr>nd_ref_count := nd_ref_count n - 1\<rparr>))"
proof -
  have ok: "node_ok (rq_id q) True (H k) n" using nodes_okD(3)[OF nodes n] by simp
  have ref: "unat (nd_ref_count n) = H k + 1" using node_ok_ref[OF ok] by blast
  have H: "H k \<le> 2 ^ 63" by (rule nodes_okD(1)[OF nodes])
  have one: "nd_ref_count n = 1 \<longleftrightarrow> H k = 0" unfolding ref_one ref by simp
  have "node_core (rq_id q) True n" using ok unfolding node_ok_def by blast
  then have core: "node_core (rq_id q) False n" using dropped unfolding node_core_def Let_def by blast
  have more: "node_ok (rq_id q) (Node k \<in> set cs) (H k) (n\<lparr>nd_ref_count := nd_ref_count n - 1\<rparr>) \<and> H k \<le> 2 ^ 63"
    if "nd_ref_count n \<noteq> 1"
  proof -
    have "0 < H k" using that one by simp
    moreover have "unat (nd_ref_count n - 1) = H k" using unat_sub_one[of "nd_ref_count n"] ref by simp
    ultimately show ?thesis using core dropped out H by (simp add: node_ok_def)
  qed
  have "\<exists>q'. release_node q (Node k) = Some q' \<and> rq_repr q' cs \<and> nodes_ok q' (set cs) (H(k := H k)) \<and>
    rq_heap q' = (rq_heap q)(Node k := if nd_ref_count n = 1 then None
       else Some (n\<lparr>nd_ref_count := nd_ref_count n - 1\<rparr>))"
    by (rule release_gen[OF repr n nodes]) (use out one more in auto)
  then show ?thesis using one by (auto simp: reg_inv_def)
qed

lemma node_ok_keep:
  assumes "node_ok i True h n" "\<not> v_dropped (rs_view (nd_state n'))" "node_core i b n'"
    "nd_queue n' = nd_queue n" "nd_ref_count n' = nd_ref_count n"
  shows "node_ok i b h n'"
proof -
  have "unat (nd_ref_count n) = h + 1" "0 < unat (nd_ref_count n)" using node_ok_ref[OF assms(1)] by blast+
  moreover have "node_core i True n" using assms(1) unfolding node_ok_def by blast
  then have "nd_queue n = Some i" unfolding node_core_def Let_def by blast
  ultimately show ?thesis unfolding node_ok_def using assms by simp
qed

lemma poll_node_inv:
  assumes repr: "rq_repr q cs" and nodes: "nodes_ok q (insert (Node k) (set cs)) H"
    and out: "Node k \<notin> set cs" and n: "rq_heap q (Node k) = Some n"
  shows "\<exists>q' dst'. poll_node q dst until (Node k) =
      Some (q', dst', if node_stays n \<and> until = None then Some (Node k) else until) \<and>
    reg_inv q' (if node_stays n then cs @ [Node k] else cs) H \<and>
    others_same q q' (Node k) \<and>
    (v_dropped (rs_view (nd_state n)) \<longrightarrow>
       map_option nd_state (rq_heap q' (Node k)) = (if H k = 0 then None else Some (nd_state n))) \<and>
    dst' = (if node_reports n
       then push_event dst (event_new (node_effective n) (je_token_entry (node_entry n))) (nd_job n) else dst)"
proof -
  let ?v = "rs_view (nd_state n)"
  have ok: "node_ok (rq_id q) True (H k) n" using nodes_okD(3)[OF nodes n] by simp
  then have core: "node_core (rq_id q) True n" unfolding node_ok_def by blast
  then have vq: "v_queued ?v" and wp: "v_write_pos ?v \<le> 2" unfolding node_core_def Let_def by blast+
  show ?thesis
  proof (cases "v_dropped ?v")
    case True
    from release_queue_inv[OF repr nodes out n True] obtain q'
      where q': "release_node q (Node k) = Some q'" "reg_inv q' cs H"
        "rq_heap q' = (rq_heap q)(Node k := if H k = 0 then None
          else Some (n\<lparr>nd_ref_count := nd_ref_count n - 1\<rparr>))" by blast
    have "poll_transition (nd_state n) = Some (Inl ())" using True vq by (simp add: poll_transition_def)
    then have "poll_node q dst until (Node k) = Some (q', dst, until)"
      using n q'(1) by (simp add: poll_node_def)
    moreover have "\<not> node_reports n" using True by (simp add: node_reports_def)
    ultimately show ?thesis using q' by (simp add: node_stays_def others_same_def same_node_def)
  next
    case live: False
    let ?e = "node_effective n"
    have st: "node_stays n = (\<not> opt_is_edge (rs_poll_opt (nd_state n)) \<and> \<not> ready_is_empty ?e)"
      and rep: "node_reports n = (\<not> ready_is_empty ?e)"
      using live by (auto simp: node_stays_def node_reports_def)
    define r where "r = (if opt_is_edge (v_opt ?v) \<and> opt_is_oneshot (v_opt ?v) \<and> \<not> ready_is_empty ?e
      then ready_empty else v_interest ?v)"
    obtain nxt where tr: "poll_transition (nd_state n) = Some (Inr (nxt, ?e))"
      and v: "rs_view nxt = ?v\<lparr>v_read_pos := v_write_pos ?v, v_queued := node_stays n, v_interest := r\<rparr>"
      using transition_spec[OF vq live node_effective_def st] unfolding r_def by blast
    have r: "r = ready_empty \<or> r = v_interest ?v" by (simp add: r_def)
    have pos: "rs_token_read_pos nxt = rs_token_write_pos (nd_state n)"
      using v view_pos[of nxt] view_pos[of "nd_state n"] by simp
    let ?n = "n\<lparr>nd_state := nxt\<rparr>"
    let ?q = "q\<lparr>rq_heap := (rq_heap q)(Node k \<mapsto> ?n)\<rparr>"
    have "node_core (rq_id q) (node_stays n) ?n"
      by (rule node_core_dequeued[OF core live _ r]) (simp_all add: v)
    then have okn: "node_ok (rq_id q) (node_stays n) (H k) ?n"
      by (intro node_ok_keep[OF ok]) (simp_all add: v live)
    have repr1: "rq_repr ?q cs" using out by (intro rq_repr_write[OF repr]) blast
    obtain q2 x where q2: "rq_heap q2 (Node k) = Some (?n\<lparr>nd_next := x\<rparr>)"
      "reg_inv q2 (if node_stays n then cs @ [Node k] else cs) H" "others_same ?q q2 (Node k)"
      and eq: "(if node_stays n then do { (_, q) \<leftarrow> enqueue_node ?q (Node k);
                                Some (q, if until = None then Some (Node k) else until) }
                      else Some (?q, until)) =
        Some (q2, if node_stays n \<and> until = None then Some (Node k) else until)"
    proof (cases "node_stays n")
      case False
      have "nodes_ok ?q (set cs) H"
        using okn False out by (intro nodes_ok_update[OF nodes]) auto
      then have "reg_inv ?q cs H" using repr1 by (simp add: reg_inv_def)
      then show ?thesis using that[of ?q "nd_next n"] False by simp
    next
      case True
      obtain w q1 where q1: "enqueue_node ?q (Node k) = Some (w, q1)" "rq_repr q1 (cs @ [Node k])" "same_nodes ?q q1"
        using enqueue_repr[OF repr1 out] by auto
      have "nodes_ok ?q (set (cs @ [Node k])) H"
        using okn True by (intro nodes_ok_update[OF nodes]) auto
      from nodes_ok_same[OF this q1(3)] have "reg_inv q1 (cs @ [Node k]) H" using q1(2) by (simp add: reg_inv_def)
      moreover have "\<exists>x. rq_heap q1 (Node k) = Some (?n\<lparr>nd_next := x\<rparr>)"
        by (rule same_node_Some[OF same_nodes_node[OF q1(3)]]) simp
      then obtain x where "rq_heap q1 (Node k) = Some (?n\<lparr>nd_next := x\<rparr>)" ..
      ultimately show ?thesis using that[of q1 x] others_same_nodes[OF q1(3), of "Node k"] q1(1) True by simp
    qed
    have keep: "others_same q q2 (Node k)" using q2(3) by simp
    show ?thesis
    proof (cases "node_reports n")
      case False
      then have "poll_node q dst until (Node k) =
          Some (q2, dst, if node_stays n \<and> until = None then Some (Node k) else until)"
        using n tr eq v rep by (simp add: poll_node_def node_modify_Some)
      then show ?thesis using q2(2) keep False live by auto
    next
      case True
      let ?q' = "q2\<lparr>rq_heap := (rq_heap q2)(Node k \<mapsto> ?n\<lparr>nd_next := x, nd_job := Noop\<rparr>)\<rparr>"
      obtain t where t: "node_token n (rs_token_write_pos (nd_state n)) = Some t"
        using node_token_Some wp view_pos(1) by metis
      have "poll_node q dst until (Node k) =
          Some (?q', push_event dst (event_new ?e t) (nd_job n), if node_stays n \<and> until = None then Some (Node k) else until)"
        using n tr eq v rep q2(1) True t pos by (simp add: poll_node_def node_modify_Some Let_def)
      moreover have "reg_inv ?q' (if node_stays n then cs @ [Node k] else cs) H"
        using reg_inv_node[OF q2(2) q2(1)] by (intro reg_inv_update[OF q2(2) q2(1)]) simp_all
      moreover have "others_same q ?q' (Node k)" using keep by (rule others_same_trans) simp
      ultimately show ?thesis using True t live by (simp add: node_entry_def)
    qed
  qed
qed

subsection \<open>The loop\<close>

text \<open>
  The walk: the nodes a poll visits when the list of queued nodes is \<open>as\<close> and there is room
  for \<open>m\<close> more entries. It stops in front of the first node for which there is no room.
\<close>

fun visited :: "(addr \<rightharpoonup> 'j rnode) \<Rightarrow> nat \<Rightarrow> addr list \<Rightarrow> addr list" where
  "visited h m [] = []"
| "visited h m (a # as) =
     (if m = 0 then []
      else a # visited h (if node_reports (the (h a)) then m - 1 else m) as)"

definition poll_entries :: "(addr \<rightharpoonup> 'j rnode) \<Rightarrow> addr list \<Rightarrow> 'j job_entry list" where
  "poll_entries h vs = map (\<lambda>a. node_entry (the (h a))) (filter (\<lambda>a. node_reports (the (h a))) vs)"

definition poll_kept :: "(addr \<rightharpoonup> 'j rnode) \<Rightarrow> addr list \<Rightarrow> addr list" where
  "poll_kept h vs = filter (\<lambda>a. node_stays (the (h a))) vs"

lemma poll_entries_Cons: "poll_entries h (a # vs) =
    (if node_reports (the (h a)) then [node_entry (the (h a))] else []) @ poll_entries h vs"
  by (simp add: poll_entries_def)

lemma poll_kept_Cons: "poll_kept h (a # vs) = (if node_stays (the (h a)) then [a] else []) @ poll_kept h vs"
  by (simp add: poll_kept_def)

lemma same_node_None: "same_node q q' a \<Longrightarrow> rq_heap q a = None \<Longrightarrow> rq_heap q' a = None"
  by (cases "rq_heap q' a") (auto simp: same_node_def)

lemma same_node_state: "same_node q q' a \<Longrightarrow> map_option nd_state (rq_heap q' a) = map_option nd_state (rq_heap q a)"
  by (cases "rq_heap q a"; cases "rq_heap q' a") (auto simp: same_node_def dest: arg_cong[of _ _ nd_state])

lemma same_node_visit:
  assumes "same_node q q' a" "rq_heap q a \<noteq> None"
  shows "node_reports (the (rq_heap q' a)) = node_reports (the (rq_heap q a))"
    "node_stays (the (rq_heap q' a)) = node_stays (the (rq_heap q a))"
    "node_entry (the (rq_heap q' a)) = node_entry (the (rq_heap q a))"
proof -
  obtain n where n: "rq_heap q a = Some n" using assms(2) by auto
  obtain x where "rq_heap q' a = Some (n\<lparr>nd_next := x\<rparr>)" using same_node_Some[OF assms(1) n] ..
  then show "node_reports (the (rq_heap q' a)) = node_reports (the (rq_heap q a))"
    "node_stays (the (rq_heap q' a)) = node_stays (the (rq_heap q a))"
    "node_entry (the (rq_heap q' a)) = node_entry (the (rq_heap q a))"
    using n by simp_all
qed

lemma visited_cong:
  assumes "\<And>a. a \<in> set as \<Longrightarrow> same_node q q' a \<and> rq_heap q a \<noteq> None"
  shows "visited (rq_heap q') m as = visited (rq_heap q) m as"
  using assms
proof (induction as arbitrary: m)
  case (Cons a as)
  then show ?case using same_node_visit[of q q' a] by simp
qed simp

lemma visited_subset: "set (visited h m as) \<subseteq> set as"
  by (induction as arbitrary: m) (auto split: if_splits)

lemma visited_take: "visited h m as = take (length (visited h m as)) as"
  by (induction as arbitrary: m) auto

lemma poll_lists_cong:
  assumes "\<And>a. a \<in> set vs \<Longrightarrow> same_node q q' a \<and> rq_heap q a \<noteq> None"
  shows "poll_entries (rq_heap q') vs = poll_entries (rq_heap q) vs"
    "poll_kept (rq_heap q') vs = poll_kept (rq_heap q) vs"
  using assms
proof (induction vs)
  case (Cons a vs)
  case 1 then show ?case using Cons same_node_visit[of q q' a] by (simp add: poll_entries_Cons)
  case 2 then show ?case using Cons same_node_visit[of q q' a] by (simp add: poll_kept_Cons)
qed (simp_all add: poll_entries_def poll_kept_def)

lemma events_room_push:
  assumes "events_len dst < events_capacity dst"
  shows "events_capacity (push_event dst ev j) - events_len (push_event dst ev j) =
      events_capacity dst - events_len dst - 1"
    and "events_capacity (push_event dst ev j) = events_capacity dst"
    and "evs_entries (push_event dst ev j) = evs_entries dst @
      [\<lparr>je_token_entry = ev_token ev, je_job = j, je_ready = ready_empty\<rparr>]"
  using assms by (simp_all add: push_event_def push_entry_def push_raw_def events_capacity_def events_len_def)

lemma poll_loop_inv:
  assumes "reg_inv q (as @ ws) H" and "until = (if ws = [] then None else Some (hd ws))"
    and "vs = visited (rq_heap q) (events_capacity dst - events_len dst) as"
  shows "\<exists>q' dst'. poll_loop q dst until = Some (q', dst') \<and>
    reg_inv q' (drop (length vs) as @ ws @ poll_kept (rq_heap q) vs) H \<and>
    evs_entries dst' = evs_entries dst @ poll_entries (rq_heap q) vs \<and>
    events_capacity dst' = events_capacity dst \<and>
    (\<forall>b. b \<notin> set vs \<longrightarrow> same_node q q' b) \<and>
    (\<forall>k n. Node k \<in> set vs \<and> rq_heap q (Node k) = Some n \<and> v_dropped (rs_view (nd_state n)) \<longrightarrow>
       map_option nd_state (rq_heap q' (Node k)) = (if H k = 0 then None else Some (nd_state n)))"
  using assms
proof (induction as arbitrary: q dst until ws vs)
  case Nil
  from dequeue_repr[of q ws until] Nil(1,2) obtain q' where
    "dequeue_node q until = Some (Empty, q')" "same_nodes q q'" "rq_repr q' ws"
    by (auto simp: reg_inv_def split: if_splits)
  moreover from this have "reg_inv q' ws H"
    using Nil(1) nodes_ok_same[of q "set ws" H q'] by (simp add: reg_inv_def)
  ultimately have "\<exists>q'. poll_loop q dst until = Some (q', dst) \<and> reg_inv q' ws H \<and> same_nodes q q'"
    using Nil(1) by (simp add: poll_loop.simps[of q dst until])
  then show ?case using Nil(3) same_nodes_node by (auto simp: poll_entries_def poll_kept_def)
next
  case (Cons a as)
  show ?case
  proof (cases "events_len dst < events_capacity dst")
    case False
    then have "poll_loop q dst until = Some (q, dst)" by (simp add: poll_loop.simps[of q dst until])
    then show ?thesis using Cons.prems(1,3) False by (auto simp: poll_entries_def poll_kept_def)
  next
    case room: True
    have repr: "rq_repr q (a # as @ ws)" and nodes: "nodes_ok q (insert a (set (as @ ws))) H"
      using Cons.prems(1) by (simp_all add: reg_inv_def)
    have dist: "distinct (a # as @ ws)" using rq_repr_distinct[OF repr] .
    obtain k where k: "a = Node k" using rq_repr_Node[OF repr, of a] by auto
    have "Some a \<noteq> until" using dist Cons.prems(2) by (cases ws) auto
    with dequeue_repr[OF repr, of until] obtain q1 where
      q1: "dequeue_node q until = Some (Data a, q1)" "same_nodes q q1" "rq_repr q1 (as @ ws)"
      by auto
    obtain n where n: "rq_heap q a = Some n" using rq_repr_alloc[OF repr, of a] by auto
    obtain x where n1: "rq_heap q1 a = Some (n\<lparr>nd_next := x\<rparr>)"
      using same_node_Some[OF same_nodes_node[OF q1(2)] n] ..
    have nodes1: "nodes_ok q1 (insert (Node k) (set (as @ ws))) H"
      using nodes_ok_same[OF nodes q1(2)] k by simp
    have out: "Node k \<notin> set (as @ ws)" using dist k by simp
    let ?until = "if node_stays n \<and> until = None then Some a else until"
    from poll_node_inv[OF q1(3) nodes1 out n1[unfolded k], of dst until]
    obtain q2 dst2 where q2: "poll_node q1 dst until a = Some (q2, dst2, ?until)"
      "reg_inv q2 (as @ (if node_stays n then ws @ [a] else ws)) H"
      "others_same q1 q2 a" "v_dropped (rs_view (nd_state n)) \<longrightarrow>
        map_option nd_state (rq_heap q2 a) = (if H k = 0 then None else Some (nd_state n))"
      and dst2: "dst2 = (if node_reports n then push_event dst (event_new (node_effective (n\<lparr>nd_next := x\<rparr>))
            (je_token_entry (node_entry n))) (nd_job n) else dst)"
      using k by (auto split: if_splits)
    have os: "others_same q q2 a" by (rule others_same_trans[OF others_same_nodes[OF q1(2)] q2(3)])
    have same: "same_node q q2 b \<and> rq_heap q b \<noteq> None" if "b \<in> set as" for b
    proof -
      have b: "b \<in> set (a # as @ ws)" using that by simp
      have "b \<noteq> a" using that dist by auto
      then have "same_node q q2 b" using os by (simp add: others_same_def)
      then show ?thesis using rq_repr_alloc[OF repr b] by blast
    qed
    let ?ws = "if node_stays n then ws @ [a] else ws"
    let ?vs = "visited (rq_heap q2) (events_capacity dst2 - events_len dst2) as"
    have until: "?until = (if ?ws = [] then None else Some (hd ?ws))"
      using Cons.prems(2) by (cases ws) auto
    from Cons.IH[OF q2(2) until, of ?vs dst2] obtain q' dst' where
      fin: "poll_loop q2 dst2 ?until = Some (q', dst')"
      "reg_inv q' (drop (length ?vs) as @ ?ws @ poll_kept (rq_heap q2) ?vs) H"
      "evs_entries dst' = evs_entries dst2 @ poll_entries (rq_heap q2) ?vs"
      "events_capacity dst' = events_capacity dst2"
      and fr: "\<And>b. b \<notin> set ?vs \<Longrightarrow> same_node q2 q' b"
      and gone: "\<And>k n. Node k \<in> set ?vs \<Longrightarrow> rq_heap q2 (Node k) = Some n \<Longrightarrow>
        v_dropped (rs_view (nd_state n)) \<Longrightarrow>
        map_option nd_state (rq_heap q' (Node k)) = (if H k = 0 then None else Some (nd_state n))" by metis
    have cap: "events_capacity dst2 = events_capacity dst"
      "events_capacity dst2 - events_len dst2 =
        (if node_reports n then events_capacity dst - events_len dst - 1 else events_capacity dst - events_len dst)"
      "evs_entries dst2 = evs_entries dst @ (if node_reports n then [node_entry n] else [])"
      using events_room_push[OF room] dst2 by (auto simp: event_new_def node_entry_def)
    have vs: "vs = a # ?vs"
      using Cons.prems(3) room n cap(2) visited_cong[OF same] by (simp add: diff_is_0_eq)
    have sub: "same_node q q2 b \<and> rq_heap q b \<noteq> None" if "b \<in> set ?vs" for b
      using that same visited_subset by blast
    have "poll_loop q dst until = poll_loop q2 dst2 ?until"
      using room q1(1) q2(1) by (simp add: poll_loop.simps[of q dst until])
    moreover have "poll_entries (rq_heap q) vs = (if node_reports n then [node_entry n] else []) @ poll_entries (rq_heap q2) ?vs"
      "poll_kept (rq_heap q) vs = (if node_stays n then [a] else []) @ poll_kept (rq_heap q2) ?vs"
      by (subst vs, use poll_lists_cong[of ?vs q q2, OF sub] n in \<open>simp add: poll_entries_Cons poll_kept_Cons\<close>)+
    moreover have "drop (length vs) (a # as) = drop (length ?vs) as" by (subst vs) simp
    moreover have "same_node q q' b" if "b \<notin> set vs" for b
    proof -
      have "b \<noteq> a" "b \<notin> set ?vs" using that by (subst (asm) vs, simp)+
      then show ?thesis using same_node_trans[OF _ fr] os by (simp add: others_same_def)
    qed
    moreover have "map_option nd_state (rq_heap q' (Node i)) = (if H i = 0 then None else Some (nd_state m))"
      if vi: "Node i \<in> set vs" and hi: "rq_heap q (Node i) = Some m" and di: "v_dropped (rs_view (nd_state m))" for i m
    proof (cases "i = k")
      case True
      have "a \<notin> set ?vs" using dist visited_subset by fastforce
      moreover have "map_option nd_state (rq_heap q2 a) = (if H i = 0 then None else Some (nd_state m))"
        using q2(4) hi di n k True by simp
      ultimately show ?thesis using same_node_state[OF fr[of a]] k True by simp
    next
      case False
      then have i: "Node i \<in> set ?vs" using vi k by (subst (asm) vs) simp
      obtain x where "rq_heap q2 (Node i) = Some (m\<lparr>nd_next := x\<rparr>)"
        using same_node_Some[of q q2 "Node i" m] sub[OF i] hi by blast
      then show ?thesis using gone[OF i] di by simp
    qed
    moreover have "?ws @ r = ws @ (if node_stays n then [a] else []) @ r" for r by simp
    ultimately show ?thesis using fin cap(1,3)
      by (intro exI[of _ q'] exI[of _ dst']) (simp only: append.assoc simp_thms, blast)
  qed
qed

lemma clear_repr:
  assumes "rq_repr q cs"
  shows "\<exists>q'. clear_sleep_marker q = Some q' \<and> same_nodes q q' \<and> rq_repr q' cs"
proof -
  obtain xs where xs: "queue_inv q xs" "queue_nodes xs = cs" using assms by (auto simp: rq_repr_def)
  have "queue_nodes (if xs = [SleepMarker] then [EndMarker] else xs) = cs" using xs(2) by auto
  with clear_sleep_marker_spec[OF xs(1)] show ?thesis unfolding rq_repr_def by blast
qed

lemma rqueue_poll_inv:
  assumes inv: "reg_inv q cs H"
    and vs: "vs = visited (rq_heap q) (events_capacity dst - events_len dst) cs"
  shows "\<exists>q' dst'. rqueue_poll q dst = Some (q', dst') \<and>
    reg_inv q' (drop (length vs) cs @ poll_kept (rq_heap q) vs) H \<and>
    evs_entries dst' = evs_entries dst @ poll_entries (rq_heap q) vs \<and>
    events_capacity dst' = events_capacity dst \<and>
    (\<forall>b. b \<notin> set vs \<longrightarrow> same_node q q' b) \<and>
    (\<forall>k n. Node k \<in> set vs \<and> rq_heap q (Node k) = Some n \<and> v_dropped (rs_view (nd_state n)) \<longrightarrow>
       map_option nd_state (rq_heap q' (Node k)) = (if H k = 0 then None else Some (nd_state n)))"
proof (cases "events_len dst = events_capacity dst")
  case True
  obtain q' where q': "clear_sleep_marker q = Some q'" "same_nodes q q'" "rq_repr q' cs"
    using clear_repr inv by (auto simp: reg_inv_def)
  have "reg_inv q' cs H" using q'(2,3) inv nodes_ok_same by (auto simp: reg_inv_def)
  moreover have "rqueue_poll q dst = Some (q', dst)"
    using q'(1) True by (simp add: rqueue_poll_def poll_loop.simps[of q' dst None])
  moreover have "vs = []" using vs True by (cases cs) simp_all
  ultimately show ?thesis using same_nodes_node[OF q'(2)] by (auto simp: poll_entries_def poll_kept_def)
next
  case False
  then show ?thesis using poll_loop_inv[of q cs "[]" H None vs dst] inv vs
    by (simp add: rqueue_poll_def)
qed

text \<open>With room for all of them, every queued node is visited.\<close>

lemma visited_all: "length as \<le> m \<Longrightarrow> visited h m as = as"
  by (induction as arbitrary: m) auto

subsection \<open>A job for the event loop\<close>

text \<open>
  \<open>enqueue_job\<close> of \<open>src/net/event_loop.rs\<close>, for a poller given by its readiness queue: a fresh
  registration is made ready and then registered with the job. The closure that holds both
  handles is the job \<open>j\<close>. A failed registration is a panic, as is a failed write to the
  awakener's pipe.
\<close>

definition enqueue_job ::
    "'p pipe_ops \<Rightarrow> ('j, 'p) rqueue \<Rightarrow> nat \<Rightarrow> 'j job \<Rightarrow> ('j, 'p) rqueue option" where
  "enqueue_job P q k j =
     do { (a, q) \<leftarrow> registration_new2 q k;
          (r, q) \<leftarrow> reg_set_readiness P q a ready_readable;
          case r of
            Inl _ \<Rightarrow> None
          | Inr _ \<Rightarrow>
              do { (r, q) \<leftarrow> reg_update P q a \<lparr>ttype = OtherEvent, te_token = Token 0\<rparr>
                     ready_readable opt_edge j;
                   case r of Inl _ \<Rightarrow> None | Inr _ \<Rightarrow> Some q } }"

lemma ready_readable_fits [simp]: "ready_bits ready_readable \<le> MASK_4" "opt_bits opt_edge \<le> MASK_4"
  by (simp_all add: ready_readable_def READABLE_def MASK_4_def opt_edge_def)

lemma ready_readable_self [simp]: "ready_bitand ready_readable ready_readable = ready_readable"
  "\<not> ready_is_empty ready_readable"
  by (simp_all add: ready_bitand_def ready_readable_def ready_is_empty_def ready_empty_def READABLE_def)

lemma opt_edge_self [simp]: "opt_is_edge opt_edge" "\<not> opt_is_oneshot opt_edge"
  by (simp_all add: opt_is_edge_def opt_is_oneshot_def opt_contains_def opt_bitand_def opt_edge_def opt_oneshot_def)

text \<open>The node of a one-edge registration that is ready: reported once, with its job, and not kept.\<close>

lemma ready_edge_node:
  assumes "rs_view (nd_state n) = v" "v_readiness v = ready_readable" "v_interest v = ready_readable"
    "v_opt v = opt_edge" "\<not> v_dropped v" "node_token n (v_write_pos v) = Some tok"
  shows "node_reports n" "\<not> node_stays n"
    "node_entry n = \<lparr>je_token_entry = tok, je_job = nd_job n, je_ready = ready_empty\<rparr>"
  using assms by (simp_all add: node_visit_defs effective_view view_opt node_entry_def view_pos flip: view_pos)

definition pipe_accepts :: "'p pipe_ops \<Rightarrow> bool" where
  "pipe_accepts P \<longleftrightarrow> (\<forall>p. fst (aw_wakeup P p) = Inr ())"

lemma wakeup_accepted:
  "pipe_accepts P \<Longrightarrow> enqueue_node_with_wakeup P q a = Some (r, q') \<Longrightarrow> r = Inr ()"
  by (cases "aw_wakeup P (rq_pipe (snd (the (enqueue_node q a))))")
    (auto simp: enqueue_node_with_wakeup_def rq_wakeup_def pipe_accepts_def bind_Some_iff
      split: if_splits prod.splits, metis fst_conv)

lemma update_node_accepted:
  assumes "pipe_accepts P" "reg_update_node P q a tok i opt job = Some (r, q')"
  shows "r = Inr ()"
  using assms(2) wakeup_accepted[OF assms(1)]
  by (auto simp: reg_update_node_def bind_Some_iff Let_def split: if_splits prod.splits)

lemma update_accepted:
  assumes "pipe_accepts P" "reg_update P q a tok i opt job = Some (r, q')"
  shows "r = Inr () \<or> r = Inl other_poll_error"
proof -
  obtain n where n: "rq_heap q a = Some n" using assms(2) by (auto simp: reg_update_def bind_Some_iff)
  show ?thesis
    using assms(2) n update_node_accepted[OF assms(1)]
    by (cases "nd_queue n") (auto simp: reg_update_def node_modify_Some Let_def split: if_splits)
qed

lemma enqueue_job_inv:
  assumes inv: "reg_inv q cs H" and free: "rq_heap q (Node k) = None" and P: "pipe_accepts P"
  shows "\<exists>q1 n. enqueue_job P q k j = Some q1 \<and> reg_inv q1 (cs @ [Node k]) (H(k := 2)) \<and>
    others_same q q1 (Node k) \<and> rq_heap q1 (Node k) = Some n \<and> node_reports n \<and> \<not> node_stays n \<and>
    node_entry n = \<lparr>je_token_entry = \<lparr>ttype = OtherEvent, te_token = Token 0\<rparr>, je_job = j,
      je_ready = ready_empty\<rparr>"
proof -
  obtain qa na where a: "registration_new2 q k = Some (Node k, qa)" "reg_inv qa cs (H(k := 2))"
    "rq_heap qa = (rq_heap q)(Node k \<mapsto> na)" "rs_view (nd_state na) =
       \<lparr>v_readiness = ready_empty, v_interest = ready_empty, v_opt = opt_empty, v_read_pos = 0,
      v_write_pos = 0, v_queued = False, v_dropped = False\<rparr>" "nd_queue na = None"
    using new2_inv[OF inv free] by blast
  have na: "rq_heap qa (Node k) = Some na" by (simp add: a(3))
  have out: "Node k \<notin> set cs"
    using reg_inv_node[OF a(2) na] a(4,5) by (auto simp: node_ok_def node_core_def Let_def)
  obtain rb qb nb where b: "reg_set_readiness P qa (Node k) ready_readable = Some (rb, qb)"
    "reg_inv qb cs (H(k := 2))" "rq_heap qb (Node k) = Some nb" "rs_view (nd_state nb) =
       (rs_view (nd_state na))\<lparr>v_readiness := ready_readable\<rparr>" "nb = na\<lparr>nd_state := nd_state nb, nd_next := nd_next nb\<rparr>" "others_same qa qb (Node k)"
    using set_readiness_inv[OF a(2) na ready_readable_fits(1), of P] a(4) by auto
  have qb: "nd_queue nb = None" using arg_cong[OF b(5), of nd_queue] a(5) by simp
  have rb: "rb = Inr ()"
    using b(1) na a(4) by (auto simp: reg_set_readiness_def view_simps effective_view bind_Some_iff node_modify_Some)
  have fits: "ready_bits ready_readable \<le> MASK_4" "opt_bits opt_edge \<le> MASK_4" by simp_all
  have live: "\<not> v_dropped (rs_view (nd_state nb))" using b(4) a(4) by simp
  from update_inv[OF b(2,3) live fits refl, of P "\<lparr>ttype = OtherEvent, te_token = Token 0\<rparr>" j]
  obtain rc qc nc where c: "reg_update P qb (Node k) \<lparr>ttype = OtherEvent, te_token = Token 0\<rparr>
      ready_readable opt_edge j = Some (rc, qc)" "reg_inv qc (cs @ [Node k]) (H(k := 2))"
    "rq_heap qc (Node k) = Some nc" "node_token nc (v_write_pos (rs_view (nd_state nc))) = Some \<lparr>ttype = OtherEvent, te_token = Token 0\<rparr>"
    "nd_job nc = j" "v_readiness (rs_view (nd_state nc)) = ready_readable"
    "v_interest (rs_view (nd_state nc)) = ready_readable" "v_opt (rs_view (nd_state nc)) = opt_edge"
    "\<not> v_dropped (rs_view (nd_state nc))" "others_same qb qc (Node k)"
    using b(4) a(4) out by auto
  have "rc = Inr ()"
    using c(1) b(3) qb update_node_accepted[OF P]
    by (auto simp: reg_update_def node_modify_Some Let_def)
  then have "enqueue_job P q k j = Some qc" using a(1) b(1) rb c(1) by (simp add: enqueue_job_def)
  moreover have "others_same q qa (Node k)" using a(3) by (simp add: others_same_def same_node_def)
  then have "others_same q qc (Node k)" using others_same_trans b(6) c(10) by blast
  ultimately show ?thesis
    using c ready_edge_node[OF refl c(6-9,4)] by auto
qed

subsection \<open>Properties\<close>

lemma poll_lists_others:
  assumes "reg_inv q cs H" "others_same q q' a" "a \<notin> set cs"
  shows "poll_entries (rq_heap q') cs = poll_entries (rq_heap q) cs"
    "poll_kept (rq_heap q') cs = poll_kept (rq_heap q) cs"
proof -
  have "same_node q q' b \<and> rq_heap q b \<noteq> None" if "b \<in> set cs" for b
    using that assms rq_repr_alloc[of q cs b] by (auto simp: reg_inv_def others_same_def)
  from poll_lists_cong[OF this] show "poll_entries (rq_heap q') cs = poll_entries (rq_heap q) cs"
    "poll_kept (rq_heap q') cs = poll_kept (rq_heap q) cs" by simp_all
qed


text \<open>A queue that holds the jobs \<open>js\<close>, each given to \<open>enqueue_job\<close>, and nothing else, in a finite heap.\<close>

definition job_node_entry :: "'j job \<Rightarrow> 'j job_entry" where
  "job_node_entry j = \<lparr>je_token_entry = \<lparr>ttype = OtherEvent, te_token = Token 0\<rparr>, je_job = j, je_ready = ready_empty\<rparr>"

definition queued :: "('j, 'p) rqueue \<Rightarrow> 'j job list \<Rightarrow> bool" where
  "queued q js \<longleftrightarrow> (\<exists>cs H. reg_inv q cs H \<and> length cs = length js \<and>
     poll_entries (rq_heap q) cs = map job_node_entry js \<and> poll_kept (rq_heap q) cs = []) \<and> finite (dom (rq_heap q))"

lemma finite_heap:
  assumes "finite (dom (rq_heap q))" and "finite A" and "\<And>b. b \<notin> A \<Longrightarrow> same_node q q' b"
  shows "finite (dom (rq_heap q'))"
proof -
  have "dom (rq_heap q') \<subseteq> dom (rq_heap q) \<union> A"
  proof
    fix b assume "b \<in> dom (rq_heap q')"
    then show "b \<in> dom (rq_heap q) \<union> A" using same_node_None[OF assms(3)[of b]] by (cases "b \<in> A"; cases "rq_heap q b") auto
  qed
  then show ?thesis using assms(1,2) by (meson finite_UnI finite_subset)
qed

lemma queued_empty: "reg_inv q [] H \<Longrightarrow> finite (dom (rq_heap q)) \<Longrightarrow> queued q []"
  unfolding queued_def by (rule conjI, rule exI[of _ "[]"], rule exI[of _ H]) (simp_all add: poll_entries_def poll_kept_def)

lemma enqueue_queued:
  assumes q: "queued q js" and free: "rq_heap q (Node k) = None" and P: "pipe_accepts P"
  shows "\<exists>q1. enqueue_job P q k j = Some q1 \<and> queued q1 (js @ [j])"
proof -
  obtain cs H where cs: "reg_inv q cs H" "length cs = length js" "poll_entries (rq_heap q) cs = map job_node_entry js"
    "poll_kept (rq_heap q) cs = []" using q unfolding queued_def by blast
  obtain q1 n where q1: "enqueue_job P q k j = Some q1" "reg_inv q1 (cs @ [Node k]) (H(k := 2))"
    "others_same q q1 (Node k)" "rq_heap q1 (Node k) = Some n" "node_reports n" "\<not> node_stays n" "node_entry n = job_node_entry j"
    using enqueue_job_inv[OF cs(1) free P] unfolding job_node_entry_def by blast
  have "Node k \<notin> set cs" using cs(1) free rq_repr_alloc[of q cs "Node k"] by (auto simp: reg_inv_def)
  note l = poll_lists_others[OF cs(1) q1(3) this]
  have "poll_entries (rq_heap q1) (cs @ [Node k]) = map job_node_entry (js @ [j])" "poll_kept (rq_heap q1) (cs @ [Node k]) = []"
    using l q1(4-7) cs(3,4) by (simp_all add: poll_entries_def poll_kept_def)
  moreover have "finite (dom (rq_heap q1))"
    using finite_heap[of q "{Node k}" q1] q q1(3) by (simp add: queued_def others_same_def)
  ultimately have "queued q1 (js @ [j])"
    unfolding queued_def using q1(2) cs(2) by (intro conjI) (rule exI[of _ "cs @ [Node k]"], rule exI[of _ "H(k := 2)"], simp)
  then show ?thesis using q1(1) by blast
qed
text \<open>C21. A poll returns, whatever the queue holds. It visits the queued nodes in their order,
  each at most once, until the events are full; reports for each one that is ready its
  current token and its job; puts back behind the others exactly the ready nodes that are
  not edge-triggered; and touches no node it has not visited.\<close>

theorem rqueue_poll_visits:
  assumes "reg_inv q cs H" and "vs = visited (rq_heap q) (events_capacity dst - events_len dst) cs"
  shows "\<exists>q' dst'. rqueue_poll q dst = Some (q', dst') \<and>
    reg_inv q' (drop (length vs) cs @ poll_kept (rq_heap q) vs) H \<and>
    evs_entries dst' = evs_entries dst @ poll_entries (rq_heap q) vs \<and>
    (\<forall>b. b \<notin> set vs \<longrightarrow> same_node q q' b)"
  using rqueue_poll_inv[OF assms] by blast

text \<open>A job given to \<open>enqueue_job\<close> is dispatched by the next poll that has room for it, once:
  the poll reports what was queued before and then the job, and the job's registration is
  no longer queued.\<close>

theorem enqueue_job_once:
  assumes "reg_inv q cs H" and "rq_heap q (Node k) = None" and "pipe_accepts P"
    and "length cs < events_capacity dst - events_len dst"
  shows "\<exists>q1 q2 dst2. enqueue_job P q k j = Some q1 \<and> reg_inv q1 (cs @ [Node k]) (H(k := 2)) \<and>
    rqueue_poll q1 dst = Some (q2, dst2) \<and>
    evs_entries dst2 = evs_entries dst @ poll_entries (rq_heap q) cs @
      [\<lparr>je_token_entry = \<lparr>ttype = OtherEvent, te_token = Token 0\<rparr>, je_job = j, je_ready = ready_empty\<rparr>] \<and>
    reg_inv q2 (poll_kept (rq_heap q) cs) (H(k := 2))"
proof -
  obtain q1 n where q1: "enqueue_job P q k j = Some q1" "reg_inv q1 (cs @ [Node k]) (H(k := 2))"
    "others_same q q1 (Node k)" "rq_heap q1 (Node k) = Some n" "node_reports n" "\<not> node_stays n"
    "node_entry n = \<lparr>je_token_entry = \<lparr>ttype = OtherEvent, te_token = Token 0\<rparr>, je_job = j, je_ready = ready_empty\<rparr>"
    using enqueue_job_inv[OF assms(1-3)] by blast
  have "Node k \<notin> set cs" using assms(1,2) rq_repr_alloc[of q cs "Node k"] by (auto simp: reg_inv_def)
  note l = poll_lists_others[OF assms(1) q1(3) this]
  have v: "visited (rq_heap q1) (events_capacity dst - events_len dst) (cs @ [Node k]) = cs @ [Node k]"
    using assms(4) by (intro visited_all) simp
  have "poll_entries (rq_heap q1) (cs @ [Node k]) = poll_entries (rq_heap q) cs @ [node_entry n]"
    "poll_kept (rq_heap q1) (cs @ [Node k]) = poll_kept (rq_heap q) cs"
    using l q1(4-6) by (simp_all add: poll_entries_def poll_kept_def)
  with rqueue_poll_inv[OF q1(2) refl, of dst, unfolded v] q1(1,2,7) show ?thesis by auto
qed

text \<open>A dropped node that no handle refers to.\<close>

lemma poll_frees:
  assumes inv: "reg_inv q cs H" and h: "H k = 0" and dr: "\<forall>n. rq_heap q (Node k) = Some n \<longrightarrow> v_dropped (rs_view (nd_state n))"
    and room: "length cs \<le> events_capacity dst - events_len dst"
  shows "Node k \<notin> set cs \<Longrightarrow> rq_heap q (Node k) = None"
    and "\<exists>q2 dst2. rqueue_poll q dst = Some (q2, dst2) \<and> rq_heap q2 (Node k) = None"
proof -
  have inq: "Node k \<in> set cs" if "rq_heap q (Node k) = Some n'" for n'
  proof (rule ccontr)
    assume "Node k \<notin> set cs"
    then have "unat (nd_ref_count n') = 0"
      using node_ok_ref[OF reg_inv_node[OF inv that]] dr that h by simp
    then show False using node_ok_ref[OF reg_inv_node[OF inv that]] by linarith
  qed
  then show "Node k \<notin> set cs \<Longrightarrow> rq_heap q (Node k) = None" by (cases "rq_heap q (Node k)") auto
  have v: "visited (rq_heap q) (events_capacity dst - events_len dst) cs = cs"
    using room by (rule visited_all)
  obtain q2 dst2 where q2: "rqueue_poll q dst = Some (q2, dst2)"
    "\<forall>b. b \<notin> set cs \<longrightarrow> same_node q q2 b"
    "\<forall>k n. Node k \<in> set cs \<and> rq_heap q (Node k) = Some n \<and> v_dropped (rs_view (nd_state n)) \<longrightarrow>
       map_option nd_state (rq_heap q2 (Node k)) = (if H k = 0 then None else Some (nd_state n))"
    using rqueue_poll_inv[OF inv refl, of dst, unfolded v] by blast
  have "rq_heap q2 (Node k) = None"
  proof (cases "rq_heap q (Node k)")
    case None
    then have "Node k \<notin> set cs" using inv rq_repr_alloc[of q cs "Node k"] by (auto simp: reg_inv_def)
    then have "same_node q q2 (Node k)" using q2(2) by blast
    then show ?thesis using same_node_None None by blast
  next
    case (Some n')
    then have "map_option nd_state (rq_heap q2 (Node k)) = (if H k = 0 then None else Some (nd_state n'))"
      using q2(3) inq dr by blast
    then show ?thesis using h by simp
  qed
  then show "\<exists>q2 dst2. rqueue_poll q dst = Some (q2, dst2) \<and> rq_heap q2 (Node k) = None" using q2(1) by blast
qed

text \<open>C34. No node is leaked. When the last handle on a node is dropped, a poll with room frees it. While the
  registration is there it is the last: it flags the node as dropped and puts it in the queue, whose poll frees it; a node that was
  never registered is freed at once. When the registration has been dropped before, the last handle is
  a \<open>SetReadiness\<close>: it frees the node at once, unless the node still waits in the queue for the poll to do so.\<close>

theorem dropped_node_is_freed:
  assumes "reg_inv q cs H" and "rq_heap q (Node k) = Some n" and "H k = 1"
    and "length cs < events_capacity dst - events_len dst"
  shows "(\<not> rs_is_dropped (nd_state n) \<longrightarrow>
      (\<exists>q1 q2 dst2. registration_drop P q (Node k) = Some q1 \<and>
        rqueue_poll q1 dst = Some (q2, dst2) \<and> rq_heap q2 (Node k) = None \<and>
        (nd_queue n = None \<longrightarrow> rq_heap q1 (Node k) = None))) \<and>
    (rs_is_dropped (nd_state n) \<longrightarrow>
      (\<exists>q1 q2 dst2. set_readiness_drop q (Node k) = Some q1 \<and>
        rqueue_poll q1 dst = Some (q2, dst2) \<and> rq_heap q2 (Node k) = None \<and>
        (Node k \<notin> set cs \<longrightarrow> rq_heap q1 (Node k) = None)))"
proof (intro conjI impI)
  assume "\<not> rs_is_dropped (nd_state n)"
  then have live: "\<not> v_dropped (rs_view (nd_state n))" by simp
  define cs1 where "cs1 = (if Node k \<in> set cs \<or> nd_queue n = None then cs else cs @ [Node k])"
  obtain q1 where q1: "registration_drop P q (Node k) = Some q1" "reg_inv q1 cs1 (H(k := H k - 1))"
    "\<forall>n'. rq_heap q1 (Node k) = Some n' \<longrightarrow> v_dropped (rs_view (nd_state n'))"
    using registration_drop_inv[OF assms(1,2) _ live] assms(3) unfolding cs1_def by (metis less_one)
  have room: "length cs1 \<le> events_capacity dst - events_len dst" using assms(4) by (simp add: cs1_def)
  have "(H(k := H k - 1)) k = 0" using assms(3) by simp
  note f = poll_frees[OF q1(2) this q1(3) room]
  have "Node k \<notin> set cs1" if "nd_queue n = None"
    using that node_ok_live[OF live] reg_inv_node[OF assms(1,2)] by (simp add: cs1_def Let_def)
  then show "\<exists>q1 q2 dst2. registration_drop P q (Node k) = Some q1 \<and>
      rqueue_poll q1 dst = Some (q2, dst2) \<and> rq_heap q2 (Node k) = None \<and>
      (nd_queue n = None \<longrightarrow> rq_heap q1 (Node k) = None)"
    using q1(1) f by (metis (no_types, lifting))
next
  assume "rs_is_dropped (nd_state n)"
  then have dr: "v_dropped (rs_view (nd_state n))" by simp
  have "0 < H k" using assms(3) by simp
  from release_handle_inv[OF assms(1) this] obtain q1 where
    r: "release_node q (Node k) = Some q1" "reg_inv q1 cs (H(k := H k - 1))"
    "\<forall>n'. rq_heap q1 (Node k) = Some n' \<longrightarrow> (\<exists>n. rq_heap q (Node k) = Some n \<and> nd_state n' = nd_state n)" by blast
  have "\<forall>n'. rq_heap q1 (Node k) = Some n' \<longrightarrow> v_dropped (rs_view (nd_state n'))"
    using r(3) dr assms(2) by (metis option.inject)
  then have q1: "set_readiness_drop q (Node k) = Some q1" "reg_inv q1 cs (H(k := H k - 1))"
    "\<forall>n'. rq_heap q1 (Node k) = Some n' \<longrightarrow> v_dropped (rs_view (nd_state n'))"
    using r(1,2) by (simp_all add: set_readiness_drop_def)
  have "(H(k := H k - 1)) k = 0" using assms(3) by simp
  note f = poll_frees[OF q1(2) this q1(3) less_imp_le[OF assms(4)]]
  obtain q2 dst2 where "rqueue_poll q1 dst = Some (q2, dst2)" "rq_heap q2 (Node k) = None" using f(2) by blast
  then show "\<exists>q1 q2 dst2. set_readiness_drop q (Node k) = Some q1 \<and>
      rqueue_poll q1 dst = Some (q2, dst2) \<and> rq_heap q2 (Node k) = None \<and>
      (Node k \<notin> set cs \<longrightarrow> rq_heap q1 (Node k) = None)"
    using q1(1) f(1) by (intro exI[of _ q1] exI[of _ q2] exI[of _ dst2]) simp
qed

text \<open>\<open>set_readiness\<close> never panics on a live node: it stores the readiness, queues the node
  exactly when the readiness meets the registered interest and the node is not queued yet,
  leaves every other node alone, and does nothing once the registration is dropped.\<close>

theorem set_readiness_queues:
  assumes "reg_inv q cs H" and "rq_heap q (Node k) = Some n" and "ready_bits r \<le> MASK_4"
  shows "\<exists>res q' cs'. reg_set_readiness P q (Node k) r = Some (res, q') \<and> reg_inv q' cs' H \<and>
    others_same q q' (Node k) \<and>
    (if rs_is_dropped (nd_state n) then q' = q \<and> cs' = cs
     else reg_readiness q' (Node k) = Some r \<and>
       cs' = (if ready_is_empty (ready_bitand r (rs_interest (nd_state n))) \<or> Node k \<in> set cs
              then cs else cs @ [Node k]))"
proof -
  have i: "rs_interest (nd_state n) = v_interest (rs_view (nd_state n))"
    by (simp add: rs_view_def del: view_flags)
  have r: "rs_readiness s = v_readiness (rs_view s)" for s by (simp add: rs_view_def del: view_flags)
  obtain res q' cs' where a: "reg_set_readiness P q (Node k) r = Some (res, q')" "reg_inv q' cs' H"
    "others_same q q' (Node k)" and b: "if v_dropped (rs_view (nd_state n)) then q' = q \<and> cs' = cs
     else let e = ready_bitand r (v_interest (rs_view (nd_state n))) in
       (\<exists>n'. rq_heap q' (Node k) = Some n' \<and> rs_view (nd_state n') = (rs_view (nd_state n))
           \<lparr>v_readiness := r, v_queued := v_queued (rs_view (nd_state n)) \<or> \<not> ready_is_empty e\<rparr> \<and>
           n' = n\<lparr>nd_state := nd_state n', nd_next := nd_next n'\<rparr>) \<and>
       cs' = (if ready_is_empty e \<or> Node k \<in> set cs then cs else cs @ [Node k])"
    using set_readiness_inv[OF assms, of P] by blast
  show ?thesis
    by (intro exI[of _ res] exI[of _ q'] exI[of _ cs'] conjI a)
      (use b in \<open>auto simp: i r reg_readiness_def Let_def split: if_splits\<close>)
qed

text \<open>\<open>update\<close> never panics on a live node with arguments that fit: it stores interest,
  options and token, where the next report will read it, and queues the node, with the given
  job, exactly when it is ready and not queued yet. Otherwise the job is dropped and the
  node keeps the one it had.\<close>

theorem update_registers:
  assumes "reg_inv q cs H" and "rq_heap q (Node k) = Some n" and "\<not> rs_is_dropped (nd_state n)"
    and "ready_bits interest \<le> MASK_4" and "opt_bits opt \<le> MASK_4"
  shows "\<exists>res q' cs' n'. reg_update P q (Node k) tok interest opt job = Some (res, q') \<and>
    reg_inv q' cs' H \<and> others_same q q' (Node k) \<and> rq_heap q' (Node k) = Some n' \<and>
    rs_interest (nd_state n') = interest \<and> rs_poll_opt (nd_state n') = opt \<and>
    rs_readiness (nd_state n') = rs_readiness (nd_state n) \<and>
    node_token n' (rs_token_write_pos (nd_state n')) = Some tok \<and>
    (if ready_is_empty (rs_effective_readiness (nd_state n')) \<or> Node k \<in> set cs
     then cs' = cs \<and> nd_job n' = nd_job n else cs' = cs @ [Node k] \<and> nd_job n' = job)"
proof -
  have i: "rs_interest s = v_interest (rs_view s)" "rs_readiness s = v_readiness (rs_view s)"
    "rs_poll_opt s = v_opt (rs_view s)" for s
    by (simp_all add: rs_view_def del: view_flags)
  have live: "\<not> v_dropped (rs_view (nd_state n))" using assms(3) by simp
  obtain res q' cs' n' where a: "reg_update P q (Node k) tok interest opt job = Some (res, q')"
    "reg_inv q' cs' H" "others_same q q' (Node k)" "rq_heap q' (Node k) = Some n'"
    and v: "rs_view (nd_state n') = (rs_view (nd_state n))\<lparr>v_write_pos := tok_pos n tok, v_interest := interest,
       v_opt := opt, v_queued := v_queued (rs_view (nd_state n)) \<or>
         \<not> ready_is_empty (ready_bitand (v_readiness (rs_view (nd_state n))) interest)\<rparr>"
    and b: "node_token n' (tok_pos n tok) = Some tok"
      "cs' = (if ready_is_empty (ready_bitand (v_readiness (rs_view (nd_state n))) interest) \<or> Node k \<in> set cs
         then cs else cs @ [Node k])"
      "nd_job n' = (if ready_is_empty (ready_bitand (v_readiness (rs_view (nd_state n))) interest) \<or> Node k \<in> set cs
         then nd_job n else job)"
    using update_inv[OF assms(1,2) live assms(4,5) refl, of P tok job] by blast
  show ?thesis
    by (intro exI[of _ res] exI[of _ q'] exI[of _ cs'] exI[of _ n'] conjI a)
      (use b in \<open>simp_all add: i v effective_view flip: view_pos\<close>)
qed

text \<open>Registering before becoming ready loses the job: after a registration for readability
  with a job, and then readiness, the poll dispatches the empty job.\<close>

theorem job_lost_if_registered_first:
  assumes "reg_inv q cs H" and "rq_heap q (Node k) = None"
    and "length cs < events_capacity dst - events_len dst"
  shows "\<exists>q0 r1 q1 r2 q2 q3 dst3. registration_new2 q k = Some (Node k, q0) \<and>
    reg_update P q0 (Node k) tok ready_readable opt_edge (Job j) = Some (r1, q1) \<and>
    reg_set_readiness P q1 (Node k) ready_readable = Some (r2, q2) \<and>
    rqueue_poll q2 dst = Some (q3, dst3) \<and>
    evs_entries dst3 = evs_entries dst @ poll_entries (rq_heap q) cs @
      [\<lparr>je_token_entry = tok, je_job = Noop, je_ready = ready_empty\<rparr>]"
proof -
  have out: "Node k \<notin> set cs" using assms(1,2) rq_repr_alloc[of q cs "Node k"] by (auto simp: reg_inv_def)
  obtain qa na where a: "registration_new2 q k = Some (Node k, qa)" "reg_inv qa cs (H(k := 2))"
    "rq_heap qa = (rq_heap q)(Node k \<mapsto> na)" "rs_view (nd_state na) =
       \<lparr>v_readiness = ready_empty, v_interest = ready_empty, v_opt = opt_empty, v_read_pos = 0,
      v_write_pos = 0, v_queued = False, v_dropped = False\<rparr>" "nd_job na = Noop"
    using new2_inv[OF assms(1,2)] by blast
  have na: "rq_heap qa (Node k) = Some na" and live: "\<not> v_dropped (rs_view (nd_state na))"
    using a(3,4) by simp_all
  from update_inv[OF a(2) na live ready_readable_fits refl, of P tok "Job j"]
  obtain rb qb nb where b: "reg_update P qa (Node k) tok ready_readable opt_edge (Job j) = Some (rb, qb)"
    "reg_inv qb cs (H(k := 2))" "rq_heap qb (Node k) = Some nb" "others_same qa qb (Node k)"
    "rs_view (nd_state nb) = (rs_view (nd_state na))\<lparr>v_write_pos := tok_pos na tok,
      v_interest := ready_readable, v_opt := opt_edge\<rparr>"
    "node_token nb (tok_pos na tok) = Some tok" "nd_job nb = Noop"
    using a(4,5) by auto
  from set_readiness_inv[OF b(2,3) ready_readable_fits(1), of P]
  obtain rc qc nc where c: "reg_set_readiness P qb (Node k) ready_readable = Some (rc, qc)"
    "reg_inv qc (cs @ [Node k]) (H(k := 2))" "rq_heap qc (Node k) = Some nc" "others_same qb qc (Node k)"
    "rs_view (nd_state nc) = (rs_view (nd_state nb))\<lparr>v_readiness := ready_readable, v_queued := True\<rparr>"
    "nc = nb\<lparr>nd_state := nd_state nc, nd_next := nd_next nc\<rparr>"
    using a(4) b(5) out by auto
  have tok: "node_token nc (tok_pos na tok) = Some tok" by (subst c(6)) (simp add: b(6))
  have job: "nd_job nc = Noop" by (subst c(6)) (simp add: b(7))
  have nc: "node_reports nc" "node_entry nc = \<lparr>je_token_entry = tok, je_job = Noop, je_ready = ready_empty\<rparr>"
    using ready_edge_node[OF c(5), of tok] b(5) a(4) tok job by simp_all
  have "others_same q qa (Node k)" using a(3) by (simp add: others_same_def same_node_def)
  then have "others_same q qc (Node k)" using others_same_trans b(4) c(4) by blast
  note l = poll_lists_others(1)[OF assms(1) this out]
  have v: "visited (rq_heap qc) (events_capacity dst - events_len dst) (cs @ [Node k]) = cs @ [Node k]"
    using assms(3) by (intro visited_all) simp
  have "poll_entries (rq_heap qc) (cs @ [Node k]) = poll_entries (rq_heap q) cs @ [node_entry nc]"
    using l c(3) nc(1) by (simp add: poll_entries_def)
  with rqueue_poll_inv[OF c(2) refl, of dst, unfolded v] a(1) b(1) c(1) nc(2) show ?thesis by auto
qed

text \<open>A registration associated with one poller refuses another: the error is returned and
  neither the node nor the other poller's queue changes.\<close>

theorem update_other_poll:
  assumes "rq_heap q a = Some n" and "nd_queue n = Some i" and "i \<noteq> rq_id q"
  shows "reg_update P q a tok interest opt job = Some (Inl other_poll_error, q)"
  using assms by (simp add: reg_update_def)

subsection \<open>Instances\<close>

text \<open>A queue without nodes, and events with room.\<close>

definition fresh_queue :: "(string, nat) rqueue" where
  "fresh_queue = \<lparr>rq_id = 0,
     rq_heap = [EndMarker \<mapsto> example_node None 0, SleepMarker \<mapsto> example_node None 0,
       ClosedMarker \<mapsto> example_node None 0],
     rq_head = EndMarker, rq_tail = EndMarker, rq_strong = 1, rq_pipe = 0\<rparr>"

lemma fresh_queue_inv: "reg_inv fresh_queue [] (\<lambda>_. 0)"
proof -
  have "queue_inv fresh_queue [EndMarker]"
    by (simp add: queue_inv_def fresh_queue_def example_node_def)
  then have "rq_repr fresh_queue []" using queue_nodes_marker(1) unfolding rq_repr_def by blast
  then show ?thesis by (simp add: reg_inv_def nodes_ok_def fresh_queue_def)
qed

lemma fresh_queue_free: "rq_heap fresh_queue (Node k) = None"
  by (simp add: fresh_queue_def)

lemma count_pipe_accepts: "pipe_accepts (count_pipe 65536)"
  using count_pipe.wakeup_ok by (auto simp: pipe_accepts_def) (metis fst_conv)

text \<open>A registered node that no queue holds, with one handle and edge-triggered interest.\<close>

definition one_node_queue :: "nat \<Rightarrow> (string, nat) rqueue" where
  "one_node_queue st = fresh_queue\<lparr>rq_heap := (rq_heap fresh_queue)
     (Node 0 \<mapsto> (example_node (Some 0) st))\<rparr>"

lemma one_node_view: "rs_view (ReadinessState 0x110) =
   \<lparr>v_readiness = ready_empty, v_interest = ready_readable, v_opt = opt_edge, v_read_pos = 0,
    v_write_pos = 0, v_queued = False, v_dropped = False\<rparr>"
  by (simp add: rs_view_def rs_getters rs_get_def shift_defs MASK_4_def MASK_2_def ready_from_usize_def
      opt_from_usize_def ready_empty_def ready_readable_def READABLE_def opt_edge_def
      rs_is_queued_def rs_is_dropped_def QUEUED_MASK_def DROPPED_MASK_def del: view_flags)

lemma one_node_readiness: "rs_readiness (ReadinessState 0x110) = ready_empty"
  using arg_cong[OF one_node_view, of v_readiness] by (simp add: rs_view_def del: view_flags)

lemma one_node_queue_inv: "reg_inv (one_node_queue 0x110) [] (\<lambda>k. if k = 0 then 1 else 0)"
proof -
  have "queue_inv (one_node_queue 0x110) [EndMarker]"
    by (simp add: queue_inv_def one_node_queue_def fresh_queue_def example_node_def)
  then have "rq_repr (one_node_queue 0x110) []" using queue_nodes_marker(1) unfolding rq_repr_def by blast
  moreover have "node_ok 0 False 1 (example_node (Some 0) 0x110)"
    using one_node_view by (simp add: node_ok_def node_core_def Let_def example_node_def)
  ultimately show ?thesis
    by (auto simp: reg_inv_def nodes_ok_def one_node_queue_def fresh_queue_def split: if_splits)
qed

lemma one_node: "rq_heap (one_node_queue st) (Node 0) = Some (example_node (Some 0) st)"
  by (simp add: one_node_queue_def)

theorem rqueue_poll_visits_witness:
  "\<exists>q' dst'. rqueue_poll fresh_queue (events_with_capacity 4) = Some (q', dst') \<and>
     reg_inv q' [] (\<lambda>_. 0) \<and> evs_entries dst' = []"
  using rqueue_poll_visits[OF fresh_queue_inv refl, of "events_with_capacity 4"]
  by (auto simp: poll_entries_def poll_kept_def events_with_capacity_def)

theorem enqueue_job_once_witness:
  "\<exists>q1 q2 dst2. enqueue_job (count_pipe 65536) fresh_queue 0 (Job ''hello'') = Some q1 \<and>
     rqueue_poll q1 (events_with_capacity 4) = Some (q2, dst2) \<and>
     map je_job (evs_entries dst2) = [Job ''hello''] \<and> rq_repr q2 []"
proof -
  have "length ([] :: addr list) < events_capacity (events_with_capacity 4) - events_len (events_with_capacity 4 :: string events)"
    by (simp add: events_with_capacity_def events_capacity_def events_len_def)
  from enqueue_job_once[OF fresh_queue_inv fresh_queue_free count_pipe_accepts this, of 0 "Job ''hello''"]
  show ?thesis
    by (auto simp: poll_entries_def poll_kept_def events_with_capacity_def reg_inv_def)
qed

theorem dropped_node_is_freed_witness:
  "\<exists>q1 q2 dst2. registration_drop (count_pipe 65536) (one_node_queue 0x110) (Node 0) = Some q1 \<and>
     rqueue_poll q1 (events_with_capacity 4) = Some (q2, dst2) \<and> rq_heap q2 (Node 0) = None"
proof -
  have "length ([] :: addr list) < events_capacity (events_with_capacity 4) - events_len (events_with_capacity 4 :: string events)"
    by (simp add: events_with_capacity_def events_capacity_def events_len_def)
  from dropped_node_is_freed[OF one_node_queue_inv one_node _ this, THEN conjunct1] show ?thesis
    using one_node_view by (auto simp: example_node_def)
qed

theorem set_readiness_queues_witness:
  "\<exists>res q'. reg_set_readiness (count_pipe 65536) (one_node_queue 0x110) (Node 0) ready_readable = Some (res, q') \<and>
     reg_readiness q' (Node 0) = Some ready_readable \<and> reg_inv q' [Node 0] (\<lambda>k. if k = 0 then 1 else 0)"
  using set_readiness_queues[OF one_node_queue_inv one_node, of ready_readable "count_pipe 65536"] one_node_view
  by (auto simp: example_node_def) (simp_all add: rs_view_def del: view_flags)

theorem update_registers_witness:
  "\<exists>res q' n'. reg_update (count_pipe 65536) (one_node_queue 0x110) (Node 0) null_token ready_readable opt_edge
     (Job ''late'') = Some (res, q') \<and> rq_heap q' (Node 0) = Some n' \<and> nd_job n' = Noop"
  using update_registers[OF one_node_queue_inv one_node, of ready_readable opt_edge "count_pipe 65536" null_token "Job ''late''"]
    one_node_view one_node_readiness by (auto simp: example_node_def rs_effective_readiness_def)

theorem job_lost_if_registered_first_witness:
  "\<exists>q0 r1 q1 r2 q2 q3 dst3. registration_new2 fresh_queue 0 = Some (Node 0, q0) \<and>
    reg_update (count_pipe 65536) q0 (Node 0) null_token ready_readable opt_edge (Job ''lost'') = Some (r1, q1) \<and>
    reg_set_readiness (count_pipe 65536) q1 (Node 0) ready_readable = Some (r2, q2) \<and>
    rqueue_poll q2 (events_with_capacity 4) = Some (q3, dst3) \<and> map je_job (evs_entries dst3) = [Noop]"
proof -
  have "length ([] :: addr list) < events_capacity (events_with_capacity 4) - events_len (events_with_capacity 4 :: string events)"
    by (simp add: events_with_capacity_def events_capacity_def events_len_def)
  from job_lost_if_registered_first[OF fresh_queue_inv fresh_queue_free this, of 0 "count_pipe 65536" null_token "''lost''"]
  show ?thesis by (auto simp: poll_entries_def events_with_capacity_def)
qed

theorem update_other_poll_witness:
  "reg_update (count_pipe 65536) (example_queue (Some 7) 0) (Node 0) null_token ready_readable opt_edge Noop =
     Some (Inl other_poll_error, example_queue (Some 7) 0)"
  by (rule update_other_poll[of _ _ "example_node (Some 7) 0" 7])
    (simp_all add: example_queue_def example_node_def)

end
