(* ===== verification/NodeThreads.thy ===== *)
theory NodeThreads
  imports QueuePoll
begin

section \<open>The state word of a node under interleaving\<close>

text \<open>
  \<open>set_readiness\<close> and \<open>update\<close> of \<open>RegistrationInner\<close>, the drop of a \<open>Registration\<close>, and the visit of the node by
  \<open>ReadinessQueue::poll\<close> (\<open>src/poll.rs\<close>) once more, as a step relation of any number of threads and one poller on
  one node of a queue, with \<open>AtomicState\<close>: each rule is one access to the state word, the update lock, a token slot, the job
  or the queue. A compare-and-swap that fails goes on with the value it has seen. Appending the node and
  taking it are single steps here; \<open>QueueThreads\<close> takes them apart. The flags of readiness, interest and
  options fit their fields.
\<close>

text \<open>Where a thread is: in the loop of \<open>set_readiness\<close> with the state it has seen; in \<open>update\<close>, about to load the state, to
  store the token in a slot, in its loop, about to unlock, to store the job; about to append the node.\<close>

datatype 'j node_pc =
    TIdle
  | TSet ready readiness_state
  | TLocked token_entry ready poll_opt "'j job"
  | TWrite usize token_entry ready poll_opt "'j job" readiness_state
  | TUpdate usize ready poll_opt "'j job" readiness_state
  | TUnlock "'j job option"
  | TJob "'j job"
  | TAppend

text \<open>Where the poller is: it has taken the node, is in the loop with the state it has seen, may have to append the node
  again, reads the token, reads the job, clears the job. The token it goes on with is a ghost.\<close>

datatype visit_pc =
    VIdle
  | VTaken
  | VLoop readiness_state
  | VAgain readiness_state ready token_entry
  | VToken readiness_state ready token_entry
  | VJob ready token_entry
  | VClear

text \<open>\<open>nt_inq\<close> says whether the queue holds the node, \<open>nt_owned\<close> whether the registration has not been dropped, and
  \<open>nt_released\<close> whether the poller has given back the node. The ghosts \<open>nt_published\<close> and \<open>nt_events\<close> are the
  tokens that were registered and the events that were delivered.\<close>

record 'j node_threads =
  nt_node :: "'j rnode"
  nt_inq :: bool
  nt_owned :: bool
  nt_released :: bool
  nt_threads :: "nat \<Rightarrow> 'j node_pc"
  nt_visit :: visit_pc
  nt_published :: "token_entry set"
  nt_events :: "(ready \<times> token_entry \<times> 'j job) list"

abbreviation nt_word :: "'j node_threads \<Rightarrow> readiness_state" where
  "nt_word s \<equiv> nd_state (nt_node s)"

abbreviation set_word :: "readiness_state \<Rightarrow> 'j node_threads \<Rightarrow> 'j node_threads" where
  "set_word w s \<equiv> s\<lparr>nt_node := (nt_node s)\<lparr>nd_state := w\<rparr>\<rparr>"

abbreviation goto :: "nat \<Rightarrow> 'j node_pc \<Rightarrow> 'j node_threads \<Rightarrow> 'j node_threads" where
  "goto i p s \<equiv> s\<lparr>nt_threads := (nt_threads s)(i := p)\<rparr>"

definition nt_init :: "token_entry \<Rightarrow> 'j rnode \<Rightarrow> 'j node_threads" where
  "nt_init tok n = \<lparr>nt_node = n, nt_inq = False, nt_owned = True, nt_released = False, nt_threads = (\<lambda>_. TIdle),
     nt_visit = VIdle, nt_published = {tok}, nt_events = []\<rparr>"

text \<open>The bodies of the loops of \<open>set_readiness\<close> and of \<open>update\<close>.\<close>

definition readiness_next :: "ready \<Rightarrow> readiness_state \<Rightarrow> readiness_state option" where
  "readiness_next ready state =
     (let nxt = rs_set_readiness state ready
      in if \<not> ready_is_empty (rs_effective_readiness nxt) then rs_set_queued nxt else Some nxt)"

definition update_next :: "usize \<Rightarrow> ready \<Rightarrow> poll_opt \<Rightarrow> readiness_state \<Rightarrow> readiness_state option" where
  "update_next pos interest opt state =
     (if rs_is_dropped state then None
      else let nxt = rs_set_token_write_pos state pos;
               nxt = rs_set_interest nxt interest;
               nxt = rs_set_poll_opt nxt opt
           in if \<not> ready_is_empty (rs_effective_readiness nxt) then rs_set_queued nxt else Some nxt)"

definition newly_queued :: "readiness_state \<Rightarrow> readiness_state \<Rightarrow> bool" where
  "newly_queued state nxt \<longleftrightarrow> \<not> rs_is_queued state \<and> rs_is_queued nxt"

definition updating :: "'j node_pc \<Rightarrow> bool" where
  "updating p = (case p of TLocked _ _ _ _ \<Rightarrow> True | TWrite _ _ _ _ _ _ \<Rightarrow> True | TUpdate _ _ _ _ _ \<Rightarrow> True
     | TUnlock _ \<Rightarrow> True | TJob _ \<Rightarrow> True | _ \<Rightarrow> False)"

text \<open>An \<open>update\<close> that finds the lock taken does nothing. A registration is not dropped while it is updated.\<close>

inductive node_step :: "'j node_threads \<Rightarrow> 'j node_threads \<Rightarrow> bool" where
  set_load: "nt_threads s i = TIdle \<Longrightarrow> ready_bits r \<le> MASK_4 \<Longrightarrow> node_step s (goto i (TSet r (nt_word s)) s)"
| set_dropped: "nt_threads s i = TSet r st \<Longrightarrow> rs_is_dropped st \<Longrightarrow> node_step s (goto i TIdle s)"
| set_ok: "nt_threads s i = TSet r st \<Longrightarrow> \<not> rs_is_dropped st \<Longrightarrow> readiness_next r st = Some nxt \<Longrightarrow> nt_word s = st \<Longrightarrow>
    node_step s (goto i (if newly_queued st nxt then TAppend else TIdle) (set_word nxt s))"
| set_fail: "nt_threads s i = TSet r st \<Longrightarrow> \<not> rs_is_dropped st \<Longrightarrow> nt_word s \<noteq> st \<Longrightarrow> node_step s (goto i (TSet r (nt_word s)) s)"
| lock: "nt_threads s i = TIdle \<Longrightarrow> nt_owned s \<Longrightarrow> \<not> nd_update_lock (nt_node s) \<Longrightarrow> ready_bits interest \<le> MASK_4 \<Longrightarrow>
    opt_bits opt \<le> MASK_4 \<Longrightarrow>
    node_step s (goto i (TLocked tok interest opt job) (s\<lparr>nt_node := (nt_node s)\<lparr>nd_update_lock := True\<rparr>\<rparr>))"
| load_same: "nt_threads s i = TLocked tok interest opt job \<Longrightarrow> node_token (nt_node s) (rs_token_write_pos (nt_word s)) = Some tok \<Longrightarrow>
    node_step s (goto i (TUpdate (rs_token_write_pos (nt_word s)) interest opt job (nt_word s)) s)"
| load_new: "nt_threads s i = TLocked tok interest opt job \<Longrightarrow> node_token (nt_node s) (rs_token_write_pos (nt_word s)) = Some cur \<Longrightarrow>
    tok \<noteq> cur \<Longrightarrow> rs_next_token_pos (nt_word s) = Some p \<Longrightarrow>
    node_step s (goto i (TWrite p tok interest opt job (nt_word s)) s)"
| write_token: "nt_threads s i = TWrite p tok interest opt job st \<Longrightarrow>
    node_step s (goto i (TUpdate p interest opt job st) (s\<lparr>nt_node := set_node_token (nt_node s) p tok\<rparr>))"
| update_ok: "nt_threads s i = TUpdate p interest opt job st \<Longrightarrow> update_next p interest opt st = Some nxt \<Longrightarrow> nt_word s = st \<Longrightarrow>
    node_step s (goto i (TUnlock (if newly_queued st nxt then Some job else None))
      ((set_word nxt s)\<lparr>nt_published := nt_published s \<union> set_option (node_token (nt_node s) p)\<rparr>))"
| update_fail: "nt_threads s i = TUpdate p interest opt job st \<Longrightarrow> nt_word s \<noteq> st \<Longrightarrow>
    node_step s (goto i (TUpdate p interest opt job (nt_word s)) s)"
| unlock: "nt_threads s i = TUnlock queued_job \<Longrightarrow>
    node_step s (goto i (case queued_job of Some job \<Rightarrow> TJob job | None \<Rightarrow> TIdle)
      (s\<lparr>nt_node := (nt_node s)\<lparr>nd_update_lock := False\<rparr>\<rparr>))"
| store_job: "nt_threads s i = TJob job \<Longrightarrow> node_step s (goto i TAppend (s\<lparr>nt_node := (nt_node s)\<lparr>nd_job := job\<rparr>\<rparr>))"
| append: "nt_threads s i = TAppend \<Longrightarrow> node_step s (goto i TIdle (s\<lparr>nt_inq := True\<rparr>))"
| drop: "nt_threads s i = TIdle \<Longrightarrow> nt_owned s \<Longrightarrow> (\<And>j. \<not> updating (nt_threads s j)) \<Longrightarrow>
    flag_as_dropped (nt_word s) = Some (enq, nxt) \<Longrightarrow>
    node_step s (goto i (if enq then TAppend else TIdle) ((set_word nxt s)\<lparr>nt_owned := False\<rparr>))"

inductive visit_step :: "'j node_threads \<Rightarrow> 'j node_threads \<Rightarrow> bool" where
  take: "nt_visit s = VIdle \<Longrightarrow> nt_inq s \<Longrightarrow> visit_step s (s\<lparr>nt_visit := VTaken, nt_inq := False\<rparr>)"
| load: "nt_visit s = VTaken \<Longrightarrow> visit_step s (s\<lparr>nt_visit := VLoop (nt_word s)\<rparr>)"
| dropped: "nt_visit s = VLoop st \<Longrightarrow> poll_transition st = Some (Inl ()) \<Longrightarrow>
    visit_step s (s\<lparr>nt_visit := VIdle, nt_released := True\<rparr>)"
| unchanged: "nt_visit s = VLoop st \<Longrightarrow> poll_transition st = Some (Inr (nxt, e)) \<Longrightarrow> nxt = st \<Longrightarrow>
    node_token (nt_node s) (rs_token_read_pos nxt) = Some tok \<Longrightarrow> visit_step s (s\<lparr>nt_visit := VAgain nxt e tok\<rparr>)"
| exchange_ok: "nt_visit s = VLoop st \<Longrightarrow> poll_transition st = Some (Inr (nxt, e)) \<Longrightarrow> nxt \<noteq> st \<Longrightarrow> nt_word s = st \<Longrightarrow>
    node_token (nt_node s) (rs_token_read_pos nxt) = Some tok \<Longrightarrow>
    visit_step s ((set_word nxt s)\<lparr>nt_visit := VAgain nxt e tok\<rparr>)"
| exchange_fail: "nt_visit s = VLoop st \<Longrightarrow> poll_transition st = Some (Inr (nxt, e)) \<Longrightarrow> nxt \<noteq> st \<Longrightarrow> nt_word s \<noteq> st \<Longrightarrow>
    visit_step s (s\<lparr>nt_visit := VLoop (nt_word s)\<rparr>)"
| append_again: "nt_visit s = VAgain nxt e tok \<Longrightarrow> rs_is_queued nxt \<Longrightarrow>
    visit_step s (s\<lparr>nt_visit := VToken nxt e tok, nt_inq := True\<rparr>)"
| not_again: "nt_visit s = VAgain nxt e tok \<Longrightarrow> \<not> rs_is_queued nxt \<Longrightarrow> visit_step s (s\<lparr>nt_visit := VToken nxt e tok\<rparr>)"
| not_ready: "nt_visit s = VToken nxt e tok \<Longrightarrow> ready_is_empty e \<Longrightarrow> visit_step s (s\<lparr>nt_visit := VIdle\<rparr>)"
| read_token: "nt_visit s = VToken nxt e tok \<Longrightarrow> \<not> ready_is_empty e \<Longrightarrow>
    node_token (nt_node s) (rs_token_read_pos nxt) = Some t \<Longrightarrow> visit_step s (s\<lparr>nt_visit := VJob e t\<rparr>)"
| read_job: "nt_visit s = VJob e t \<Longrightarrow>
    visit_step s (s\<lparr>nt_visit := VClear, nt_events := nt_events s @ [(e, t, nd_job (nt_node s))]\<rparr>)"
| clear_job: "nt_visit s = VClear \<Longrightarrow> visit_step s (s\<lparr>nt_visit := VIdle, nt_node := (nt_node s)\<lparr>nd_job := Noop\<rparr>\<rparr>)"

inductive nt_reach :: "'j node_threads \<Rightarrow> bool" where
  init: "node_new q tok interest opt count = Some n \<Longrightarrow> nt_reach (nt_init tok n)"
| thread: "nt_reach s \<Longrightarrow> node_step s s' \<Longrightarrow> nt_reach s'"
| visit: "nt_reach s \<Longrightarrow> visit_step s s' \<Longrightarrow> nt_reach s'"

subsection \<open>AtomicState\<close>

text \<open>\<open>compare_exchange\<close> of the standard library: it panics for an order a failure cannot have.\<close>

datatype mem_order = Relaxed | Acquire | Release | AcqRel | SeqCst

definition compare_exchange ::
    "readiness_state \<Rightarrow> readiness_state \<Rightarrow> readiness_state \<Rightarrow> mem_order \<Rightarrow> mem_order
       \<Rightarrow> ((readiness_state + readiness_state) \<times> readiness_state) option" where
  "compare_exchange cell current new success failure =
     (if failure = Release \<or> failure = AcqRel then None
      else if cell = current then Some (Inr cell, new) else Some (Inl cell, cell))"

definition atomic_new :: "ready \<Rightarrow> poll_opt \<Rightarrow> readiness_state option" where
  "atomic_new interest opt = rs_new interest opt"

definition atomic_load :: "readiness_state \<Rightarrow> mem_order \<Rightarrow> readiness_state" where
  "atomic_load cell order = cell"

text \<open>The value seen and what the cell holds then.\<close>

definition compare_and_swap ::
    "readiness_state \<Rightarrow> readiness_state \<Rightarrow> readiness_state \<Rightarrow> mem_order \<Rightarrow> (readiness_state \<times> readiness_state) option" where
  "compare_and_swap cell current new order =
     (let fail_order = (if order = Release then Relaxed else if order = AcqRel then Acquire else order)
      in do { (res, cell) \<leftarrow> compare_exchange cell current new order fail_order;
              Some (case res of Inr val \<Rightarrow> val | Inl val \<Rightarrow> val, cell) })"

lemma compare_and_swap_iff:
  "compare_and_swap cell current new order = Some (cell, if cell = current then new else cell)"
  by (simp add: compare_and_swap_def compare_exchange_def)

text \<open>The rules of an exchange are the two results of \<open>compare_and_swap\<close>.\<close>

lemma set_exchange:
  assumes "nt_threads s i = TSet r st" "\<not> rs_is_dropped st" "readiness_next r st = Some nxt"
    and "compare_and_swap (atomic_load (nt_word s) Acquire) st nxt AcqRel = Some (actual, w)"
  shows "node_step s (goto i (if actual \<noteq> st then TSet r actual else if newly_queued st nxt then TAppend else TIdle) (set_word w s))"
proof (cases "nt_word s = st")
  case True
  then show ?thesis using node_step.set_ok[OF assms(1-3)] assms(4) by (simp add: compare_and_swap_iff atomic_load_def)
next
  case False
  then have w: "actual = nt_word s" "w = nt_word s" using assms(4) unfolding compare_and_swap_iff atomic_load_def by auto
  have "set_word (nt_word s) s = s" by simp
  then show ?thesis using False node_step.set_fail[OF assms(1,2)] unfolding w by simp
qed

lemma visit_exchange:
  assumes "nt_visit s = VLoop st" "poll_transition st = Some (Inr (nxt, e))" "nxt \<noteq> st"
    and "node_token (nt_node s) (rs_token_read_pos nxt) = Some tok"
    and "compare_and_swap (atomic_load (nt_word s) Acquire) st nxt AcqRel = Some (actual, w)"
  shows "visit_step s ((set_word w s)\<lparr>nt_visit := if actual = st then VAgain nxt e tok else VLoop actual\<rparr>)"
proof (cases "nt_word s = st")
  case True
  then show ?thesis using visit_step.exchange_ok[OF assms(1-3) _ assms(4)] assms(5) by (simp add: compare_and_swap_iff atomic_load_def)
next
  case False
  then have w: "actual = nt_word s" "w = nt_word s" using assms(5) unfolding compare_and_swap_iff atomic_load_def by auto
  have "set_word (nt_word s) s = s" by simp
  then show ?thesis using False visit_step.exchange_fail[OF assms(1-3)] unfolding w by simp
qed

subsection \<open>What the exchanges do to the word\<close>

declare view_flags [simp del]

text \<open>A node whose readiness would be lost: level-triggered, ready and not queued.\<close>

definition lost :: "readiness_state \<Rightarrow> bool" where
  "lost w \<longleftrightarrow> \<not> rs_is_dropped w \<and> \<not> opt_is_edge (rs_poll_opt w) \<and> \<not> ready_is_empty (rs_effective_readiness w) \<and> \<not> rs_is_queued w"

definition advances :: "readiness_state \<Rightarrow> readiness_state \<Rightarrow> bool" where
  "advances w w' \<longleftrightarrow> rs_is_dropped w' = rs_is_dropped w \<and> rs_token_read_pos w' = rs_token_read_pos w \<and>
     (rs_is_queued w \<longrightarrow> rs_is_queued w') \<and> \<not> lost w'"

lemma view_eqs: "v_queued (rs_view w) = rs_is_queued w" "v_dropped (rs_view w) = rs_is_dropped w"
  "v_read_pos (rs_view w) = rs_token_read_pos w" "v_write_pos (rs_view w) = rs_token_write_pos w"
  "v_opt (rs_view w) = rs_poll_opt w"
  by (simp_all add: rs_view_def)

lemma readiness_next_Some:
  assumes "ready_bits r \<le> MASK_4" "\<not> rs_is_dropped w"
  shows "\<exists>nxt. readiness_next r w = Some nxt \<and> advances w nxt \<and> rs_token_write_pos nxt = rs_token_write_pos w"
proof -
  let ?v = "rs_set_readiness w r"
  have v: "rs_view ?v = (rs_view w)\<lparr>v_readiness := r\<rparr>" using view_set_readiness[OF assms(1)] .
  let ?n = "if \<not> ready_is_empty (rs_effective_readiness ?v) then ReadinessState (rs_val ?v OR QUEUED_MASK) else ?v"
  have d: "\<not> v_dropped (rs_view ?v)" using assms(2) v view_eqs(2)[of w] by simp
  have n: "readiness_next r w = Some ?n" using d unfolding readiness_next_def Let_def rs_set_queued_iff by simp
  have vn: "rs_view ?n = (rs_view w)\<lparr>v_readiness := r, v_queued := v_queued (rs_view w) \<or> \<not> ready_is_empty (rs_effective_readiness ?v)\<rparr>"
    using v by (cases "ready_is_empty (rs_effective_readiness ?v)") (simp_all add: view_or_queued)
  have e: "rs_effective_readiness ?n = rs_effective_readiness ?v"
    using vn v unfolding effective_view by simp
  have "advances w ?n \<and> rs_token_write_pos ?n = rs_token_write_pos w"
    unfolding advances_def lost_def e view_eqs[symmetric] vn by auto
  then show ?thesis using n by blast
qed

lemma update_next_Some:
  assumes "p \<le> 2" "ready_bits interest \<le> MASK_4" "opt_bits opt \<le> MASK_4" "\<not> rs_is_dropped w"
  shows "\<exists>nxt. update_next p interest opt w = Some nxt \<and> advances w nxt \<and> rs_token_write_pos nxt = p"
proof -
  have d: "\<not> v_dropped (rs_view w)" using assms(4) unfolding view_eqs .
  have n: "update_next p interest opt w = Some (upd_state w p interest opt)"
    using upd_state_interp[OF d assms(1-3)] assms(4) by (simp add: update_next_def Let_def)
  note v = view_upd_state[OF assms(1-3), of w]
  have "advances w (upd_state w p interest opt) \<and> rs_token_write_pos (upd_state w p interest opt) = p"
    unfolding advances_def lost_def effective_view view_eqs[symmetric] v by auto
  then show ?thesis using n by blast
qed

lemma transition_dropped: "poll_transition w = Some (Inl ()) \<Longrightarrow> rs_is_queued w \<and> rs_is_dropped w"
  by (auto simp: poll_transition_def Let_def bind_Some_iff split: if_splits)

lemma transition_next:
  assumes "poll_transition w = Some (Inr (nxt, e))"
  shows "rs_is_queued w \<and> \<not> rs_is_dropped w \<and> \<not> rs_is_dropped nxt \<and> \<not> lost nxt \<and>
    rs_token_read_pos nxt = rs_token_write_pos w \<and> rs_token_write_pos nxt = rs_token_write_pos w"
proof -
  have w: "rs_is_queued w" "\<not> rs_is_dropped w"
    using assms by (auto simp: poll_transition_def Let_def split: if_splits)
  obtain nxt' where t: "poll_transition w = Some (Inr (nxt', rs_effective_readiness w))"
    and v: "rs_view nxt' = (rs_view w)\<lparr>v_read_pos := v_write_pos (rs_view w),
      v_queued := \<not> opt_is_edge (rs_poll_opt w) \<and> \<not> ready_is_empty (rs_effective_readiness w),
      v_interest := if opt_is_edge (v_opt (rs_view w)) \<and> opt_is_oneshot (v_opt (rs_view w)) \<and>
        \<not> ready_is_empty (rs_effective_readiness w) then ready_empty else v_interest (rs_view w)\<rparr>"
    using transition_spec[OF _ _ refl refl, of w] w unfolding view_eqs by blast
  have "nxt' = nxt" using assms t by simp
  moreover have "\<not> rs_is_dropped nxt' \<and> \<not> lost nxt' \<and>
    rs_token_read_pos nxt' = rs_token_write_pos w \<and> rs_token_write_pos nxt' = rs_token_write_pos w"
    using w(2) unfolding lost_def effective_view view_eqs[symmetric] v by auto
  ultimately show ?thesis using w by blast
qed

lemma transition_Some: "rs_is_queued w \<Longrightarrow> poll_transition w \<noteq> None"
  using transition_spec[OF _ _ refl refl, of w] unfolding view_eqs
  by (cases "rs_is_dropped w") (auto simp: poll_transition_def)

lemma flag_next:
  assumes "flag_as_dropped w = Some (enq, nxt)"
  shows "\<not> rs_is_dropped w \<and> enq = (\<not> rs_is_queued w) \<and> rs_is_dropped nxt \<and> rs_is_queued nxt \<and>
    rs_token_read_pos nxt = rs_token_read_pos w \<and> rs_token_write_pos nxt = rs_token_write_pos w"
proof -
  have n: "\<not> rs_is_dropped w" "enq = (\<not> rs_is_queued w)" "nxt = ReadinessState (rs_val w OR (DROPPED_MASK OR QUEUED_MASK))"
    using assms by (auto simp: flag_as_dropped_def split: if_splits)
  have "rs_view nxt = (rs_view w)\<lparr>v_queued := True, v_dropped := True\<rparr>" unfolding n(3) by (rule view_or_dropped_queued)
  then show ?thesis using n(1,2) unfolding view_eqs[symmetric] by simp
qed

subsection \<open>The invariant\<close>

text \<open>Who answers for the queued bit: the queue, the thread that has set the bit and is about to append the node, or the
  poller that has taken the node. There is one at most, and one exactly when the bit is set and the node
  has not been given back.\<close>

definition pc_holds :: "'j node_pc \<Rightarrow> bool" where
  "pc_holds p = (case p of TAppend \<Rightarrow> True | TJob _ \<Rightarrow> True | TUnlock (Some _) \<Rightarrow> True | _ \<Rightarrow> False)"

definition visit_holds :: "visit_pc \<Rightarrow> bool" where
  "visit_holds v = (case v of VTaken \<Rightarrow> True | VLoop _ \<Rightarrow> True | VAgain nxt _ _ \<Rightarrow> rs_is_queued nxt | _ \<Rightarrow> False)"

definition hold_inv :: "'j node_threads \<Rightarrow> bool" where
  "hold_inv s \<longleftrightarrow> (\<forall>i j. pc_holds (nt_threads s i) \<longrightarrow> pc_holds (nt_threads s j) \<longrightarrow> i = j) \<and>
     (\<forall>i. pc_holds (nt_threads s i) \<longrightarrow> \<not> nt_inq s \<and> \<not> visit_holds (nt_visit s)) \<and>
     (nt_inq s \<longrightarrow> \<not> visit_holds (nt_visit s)) \<and>
     (rs_is_queued (nt_word s) \<longleftrightarrow>
        nt_released s \<or> nt_inq s \<or> visit_holds (nt_visit s) \<or> (\<exists>i. pc_holds (nt_threads s i))) \<and>
     (nt_released s \<longrightarrow> rs_is_dropped (nt_word s) \<and> \<not> nt_inq s \<and> \<not> visit_holds (nt_visit s) \<and>
        (\<forall>i. \<not> pc_holds (nt_threads s i)))"

definition in_lock :: "'j node_pc \<Rightarrow> bool" where
  "in_lock p = (case p of TLocked _ _ _ _ \<Rightarrow> True | TWrite _ _ _ _ _ _ \<Rightarrow> True | TUpdate _ _ _ _ _ \<Rightarrow> True
     | TUnlock _ \<Rightarrow> True | _ \<Rightarrow> False)"

definition update_lock_inv :: "'j node_threads \<Rightarrow> bool" where
  "update_lock_inv s \<longleftrightarrow> (\<forall>i j. in_lock (nt_threads s i) \<longrightarrow> in_lock (nt_threads s j) \<longrightarrow> i = j) \<and>
     (nd_update_lock (nt_node s) \<longleftrightarrow> (\<exists>i. in_lock (nt_threads s i)))"

text \<open>What a thread knows of the word: the update in progress has the write position for itself, and a token is
  written into a slot that is neither the one published nor the one the poller reads.\<close>

definition pc_inv :: "readiness_state \<Rightarrow> bool \<Rightarrow> 'j node_pc \<Rightarrow> bool" where
  "pc_inv w owned p = (case p of
       TSet r st \<Rightarrow> ready_bits r \<le> MASK_4
     | TLocked _ i o' _ \<Rightarrow> owned \<and> ready_bits i \<le> MASK_4 \<and> opt_bits o' \<le> MASK_4
     | TWrite p _ i o' _ st \<Rightarrow> owned \<and> ready_bits i \<le> MASK_4 \<and> opt_bits o' \<le> MASK_4 \<and> p \<le> 2 \<and> \<not> rs_is_dropped st \<and>
         rs_token_write_pos st = rs_token_write_pos w \<and> p \<noteq> rs_token_write_pos w \<and> p \<noteq> rs_token_read_pos w
     | TUpdate p i o' _ st \<Rightarrow> owned \<and> ready_bits i \<le> MASK_4 \<and> opt_bits o' \<le> MASK_4 \<and> p \<le> 2 \<and> \<not> rs_is_dropped st \<and>
         rs_token_write_pos st = rs_token_write_pos w
     | _ \<Rightarrow> True)"

definition visit_inv :: "'j node_threads \<Rightarrow> bool" where
  "visit_inv s = (case nt_visit s of
       VLoop st \<Rightarrow> rs_is_queued st \<and> rs_token_read_pos st = rs_token_read_pos (nt_word s) \<and> (rs_is_dropped st \<longrightarrow> rs_is_dropped (nt_word s)) \<and>
         rs_token_write_pos st \<le> 2
     | VAgain nxt _ t \<Rightarrow> rs_token_read_pos nxt = rs_token_read_pos (nt_word s) \<and>
         node_token (nt_node s) (rs_token_read_pos (nt_word s)) = Some t
     | VToken nxt _ t \<Rightarrow> rs_token_read_pos nxt = rs_token_read_pos (nt_word s) \<and>
         node_token (nt_node s) (rs_token_read_pos (nt_word s)) = Some t
     | VJob _ t \<Rightarrow> t \<in> nt_published s
     | _ \<Rightarrow> True)"

definition word_inv :: "'j node_threads \<Rightarrow> bool" where
  "word_inv s \<longleftrightarrow> \<not> lost (nt_word s) \<and> (rs_is_dropped (nt_word s) \<longleftrightarrow> \<not> nt_owned s) \<and>
     rs_token_read_pos (nt_word s) \<le> 2 \<and> rs_token_write_pos (nt_word s) \<le> 2 \<and>
     (\<exists>t \<in> nt_published s. node_token (nt_node s) (rs_token_read_pos (nt_word s)) = Some t) \<and>
     (\<exists>t \<in> nt_published s. node_token (nt_node s) (rs_token_write_pos (nt_word s)) = Some t) \<and>
     (\<forall>(e, t, j) \<in> set (nt_events s). t \<in> nt_published s)"

definition nt_inv :: "'j node_threads \<Rightarrow> bool" where
  "nt_inv s \<longleftrightarrow> hold_inv s \<and> update_lock_inv s \<and> (\<forall>i. pc_inv (nt_word s) (nt_owned s) (nt_threads s i)) \<and> visit_inv s \<and> word_inv s"

lemma pc_holds_simps [simp]: "\<not> pc_holds TIdle" "\<not> pc_holds (TSet r st)" "\<not> pc_holds (TLocked tok i o' j)"
  "\<not> pc_holds (TWrite p tok i o' j st)" "\<not> pc_holds (TUpdate p i o' j st)" "pc_holds TAppend" "pc_holds (TJob j)"
  "pc_holds (TUnlock x) = (x \<noteq> None)"
  by (simp_all add: pc_holds_def split: option.split)

lemma in_lock_simps [simp]: "\<not> in_lock TIdle" "\<not> in_lock (TSet r st)" "in_lock (TLocked tok i o' j)"
  "in_lock (TWrite p tok i o' j st)" "in_lock (TUpdate p i o' j st)" "\<not> in_lock TAppend" "\<not> in_lock (TJob j)" "in_lock (TUnlock x)"
  by (simp_all add: in_lock_def)

lemma visit_holds_simps [simp]: "\<not> visit_holds VIdle" "visit_holds VTaken" "visit_holds (VLoop st)"
  "visit_holds (VAgain nxt e t) = rs_is_queued nxt" "\<not> visit_holds (VToken nxt e t)" "\<not> visit_holds (VJob e t)" "\<not> visit_holds VClear"
  by (simp_all add: visit_holds_def)

text \<open>A thread that goes from one place to another without the queue and the poller.\<close>

lemma hold_move:
  assumes "hold_inv s" "pc_holds p = pc_holds (nt_threads s i)"
    and "nt_threads s' = (nt_threads s)(i := p)" "nt_inq s' = nt_inq s" "nt_visit s' = nt_visit s" "nt_released s' = nt_released s"
    and "rs_is_queued (nt_word s') = rs_is_queued (nt_word s)" "rs_is_dropped (nt_word s) \<longrightarrow> rs_is_dropped (nt_word s')"
  shows "hold_inv s'"
proof -
  have "pc_holds (nt_threads s' k) = pc_holds (nt_threads s k)" for k using assms(2,3) by simp
  then show ?thesis using assms(1,4-8) unfolding hold_inv_def by simp
qed

text \<open>A thread whose exchange has set the bit answers for the node.\<close>

lemma hold_win:
  assumes "hold_inv s" "\<not> rs_is_queued (nt_word s)" "rs_is_queued (nt_word s')" "pc_holds p"
    and "nt_threads s' = (nt_threads s)(i := p)" "nt_inq s' = nt_inq s" "nt_visit s' = nt_visit s" "nt_released s' = nt_released s"
  shows "hold_inv s'"
proof -
  have "\<not> nt_released s" "\<not> nt_inq s" "\<not> visit_holds (nt_visit s)" "\<not> pc_holds (nt_threads s k)" for k
    using assms(1,2) unfolding hold_inv_def by blast+
  then show ?thesis using assms(3-8) unfolding hold_inv_def by auto
qed

lemma lock_move:
  assumes "update_lock_inv s" "in_lock p = in_lock (nt_threads s i)" "nt_threads s' = (nt_threads s)(i := p)"
    and "nd_update_lock (nt_node s') = nd_update_lock (nt_node s)"
  shows "update_lock_inv s'"
proof -
  have "in_lock (nt_threads s' k) = in_lock (nt_threads s k)" for k using assms(2,3) by simp
  then show ?thesis using assms(1,4) unfolding update_lock_inv_def by simp
qed

text \<open>What the other threads know survives an exchange that leaves the positions and the owner as they are.\<close>

lemma pc_inv_frame:
  assumes "pc_inv w owned p" "rs_token_write_pos w' = rs_token_write_pos w" "rs_token_read_pos w' = rs_token_read_pos w"
  shows "pc_inv w' owned p"
  using assms by (cases p) (simp_all add: pc_inv_def)

lemma pc_inv_outside: "\<not> in_lock p \<Longrightarrow> pc_inv w owned p = pc_inv w' owned' p"
  by (cases p) (simp_all add: pc_inv_def)

lemma nt_invD:
  assumes "nt_inv s"
  shows "hold_inv s" "update_lock_inv s" "pc_inv (nt_word s) (nt_owned s) (nt_threads s i)" "visit_inv s" "word_inv s"
  using assms by (simp_all add: nt_inv_def)

text \<open>A step of a thread that changes nothing but where it is.\<close>

lemma move_inv:
  assumes "nt_inv s" "pc_holds p = pc_holds (nt_threads s i)" "in_lock p = in_lock (nt_threads s i)"
    "pc_inv (nt_word s) (nt_owned s) p"
  shows "nt_inv (goto i p s)"
proof -
  have "hold_inv (goto i p s)" by (rule hold_move[OF nt_invD(1)[OF assms(1)] assms(2)]) simp_all
  moreover have "update_lock_inv (goto i p s)" by (rule lock_move[OF nt_invD(2)[OF assms(1)] assms(3)]) simp_all
  moreover have "visit_inv (goto i p s)" "word_inv (goto i p s)"
    using nt_invD(4,5)[OF assms(1)] by (simp_all add: visit_inv_def word_inv_def cong: visit_pc.case_cong)
  ultimately show ?thesis using nt_invD(3)[OF assms(1)] assms(4) by (simp add: nt_inv_def)
qed

text \<open>An exchange of the word by a thread.\<close>

lemma exchange_inv:
  assumes inv: "nt_inv s" and adv: "advances (nt_word s) nxt" and pc: "\<not> pc_holds (nt_threads s i)" "pc_holds p = newly_queued (nt_word s) nxt"
    and lock: "in_lock p = in_lock (nt_threads s i)" and p: "pc_inv nxt (nt_owned s) p"
    and wr: "rs_token_write_pos nxt = rs_token_write_pos (nt_word s) \<or> in_lock p" "rs_token_write_pos nxt \<le> 2"
    and pub: "nt_published s \<subseteq> T" "\<exists>t \<in> T. node_token (nt_node s) (rs_token_write_pos nxt) = Some t"
  shows "nt_inv (goto i p ((set_word nxt s)\<lparr>nt_published := T\<rparr>))"
proof -
  let ?s = "goto i p ((set_word nxt s)\<lparr>nt_published := T\<rparr>)"
  have a: "rs_is_dropped nxt = rs_is_dropped (nt_word s)" "rs_token_read_pos nxt = rs_token_read_pos (nt_word s)"
    "rs_is_queued (nt_word s) \<longrightarrow> rs_is_queued nxt" "\<not> lost nxt" using adv unfolding advances_def by blast+
  have "hold_inv ?s"
  proof (cases "newly_queued (nt_word s) nxt")
    case True
    then show ?thesis using pc by (intro hold_win[OF nt_invD(1)[OF inv]]) (simp_all add: newly_queued_def)
  next
    case False
    then have "rs_is_queued nxt = rs_is_queued (nt_word s)" using a(3) by (auto simp: newly_queued_def)
    then show ?thesis using pc a(1) False by (intro hold_move[OF nt_invD(1)[OF inv]]) simp_all
  qed
  moreover have "update_lock_inv ?s" by (rule lock_move[OF nt_invD(2)[OF inv] lock]) simp_all
  moreover have "pc_inv nxt (nt_owned s) (nt_threads s j)" if "j \<noteq> i" for j
  proof (cases "in_lock p")
    case True
    then have "\<not> in_lock (nt_threads s j)" using lock nt_invD(2)[OF inv] that unfolding update_lock_inv_def by blast
    then show ?thesis using pc_inv_outside nt_invD(3)[OF inv] by blast
  next
    case False
    then show ?thesis using pc_inv_frame[OF nt_invD(3)[OF inv]] wr(1) a(2) by blast
  qed
  moreover have "visit_inv ?s" using nt_invD(4)[OF inv] a(1,2) pub(1) unfolding visit_inv_def by (auto split: visit_pc.splits)
  moreover have "word_inv ?s" using nt_invD(5)[OF inv] a wr(2) pub unfolding word_inv_def by auto
  ultimately show ?thesis using p unfolding nt_inv_def by simp
qed

lemma node_token_other: "p \<noteq> q \<Longrightarrow> p \<le> 2 \<Longrightarrow> node_token (set_node_token n p tok) q = node_token n q"
  by (auto simp: node_token_def set_node_token_def dest!: le_2_cases)

lemma node_step_inv: "node_step s s' \<Longrightarrow> nt_inv s \<Longrightarrow> nt_inv s'"
proof (induction rule: node_step.induct)
  case (set_load s i r)
  then show ?case by (intro move_inv) (simp_all add: pc_inv_def)
next
  case (set_dropped s i r st)
  then show ?case by (intro move_inv) (simp_all add: pc_inv_def)
next
  case (set_ok s i r st nxt)
  have r: "ready_bits r \<le> MASK_4" using nt_invD(3)[OF set_ok(5), of i] set_ok(1) by (simp add: pc_inv_def)
  have n: "advances st nxt" "rs_token_write_pos nxt = rs_token_write_pos st" using readiness_next_Some[OF r set_ok(2)] set_ok(3) by auto
  have "nt_inv (goto i (if newly_queued st nxt then TAppend else TIdle) ((set_word nxt s)\<lparr>nt_published := nt_published s\<rparr>))"
    using nt_invD(5)[OF set_ok(5)] set_ok(1,4) n
    by (intro exchange_inv[OF set_ok(5)]) (auto simp: pc_inv_def word_inv_def)
  then show ?case by simp
next
  case (set_fail s i r st)
  then show ?case using nt_invD(3)[OF set_fail(4), of i] by (intro move_inv) (simp_all add: pc_inv_def)
next
  case (load_same s i tok interest opt job)
  then show ?case using nt_invD(3)[OF load_same(3), of i] nt_invD(5)[OF load_same(3)]
    by (intro move_inv) (auto simp: pc_inv_def word_inv_def)
next
  case (load_new s i tok interest opt job cur p)
  have "p \<le> 2" "p \<noteq> rs_token_read_pos (nt_word s)" "p \<noteq> rs_token_write_pos (nt_word s)"
    using next_token_pos_cases[of "nt_word s"] load_new(4) by simp_all
  then show ?case using nt_invD(3)[OF load_new(5), of i] nt_invD(5)[OF load_new(5)] load_new(1)
    by (intro move_inv[OF load_new(5)]) (auto simp: pc_inv_def word_inv_def)
next
  case (update_fail s i p interest opt job st)
  then show ?case using nt_invD(3)[OF update_fail(3), of i] nt_invD(5)[OF update_fail(3)]
    by (intro move_inv) (auto simp: pc_inv_def word_inv_def)
next
  case (update_ok s i p interest opt job st nxt)
  have k: "ready_bits interest \<le> MASK_4" "opt_bits opt \<le> MASK_4" "p \<le> 2" "\<not> rs_is_dropped st"
    using nt_invD(3)[OF update_ok(4), of i] update_ok(1) by (simp_all add: pc_inv_def)
  have n: "advances st nxt" "rs_token_write_pos nxt = p" using update_next_Some[OF k(3,1,2,4)] update_ok(2) by auto
  obtain t where t: "node_token (nt_node s) p = Some t" using node_token_Some[OF k(3)] by blast
  show ?case
    using update_ok(1,3) n k(3) t by (intro exchange_inv[OF update_ok(4)]) (auto simp: pc_inv_def)
next
  case (write_token s i p tok interest opt job st)
  let ?s = "goto i (TUpdate p interest opt job st) (s\<lparr>nt_node := set_node_token (nt_node s) p tok\<rparr>)"
  have k: "p \<le> 2" "p \<noteq> rs_token_write_pos (nt_word s)" "p \<noteq> rs_token_read_pos (nt_word s)"
    using nt_invD(3)[OF write_token(2), of i] write_token(1) by (simp_all add: pc_inv_def)
  note tok = node_token_other[OF k(2,1), of "nt_node s" tok] node_token_other[OF k(3,1), of "nt_node s" tok]
  have "hold_inv ?s" by (rule hold_move[OF nt_invD(1)[OF write_token(2)], of "TUpdate p interest opt job st" i]) (simp_all add: write_token(1))
  moreover have "update_lock_inv ?s" by (rule lock_move[OF nt_invD(2)[OF write_token(2)], of "TUpdate p interest opt job st" i]) (simp_all add: write_token(1))
  moreover have "visit_inv ?s" "word_inv ?s"
    using nt_invD(4,5)[OF write_token(2)] tok by (auto simp: visit_inv_def word_inv_def split: visit_pc.splits)
  moreover have "pc_inv (nt_word s) (nt_owned s) (TUpdate p interest opt job st)"
    using nt_invD(3)[OF write_token(2), of i] write_token(1) by (simp add: pc_inv_def)
  ultimately show ?case using nt_invD(3)[OF write_token(2)] by (simp add: nt_inv_def)
next
  case (lock s i interest opt tok job)
  let ?s = "goto i (TLocked tok interest opt job) (s\<lparr>nt_node := (nt_node s)\<lparr>nd_update_lock := True\<rparr>\<rparr>)"
  have "hold_inv ?s" by (rule hold_move[OF nt_invD(1)[OF lock(6)], of "TLocked tok interest opt job" i]) (simp_all add: lock(1))
  moreover have "update_lock_inv ?s" using nt_invD(2)[OF lock(6)] lock(3) by (auto simp: update_lock_inv_def)
  moreover have "visit_inv ?s" "word_inv ?s"
    using nt_invD(4,5)[OF lock(6)] by (simp_all add: visit_inv_def word_inv_def cong: visit_pc.case_cong)
  ultimately show ?case using nt_invD(3)[OF lock(6)] lock(2,4,5) by (simp add: nt_inv_def pc_inv_def)
next
  case (unlock s i x)
  let ?p = "case x of Some job \<Rightarrow> TJob job | None \<Rightarrow> TIdle"
  let ?s = "goto i ?p (s\<lparr>nt_node := (nt_node s)\<lparr>nd_update_lock := False\<rparr>\<rparr>)"
  have "pc_holds ?p = pc_holds (nt_threads s i)" by (simp add: unlock(1) split: option.split)
  then have "hold_inv ?s" by (rule hold_move[OF nt_invD(1)[OF unlock(2)]]) simp_all
  moreover have "update_lock_inv ?s" using nt_invD(2)[OF unlock(2)] unlock(1) by (auto simp: update_lock_inv_def split: option.split)
  moreover have "visit_inv ?s" "word_inv ?s"
    using nt_invD(4,5)[OF unlock(2)] by (simp_all add: visit_inv_def word_inv_def cong: visit_pc.case_cong)
  ultimately show ?case using nt_invD(3)[OF unlock(2)] by (simp add: nt_inv_def pc_inv_def split: option.split)
next
  case (store_job s i job)
  let ?s = "goto i TAppend (s\<lparr>nt_node := (nt_node s)\<lparr>nd_job := job\<rparr>\<rparr>)"
  have "hold_inv ?s" by (rule hold_move[OF nt_invD(1)[OF store_job(2)], of TAppend i]) (simp_all add: store_job(1))
  moreover have "update_lock_inv ?s" by (rule lock_move[OF nt_invD(2)[OF store_job(2)], of TAppend i]) (simp_all add: store_job(1))
  moreover have "visit_inv ?s" "word_inv ?s"
    using nt_invD(4,5)[OF store_job(2)] by (simp_all add: visit_inv_def word_inv_def cong: visit_pc.case_cong)
  ultimately show ?case using nt_invD(3)[OF store_job(2)] by (simp add: nt_inv_def pc_inv_def)
next
  case (append s i)
  let ?s = "goto i TIdle (s\<lparr>nt_inq := True\<rparr>)"
  have "\<not> nt_inq s" "\<not> visit_holds (nt_visit s)" "j \<noteq> i \<Longrightarrow> \<not> pc_holds (nt_threads s j)" "\<not> nt_released s" "rs_is_queued (nt_word s)" for j
    using nt_invD(1)[OF append(2)] append(1) unfolding hold_inv_def by (metis pc_holds_simps(6))+
  then have "hold_inv ?s" by (simp add: hold_inv_def)
  moreover have "update_lock_inv ?s" by (rule lock_move[OF nt_invD(2)[OF append(2)], of TIdle i]) (simp_all add: append(1))
  moreover have "visit_inv ?s" "word_inv ?s"
    using nt_invD(4,5)[OF append(2)] by (simp_all add: visit_inv_def word_inv_def cong: visit_pc.case_cong)
  ultimately show ?case using nt_invD(3)[OF append(2)] by (simp add: nt_inv_def pc_inv_def)
next
  case (drop s i enq nxt)
  let ?p = "if enq then TAppend else TIdle"
  let ?s = "goto i ?p ((set_word nxt s)\<lparr>nt_owned := False\<rparr>)"
  have f: "\<not> rs_is_dropped (nt_word s)" "enq = (\<not> rs_is_queued (nt_word s))" "rs_is_dropped nxt" "rs_is_queued nxt"
    "rs_token_read_pos nxt = rs_token_read_pos (nt_word s)" "rs_token_write_pos nxt = rs_token_write_pos (nt_word s)"
    using flag_next[OF drop(4)] by blast+
  have "hold_inv ?s"
  proof (cases enq)
    case True
    then show ?thesis using f by (intro hold_win[OF nt_invD(1)[OF drop(5)]]) simp_all
  next
    case False
    then show ?thesis using f drop(1) by (intro hold_move[OF nt_invD(1)[OF drop(5)]]) simp_all
  qed
  moreover have "update_lock_inv ?s" using drop(1) by (intro lock_move[OF nt_invD(2)[OF drop(5)], of ?p i]) simp_all
  moreover have "\<not> in_lock (nt_threads s j)" for j
    using drop(3)[of j] by (cases "nt_threads s j") (simp_all add: updating_def)
  then have "pc_inv nxt False (nt_threads s j)" for j using pc_inv_outside nt_invD(3)[OF drop(5)] by blast
  moreover have "visit_inv ?s" "word_inv ?s"
    using nt_invD(4,5)[OF drop(5)] f by (auto simp: visit_inv_def word_inv_def lost_def split: visit_pc.splits)
  ultimately show ?case by (simp add: nt_inv_def pc_inv_def)
qed

text \<open>A step of the poller that leaves the word, the queue and the answering for the node as they are.\<close>

lemma visit_move_inv:
  assumes "nt_inv s" "visit_holds (nt_visit s') = visit_holds (nt_visit s)" "visit_inv s'" "word_inv s'"
    and "nd_state (nt_node s') = nt_word s" "nd_update_lock (nt_node s') = nd_update_lock (nt_node s)" "nt_threads s' = nt_threads s"
    "nt_inq s' = nt_inq s" "nt_owned s' = nt_owned s" "nt_released s' = nt_released s"
  shows "nt_inv s'"
proof -
  have "hold_inv s'" using nt_invD(1)[OF assms(1)] unfolding hold_inv_def assms(2,5,7,8,10) .
  moreover have "update_lock_inv s'" using nt_invD(2)[OF assms(1)] unfolding update_lock_inv_def assms(6,7) .
  ultimately show ?thesis using nt_invD(3)[OF assms(1)] assms(3-5,7,9) by (simp add: nt_inv_def)
qed

lemma visit_step_inv: "visit_step s s' \<Longrightarrow> nt_inv s \<Longrightarrow> nt_inv s'"
proof (induction rule: visit_step.induct)
  case (take s)
  let ?s = "s\<lparr>nt_visit := VTaken, nt_inq := False\<rparr>"
  have "hold_inv ?s" using nt_invD(1)[OF take(3)] take(1,2) unfolding hold_inv_def by auto
  moreover have "update_lock_inv ?s" "visit_inv ?s" "word_inv ?s"
    using nt_invD(2,5)[OF take(3)] by (simp_all add: update_lock_inv_def visit_inv_def word_inv_def)
  ultimately show ?case using nt_invD(3)[OF take(3)] by (simp add: nt_inv_def)
next
  case (load s)
  have "rs_is_queued (nt_word s)" using nt_invD(1)[OF load(2)] load(1) unfolding hold_inv_def by simp
  then show ?case using nt_invD(5)[OF load(2)] load(1)
    by (intro visit_move_inv[OF load(2)]) (simp_all add: visit_inv_def word_inv_def)
next
  case (dropped s st)
  let ?s = "s\<lparr>nt_visit := VIdle, nt_released := True\<rparr>"
  have "rs_is_dropped (nt_word s)"
    using transition_dropped[OF dropped(2)] nt_invD(4)[OF dropped(3)] dropped(1) by (simp add: visit_inv_def)
  then have "hold_inv ?s" using nt_invD(1)[OF dropped(3)] dropped(1) unfolding hold_inv_def by auto
  moreover have "update_lock_inv ?s" "visit_inv ?s" "word_inv ?s"
    using nt_invD(2,5)[OF dropped(3)] by (simp_all add: update_lock_inv_def visit_inv_def word_inv_def)
  ultimately show ?case using nt_invD(3)[OF dropped(3)] by (simp add: nt_inv_def)
next
  case (unchanged s st nxt e tok)
  have k: "rs_is_queued nxt" "rs_token_read_pos nxt = rs_token_read_pos (nt_word s)"
    using nt_invD(4)[OF unchanged(5)] unchanged(1,3) by (simp_all add: visit_inv_def)
  then show ?case using nt_invD(5)[OF unchanged(5)] unchanged(1,4)
    by (intro visit_move_inv[OF unchanged(5)]) (simp_all add: visit_inv_def word_inv_def)
next
  case (exchange_ok s st nxt e tok)
  let ?s = "(set_word nxt s)\<lparr>nt_visit := VAgain nxt e tok\<rparr>"
  have n: "rs_is_queued st" "\<not> rs_is_dropped st" "\<not> rs_is_dropped nxt" "\<not> lost nxt"
    "rs_token_read_pos nxt = rs_token_write_pos st" "rs_token_write_pos nxt = rs_token_write_pos st"
    using transition_next[OF exchange_ok(2)] by blast+
  have h: "\<not> nt_inq s" "\<not> nt_released s" "\<not> pc_holds (nt_threads s i)" for i
    using nt_invD(1)[OF exchange_ok(6)] exchange_ok(1) unfolding hold_inv_def by auto
  then have "hold_inv ?s" by (simp add: hold_inv_def)
  moreover have "update_lock_inv ?s" using nt_invD(2)[OF exchange_ok(6)] by (simp add: update_lock_inv_def)
  moreover have "visit_inv ?s" using exchange_ok(5) by (simp add: visit_inv_def)
  moreover have "word_inv ?s" using nt_invD(5)[OF exchange_ok(6)] n exchange_ok(4) by (auto simp: word_inv_def)
  moreover have "pc_inv nxt (nt_owned s) (nt_threads s i)" for i
    using nt_invD(3)[OF exchange_ok(6), of i] n(5,6) exchange_ok(4) by (cases "nt_threads s i") (simp_all add: pc_inv_def)
  ultimately show ?case by (simp add: nt_inv_def)
next
  case (exchange_fail s st nxt e)
  have "rs_is_queued (nt_word s)" using nt_invD(1)[OF exchange_fail(5)] exchange_fail(1) unfolding hold_inv_def by simp
  then show ?case using nt_invD(5)[OF exchange_fail(5)] exchange_fail(1)
    by (intro visit_move_inv[OF exchange_fail(5)]) (simp_all add: visit_inv_def word_inv_def)
next
  case (append_again s nxt e tok)
  let ?s = "s\<lparr>nt_visit := VToken nxt e tok, nt_inq := True\<rparr>"
  have "hold_inv ?s" using nt_invD(1)[OF append_again(3)] append_again(1,2) unfolding hold_inv_def by auto
  moreover have "update_lock_inv ?s" "visit_inv ?s" "word_inv ?s"
    using nt_invD(2,4,5)[OF append_again(3)] append_again(1) by (simp_all add: update_lock_inv_def visit_inv_def word_inv_def)
  ultimately show ?case using nt_invD(3)[OF append_again(3)] by (simp add: nt_inv_def)
next
  case (not_again s nxt e tok)
  then show ?case using nt_invD(4,5)[OF not_again(3)]
    by (intro visit_move_inv[OF not_again(3)]) (simp_all add: visit_inv_def word_inv_def)
next
  case (not_ready s nxt e tok)
  then show ?case using nt_invD(5)[OF not_ready(3)]
    by (intro visit_move_inv[OF not_ready(3)]) (simp_all add: visit_inv_def word_inv_def)
next
  case (read_token s nxt e tok t)
  then show ?case using nt_invD(4,5)[OF read_token(4)]
    by (intro visit_move_inv[OF read_token(4)]) (auto simp: visit_inv_def word_inv_def)
next
  case (read_job s e t)
  then show ?case using nt_invD(4,5)[OF read_job(2)]
    by (intro visit_move_inv[OF read_job(2)]) (auto simp: visit_inv_def word_inv_def)
next
  case (clear_job s)
  then show ?case using nt_invD(5)[OF clear_job(2)]
    by (intro visit_move_inv[OF clear_job(2)]) (simp_all add: visit_inv_def word_inv_def)
qed

lemma node_new_word:
  assumes "node_new q tok interest opt count = Some n"
  shows "nd_token_0 n = tok \<and> \<not> nd_update_lock n \<and> \<not> rs_is_queued (nd_state n) \<and> \<not> rs_is_dropped (nd_state n) \<and>
    rs_token_read_pos (nd_state n) = 0 \<and> rs_token_write_pos (nd_state n) = 0 \<and> \<not> lost (nd_state n)"
proof -
  obtain st where st: "rs_new interest opt = Some st" "nd_state n = st" "nd_token_0 n = tok" "\<not> nd_update_lock n"
    using assms by (auto simp: node_new_def bind_Some_iff)
  have b: "ready_bits interest \<le> MASK_4" "opt_bits opt \<le> MASK_4"
    using st(1) by (auto simp: rs_new_def Let_def ready_as_usize_def opt_as_usize_def split: if_splits)
  obtain st' where v: "rs_new interest opt = Some st'" "rs_view st' = \<lparr>v_readiness = ready_empty, v_interest = interest, v_opt = opt,
      v_read_pos = 0, v_write_pos = 0, v_queued = False, v_dropped = False\<rparr>"
    using view_new[OF b] by blast
  have "st' = st" using st(1) v(1) by simp
  then have v': "rs_view st = \<lparr>v_readiness = ready_empty, v_interest = interest, v_opt = opt,
      v_read_pos = 0, v_write_pos = 0, v_queued = False, v_dropped = False\<rparr>" using v(2) by simp
  have "ready_is_empty (ready_bitand ready_empty interest)" by (cases interest) (simp add: ready_is_empty_def ready_bitand_def ready_empty_def)
  then show ?thesis using st(2-4) unfolding lost_def effective_view view_eqs[symmetric] v' by (simp add: v')
qed

lemma nt_reach_inv: "nt_reach s \<Longrightarrow> nt_inv s"
proof (induction rule: nt_reach.induct)
  case (init q tok interest opt count n)
  then show ?case using node_new_word[OF init]
    by (simp add: nt_init_def nt_inv_def hold_inv_def update_lock_inv_def pc_inv_def visit_inv_def word_inv_def node_token_def)
qed (use node_step_inv visit_step_inv in blast)+

text \<open>The debug assertions and the partial operations of the accesses that are about to be made.\<close>

definition nt_asserts :: "'j node_threads \<Rightarrow> bool" where
  "nt_asserts s \<longleftrightarrow>
     (\<forall>i r st. nt_threads s i = TSet r st \<longrightarrow> rs_is_dropped st \<or> readiness_next r st \<noteq> None) \<and>
     (\<forall>i tok r p j. nt_threads s i = TLocked tok r p j \<longrightarrow>
        node_token (nt_node s) (rs_token_write_pos (nt_word s)) \<noteq> None \<and> rs_next_token_pos (nt_word s) \<noteq> None) \<and>
     (\<forall>i p r opt j st. nt_threads s i = TUpdate p r opt j st \<longrightarrow>
        update_next p r opt st \<noteq> None \<and> rs_token_write_pos st = rs_token_write_pos (nt_word s)) \<and>
     (nt_owned s \<longrightarrow> flag_as_dropped (nt_word s) \<noteq> None) \<and>
     (\<forall>st. nt_visit s = VLoop st \<longrightarrow> poll_transition st \<noteq> None) \<and>
     (\<forall>nxt e t. nt_visit s = VToken nxt e t \<longrightarrow> node_token (nt_node s) (rs_token_read_pos nxt) \<noteq> None)"

lemma three_not_le_2: "\<not> (3 :: usize) \<le> 2"
  by simp

lemma nt_inv_asserts:
  assumes "nt_inv s"
  shows "nt_asserts s"
  unfolding nt_asserts_def
proof (intro conjI allI impI)
  note w = nt_invD(5)[OF assms, unfolded word_inv_def]
  fix i
  show "rs_is_dropped st \<or> readiness_next r st \<noteq> None" if "nt_threads s i = TSet r st" for r st
    using readiness_next_Some[of r st] nt_invD(3)[OF assms, of i] that by (auto simp: pc_inv_def)
  show "update_next p r opt st \<noteq> None" "rs_token_write_pos st = rs_token_write_pos (nt_word s)"
    if "nt_threads s i = TUpdate p r opt j st" for p r opt j st
    using update_next_Some[of p r opt st] nt_invD(3)[OF assms, of i] that by (auto simp: pc_inv_def)
  show "node_token (nt_node s) (rs_token_write_pos (nt_word s)) \<noteq> None" using w by auto
  have "rs_token_read_pos (nt_word s) \<noteq> 3" "rs_token_write_pos (nt_word s) \<noteq> 3" using w three_not_le_2 by metis+
  then show "rs_next_token_pos (nt_word s) \<noteq> None" using next_token_pos_cases[of "nt_word s"] by (auto split: option.splits)
  show "flag_as_dropped (nt_word s) \<noteq> None" if "nt_owned s" using w that by (simp add: flag_as_dropped_def)
  show "poll_transition st \<noteq> None" if "nt_visit s = VLoop st" for st
    using transition_Some nt_invD(4)[OF assms] that by (simp add: visit_inv_def)
  show "node_token (nt_node s) (rs_token_read_pos nxt) \<noteq> None" if "nt_visit s = VToken nxt e t" for nxt e t
    using nt_invD(4)[OF assms] that by (simp add: visit_inv_def)
qed

subsection \<open>Runs\<close>

text \<open>States of a node with one token: the state word, the lock, the job, whether the node is in the queue, where two
  threads and the poller are, and the events so far.\<close>

definition run_state ::
    "usize \<Rightarrow> bool \<Rightarrow> string job \<Rightarrow> bool \<Rightarrow> string node_pc \<Rightarrow> string node_pc \<Rightarrow> visit_pc
       \<Rightarrow> (ready \<times> token_entry \<times> string job) list \<Rightarrow> string node_threads" where
  "run_state w lk job inq p q v evs = \<lparr>nt_node = \<lparr>nd_state = ReadinessState w, nd_token_0 = null_token, nd_token_1 = null_token,
       nd_token_2 = null_token, nd_next = None, nd_update_lock = lk, nd_queue = Some 0, nd_ref_count = 3, nd_job = job\<rparr>,
     nt_inq = inq, nt_owned = True, nt_released = False, nt_threads = (\<lambda>i. if i = 0 then p else if i = 1 then q else TIdle),
     nt_visit = v, nt_published = {null_token}, nt_events = evs\<rparr>"

lemma run_fields: "nt_word (run_state w lk job inq p q v evs) = ReadinessState w" "nt_inq (run_state w lk job inq p q v evs) = inq"
  "nt_owned (run_state w lk job inq p q v evs)" "nt_threads (run_state w lk job inq p q v evs) 0 = p"
  "nt_threads (run_state w lk job inq p q v evs) 1 = q" "nt_visit (run_state w lk job inq p q v evs) = v"
  "nt_published (run_state w lk job inq p q v evs) = {null_token}" "nt_events (run_state w lk job inq p q v evs) = evs"
  by (simp_all add: run_state_def)

lemma run_start: "nt_reach (run_state 0x110 False Noop False TIdle TIdle VIdle [])"
proof -
  have n: "node_new (Some 0) null_token ready_readable opt_edge 3 =
      Some (nt_node (run_state 0x110 False Noop False TIdle TIdle VIdle []))"
    by code_simp
  have "nt_init null_token (nt_node (run_state 0x110 False Noop False TIdle TIdle VIdle [])) = run_state 0x110 False Noop False TIdle TIdle VIdle []"
    by (simp add: nt_init_def run_state_def fun_eq_iff)
  then show ?thesis using nt_reach.init[OF n] by simp
qed

lemma run_words: "readiness_next ready_readable (ReadinessState 0x110) = Some (ReadinessState 0x10111)"
  "newly_queued (ReadinessState 0x110) (ReadinessState 0x10111)" "\<not> rs_is_dropped (ReadinessState 0x110)"
  "poll_transition (ReadinessState 0x10111) = Some (Inr (ReadinessState 0x111, ready_readable))"
  "\<not> rs_is_queued (ReadinessState 0x111)" "rs_token_read_pos (ReadinessState 0x111) = 0" "rs_token_write_pos (ReadinessState 0x111) = 0"
  "update_next 0 ready_readable opt_edge (ReadinessState 0x111) = Some (ReadinessState 0x10111)"
  "newly_queued (ReadinessState 0x111) (ReadinessState 0x10111)" "\<not> ready_is_empty ready_readable"
  "ready_bits ready_readable \<le> MASK_4" "opt_bits opt_edge \<le> MASK_4"
  by code_simp+

lemma thread_to: "nt_reach s \<Longrightarrow> node_step s s' \<Longrightarrow> s' = t \<Longrightarrow> nt_reach t"
  using nt_reach.thread by blast

lemma visit_to: "nt_reach s \<Longrightarrow> visit_step s s' \<Longrightarrow> s' = t \<Longrightarrow> nt_reach t"
  using nt_reach.visit by blast

lemmas run_eval = run_state_def fun_eq_iff run_words node_token_def

text \<open>The node becomes ready and is taken out for the last time.\<close>

lemma run_ready: "nt_reach (run_state 0x10111 False Noop False TAppend TIdle VIdle [])"
proof -
  have "nt_reach (run_state 0x110 False Noop False (TSet ready_readable (ReadinessState 0x110)) TIdle VIdle [])"
    by (rule thread_to[OF run_start node_step.set_load[of _ 0 ready_readable]]) (simp_all add: run_eval)
  then show ?thesis
    by (rule thread_to[OF _ node_step.set_ok[of _ 0 ready_readable "ReadinessState 0x110" "ReadinessState 0x10111"]]) (simp_all add: run_eval)
qed

lemma run_taken: "nt_reach (run_state 0x111 False Noop False TIdle TIdle (VToken (ReadinessState 0x111) ready_readable null_token) [])"
proof -
  have "nt_reach (run_state 0x10111 False Noop True TIdle TIdle VIdle [])"
    by (rule thread_to[OF run_ready node_step.append[of _ 0]]) (simp_all add: run_eval)
  then have "nt_reach (run_state 0x10111 False Noop False TIdle TIdle VTaken [])"
    by (rule visit_to[OF _ visit_step.take]) (simp_all add: run_eval)
  then have "nt_reach (run_state 0x10111 False Noop False TIdle TIdle (VLoop (ReadinessState 0x10111)) [])"
    by (rule visit_to[OF _ visit_step.load]) (simp_all add: run_eval)
  then have "nt_reach (run_state 0x111 False Noop False TIdle TIdle (VAgain (ReadinessState 0x111) ready_readable null_token) [])"
    by (rule visit_to[OF _ visit_step.exchange_ok[of _ "ReadinessState 0x10111" "ReadinessState 0x111" ready_readable null_token]])
      (simp_all add: run_eval)
  then show ?thesis
    by (rule visit_to[OF _ visit_step.not_again[of _ "ReadinessState 0x111" ready_readable null_token]]) (simp_all add: run_eval)
qed


abbreviation new_job :: "string job" where
  "new_job \<equiv> Job ''new''"

text \<open>Before the poller reads the job, another thread updates the registration and queues the node again: it has
  unlocked the node and is about to store its job.\<close>

lemma run_race: "nt_reach (run_state 0x10111 False Noop False TIdle (TJob new_job) (VJob ready_readable null_token) [])"
proof -
  let ?v = "VToken (ReadinessState 0x111) ready_readable null_token"
  have "nt_reach (run_state 0x111 True Noop False TIdle (TLocked null_token ready_readable opt_edge new_job) ?v [])"
    by (rule thread_to[OF run_taken node_step.lock[of _ 1 ready_readable opt_edge null_token new_job]]) (simp_all add: run_eval)
  then have "nt_reach (run_state 0x111 True Noop False TIdle (TUpdate 0 ready_readable opt_edge new_job (ReadinessState 0x111)) ?v [])"
    by (rule thread_to[OF _ node_step.load_same[of _ 1 null_token ready_readable opt_edge new_job]]) (simp_all add: run_eval)
  then have "nt_reach (run_state 0x10111 True Noop False TIdle (TUnlock (Some new_job)) ?v [])"
    by (rule thread_to[OF _ node_step.update_ok[of _ 1 0 ready_readable opt_edge new_job "ReadinessState 0x111" "ReadinessState 0x10111"]])
      (simp_all add: run_eval)
  then have "nt_reach (run_state 0x10111 False Noop False TIdle (TJob new_job) ?v [])"
    by (rule thread_to[OF _ node_step.unlock[of _ 1 "Some new_job"]]) (simp_all add: run_eval)
  then show ?thesis
    by (rule visit_to[OF _ visit_step.read_token[of _ "ReadinessState 0x111" ready_readable null_token null_token]]) (simp_all add: run_eval)
qed

text \<open>The job is stored, read for the old event and cleared after the node has been appended for the new one.\<close>

lemma run_overwritten: "nt_reach (run_state 0x10111 False Noop True TIdle TIdle VIdle [(ready_readable, null_token, new_job)])"
proof -
  let ?e = "[(ready_readable, null_token, new_job)]"
  have "nt_reach (run_state 0x10111 False new_job False TIdle TAppend (VJob ready_readable null_token) [])"
    by (rule thread_to[OF run_race node_step.store_job[of _ 1 new_job]]) (simp_all add: run_eval)
  then have "nt_reach (run_state 0x10111 False new_job False TIdle TAppend VClear ?e)"
    by (rule visit_to[OF _ visit_step.read_job[of _ ready_readable null_token]]) (simp_all add: run_eval)
  then have "nt_reach (run_state 0x10111 False new_job True TIdle TIdle VClear ?e)"
    by (rule thread_to[OF _ node_step.append[of _ 1]]) (simp_all add: run_eval)
  then show ?thesis by (rule visit_to[OF _ visit_step.clear_job]) (simp_all add: run_eval)
qed

lemma run_lost: "nt_reach (run_state 0x111 False Noop False TIdle TIdle VClear
    [(ready_readable, null_token, new_job), (ready_readable, null_token, Noop)])"
proof -
  let ?e = "[(ready_readable, null_token, new_job)]"
  have "nt_reach (run_state 0x10111 False Noop False TIdle TIdle VTaken ?e)"
    by (rule visit_to[OF run_overwritten visit_step.take]) (simp_all add: run_eval)
  then have "nt_reach (run_state 0x10111 False Noop False TIdle TIdle (VLoop (ReadinessState 0x10111)) ?e)"
    by (rule visit_to[OF _ visit_step.load]) (simp_all add: run_eval)
  then have "nt_reach (run_state 0x111 False Noop False TIdle TIdle (VAgain (ReadinessState 0x111) ready_readable null_token) ?e)"
    by (rule visit_to[OF _ visit_step.exchange_ok[of _ "ReadinessState 0x10111" "ReadinessState 0x111" ready_readable null_token]])
      (simp_all add: run_eval)
  then have "nt_reach (run_state 0x111 False Noop False TIdle TIdle (VToken (ReadinessState 0x111) ready_readable null_token) ?e)"
    by (rule visit_to[OF _ visit_step.not_again[of _ "ReadinessState 0x111" ready_readable null_token]]) (simp_all add: run_eval)
  then have "nt_reach (run_state 0x111 False Noop False TIdle TIdle (VJob ready_readable null_token) ?e)"
    by (rule visit_to[OF _ visit_step.read_token[of _ "ReadinessState 0x111" ready_readable null_token null_token]]) (simp_all add: run_eval)
  then show ?thesis
    by (rule visit_to[OF _ visit_step.read_job[of _ ready_readable null_token]]) (simp_all add: run_eval)
qed

subsection \<open>Properties\<close>

text \<open>C26. However \<open>set_readiness\<close>, \<open>update\<close>, the drop of the registration and the poller's visit interleave on the state
  word, no debug assertion, slot or position of theirs is out of bounds, and a node is never appended twice: a thread
  that is about to append it is the only one, the queue does not hold the node, and the poller is not
  visiting it with the queued bit still set.\<close>

theorem node_threads_once:
  assumes "nt_reach s"
  shows "nt_asserts s \<and> (nt_threads s i = TAppend \<longrightarrow> \<not> nt_inq s \<and> nt_visit s \<noteq> VTaken \<and>
      (\<forall>j. nt_threads s j = TAppend \<longrightarrow> j = i)) \<and>
    (nt_visit s = VAgain nxt e t \<and> rs_is_queued nxt \<longrightarrow> \<not> nt_inq s \<and> nt_threads s j \<noteq> TAppend)"
proof -
  note h = nt_invD(1)[OF nt_reach_inv[OF assms], unfolded hold_inv_def]
  have "\<not> nt_inq s \<and> nt_visit s \<noteq> VTaken \<and> (\<forall>j. nt_threads s j = TAppend \<longrightarrow> j = i)" if "nt_threads s i = TAppend"
    using h that by (metis pc_holds_simps(6) visit_holds_simps(2))
  moreover have "\<not> nt_inq s \<and> nt_threads s j \<noteq> TAppend" if "nt_visit s = VAgain nxt e t" "rs_is_queued nxt"
    using h that by (metis pc_holds_simps(6) visit_holds_simps(4))
  ultimately show ?thesis using nt_inv_asserts[OF nt_reach_inv[OF assms]] by blast
qed

theorem node_threads_once_witness:
  "(let s = run_state 0x10111 False Noop False TAppend TIdle VIdle [] in \<not> nt_inq s \<and> nt_asserts s)"
  unfolding Let_def using node_threads_once[OF run_ready, of 0] unfolding run_fields by blast

text \<open>C25. No readiness is lost between the threads and the poller: as long as the registration has not been dropped, a
  node whose queued bit is set, and a level-triggered node whose readiness meets its interest, is in the
  queue, is about to be appended by a thread, or is being visited by the poller, which has yet to exchange
  the state or to append the node again.\<close>

theorem node_threads_no_lost_readiness:
  assumes "nt_reach s" "nt_owned s"
    and "rs_is_queued (nt_word s) \<or> \<not> opt_is_edge (rs_poll_opt (nt_word s)) \<and> \<not> ready_is_empty (rs_effective_readiness (nt_word s))"
  shows "nt_inq s \<or> (\<exists>i. nt_threads s i = TAppend \<or> (\<exists>job. nt_threads s i = TJob job \<or> nt_threads s i = TUnlock (Some job))) \<or>
    nt_visit s = VTaken \<or> (\<exists>st. nt_visit s = VLoop st) \<or> (\<exists>nxt e t. nt_visit s = VAgain nxt e t \<and> rs_is_queued nxt)"
proof -
  note inv = nt_reach_inv[OF assms(1)]
  have w: "\<not> rs_is_dropped (nt_word s)" "\<not> lost (nt_word s)" using nt_invD(5)[OF inv] assms(2) unfolding word_inv_def by blast+
  then have "rs_is_queued (nt_word s)" using assms(3) unfolding lost_def by blast
  then have h: "nt_inq s \<or> visit_holds (nt_visit s) \<or> (\<exists>i. pc_holds (nt_threads s i))"
    using nt_invD(1)[OF inv] w(1) unfolding hold_inv_def by blast
  have v: "nt_visit s = VTaken \<or> (\<exists>st. nt_visit s = VLoop st) \<or> (\<exists>nxt e t. nt_visit s = VAgain nxt e t \<and> rs_is_queued nxt)"
    if "visit_holds (nt_visit s)" using that by (cases "nt_visit s") auto
  have "nt_threads s i = TAppend \<or> (\<exists>job. nt_threads s i = TJob job \<or> nt_threads s i = TUnlock (Some job))"
    if "pc_holds (nt_threads s i)" for i using that by (cases "nt_threads s i") auto
  then show ?thesis using h v by metis
qed

theorem node_threads_no_lost_readiness_witness:
  "\<exists>i. nt_threads (run_state 0x10111 False Noop False TIdle (TJob new_job) (VJob ready_readable null_token) []) i \<noteq> TIdle"
proof -
  let ?s = "run_state 0x10111 False Noop False TIdle (TJob new_job) (VJob ready_readable null_token) []"
  have q: "rs_is_queued (ReadinessState 0x10111)" by code_simp
  have "rs_is_queued (nt_word ?s) \<or> \<not> opt_is_edge (rs_poll_opt (nt_word ?s)) \<and> \<not> ready_is_empty (rs_effective_readiness (nt_word ?s))"
    unfolding run_fields(1) using q by blast
  from node_threads_no_lost_readiness[OF run_race run_fields(3) this]
  obtain i where i: "nt_threads ?s i = TAppend \<or> (\<exists>job. nt_threads ?s i = TJob job \<or> nt_threads ?s i = TUnlock (Some job))"
    unfolding run_fields(2,6) by blast
  have "nt_threads ?s i \<noteq> TIdle" using i by (elim disjE exE) (simp_all only: node_pc.distinct not_False_eq_True)
  then show ?thesis by blast
qed

text \<open>C28. The poller reads a token that was registered: while it reads the slot at the read position of the state it has
  exchanged, the slot holds the token that was there at the exchange, no \<open>update\<close> is about to write to
  that slot, and the events carry tokens that were registered.\<close>

theorem node_threads_tokens:
  assumes "nt_reach s"
  shows "(\<forall>nxt e t. nt_visit s = VToken nxt e t \<longrightarrow> node_token (nt_node s) (rs_token_read_pos nxt) = Some t \<and>
      t \<in> nt_published s \<and> (\<forall>i tok r p j st. nt_threads s i \<noteq> TWrite (rs_token_read_pos nxt) tok r p j st)) \<and>
    (\<forall>(e, t, j) \<in> set (nt_events s). t \<in> nt_published s)"
proof -
  note inv = nt_reach_inv[OF assms]
  note w = nt_invD(5)[OF inv, unfolded word_inv_def]
  have "node_token (nt_node s) (rs_token_read_pos nxt) = Some t \<and> t \<in> nt_published s \<and>
      (\<forall>i tok r p j st. nt_threads s i \<noteq> TWrite (rs_token_read_pos nxt) tok r p j st)" if "nt_visit s = VToken nxt e t" for nxt e t
  proof -
    have r: "rs_token_read_pos nxt = rs_token_read_pos (nt_word s)" "node_token (nt_node s) (rs_token_read_pos (nt_word s)) = Some t"
      using nt_invD(4)[OF inv] that by (simp_all add: visit_inv_def)
    moreover have "nt_threads s i \<noteq> TWrite (rs_token_read_pos (nt_word s)) tok r p j st" for i tok r p j st
      using nt_invD(3)[OF inv, of i] by (auto simp: pc_inv_def)
    ultimately show ?thesis using w by auto
  qed
  then show ?thesis using w by blast
qed

theorem node_threads_tokens_witness:
  "(let s = run_state 0x111 False Noop False TIdle TIdle (VToken (ReadinessState 0x111) ready_readable null_token) []
    in node_token (nt_node s) (rs_token_read_pos (ReadinessState 0x111)) = Some null_token)"
  unfolding Let_def using node_threads_tokens[OF run_taken] unfolding run_fields by blast

text \<open>C27. A ready node that is in the queue is delivered by the poller's next visit, once no thread gets in between: its
  event carries the readiness of the state word that meets the interest, the token registered last and the
  job of the node, which is cleared.\<close>

theorem node_threads_delivers:
  assumes "nt_reach s" "nt_owned s" "nt_inq s" "nt_visit s = VIdle"
    and "\<not> ready_is_empty (rs_effective_readiness (nt_word s))"
  shows "\<exists>s' t. visit_step\<^sup>*\<^sup>* s s' \<and> nt_visit s' = VIdle \<and> nt_threads s' = nt_threads s \<and> nd_job (nt_node s') = Noop \<and>
    node_token (nt_node s) (rs_token_write_pos (nt_word s)) = Some t \<and>
    nt_events s' = nt_events s @ [(rs_effective_readiness (nt_word s), t, nd_job (nt_node s))]"
proof -
  note inv = nt_reach_inv[OF assms(1)]
  let ?e = "rs_effective_readiness (nt_word s)"
  have w: "rs_is_queued (nt_word s)" "\<not> rs_is_dropped (nt_word s)"
    using nt_invD(1,5)[OF inv] assms(2,3) unfolding hold_inv_def word_inv_def by blast+
  obtain nxt where t: "poll_transition (nt_word s) = Some (Inr (nxt, ?e))"
    using transition_spec[OF _ _ refl refl, of "nt_word s"] w unfolding view_eqs by blast
  obtain tok where tok: "node_token (nt_node s) (rs_token_write_pos (nt_word s)) = Some tok"
    using nt_invD(5)[OF inv] unfolding word_inv_def by blast
  then have tok': "node_token (nt_node s) (rs_token_read_pos nxt) = Some tok" using transition_next[OF t] by simp
  let ?s1 = "s\<lparr>nt_visit := VTaken, nt_inq := False\<rparr>"
  let ?s2 = "?s1\<lparr>nt_visit := VLoop (nt_word s)\<rparr>"
  have 12: "visit_step s ?s1" "visit_step ?s1 ?s2"
    using visit_step.take[OF assms(4,3)] visit_step.load[of ?s1] by simp_all
  obtain n where n: "visit_step ?s2 (?s2\<lparr>nt_node := n, nt_visit := VAgain nxt ?e tok\<rparr>)" "nd_job n = nd_job (nt_node s)"
    "node_token n (rs_token_read_pos nxt) = Some tok"
  proof (cases "nxt = nt_word s")
    case True
    have "?s2\<lparr>nt_visit := VAgain nxt ?e tok\<rparr> = ?s2\<lparr>nt_node := nt_node s, nt_visit := VAgain nxt ?e tok\<rparr>" by simp
    then show ?thesis using that[of "nt_node s"] visit_step.unchanged[of ?s2, OF _ t True] tok' by simp
  next
    case False
    have "node_token ((nt_node s)\<lparr>nd_state := nxt\<rparr>) p = node_token (nt_node s) p" for p by (simp add: node_token_def)
    then show ?thesis using that[of "(nt_node s)\<lparr>nd_state := nxt\<rparr>"] visit_step.exchange_ok[of ?s2, OF _ t False] tok' by simp
  qed
  let ?s3 = "?s2\<lparr>nt_node := n, nt_visit := VAgain nxt ?e tok\<rparr>"
  let ?s4 = "?s3\<lparr>nt_visit := VToken nxt ?e tok, nt_inq := rs_is_queued nxt\<rparr>"
  have 34: "visit_step ?s3 ?s4"
  proof (cases "rs_is_queued nxt")
    case True
    then show ?thesis using visit_step.append_again[of ?s3] by simp
  next
    case False
    then have s4: "?s4 = ?s3\<lparr>nt_visit := VToken nxt ?e tok\<rparr>" by (intro node_threads.equality) simp_all
    show ?thesis unfolding s4 by (rule visit_step.not_again[of ?s3 nxt ?e tok]) (simp_all add: False)
  qed
  let ?s5 = "?s4\<lparr>nt_visit := VJob ?e tok\<rparr>"
  have 45: "visit_step ?s4 ?s5" using visit_step.read_token[of ?s4 nxt ?e tok tok] assms(5) n(3) by simp
  let ?s6 = "?s5\<lparr>nt_visit := VClear, nt_events := nt_events s @ [(?e, tok, nd_job (nt_node s))]\<rparr>"
  have 56: "visit_step ?s5 ?s6" using visit_step.read_job[of ?s5] n(2) by simp
  let ?s7 = "?s6\<lparr>nt_visit := VIdle, nt_node := n\<lparr>nd_job := Noop\<rparr>\<rparr>"
  have 67: "visit_step ?s6 ?s7" using visit_step.clear_job[of ?s6] by simp
  have "visit_step\<^sup>*\<^sup>* s ?s7"
    using 12 n(1) 34 45 56 67 by (meson converse_rtranclp_into_rtranclp rtranclp.rtrancl_refl)
  moreover have "nt_events ?s7 = nt_events s @ [(?e, tok, nd_job (nt_node s))]" "nt_visit ?s7 = VIdle"
    "nt_threads ?s7 = nt_threads s" "nd_job (nt_node ?s7) = Noop" by simp_all
  ultimately show ?thesis using tok by blast
qed

theorem node_threads_delivers_witness:
  "\<exists>s'. visit_step\<^sup>*\<^sup>* (run_state 0x10111 False Noop True TIdle TIdle VIdle [(ready_readable, null_token, new_job)]) s' \<and>
     nt_events s' = [(ready_readable, null_token, new_job), (ready_readable, null_token, Noop)]"
proof -
  let ?s = "run_state 0x10111 False Noop True TIdle TIdle VIdle [(ready_readable, null_token, new_job)]"
  have e: "rs_effective_readiness (ReadinessState 0x10111) = ready_readable" "rs_token_write_pos (ReadinessState 0x10111) = 0" by code_simp+
  have n: "nt_inq ?s" "nt_visit ?s = VIdle" "nd_job (nt_node ?s) = Noop" "node_token (nt_node ?s) 0 = Some null_token"
    "nt_events ?s = [(ready_readable, null_token, new_job)]"
    by (simp_all add: run_state_def node_token_def)
  have "\<not> ready_is_empty (rs_effective_readiness (nt_word ?s))" unfolding run_fields e by (rule run_words(10))
  from node_threads_delivers[OF run_overwritten run_fields(3) n(1,2) this]
  obtain s' t where "visit_step\<^sup>*\<^sup>* ?s s'" "node_token (nt_node ?s) 0 = Some t"
    "nt_events s' = nt_events ?s @ [(ready_readable, t, Noop)]" unfolding n(3) run_fields(1) e by blast
  then show ?thesis using n(4,5) by auto
qed

text \<open>C39. \<open>update\<close> stores its job after it has unlocked the node and published the state, without a lock: a run reaches a
  state where one thread is about to write the job while the poller is about to read it, and from
  there the event of the old readiness carries the job of the update, which the poller then clears, so
  that the event of the update carries the job that does nothing.\<close>

theorem job_race:
  "(\<exists>s i. nt_reach s \<and> nt_threads s i = TJob new_job \<and> nt_visit s = VJob ready_readable null_token \<and> nt_events s = []) \<and>
   (\<exists>s. nt_reach s \<and> nt_events s = [(ready_readable, null_token, new_job), (ready_readable, null_token, Noop)])"
proof -
  show ?thesis using run_race run_lost run_fields(5,6,8) by metis
qed

end
