(* ===== verification/PollLock.thy ===== *)
theory PollLock
  imports Prelude
begin

unbundle bit_operations_syntax

section \<open>The lock around the poller\<close>

text \<open>
  \<open>Poll::poll1\<close> of \<open>src/poll.rs\<close>: any number of threads may call \<open>poll\<close>, one at a time gets to
  \<open>poll2\<close>. The word \<open>lock_state\<close> holds the number of waiting threads in its upper bits and
  the held bit at the bottom; a thread that has to wait sleeps on the condition variable. Each
  rule is one atomic access of the source: an exchange that succeeds, one that fails (and
  leaves the value it found in \<open>curr\<close>), taking the mutex, waiting, being woken. The flag
  \<open>lk_zero\<close> of a thread says whether its \<open>timeout\<close> is zero, or has become so.
\<close>

datatype pl_pc =
    PIdle
  | PWantMutex usize
  | PLoop usize bool
  | PEnter
  | PWait
  | PWoken
  | PReload
  | PCrit
  | PReleased
  | PNotify
  | PPanic

record poll_lock =
  lk_state :: usize
  lk_mutex :: "nat option"
  lk_pcs :: "pl_pc list"
  lk_zero :: "bool list"

definition lk_init :: "nat \<Rightarrow> poll_lock" where
  "lk_init n = \<lparr>lk_state = 0, lk_mutex = None, lk_pcs = replicate n PIdle, lk_zero = replicate n False\<rparr>"

abbreviation at_pc :: "poll_lock \<Rightarrow> nat \<Rightarrow> pl_pc \<Rightarrow> bool" where
  "at_pc s i p \<equiv> i < length (lk_pcs s) \<and> lk_pcs s ! i = p"

definition go :: "poll_lock \<Rightarrow> nat \<Rightarrow> pl_pc \<Rightarrow> poll_lock" where
  "go s i p = s\<lparr>lk_pcs := (lk_pcs s)[i := p]\<rparr>"

inductive poll1_step :: "poll_lock \<Rightarrow> poll_lock \<Rightarrow> bool" where
  start_free: "at_pc s i PIdle \<Longrightarrow> lk_state s = 0 \<Longrightarrow>
    poll1_step s (go (s\<lparr>lk_state := 1\<rparr>) i PCrit)"
| start_busy: "at_pc s i PIdle \<Longrightarrow> lk_state s \<noteq> 0 \<Longrightarrow>
    poll1_step s (go (s\<lparr>lk_zero := (lk_zero s)[i := z]\<rparr>) i (PWantMutex (lk_state s)))"
| lock: "at_pc s i (PWantMutex c) \<Longrightarrow> lk_mutex s = None \<Longrightarrow>
    poll1_step s (go (s\<lparr>lk_mutex := Some i\<rparr>) i (PLoop c False))"
| take: "at_pc s i (PLoop c inc) \<Longrightarrow> c AND 1 = 0 \<Longrightarrow> lk_state s = c \<Longrightarrow>
    poll1_step s (go (s\<lparr>lk_state := (if inc then (c OR 1) - 2 else c OR 1), lk_mutex := None\<rparr>) i PCrit)"
| take_retry: "at_pc s i (PLoop c inc) \<Longrightarrow> c AND 1 = 0 \<Longrightarrow> lk_state s \<noteq> c \<Longrightarrow>
    poll1_step s (go s i (PLoop (lk_state s) inc))"
| give_up: "at_pc s i (PLoop c inc) \<Longrightarrow> c AND 1 \<noteq> 0 \<Longrightarrow> lk_zero s ! i \<Longrightarrow>
    poll1_step s (go (s\<lparr>lk_state := (if inc then lk_state s - 2 else lk_state s), lk_mutex := None\<rparr>) i PIdle)"
| overflow: "at_pc s i (PLoop c False) \<Longrightarrow> c AND 1 \<noteq> 0 \<Longrightarrow> \<not> lk_zero s ! i \<Longrightarrow> add_u64 c 2 = None \<Longrightarrow>
    poll1_step s (go (s\<lparr>lk_mutex := None\<rparr>) i PPanic)"
| count: "at_pc s i (PLoop c False) \<Longrightarrow> c AND 1 \<noteq> 0 \<Longrightarrow> \<not> lk_zero s ! i \<Longrightarrow> add_u64 c 2 = Some n \<Longrightarrow>
    lk_state s = c \<Longrightarrow> poll1_step s (go (s\<lparr>lk_state := n\<rparr>) i PEnter)"
| count_retry: "at_pc s i (PLoop c False) \<Longrightarrow> c AND 1 \<noteq> 0 \<Longrightarrow> \<not> lk_zero s ! i \<Longrightarrow> add_u64 c 2 = Some n \<Longrightarrow>
    lk_state s \<noteq> c \<Longrightarrow> poll1_step s (go s i (PLoop (lk_state s) False))"
| again: "at_pc s i (PLoop c True) \<Longrightarrow> c AND 1 \<noteq> 0 \<Longrightarrow> \<not> lk_zero s ! i \<Longrightarrow>
    poll1_step s (go s i PEnter)"
| wait: "at_pc s i PEnter \<Longrightarrow> poll1_step s (go (s\<lparr>lk_mutex := None\<rparr>) i PWait)"
| wake: "at_pc s i PWait \<Longrightarrow> poll1_step s (go (s\<lparr>lk_zero := (lk_zero s)[i := z]\<rparr>) i PWoken)"
| relock: "at_pc s i PWoken \<Longrightarrow> lk_mutex s = None \<Longrightarrow>
    poll1_step s (go (s\<lparr>lk_mutex := Some i\<rparr>) i PReload)"
| reload: "at_pc s i PReload \<Longrightarrow> poll1_step s (go s i (PLoop (lk_state s) True))"
| unlock: "at_pc s i PCrit \<Longrightarrow>
    poll1_step s (go (s\<lparr>lk_state := lk_state s AND NOT 1\<rparr>) i (if lk_state s \<noteq> 1 then PReleased else PIdle))"
| notify_lock: "at_pc s i PReleased \<Longrightarrow> lk_mutex s = None \<Longrightarrow>
    poll1_step s (go (s\<lparr>lk_mutex := Some i\<rparr>) i PNotify)"
| notify_one: "at_pc s i PNotify \<Longrightarrow> at_pc s j PWait \<Longrightarrow>
    poll1_step s (go (go (s\<lparr>lk_mutex := None, lk_zero := (lk_zero s)[j := z]\<rparr>) j PWoken) i PIdle)"
| notify_none: "at_pc s i PNotify \<Longrightarrow> PWait \<notin> set (lk_pcs s) \<Longrightarrow>
    poll1_step s (go (s\<lparr>lk_mutex := None\<rparr>) i PIdle)"

inductive poll1_reach :: "nat \<Rightarrow> poll_lock \<Rightarrow> bool" for n :: nat where
  init: "poll1_reach n (lk_init n)"
| step: "poll1_reach n s \<Longrightarrow> poll1_step s s' \<Longrightarrow> poll1_reach n s'"

subsection \<open>Counting threads\<close>

text \<open>The threads the word counts, those that hold the mutex, and those that will look at the word
  again or wake another.\<close>

definition counted_pc :: "pl_pc \<Rightarrow> bool" where
  "counted_pc p \<longleftrightarrow> (\<exists>c. p = PLoop c True) \<or> p = PEnter \<or> p = PWait \<or> p = PWoken \<or> p = PReload"

definition owns_mutex :: "pl_pc \<Rightarrow> bool" where
  "owns_mutex p \<longleftrightarrow> (\<exists>c b. p = PLoop c b) \<or> p = PEnter \<or> p = PReload \<or> p = PNotify"

definition agent_pc :: "pl_pc \<Rightarrow> bool" where
  "agent_pc p \<longleftrightarrow> p = PReleased \<or> p = PNotify \<or> p = PWoken \<or> p = PReload \<or> (\<exists>c. p = PLoop c True \<and> c AND 1 = 0)"

definition going_to_wait :: "pl_pc \<Rightarrow> bool" where
  "going_to_wait p \<longleftrightarrow> p = PEnter \<or> (\<exists>c. p = PLoop c True \<and> c AND 1 \<noteq> 0)"

definition waiters :: "poll_lock \<Rightarrow> nat" where
  "waiters s = length (filter counted_pc (lk_pcs s))"

definition holders :: "poll_lock \<Rightarrow> nat" where
  "holders s = length (filter (\<lambda>p. p = PCrit) (lk_pcs s))"

lemma filter_update:
  "i < length xs \<Longrightarrow> length (filter P (xs[i := x])) + of_bool (P (xs ! i)) = length (filter P xs) + of_bool (P x)"
proof (induction xs arbitrary: i)
  case (Cons y ys)
  then show ?case
  proof (cases i)
    case (Suc j)
    with Cons.prems have "j < length ys" by simp
    from Cons.IH[OF this] show ?thesis using Suc by simp
  qed simp
qed simp

lemma go_simps [simp]:
  "lk_state (go s i p) = lk_state s" "lk_mutex (go s i p) = lk_mutex s" "lk_zero (go s i p) = lk_zero s"
  "lk_pcs (go s i p) = (lk_pcs s)[i := p]"
  by (simp_all add: go_def)

lemma waiters_go:
  "i < length (lk_pcs s) \<Longrightarrow> waiters (go s i p) + of_bool (counted_pc (lk_pcs s ! i)) = waiters s + of_bool (counted_pc p)"
  unfolding waiters_def go_simps by (rule filter_update)

lemma holders_go:
  "i < length (lk_pcs s) \<Longrightarrow> holders (go s i p) + of_bool (lk_pcs s ! i = PCrit) = holders s + of_bool (p = PCrit)"
  unfolding holders_def go_simps by (rule filter_update)

lemma counts_upd [simp]:
  "waiters (s\<lparr>lk_state := x\<rparr>) = waiters s" "waiters (s\<lparr>lk_mutex := m\<rparr>) = waiters s" "waiters (s\<lparr>lk_zero := z\<rparr>) = waiters s"
  "holders (s\<lparr>lk_state := x\<rparr>) = holders s" "holders (s\<lparr>lk_mutex := m\<rparr>) = holders s" "holders (s\<lparr>lk_zero := z\<rparr>) = holders s"
  by (simp_all add: waiters_def holders_def)

lemma counted_pc_simps [simp]:
  "\<not> counted_pc PIdle" "\<not> counted_pc (PWantMutex c)" "counted_pc (PLoop c b) = b" "counted_pc PEnter" "counted_pc PWait"
  "counted_pc PWoken" "counted_pc PReload" "\<not> counted_pc PCrit" "\<not> counted_pc PReleased" "\<not> counted_pc PNotify"
  "\<not> counted_pc PPanic"
  by (simp_all add: counted_pc_def)

lemma owns_mutex_simps [simp]:
  "\<not> owns_mutex PIdle" "\<not> owns_mutex (PWantMutex c)" "owns_mutex (PLoop c b)" "owns_mutex PEnter" "\<not> owns_mutex PWait"
  "\<not> owns_mutex PWoken" "owns_mutex PReload" "\<not> owns_mutex PCrit" "\<not> owns_mutex PReleased" "owns_mutex PNotify"
  "\<not> owns_mutex PPanic"
  by (simp_all add: owns_mutex_def)

lemma agent_pc_simps [simp]:
  "\<not> agent_pc PIdle" "\<not> agent_pc (PWantMutex c)" "agent_pc (PLoop c b) \<longleftrightarrow> b \<and> c AND 1 = 0" "\<not> agent_pc PEnter"
  "\<not> agent_pc PWait" "agent_pc PWoken" "agent_pc PReload" "\<not> agent_pc PCrit" "agent_pc PReleased" "agent_pc PNotify"
  "\<not> agent_pc PPanic"
  by (auto simp: agent_pc_def)

lemma going_to_wait_simps [simp]:
  "\<not> going_to_wait PIdle" "\<not> going_to_wait (PWantMutex c)" "going_to_wait (PLoop c b) \<longleftrightarrow> b \<and> c AND 1 \<noteq> 0"
  "going_to_wait PEnter" "\<not> going_to_wait PWait" "\<not> going_to_wait PWoken" "\<not> going_to_wait PReload"
  "\<not> going_to_wait PCrit" "\<not> going_to_wait PReleased" "\<not> going_to_wait PNotify" "\<not> going_to_wait PPanic"
  by (auto simp: going_to_wait_def)

subsection \<open>The invariant\<close>

text \<open>The word counts the waiters and says whether the poller is taken; at most one thread has it; the
  mutex is where the program points say; nobody has panicked, and nobody remembers a value of
  the word that so many threads cannot have produced.\<close>

definition seen :: "pl_pc \<Rightarrow> nat" where
  "seen p = (case p of PWantMutex c \<Rightarrow> unat c | PLoop c _ \<Rightarrow> unat c | _ \<Rightarrow> 0)"

lemma seen_simps [simp]:
  "seen PIdle = 0" "seen (PWantMutex c) = unat c" "seen (PLoop c b) = unat c" "seen PEnter = 0" "seen PWait = 0"
  "seen PWoken = 0" "seen PReload = 0" "seen PCrit = 0" "seen PReleased = 0" "seen PNotify = 0" "seen PPanic = 0"
  by (simp_all add: seen_def)

definition lock_inv :: "poll_lock \<Rightarrow> bool" where
  "lock_inv s \<longleftrightarrow> unat (lk_state s) = 2 * waiters s + holders s \<and> holders s \<le> 1 \<and>
     (\<forall>i. i < length (lk_pcs s) \<longrightarrow> (owns_mutex (lk_pcs s ! i) \<longleftrightarrow> lk_mutex s = Some i)) \<and>
     PPanic \<notin> set (lk_pcs s) \<and> (\<forall>p \<in> set (lk_pcs s). seen p \<le> 2 * length (lk_pcs s))"

text \<open>No wake-up is lost: while the poller is free, somebody who will look at the word or wake a waiter
  exists whenever there is a waiter; and a thread on its way to sleep, which has seen the
  poller taken, still has the notification ahead of it.\<close>

definition awake_inv :: "poll_lock \<Rightarrow> bool" where
  "awake_inv s \<longleftrightarrow> holders s = 0 \<longrightarrow>
     (0 < waiters s \<longrightarrow> (\<exists>p \<in> set (lk_pcs s). agent_pc p)) \<and>
     ((\<exists>p \<in> set (lk_pcs s). going_to_wait p) \<longrightarrow> PReleased \<in> set (lk_pcs s))"

lemma unat_odd: "(w :: u64) AND 1 = 0 \<longleftrightarrow> even (unat w)"
  by (simp add: and_one_eq even_iff_mod_2_eq_zero word_unat_eq_iff unat_mod)

lemma counts_bound: "waiters s + holders s \<le> length (lk_pcs s)"
proof -
  have "length (filter counted_pc xs) + length (filter (\<lambda>p. p = PCrit) xs) \<le> length xs" for xs
    by (induction xs) auto
  then show ?thesis by (simp add: waiters_def holders_def)
qed

lemma unat_or_one: "even (unat (c :: u64)) \<Longrightarrow> unat (c OR 1) = unat c + 1"
proof -
  assume e: "even (unat c)"
  have "even c" using e by (simp add: even_iff_mod_2_eq_zero word_unat_eq_iff unat_mod)
  then have "c OR 1 = c + 1" by (simp add: or_one_eq)
  moreover have "unat c \<noteq> 2 ^ 64 - 1" using e by auto
  then have "c \<noteq> - 1" by auto
  ultimately show ?thesis using add_one_u64(2)[of c] by (simp add: word_order.not_eq_extremum)
qed

lemma unat_and_not_one: "unat (c AND NOT 1 :: u64) = unat c - unat c mod 2"
proof -
  have "push_bit 1 (drop_bit 1 c) = c AND NOT 1"
    by (rule bit_eqI) (auto simp only: bit_push_bit_iff bit_drop_bit_eq bit_and_iff bit_not_iff bit_1_iff
        o_apply possible_bit_def le_add_diff_inverse not_gr_zero less_one)
  then have "(c AND NOT 1) + (c AND 1) = c"
    using bits_ident[of 1 c] by (simp add: take_bit_eq_mask)
  then have "c AND NOT 1 = c - (c AND 1)" by (simp add: eq_diff_eq)
  moreover have "unat (c AND 1) = unat c mod 2" by (simp add: and_one_eq unat_mod)
  moreover have "c AND 1 \<le> c" by (simp add: word_and_le2)
  ultimately show ?thesis by (simp add: unat_sub)
qed

lemma lock_invD:
  assumes "lock_inv s"
  shows "unat (lk_state s) = 2 * waiters s + holders s" and "holders s \<le> 1"
    and "i < length (lk_pcs s) \<Longrightarrow> owns_mutex (lk_pcs s ! i) \<longleftrightarrow> lk_mutex s = Some i"
    and "PPanic \<notin> set (lk_pcs s)" and "lk_state s AND 1 = 0 \<longleftrightarrow> holders s = 0"
    and "p \<in> set (lk_pcs s) \<Longrightarrow> seen p \<le> 2 * length (lk_pcs s)" and "unat (lk_state s) \<le> 2 * length (lk_pcs s)"
  using assms counts_bound[of s] unfolding unat_odd by (auto simp: lock_inv_def)

text \<open>One thread moves: the word changes by what the thread adds to the counts, and the mutex goes
  only from or to that thread.\<close>

lemma lock_inv_go:
  assumes inv: "lock_inv s" and u: "lk_pcs u = lk_pcs s" and i: "at_pc s i old"
    and w: "unat (lk_state u) + 2 * of_bool (counted_pc old) + of_bool (old = PCrit) =
      unat (lk_state s) + 2 * of_bool (counted_pc p) + of_bool (p = PCrit)"
    and crit: "p = PCrit \<Longrightarrow> holders s = 0"
    and m: "owns_mutex p \<longleftrightarrow> lk_mutex u = Some i" "\<And>j. j \<noteq> i \<Longrightarrow> lk_mutex u = Some j \<longleftrightarrow> lk_mutex s = Some j"
    and p: "p \<noteq> PPanic" "seen p \<le> 2 * length (lk_pcs s)"
  shows "lock_inv (go u i p)"
proof -
  note d = lock_invD[OF inv]
  have c: "waiters u = waiters s" "holders u = holders s" using u by (simp_all add: waiters_def holders_def)
  have n: "waiters (go u i p) + of_bool (counted_pc old) = waiters s + of_bool (counted_pc p)"
    "holders (go u i p) + of_bool (old = PCrit) = holders s + of_bool (p = PCrit)"
    using waiters_go[of i u p] holders_go[of i u p] i u c by simp_all
  have "PPanic \<notin> set (lk_pcs (go u i p))"
    using d(4) p(1) u set_update_subset_insert[of "lk_pcs u" i p] by auto
  moreover have "seen q \<le> 2 * length (lk_pcs (go u i p))" if "q \<in> set (lk_pcs (go u i p))" for q
    using that d(6)[of q] p(2) u set_update_subset_insert[of "lk_pcs u" i p] by auto
  moreover have "owns_mutex (lk_pcs (go u i p) ! j) \<longleftrightarrow> lk_mutex (go u i p) = Some j"
    if "j < length (lk_pcs (go u i p))" for j
    using that m d(3)[of j] u i by (cases "j = i") (auto simp: nth_list_update)
  moreover have "holders (go u i p) \<le> 1" using n(2) crit d(2) by (cases "p = PCrit") auto
  ultimately show ?thesis using w n d(1) by (simp add: lock_inv_def)
qed

lemma member_update:
  "i < length xs \<Longrightarrow> p \<in> set (xs[i := p])"
  "q \<in> set xs \<Longrightarrow> i < length xs \<Longrightarrow> q \<noteq> xs ! i \<Longrightarrow> q \<in> set (xs[i := p])"
proof -
  show "p \<in> set (xs[i := p])" if "i < length xs" using that by (rule set_update_memI)
  assume q: "q \<in> set xs" "i < length xs" "q \<noteq> xs ! i"
  then obtain j where "j < length xs" "xs ! j = q" "j \<noteq> i" by (auto simp: in_set_conv_nth)
  then have "j < length (xs[i := p])" "xs[i := p] ! j = q" by simp_all
  then show "q \<in> set (xs[i := p])" by (auto simp: in_set_conv_nth)
qed

lemma holders_same:
  assumes "lk_pcs u = lk_pcs s" "at_pc s i old" "old \<noteq> PCrit" "p \<noteq> PCrit"
  shows "holders (go u i p) = holders s"
  using holders_go[of i u p] assms by (simp add: holders_def)

text \<open>Steps of a thread that neither was nor becomes one of those the others rely on.\<close>

lemma awake_keep:
  assumes inv: "awake_inv s" and u: "lk_pcs u = lk_pcs s" and i: "at_pc s i old"
    and old: "\<not> agent_pc old" "counted_pc p \<Longrightarrow> counted_pc old" "going_to_wait p \<Longrightarrow> going_to_wait old"
    and crit: "old \<noteq> PCrit" "p \<noteq> PCrit"
  shows "awake_inv (go u i p)"
  unfolding awake_inv_def holders_same[OF u i crit]
proof (intro impI conjI)
  assume h: "holders s = 0" and w: "0 < waiters (go u i p)"
  have "waiters (go u i p) + of_bool (counted_pc old) = waiters s + of_bool (counted_pc p)"
    using waiters_go[of i u p] u i by (simp add: waiters_def)
  then have "0 < waiters s" using w old(2) by (cases "counted_pc p") auto
  then obtain q where "q \<in> set (lk_pcs s)" "agent_pc q" using inv h by (auto simp: awake_inv_def)
  then show "\<exists>p \<in> set (lk_pcs (go u i p)). agent_pc p"
    using member_update(2)[of q "lk_pcs s" i p] i old(1) u by auto
next
  assume h: "holders s = 0" and "\<exists>p \<in> set (lk_pcs (go u i p)). going_to_wait p"
  then obtain q where q: "q \<in> set (lk_pcs (go u i p))" "going_to_wait q" by blast
  then have "q = p \<or> q \<in> set (lk_pcs s)" using set_update_subset_insert[of "lk_pcs s" i p] u by auto
  then have "\<exists>p \<in> set (lk_pcs s). going_to_wait p" using q(2) old(3) i by (auto intro: nth_mem)
  then have "PReleased \<in> set (lk_pcs s)" using inv h by (simp add: awake_inv_def)
  then show "PReleased \<in> set (lk_pcs (go u i p))"
    using member_update(2)[of PReleased "lk_pcs s" i p] i old(1) u agent_pc_simps(9) go_simps(4) by metis
qed

text \<open>A thread that becomes an agent itself.\<close>

lemma awake_agent:
  assumes inv: "awake_inv s" and u: "lk_pcs u = lk_pcs s" and i: "at_pc s i old" and p: "agent_pc p"
    and old: "old = PReleased \<Longrightarrow> \<forall>q \<in> set (lk_pcs s). \<not> going_to_wait q" "old \<noteq> PCrit"
  shows "awake_inv (go u i p)"
proof -
  have crit: "p \<noteq> PCrit" and ng: "\<not> going_to_wait p" using p by (auto simp: agent_pc_def)
  have mem: "p \<in> set (lk_pcs (go u i p))" using member_update(1)[of i "lk_pcs s" p] i u by simp
  have "PReleased \<in> set (lk_pcs (go u i p))"
    if h: "holders s = 0" and q: "q \<in> set (lk_pcs (go u i p))" "going_to_wait q" for q
  proof -
    have qs: "q \<in> set (lk_pcs s)" using q ng set_update_subset_insert[of "lk_pcs s" i p] u by auto
    then have "PReleased \<in> set (lk_pcs s)" using inv h q(2) by (auto simp: awake_inv_def)
    moreover have "old \<noteq> PReleased" using old(1) qs q(2) by blast
    ultimately show ?thesis using member_update(2)[of PReleased "lk_pcs s" i p] i u by auto
  qed
  then show ?thesis
    unfolding awake_inv_def holders_same[OF u i old(2) crit] using mem p by auto
qed

lemma awake_held: "0 < holders s \<Longrightarrow> awake_inv s"
  by (simp add: awake_inv_def)

lemma no_going_unlocked:
  assumes "lock_inv s" "lk_mutex s = None"
  shows "\<forall>q \<in> set (lk_pcs s). \<not> going_to_wait q"
  using lock_invD(3)[OF assms(1)] assms(2) by (force simp: in_set_conv_nth going_to_wait_def)

lemma waiter_exists: "p \<in> set (lk_pcs s) \<Longrightarrow> counted_pc p \<Longrightarrow> 0 < waiters s"
  by (auto simp: waiters_def filter_empty_conv)

lemma take_inv:
  assumes inv: "lock_inv s" and i: "at_pc s i (PLoop c inc)" and c: "c AND 1 = 0" "lk_state s = c"
  shows "lock_inv (go (s\<lparr>lk_state := (if inc then (c OR 1) - 2 else c OR 1), lk_mutex := None\<rparr>) i PCrit)"
proof (rule lock_inv_go[OF inv _ i])
  let ?u = "s\<lparr>lk_state := (if inc then (c OR 1) - 2 else c OR 1), lk_mutex := None\<rparr>"
  have or: "unat (c OR 1) = unat c + 1" using c(1) unat_or_one by (simp add: unat_odd)
  have "2 \<le> unat (c OR 1)" if inc
  proof -
    have "0 < waiters s" using waiter_exists[of "PLoop c True" s] i that nth_mem by fastforce
    then show ?thesis using or lock_invD(1)[OF inv] c(2) by simp
  qed
  then have "unat ((c OR 1) - 2) + 2 = unat c + 1" if inc
    using that or by (simp add: unat_sub word_le_nat_alt)
  then show "unat (lk_state ?u) + 2 * of_bool (counted_pc (PLoop c inc)) + of_bool (PLoop c inc = PCrit) =
      unat (lk_state s) + 2 * of_bool (counted_pc PCrit) + of_bool (PCrit = PCrit)"
    using or c(2) by simp
  show "holders s = 0" using lock_invD(5)[OF inv] c by simp
  show "lk_mutex ?u = Some j \<longleftrightarrow> lk_mutex s = Some j" if "j \<noteq> i" for j
    using lock_invD(3)[OF inv, of i] i that by auto
qed simp_all

lemma give_up_inv:
  assumes inv: "lock_inv s" and i: "at_pc s i (PLoop c inc)"
  shows "lock_inv (go (s\<lparr>lk_state := (if inc then lk_state s - 2 else lk_state s), lk_mutex := None\<rparr>) i PIdle)"
proof (rule lock_inv_go[OF inv _ i])
  let ?u = "s\<lparr>lk_state := (if inc then lk_state s - 2 else lk_state s), lk_mutex := None\<rparr>"
  have "2 \<le> unat (lk_state s)" if inc
    using waiter_exists[of "PLoop c True" s] i that nth_mem lock_invD(1)[OF inv] by fastforce
  then show "unat (lk_state ?u) + 2 * of_bool (counted_pc (PLoop c inc)) + of_bool (PLoop c inc = PCrit) =
      unat (lk_state s) + 2 * of_bool (counted_pc PIdle) + of_bool (PIdle = PCrit)"
    by (auto simp: unat_sub word_le_nat_alt)
  show "lk_mutex ?u = Some j \<longleftrightarrow> lk_mutex s = Some j" if "j \<noteq> i" for j
    using lock_invD(3)[OF inv, of i] i that by auto
qed simp_all

lemma unlock_inv:
  assumes inv: "lock_inv s" and i: "at_pc s i PCrit"
  shows "lock_inv (go (s\<lparr>lk_state := lk_state s AND NOT 1\<rparr>) i (if lk_state s \<noteq> 1 then PReleased else PIdle))"
proof (rule lock_inv_go[OF inv _ i])
  let ?u = "s\<lparr>lk_state := lk_state s AND NOT 1\<rparr>"
  have "holders s \<noteq> 0" using i by (auto simp: holders_def filter_empty_conv in_set_conv_nth)
  then have "odd (unat (lk_state s))" using lock_invD(5)[OF inv] unfolding unat_odd by simp
  then have "unat (lk_state ?u) + 1 = unat (lk_state s)" using unat_and_not_one[of "lk_state s"]
    by (simp add: odd_iff_mod_2_eq_one del: bit.compl_eq_compl_iff not_one_eq)
  then show "unat (lk_state ?u) + 2 * of_bool (counted_pc PCrit) + of_bool (PCrit = PCrit) =
      unat (lk_state s) + 2 * of_bool (counted_pc (if lk_state s \<noteq> 1 then PReleased else PIdle)) +
      of_bool ((if lk_state s \<noteq> 1 then PReleased else PIdle) = PCrit)" by simp
  show "owns_mutex (if lk_state s \<noteq> 1 then PReleased else PIdle) \<longleftrightarrow> lk_mutex ?u = Some i"
    using lock_invD(3)[OF inv, of i] i by simp
qed (auto split: if_splits)

lemma count_inv:
  assumes inv: "lock_inv s" and i: "at_pc s i (PLoop c False)" and n: "add_u64 c 2 = Some n" "lk_state s = c"
  shows "lock_inv (go (s\<lparr>lk_state := n\<rparr>) i PEnter)"
proof (rule lock_inv_go[OF inv _ i])
  let ?u = "s\<lparr>lk_state := n\<rparr>"
  have "unat n = unat c + 2" using n(1) by (auto simp: add_u64_def unat_word_ariths split: if_splits)
  then show "unat (lk_state ?u) + 2 * of_bool (counted_pc (PLoop c False)) + of_bool (PLoop c False = PCrit) =
      unat (lk_state s) + 2 * of_bool (counted_pc PEnter) + of_bool (PEnter = PCrit)" using n(2) by simp
  show "owns_mutex PEnter \<longleftrightarrow> lk_mutex ?u = Some i" using lock_invD(3)[OF inv, of i] i by simp
qed simp_all

lemma wake_inv:
  assumes inv: "lock_inv s" and i: "at_pc s i PWait"
  shows "lock_inv (go (s\<lparr>lk_zero := z\<rparr>) i PWoken)"
  by (rule lock_inv_go[OF inv _ i]) (use lock_invD(3)[OF inv, of i] i in simp_all)

lemma step_lock_inv:
  assumes "poll1_step s s'" "lock_inv s" "length (lk_pcs s) < 2 ^ 62"
  shows "lock_inv s'"
  using assms(1)
proof cases
  case (start_free i)
  show ?thesis unfolding start_free(1)
    by (rule lock_inv_go[OF assms(2) _ start_free(2)]) (use start_free lock_invD(1,2)[OF assms(2)] lock_invD(3)[OF assms(2), of i] in auto)
next
  case (start_busy i z)
  show ?thesis unfolding start_busy(1)
    by (rule lock_inv_go[OF assms(2) _ start_busy(2)]) (use start_busy lock_invD(3)[OF assms(2), of i] lock_invD(7)[OF assms(2)] in auto)
next
  case (lock i c)
  show ?thesis unfolding lock(1)
    by (rule lock_inv_go[OF assms(2) _ lock(2)]) (use lock lock_invD(6)[OF assms(2), of "PWantMutex c"] nth_mem[of i "lk_pcs s"] in auto)
next
  case (take i c inc)
  show ?thesis unfolding take(1) by (rule take_inv[OF assms(2) take(2-4)])
next
  case (take_retry i c inc)
  show ?thesis unfolding take_retry(1)
    by (rule lock_inv_go[OF assms(2) _ take_retry(2)]) (use take_retry lock_invD(3)[OF assms(2), of i] lock_invD(7)[OF assms(2)] in auto)
next
  case (give_up i c inc)
  show ?thesis unfolding give_up(1) by (rule give_up_inv[OF assms(2) give_up(2)])
next
  case (overflow i c)
  then have "PLoop c False \<in> set (lk_pcs s)" using nth_mem by fastforce
  then have "unat c \<le> 2 * length (lk_pcs s)" using lock_invD(6)[OF assms(2)] by fastforce
  then have "unat c + unat (2 :: u64) < 2 ^ 64" using assms(3) by simp
  then have "add_u64 c 2 \<noteq> None" by (simp add: add_u64_def)
  then show ?thesis using overflow(5) by simp
next
  case (count i c n)
  show ?thesis unfolding count(1) by (rule count_inv[OF assms(2) count(2,5,6)])
next
  case (count_retry i c n)
  show ?thesis unfolding count_retry(1)
    by (rule lock_inv_go[OF assms(2) _ count_retry(2)]) (use lock_invD(3)[OF assms(2), of i] lock_invD(7)[OF assms(2)] count_retry in auto)
next
  case (again i c)
  show ?thesis unfolding again(1)
    by (rule lock_inv_go[OF assms(2) _ again(2)]) (use lock_invD(3)[OF assms(2), of i] again in auto)
next
  case (wait i)
  show ?thesis unfolding wait(1)
    by (rule lock_inv_go[OF assms(2) _ wait(2)]) (use lock_invD(3)[OF assms(2), of i] wait in auto)
next
  case (wake i z)
  show ?thesis unfolding wake(1) by (rule wake_inv[OF assms(2) wake(2)])
next
  case (relock i)
  show ?thesis unfolding relock(1)
    by (rule lock_inv_go[OF assms(2) _ relock(2)]) (use relock in auto)
next
  case (reload i)
  show ?thesis unfolding reload(1)
    by (rule lock_inv_go[OF assms(2) _ reload(2)]) (use lock_invD(3)[OF assms(2), of i] lock_invD(7)[OF assms(2)] reload in auto)
next
  case (unlock i)
  show ?thesis unfolding unlock(1) by (rule unlock_inv[OF assms(2) unlock(2)])
next
  case (notify_lock i)
  show ?thesis unfolding notify_lock(1)
    by (rule lock_inv_go[OF assms(2) _ notify_lock(2)]) (use notify_lock in auto)
next
  case (notify_one i j z)
  have ij: "i \<noteq> j" using notify_one by auto
  define u where "u = go (s\<lparr>lk_zero := (lk_zero s)[j := z]\<rparr>) j PWoken"
  have u: "lock_inv u" "at_pc u i PNotify"
    using wake_inv[OF assms(2) notify_one(3)] notify_one(2) ij by (simp_all add: u_def)
  have eq: "go (go (s\<lparr>lk_mutex := None, lk_zero := (lk_zero s)[j := z]\<rparr>) j PWoken) i PIdle =
      go (u\<lparr>lk_mutex := None\<rparr>) i PIdle" by (simp add: u_def go_def)
  show ?thesis unfolding notify_one(1) eq
    by (rule lock_inv_go[OF u(1) _ u(2)]) (use lock_invD(3)[OF u(1), of i] u(2) in auto)
next
  case (notify_none i)
  show ?thesis unfolding notify_none(1)
    by (rule lock_inv_go[OF assms(2) _ notify_none(2)]) (use lock_invD(3)[OF assms(2), of i] notify_none in auto)
qed

lemma set_ready_waiter:
  assumes "going_to_wait q" "q \<in> set (lk_pcs s)" shows "0 < waiters s"
  by (rule waiter_exists[OF assms(2)]) (use assms(1) in \<open>auto simp: going_to_wait_def\<close>)

lemma crit_holds: "at_pc s i PCrit \<Longrightarrow> 0 < holders s"
  by (auto simp: holders_def filter_empty_conv in_set_conv_nth)

lemma take_retry_awake:
  assumes inv: "lock_inv s" "awake_inv s" and i: "at_pc s i old" "old = PLoop c inc \<or> old = PReload \<and> inc"
    and c: "old = PLoop c inc \<Longrightarrow> c AND 1 = 0"
  shows "awake_inv (go s i (PLoop (lk_state s) inc))"
proof (cases "holders s = 0")
  case True
  then have e: "lk_state s AND 1 = 0" using lock_invD(5)[OF inv(1)] by simp
  show ?thesis
  proof (cases inc)
    case True
    then show ?thesis using awake_agent[OF inv(2) refl i(1)] i(2) e by auto
  next
    case False
    then show ?thesis using awake_keep[OF inv(2) refl i(1), of "PLoop (lk_state s) False"] i(2) by auto
  qed
next
  case False
  have "holders (go s i (PLoop (lk_state s) inc)) = holders s"
    using holders_same[OF refl i(1), of "PLoop (lk_state s) inc"] i(2) by auto
  then show ?thesis using False by (intro awake_held) simp
qed

lemma unlock_awake:
  assumes inv: "lock_inv s" and i: "at_pc s i PCrit"
  shows "awake_inv (go (s\<lparr>lk_state := lk_state s AND NOT 1\<rparr>) i (if lk_state s \<noteq> 1 then PReleased else PIdle))"
    (is "awake_inv ?s")
proof (cases "lk_state s = 1")
  case True
  then have "waiters s = 0" using lock_invD(1,2)[OF inv] by auto
  then have "waiters ?s = 0"
    using True waiters_go[of i "s\<lparr>lk_state := lk_state s AND NOT 1\<rparr>" PIdle] i by simp
  moreover from this have "\<not> going_to_wait q" if "q \<in> set (lk_pcs ?s)" for q
    using set_ready_waiter[OF _ that] by linarith
  ultimately show ?thesis unfolding awake_inv_def by (metis less_numeral_extra(3))
next
  case False
  then have "PReleased \<in> set (lk_pcs ?s)" using member_update(1)[of i "lk_pcs s" PReleased] i by simp
  then show ?thesis using agent_pc_simps(9) unfolding awake_inv_def by blast
qed

lemma notify_one_awake:
  assumes inv: "lock_inv s" and i: "at_pc s i PNotify" and j: "at_pc s j PWait"
    and s': "lk_pcs s' = (lk_pcs s)[j := PWoken, i := PIdle]"
  shows "awake_inv s'"
proof -
  have m: "lk_mutex s = Some i" using lock_invD(3)[OF inv, of i] i by simp
  have ij: "i \<noteq> j" using i j by auto
  then have "PWoken \<in> set (lk_pcs s')"
    using member_update(2)[of PWoken "(lk_pcs s)[j := PWoken]" i PIdle] member_update(1)[of j "lk_pcs s" PWoken] i j s'
    by auto
  moreover have "\<not> going_to_wait q" if q: "q \<in> set (lk_pcs s')" for q
  proof
    assume g: "going_to_wait q"
    obtain k where k: "k < length (lk_pcs s')" "lk_pcs s' ! k = q" using q by (auto simp: in_set_conv_nth)
    then have "k \<noteq> i \<and> k \<noteq> j" using g s' i j ij by (auto simp: nth_list_update)
    then have "lk_pcs s ! k = q" "k < length (lk_pcs s)" using k s' by simp_all
    then show False using lock_invD(3)[OF inv, of k] m g \<open>k \<noteq> i \<and> k \<noteq> j\<close>
      by (auto simp: going_to_wait_def)
  qed
  ultimately show ?thesis unfolding awake_inv_def using agent_pc_simps(6) by blast
qed

lemma notify_none_awake:
  assumes inv: "lock_inv s" and i: "at_pc s i PNotify" and none: "PWait \<notin> set (lk_pcs s)"
    and s': "lk_pcs s' = (lk_pcs s)[i := PIdle]"
  shows "awake_inv s'"
proof -
  have m: "lk_mutex s = Some i" using lock_invD(3)[OF inv, of i] i by simp
  have other: "q = PWoken" if q: "q \<in> set (lk_pcs s')" "counted_pc q" for q
  proof -
    obtain k where k: "k < length (lk_pcs s')" "lk_pcs s' ! k = q" using q(1) by (auto simp: in_set_conv_nth)
    then have "k \<noteq> i" using q(2) s' i by auto
    then have "lk_pcs s ! k = q" "k < length (lk_pcs s)" using k s' by simp_all
    moreover from this have "q \<noteq> PWait" using none nth_mem by fastforce
    ultimately show ?thesis using lock_invD(3)[OF inv, of k] m \<open>k \<noteq> i\<close> q(2)
      by (auto simp: counted_pc_def)
  qed
  have "\<exists>p \<in> set (lk_pcs s'). agent_pc p" if w: "0 < waiters s'"
  proof -
    obtain q where "q \<in> set (lk_pcs s')" "counted_pc q"
      using w unfolding waiters_def length_greater_0_conv filter_empty_conv by blast
    then show ?thesis using other by force
  qed
  moreover have "\<not> going_to_wait q" if "q \<in> set (lk_pcs s')" for q
    using other[OF that] by (auto simp: going_to_wait_def counted_pc_def)
  ultimately show ?thesis unfolding awake_inv_def by blast
qed

lemma step_awake_inv:
  assumes "poll1_step s s'" "lock_inv s" "awake_inv s"
  shows "awake_inv s'"
  using assms(1)
proof cases
  case (start_free i)
  then show ?thesis using crit_holds[where s = s' and i = i] by (intro awake_held) simp
next
  case (start_busy i z)
  show ?thesis unfolding start_busy(1) by (rule awake_keep[OF assms(3) _ start_busy(2)]) simp_all
next
  case (lock i c)
  show ?thesis unfolding lock(1) by (rule awake_keep[OF assms(3) _ lock(2)]) simp_all
next
  case (take i c inc)
  then show ?thesis using crit_holds[where s = s' and i = i] by (intro awake_held) simp
next
  case (take_retry i c inc)
  show ?thesis unfolding take_retry(1)
    by (rule take_retry_awake[OF assms(2,3) take_retry(2)]) (use take_retry(3) in auto)
next
  case (give_up i c inc)
  show ?thesis unfolding give_up(1) by (rule awake_keep[OF assms(3) _ give_up(2)]) (use give_up(3) in simp_all)
next
  case (overflow i c)
  show ?thesis unfolding overflow(1) by (rule awake_keep[OF assms(3) _ overflow(2)]) simp_all
next
  case (count i c n)
  have "0 < holders s" using lock_invD(5)[OF assms(2)] count(3,6) by auto
  then have "0 < holders s'"
    using holders_same[of "s\<lparr>lk_state := n\<rparr>" s i "PLoop c False" PEnter] count(1,2) by simp
  then show ?thesis by (rule awake_held)
next
  case (count_retry i c n)
  show ?thesis unfolding count_retry(1) by (rule awake_keep[OF assms(3) _ count_retry(2)]) simp_all
next
  case (again i c)
  show ?thesis unfolding again(1) by (rule awake_keep[OF assms(3) _ again(2)]) (use again(3) in simp_all)
next
  case (wait i)
  show ?thesis unfolding wait(1) by (rule awake_keep[OF assms(3) _ wait(2)]) simp_all
next
  case (wake i z)
  show ?thesis unfolding wake(1) by (rule awake_agent[OF assms(3) _ wake(2)]) simp_all
next
  case (relock i)
  show ?thesis unfolding relock(1) by (rule awake_agent[OF assms(3) _ relock(2)]) simp_all
next
  case (reload i)
  show ?thesis unfolding reload(1) by (rule take_retry_awake[OF assms(2,3) reload(2)]) simp_all
next
  case (unlock i)
  show ?thesis unfolding unlock(1) by (rule unlock_awake[OF assms(2) unlock(2)])
next
  case (notify_lock i)
  show ?thesis unfolding notify_lock(1)
    by (rule awake_agent[OF assms(3) _ notify_lock(2)]) (use no_going_unlocked[OF assms(2) notify_lock(3)] in simp_all)
next
  case (notify_one i j z)
  show ?thesis by (rule notify_one_awake[OF assms(2) notify_one(2,3)]) (simp add: notify_one(1))
next
  case (notify_none i)
  show ?thesis by (rule notify_none_awake[OF assms(2) notify_none(2,3)]) (simp add: notify_none(1))
qed

lemma step_length: "poll1_step s s' \<Longrightarrow> length (lk_pcs s') = length (lk_pcs s)"
  by (induction rule: poll1_step.induct) simp_all

lemma reach_inv:
  assumes "poll1_reach n s" "n < 2 ^ 62"
  shows "lock_inv s \<and> awake_inv s \<and> length (lk_pcs s) = n"
  using assms(1)
proof induction
  case init
  have "filter counted_pc (replicate n PIdle) = []" "filter (\<lambda>p. p = PCrit) (replicate n PIdle) = []"
    by (simp_all add: filter_empty_conv)
  then show ?case
    by (auto simp: lock_inv_def awake_inv_def lk_init_def waiters_def holders_def)
next
  case (step s s')
  then show ?case using step_lock_inv step_awake_inv step_length assms(2) by simp
qed

subsection \<open>Properties\<close>

text \<open>C19. At most one thread polls at a time, no thread panics, and the lock word is exact: twice the
  number of waiting threads plus the held bit.\<close>

theorem poll_mutual_exclusion:
  assumes "poll1_reach n s" and "n < 2 ^ 62"
  shows "holders s \<le> 1 \<and> PPanic \<notin> set (lk_pcs s) \<and> unat (lk_state s) = 2 * waiters s + holders s \<and>
    (lk_state s AND 1 = 0 \<longleftrightarrow> holders s = 0)"
  using reach_inv[OF assms] lock_invD(1,2,4,5) by blast

text \<open>No thread is left asleep: whenever the poller is free and a thread waits for it, some thread is on
  its way to take it or to wake a waiter.\<close>

theorem poll_lock_no_lost_wakeup:
  assumes "poll1_reach n s" and "n < 2 ^ 62" and "holders s = 0" and "0 < waiters s"
  shows "\<exists>i < n. agent_pc (lk_pcs s ! i)"
proof -
  have "\<exists>p \<in> set (lk_pcs s). agent_pc p" "length (lk_pcs s) = n"
    using reach_inv[OF assms(1,2)] assms(3,4) by (auto simp: awake_inv_def)
  then show ?thesis by (auto simp: in_set_conv_nth)
qed

text \<open>One thread polls, a second one has gone to sleep, the first lets go.\<close>

definition contended :: poll_lock where
  "contended = \<lparr>lk_state = 2, lk_mutex = None, lk_pcs = [PReleased, PWait], lk_zero = [False, False]\<rparr>"

lemma contended_reach: "poll1_reach 2 contended"
proof -
  note S = poll1_reach.step[where n = 2]
  have 0: "poll1_reach 2 \<lparr>lk_state = 0, lk_mutex = None, lk_pcs = [PIdle, PIdle], lk_zero = [False, False]\<rparr>"
    using poll1_reach.init[of 2] by (simp add: lk_init_def numeral_2_eq_2)
  have 1: "poll1_reach 2 \<lparr>lk_state = 1, lk_mutex = None, lk_pcs = [PCrit, PIdle], lk_zero = [False, False]\<rparr>"
    using S[OF 0 poll1_step.start_free[where i = 0]] by (simp add: go_def)
  have 2: "poll1_reach 2 \<lparr>lk_state = 1, lk_mutex = None, lk_pcs = [PCrit, PWantMutex 1], lk_zero = [False, False]\<rparr>"
    using S[OF 1 poll1_step.start_busy[where i = 1 and z = False]] by (simp add: go_def)
  have 3: "poll1_reach 2 \<lparr>lk_state = 1, lk_mutex = Some 1, lk_pcs = [PCrit, PLoop 1 False], lk_zero = [False, False]\<rparr>"
    using S[OF 2 poll1_step.lock[where i = 1]] by (simp add: go_def)
  have 4: "poll1_reach 2 \<lparr>lk_state = 3, lk_mutex = Some 1, lk_pcs = [PCrit, PEnter], lk_zero = [False, False]\<rparr>"
    using S[OF 3 poll1_step.count[where i = 1 and c = 1 and n = 3]] by (simp add: go_def add_u64_def)
  have 5: "poll1_reach 2 \<lparr>lk_state = 3, lk_mutex = None, lk_pcs = [PCrit, PWait], lk_zero = [False, False]\<rparr>"
    using S[OF 4 poll1_step.wait[where i = 1]] by (simp add: go_def)
  show ?thesis using S[OF 5 poll1_step.unlock[where i = 0]] by (simp add: go_def contended_def)
qed

theorem poll_mutual_exclusion_witness:
  "holders contended = 0 \<and> waiters contended = 1 \<and> unat (lk_state contended) = 2 * waiters contended + holders contended"
proof -
  have "(2 :: nat) < 2 ^ 62" by simp
  from poll_mutual_exclusion[OF contended_reach this] show ?thesis
    by (simp add: contended_def holders_def waiters_def)
qed

theorem poll_lock_no_lost_wakeup_witness: "\<exists>i < 2. agent_pc (lk_pcs contended ! i)"
proof -
  have n: "(2 :: nat) < 2 ^ 62" by simp
  have c: "holders contended = 0" "0 < waiters contended"
    by (simp_all add: contended_def holders_def waiters_def)
  show ?thesis by (rule poll_lock_no_lost_wakeup[OF contended_reach n c])
qed

end
