(* ===== verification/Poll.thy ===== *)
theory Poll
  imports QueuePoll
begin

section \<open>The poller\<close>

text \<open>
  \<open>Poll\<close> of \<open>src/poll.rs\<close>: the selector and the readiness queue together, for the one thread that
  the lock (theory PollLock) lets through. Handles are what can be registered: a bare
  descriptor (\<open>EventedFd\<close>, \<open>Io\<close>, the awakener's reader), a socket of \<open>src/net/tcp.rs\<close> with its
  \<open>SelectorId\<close>, and a \<open>Registration\<close>. The kernel's state carries the clock: \<open>clk\<close> reads the time
  since the wait began.
\<close>

record ('j, 'k, 'p) poll =
  po_selector :: "('j, 'k) selector"
  po_queue :: "('j, 'p) rqueue"

datatype evented = EvFd i32 | EvSocket i32 usize | EvRegistration addr

subsection \<open>Construction\<close>

text \<open>\<open>created\<close> is what creating the epoll descriptor returned, \<open>next_id\<close> the counter \<open>NEXT_ID\<close>.\<close>

definition selector_new ::
    "'k io_result \<Rightarrow> usize \<Rightarrow> (('j, 'k) selector io_result \<times> usize) option" where
  "selector_new created next_id =
     (case created of
        Inl e \<Rightarrow> Some (Inl e, next_id)
      | Inr k \<Rightarrow> do { i \<leftarrow> add_u64 next_id 1;
                     Some (Inr \<lparr>sel_id = i, sel_kernel = k, sel_events_map = (\<lambda>_. None)\<rparr>, next_id + 1) })"

definition notify_token :: token_entry where
  "notify_token = \<lparr>ttype = NotifyEvent, te_token = Token 0\<rparr>"

text \<open>\<open>pipe\<close> is what creating the awakener's pipe returned, \<open>rfd\<close> the descriptor of its reader.\<close>

definition poll_new ::
    "'k epoll_ops \<Rightarrow> 'k io_result \<Rightarrow> usize \<Rightarrow> nat \<Rightarrow> 'p io_result \<Rightarrow> i32
       \<Rightarrow> (('j, 'k, 'p) poll io_result \<times> usize) option" where
  "poll_new K created next_id qid pipe rfd =
     do { (s, next_id) \<leftarrow> selector_new created next_id;
          case s of
            Inl e \<Rightarrow> Some (Inl e, next_id)
          | Inr sel \<Rightarrow>
              (case pipe of
                 Inl e \<Rightarrow> Some (Inl e, next_id)
               | Inr p \<Rightarrow>
                   do { q \<leftarrow> rqueue_new qid p;
                        let (r, sel) = selector_register K sel rfd notify_token ready_readable opt_edge Noop;
                        case r of
                          Inl e \<Rightarrow> Some (Inl e, next_id)
                        | Inr _ \<Rightarrow> Some (Inr \<lparr>po_selector = sel, po_queue = q\<rparr>, next_id) }) }"

subsection \<open>Registering\<close>

definition socket_registered :: io_error where
  "socket_registered = OtherError ''Socket already registered''"

definition associate_selector :: "usize \<Rightarrow> ('j, 'k, 'p) poll \<Rightarrow> unit io_result \<times> usize" where
  "associate_selector selector_id poll =
     (if selector_id \<noteq> 0 \<and> selector_id \<noteq> sel_id (po_selector poll)
      then (Inl socket_registered, selector_id)
      else (Inr (), sel_id (po_selector poll)))"

text \<open>The operations return the handle too: registering a socket stores the selector's number in it.\<close>

definition poll_register ::
    "'k epoll_ops \<Rightarrow> 'p pipe_ops \<Rightarrow> ('j, 'k, 'p) poll \<Rightarrow> evented \<Rightarrow> token_entry \<Rightarrow> ready \<Rightarrow> poll_opt \<Rightarrow> 'j job
       \<Rightarrow> (unit io_result \<times> evented \<times> ('j, 'k, 'p) poll) option" where
  "poll_register K P poll handle tok interest opts job =
     (case handle of
        EvFd fd \<Rightarrow>
          (case selector_register K (po_selector poll) fd tok interest opts job of
             (r, sel) \<Rightarrow> Some (r, handle, poll\<lparr>po_selector := sel\<rparr>))
      | EvSocket fd selector_id \<Rightarrow>
          (case associate_selector selector_id poll of
             (Inl e, selector_id) \<Rightarrow> Some (Inl e, EvSocket fd selector_id, poll)
           | (Inr _, selector_id) \<Rightarrow>
               (case selector_register K (po_selector poll) fd tok interest opts job of
                  (r, sel) \<Rightarrow> Some (r, EvSocket fd selector_id, poll\<lparr>po_selector := sel\<rparr>)))
      | EvRegistration a \<Rightarrow>
          do { (r, q) \<leftarrow> reg_update P (po_queue poll) a tok interest opts job;
               Some (r, handle, poll\<lparr>po_queue := q\<rparr>) })"

definition handle_fd :: "evented \<Rightarrow> i32 option" where
  "handle_fd handle = (case handle of EvFd fd \<Rightarrow> Some fd | EvSocket fd _ \<Rightarrow> Some fd | EvRegistration _ \<Rightarrow> None)"

definition poll_reregister ::
    "'k epoll_ops \<Rightarrow> 'p pipe_ops \<Rightarrow> ('j, 'k, 'p) poll \<Rightarrow> evented \<Rightarrow> token_entry \<Rightarrow> ready \<Rightarrow> poll_opt
       \<Rightarrow> (unit io_result \<times> ('j, 'k, 'p) poll) option" where
  "poll_reregister K P poll handle tok interest opts =
     (case handle of
        EvRegistration a \<Rightarrow>
          do { (r, q) \<leftarrow> registration_reregister P (po_queue poll) a tok interest opts;
               Some (r, poll\<lparr>po_queue := q\<rparr>) }
      | _ \<Rightarrow>
          do { fd \<leftarrow> handle_fd handle;
               let (r, sel) = selector_reregister K (po_selector poll) fd tok interest opts;
               Some (r, poll\<lparr>po_selector := sel\<rparr>) })"

definition poll_deregister ::
    "'k epoll_ops \<Rightarrow> 'p pipe_ops \<Rightarrow> bool \<Rightarrow> ('j, 'k, 'p) poll \<Rightarrow> evented
       \<Rightarrow> (unit io_result \<times> ('j, 'k, 'p) poll) option" where
  "poll_deregister K P dbg poll handle =
     (case handle of
        EvRegistration a \<Rightarrow>
          do { (r, q) \<leftarrow> registration_deregister P (po_queue poll) a;
               Some (r, poll\<lparr>po_queue := q\<rparr>) }
      | _ \<Rightarrow>
          do { fd \<leftarrow> handle_fd handle;
               (r, sel) \<leftarrow> selector_deregister K dbg (po_selector poll) fd;
               Some (r, poll\<lparr>po_selector := sel\<rparr>) })"

subsection \<open>Polling\<close>

definition duration_le :: "duration \<Rightarrow> duration \<Rightarrow> bool" where
  "duration_le a b \<longleftrightarrow> as_secs a < as_secs b \<or> as_secs a = as_secs b \<and> subsec_nanos a \<le> subsec_nanos b"

text \<open>Subtraction panics below zero.\<close>

definition duration_sub :: "duration \<Rightarrow> duration \<Rightarrow> duration option" where
  "duration_sub a b =
     do { s \<leftarrow> sub_u64 (as_secs a) (as_secs b);
          if subsec_nanos b \<le> subsec_nanos a
          then Some \<lparr>as_secs = s, subsec_nanos = subsec_nanos a - subsec_nanos b\<rparr>
          else do { s \<leftarrow> sub_u64 s 1;
                    Some \<lparr>as_secs = s, subsec_nanos = subsec_nanos a + 1000000000 - subsec_nanos b\<rparr> } }"

text \<open>The loop of \<open>poll2\<close>: \<open>Inr\<close> of whether the awakener was seen, or the error it returns. An
  interrupted wait goes on for the rest of its time; \<open>None\<close> is a panic or a loop without end.\<close>

partial_function (option) poll2_loop ::
    "'k epoll_ops \<Rightarrow> ('k \<Rightarrow> duration \<times> 'k) \<Rightarrow> bool \<Rightarrow> ('j, 'k) selector \<Rightarrow> 'j events \<Rightarrow> duration option
       \<Rightarrow> (bool io_result \<times> ('j, 'k) selector \<times> 'j events) option" where
  "poll2_loop K clk interruptible sel evts timeout =
     (case selector_select K sel evts timeout of
        None \<Rightarrow> None
      | Some (Inr b, sel, evts) \<Rightarrow> Some (Inr b, sel, evts)
      | Some (Inl e, sel, evts) \<Rightarrow>
          if e = Interrupted \<and> \<not> interruptible
          then (case timeout of
                  None \<Rightarrow> poll2_loop K clk interruptible sel evts None
                | Some to \<Rightarrow>
                    (case clk (sel_kernel sel) of
                       (elapsed, k) \<Rightarrow>
                         if duration_le to elapsed then Some (Inr False, sel\<lparr>sel_kernel := k\<rparr>, evts)
                         else (case duration_sub to elapsed of
                                 None \<Rightarrow> None
                               | Some t \<Rightarrow> poll2_loop K clk interruptible (sel\<lparr>sel_kernel := k\<rparr>) evts (Some t))))
          else Some (Inl e, sel, evts))"

definition poll2 ::
    "'k epoll_ops \<Rightarrow> ('k \<Rightarrow> duration \<times> 'k) \<Rightarrow> 'p pipe_ops \<Rightarrow> ('j, 'k, 'p) poll \<Rightarrow> 'j events
       \<Rightarrow> duration option \<Rightarrow> bool \<Rightarrow> (nat io_result \<times> ('j, 'k, 'p) poll \<times> 'j events) option" where
  "poll2 K clk P poll evts timeout interruptible =
     do { (timeout, q) \<leftarrow>
            (if timeout = Some (from_millis 0) then Some (timeout, po_queue poll)
             else do { (sleep, q) \<leftarrow> prepare_for_sleep (po_queue poll);
                       Some (if sleep then timeout else Some (from_millis 0), q) });
          (res, sel, evts) \<leftarrow> poll2_loop K clk interruptible (po_selector poll) evts timeout;
          case res of
            Inl e \<Rightarrow> Some (Inl e, \<lparr>po_selector = sel, po_queue = q\<rparr>, evts)
          | Inr notified \<Rightarrow>
              do { q \<leftarrow> (if notified then do { p \<leftarrow> aw_cleanup P (rq_pipe q); Some (q\<lparr>rq_pipe := p\<rparr>) }
                        else Some q);
                   (q, evts) \<leftarrow> rqueue_poll q evts;
                   Some (Inr (events_len evts), \<lparr>po_selector = sel, po_queue = q\<rparr>, evts) } }"

subsection \<open>A poll delivers\<close>

lemma sleep_inv:
  assumes "reg_inv q cs H"
  shows "\<exists>q'. prepare_for_sleep q = Some (cs = [], q') \<and> reg_inv q' cs H \<and> same_nodes q q'"
proof -
  obtain xs where xs: "queue_inv q xs" "queue_nodes xs = cs" and ok: "nodes_ok q (set cs) H"
    using assms by (auto simp: reg_inv_def rq_repr_def)
  obtain q' xs' where q': "prepare_for_sleep q = Some (queue_nodes xs = [], q')" "queue_inv q' xs'"
    "same_nodes q q'" "queue_nodes xs' = queue_nodes xs"
    using prepare_for_sleep_spec[OF xs(1)] by blast
  have "rq_repr q' cs" using q'(2,4) xs(2) by (auto simp: rq_repr_def)
  then show ?thesis using q'(1,3) xs(2) nodes_ok_same[OF ok q'(3)] by (auto simp: reg_inv_def)
qed

text \<open>The time the wait is given: none when something is queued.\<close>

definition wait_time :: "duration option \<Rightarrow> addr list \<Rightarrow> duration option" where
  "wait_time timeout cs = (if timeout = Some (from_millis 0) \<or> cs = [] then timeout else Some (from_millis 0))"

lemma prepare_inv:
  assumes "reg_inv q cs H"
  shows "\<exists>q1. (if timeout = Some (from_millis 0) then Some (timeout, q)
      else do { (sleep, q) \<leftarrow> prepare_for_sleep q; Some (if sleep then timeout else Some (from_millis 0), q) }) =
      Some (wait_time timeout cs, q1) \<and> reg_inv q1 cs H \<and> same_nodes q q1"
proof -
  obtain q' where "prepare_for_sleep q = Some (cs = [], q')" "reg_inv q' cs H" "same_nodes q q'"
    using sleep_inv[OF assms] by blast
  then show ?thesis using assms by (auto simp: wait_time_def)
qed

text \<open>What a poll reads of the queue does not depend on the links.\<close>

lemma visit_same:
  assumes "same_nodes q q1" "rq_repr q cs"
  shows "visited (rq_heap q1) m cs = visited (rq_heap q) m cs"
    and "poll_entries (rq_heap q1) (take n cs) = poll_entries (rq_heap q) (take n cs)"
    and "poll_kept (rq_heap q1) (take n cs) = poll_kept (rq_heap q) (take n cs)"
proof -
  have a: "same_node q q1 b \<and> rq_heap q b \<noteq> None" if "b \<in> set cs" for b
    using same_nodes_node[OF assms(1)] rq_repr_alloc[OF assms(2) that] by blast
  show "visited (rq_heap q1) m cs = visited (rq_heap q) m cs" using a by (intro visited_cong) auto
  have b: "same_node q q1 b \<and> rq_heap q b \<noteq> None" if "b \<in> set (take n cs)" for b
    using a in_set_takeD[OF that] by blast
  from poll_lists_cong[OF b] show "poll_entries (rq_heap q1) (take n cs) = poll_entries (rq_heap q) (take n cs)"
    "poll_kept (rq_heap q1) (take n cs) = poll_kept (rq_heap q) (take n cs)" by simp_all
qed

text \<open>The readiness queue after the wait, cleaned up when the awakener was seen.\<close>

lemma cleanup_inv:
  assumes "nonblocking_pipe P level cap" "reg_inv q cs H"
  shows "\<exists>q'. (if notified then do { p \<leftarrow> aw_cleanup P (rq_pipe q); Some (q\<lparr>rq_pipe := p\<rparr>) } else Some q) = Some q' \<and>
    reg_inv q' cs H \<and> rq_heap q' = rq_heap q \<and> (notified \<longrightarrow> level (rq_pipe q') = 0)"
proof -
  obtain p where "aw_cleanup P (rq_pipe q) = Some p" "level p = 0"
    using nonblocking_pipe.cleanup_drains[OF assms(1), of "rq_pipe q"] by blast
  then show ?thesis using assms(2) by (auto simp: reg_inv_def same_node_def)
qed

lemma select_returns: "\<exists>r. selector_select K s e t = Some r"
proof (cases "k_wait K (sel_kernel s) (evs_events_cap e) (select_timeout_ms t)")
  case (Pair r k)
  show ?thesis
  proof (cases r)
    case (Inl x)
    then show ?thesis using Pair by (simp add: selector_select_def events_clear_def Let_def)
  next
    case (Inr raw)
    then show ?thesis using select_spec[of K s e t raw k] Pair by blast
  qed
qed

lemma duration_le_nanos:
  assumes "duration_ok a" "duration_ok b"
  shows "duration_le a b \<longleftrightarrow> duration_nanos a \<le> duration_nanos b"
proof -
  have "unat (subsec_nanos a) < 1000000000" "unat (subsec_nanos b) < 1000000000"
    using assms by (simp_all add: duration_ok_def)
  then show ?thesis
    unfolding duration_le_def duration_nanos_def word_less_nat_alt word_le_nat_alt word_unat_eq_iff by linarith
qed

lemma duration_sub_nanos:
  assumes ok: "duration_ok a" "duration_ok b" and le: "\<not> duration_le a b"
  shows "\<exists>d. duration_sub a b = Some d \<and> duration_ok d \<and> duration_nanos d = duration_nanos a - duration_nanos b"
proof -
  let ?A = "unat (as_secs a)" and ?B = "unat (as_secs b)" and ?x = "unat (subsec_nanos a)" and ?y = "unat (subsec_nanos b)"
  have x: "?x < 1000000000" "?y < 1000000000" using ok by (simp_all add: duration_ok_def)
  have l: "?B < ?A \<or> ?A = ?B \<and> ?y < ?x"
    using le unfolding duration_le_def word_less_nat_alt word_le_nat_alt word_unat_eq_iff by linarith
  then have s: "as_secs b \<le> as_secs a" by (auto simp: word_le_nat_alt)
  then have s': "sub_u64 (as_secs a) (as_secs b) = Some (as_secs a - as_secs b)" "unat (as_secs a - as_secs b) = ?A - ?B"
    by (simp_all add: sub_u64_def unat_sub)
  show ?thesis
  proof (cases "subsec_nanos b \<le> subsec_nanos a")
    case True
    then have "?y \<le> ?x" by (simp add: word_le_nat_alt)
    then show ?thesis
      using s' True x l by (auto simp: duration_sub_def duration_ok_def duration_nanos_def unat_sub)
  next
    case False
    then have xy: "?x < ?y" by (simp add: word_le_nat_alt)
    then have AB: "?B < ?A" using l by linarith
    then have one: "1 \<le> as_secs a - as_secs b" using s'(2) by (simp add: word_le_nat_alt)
    then have s1: "sub_u64 (as_secs a - as_secs b) 1 = Some (as_secs a - as_secs b - 1)"
      "unat (as_secs a - as_secs b - 1) = ?A - ?B - 1" using s'(2) by (simp_all add: sub_u64_def unat_sub)
    have n1: "unat (subsec_nanos a + 1000000000) = ?x + 1000000000"
      using x by (simp add: unat_word_ariths)
    then have "subsec_nanos b \<le> subsec_nanos a + 1000000000" using x by (simp add: word_le_nat_alt)
    then have n2: "unat (subsec_nanos a + 1000000000 - subsec_nanos b) = ?x + 1000000000 - ?y"
      using n1 by (simp add: unat_sub)
    then show ?thesis
      using s' s1 False x xy AB by (auto simp: duration_sub_def duration_ok_def duration_nanos_def)
  qed
qed

text \<open>Each interrupted wait takes some time off the rest.\<close>

lemma interrupted_ends:
  assumes clk: "\<And>k. duration_ok (fst (clk k)) \<and> 0 < duration_nanos (fst (clk k))"
  shows "duration_ok to \<Longrightarrow> \<exists>r. poll2_loop K clk interruptible sel e (Some to) = Some r"
proof (induction "duration_nanos to" arbitrary: to sel e rule: less_induct)
  case less
  obtain r s' e' where sel: "selector_select K sel e (Some to) = Some (r, s', e')"
    using select_returns[of K sel e "Some to"] by auto
  obtain el k where k: "clk (sel_kernel s') = (el, k)" by (cases "clk (sel_kernel s')")
  have el: "duration_ok el" "0 < duration_nanos el" using clk[of "sel_kernel s'"] k by simp_all
  show ?case
  proof (cases "(\<exists>b. r = Inr b) \<or> (\<exists>x. r = Inl x \<and> (x \<noteq> Interrupted \<or> interruptible)) \<or> duration_le to el")
    case True
    then show ?thesis using sel k by (subst poll2_loop.simps) (auto split: sum.splits)
  next
    case False
    then have r: "r = Inl Interrupted" "\<not> interruptible" and le: "\<not> duration_le to el" by (cases r; auto)+
    obtain d where d: "duration_sub to el = Some d" "duration_ok d" "duration_nanos d = duration_nanos to - duration_nanos el"
      using duration_sub_nanos[OF less.prems el(1) le] by blast
    have "duration_nanos d < duration_nanos to"
      using d(3) el(2) le duration_le_nanos[OF less.prems el(1)] by linarith
    from less.hyps[OF this d(2)] show ?thesis
      using sel k r le d(1) by (subst poll2_loop.simps) simp
  qed
qed

text \<open>The whole of \<open>poll2\<close> when the kernel answers.\<close>

lemma poll2_spec:
  assumes inv: "reg_inv (po_queue po) cs H" and pipe: "nonblocking_pipe P level cap"
    and wait: "k_wait K (sel_kernel (po_selector po)) (evs_events_cap e) (select_timeout_ms (wait_time timeout cs)) = (Inr raw, k)"
    and room: "length raw \<le> events_capacity e"
    and io: "io = concat (map (dispatch_entry (sel_events_map (po_selector po))) raw)"
    and vs: "vs = visited (rq_heap (po_queue po)) (events_capacity e - length io) cs"
  shows "\<exists>po' e'. poll2 K clk P po e timeout interruptible = Some (Inr (length (evs_entries e')), po', e') \<and>
    evs_entries e' = io @ poll_entries (rq_heap (po_queue po)) vs \<and>
    reg_inv (po_queue po') (drop (length vs) cs @ poll_kept (rq_heap (po_queue po)) vs) H \<and>
    same_jobs (sel_events_map (po_selector po)) (sel_events_map (po_selector po')) \<and>
    sel_id (po_selector po') = sel_id (po_selector po) \<and> sel_kernel (po_selector po') = k \<and>
    (finite (dom (rq_heap (po_queue po))) \<longrightarrow> finite (dom (rq_heap (po_queue po'))))"
proof -
  let ?q = "po_queue po" and ?s = "po_selector po"
  have repr: "rq_repr ?q cs" using inv by (simp add: reg_inv_def)
  obtain q1 where q1: "(if timeout = Some (from_millis 0) then Some (timeout, ?q)
      else do { (sleep, q) \<leftarrow> prepare_for_sleep ?q; Some (if sleep then timeout else Some (from_millis 0), q) }) =
      Some (wait_time timeout cs, q1)" "reg_inv q1 cs H" "same_nodes ?q q1"
    using prepare_inv[OF inv] by blast
  obtain n s' e1 where sel: "selector_select K ?s e (wait_time timeout cs) = Some (Inr n, s', e1)"
    "evs_entries e1 = io" "same_jobs (sel_events_map ?s) (sel_events_map s') \<and> sel_id s' = sel_id ?s \<and> sel_kernel s' = k"
    "evs_entries_cap e1 = max (evs_entries_cap e) (length (evs_entries e1))"
    using select_spec[OF wait] io by blast
  have loop: "poll2_loop K clk interruptible ?s e (wait_time timeout cs) = Some (Inr n, s', e1)"
    using sel(1) by (subst poll2_loop.simps) simp
  obtain q2 where q2: "(if n then do { p \<leftarrow> aw_cleanup P (rq_pipe q1); Some (q1\<lparr>rq_pipe := p\<rparr>) } else Some q1) = Some q2"
    "reg_inv q2 cs H" "rq_heap q2 = rq_heap q1" using cleanup_inv[OF pipe q1(2), of n] by blast
  have "length (dispatch_entry m ev) \<le> 1" for m :: "i32 \<rightharpoonup> 'a job_entry" and ev
    by (simp add: dispatch_entry_def split: option.splits)
  then have "length (concat (map (dispatch_entry m) evs)) \<le> length evs" for m :: "i32 \<rightharpoonup> 'a job_entry" and evs
    by (induction evs) (auto simp: le_SucI add.commute intro: order_trans[OF add_mono])
  then have "length io \<le> events_capacity e" using room io order_trans by blast
  then have cap: "events_capacity e1 - events_len e1 = events_capacity e - length io"
    using sel(2,4) by (simp add: events_capacity_def events_len_def)
  note v = visit_same[OF q1(3) repr]
  have vs1: "vs = visited (rq_heap q2) (events_capacity e1 - events_len e1) cs"
    unfolding cap q2(3) v(1) vs ..
  have tk: "take (length vs) cs = vs" unfolding vs using visited_take by metis
  obtain q3 e2 where p: "rqueue_poll q2 e1 = Some (q3, e2)"
    "reg_inv q3 (drop (length vs) cs @ poll_kept (rq_heap q2) vs) H"
    "evs_entries e2 = evs_entries e1 @ poll_entries (rq_heap q2) vs" "\<And>b. b \<notin> set vs \<Longrightarrow> same_node q2 q3 b"
    using rqueue_poll_inv[OF q2(2) vs1] by blast
  have "same_node ?q q2 b" for b
    using same_nodes_node[OF q1(3), of b] q2(3) by (simp add: same_node_def)
  then have fin: "finite (dom (rq_heap ?q)) \<longrightarrow> finite (dom (rq_heap q3))"
    using finite_heap[of ?q "{}" q2] finite_heap[of q2 "set vs" q3] p(4) by blast
  have "poll_entries (rq_heap q2) vs = poll_entries (rq_heap ?q) vs" "poll_kept (rq_heap q2) vs = poll_kept (rq_heap ?q) vs"
    using v(2,3)[of "length vs"] unfolding tk q2(3) by simp_all
  then have "poll2 K clk P po e timeout interruptible = Some (Inr (events_len e2), \<lparr>po_selector = s', po_queue = q3\<rparr>, e2) \<and>
    evs_entries e2 = io @ poll_entries (rq_heap ?q) vs \<and>
    reg_inv q3 (drop (length vs) cs @ poll_kept (rq_heap ?q) vs) H"
    using q1(1) loop q2(1) p sel(2) by (simp add: poll2_def)
  then show ?thesis using sel(3) fin by (auto simp: events_len_def)
qed

subsection \<open>Properties\<close>

text \<open>C20. One call of \<open>poll2\<close> delivers everything: the wait is for the given time only when nothing is
  queued, the kernel's events are dispatched in its order, and after them the queued nodes that
  are ready, as far as there is room; the call returns the number of entries and leaves every
  registration in place.\<close>

theorem poll_delivers:
  assumes inv: "reg_inv (po_queue po) cs H" and pipe: "nonblocking_pipe P level cap"
    and wait: "k_wait K (sel_kernel (po_selector po)) (evs_events_cap e) (select_timeout_ms (wait_time timeout cs)) = (Inr raw, k)"
    and room: "length raw \<le> events_capacity e"
    and io: "io = concat (map (dispatch_entry (sel_events_map (po_selector po))) raw)"
    and vs: "vs = visited (rq_heap (po_queue po)) (events_capacity e - length io) cs"
  shows "\<exists>po' e'. poll2 K clk P po e timeout interruptible = Some (Inr (length (evs_entries e')), po', e') \<and>
    evs_entries e' = io @ poll_entries (rq_heap (po_queue po)) vs \<and>
    reg_inv (po_queue po') (drop (length vs) cs @ poll_kept (rq_heap (po_queue po)) vs) H \<and>
    same_jobs (sel_events_map (po_selector po)) (sel_events_map (po_selector po')) \<and>
    sel_id (po_selector po') = sel_id (po_selector po) \<and> sel_kernel (po_selector po') = k"
  using poll2_spec[OF assms, of clk interruptible] by (elim exE conjE) (intro exI conjI; assumption)

text \<open>Waiting with a timeout returns, however often signals interrupt it: each interruption is waited
  out for the rest of the time only, and the subtraction never panics.\<close>

theorem poll_interrupted_returns:
  assumes "\<And>k. duration_ok (fst (clk k)) \<and> 0 < duration_nanos (fst (clk k))" and "duration_ok to"
  shows "\<exists>r. poll2_loop K clk interruptible sel e (Some to) = Some r"
  by (rule interrupted_ends[OF assms])

text \<open>A kernel that reports one event of descriptor 7, and one that is always interrupted.\<close>

definition one_event_kernel :: "nat epoll_ops" where
  "one_event_kernel = \<lparr>k_ctl = \<lambda>k _ _ _. (Inr (), k), k_wait = \<lambda>k _ _. (Inr [\<lparr>ee_events = 1, ee_u64 = 7\<rparr>], Suc k)\<rparr>"

definition interrupting_kernel :: "nat epoll_ops" where
  "interrupting_kernel = \<lparr>k_ctl = \<lambda>k _ _ _. (Inr (), k), k_wait = \<lambda>k _ _. (Inl Interrupted, k)\<rparr>"

definition ms_clock :: "nat \<Rightarrow> duration \<times> nat" where
  "ms_clock k = (from_millis 1, k)"

definition one_poll :: "(string, nat, nat) poll" where
  "one_poll = \<lparr>po_selector = \<lparr>sel_id = 1, sel_kernel = 0, sel_events_map = [7 \<mapsto>
       \<lparr>je_token_entry = \<lparr>ttype = SocketEvent, te_token = Token 3\<rparr>, je_job = Job ''j'', je_ready = ready_empty\<rparr>]\<rparr>,
     po_queue = fresh_queue\<rparr>"

theorem poll_delivers_witness:
  "\<exists>po' e'. poll2 one_event_kernel ms_clock (count_pipe 65536) one_poll (events_with_capacity 4) None False =
      Some (Inr (length (evs_entries e')), po', e') \<and> map je_job (evs_entries e') = [Job ''j'']"
proof -
  have inv: "reg_inv (po_queue one_poll) [] (\<lambda>_. 0)" using fresh_queue_inv by (simp add: one_poll_def)
  have wait: "k_wait one_event_kernel (sel_kernel (po_selector one_poll)) (evs_events_cap (events_with_capacity 4 :: string events))
      (select_timeout_ms (wait_time None [])) = (Inr [\<lparr>ee_events = 1, ee_u64 = 7\<rparr>], 1)"
    by (simp add: one_event_kernel_def one_poll_def)
  have room: "length [\<lparr>ee_events = 1 :: u32, ee_u64 = 7 :: u64\<rparr>] \<le> events_capacity (events_with_capacity 4 :: string events)"
    by (simp add: events_capacity_def events_with_capacity_def)
  show ?thesis
    using poll_delivers[OF inv count_pipe.nonblocking_pipe_axioms wait room refl refl, of ms_clock False]
    by (auto simp: dispatch_entry_def one_poll_def poll_entries_def)
qed

theorem poll_interrupted_returns_witness:
  "\<exists>r. poll2_loop interrupting_kernel (\<lambda>k. (from_millis 3, Suc k)) False (po_selector one_poll)
      (events_with_capacity 4) (Some (from_millis 10)) = Some r"
  by (rule poll_interrupted_returns)
    (simp_all add: duration_ok_def duration_nanos_def from_millis_def)

end
