(* ===== verification/TimerList.thy ===== *)
theory TimerList
  imports EventImp
begin

section \<open>The timer's linked lists\<close>

text \<open>
  The entries of \<open>src/timer.rs\<close> and the doubly linked lists they form: \<open>prev\<close> and \<open>next\<close> are keys
  of the slab, \<open>EMPTY\<close> ends a list at both sides. The lemmas describe the lists through a map
  from keys to entries, independent of where the entries are stored.
\<close>

type_synonym tick = u64

definition EMPTY :: token where "EMPTY = Token (- 1)"

definition TICK_MAX :: tick where "TICK_MAX = - 1"

record entry_links =
  el_tick :: tick
  el_prev :: token
  el_next :: token

record 't entry =
  en_state :: 't
  en_links :: entry_links

definition entry_new :: "'t \<Rightarrow> tick \<Rightarrow> token \<Rightarrow> 't entry" where
  "entry_new state tick nxt =
     \<lparr>en_state = state, en_links = \<lparr>el_tick = tick, el_prev = EMPTY, el_next = nxt\<rparr>\<rparr>"

definition set_next :: "token \<Rightarrow> 't entry \<Rightarrow> 't entry" where
  "set_next n e = e\<lparr>en_links := (en_links e)\<lparr>el_next := n\<rparr>\<rparr>"

definition set_prev :: "token \<Rightarrow> 't entry \<Rightarrow> 't entry" where
  "set_prev p e = e\<lparr>en_links := (en_links e)\<lparr>el_prev := p\<rparr>\<rparr>"

lemma set_link_simps [simp]:
  "en_state (set_next n e) = en_state e" "el_tick (en_links (set_next n e)) = el_tick (en_links e)"
  "el_prev (en_links (set_next n e)) = el_prev (en_links e)" "el_next (en_links (set_next n e)) = n"
  "en_state (set_prev n e) = en_state e" "el_tick (en_links (set_prev n e)) = el_tick (en_links e)"
  "el_next (en_links (set_prev n e)) = el_next (en_links e)" "el_prev (en_links (set_prev n e)) = n"
  by (simp_all add: set_next_def set_prev_def)

lemma entry_new_simps [simp]:
  "en_state (entry_new s t n) = s" "el_tick (en_links (entry_new s t n)) = t"
  "el_prev (en_links (entry_new s t n)) = EMPTY" "el_next (en_links (entry_new s t n)) = n"
  by (simp_all add: entry_new_def)

subsection \<open>Segments\<close>

text \<open>\<open>firstp ts n\<close> is the first key of a list or what follows it, \<open>lastp p ts\<close> the last or what
  precedes it.\<close>

fun firstp :: "token list \<Rightarrow> token \<Rightarrow> token" where
  "firstp [] n = n"
| "firstp (t # ts) n = t"

fun lastp :: "token \<Rightarrow> token list \<Rightarrow> token" where
  "lastp p [] = p"
| "lastp p (t # ts) = lastp t ts"

fun seg :: "(token \<rightharpoonup> 't entry) \<Rightarrow> token \<Rightarrow> token list \<Rightarrow> token \<Rightarrow> bool" where
  "seg m p [] n \<longleftrightarrow> True"
| "seg m p (t # ts) n \<longleftrightarrow> (\<exists>e. m t = Some e \<and> el_prev (en_links e) = p \<and>
     el_next (en_links e) = firstp ts n) \<and> seg m t ts n"

lemma firstp_append [simp]: "firstp (xs @ ys) n = firstp xs (firstp ys n)"
  by (cases xs) simp_all

lemma lastp_append [simp]: "lastp p (xs @ ys) = lastp (lastp p xs) ys"
  by (induction xs arbitrary: p) simp_all

lemma lastp_in: "xs \<noteq> [] \<Longrightarrow> lastp p xs \<in> set xs"
  by (induction xs arbitrary: p) (auto, metis lastp.simps(1))

lemma firstp_in: "xs \<noteq> [] \<Longrightarrow> firstp xs n \<in> set xs"
  by (cases xs) simp_all

lemma seg_append [simp]:
  "seg m p (xs @ ys) n \<longleftrightarrow> seg m p xs (firstp ys n) \<and> seg m (lastp p xs) ys n"
  by (induction xs arbitrary: p) auto

lemma seg_alloc: "seg m p ts n \<Longrightarrow> t \<in> set ts \<Longrightarrow> \<exists>e. m t = Some e"
  by (induction ts arbitrary: p) auto

lemma seg_cong:
  "seg m p ts n \<Longrightarrow> (\<And>t. t \<in> set ts \<Longrightarrow> map_option en_links (m' t) = map_option en_links (m t)) \<Longrightarrow> seg m' p ts n"
proof (induction ts arbitrary: p)
  case (Cons t ts)
  then have "map_option en_links (m' t) = map_option en_links (m t)" by simp
  with Cons show ?case by (cases "m' t") auto
qed simp

lemma seg_upd_other: "seg m p ts n \<Longrightarrow> t \<notin> set ts \<Longrightarrow> seg (m(t := x)) p ts n"
  by (erule seg_cong) auto

text \<open>Writing the \<open>next\<close> of the last and the \<open>prev\<close> of the first.\<close>

lemma seg_set_next:
  assumes "seg m p xs n" "xs \<noteq> []" "distinct xs" "m (lastp p xs) = Some e"
  shows "seg (m(lastp p xs \<mapsto> set_next n' e)) p xs n'"
  using assms
proof (induction xs arbitrary: p)
  case (Cons t ts)
  show ?case
  proof (cases "ts = []")
    case True
    then show ?thesis using Cons.prems by simp
  next
    case False
    then have "lastp t ts \<in> set ts" by (rule lastp_in)
    then have ne: "lastp t ts \<noteq> t" using Cons.prems(3) by auto
    have "firstp ts n' = firstp ts n" using False by (cases ts) simp_all
    then show ?thesis using Cons ne False by simp
  qed
qed simp

lemma seg_set_prev:
  assumes "seg m p xs n" "xs \<noteq> []" "distinct xs" "m (firstp xs n) = Some e"
  shows "seg (m(firstp xs n \<mapsto> set_prev p' e)) p' xs n"
  using assms by (cases xs) (auto intro: seg_upd_other)

text \<open>Pushing at the front, as \<open>insert\<close> does, and taking out, as \<open>unlink\<close> does.\<close>

lemma seg_push:
  assumes "seg m EMPTY xs EMPTY" "distinct (t # xs)" "el_prev (en_links e) = EMPTY" "el_next (en_links e) = firstp xs EMPTY"
    and "m' = (if xs = [] then m(t \<mapsto> e) else m(t \<mapsto> e, firstp xs EMPTY \<mapsto> set_prev t (the (m (firstp xs EMPTY)))))"
  shows "seg m' EMPTY (t # xs) EMPTY"
proof (cases xs)
  case (Cons y ys)
  then obtain e' where e': "m y = Some e'" using assms(1) by auto
  have "seg (m(t \<mapsto> e)) EMPTY xs EMPTY" using assms(1,2) by (intro seg_upd_other) auto
  then have "seg (m(t \<mapsto> e, firstp xs EMPTY \<mapsto> set_prev t e')) t xs EMPTY"
    using assms(2) Cons e' by (intro seg_set_prev) auto
  moreover have "t \<noteq> y" using assms(2) Cons by simp
  ultimately show ?thesis using assms Cons e' by auto
qed (use assms in simp)

definition unlinked :: "(token \<rightharpoonup> 't entry) \<Rightarrow> token \<Rightarrow> token \<Rightarrow> (token \<rightharpoonup> 't entry)" where
  "unlinked m p n =
     (let m1 = (if p = EMPTY then m else m(p \<mapsto> set_next n (the (m p))))
      in if n = EMPTY then m1 else m1(n \<mapsto> set_prev p (the (m1 n))))"

lemma seg_unlink:
  assumes "seg m EMPTY (xs @ t # ys) EMPTY" "distinct (xs @ t # ys)" "EMPTY \<notin> set (xs @ t # ys)"
  shows "seg (unlinked m (lastp EMPTY xs) (firstp ys EMPTY)) EMPTY (xs @ ys) EMPTY"
proof -
  let ?p = "lastp EMPTY xs" and ?n = "firstp ys EMPTY"
  let ?m1 = "if ?p = EMPTY then m else m(?p \<mapsto> set_next ?n (the (m ?p)))"
  have s: "seg m EMPTY xs t" "seg m t ys EMPTY" using assms(1) by simp_all
  have p: "?p = EMPTY \<longleftrightarrow> xs = []" using assms(3) lastp_in[of xs EMPTY] by (cases "xs = []") auto
  have n: "?n = EMPTY \<longleftrightarrow> ys = []" using assms(3) firstp_in[of ys EMPTY] by (cases "ys = []") auto
  have s1: "seg ?m1 EMPTY xs ?n"
  proof (cases "xs = []")
    case False
    then obtain e where e: "m ?p = Some e" using seg_alloc[OF s(1) lastp_in] by blast
    have "seg (m(?p \<mapsto> set_next ?n e)) EMPTY xs ?n"
      by (rule seg_set_next[OF s(1) False _ e]) (use assms(2) in simp)
    then show ?thesis using False e p by simp
  qed simp
  have s2: "seg ?m1 t ys EMPTY"
  proof (cases "xs = []")
    case False
    then have "?p \<notin> set ys" using lastp_in[of xs EMPTY] assms(2) by auto
    then show ?thesis using p s(2) seg_upd_other[OF s(2)] by simp
  qed (use s(2) in simp)
  show ?thesis
  proof (cases "ys = []")
    case True
    then show ?thesis using s1 by (auto simp: unlinked_def Let_def split: if_splits)
  next
    case False
    then obtain e where e: "?m1 ?n = Some e" using seg_alloc[OF s2 firstp_in] by blast
    have "seg (?m1(?n \<mapsto> set_prev ?p e)) ?p ys EMPTY"
      by (rule seg_set_prev[OF s2 False _ e]) (use assms(2) in simp)
    moreover have "?n \<notin> set xs" using firstp_in[OF False, of EMPTY] assms(2) by auto
    then have "seg (?m1(?n \<mapsto> set_prev ?p e)) EMPTY xs ?n" by (rule seg_upd_other[OF s1])
    ultimately show ?thesis using False n e by (simp add: unlinked_def Let_def)
  qed
qed

end
