(* ===== verification/Slab.thy ===== *)
theory Slab
  imports Prelude
begin

section \<open>The interface of the slab\<close>

text \<open>
  The timer keeps its entries in a \<open>slab::Slab\<close>, a crate that is not part of the repository.
  Its operations are a parameter: \<open>with_capacity\<close>, \<open>insert\<close> (a panic, \<open>None\<close>, when the storage
  cannot grow), \<open>get\<close>, the write through \<open>index_mut\<close> and \<open>remove\<close> (a panic on a vacant key).
  The locale \<open>slab\<close> states what the crate documents of them; \<open>inv\<close> are the states that the
  operations produce. The largest \<open>usize\<close> is never a key, since the storage is one vector.
\<close>

record ('s, 'e) slab_ops =
  sl_with_capacity :: "usize \<Rightarrow> 's"
  sl_insert :: "'s \<Rightarrow> 'e \<Rightarrow> (usize \<times> 's) option"
  sl_get :: "'s \<Rightarrow> usize \<Rightarrow> 'e option"
  sl_put :: "'s \<Rightarrow> usize \<Rightarrow> 'e \<Rightarrow> 's"
  sl_remove :: "'s \<Rightarrow> usize \<Rightarrow> ('e \<times> 's) option"

locale slab =
  fixes S :: "('s, 'e) slab_ops"
    and inv :: "'s \<Rightarrow> bool"
  assumes inv_with_capacity: "inv (sl_with_capacity S n)"
    and get_with_capacity: "sl_get S (sl_with_capacity S n) k = None"
    and inv_insert: "inv s \<Longrightarrow> sl_insert S s e = Some (k, s') \<Longrightarrow> inv s'"
    and insert_vacant: "inv s \<Longrightarrow> sl_insert S s e = Some (k, s') \<Longrightarrow> sl_get S s k = None"
    and insert_key: "inv s \<Longrightarrow> sl_insert S s e = Some (k, s') \<Longrightarrow> k \<noteq> - 1"
    and get_insert: "inv s \<Longrightarrow> sl_insert S s e = Some (k, s') \<Longrightarrow> sl_get S s' = (sl_get S s)(k \<mapsto> e)"
    and inv_put: "inv s \<Longrightarrow> sl_get S s k \<noteq> None \<Longrightarrow> inv (sl_put S s k e)"
    and get_put: "inv s \<Longrightarrow> sl_get S s k \<noteq> None \<Longrightarrow> sl_get S (sl_put S s k e) = (sl_get S s)(k \<mapsto> e)"
    and remove_vacant: "inv s \<Longrightarrow> sl_get S s k = None \<Longrightarrow> sl_remove S s k = None"
    and remove_occupied: "inv s \<Longrightarrow> sl_get S s k = Some e \<Longrightarrow>
      \<exists>s'. sl_remove S s k = Some (e, s') \<and> inv s' \<and> sl_get S s' = (sl_get S s)(k := None)"
begin

lemma put_frame: "inv s \<Longrightarrow> sl_get S s k \<noteq> None \<Longrightarrow> k' \<noteq> k \<Longrightarrow> sl_get S (sl_put S s k e) k' = sl_get S s k'"
  by (simp add: get_put)

end

text \<open>A read-modify-write of one entry, \<open>entries[k].field = v\<close>: a panic on a vacant key.\<close>

definition sl_modify :: "('s, 'e) slab_ops \<Rightarrow> 's \<Rightarrow> usize \<Rightarrow> ('e \<Rightarrow> 'e) \<Rightarrow> 's option" where
  "sl_modify S s k f = (case sl_get S s k of None \<Rightarrow> None | Some e \<Rightarrow> Some (sl_put S s k (f e)))"

context slab
begin

lemma modify_occupied:
  assumes "inv s" "sl_get S s k = Some e"
  shows "\<exists>s'. sl_modify S s k f = Some s' \<and> inv s' \<and> sl_get S s' = (sl_get S s)(k \<mapsto> f e)"
  using assms by (simp add: sl_modify_def inv_put get_put)

end

subsection \<open>A vector of optional entries keeps the contract\<close>

text \<open>The contract is consistent: a vector whose vacant places are reused keeps it.\<close>

definition first_vacant :: "'e option list \<Rightarrow> nat" where
  "first_vacant xs = length (takeWhile (\<lambda>x. x \<noteq> None) xs)"

definition vec_slab :: "('e option list, 'e) slab_ops" where
  "vec_slab = \<lparr>
     sl_with_capacity = \<lambda>_. [],
     sl_insert = \<lambda>xs e.
       (let i = first_vacant xs
        in if i < length xs then Some (of_nat i, xs[i := Some e])
           else if length xs < 2 ^ 60 then Some (of_nat i, xs @ [Some e]) else None),
     sl_get = \<lambda>xs k. (if unat k < length xs then xs ! unat k else None),
     sl_put = \<lambda>xs k e. xs[unat k := Some e],
     sl_remove = \<lambda>xs k.
       (if unat k < length xs
        then (case xs ! unat k of None \<Rightarrow> None | Some e \<Rightarrow> Some (e, xs[unat k := None]))
        else None)\<rparr>"

definition vec_slab_inv :: "'e option list \<Rightarrow> bool" where
  "vec_slab_inv xs \<longleftrightarrow> length xs \<le> 2 ^ 60"

lemma first_vacant_le: "first_vacant xs \<le> length xs"
  by (simp add: first_vacant_def length_takeWhile_le)

lemma first_vacant_None: "first_vacant xs < length xs \<Longrightarrow> xs ! first_vacant xs = None"
  using nth_length_takeWhile[of "\<lambda>x. x \<noteq> None" xs] by (simp add: first_vacant_def)

lemma unat_small_u64: "n \<le> 2 ^ 60 \<Longrightarrow> unat (of_nat n :: u64) = n"
  by (simp add: unat_of_nat take_bit_nat_eq_self)

lemma vec_insert_cases:
  assumes "vec_slab_inv xs" "sl_insert vec_slab xs e = Some (k, ys)"
  shows "unat k = first_vacant xs \<and> vec_slab_inv ys \<and>
    (first_vacant xs < length xs \<and> ys = xs[first_vacant xs := Some e] \<or>
     first_vacant xs = length xs \<and> ys = xs @ [Some e])"
proof -
  have "first_vacant xs \<le> 2 ^ 60"
    using assms(1) first_vacant_le[of xs] by (simp add: vec_slab_inv_def)
  then show ?thesis
    using assms first_vacant_le[of xs]
    by (auto simp: vec_slab_def vec_slab_inv_def Let_def unat_small_u64 split: if_splits)
qed

interpretation vec_slab: slab "vec_slab :: ('e option list, 'e) slab_ops" vec_slab_inv
proof
  fix s s' :: "'e option list" and e k
  assume inv: "vec_slab_inv s" and ins: "sl_insert vec_slab s e = Some (k, s')"
  note c = vec_insert_cases[OF inv ins]
  then show "vec_slab_inv s'" by simp
  show "sl_get vec_slab s k = None"
    using c first_vacant_None[of s] by (auto simp: vec_slab_def)
  have "unat k \<le> 2 ^ 60"
    using c first_vacant_le[of s] inv by (simp add: vec_slab_inv_def)
  then show "k \<noteq> - 1" by auto
  show "sl_get vec_slab s' = (sl_get vec_slab s)(k \<mapsto> e)"
    using c by (auto simp: vec_slab_def fun_eq_iff nth_append nth_list_update word_unat_eq_iff)
next
  fix s :: "'e option list" and k e
  assume "vec_slab_inv s" "sl_get vec_slab s k = Some e"
  then show "\<exists>s'. sl_remove vec_slab s k = Some (e, s') \<and> vec_slab_inv s' \<and>
      sl_get vec_slab s' = (sl_get vec_slab s)(k := None)"
    by (auto simp: vec_slab_def vec_slab_inv_def fun_eq_iff nth_list_update word_unat_eq_iff
        split: if_splits)
next
  fix s :: "'e option list" and k e
  assume "vec_slab_inv s" "sl_get vec_slab s k \<noteq> None"
  then show "vec_slab_inv (sl_put vec_slab s k e)"
    and "sl_get vec_slab (sl_put vec_slab s k e) = (sl_get vec_slab s)(k \<mapsto> e)"
    by (auto simp: vec_slab_def vec_slab_inv_def fun_eq_iff nth_list_update word_unat_eq_iff
        split: if_splits)
qed (auto simp: vec_slab_def vec_slab_inv_def split: if_splits)

end
