(* ===== verification/Timer.thy ===== *)
theory Timer
  imports TimerList Slab LazyCell Convert QueuePoll
begin

unbundle bit_operations_syntax

section \<open>The timer wheel\<close>

text \<open>
  \<open>Timer\<close> of \<open>src/timer.rs\<close>: a wheel of slots, each the head of a list of entries kept in a slab
  (the parameter \<open>S\<close>). The clock is an argument: \<open>elapsed\<close> is what \<open>start.elapsed()\<close> returned.
  An operation that can panic returns an option. The registered half, \<open>Inner\<close>, holds two handles
  on a node of the readiness queue, the wake-up tick shared with the wake-up thread, and that
  thread's park token.
\<close>

record timeout =
  to_token :: token
  to_tick :: tick

record builder =
  bl_tick :: duration
  bl_num_slots :: usize
  bl_capacity :: usize

record wheel_entry =
  we_next_tick :: tick
  we_head :: token

record timer_inner =
  in_registration :: addr
  in_set_readiness :: addr
  in_wakeup_state :: usize
  in_unpark :: bool

record 's timer =
  tm_tick_ms :: u64
  tm_entries :: 's
  tm_wheel :: "wheel_entry list"
  tm_tick :: tick
  tm_next :: token
  tm_mask :: u64
  tm_inner :: "timer_inner lazy_cell"

datatype timer_error = TimerError

definition TERMINATE_THREAD :: usize where "TERMINATE_THREAD = 0"

subsection \<open>Ticks\<close>

definition duration_add :: "duration \<Rightarrow> duration \<Rightarrow> duration option" where
  "duration_add a b =
     (let n = subsec_nanos a + subsec_nanos b
      in do { s \<leftarrow> add_u64 (as_secs a) (as_secs b);
              if n \<ge> 1000000000
              then do { s \<leftarrow> add_u64 s 1; Some \<lparr>as_secs = s, subsec_nanos = n - 1000000000\<rparr> }
              else Some \<lparr>as_secs = s, subsec_nanos = n\<rparr> })"

definition duration_to_tick :: "duration \<Rightarrow> u64 \<Rightarrow> tick option" where
  "duration_to_tick elapsed tick_ms =
     (if tick_ms = 0 then None
      else (let elapsed_ms = millis elapsed
            in Some (saturating_add elapsed_ms (tick_ms div 2) div tick_ms)))"

definition current_tick :: "duration \<Rightarrow> u64 \<Rightarrow> tick option" where
  "current_tick elapsed tick_ms = duration_to_tick elapsed tick_ms"

subsection \<open>Construction\<close>

definition timer_new :: "('s, 't entry) slab_ops \<Rightarrow> u64 \<Rightarrow> usize \<Rightarrow> usize \<Rightarrow> 's timer option" where
  "timer_new S tick_ms num_slots capacity =
     do { num_slots \<leftarrow> next_power_of_two num_slots;
          capacity \<leftarrow> next_power_of_two capacity;
          mask \<leftarrow> sub_u64 num_slots 1;
          Some \<lparr>tm_tick_ms = tick_ms, tm_entries = sl_with_capacity S capacity,
                tm_wheel = replicate (unat num_slots) \<lparr>we_next_tick = TICK_MAX, we_head = EMPTY\<rparr>,
                tm_tick = 0, tm_next = EMPTY, tm_mask = mask, tm_inner = lc_new\<rparr> }"

definition builder_default :: builder where
  "builder_default = \<lparr>bl_tick = from_millis 100, bl_num_slots = 256, bl_capacity = 65536\<rparr>"

definition builder_tick_duration :: "builder \<Rightarrow> duration \<Rightarrow> builder" where
  "builder_tick_duration b d = b\<lparr>bl_tick := d\<rparr>"

definition builder_num_slots :: "builder \<Rightarrow> usize \<Rightarrow> builder" where
  "builder_num_slots b n = b\<lparr>bl_num_slots := n\<rparr>"

definition builder_capacity :: "builder \<Rightarrow> usize \<Rightarrow> builder" where
  "builder_capacity b n = b\<lparr>bl_capacity := n\<rparr>"

definition builder_build :: "('s, 't entry) slab_ops \<Rightarrow> builder \<Rightarrow> 's timer option" where
  "builder_build S b = timer_new S (millis (bl_tick b)) (bl_num_slots b) (bl_capacity b)"

definition timer_default :: "('s, 't entry) slab_ops \<Rightarrow> 's timer option" where
  "timer_default S = builder_build S builder_default"

definition slot_for :: "'s timer \<Rightarrow> tick \<Rightarrow> nat" where
  "slot_for tm tick = unat (tm_mask tm AND tick)"

subsection \<open>Waking the poller\<close>

text \<open>The compare-and-swap loop of \<open>schedule_readiness\<close> is one atomic update.\<close>

definition schedule_readiness :: "'s timer \<Rightarrow> tick \<Rightarrow> 's timer" where
  "schedule_readiness tm tick =
     (case lc_borrow (tm_inner tm) of
        None \<Rightarrow> tm
      | Some inner \<Rightarrow>
          if in_wakeup_state inner \<le> tick then tm
          else tm\<lparr>tm_inner := \<lparr>lc_inner =
                 Some (inner\<lparr>in_wakeup_state := tick, in_unpark := True\<rparr>)\<rparr>\<rparr>)"

definition min_next_tick :: "wheel_entry list \<Rightarrow> tick option" where
  "min_next_tick ws =
     (case map we_next_tick ws of [] \<Rightarrow> None | x # xs \<Rightarrow> Some (foldl min x xs))"

definition timer_next_tick :: "('s, 't entry) slab_ops \<Rightarrow> 's timer \<Rightarrow> tick option option" where
  "timer_next_tick S tm =
     (if tm_next tm \<noteq> EMPTY
      then do { e \<leftarrow> sl_get S (tm_entries tm) (usize_from_token (tm_next tm));
                w \<leftarrow> vec_get (tm_wheel tm) (slot_for tm (el_tick (en_links e)));
                if we_next_tick w = tm_tick tm then Some (Some (tm_tick tm))
                else Some (min_next_tick (tm_wheel tm)) }
      else Some (min_next_tick (tm_wheel tm)))"

subsection \<open>Setting and cancelling a timeout\<close>

definition timer_insert ::
    "('s, 't entry) slab_ops \<Rightarrow> 's timer \<Rightarrow> tick \<Rightarrow> 't \<Rightarrow> ((timer_error + timeout) \<times> 's timer) option" where
  "timer_insert S tm tick state =
     (let slot = unat (tick AND tm_mask tm)
      in do { curr \<leftarrow> vec_get (tm_wheel tm) slot;
              let entry = entry_new state tick (we_head curr);
              (key, es) \<leftarrow> sl_insert S (tm_entries tm) entry;
              let token = Token key;
              es \<leftarrow> (if we_head curr \<noteq> EMPTY
                     then sl_modify S es (usize_from_token (we_head curr)) (set_prev token)
                     else Some es);
              wheel \<leftarrow> vec_set (tm_wheel tm) slot
                 \<lparr>we_next_tick = min tick (we_next_tick curr), we_head = token\<rparr>;
              let tm = schedule_readiness (tm\<lparr>tm_entries := es, tm_wheel := wheel\<rparr>) tick;
              Some (Inr \<lparr>to_token = token, to_tick = tick\<rparr>, tm) })"

definition set_timeout_at ::
    "('s, 't entry) slab_ops \<Rightarrow> 's timer \<Rightarrow> duration \<Rightarrow> 't \<Rightarrow> ((timer_error + timeout) \<times> 's timer) option" where
  "set_timeout_at S tm delay_from_start state =
     do { tick \<leftarrow> duration_to_tick delay_from_start (tm_tick_ms tm);
          tick \<leftarrow> (if tick < tm_tick tm then add_u64 (tm_tick tm) 1 else Some tick);
          timer_insert S tm tick state }"

definition set_timeout ::
    "('s, 't entry) slab_ops \<Rightarrow> 's timer \<Rightarrow> duration \<Rightarrow> duration \<Rightarrow> 't
       \<Rightarrow> ((timer_error + timeout) \<times> 's timer) option" where
  "set_timeout S tm elapsed delay_from_now state =
     do { delay_from_start \<leftarrow> duration_add elapsed delay_from_now;
          set_timeout_at S tm delay_from_start state }"

definition timer_unlink ::
    "('s, 't entry) slab_ops \<Rightarrow> 's timer \<Rightarrow> entry_links \<Rightarrow> token \<Rightarrow> 's timer option" where
  "timer_unlink S tm links token =
     do { tm \<leftarrow> (if el_prev links = EMPTY
                then (let slot = slot_for tm (el_tick links)
                      in do { w \<leftarrow> vec_get (tm_wheel tm) slot;
                              wheel \<leftarrow> vec_set (tm_wheel tm) slot (w\<lparr>we_head := el_next links\<rparr>);
                              Some (tm\<lparr>tm_wheel := wheel\<rparr>) })
                else do { es \<leftarrow> sl_modify S (tm_entries tm) (usize_from_token (el_prev links))
                                 (set_next (el_next links));
                          Some (tm\<lparr>tm_entries := es\<rparr>) });
          if el_next links \<noteq> EMPTY
          then do { es \<leftarrow> sl_modify S (tm_entries tm) (usize_from_token (el_next links))
                            (set_prev (el_prev links));
                    let tm = tm\<lparr>tm_entries := es\<rparr>;
                    if token = tm_next tm then Some (tm\<lparr>tm_next := el_next links\<rparr>) else Some tm }
          else if token = tm_next tm then Some (tm\<lparr>tm_next := EMPTY\<rparr>)
          else Some tm }"

text \<open>\<open>unlink\<close> followed by the removal from the slab, as \<open>cancel_timeout\<close> and \<open>poll_to\<close> have it.\<close>

definition timer_take ::
    "('s, 't entry) slab_ops \<Rightarrow> 's timer \<Rightarrow> entry_links \<Rightarrow> token \<Rightarrow> ('t \<times> 's timer) option" where
  "timer_take S tm links token =
     do { tm \<leftarrow> timer_unlink S tm links token;
          (e, es) \<leftarrow> sl_remove S (tm_entries tm) (usize_from_token token);
          Some (en_state e, tm\<lparr>tm_entries := es\<rparr>) }"

definition cancel_timeout ::
    "('s, 't entry) slab_ops \<Rightarrow> 's timer \<Rightarrow> timeout \<Rightarrow> ('t option \<times> 's timer) option" where
  "cancel_timeout S tm to =
     (case sl_get S (tm_entries tm) (usize_from_token (to_token to)) of
        None \<Rightarrow> Some (None, tm)
      | Some e \<Rightarrow>
          if el_tick (en_links e) \<noteq> to_tick to then Some (None, tm)
          else do { (t, tm) \<leftarrow> timer_take S tm (en_links e) (to_token to); Some (Some t, tm) })"

subsection \<open>Polling\<close>

definition set_wheel_next :: "'s timer \<Rightarrow> nat \<Rightarrow> tick \<Rightarrow> 's timer option" where
  "set_wheel_next tm slot tick =
     do { w \<leftarrow> vec_get (tm_wheel tm) slot;
          wheel \<leftarrow> vec_set (tm_wheel tm) slot (w\<lparr>we_next_tick := tick\<rparr>);
          Some (tm\<lparr>tm_wheel := wheel\<rparr>) }"

text \<open>The body of the loop of \<open>poll_to\<close>: \<open>Some\<close> of a state when it returns one.\<close>

definition poll_step :: "('s, 't entry) slab_ops \<Rightarrow> 's timer \<Rightarrow> ('t option \<times> 's timer) option" where
  "poll_step S tm =
     (let curr = tm_next tm
      in if curr = EMPTY
         then do { t \<leftarrow> add_u64 (tm_tick tm) 1;
                   let tm = tm\<lparr>tm_tick := t\<rparr>;
                   let slot = slot_for tm (tm_tick tm);
                   w \<leftarrow> vec_get (tm_wheel tm) slot;
                   let tm = tm\<lparr>tm_next := we_head w\<rparr>;
                   tm \<leftarrow> (if tm_next tm = EMPTY then set_wheel_next tm slot TICK_MAX else Some tm);
                   Some (None, tm) }
         else do { let slot = slot_for tm (tm_tick tm);
                   w \<leftarrow> vec_get (tm_wheel tm) slot;
                   tm \<leftarrow> (if curr = we_head w then set_wheel_next tm slot TICK_MAX else Some tm);
                   e \<leftarrow> sl_get S (tm_entries tm) (usize_from_token curr);
                   let links = en_links e;
                   if el_tick links \<le> tm_tick tm
                   then do { (t, tm) \<leftarrow> timer_take S tm links curr; Some (Some t, tm) }
                   else do { w \<leftarrow> vec_get (tm_wheel tm) slot;
                             tm \<leftarrow> set_wheel_next tm slot (min (we_next_tick w) (el_tick links));
                             Some (None, tm\<lparr>tm_next := el_next links\<rparr>) } })"

partial_function (option) poll_to_loop ::
    "('s, 't entry) slab_ops \<Rightarrow> 's timer \<Rightarrow> tick \<Rightarrow> ('t option \<times> 's timer) option" where
  "poll_to_loop S tm target =
     (if tm_tick tm \<le> target
      then (case poll_step S tm of
              None \<Rightarrow> None
            | Some (r, tm) \<Rightarrow> (case r of Some t \<Rightarrow> Some (Some t, tm) | None \<Rightarrow> poll_to_loop S tm target))
      else Some (None, tm))"

text \<open>\<open>poll_to\<close>; the timer's node is in the readiness queue \<open>q\<close>. The result of \<open>set_readiness\<close>
  is discarded.\<close>

definition poll_to ::
    "'p pipe_ops \<Rightarrow> ('s, 't entry) slab_ops \<Rightarrow> 's timer \<times> ('j, 'p) rqueue \<Rightarrow> tick
       \<Rightarrow> ('t option \<times> 's timer \<times> ('j, 'p) rqueue) option" where
  "poll_to P S st target =
     (case st of (tm, q) \<Rightarrow>
        do { let target = (if target < tm_tick tm then tm_tick tm else target);
             (r, tm) \<leftarrow> poll_to_loop S tm target;
             case r of
               Some t \<Rightarrow> Some (Some t, tm, q)
             | None \<Rightarrow>
                 (case lc_borrow (tm_inner tm) of
                    None \<Rightarrow> Some (None, tm, q)
                  | Some inner \<Rightarrow>
                      do { (_, q) \<leftarrow> reg_set_readiness P q (in_set_readiness inner) ready_empty;
                           n \<leftarrow> timer_next_tick S tm;
                           Some (None, case n of Some tick \<Rightarrow> schedule_readiness tm tick | None \<Rightarrow> tm, q) }) })"

definition timer_poll ::
    "'p pipe_ops \<Rightarrow> ('s, 't entry) slab_ops \<Rightarrow> 's timer \<times> ('j, 'p) rqueue \<Rightarrow> duration
       \<Rightarrow> ('t option \<times> 's timer \<times> ('j, 'p) rqueue) option" where
  "timer_poll P S st elapsed =
     do { target \<leftarrow> current_tick elapsed (tm_tick_ms (fst st)); poll_to P S st target }"

end
