(* ===== verification/TimerInv.thy ===== *)
theory TimerInv
  imports Timer
begin

unbundle bit_operations_syntax

section \<open>Correctness of the timer wheel\<close>

text \<open>
  The invariant of the wheel, that every operation keeps it, and what the operations do to the
  map of pending timeouts. \<open>L\<close> gives the list of keys of each slot, \<open>xs @ ys\<close> is the list of the
  slot being polled, split where \<open>next\<close> points.
\<close>

definition ents :: "('s, 't entry) slab_ops \<Rightarrow> 's \<Rightarrow> token \<Rightarrow> 't entry option" where
  "ents S es t = sl_get S es (usize_from_token t)"

text \<open>The specification: which timeouts are pending, with their ticks and states.\<close>

definition pending :: "('s, 't entry) slab_ops \<Rightarrow> 's timer \<Rightarrow> token \<Rightarrow> (tick \<times> 't) option" where
  "pending S tm t = map_option (\<lambda>e. (el_tick (en_links e), en_state e)) (ents S (tm_entries tm) t)"

definition entry_tick :: "'t entry \<Rightarrow> tick" where
  "entry_tick e = el_tick (en_links e)"

definition lists_ok :: "(token \<rightharpoonup> 't entry) \<Rightarrow> (tick \<Rightarrow> nat) \<Rightarrow> wheel_entry list \<Rightarrow> (nat \<Rightarrow> token list) \<Rightarrow> bool" where
  "lists_ok m slot ws L \<longleftrightarrow>
     (\<forall>i < length ws. seg m EMPTY (L i) EMPTY \<and> distinct (L i) \<and> we_head (ws ! i) = firstp (L i) EMPTY \<and>
        (\<forall>t \<in> set (L i). \<forall>e. m t = Some e \<longrightarrow> slot (entry_tick e) = i)) \<and>
     (\<forall>t e. m t = Some e \<longrightarrow> t \<noteq> EMPTY \<and> t \<in> set (L (slot (entry_tick e)))) \<and>
     (\<forall>k. slot k < length ws)"

definition wheel_inv ::
    "('s, 't entry) slab_ops \<Rightarrow> ('s \<Rightarrow> bool) \<Rightarrow> 's timer \<Rightarrow> (nat \<Rightarrow> token list) \<Rightarrow> token list \<Rightarrow> token list \<Rightarrow> bool" where
  "wheel_inv S sok tm L xs ys \<longleftrightarrow> sok (tm_entries tm) \<and>
     length (tm_wheel tm) = unat (tm_mask tm) + 1 \<and>
     lists_ok (ents S (tm_entries tm)) (slot_for tm) (tm_wheel tm) L \<and>
     L (slot_for tm (tm_tick tm)) = xs @ ys \<and> tm_next tm = firstp ys EMPTY"

text \<open>Nothing due has been passed over.\<close>

definition none_missed :: "('s, 't entry) slab_ops \<Rightarrow> 's timer \<Rightarrow> token list \<Rightarrow> bool" where
  "none_missed S tm ys \<longleftrightarrow>
     (\<forall>t e. ents S (tm_entries tm) t = Some e \<longrightarrow> entry_tick e \<le> tm_tick tm \<longrightarrow> t \<in> set ys)"

text \<open>No entry outside \<open>X\<close> is due before the tick scheduled for its slot.\<close>

definition counted :: "('s, 't entry) slab_ops \<Rightarrow> 's timer \<Rightarrow> token set \<Rightarrow> bool" where
  "counted S tm X \<longleftrightarrow> (\<forall>t e. ents S (tm_entries tm) t = Some e \<longrightarrow> t \<notin> X \<longrightarrow>
     we_next_tick (tm_wheel tm ! slot_for tm (entry_tick e)) \<le> entry_tick e)"

text \<open>Nothing is pending before the current tick.\<close>

definition none_before :: "('s, 't entry) slab_ops \<Rightarrow> 's timer \<Rightarrow> bool" where
  "none_before S tm \<longleftrightarrow> (\<forall>t e. ents S (tm_entries tm) t = Some e \<longrightarrow> tm_tick tm \<le> entry_tick e)"

definition timer_inv :: "('s, 't entry) slab_ops \<Rightarrow> ('s \<Rightarrow> bool) \<Rightarrow> 's timer \<Rightarrow> bool" where
  "timer_inv S sok tm \<longleftrightarrow> (\<exists>L xs ys. wheel_inv S sok tm L xs ys \<and> none_missed S tm ys \<and>
     counted S tm (set ys))"

text \<open>Memory safety alone needs no more than the lists.\<close>

definition timer_safe :: "('s, 't entry) slab_ops \<Rightarrow> ('s \<Rightarrow> bool) \<Rightarrow> 's timer \<Rightarrow> bool" where
  "timer_safe S sok tm \<longleftrightarrow> (\<exists>L xs ys. wheel_inv S sok tm L xs ys)"

lemma slot_for_upd [simp]:
  "slot_for (tm\<lparr>tm_entries := es\<rparr>) = slot_for tm" "slot_for (tm\<lparr>tm_wheel := ws\<rparr>) = slot_for tm"
  "slot_for (tm\<lparr>tm_tick := k\<rparr>) = slot_for tm" "slot_for (tm\<lparr>tm_next := n\<rparr>) = slot_for tm"
  "slot_for (tm\<lparr>tm_inner := c\<rparr>) = slot_for tm"
  by (simp_all add: slot_for_def fun_eq_iff)

subsection \<open>Lists under insertion and removal\<close>

lemma lists_okD:
  assumes "lists_ok m slot ws L"
  shows "slot k < length ws"
    and "i < length ws \<Longrightarrow> seg m EMPTY (L i) EMPTY" and "i < length ws \<Longrightarrow> distinct (L i)"
    and "i < length ws \<Longrightarrow> we_head (ws ! i) = firstp (L i) EMPTY"
    and "i < length ws \<Longrightarrow> t \<in> set (L i) \<Longrightarrow> \<exists>e. m t = Some e \<and> slot (entry_tick e) = i"
    and "m t = Some e \<Longrightarrow> t \<noteq> EMPTY" and "m t = Some e \<Longrightarrow> t \<in> set (L (slot (entry_tick e)))"
    and "i < length ws \<Longrightarrow> EMPTY \<notin> set (L i)"
proof -
  note d = assms[unfolded lists_ok_def]
  show "slot k < length ws" "i < length ws \<Longrightarrow> seg m EMPTY (L i) EMPTY" "i < length ws \<Longrightarrow> distinct (L i)"
    "i < length ws \<Longrightarrow> we_head (ws ! i) = firstp (L i) EMPTY" "m t = Some e \<Longrightarrow> t \<noteq> EMPTY"
    "m t = Some e \<Longrightarrow> t \<in> set (L (slot (entry_tick e)))"
    using d by blast+
  have al: "\<exists>e. m t = Some e" if "i < length ws" "t \<in> set (L i)" for t
    using seg_alloc[of m EMPTY "L i" EMPTY t] d that by blast
  show "i < length ws \<Longrightarrow> t \<in> set (L i) \<Longrightarrow> \<exists>e. m t = Some e \<and> slot (entry_tick e) = i"
    using al d by blast
  show "i < length ws \<Longrightarrow> EMPTY \<notin> set (L i)" using al d by blast
qed

text \<open>Only the links of the entries may change: states, ticks and keys stay.\<close>

definition same_entries :: "(token \<rightharpoonup> 't entry) \<Rightarrow> (token \<rightharpoonup> 't entry) \<Rightarrow> bool" where
  "same_entries m m' \<longleftrightarrow> (\<forall>t. map_option (\<lambda>e. (entry_tick e, en_state e)) (m' t) =
     map_option (\<lambda>e. (entry_tick e, en_state e)) (m t))"

lemma same_entries_refl [simp]: "same_entries m m"
  by (simp add: same_entries_def)

lemma same_entries_trans: "same_entries m n \<Longrightarrow> same_entries n k \<Longrightarrow> same_entries m k"
  by (simp add: same_entries_def)

lemma same_entries_Some:
  assumes "same_entries m m'" "m' t = Some e'"
  shows "\<exists>e. m t = Some e \<and> entry_tick e = entry_tick e' \<and> en_state e = en_state e'"
proof -
  have "map_option (\<lambda>e. (entry_tick e, en_state e)) (m t) = Some (entry_tick e', en_state e')"
    using assms(1)[unfolded same_entries_def, THEN spec, of t] assms(2) by simp
  then show ?thesis by auto
qed

lemma same_entries_None: "same_entries m m' \<Longrightarrow> m t = None \<Longrightarrow> m' t = None"
  using same_entries_Some by (cases "m' t") force+

lemma same_entries_sym: "same_entries m m' \<Longrightarrow> same_entries m' m"
  by (simp add: same_entries_def)

lemma entry_tick_links [simp]: "entry_tick (set_next n e) = entry_tick e" "entry_tick (set_prev n e) = entry_tick e"
  "entry_tick (entry_new s t n) = t"
  by (simp_all add: entry_tick_def)

lemma same_entries_link:
  "m t = Some e \<Longrightarrow> same_entries m (m(t \<mapsto> set_next n e))"
  "m t = Some e \<Longrightarrow> same_entries m (m(t \<mapsto> set_prev n e))"
  by (simp_all add: same_entries_def)

lemma unlinked_same:
  assumes "p \<noteq> EMPTY \<Longrightarrow> m p \<noteq> None" "n \<noteq> EMPTY \<Longrightarrow> m n \<noteq> None"
  shows "same_entries m (unlinked m p n)"
proof -
  let ?m1 = "if p = EMPTY then m else m(p \<mapsto> set_next n (the (m p)))"
  have 1: "same_entries m ?m1" using assms(1) same_entries_link(1)[of m p "the (m p)" n] by auto
  have "same_entries ?m1 (if n = EMPTY then ?m1 else ?m1(n \<mapsto> set_prev p (the (?m1 n))))"
    using assms(2) same_entries_link(2)[of ?m1 n "the (?m1 n)" p] by auto
  from same_entries_trans[OF 1 this] show ?thesis by (simp add: unlinked_def Let_def)
qed

lemma lists_disjoint:
  assumes "lists_ok m slot ws L" "i < length ws" "j < length ws" "t \<in> set (L i)" "t \<in> set (L j)"
  shows "i = j"
  using lists_okD(5)[OF assms(1,2,4)] lists_okD(5)[OF assms(1,3,5)] by auto

lemma unlinked_other: "t \<noteq> p \<Longrightarrow> t \<noteq> n \<Longrightarrow> unlinked m p n t = m t"
  by (simp add: unlinked_def Let_def)

lemma seg_same_on:
  assumes "seg m p ts n" "\<And>t. t \<in> set ts \<Longrightarrow> m' t = m t" shows "seg m' p ts n"
  by (rule seg_cong[OF assms(1)]) (simp add: assms(2))

text \<open>The links of an entry, from its place in the list.\<close>

lemma links_at:
  assumes "seg m EMPTY (as @ t # bs) EMPTY" "m t = Some e"
  shows "el_prev (en_links e) = lastp EMPTY as" "el_next (en_links e) = firstp bs EMPTY"
  using assms by auto

lemma lists_ok_remove:
  assumes ok: "lists_ok m slot ws L" and e: "m t = Some e" and i: "i = slot (entry_tick e)"
    and L: "L i = as @ t # bs" and p: "p = el_prev (en_links e)" and n: "n = el_next (en_links e)"
  shows "lists_ok ((unlinked m p n)(t := None)) slot
      (if p = EMPTY then ws[i := (ws ! i)\<lparr>we_head := n\<rparr>] else ws) (L(i := as @ bs))"
    (is "lists_ok ?m' slot ?ws ?L")
proof -
  note d = lists_okD[OF ok]
  have il: "i < length ws" using d(1) i by simp
  have sg: "seg m EMPTY (as @ t # bs) EMPTY" and dist: "distinct (as @ t # bs)"
    and nE: "EMPTY \<notin> set (as @ t # bs)"
    using d(2,3,8)[OF il] L by simp_all
  have p': "p = lastp EMPTY as" and n': "n = firstp bs EMPTY" using links_at[OF sg e] p n by simp_all
  have pE: "p = EMPTY \<longleftrightarrow> as = []"
    using nE lastp_in[of as EMPTY] by (cases "as = []") (auto simp: p')
  have pi: "p \<noteq> EMPTY \<Longrightarrow> p \<in> set as" and ni: "n \<noteq> EMPTY \<Longrightarrow> n \<in> set bs"
    using lastp_in[of as EMPTY] firstp_in[of bs EMPTY] unfolding p' n'
    by (cases "as = []"; cases "bs = []"; simp)+
  have pm: "p \<noteq> EMPTY \<Longrightarrow> m p \<noteq> None" and nm: "n \<noteq> EMPTY \<Longrightarrow> m n \<noteq> None"
    using pi ni seg_alloc[OF sg] by fastforce+
  have same: "same_entries m (unlinked m p n)" by (rule unlinked_same[OF pm nm])
  have "seg (unlinked m p n) EMPTY (as @ bs) EMPTY" using seg_unlink[OF sg dist nE] p' n' by simp
  then have sgi: "seg ?m' EMPTY (as @ bs) EMPTY" using dist by (intro seg_upd_other) auto
  have sgj: "seg ?m' EMPTY (L j) EMPTY" if "j < length ws" "j \<noteq> i" for j
  proof (rule seg_same_on[OF d(2)[OF that(1)]])
    fix u assume "u \<in> set (L j)"
    then have "u \<notin> set (as @ t # bs)" "u \<noteq> EMPTY"
      using lists_disjoint[OF ok that(1) il] that(2) L d(8)[OF that(1)] by auto
    then have "u \<noteq> p" "u \<noteq> n" "u \<noteq> t" using pi ni by auto
    then show "?m' u = m u" by (simp add: unlinked_other)
  qed
  have orig: "\<exists>e1. m u = Some e1 \<and> entry_tick e1 = entry_tick e2 \<and> u \<noteq> t" if "?m' u = Some e2" for u e2
    using same_entries_Some[OF same] that by (auto split: if_splits)
  show ?thesis unfolding lists_ok_def
  proof (intro conjI allI impI)
    fix j assume "j < length ?ws"
    then have j: "j < length ws" by (simp split: if_splits)
    show "seg ?m' EMPTY (?L j) EMPTY" using sgi sgj[OF j] by simp
    show "distinct (?L j)" using dist d(3)[OF j] by auto
    show "we_head (?ws ! j) = firstp (?L j) EMPTY"
      using d(4)[OF j] pE n' L il by (cases "j = i"; cases as) auto
    show "\<forall>u \<in> set (?L j). \<forall>e. ?m' u = Some e \<longrightarrow> slot (entry_tick e) = j"
    proof (intro ballI allI impI)
      fix u e2 assume u: "u \<in> set (?L j)" "?m' u = Some e2"
      then have "u \<in> set (L j)" using L by (cases "j = i") auto
      from lists_okD(5)[OF ok j this] orig[OF u(2)] show "slot (entry_tick e2) = j" by auto
    qed
  next
    fix u e2 assume u: "?m' u = Some e2"
    from orig[OF u] obtain e1 where e1: "m u = Some e1" "entry_tick e1 = entry_tick e2" "u \<noteq> t" by blast
    show "u \<noteq> EMPTY" using d(6)[OF e1(1)] .
    show "u \<in> set (?L (slot (entry_tick e2)))" using d(7)[OF e1(1)] e1(2,3) L by (auto split: if_splits)
  next
    fix k show "slot k < length ?ws" using d(1) by simp
  qed
qed

lemma lists_ok_insert:
  assumes ok: "lists_ok m slot ws L" and new: "m t = None" "t \<noteq> EMPTY" and i: "i = slot tick"
    and e: "e = entry_new s tick (we_head (ws ! i))"
    and m': "m' = (if we_head (ws ! i) = EMPTY then m(t \<mapsto> e)
       else m(t \<mapsto> e, we_head (ws ! i) \<mapsto> set_prev t (the (m (we_head (ws ! i))))))"
  shows "lists_ok m' slot (ws[i := \<lparr>we_next_tick = nt, we_head = t\<rparr>]) (L(i := t # L i))"
    and "same_entries (m(t \<mapsto> e)) m'"
proof -
  note d = lists_okD[OF ok]
  have il: "i < length ws" using d(1) i by simp
  let ?h = "we_head (ws ! i)"
  have h: "?h = firstp (L i) EMPTY" using d(4)[OF il] .
  have hE: "?h = EMPTY \<longleftrightarrow> L i = []"
    using d(8)[OF il] firstp_in[of "L i" EMPTY] h by (cases "L i = []") auto
  have tn: "t \<notin> set (L j)" if "j < length ws" for j
    using d(5)[OF that, of t] new(1) by auto
  have hin: "?h \<in> set (L i)" if "?h \<noteq> EMPTY" using that h firstp_in[of "L i" EMPTY] by (cases "L i = []") auto
  have ht: "?h \<noteq> t" if "?h \<noteq> EMPTY" using hin[OF that] tn[OF il] by auto
  obtain eh where eh: "?h \<noteq> EMPTY \<longrightarrow> m ?h = Some eh" using d(5)[OF il hin] by auto
  show same: "same_entries (m(t \<mapsto> e)) m'"
  proof (cases "?h = EMPTY")
    case False
    then have "(m(t \<mapsto> e)) ?h = Some eh" using ht eh by simp
    from same_entries_link(2)[where m = "m(t \<mapsto> e)" and t = "?h", OF this, of t] show ?thesis using m' False eh by simp
  qed (simp add: m')
  have sgi: "seg m' EMPTY (t # L i) EMPTY"
    by (rule seg_push[OF d(2)[OF il], where e = e]) (use tn[OF il] d(3)[OF il] e h hE m' in auto)
  have sgj: "seg m' EMPTY (L j) EMPTY" if "j < length ws" "j \<noteq> i" for j
  proof (rule seg_same_on[OF d(2)[OF that(1)]])
    fix u assume u: "u \<in> set (L j)"
    then have "?h \<noteq> EMPTY \<Longrightarrow> u \<noteq> ?h" using hin lists_disjoint[OF ok that(1) il] that(2) by auto
    moreover have "u \<noteq> t" using u tn[OF that(1)] by auto
    ultimately show "m' u = m u" using m' by auto
  qed
  have orig: "u = t \<and> entry_tick e2 = tick \<or> (\<exists>e1. m u = Some e1 \<and> entry_tick e1 = entry_tick e2)"
    if "m' u = Some e2" for u e2
    using same_entries_Some[OF same that] e by (auto split: if_splits)
  show "lists_ok m' slot (ws[i := \<lparr>we_next_tick = nt, we_head = t\<rparr>]) (L(i := t # L i))"
    unfolding lists_ok_def
  proof (intro conjI allI impI)
    fix j assume "j < length (ws[i := \<lparr>we_next_tick = nt, we_head = t\<rparr>])"
    then have j: "j < length ws" by simp
    show "seg m' EMPTY ((L(i := t # L i)) j) EMPTY" using sgi sgj[OF j] by simp
    show "distinct ((L(i := t # L i)) j)" using tn[OF il] d(3)[OF j] by auto
    show "we_head (ws[i := \<lparr>we_next_tick = nt, we_head = t\<rparr>] ! j) = firstp ((L(i := t # L i)) j) EMPTY"
      using d(4)[OF j] il by (cases "j = i") auto
    show "\<forall>u \<in> set ((L(i := t # L i)) j). \<forall>e. m' u = Some e \<longrightarrow> slot (entry_tick e) = j"
    proof (intro ballI allI impI)
      fix u e2 assume u: "u \<in> set ((L(i := t # L i)) j)" "m' u = Some e2"
      show "slot (entry_tick e2) = j"
      proof (cases "u = t")
        case True
        then have "j = i" using u(1) tn[OF j] by (auto split: if_splits)
        then show ?thesis using orig[OF u(2)] True new(1) i by auto
      next
        case False
        then have "u \<in> set (L j)" using u(1) by (auto split: if_splits)
        from lists_okD(5)[OF ok j this] orig[OF u(2)] False show ?thesis by auto
      qed
    qed
  next
    fix u e2 assume u: "m' u = Some e2"
    show "u \<noteq> EMPTY" using orig[OF u] new(2) d(6) by auto
    show "u \<in> set ((L(i := t # L i)) (slot (entry_tick e2)))"
      using orig[OF u] d(7)[of u] i by (auto split: if_splits)
  next
    fix k show "slot k < length (ws[i := \<lparr>we_next_tick = nt, we_head = t\<rparr>])" using d(1) by simp
  qed
qed

end
