(* ===== verification/TimerOps.thy ===== *)
theory TimerOps
  imports TimerInv
begin

unbundle bit_operations_syntax

section \<open>The operations of the timer keep the wheel\<close>

text \<open>
  Insertion, removal, cancellation and polling, for every slab that keeps the contract of
  theory Slab. The lemmas of the locale speak of the parameter's operations; the properties
  at the end have the contract as their hypothesis.
\<close>

text \<open>The fields no list operation touches, and the scheduled ticks of the wheel.\<close>

definition same_frame :: "'x timer \<Rightarrow> 'x timer \<Rightarrow> bool" where
  "same_frame tm tm' \<longleftrightarrow> tm_tick tm' = tm_tick tm \<and> tm_mask tm' = tm_mask tm \<and>
     tm_tick_ms tm' = tm_tick_ms tm \<and> tm_inner tm' = tm_inner tm \<and>
     map we_next_tick (tm_wheel tm') = map we_next_tick (tm_wheel tm)"

locale timer_slab = slab S sok for S :: "('s, 't entry) slab_ops" and sok :: "'s \<Rightarrow> bool"
begin

lemma ents_upd: "sl_get S s' = (sl_get S s)(k := x) \<Longrightarrow> ents S s' = (ents S s)(Token k := x)"
proof
  fix t assume a: "sl_get S s' = (sl_get S s)(k := x)"
  show "ents S s' t = ((ents S s)(Token k := x)) t" by (cases t) (simp add: ents_def a)
qed

lemma modify_ents:
  assumes "sok es" "ents S es t = Some e"
  shows "\<exists>es'. sl_modify S es (usize_from_token t) f = Some es' \<and> sok es' \<and> ents S es' = (ents S es)(t \<mapsto> f e)"
proof -
  have "sl_get S es (usize_from_token t) = Some e" using assms(2) by (simp add: ents_def)
  from modify_occupied[OF assms(1) this, of f] obtain es'
    where es': "sl_modify S es (usize_from_token t) f = Some es'" "sok es'"
      "sl_get S es' = (sl_get S es)(usize_from_token t \<mapsto> f e)" by blast
  have "Token (usize_from_token t) = t" by (cases t) simp
  with ents_upd[OF es'(3)] es' show ?thesis by simp
qed

lemma remove_ents:
  assumes "sok es" "ents S es t = Some e"
  shows "\<exists>es'. sl_remove S es (usize_from_token t) = Some (e, es') \<and> sok es' \<and> ents S es' = (ents S es)(t := None)"
proof -
  have "sl_get S es (usize_from_token t) = Some e" using assms(2) by (simp add: ents_def)
  from remove_occupied[OF assms(1) this] obtain es'
    where es': "sl_remove S es (usize_from_token t) = Some (e, es')" "sok es'"
      "sl_get S es' = (sl_get S es)(usize_from_token t := None)" by blast
  have "Token (usize_from_token t) = t" by (cases t) simp
  with ents_upd[OF es'(3)] es' show ?thesis by simp
qed

subsection \<open>Removal\<close>

lemma unlink_spec:
  assumes sok: "sok (tm_entries tm)"
    and p: "el_prev links \<noteq> EMPTY \<Longrightarrow> ents S (tm_entries tm) (el_prev links) \<noteq> None"
    and n: "el_next links \<noteq> EMPTY \<Longrightarrow> ents S (tm_entries tm) (el_next links) \<noteq> None"
    and i: "slot_for tm (el_tick links) < length (tm_wheel tm)"
  shows "\<exists>es'. timer_unlink S tm links t = Some (tm\<lparr>tm_entries := es',
      tm_wheel := (let i = slot_for tm (el_tick links); ws = tm_wheel tm
        in if el_prev links = EMPTY then ws[i := (ws ! i)\<lparr>we_head := el_next links\<rparr>] else ws),
      tm_next := (if t = tm_next tm then el_next links else tm_next tm)\<rparr>) \<and> sok es' \<and>
    ents S es' = unlinked (ents S (tm_entries tm)) (el_prev links) (el_next links)"
proof -
  let ?m = "ents S (tm_entries tm)" and ?p = "el_prev links" and ?n = "el_next links"
  let ?m1 = "if ?p = EMPTY then ?m else ?m(?p \<mapsto> set_next ?n (the (?m ?p)))"
  let ?ws = "let i = slot_for tm (el_tick links); ws = tm_wheel tm
        in if ?p = EMPTY then ws[i := (ws ! i)\<lparr>we_head := ?n\<rparr>] else ws"
  obtain es1 where es1: "sok es1" "ents S es1 = ?m1"
    and s1: "(if ?p = EMPTY
                then (let slot = slot_for tm (el_tick links)
                      in do { w \<leftarrow> vec_get (tm_wheel tm) slot;
                              wheel \<leftarrow> vec_set (tm_wheel tm) slot (w\<lparr>we_head := ?n\<rparr>);
                              Some (tm\<lparr>tm_wheel := wheel\<rparr>) })
                else do { es \<leftarrow> sl_modify S (tm_entries tm) (usize_from_token ?p) (set_next ?n);
                          Some (tm\<lparr>tm_entries := es\<rparr>) }) = Some (tm\<lparr>tm_entries := es1, tm_wheel := ?ws\<rparr>)"
  proof (cases "?p = EMPTY")
    case True
    then show ?thesis using that[of "tm_entries tm"] sok i by (simp add: Let_def)
  next
    case False
    then obtain e where e: "?m ?p = Some e" using p by auto
    from modify_ents[OF sok e, of "set_next ?n"] obtain es1 where
      "sl_modify S (tm_entries tm) (usize_from_token ?p) (set_next ?n) = Some es1" "sok es1"
      "ents S es1 = ?m(?p \<mapsto> set_next ?n e)" by blast
    then show ?thesis using that[of es1] False e by (simp add: Let_def)
  qed
  show ?thesis
  proof (cases "?n = EMPTY")
    case True
    have "timer_unlink S tm links t = Some (tm\<lparr>tm_entries := es1, tm_wheel := ?ws,
        tm_next := if t = tm_next tm then ?n else tm_next tm\<rparr>)"
      unfolding timer_unlink_def s1 using True by simp
    then show ?thesis using es1 True by (intro exI[of _ es1]) (simp add: unlinked_def Let_def)
  next
    case False
    have "?m1 ?n \<noteq> None" using n[OF False] by simp
    then obtain e where e: "ents S es1 ?n = Some e" using es1(2) by auto
    from modify_ents[OF es1(1) e, of "set_prev ?p"] obtain es2 where
      es2: "sl_modify S es1 (usize_from_token ?n) (set_prev ?p) = Some es2" "sok es2"
      "ents S es2 = (ents S es1)(?n \<mapsto> set_prev ?p e)" by blast
    have "timer_unlink S tm links t = Some (tm\<lparr>tm_entries := es2, tm_wheel := ?ws,
        tm_next := if t = tm_next tm then ?n else tm_next tm\<rparr>)"
      unfolding timer_unlink_def s1 using False es2(1) by simp
    moreover have "ents S es2 = unlinked ?m ?p ?n"
      unfolding unlinked_def Let_def es1(2)[symmetric] using es2(3) e False by simp
    ultimately show ?thesis using es2(2) by (intro exI[of _ es2]) simp
  qed
qed

lemma take_spec:
  assumes w: "wheel_inv S sok tm L xs ys" and e: "ents S (tm_entries tm) t = Some e"
    and i: "i = slot_for tm (entry_tick e)"
  shows "\<exists>tm'. timer_take S tm (en_links e) t = Some (en_state e, tm') \<and>
    wheel_inv S sok tm' (L(i := remove1 t (L i))) (remove1 t xs) (remove1 t ys) \<and>
    same_entries ((ents S (tm_entries tm))(t := None)) (ents S (tm_entries tm')) \<and> same_frame tm tm'"
proof -
  let ?m = "ents S (tm_entries tm)" and ?p = "el_prev (en_links e)" and ?n = "el_next (en_links e)"
  have ok: "lists_ok ?m (slot_for tm) (tm_wheel tm) L" and sok: "sok (tm_entries tm)"
    and len: "length (tm_wheel tm) = unat (tm_mask tm) + 1"
    and cur: "L (slot_for tm (tm_tick tm)) = xs @ ys" and nxt: "tm_next tm = firstp ys EMPTY"
    using w by (simp_all add: wheel_inv_def)
  note d = lists_okD[OF ok]
  have il: "i < length (tm_wheel tm)" using d(1) i by simp
  have tE: "t \<noteq> EMPTY" using d(6)[OF e] .
  obtain as bs where L: "L i = as @ t # bs" using split_list[OF d(7)[OF e]] i by blast
  have dist: "distinct (as @ t # bs)" using d(3)[OF il] L by simp
  have sg: "seg ?m EMPTY (as @ t # bs) EMPTY" using d(2)[OF il] L by simp
  note links = links_at[OF sg e]
  have pm: "?p \<noteq> EMPTY \<Longrightarrow> ?m ?p \<noteq> None"
    using links(1) lastp_in[of as EMPTY] seg_alloc[OF sg, of ?p] by (cases "as = []") auto
  have nm: "?n \<noteq> EMPTY \<Longrightarrow> ?m ?n \<noteq> None"
    using links(2) firstp_in[of bs EMPTY] seg_alloc[OF sg, of ?n] by (cases "bs = []") auto
  let ?ws = "if ?p = EMPTY then (tm_wheel tm)[i := (tm_wheel tm ! i)\<lparr>we_head := ?n\<rparr>] else tm_wheel tm"
  let ?nx = "if t = tm_next tm then ?n else tm_next tm"
  have it: "slot_for tm (el_tick (en_links e)) = i" using i by (simp add: entry_tick_def)
  obtain es1 where u: "timer_unlink S tm (en_links e) t = Some (tm\<lparr>tm_entries := es1, tm_wheel := ?ws, tm_next := ?nx\<rparr>)"
    "sok es1" "ents S es1 = unlinked ?m ?p ?n"
    using unlink_spec[OF sok pm nm, of t] il it by (auto simp: Let_def)
  have same: "same_entries ?m (unlinked ?m ?p ?n)" by (rule unlinked_same[OF pm nm])
  obtain e1 where e1: "ents S es1 t = Some e1" "en_state e1 = en_state e"
    using same_entries_Some[OF same_entries_sym[OF same] e] u(3) by auto
  obtain es2 where r: "sl_remove S es1 (usize_from_token t) = Some (e1, es2)" "sok es2"
    "ents S es2 = (unlinked ?m ?p ?n)(t := None)"
    using remove_ents[OF u(2) e1(1)] u(3) by auto
  let ?tm = "tm\<lparr>tm_entries := es2, tm_wheel := ?ws, tm_next := ?nx\<rparr>"
  have take: "timer_take S tm (en_links e) t = Some (en_state e, ?tm)"
    using u(1) r(1) e1(2) by (simp add: timer_take_def)
  have rem: "remove1 t (L i) = as @ bs" using L dist by (simp add: remove1_append)
  have ok': "lists_ok (ents S es2) (slot_for tm) ?ws (L(i := remove1 t (L i)))"
    using lists_ok_remove[OF ok e i L refl refl] r(3) rem by simp
  have cur': "(L(i := remove1 t (L i))) (slot_for tm (tm_tick tm)) = remove1 t xs @ remove1 t ys"
  proof -
    have dxy: "distinct (xs @ ys)" using d(3)[OF d(1), of "tm_tick tm"] cur by simp
    have "remove1 t (xs @ ys) = remove1 t xs @ remove1 t ys"
      using dxy by (cases "t \<in> set xs"; cases "t \<in> set ys") (auto simp: remove1_append remove1_idem)
    moreover have "t \<notin> set (xs @ ys)" if "slot_for tm (tm_tick tm) \<noteq> i"
      using that d(5)[OF d(1), of t "tm_tick tm"] e i cur by auto
    ultimately show ?thesis using cur by (auto simp: remove1_idem)
  qed
  have nx': "?nx = firstp (remove1 t ys) EMPTY"
  proof (cases "t = tm_next tm")
    case True
    then obtain zs where ys: "ys = t # zs" using nxt tE by (cases ys) auto
    then have "slot_for tm (tm_tick tm) = i" using d(5)[OF d(1), of t "tm_tick tm"] e i cur by auto
    then have "as @ t # bs = xs @ t # zs" using L cur ys by simp
    with dist have "bs = zs" by (metis append_Cons_eq_iff distinct_append not_distinct_conv_prefix
        disjoint_insert(1) distinct.simps(2) list.simps(15))
    then show ?thesis using True ys links(2) by simp
  next
    case False
    then show ?thesis using nxt by (cases ys) auto
  qed
  have "wheel_inv S sok ?tm (L(i := remove1 t (L i))) (remove1 t xs) (remove1 t ys)"
    using r(2) ok' cur' nx' len by (simp add: wheel_inv_def)
  moreover have "same_entries (?m(t := None)) (ents S es2)"
    using same r(3) by (simp add: same_entries_def)
  moreover have "same_frame tm ?tm"
    using il by (auto simp: same_frame_def map_update intro: nth_equalityI simp: nth_list_update)
  ultimately show ?thesis using take by auto
qed

subsection \<open>Insertion\<close>

lemma insert_spec:
  assumes w: "wheel_inv S sok tm L xs ys"
    and e0: "e0 = entry_new st tick (we_head (tm_wheel tm ! slot_for tm tick))"
    and ins: "sl_insert S (tm_entries tm) e0 = Some (key, es0)"
  shows "\<exists>tm' xs' L'. timer_insert S tm tick st = Some (Inr \<lparr>to_token = Token key, to_tick = tick\<rparr>, tm') \<and>
    ents S (tm_entries tm) (Token key) = None \<and> wheel_inv S sok tm' L' xs' ys \<and>
    same_entries ((ents S (tm_entries tm))(Token key \<mapsto> e0)) (ents S (tm_entries tm')) \<and>
    tm_tick tm' = tm_tick tm \<and> tm_mask tm' = tm_mask tm \<and> tm_tick_ms tm' = tm_tick_ms tm \<and>
    tm_inner tm' = tm_inner (schedule_readiness tm tick) \<and>
    map we_next_tick (tm_wheel tm') = (map we_next_tick (tm_wheel tm))
      [slot_for tm tick := min tick (we_next_tick (tm_wheel tm ! slot_for tm tick))]"
proof -
  let ?m = "ents S (tm_entries tm)" and ?i = "slot_for tm tick" and ?t = "Token key"
  let ?h = "we_head (tm_wheel tm ! ?i)"
  have ok: "lists_ok ?m (slot_for tm) (tm_wheel tm) L" and sok: "sok (tm_entries tm)"
    and len: "length (tm_wheel tm) = unat (tm_mask tm) + 1"
    and cur: "L (slot_for tm (tm_tick tm)) = xs @ ys" and nxt: "tm_next tm = firstp ys EMPTY"
    using w by (simp_all add: wheel_inv_def)
  note d = lists_okD[OF ok]
  have il: "?i < length (tm_wheel tm)" using d(1) .
  have slot: "unat (tick AND tm_mask tm) = ?i" by (simp add: slot_for_def and.commute)
  have new: "?m ?t = None" using insert_vacant[OF sok ins] by (simp add: ents_def)
  have tE: "?t \<noteq> EMPTY" using insert_key[OF sok ins] by (simp add: EMPTY_def)
  have m0: "sok es0" "ents S es0 = ?m(?t \<mapsto> e0)"
    using inv_insert[OF sok ins] ents_upd[OF get_insert[OF sok ins]] by simp_all
  let ?m' = "if ?h = EMPTY then ?m(?t \<mapsto> e0) else ?m(?t \<mapsto> e0, ?h \<mapsto> set_prev ?t (the (?m ?h)))"
  obtain es1 where es1: "(if ?h \<noteq> EMPTY then sl_modify S es0 (usize_from_token ?h) (set_prev ?t) else Some es0) = Some es1"
    "sok es1" "ents S es1 = ?m'"
  proof (cases "?h = EMPTY")
    case True
    then show ?thesis using that[of es0] m0 by simp
  next
    case False
    have hL: "?h = firstp (L ?i) EMPTY" using d(4)[OF il] .
    then have "?h \<in> set (L ?i)" using False firstp_in[of "L ?i" EMPTY] by (cases "L ?i = []") auto
    from d(5)[OF il this] obtain eh where eh: "?m ?h = Some eh" by blast
    then have ne: "?h \<noteq> ?t" using new by auto
    then have "ents S es0 ?h = Some eh" using m0(2) eh by simp
    from modify_ents[OF m0(1) this, of "set_prev ?t"] obtain es1 where
      "sl_modify S es0 (usize_from_token ?h) (set_prev ?t) = Some es1" "sok es1"
      "ents S es1 = (ents S es0)(?h \<mapsto> set_prev ?t eh)" by blast
    then show ?thesis using that[of es1] False m0(2) eh by simp
  qed
  let ?ws = "(tm_wheel tm)[?i := \<lparr>we_next_tick = min tick (we_next_tick (tm_wheel tm ! ?i)), we_head = ?t\<rparr>]"
  let ?tm1 = "tm\<lparr>tm_entries := es1, tm_wheel := ?ws\<rparr>"
  have sch: "schedule_readiness ?tm1 tick = ?tm1\<lparr>tm_inner := tm_inner (schedule_readiness tm tick)\<rparr>"
    by (cases "lc_borrow (tm_inner tm)") (simp_all add: schedule_readiness_def)
  have run: "timer_insert S tm tick st = Some (Inr \<lparr>to_token = ?t, to_tick = tick\<rparr>,
      ?tm1\<lparr>tm_inner := tm_inner (schedule_readiness tm tick)\<rparr>)"
    using ins es1(1) il e0 sch unfolding timer_insert_def Let_def slot
    by (simp add: Let_def cong: if_cong)
  have e0': "entry_tick e0 = tick" using e0 by simp
  have ok': "lists_ok (ents S es1) (slot_for tm) ?ws (L(?i := ?t # L ?i))"
    unfolding es1(3) by (rule lists_ok_insert(1)[OF ok new tE refl e0 refl])
  have same: "same_entries (?m(?t \<mapsto> e0)) (ents S es1)"
    unfolding es1(3) by (rule lists_ok_insert(2)[OF ok new tE refl e0 refl])
  have cur': "(L(?i := ?t # L ?i)) (slot_for tm (tm_tick tm)) =
      (if ?i = slot_for tm (tm_tick tm) then ?t # xs else xs) @ ys" using cur by auto
  have "wheel_inv S sok (?tm1\<lparr>tm_inner := tm_inner (schedule_readiness tm tick)\<rparr>) (L(?i := ?t # L ?i))
      (if ?i = slot_for tm (tm_tick tm) then ?t # xs else xs) ys"
    using es1(2) ok' cur' nxt len by (simp add: wheel_inv_def)
  then show ?thesis using run new same by (auto simp: map_update)
qed

subsection \<open>Polling\<close>

lemma lists_ok_heads:
  "map we_head ws' = map we_head ws \<Longrightarrow> lists_ok m slot ws L \<Longrightarrow> lists_ok m slot ws' L"
proof -
  assume h: "map we_head ws' = map we_head ws" and ok: "lists_ok m slot ws L"
  have "length ws' = length ws" using h by (rule map_eq_imp_length_eq)
  moreover have "we_head (ws' ! i) = we_head (ws ! i)" if "i < length ws" for i
    using h that \<open>length ws' = length ws\<close> by (metis nth_map)
  ultimately show ?thesis using ok unfolding lists_ok_def by metis
qed

lemma set_wheel_next_spec:
  assumes w: "wheel_inv S sok tm L xs ys" and i: "i < length (tm_wheel tm)"
  shows "set_wheel_next tm i k = Some (tm\<lparr>tm_wheel := (tm_wheel tm)[i := (tm_wheel tm ! i)\<lparr>we_next_tick := k\<rparr>]\<rparr>)"
    and "wheel_inv S sok (tm\<lparr>tm_wheel := (tm_wheel tm)[i := (tm_wheel tm ! i)\<lparr>we_next_tick := k\<rparr>]\<rparr>) L xs ys"
proof -
  let ?ws = "(tm_wheel tm)[i := (tm_wheel tm ! i)\<lparr>we_next_tick := k\<rparr>]"
  show "set_wheel_next tm i k = Some (tm\<lparr>tm_wheel := ?ws\<rparr>)"
    using i by (simp add: set_wheel_next_def)
  have "map we_head ?ws = map we_head (tm_wheel tm)"
    using i by (auto intro: nth_equalityI simp: nth_list_update)
  moreover have "lists_ok (ents S (tm_entries tm)) (slot_for tm) (tm_wheel tm) L"
    using w by (simp add: wheel_inv_def)
  ultimately have "lists_ok (ents S (tm_entries tm)) (slot_for tm) ?ws L" by (rule lists_ok_heads)
  with w show "wheel_inv S sok (tm\<lparr>tm_wheel := ?ws\<rparr>) L xs ys"
    by (simp add: wheel_inv_def)
qed

text \<open>The slot is exhausted: the next tick begins.\<close>

lemma poll_step_advance:
  assumes w: "wheel_inv S sok tm L xs []" and lim: "tm_tick tm < - 1"
  shows "\<exists>tm'. poll_step S tm = Some (None, tm') \<and> wheel_inv S sok tm' L [] (L (slot_for tm (tm_tick tm + 1))) \<and>
    tm_entries tm' = tm_entries tm \<and> unat (tm_tick tm') = Suc (unat (tm_tick tm)) \<and>
    tm_tick tm' = tm_tick tm + 1 \<and> tm_mask tm' = tm_mask tm \<and>
    tm_tick_ms tm' = tm_tick_ms tm \<and> tm_inner tm' = tm_inner tm \<and>
    (counted S tm {} \<longrightarrow> counted S tm' {})"
proof -
  let ?t = "tm_tick tm + 1"
  let ?i = "slot_for tm ?t"
  have ok: "lists_ok (ents S (tm_entries tm)) (slot_for tm) (tm_wheel tm) L" and nxt: "tm_next tm = EMPTY"
    using w by (simp_all add: wheel_inv_def)
  note d = lists_okD[OF ok]
  have il: "?i < length (tm_wheel tm)" using d(1) .
  let ?tm1 = "tm\<lparr>tm_tick := ?t, tm_next := we_head (tm_wheel tm ! ?i)\<rparr>"
  have w1: "wheel_inv S sok ?tm1 L [] (L ?i)"
    using w d(4)[OF il] by (simp add: wheel_inv_def)
  have un: "unat ?t = Suc (unat (tm_tick tm))" and add: "add_u64 (tm_tick tm) 1 = Some ?t"
    using add_one_u64[OF lim] by simp_all
  show ?thesis
  proof (cases "we_head (tm_wheel tm ! ?i) = EMPTY")
    case False
    then have "poll_step S tm = Some (None, ?tm1)"
      using nxt add il by (simp add: poll_step_def Let_def)
    moreover have "counted S tm {} \<longrightarrow> counted S ?tm1 {}" by (simp add: counted_def)
    ultimately show ?thesis using w1 un by auto
  next
    case True
    let ?ws = "(tm_wheel tm)[?i := (tm_wheel tm ! ?i)\<lparr>we_next_tick := TICK_MAX\<rparr>]"
    have il1: "?i < length (tm_wheel ?tm1)" using il by simp
    have run: "poll_step S tm = Some (None, ?tm1\<lparr>tm_wheel := ?ws\<rparr>)"
      using nxt add il True set_wheel_next_spec(1)[OF w1 il1] by (simp add: poll_step_def Let_def)
    have nil: "L ?i = []" using d(4,8)[OF il] True firstp_in[of "L ?i" EMPTY] by (cases "L ?i = []") auto
    have "?i \<noteq> slot_for tm (entry_tick e)" if "ents S (tm_entries tm) t = Some e" for t e
    proof
      assume "?i = slot_for tm (entry_tick e)"
      then show False using d(7)[OF that] nil by simp
    qed
    then have "counted S tm {} \<longrightarrow> counted S (?tm1\<lparr>tm_wheel := ?ws\<rparr>) {}" by (simp add: counted_def)
    then show ?thesis using run set_wheel_next_spec(2)[OF w1 il1] un
      by (intro exI[of _ "?tm1\<lparr>tm_wheel := ?ws\<rparr>"]) simp
  qed
qed

lemma counted_reset:
  assumes w: "wheel_inv S sok tm L [] ys" and c: "counted S tm X" and ys: "set ys \<subseteq> X"
    and i: "i = slot_for tm (tm_tick tm)"
  shows "counted S (tm\<lparr>tm_wheel := (tm_wheel tm)[i := (tm_wheel tm ! i)\<lparr>we_next_tick := k\<rparr>]\<rparr>) X"
  unfolding counted_def
proof (intro allI impI)
  have ok: "lists_ok (ents S (tm_entries tm)) (slot_for tm) (tm_wheel tm) L" and L: "L i = ys"
    using w i by (simp_all add: wheel_inv_def)
  note d = lists_okD[OF ok]
  let ?tm = "tm\<lparr>tm_wheel := (tm_wheel tm)[i := (tm_wheel tm ! i)\<lparr>we_next_tick := k\<rparr>]\<rparr>"
  fix u e assume u: "ents S (tm_entries ?tm) u = Some e" "u \<notin> X"
  then have e: "ents S (tm_entries tm) u = Some e" by simp
  have "i \<noteq> slot_for tm (entry_tick e)"
  proof
    assume "i = slot_for tm (entry_tick e)"
    then have "u \<in> set ys" using d(7)[OF e] L by simp
    then show False using u(2) ys by auto
  qed
  then show "we_next_tick (tm_wheel ?tm ! slot_for ?tm (entry_tick e)) \<le> entry_tick e"
    using c e u(2) by (simp add: counted_def)
qed

text \<open>The entry the cursor points at is taken out when it is due, and passed otherwise.\<close>

lemma poll_step_visit:
  assumes w: "wheel_inv S sok tm L xs (t # ys)" and e: "ents S (tm_entries tm) t = Some e"
  shows "\<exists>r tm' L' xs'. poll_step S tm = Some (r, tm') \<and> wheel_inv S sok tm' L' xs' ys \<and>
    tm_tick tm' = tm_tick tm \<and> tm_mask tm' = tm_mask tm \<and>
    tm_tick_ms tm' = tm_tick_ms tm \<and> tm_inner tm' = tm_inner tm \<and>
    (counted S tm (set (t # ys)) \<longrightarrow> counted S tm' (set ys)) \<and>
    (if entry_tick e \<le> tm_tick tm
     then r = Some (en_state e) \<and> same_entries ((ents S (tm_entries tm))(t := None)) (ents S (tm_entries tm'))
     else r = None \<and> tm_entries tm' = tm_entries tm)"
proof -
  have ok: "lists_ok (ents S (tm_entries tm)) (slot_for tm) (tm_wheel tm) L" and nxt: "tm_next tm = t"
    and L: "L (slot_for tm (tm_tick tm)) = xs @ t # ys"
    using w by (simp_all add: wheel_inv_def)
  note d = lists_okD[OF ok]
  define i where "i = slot_for tm (tm_tick tm)"
  have il: "i < length (tm_wheel tm)" using d(1) by (simp add: i_def)
  have tE: "t \<noteq> EMPTY" using d(6)[OF e] .
  have ti: "slot_for tm (entry_tick e) = i" using d(5)[OF il, of t] L e by (auto simp: i_def)
  have dist: "distinct (xs @ t # ys)" using d(3)[OF il] L by (simp add: i_def)
  have hd: "t = we_head (tm_wheel tm ! i) \<longleftrightarrow> xs = []"
    using d(4)[OF il] L dist by (cases xs) (auto simp: i_def)
  have nx: "el_next (en_links e) = firstp ys EMPTY"
    using links_at(2)[of "ents S (tm_entries tm)" xs t ys e] d(2)[OF il] L e by (simp add: i_def)
  define tm1 where "tm1 = (if xs = [] then tm\<lparr>tm_wheel := (tm_wheel tm)[i := (tm_wheel tm ! i)\<lparr>we_next_tick := TICK_MAX\<rparr>]\<rparr> else tm)"
  have w1: "wheel_inv S sok tm1 L xs (t # ys)"
    unfolding tm1_def using w set_wheel_next_spec(2)[OF w il] by (cases "xs = []") simp_all
  have f1: "tm_entries tm1 = tm_entries tm" "tm_tick tm1 = tm_tick tm" "tm_mask tm1 = tm_mask tm"
    "tm_tick_ms tm1 = tm_tick_ms tm" "tm_inner tm1 = tm_inner tm" "slot_for tm1 = slot_for tm"
    "length (tm_wheel tm1) = length (tm_wheel tm)" "tm_next tm1 = t"
    using nxt by (simp_all add: tm1_def)
  have s1: "(if t = we_head (tm_wheel tm ! i) then set_wheel_next tm i TICK_MAX else Some tm) = Some tm1"
    using hd set_wheel_next_spec(1)[OF w il] by (simp add: tm1_def)
  have c1: "counted S tm1 (set (t # ys))" if "counted S tm (set (t # ys))"
    unfolding tm1_def using that counted_reset[of tm L "t # ys", OF _ that subset_refl i_def] w
    by (cases "xs = []") simp_all
  have g: "sl_get S (tm_entries tm) (usize_from_token t) = Some e" using e by (simp add: ents_def)
  have il1: "i < length (tm_wheel tm1)" using il f1(7) by simp
  show ?thesis
  proof (cases "entry_tick e \<le> tm_tick tm")
    case True
    have e1: "ents S (tm_entries tm1) t = Some e" using e f1 by simp
    obtain tm' where t': "timer_take S tm1 (en_links e) t = Some (en_state e, tm')"
      "wheel_inv S sok tm' (L(i := remove1 t (L i))) (remove1 t xs) (remove1 t (t # ys))"
      "same_entries ((ents S (tm_entries tm1))(t := None)) (ents S (tm_entries tm'))" "same_frame tm1 tm'"
      using take_spec[OF w1 e1 refl] ti f1(6) by auto
    have run: "poll_step S tm = Some (Some (en_state e), tm')"
      using nxt tE il s1 g True t'(1) f1
      by (simp add: poll_step_def Let_def entry_tick_def i_def[symmetric])
    have "counted S tm' (set ys)" if "counted S tm (set (t # ys))"
      unfolding counted_def
    proof (intro allI impI)
      fix u e2 assume u: "ents S (tm_entries tm') u = Some e2" "u \<notin> set ys"
      obtain e0 where e0: "ents S (tm_entries tm1) u = Some e0" "entry_tick e0 = entry_tick e2" "u \<noteq> t"
        using same_entries_Some[OF t'(3) u(1)] by (auto split: if_splits)
      have sl: "slot_for tm' = slot_for tm1" using t'(4) by (simp add: same_frame_def slot_for_def fun_eq_iff)
      have len: "slot_for tm1 (entry_tick e2) < length (tm_wheel tm1)" using d(1) f1 by simp
      have mp: "map we_next_tick (tm_wheel tm') = map we_next_tick (tm_wheel tm1)"
        using t'(4) by (simp add: same_frame_def)
      have "length (tm_wheel tm') = length (tm_wheel tm1)" using mp by (rule map_eq_imp_length_eq)
      then have "we_next_tick (tm_wheel tm' ! slot_for tm1 (entry_tick e2)) =
          we_next_tick (tm_wheel tm1 ! slot_for tm1 (entry_tick e2))"
        using mp len by (metis nth_map)
      moreover have "u \<notin> set (t # ys)" using e0(3) u(2) by simp
      then have "we_next_tick (tm_wheel tm1 ! slot_for tm1 (entry_tick e0)) \<le> entry_tick e0"
        using c1[OF that] e0(1) unfolding counted_def by blast
      ultimately show "we_next_tick (tm_wheel tm' ! slot_for tm' (entry_tick e2)) \<le> entry_tick e2"
        using e0(2) by (simp add: sl)
    qed
    then show ?thesis
      using run t' True f1 by (auto simp: same_frame_def)
  next
    case False
    let ?k = "min (we_next_tick (tm_wheel tm1 ! i)) (el_tick (en_links e))"
    let ?tm2 = "tm1\<lparr>tm_wheel := (tm_wheel tm1)[i := (tm_wheel tm1 ! i)\<lparr>we_next_tick := ?k\<rparr>]\<rparr>"
    let ?tm3 = "?tm2\<lparr>tm_next := el_next (en_links e)\<rparr>"
    have run: "poll_step S tm = Some (None, ?tm3)"
      using nxt tE il s1 g False il1 f1 set_wheel_next_spec(1)[OF w1 il1]
      by (simp add: poll_step_def Let_def entry_tick_def i_def[symmetric])
    have "wheel_inv S sok ?tm2 L xs (t # ys)" by (rule set_wheel_next_spec(2)[OF w1 il1])
    then have w3: "wheel_inv S sok ?tm3 L (xs @ [t]) ys" using nx by (simp add: wheel_inv_def)
    have "counted S ?tm3 (set ys)" if "counted S tm (set (t # ys))"
      unfolding counted_def
    proof (intro allI impI)
      fix u e2 assume u: "ents S (tm_entries ?tm3) u = Some e2" "u \<notin> set ys"
      show "we_next_tick (tm_wheel ?tm3 ! slot_for ?tm3 (entry_tick e2)) \<le> entry_tick e2"
      proof (cases "u = t")
        case True
        then have "e2 = e" using u(1) e f1 by simp
        then show ?thesis using ti il1 f1 by (simp add: entry_tick_def)
      next
        case ne: False
        then have b: "we_next_tick (tm_wheel tm1 ! slot_for tm1 (entry_tick e2)) \<le> entry_tick e2"
          using c1[OF that] u by (simp add: counted_def)
        show ?thesis
        proof (cases "slot_for tm1 (entry_tick e2) = i")
          case True
          then show ?thesis using b il1 by (simp add: min.coboundedI1)
        qed (use b in simp)
      qed
    qed
    then show ?thesis using run w3 False f1 by (intro exI[of _ None] exI[of _ ?tm3]) auto
  qed
qed

text \<open>What a run of the loop does, whatever its outcome.\<close>

definition poll_result ::
    "tick \<Rightarrow> 's timer \<Rightarrow> token list \<Rightarrow> 't option \<Rightarrow> 's timer \<Rightarrow> (nat \<Rightarrow> token list) \<Rightarrow> token list \<Rightarrow> token list \<Rightarrow> bool" where
  "poll_result target tm ys r tm' L' xs' ys' \<longleftrightarrow>
     wheel_inv S sok tm' L' xs' ys' \<and> tm_tick tm \<le> tm_tick tm' \<and>
     tm_mask tm' = tm_mask tm \<and> tm_tick_ms tm' = tm_tick_ms tm \<and> tm_inner tm' = tm_inner tm \<and>
     (none_missed S tm ys \<longrightarrow> none_missed S tm' ys') \<and>
     (counted S tm (set ys) \<longrightarrow> counted S tm' (set ys')) \<and>
     (case r of
        Some st \<Rightarrow> \<exists>t e. ents S (tm_entries tm) t = Some e \<and> st = en_state e \<and> entry_tick e \<le> target \<and>
          tm_tick tm' \<le> target \<and> same_entries ((ents S (tm_entries tm))(t := None)) (ents S (tm_entries tm'))
      | None \<Rightarrow> tm_entries tm' = tm_entries tm \<and>
          unat (tm_tick tm') = max (unat target + 1) (unat (tm_tick tm)) \<and>
          (none_missed S tm ys \<and> (tm_tick tm \<le> target \<or> none_before S tm) \<longrightarrow> none_before S tm') \<and>
          (counted S tm (set ys) \<and> (tm_tick tm \<le> target \<or> counted S tm {}) \<longrightarrow> counted S tm' {}))"

lemma word_le_unat: "(a :: u64) \<le> b \<longleftrightarrow> unat a \<le> unat b"
  by (simp add: word_le_nat_alt)

lemma none_missed_advance:
  assumes w: "wheel_inv S sok tm L xs []" and n: "none_missed S tm []"
    and t: "tm_entries tm' = tm_entries tm" "unat (tm_tick tm') = Suc (unat (tm_tick tm))"
      "tm_tick tm' = tm_tick tm + 1"
  shows "none_missed S tm' (L (slot_for tm (tm_tick tm + 1)))"
  unfolding none_missed_def
proof (intro allI impI)
  fix u e assume u: "ents S (tm_entries tm') u = Some e" "entry_tick e \<le> tm_tick tm'"
  have e: "ents S (tm_entries tm) u = Some e" using u(1) t(1) by simp
  have "\<not> entry_tick e \<le> tm_tick tm" using n e by (auto simp: none_missed_def)
  then have "unat (entry_tick e) = unat (tm_tick tm')" using u(2) t(2) by (simp add: word_le_unat)
  then have "entry_tick e = tm_tick tm + 1" using t(3) by (simp add: word_unat_eq_iff)
  moreover have ok: "lists_ok (ents S (tm_entries tm)) (slot_for tm) (tm_wheel tm) L"
    using w by (simp add: wheel_inv_def)
  moreover note lists_okD(7)[where t = u, OF ok e]
  ultimately show "u \<in> set (L (slot_for tm (tm_tick tm + 1)))" by simp
qed

lemma none_before_advance:
  assumes n: "none_missed S tm []" and t: "tm_entries tm' = tm_entries tm" "unat (tm_tick tm') = Suc (unat (tm_tick tm))"
  shows "none_before S tm'"
  unfolding none_before_def
proof (intro allI impI)
  fix u e assume "ents S (tm_entries tm') u = Some e"
  then have "\<not> entry_tick e \<le> tm_tick tm" using n t(1) by (auto simp: none_missed_def)
  then show "tm_tick tm' \<le> entry_tick e" using t(2) by (simp add: word_le_unat)
qed

lemma none_missed_visit:
  assumes n: "none_missed S tm (t # ys)" and t: "tm_tick tm' = tm_tick tm"
    and e: "ents S (tm_entries tm) t = Some e"
    and s: "if entry_tick e \<le> tm_tick tm
     then same_entries ((ents S (tm_entries tm))(t := None)) (ents S (tm_entries tm'))
     else tm_entries tm' = tm_entries tm"
  shows "none_missed S tm' ys"
  unfolding none_missed_def
proof (intro allI impI)
  fix u e' assume u: "ents S (tm_entries tm') u = Some e'" "entry_tick e' \<le> tm_tick tm'"
  have "\<exists>e0. ents S (tm_entries tm) u = Some e0 \<and> entry_tick e0 = entry_tick e' \<and> u \<noteq> t"
  proof (cases "entry_tick e \<le> tm_tick tm")
    case True
    then have "same_entries ((ents S (tm_entries tm))(t := None)) (ents S (tm_entries tm'))" using s by simp
    from same_entries_Some[where t = u, OF this u(1)] show ?thesis by (auto split: if_splits)
  next
    case False
    then have "u \<noteq> t" using s u e t by auto
    then show ?thesis using False s u(1) by auto
  qed
  then obtain e0 where e0: "ents S (tm_entries tm) u = Some e0" "entry_tick e0 = entry_tick e'" "u \<noteq> t" by blast
  have "entry_tick e0 \<le> tm_tick tm" using e0(2) t u(2) by simp
  then have "u \<in> set (t # ys)" using n e0(1) unfolding none_missed_def by blast
  then show "u \<in> set ys" using e0(3) by simp
qed

lemma poll_loop_exit:
  assumes "wheel_inv S sok tm L xs ys" "\<not> tm_tick tm \<le> target"
  shows "poll_to_loop S tm target = Some (None, tm)" "poll_result target tm ys None tm L xs ys"
proof -
  show "poll_to_loop S tm target = Some (None, tm)" using assms(2) by (simp add: poll_to_loop.simps)
  have "unat target + 1 \<le> unat (tm_tick tm)" using assms(2) by (simp add: word_le_unat)
  then show "poll_result target tm ys None tm L xs ys"
    using assms by (auto simp: poll_result_def)
qed

lemma poll_loop_spec:
  assumes "wheel_inv S sok tm L xs ys" "target < - 1"
  shows "\<exists>r tm' L' xs' ys'. poll_to_loop S tm target = Some (r, tm') \<and> poll_result target tm ys r tm' L' xs' ys'"
  using assms
proof (induction "unat target + 1 - unat (tm_tick tm)" arbitrary: tm L xs ys)
  case 0
  then have "\<not> tm_tick tm \<le> target" by (simp add: word_le_unat)
  from poll_loop_exit[OF "0.prems"(1) this] show ?case by blast
next
  case (Suc d)
  have le: "tm_tick tm \<le> target" and d: "Suc d = unat target + 1 - unat (tm_tick tm)"
    using Suc.hyps(2) by (simp_all add: word_le_unat)
  have lim: "tm_tick tm < - 1" using le \<open>target < - 1\<close> by (rule le_less_trans)
  have unfold: "poll_to_loop S tm target = (case poll_step S tm of None \<Rightarrow> None
      | Some (r, tm) \<Rightarrow> (case r of Some t \<Rightarrow> Some (Some t, tm) | None \<Rightarrow> poll_to_loop S tm target))"
    if "tm_tick tm \<le> target" for tm using that by (simp add: poll_to_loop.simps)
  from \<open>wheel_inv S sok tm L xs ys\<close> le lim d show ?case
  proof (induction ys arbitrary: tm L xs)
    case Nil
    obtain tm1 where t1: "poll_step S tm = Some (None, tm1)"
      "wheel_inv S sok tm1 L [] (L (slot_for tm (tm_tick tm + 1)))" "tm_entries tm1 = tm_entries tm"
      "unat (tm_tick tm1) = Suc (unat (tm_tick tm))" "tm_tick tm1 = tm_tick tm + 1" "tm_mask tm1 = tm_mask tm"
      "tm_tick_ms tm1 = tm_tick_ms tm" "tm_inner tm1 = tm_inner tm" "counted S tm {} \<longrightarrow> counted S tm1 {}"
      using poll_step_advance[OF Nil(1,3)] by blast
    have "d = unat target + 1 - unat (tm_tick tm1)" using Nil(4) t1(4) by simp
    from Suc.hyps(1)[OF this t1(2) \<open>target < - 1\<close>] obtain r tm' L' xs' ys' where
      r: "poll_to_loop S tm1 target = Some (r, tm')"
      "poll_result target tm1 (L (slot_for tm (tm_tick tm + 1))) r tm' L' xs' ys'" by blast
    have "poll_to_loop S tm target = Some (r, tm')" using unfold[OF Nil(2)] t1(1) r(1) by simp
    moreover have "none_missed S tm [] \<longrightarrow> none_missed S tm1 (L (slot_for tm (tm_tick tm + 1)))"
      using none_missed_advance[OF Nil(1) _ t1(3-5)] by blast
    moreover have "counted S tm1 {} \<longrightarrow> counted S tm1 X" for X by (simp add: counted_def)
    moreover have "none_missed S tm [] \<longrightarrow> none_before S tm1" using none_before_advance t1(3,4) by blast
    moreover have "max (unat target + 1) (unat (tm_tick tm1)) = max (unat target + 1) (unat (tm_tick tm))"
      using t1(4) Nil(2) by (simp add: word_le_unat)
    moreover have "tm_tick tm \<le> tm_tick tm1" using t1(4) by (simp add: word_le_unat)
    ultimately have "poll_result target tm [] r tm' L' xs' ys'"
      using r(2) t1 by (cases r) (auto simp: poll_result_def)
    then show ?case using \<open>poll_to_loop S tm target = Some (r, tm')\<close> by blast
  next
    case (Cons t ys)
    have "lists_ok (ents S (tm_entries tm)) (slot_for tm) (tm_wheel tm) L" using Cons.prems(1) by (simp add: wheel_inv_def)
    from lists_okD(5)[OF this lists_okD(1)[OF this], of t "tm_tick tm"] obtain e
      where e: "ents S (tm_entries tm) t = Some e" using Cons.prems(1) by (auto simp: wheel_inv_def)
    obtain r1 tm1 L1 xs1 where t1: "poll_step S tm = Some (r1, tm1)" "wheel_inv S sok tm1 L1 xs1 ys"
      "tm_tick tm1 = tm_tick tm" "tm_mask tm1 = tm_mask tm" "tm_tick_ms tm1 = tm_tick_ms tm"
      "tm_inner tm1 = tm_inner tm" "counted S tm (set (t # ys)) \<longrightarrow> counted S tm1 (set ys)"
      "if entry_tick e \<le> tm_tick tm
       then r1 = Some (en_state e) \<and> same_entries ((ents S (tm_entries tm))(t := None)) (ents S (tm_entries tm1))
       else r1 = None \<and> tm_entries tm1 = tm_entries tm"
      using poll_step_visit[OF Cons.prems(1) e] by blast
    have nm: "none_missed S tm (t # ys) \<longrightarrow> none_missed S tm1 ys"
      using none_missed_visit[OF _ t1(3) e] t1(8) by (auto split: if_splits)
    show ?case
    proof (cases "entry_tick e \<le> tm_tick tm")
      case True
      have "poll_to_loop S tm target = Some (r1, tm1)" using unfold[OF Cons.prems(2)] t1(1,8) True by simp
      moreover have "entry_tick e \<le> target" using True Cons.prems(2) by (rule order_trans)
      then have "poll_result target tm (t # ys) r1 tm1 L1 xs1 ys"
        unfolding poll_result_def using t1 nm True e Cons.prems(2) by auto
      ultimately show ?thesis by blast
    next
      case False
      then have f: "r1 = None" "tm_entries tm1 = tm_entries tm" using t1(8) by simp_all
      from Cons.IH[OF t1(2)] Cons.prems(2-4) t1(3) obtain r tm' L' xs' ys' where
        r: "poll_to_loop S tm1 target = Some (r, tm')" "poll_result target tm1 ys r tm' L' xs' ys'" by auto
      have "poll_to_loop S tm target = Some (r, tm')" using unfold[OF Cons.prems(2)] t1(1) f(1) r(1) by simp
      moreover have "poll_result target tm (t # ys) r tm' L' xs' ys'"
        using r(2) t1(3-7) nm f(2) Cons.prems(2) by (cases r) (auto simp: poll_result_def)
      ultimately show ?thesis by blast
    qed
  qed
qed

subsection \<open>The next tick\<close>

lemma foldl_min_le: "foldl min (x :: u64) xs \<le> x \<and> (\<forall>y \<in> set xs. foldl min x xs \<le> y)"
proof (induction xs arbitrary: x)
  case (Cons a xs)
  have "foldl min (min x a) xs \<le> min x a" "\<forall>y \<in> set xs. foldl min (min x a) xs \<le> y"
    using Cons[of "min x a"] by blast+
  then show ?case by auto
qed simp

lemma min_next_tick_le:
  assumes "w \<in> set ws" shows "\<exists>k. min_next_tick ws = Some k \<and> k \<le> we_next_tick w"
proof -
  obtain x xs where x: "map we_next_tick ws = x # xs" using assms by (cases ws) auto
  have "we_next_tick w \<in> set (map we_next_tick ws)" using assms by simp
  then have "foldl min x xs \<le> we_next_tick w" using x foldl_min_le[of x xs] by auto
  then show ?thesis using x by (simp add: min_next_tick_def)
qed

lemma next_tick_spec:
  assumes w: "wheel_inv S sok tm L xs ys" and c: "counted S tm {}" and b: "none_before S tm"
  shows "\<exists>k. timer_next_tick S tm = Some (Some k) \<and>
    (\<forall>t e. ents S (tm_entries tm) t = Some e \<longrightarrow> k \<le> entry_tick e)"
proof -
  have ok: "lists_ok (ents S (tm_entries tm)) (slot_for tm) (tm_wheel tm) L"
    and len: "length (tm_wheel tm) = unat (tm_mask tm) + 1"
    and cur: "L (slot_for tm (tm_tick tm)) = xs @ ys" and nxt: "tm_next tm = firstp ys EMPTY"
    using w by (simp_all add: wheel_inv_def)
  note d = lists_okD[OF ok]
  have "tm_wheel tm ! 0 \<in> set (tm_wheel tm)" using len by simp
  from min_next_tick_le[OF this] obtain k where k: "min_next_tick (tm_wheel tm) = Some k" by blast
  have kle: "k \<le> entry_tick e" if "ents S (tm_entries tm) t = Some e" for t e
  proof -
    have "tm_wheel tm ! slot_for tm (entry_tick e) \<in> set (tm_wheel tm)" using d(1) by simp
    from min_next_tick_le[OF this] have "k \<le> we_next_tick (tm_wheel tm ! slot_for tm (entry_tick e))" using k by auto
    also have "\<dots> \<le> entry_tick e" using c that by (simp add: counted_def)
    finally show ?thesis .
  qed
  show ?thesis
  proof (cases "tm_next tm = EMPTY")
    case True
    then show ?thesis using k kle by (simp add: timer_next_tick_def)
  next
    case False
    then have "tm_next tm \<in> set ys" using nxt firstp_in[of ys EMPTY] by (cases "ys = []") auto
    then obtain e where e: "ents S (tm_entries tm) (tm_next tm) = Some e"
      using d(5)[OF d(1), of "tm_next tm" "tm_tick tm"] cur by auto
    then have g: "sl_get S (tm_entries tm) (usize_from_token (tm_next tm)) = Some e" by (simp add: ents_def)
    have "slot_for tm (el_tick (en_links e)) < length (tm_wheel tm)" by (rule d(1))
    then have "timer_next_tick S tm = Some (if we_next_tick (tm_wheel tm ! slot_for tm (el_tick (en_links e))) = tm_tick tm
        then Some (tm_tick tm) else Some k)"
      using False g k by (simp add: timer_next_tick_def)
    then show ?thesis using kle b by (auto simp: none_before_def)
  qed
qed

lemma schedule_tick:
  "schedule_readiness tm k = tm\<lparr>tm_inner := tm_inner (schedule_readiness tm k)\<rparr>"
  "lc_borrow (tm_inner tm) = Some i \<Longrightarrow> \<exists>i'. lc_borrow (tm_inner (schedule_readiness tm k)) = Some i' \<and>
     in_wakeup_state i' = min (in_wakeup_state i) k \<and> in_set_readiness i' = in_set_readiness i \<and>
     in_registration i' = in_registration i"
  "lc_borrow (tm_inner tm) = None \<Longrightarrow> schedule_readiness tm k = tm"
  by (auto simp: schedule_readiness_def lc_borrow_def min_def split: option.splits)

lemma pending_same:
  assumes "same_entries (m :: token \<rightharpoonup> 't entry) (ents S (tm_entries tm))"
  shows "pending S tm = (\<lambda>t. map_option (\<lambda>e. (entry_tick e, en_state e)) (m t))"
  using assms by (auto simp: pending_def same_entries_def entry_tick_def fun_eq_iff)

lemma pending_ents: "pending S tm = (\<lambda>t. map_option (\<lambda>e. (entry_tick e, en_state e)) (ents S (tm_entries tm) t))"
  by (simp add: pending_def entry_tick_def fun_eq_iff)

end

interpretation vec_timer: timer_slab "vec_slab :: ('t entry option list, 't entry) slab_ops" vec_slab_inv
  by unfold_locales

end
