(* ===== verification/TimerProps.thy ===== *)
theory TimerProps
  imports TimerOps
begin

unbundle bit_operations_syntax

section \<open>What the timer promises\<close>

text \<open>
  The properties of the public operations of \<open>Timer\<close>, for every slab that keeps its contract:
  setting, cancelling and polling as updates of the map of pending timeouts, the schedule of
  the wake-up, and the two defects at the current tick and at tick zero.
\<close>

text \<open>The wake-up is scheduled no later than any pending timeout.\<close>

definition armed :: "('s, 't entry) slab_ops \<Rightarrow> 's timer \<Rightarrow> bool" where
  "armed S tm \<longleftrightarrow> (\<forall>i. lc_borrow (tm_inner tm) = Some i \<longrightarrow>
     (\<forall>t k st. pending S tm t = Some (k, st) \<longrightarrow> in_wakeup_state i \<le> k))"

text \<open>A registered timer has a live node in the queue.\<close>

definition inner_live :: "'s timer \<Rightarrow> ('j, 'p) rqueue \<Rightarrow> bool" where
  "inner_live tm q \<longleftrightarrow> (\<forall>i. lc_borrow (tm_inner tm) = Some i \<longrightarrow>
     (\<exists>k. in_set_readiness i = Node k \<and> rq_heap q (Node k) \<noteq> None))"

context timer_slab
begin

lemma pending_take:
  assumes "same_entries ((ents S (tm_entries tm))(t := None)) (ents S (tm_entries tm'))"
  shows "pending S tm' = (pending S tm)(t := None)"
  unfolding pending_same[OF assms] pending_ents[of tm] by (simp add: fun_eq_iff)

lemma wheel_inv_inner [simp]: "wheel_inv S sok (tm\<lparr>tm_inner := c\<rparr>) L xs ys = wheel_inv S sok tm L xs ys"
  "none_missed S (tm\<lparr>tm_inner := c\<rparr>) ys = none_missed S tm ys"
  "counted S (tm\<lparr>tm_inner := c\<rparr>) X = counted S tm X"
  "none_before S (tm\<lparr>tm_inner := c\<rparr>) = none_before S tm"
  "pending S (tm\<lparr>tm_inner := c\<rparr>) = pending S tm"
  "timer_next_tick S (tm\<lparr>tm_inner := c\<rparr>) = timer_next_tick S tm"
  by (simp_all add: wheel_inv_def none_missed_def counted_def none_before_def pending_def fun_eq_iff
      timer_next_tick_def cong: if_cong)

lemma wheel_slot_less: "wheel_inv S sok tm L xs ys \<Longrightarrow> slot_for tm k < length (tm_wheel tm)"
  unfolding wheel_inv_def by (elim conjE) (rule lists_okD(1))

lemma timer_inv_inner [simp]: "timer_inv S sok (tm\<lparr>tm_inner := c\<rparr>) = timer_inv S sok tm"
  by (simp add: timer_inv_def)

lemma timer_inv_schedule [simp]: "timer_inv S sok (schedule_readiness tm k) = timer_inv S sok tm"
  "pending S (schedule_readiness tm k) = pending S tm"
  by (subst schedule_tick(1), simp)+

lemma insert_inv:
  assumes inv: "timer_inv S sok tm"
    and store: "\<And>e. sl_insert S (tm_entries tm) e \<noteq> None"
  shows "\<exists>key tm'. timer_insert S tm tick st = Some (Inr \<lparr>to_token = Token key, to_tick = tick\<rparr>, tm') \<and>
    timer_safe S sok tm' \<and> (tm_tick tm < tick \<longrightarrow> timer_inv S sok tm') \<and> pending S tm (Token key) = None \<and>
    pending S tm' = (pending S tm)(Token key \<mapsto> (tick, st)) \<and>
    tm_inner tm' = tm_inner (schedule_readiness tm tick)"
proof -
  obtain L xs ys where w: "wheel_inv S sok tm L xs ys" and nm: "none_missed S tm ys"
    and ct: "counted S tm (set ys)" using inv by (auto simp: timer_inv_def)
  define e0 where "e0 = entry_new st tick (we_head (tm_wheel tm ! slot_for tm tick))"
  obtain key es0 where ins: "sl_insert S (tm_entries tm) e0 = Some (key, es0)" using store[of e0] by auto
  obtain tm' xs' L' where t': "timer_insert S tm tick st = Some (Inr \<lparr>to_token = Token key, to_tick = tick\<rparr>, tm')"
    "ents S (tm_entries tm) (Token key) = None" "wheel_inv S sok tm' L' xs' ys"
    "same_entries ((ents S (tm_entries tm))(Token key \<mapsto> e0)) (ents S (tm_entries tm'))"
    "tm_tick tm' = tm_tick tm" "tm_mask tm' = tm_mask tm"
    "tm_inner tm' = tm_inner (schedule_readiness tm tick)"
    and nt: "map we_next_tick (tm_wheel tm') = (map we_next_tick (tm_wheel tm))
      [slot_for tm tick := min tick (we_next_tick (tm_wheel tm ! slot_for tm tick))]"
    using insert_spec[OF w e0_def ins] by blast
  have orig: "u = Token key \<and> entry_tick e = tick \<or>
      (\<exists>e1. ents S (tm_entries tm) u = Some e1 \<and> entry_tick e1 = entry_tick e)"
    if "ents S (tm_entries tm') u = Some e" for u e
    using same_entries_Some[where t = u, OF t'(4) that] by (auto simp: e0_def split: if_splits)
  have "none_missed S tm' ys" if after: "tm_tick tm < tick"
    unfolding none_missed_def
  proof (intro allI impI)
    fix u e assume u: "ents S (tm_entries tm') u = Some e" "entry_tick e \<le> tm_tick tm'"
    have "entry_tick e \<noteq> tick" using u(2) t'(5) after by auto
    with orig[OF u(1)] nm u(2) t'(5) show "u \<in> set ys" unfolding none_missed_def by metis
  qed
  moreover have "counted S tm' (set ys)"
    unfolding counted_def
  proof (intro allI impI)
    fix u e assume u: "ents S (tm_entries tm') u = Some e" "u \<notin> set ys"
    have sl: "slot_for tm' = slot_for tm" using t'(6) by (simp add: slot_for_def fun_eq_iff)
    have len: "length (tm_wheel tm') = length (tm_wheel tm)" using arg_cong[OF nt, of length] by simp
    have lt: "slot_for tm k < length (tm_wheel tm)" for k
      using wheel_slot_less[OF w] .
    have val: "we_next_tick (tm_wheel tm' ! slot_for tm k) =
        (if slot_for tm k = slot_for tm tick then min tick (we_next_tick (tm_wheel tm ! slot_for tm tick))
         else we_next_tick (tm_wheel tm ! slot_for tm k))" for k
    proof -
      have "we_next_tick (tm_wheel tm' ! slot_for tm k) = map we_next_tick (tm_wheel tm') ! slot_for tm k"
        using lt len by simp
      then show ?thesis using lt by (simp add: nt nth_list_update)
    qed
    have b: "we_next_tick (tm_wheel tm ! slot_for tm (entry_tick e)) \<le> entry_tick e" if "u \<noteq> Token key"
      using orig[OF u(1)] ct u(2) that unfolding counted_def by metis
    show "we_next_tick (tm_wheel tm' ! slot_for tm' (entry_tick e)) \<le> entry_tick e"
    proof (cases "u = Token key")
      case True
      then have "entry_tick e = tick" using orig[OF u(1)] t'(2) by auto
      then show ?thesis by (simp add: sl val)
    next
      case False
      then show ?thesis using b by (auto simp: sl val min.coboundedI2)
    qed
  qed
  ultimately have "tm_tick tm < tick \<longrightarrow> timer_inv S sok tm'" using t'(3) by (auto simp: timer_inv_def)
  moreover have "timer_safe S sok tm'" using t'(3) by (auto simp: timer_safe_def)
  moreover have "pending S tm' = (pending S tm)(Token key \<mapsto> (tick, st))"
    unfolding pending_same[OF t'(4)] pending_ents[of tm] by (simp add: fun_eq_iff e0_def)
  moreover have "pending S tm (Token key) = None" using t'(2) by (simp add: pending_def)
  ultimately show ?thesis using t'(1,7) by blast
qed

lemma cancel_inv:
  assumes inv: "timer_inv S sok tm"
  shows "\<exists>r tm'. cancel_timeout S tm to = Some (r, tm') \<and> timer_inv S sok tm' \<and>
    r = (case pending S tm (to_token to) of Some (k, st) \<Rightarrow> if k = to_tick to then Some st else None | None \<Rightarrow> None) \<and>
    pending S tm' = (if r = None then pending S tm else (pending S tm)(to_token to := None)) \<and>
    same_frame tm tm'"
proof -
  obtain L xs ys where w: "wheel_inv S sok tm L xs ys" and nm: "none_missed S tm ys"
    and ct: "counted S tm (set ys)" using inv by (auto simp: timer_inv_def)
  let ?t = "to_token to"
  show ?thesis
  proof (cases "ents S (tm_entries tm) ?t")
    case None
    then have "cancel_timeout S tm to = Some (None, tm)" "pending S tm ?t = None"
      by (simp_all add: cancel_timeout_def ents_def pending_def)
    then show ?thesis using inv by (auto simp: same_frame_def)
  next
    case (Some e)
    have g: "sl_get S (tm_entries tm) (usize_from_token ?t) = Some e" using Some by (simp add: ents_def)
    have p: "pending S tm ?t = Some (entry_tick e, en_state e)" using Some by (simp add: pending_def entry_tick_def)
    show ?thesis
    proof (cases "entry_tick e = to_tick to")
      case False
      then have "cancel_timeout S tm to = Some (None, tm)" using g by (simp add: cancel_timeout_def entry_tick_def)
      then show ?thesis using inv p False by (auto simp: same_frame_def)
    next
      case True
      obtain tm' where t': "timer_take S tm (en_links e) ?t = Some (en_state e, tm')"
        "wheel_inv S sok tm' (L(slot_for tm (entry_tick e) := remove1 ?t (L (slot_for tm (entry_tick e)))))
          (remove1 ?t xs) (remove1 ?t ys)"
        "same_entries ((ents S (tm_entries tm))(?t := None)) (ents S (tm_entries tm'))" "same_frame tm tm'"
        using take_spec[OF w Some refl] by blast
      have orig: "u \<noteq> ?t \<and> (\<exists>e1. ents S (tm_entries tm) u = Some e1 \<and> entry_tick e1 = entry_tick e2)"
        if "ents S (tm_entries tm') u = Some e2" for u e2
        using same_entries_Some[where t = u, OF t'(3) that] by (auto split: if_splits)
      have "none_missed S tm' (remove1 ?t ys)"
        unfolding none_missed_def
      proof (intro allI impI)
        fix u e2 assume u: "ents S (tm_entries tm') u = Some e2" "entry_tick e2 \<le> tm_tick tm'"
        have "tm_tick tm' = tm_tick tm" using t'(4) by (simp add: same_frame_def)
        then have "u \<in> set ys" using orig[OF u(1)] nm u(2) unfolding none_missed_def by metis
        then show "u \<in> set (remove1 ?t ys)" using orig[OF u(1)] by (simp add: in_set_remove1)
      qed
      moreover have "counted S tm' (set (remove1 ?t ys))"
        unfolding counted_def
      proof (intro allI impI)
        fix u e2 assume u: "ents S (tm_entries tm') u = Some e2" "u \<notin> set (remove1 ?t ys)"
        have sl: "slot_for tm' = slot_for tm" using t'(4) by (simp add: same_frame_def slot_for_def fun_eq_iff)
        have mp: "map we_next_tick (tm_wheel tm') = map we_next_tick (tm_wheel tm)"
          using t'(4) by (simp add: same_frame_def)
        have len: "length (tm_wheel tm') = length (tm_wheel tm)" using mp by (rule map_eq_imp_length_eq)
        have lt: "slot_for tm (entry_tick e2) < length (tm_wheel tm)"
          using wheel_slot_less[OF w] .
        have "we_next_tick (tm_wheel tm' ! slot_for tm (entry_tick e2)) = we_next_tick (tm_wheel tm ! slot_for tm (entry_tick e2))"
          using mp lt len by (metis nth_map)
        moreover have "u \<notin> set ys" using u(2) orig[OF u(1)] by (simp add: in_set_remove1)
        then have "we_next_tick (tm_wheel tm ! slot_for tm (entry_tick e2)) \<le> entry_tick e2"
          using orig[OF u(1)] ct unfolding counted_def by metis
        ultimately show "we_next_tick (tm_wheel tm' ! slot_for tm' (entry_tick e2)) \<le> entry_tick e2"
          by (simp add: sl)
      qed
      ultimately have "timer_inv S sok tm'" using t'(2) unfolding timer_inv_def by blast
      moreover have "cancel_timeout S tm to = Some (Some (en_state e), tm')"
        using g True t'(1) by (simp add: cancel_timeout_def entry_tick_def)
      ultimately show ?thesis using p True pending_take[OF t'(3)] t'(4) by auto
    qed
  qed
qed

text \<open>The end of \<open>poll_to\<close> when nothing is due.\<close>

lemma poll_none_inv:
  assumes inv: "timer_inv S sok tm" and lim: "target < - 1" and le: "tm_tick tm \<le> target"
    and run: "poll_to_loop S tm target = Some (None, tm')"
  shows "timer_inv S sok tm'" "pending S tm' = pending S tm" "tm_tick tm' = target + 1"
    "\<exists>L xs ys. wheel_inv S sok tm' L xs ys" "counted S tm' {}" "none_before S tm'"
    "tm_inner tm' = tm_inner tm"
proof -
  obtain L xs ys where w: "wheel_inv S sok tm L xs ys" and nm: "none_missed S tm ys"
    and ct: "counted S tm (set ys)" using inv by (auto simp: timer_inv_def)
  obtain L' xs' ys' where p: "poll_result target tm ys None tm' L' xs' ys'"
    using poll_loop_spec[OF w lim] run by auto
  note f = p[unfolded poll_result_def, simplified]
  show "timer_inv S sok tm'" using f nm ct unfolding timer_inv_def by blast
  show "\<exists>L xs ys. wheel_inv S sok tm' L xs ys" using f by blast
  show "counted S tm' {}" "none_before S tm'" "tm_inner tm' = tm_inner tm" using f nm ct le by blast+
  show "pending S tm' = pending S tm" using f by (simp add: pending_ents)
  have "unat (tm_tick tm) \<le> unat target" using le by (simp add: word_le_unat)
  moreover have "unat (tm_tick tm') = max (unat target + 1) (unat (tm_tick tm))" using f by simp
  ultimately have "unat (tm_tick tm') = unat (target + 1)"
    using add_one_u64(2)[OF lim] by simp
  then show "tm_tick tm' = target + 1" by (simp add: word_unat_eq_iff)
qed

lemma poll_to_inv:
  assumes inv: "timer_inv S sok tm" and lim: "max target (tm_tick tm) < - 1"
    and q: "reg_inv q cs H" and live: "inner_live tm q"
  shows "\<exists>r tm' q' cs'. poll_to P S (tm, q) target = Some (r, tm', q') \<and> timer_inv S sok tm' \<and>
    reg_inv q' cs' H \<and> inner_live tm' q' \<and>
    (case r of
       Some st \<Rightarrow> q' = q \<and> tm_inner tm' = tm_inner tm \<and>
         (\<exists>t k. pending S tm t = Some (k, st) \<and> k \<le> max target (tm_tick tm) \<and>
            pending S tm' = (pending S tm)(t := None))
     | None \<Rightarrow> pending S tm' = pending S tm \<and> tm_tick tm' = max target (tm_tick tm) + 1 \<and>
         (\<forall>t k st. pending S tm t = Some (k, st) \<longrightarrow> max target (tm_tick tm) < k) \<and> armed S tm')"
proof -
  let ?target = "max target (tm_tick tm)"
  have tg: "(if target < tm_tick tm then tm_tick tm else target) = ?target" by (auto simp: max_def)
  obtain L xs ys where w: "wheel_inv S sok tm L xs ys" and nm: "none_missed S tm ys"
    and ct: "counted S tm (set ys)" using inv by (auto simp: timer_inv_def)
  obtain r tm1 L' xs' ys' where run: "poll_to_loop S tm ?target = Some (r, tm1)"
    and p: "poll_result ?target tm ys r tm1 L' xs' ys'"
    using poll_loop_spec[OF w lim] by blast
  show ?thesis
  proof (cases r)
    case (Some st)
    note f = p[unfolded poll_result_def Some, simplified]
    obtain t e where e: "ents S (tm_entries tm) t = Some e" "st = en_state e" "entry_tick e \<le> ?target"
      and same: "same_entries ((ents S (tm_entries tm))(t := None)) (ents S (tm_entries tm1))" using f by auto
    have "poll_to P S (tm, q) target = Some (Some st, tm1, q)"
      using run Some tg by (simp add: poll_to_def)
    moreover have "timer_inv S sok tm1" using f nm ct unfolding timer_inv_def by blast
    moreover have "pending S tm t = Some (entry_tick e, st)" using e by (simp add: pending_def entry_tick_def)
    moreover have "tm_inner tm1 = tm_inner tm" using f by blast
    moreover from this have "inner_live tm1 q" using live by (simp add: inner_live_def)
    ultimately show ?thesis using q pending_take[OF same] e(3) by fastforce
  next
    case None
    have le: "tm_tick tm \<le> ?target" by simp
    note n = poll_none_inv[OF inv lim le run[unfolded None]]
    have due: "?target < k" if "pending S tm t = Some (k, st)" for t k st
    proof -
      have "pending S tm1 t = Some (k, st)" using that n(2) by simp
      then obtain e where e: "ents S (tm_entries tm1) t = Some e" "entry_tick e = k"
        by (auto simp: pending_ents)
      have "tm_tick tm1 \<le> k" using n(6) e by (auto simp: none_before_def)
      then show ?thesis using n(3) add_one_u64(2)[OF lim] by (simp add: word_le_unat word_less_nat_alt)
    qed
    show ?thesis
    proof (cases "lc_borrow (tm_inner tm)")
      case no: None
      then have "poll_to P S (tm, q) target = Some (None, tm1, q)"
        using run None tg n(7) by (simp add: poll_to_def)
      moreover have "armed S tm1" "inner_live tm1 q" using no n(7) by (simp_all add: armed_def inner_live_def)
      ultimately show ?thesis using q n(1-3) due by auto
    next
      case (Some i)
      then obtain k nd where k: "in_set_readiness i = Node k" "rq_heap q (Node k) = Some nd"
        using live by (auto simp: inner_live_def)
      have "ready_bits ready_empty \<le> MASK_4" by (simp add: ready_empty_def)
      from set_readiness_inv[OF q k(2) this, of P] obtain res q' cs' where
        q': "reg_set_readiness P q (Node k) ready_empty = Some (res, q')" "reg_inv q' cs' H"
        and sp: "if v_dropped (rs_view (nd_state nd)) then q' = q \<and> cs' = cs
          else \<exists>n'. rq_heap q' (Node k) = Some n'" by (auto simp: Let_def split: if_splits)
      have alive: "rq_heap q' (Node k) \<noteq> None" using sp k(2) by (auto split: if_splits)
      obtain k2 where k2: "timer_next_tick S tm1 = Some (Some k2)"
        "\<And>t e. ents S (tm_entries tm1) t = Some e \<Longrightarrow> k2 \<le> entry_tick e"
        using next_tick_spec[OF _ n(5,6)] n(4) by blast
      let ?tm' = "schedule_readiness tm1 k2"
      have some1: "lc_borrow (tm_inner tm1) = Some i" using Some n(7) by simp
      obtain i' where i': "lc_borrow (tm_inner ?tm') = Some i'" "in_wakeup_state i' = min (in_wakeup_state i) k2"
        "in_set_readiness i' = in_set_readiness i" using schedule_tick(2)[OF some1] by blast
      have "poll_to P S (tm, q) target = Some (None, ?tm', q')"
        using run None tg some1 k(1) q'(1) k2(1) by (simp add: poll_to_def)
      moreover have "inner_live ?tm' q'" using i' k(1) alive by (simp add: inner_live_def)
      moreover have "armed S ?tm'"
        unfolding armed_def
      proof (intro allI impI)
        fix j t kk st assume j: "lc_borrow (tm_inner ?tm') = Some j" "pending S ?tm' t = Some (kk, st)"
        then have "pending S tm1 t = Some (kk, st)" by simp
        then obtain e where "ents S (tm_entries tm1) t = Some e" "entry_tick e = kk"
          by (auto simp: pending_ents)
        then have "k2 \<le> kk" using k2(2) by blast
        then show "in_wakeup_state j \<le> kk" using i' j(1) by (simp add: min.coboundedI2)
      qed
      moreover have "tm_tick ?tm' = tm_tick tm1" by (subst schedule_tick(1)) simp
      ultimately show ?thesis using q'(2) n(1-3) due by auto
    qed
  qed
qed

lemma poll_to_frame:
  assumes inv: "timer_inv S sok tm" and lim: "max target (tm_tick tm) < - 1"
    and run: "poll_to P S (tm, q) target = Some (r, tm', q')"
  shows "tm_tick_ms tm' = tm_tick_ms tm" and "r = Some st \<Longrightarrow> tm_tick tm' \<le> max target (tm_tick tm)"
    and "r = Some st \<Longrightarrow> tm_tick tm \<le> tm_tick tm'"
proof -
  have tg: "(if target < tm_tick tm then tm_tick tm else target) = max target (tm_tick tm)" by (auto simp: max_def)
  obtain L xs ys where w: "wheel_inv S sok tm L xs ys" using inv by (auto simp: timer_inv_def)
  obtain r1 tm1 L' xs' ys' where l: "poll_to_loop S tm (max target (tm_tick tm)) = Some (r1, tm1)"
    "poll_result (max target (tm_tick tm)) tm ys r1 tm1 L' xs' ys'" using poll_loop_spec[OF w lim] by blast
  have ms: "tm_tick_ms tm1 = tm_tick_ms tm" using l(2) by (simp add: poll_result_def)
  have sch: "tm_tick_ms (schedule_readiness tm1 k) = tm_tick_ms tm" for k
    using ms by (subst schedule_tick(1)) simp
  show "tm_tick_ms tm' = tm_tick_ms tm"
    using run l(1) ms sch
    by (auto simp: poll_to_def Let_def tg bind_Some_iff split: option.splits)
  have "r1 = Some st \<and> tm' = tm1" if "r = Some st"
    using run l(1) that by (auto simp: poll_to_def Let_def tg bind_Some_iff split: option.splits)
  then show "r = Some st \<Longrightarrow> tm_tick tm' \<le> max target (tm_tick tm)" "r = Some st \<Longrightarrow> tm_tick tm \<le> tm_tick tm'"
    using l(2) by (auto simp: poll_result_def)
qed

lemma pending_finite: "timer_inv S sok tm \<Longrightarrow> finite (dom (pending S tm))"
proof -
  assume "timer_inv S sok tm"
  then obtain L xs ys where "wheel_inv S sok tm L xs ys" by (auto simp: timer_inv_def)
  then have ok: "lists_ok (ents S (tm_entries tm)) (slot_for tm) (tm_wheel tm) L" by (simp add: wheel_inv_def)
  have "dom (pending S tm) \<subseteq> (\<Union>i < length (tm_wheel tm). set (L i))"
  proof
    fix t assume "t \<in> dom (pending S tm)"
    then obtain e where "ents S (tm_entries tm) t = Some e" by (auto simp: pending_ents)
    from lists_okD(7)[where t = t, OF ok this] lists_okD(1)[OF ok]
    show "t \<in> (\<Union>i < length (tm_wheel tm). set (L i))" by blast
  qed
  then show ?thesis by (rule finite_subset) simp
qed

end

subsection \<open>Properties\<close>

text \<open>C1. Polling returns. It returns the state of a timeout that is due and takes just that one
  out, or, when it returns nothing, no timeout that is due is left: every pending one lies
  after the polled tick, and the wake-up is scheduled no later than the earliest.\<close>

theorem timer_poll_due:
  assumes "timer_slab S sok" and "timer_inv S sok tm" and "max target (tm_tick tm) < - 1"
    and "reg_inv q cs H" and "inner_live tm q"
  shows "\<exists>r tm' q' cs'. poll_to P S (tm, q) target = Some (r, tm', q') \<and> timer_inv S sok tm' \<and>
    reg_inv q' cs' H \<and> inner_live tm' q' \<and>
    (case r of
       Some st \<Rightarrow> q' = q \<and> tm_inner tm' = tm_inner tm \<and>
         (\<exists>t k. pending S tm t = Some (k, st) \<and> k \<le> max target (tm_tick tm) \<and>
            pending S tm' = (pending S tm)(t := None))
     | None \<Rightarrow> pending S tm' = pending S tm \<and> tm_tick tm' = max target (tm_tick tm) + 1 \<and>
         (\<forall>t k st. pending S tm t = Some (k, st) \<longrightarrow> max target (tm_tick tm) < k) \<and> armed S tm')"
  by (rule timer_slab.poll_to_inv[OF assms])

text \<open>C32. Setting a timeout adds exactly that timeout, at its tick or at the one after the current tick when
  it lies in the past, under a key that no pending timeout has, and schedules the wake-up for it. The lists stay
  intact for every tick; the invariant that no due timeout has been passed over is kept for every tick but
  the current one, at which a timeout is missed (\<open>current_tick_missed\<close>).\<close>

theorem set_timeout_adds:
  assumes "timer_slab S sok" and "timer_inv S sok tm" and "tm_tick tm < - 1"
    and "duration_to_tick d (tm_tick_ms tm) = Some k"
    and "\<And>e. sl_insert S (tm_entries tm) e \<noteq> None"
  shows "\<exists>to tm'. set_timeout_at S tm d st = Some (Inr to, tm') \<and>
    to_tick to = (if k < tm_tick tm then tm_tick tm + 1 else k) \<and>
    pending S tm (to_token to) = None \<and>
    pending S tm' = (pending S tm)(to_token to \<mapsto> (to_tick to, st)) \<and>
    (\<forall>i. lc_borrow (tm_inner tm') = Some i \<longrightarrow> in_wakeup_state i \<le> to_tick to) \<and>
    timer_safe S sok tm' \<and> (k \<noteq> tm_tick tm \<longrightarrow> timer_inv S sok tm')"
proof -
  let ?k = "if k < tm_tick tm then tm_tick tm + 1 else k"
  have add: "add_u64 (tm_tick tm) 1 = Some (tm_tick tm + 1)"
    and un: "unat (tm_tick tm + 1) = Suc (unat (tm_tick tm))" using add_one_u64[OF assms(3)] by simp_all
  have after: "k \<noteq> tm_tick tm \<Longrightarrow> tm_tick tm < ?k"
    using un by (auto simp: word_less_nat_alt word_unat_eq_iff)
  obtain key tm' where t': "timer_insert S tm ?k st = Some (Inr \<lparr>to_token = Token key, to_tick = ?k\<rparr>, tm')"
    "timer_safe S sok tm'" "tm_tick tm < ?k \<longrightarrow> timer_inv S sok tm'" "pending S tm (Token key) = None"
    "pending S tm' = (pending S tm)(Token key \<mapsto> (?k, st))"
    "tm_inner tm' = tm_inner (schedule_readiness tm ?k)"
    using timer_slab.insert_inv[OF assms(1,2) assms(5), of ?k st] by blast
  have "set_timeout_at S tm d st = timer_insert S tm ?k st"
    using assms(4) add by (simp add: set_timeout_at_def)
  moreover have "in_wakeup_state i \<le> ?k" if "lc_borrow (tm_inner tm') = Some i" for i
  proof (cases "lc_borrow (tm_inner tm)")
    case None
    then have "schedule_readiness tm ?k = tm" by (rule timer_slab.schedule_tick(3)[OF assms(1)])
    then show ?thesis using that t'(6) None by simp
  next
    case (Some j)
    from timer_slab.schedule_tick(2)[OF assms(1) Some, of ?k] show ?thesis using that t'(6) by auto
  qed
  moreover have "k \<noteq> tm_tick tm \<longrightarrow> timer_inv S sok tm'" using t'(3) after by blast
  ultimately show ?thesis using t'(1,2,4,5)
    by (intro exI[of _ "\<lparr>to_token = Token key, to_tick = ?k\<rparr>"] exI[of _ tm']) simp
qed

text \<open>C33. Cancelling returns the state of the timeout exactly when it is still pending and takes it
  out; a handle whose key now belongs to another timeout's tick, or to none, does nothing.\<close>

theorem cancel_timeout_once:
  assumes "timer_slab S sok" and "timer_inv S sok tm"
  shows "\<exists>r tm'. cancel_timeout S tm to = Some (r, tm') \<and> timer_inv S sok tm' \<and>
    r = (case pending S tm (to_token to) of
           Some (k, st) \<Rightarrow> if k = to_tick to then Some st else None | None \<Rightarrow> None) \<and>
    pending S tm' = (if r = None then pending S tm else (pending S tm)(to_token to := None)) \<and>
    cancel_timeout S tm' to = Some (None, tm')"
proof -
  obtain r tm' where c: "cancel_timeout S tm to = Some (r, tm')" "timer_inv S sok tm'"
    "r = (case pending S tm (to_token to) of Some (k, st) \<Rightarrow> if k = to_tick to then Some st else None | None \<Rightarrow> None)"
    "pending S tm' = (if r = None then pending S tm else (pending S tm)(to_token to := None))"
    using timer_slab.cancel_inv[OF assms, of to] by blast
  have "\<exists>k st. pending S tm' (to_token to) = Some (k, st) \<and> k \<noteq> to_tick to" if "pending S tm' (to_token to) \<noteq> None"
    using that c(3,4) by (auto split: option.splits if_splits)
  then have "cancel_timeout S tm' to = Some (None, tm')"
    by (auto simp: cancel_timeout_def pending_def ents_def split: option.splits)
  with c show ?thesis by blast
qed

lemma timer_new_spec:
  assumes "timer_slab S sok" and "unat num_slots \<le> 2 ^ 63" and "unat capacity \<le> 2 ^ 63"
  shows "\<exists>tm. timer_new S tick_ms num_slots capacity = Some tm \<and> timer_inv S sok tm \<and>
    pending S tm = (\<lambda>_. None) \<and> tm_tick tm = 0 \<and> unat num_slots \<le> length (tm_wheel tm) \<and>
    tm_next tm = EMPTY \<and> tm_inner tm = lc_new \<and> tm_tick_ms tm = tick_ms"
proof -
  have pow: "\<exists>j. next_power_of_two n = Some (push_bit j 1) \<and> j < 64 \<and> unat n \<le> 2 ^ j"
    if "unat n \<le> 2 ^ 63" for n :: usize
  proof -
    have "\<exists>j \<in> set [0..<64]. unat n \<le> 2 ^ j" using that by (intro bexI[of _ 63]) auto
    then obtain j where j: "find (\<lambda>k. unat n \<le> 2 ^ k) [0..<64] = Some j"
      by (cases "find (\<lambda>k. unat n \<le> 2 ^ k) [0..<64]") (auto simp: find_None_iff)
    then have "j < 64 \<and> unat n \<le> 2 ^ j" by (auto simp: find_Some_iff)
    then show ?thesis using j by (intro exI[of _ j]) (simp add: next_power_of_two_def)
  qed
  obtain j where j: "next_power_of_two num_slots = Some (push_bit j 1)" "j < 64" "unat num_slots \<le> 2 ^ j"
    using pow[OF assms(2)] by blast
  obtain c where c: "next_power_of_two capacity = Some c" using pow[OF assms(3)] by blast
  let ?n = "push_bit j 1 :: usize"
  have "(2 :: nat) ^ j < 2 ^ 64" using j(2) by (intro power_strict_increasing) auto
  then have un: "unat ?n = 2 ^ j"
    using j(2) by (subst unsigned_push_bit_eq) (simp add: take_bit_nat_eq_self push_bit_eq_mult)
  have pos: "1 \<le> ?n" using un by (simp add: word_le_nat_alt)
  then have sub: "sub_u64 ?n 1 = Some (?n - 1)" and um: "unat (?n - 1) = 2 ^ j - 1"
    using un unat_sub_one[of ?n] by (simp_all add: sub_u64_def)
  let ?tm = "\<lparr>tm_tick_ms = tick_ms, tm_entries = sl_with_capacity S c,
      tm_wheel = replicate (unat ?n) \<lparr>we_next_tick = TICK_MAX, we_head = EMPTY\<rparr>,
      tm_tick = 0, tm_next = EMPTY, tm_mask = ?n - 1, tm_inner = lc_new\<rparr>"
  have none: "ents S (sl_with_capacity S c) = (\<lambda>_. None)"
    using timer_slab.axioms(1)[OF assms(1)] slab.get_with_capacity by (fastforce simp: ents_def)
  have slot: "slot_for ?tm k < unat ?n" for k
  proof -
    have "unat (k AND (?n - 1)) \<le> 2 ^ j - 1" using and_mask_less[of k "?n - 1"] um by metis
    moreover have "(0 :: nat) < 2 ^ j" by simp
    ultimately have "unat (k AND (?n - 1)) < 2 ^ j" by linarith
    then show ?thesis unfolding un by (simp add: slot_for_def and.commute)
  qed
  have sl: "sok (sl_with_capacity S c)"
    using timer_slab.axioms(1)[OF assms(1)] slab.inv_with_capacity by blast
  have "wheel_inv S sok ?tm (\<lambda>_. []) [] []"
    using slot sl none um un by (simp add: wheel_inv_def lists_ok_def)
  then have "timer_inv S sok ?tm"
    unfolding timer_inv_def by (intro exI conjI) (assumption | simp add: none_missed_def counted_def none)+
  moreover have "timer_new S tick_ms num_slots capacity = Some ?tm"
    using j(1) c sub by (simp add: timer_new_def)
  moreover have "pending S ?tm = (\<lambda>_. None)" using none by (simp add: pending_def fun_eq_iff)
  ultimately show ?thesis using un j(3) by (intro exI[of _ ?tm]) simp
qed

text \<open>A new timer has a wheel of a power of two slots and nothing pending.\<close>

theorem timer_new_empty:
  assumes "timer_slab S sok" and "unat num_slots \<le> 2 ^ 63" and "unat capacity \<le> 2 ^ 63"
  shows "\<exists>tm. timer_new S tick_ms num_slots capacity = Some tm \<and> timer_inv S sok tm \<and>
    pending S tm = (\<lambda>_. None) \<and> tm_tick tm = 0 \<and> unat num_slots \<le> length (tm_wheel tm)"
  using timer_new_spec[OF assms] by blast

text \<open>C38. A duration is rounded to the nearest tick. The tick of a duration is within half a tick of it, so a timeout
  that is due by its tick is less than one tick early, and one whose time has come is due. (The condition
  is that adding half a tick does not leave 64 bits.)\<close>

theorem timer_rounding:
  assumes "tick_ms \<noteq> 0" and "unat (millis d) + unat (tick_ms div 2) < 2 ^ 64"
  shows "\<exists>k now. duration_to_tick d tick_ms = Some k \<and> duration_to_tick e tick_ms = Some now \<and>
    \<bar>2 * (int (unat k) * int (unat tick_ms)) - 2 * int (unat (millis d))\<bar> \<le> int (unat tick_ms) \<and>
    (k \<le> now \<longrightarrow> unat (millis d) < unat (millis e) + unat tick_ms) \<and>
    (unat (millis d) \<le> unat (millis e) \<longrightarrow> k \<le> now)"
proof -
  let ?t = "unat tick_ms" and ?h = "unat (tick_ms div 2)" and ?D = "unat (millis d)" and ?E = "unat (millis e)"
  obtain k now where s: "duration_to_tick d tick_ms = Some k" "duration_to_tick e tick_ms = Some now"
    using assms(1) by (simp add: duration_to_tick_def)
  have t: "0 < ?t" using assms(1) by (simp add: word_unat_eq_iff)
  have k: "unat k = (?D + ?h) div ?t"
    using s(1) assms by (auto simp: duration_to_tick_def Let_def unat_div unat_saturating_add)
  have now: "unat now = min (?E + ?h) (2 ^ 64 - 1) div ?t"
    using s(2) assms(1) by (auto simp: duration_to_tick_def Let_def unat_div unat_saturating_add
        simp del: min_less_iff_conj)
  have h: "?h = ?t div 2" by (simp add: unat_div)
  have b: "unat k * ?t \<le> ?D + ?h" "?D + ?h < unat k * ?t + ?t"
    unfolding k using div_mult_mod_eq[of "?D + ?h" ?t] mod_less_divisor[OF t, of "?D + ?h"] by linarith+
  have "2 * ?h \<le> ?t" "?t \<le> 2 * ?h + 1" unfolding h by linarith+
  then have "\<bar>2 * int (unat k * ?t) - 2 * int ?D\<bar> \<le> int ?t" using b by linarith
  then have "\<bar>2 * (int (unat k) * int ?t) - 2 * int ?D\<bar> \<le> int ?t" by simp
  moreover have "?D < ?E + ?t" if "k \<le> now"
  proof -
    have "unat k \<le> (?E + ?h) div ?t"
      using that unfolding word_le_nat_alt now by (rule order_trans) (simp add: div_le_mono)
    then have "unat k * ?t \<le> ?E + ?h"
      by (meson div_times_less_eq_dividend mult_le_mono1 order_trans)
    then show ?thesis using b(2) by linarith
  qed
  moreover have "k \<le> now" if "?D \<le> ?E"
    unfolding word_le_nat_alt k now using that assms(2) by (intro div_le_mono) simp
  ultimately show ?thesis using s by blast
qed

subsection \<open>The current tick and tick zero\<close>

text \<open>A registered timer of four slots of 100 ms, in a slab of the kind of theory Slab.\<close>

definition small_timer :: "timer_inner lazy_cell \<Rightarrow> string entry option list timer" where
  "small_timer c = \<lparr>tm_tick_ms = 100, tm_entries = [],
     tm_wheel = replicate 4 \<lparr>we_next_tick = TICK_MAX, we_head = EMPTY\<rparr>,
     tm_tick = 0, tm_next = EMPTY, tm_mask = 3, tm_inner = c\<rparr>"

lemma millis_zero: "millis duration_zero = 0"
proof -
  have "duration_ok duration_zero" by (simp add: duration_ok_def duration_zero_def)
  from millis_nat[OF this] have "unat (millis duration_zero) = 0"
    by (simp add: duration_nanos_def duration_zero_def)
  then show ?thesis by (simp add: word_unat_eq_iff)
qed

text \<open>A timeout set for the current tick is missed: here one without delay, set on a new timer,
  is still pending after polls at 100, 200 and 300 ms have found nothing due.\<close>

theorem current_tick_missed:
  "\<exists>to tm1 tm2. set_timeout_at vec_slab (small_timer lc_new) duration_zero ''t'' = Some (Inr to, tm1) \<and>
     poll_to_loop vec_slab tm1 3 = Some (None, tm2) \<and> pending vec_slab tm2 (to_token to) = Some (0, ''t'')"
proof -
  let ?w = "\<lparr>we_next_tick = - 1, we_head = EMPTY\<rparr>"
  let ?e = "[Some (entry_new ''t'' 0 EMPTY)]"
  let ?tm = "\<lambda>k n w. \<lparr>tm_tick_ms = 100, tm_entries = ?e, tm_wheel = \<lparr>we_next_tick = w, we_head = Token 0\<rparr> # [?w, ?w, ?w],
     tm_tick = k, tm_next = n, tm_mask = 3, tm_inner = lc_new\<rparr>"
  have E: "Token 0 \<noteq> EMPTY" by (simp add: EMPTY_def)
  have four: "replicate 4 x = [x, x, x, x]" for x :: wheel_entry by (simp add: numeral_eq_Suc)
  have "duration_to_tick duration_zero 100 = Some 0"
    by (simp add: duration_to_tick_def millis_zero saturating_add_def)
  then have set: "set_timeout_at vec_slab (small_timer lc_new) duration_zero ''t'' =
      Some (Inr \<lparr>to_token = Token 0, to_tick = 0\<rparr>, ?tm 0 EMPTY 0)"
    using E by (simp add: set_timeout_at_def small_timer_def timer_insert_def Let_def
        vec_slab_def first_vacant_def schedule_readiness_def lc_borrow_def lc_new_def TICK_MAX_def four)
  have s: "poll_step vec_slab (?tm k EMPTY 0) = Some (None, ?tm (k + 1) EMPTY 0)"
    if "k \<in> {0, 1, 2}" for k
    using that E by (auto simp: poll_step_def Let_def add_u64_def slot_for_def set_wheel_next_def TICK_MAX_def)
  have s3: "poll_step vec_slab (?tm 3 EMPTY 0) = Some (None, ?tm 4 (Token 0) 0)"
    using E by (simp add: poll_step_def Let_def add_u64_def slot_for_def)
  have "poll_to_loop vec_slab (?tm 0 EMPTY 0) 3 = Some (None, ?tm 4 (Token 0) 0)"
    using s[of 0] s[of 1] s[of 2] s3 by (simp add: poll_to_loop.simps)
  moreover have "pending vec_slab (?tm 4 (Token 0) 0) (Token 0) = Some (0, ''t'')"
    by (simp add: pending_def ents_def vec_slab_def entry_new_def)
  ultimately show ?thesis using set by (intro exI[of _ "\<lparr>to_token = Token 0, to_tick = 0\<rparr>"] exI) auto
qed

subsection \<open>Concrete inputs\<close>

text \<open>The small timer with one timeout, at tick 2.\<close>

definition one_timer :: "string entry option list timer" where
  "one_timer = (small_timer lc_new)\<lparr>tm_entries := [Some (entry_new ''t'' 2 EMPTY)],
     tm_wheel := [\<lparr>we_next_tick = TICK_MAX, we_head = EMPTY\<rparr>, \<lparr>we_next_tick = TICK_MAX, we_head = EMPTY\<rparr>,
       \<lparr>we_next_tick = 2, we_head = Token 0\<rparr>, \<lparr>we_next_tick = TICK_MAX, we_head = EMPTY\<rparr>]\<rparr>"

lemma one_timer_ents:
  "ents vec_slab [Some (entry_new ''t'' 2 EMPTY)] = [Token 0 \<mapsto> entry_new ''t'' 2 EMPTY]"
proof
  fix t :: token
  show "ents vec_slab [Some (entry_new ''t'' 2 EMPTY)] t = [Token 0 \<mapsto> entry_new ''t'' 2 EMPTY] t"
    by (cases t) (auto simp: ents_def vec_slab_def word_unat_eq_iff)
qed

lemma mask3_less: "unat (3 AND k :: u64) < 4"
  using and_mask_less[of k 3] by (simp add: and.commute)

lemma one_timer_inv: "timer_inv vec_slab vec_slab_inv one_timer"
proof -
  let ?L = "\<lambda>i :: nat. if i = 2 then [Token 0] else []"
  have slot: "slot_for one_timer k < 4" for k
    using mask3_less by (simp add: slot_for_def one_timer_def small_timer_def)
  have s2: "slot_for one_timer 2 = 2" and s0: "slot_for one_timer 0 = 0"
    by (simp_all add: slot_for_def one_timer_def small_timer_def)
  have E: "Token 0 \<noteq> EMPTY" by (simp add: EMPTY_def)
  have fields: "tm_entries one_timer = [Some (entry_new ''t'' 2 EMPTY)]" "length (tm_wheel one_timer) = 4"
    "tm_mask one_timer = 3" "tm_tick one_timer = 0" "tm_next one_timer = EMPTY"
    by (simp_all add: one_timer_def small_timer_def)
  have heads: "we_head (tm_wheel one_timer ! i) = firstp (?L i) EMPTY" if "i < 4" for i
    using that by (auto simp: one_timer_def less_Suc_eq numeral_eq_Suc)
  have "lists_ok (ents vec_slab (tm_entries one_timer)) (slot_for one_timer) (tm_wheel one_timer) ?L"
    unfolding lists_ok_def fields one_timer_ents
    using slot s2 E heads by (auto simp: entry_new_def entry_tick_def)
  then have "wheel_inv vec_slab vec_slab_inv one_timer ?L [] []"
    using s0 by (simp add: wheel_inv_def fields vec_slab_inv_def)
  moreover have "we_next_tick (tm_wheel one_timer ! 2) = 2" by (simp add: one_timer_def)
  ultimately show ?thesis
    unfolding timer_inv_def using s2
    by (intro exI conjI) (assumption | simp add: none_missed_def counted_def fields one_timer_ents split: if_splits)+
qed

lemma one_timer_pending: "pending vec_slab one_timer = [Token 0 \<mapsto> (2, ''t'')]"
proof -
  have "tm_entries one_timer = [Some (entry_new ''t'' 2 EMPTY)]" by (simp add: one_timer_def)
  then show ?thesis
    unfolding pending_def by (simp add: one_timer_ents fun_eq_iff)
qed

lemma one_timer_inner: "tm_inner one_timer = lc_new" "tm_tick one_timer = 0" "tm_tick_ms one_timer = 100"
  "tm_entries one_timer = [Some (entry_new ''t'' 2 EMPTY)]"
  by (simp_all add: one_timer_def small_timer_def)

lemma one_timer_live: "inner_live one_timer q"
  by (simp add: inner_live_def one_timer_inner lc_borrow_def lc_new_def)

text \<open>At tick 1 nothing is due yet, at tick 2 the timeout is.\<close>

theorem timer_poll_due_witness:
  "(\<exists>tm' q'. poll_to (count_pipe 65536) vec_slab (one_timer, fresh_queue) 1 = Some (None, tm', q') \<and>
     pending vec_slab tm' = [Token 0 \<mapsto> (2, ''t'')]) \<and>
   (\<exists>tm' q'. poll_to (count_pipe 65536) vec_slab (one_timer, fresh_queue) 2 = Some (Some ''t'', tm', q') \<and>
     pending vec_slab tm' = Map.empty)"
proof -
  let ?P = "count_pipe 65536"
  have m: "max k (tm_tick one_timer) = k" for k by (simp add: one_timer_inner max_def)
  have run: "\<exists>r tm' q' cs'. poll_to ?P vec_slab (one_timer, fresh_queue) k = Some (r, tm', q') \<and>
      timer_inv vec_slab vec_slab_inv tm' \<and> reg_inv q' cs' (\<lambda>_. 0) \<and> inner_live tm' q' \<and>
      (case r of
       Some st \<Rightarrow> q' = fresh_queue \<and> tm_inner tm' = tm_inner one_timer \<and>
         (\<exists>t k'. pending vec_slab one_timer t = Some (k', st) \<and> k' \<le> k \<and>
            pending vec_slab tm' = (pending vec_slab one_timer)(t := None))
     | None \<Rightarrow> pending vec_slab tm' = pending vec_slab one_timer \<and> tm_tick tm' = k + 1 \<and>
         (\<forall>t k' st. pending vec_slab one_timer t = Some (k', st) \<longrightarrow> k < k') \<and> armed vec_slab tm')" if "k < - 1" for k
    using timer_poll_due[OF vec_timer.timer_slab_axioms one_timer_inv, of k, unfolded m, OF that fresh_queue_inv one_timer_live, of ?P] .
  obtain r tm' q' where p: "poll_to ?P vec_slab (one_timer, fresh_queue) 1 = Some (r, tm', q')"
    and c: "case r of Some st \<Rightarrow> \<exists>t k'. pending vec_slab one_timer t = Some (k', st) \<and> k' \<le> 1
      | None \<Rightarrow> pending vec_slab tm' = pending vec_slab one_timer"
    using run[of 1] by (fastforce simp: word_less_nat_alt split: option.splits)
  have "r = None" using c by (auto simp: one_timer_pending word_le_nat_alt split: option.splits if_splits)
  then have 1: "poll_to ?P vec_slab (one_timer, fresh_queue) 1 = Some (None, tm', q')" "pending vec_slab tm' = [Token 0 \<mapsto> (2, ''t'')]"
    using p c by (auto simp: one_timer_pending)
  obtain r2 tm2 q2 where p2: "poll_to ?P vec_slab (one_timer, fresh_queue) 2 = Some (r2, tm2, q2)"
    and c2: "case r2 of Some st \<Rightarrow> \<exists>t k'. pending vec_slab one_timer t = Some (k', st) \<and>
        pending vec_slab tm2 = (pending vec_slab one_timer)(t := None)
      | None \<Rightarrow> \<forall>t k' st. pending vec_slab one_timer t = Some (k', st) \<longrightarrow> 2 < k'"
    using run[of 2] by (fastforce simp: word_less_nat_alt split: option.splits)
  have there: "pending vec_slab one_timer (Token 0) = Some (2, ''t'')" by (simp add: one_timer_pending)
  obtain st where st: "r2 = Some st" using c2 there by (cases r2) fastforce+
  then have "st = ''t'' \<and> pending vec_slab tm2 = Map.empty"
    using c2 by (auto simp: one_timer_pending split: if_splits)
  then show ?thesis using 1 p2 st by blast
qed

text \<open>Polling again at the same time runs ahead of the clock: every poll that finds nothing moves the
  timer one tick on, so a timeout for tick 2 fires at the second poll of tick 1.\<close>

theorem polls_run_ahead:
  "\<exists>tm1 tm2 q. poll_to (count_pipe 65536) vec_slab (one_timer, fresh_queue) 1 = Some (None, tm1, q) \<and>
     pending vec_slab tm1 = [Token 0 \<mapsto> (2, ''t'')] \<and>
     poll_to (count_pipe 65536) vec_slab (tm1, q) 1 = Some (Some ''t'', tm2, q)"
proof -
  let ?P = "count_pipe 65536"
  have m: "max 1 (tm_tick one_timer) = 1" "max 1 (2 :: tick) = 2" by (simp_all add: one_timer_inner max_def)
  have lim: "(1 :: tick) < - 1" "(2 :: tick) < - 1" by (simp_all add: word_less_nat_alt)
  obtain r tm1 q1 cs1 where p: "poll_to ?P vec_slab (one_timer, fresh_queue) 1 = Some (r, tm1, q1)"
    "timer_inv vec_slab vec_slab_inv tm1" "reg_inv q1 cs1 (\<lambda>_. 0)" "inner_live tm1 q1"
    and c: "case r of
       Some st \<Rightarrow> q1 = fresh_queue \<and> tm_inner tm1 = tm_inner one_timer \<and>
         (\<exists>t k. pending vec_slab one_timer t = Some (k, st) \<and> k \<le> 1 \<and>
            pending vec_slab tm1 = (pending vec_slab one_timer)(t := None))
     | None \<Rightarrow> pending vec_slab tm1 = pending vec_slab one_timer \<and> tm_tick tm1 = 1 + 1 \<and>
         (\<forall>t k st. pending vec_slab one_timer t = Some (k, st) \<longrightarrow> 1 < k) \<and> armed vec_slab tm1"
    using vec_timer.poll_to_inv[OF one_timer_inv _ fresh_queue_inv one_timer_live, of 1 ?P] lim unfolding m by blast
  have r: "r = None" using c by (auto simp: one_timer_pending word_le_nat_alt split: option.splits if_splits)
  then have tm1: "pending vec_slab tm1 = [Token 0 \<mapsto> (2, ''t'')]" "tm_tick tm1 = 2"
    using c by (simp_all add: one_timer_pending)
  obtain r2 tm2 q2 where p2: "poll_to ?P vec_slab (tm1, q1) 1 = Some (r2, tm2, q2)"
    and c2: "case r2 of
       Some st \<Rightarrow> q2 = q1 \<and> tm_inner tm2 = tm_inner tm1 \<and>
         (\<exists>t k. pending vec_slab tm1 t = Some (k, st) \<and> k \<le> 2 \<and>
            pending vec_slab tm2 = (pending vec_slab tm1)(t := None))
     | None \<Rightarrow> pending vec_slab tm2 = pending vec_slab tm1 \<and> tm_tick tm2 = 2 + 1 \<and>
         (\<forall>t k st. pending vec_slab tm1 t = Some (k, st) \<longrightarrow> 2 < k) \<and> armed vec_slab tm2"
    using vec_timer.poll_to_inv[OF p(2) _ p(3,4), of 1 ?P] lim unfolding tm1(2) m by blast
  have "r2 = Some ''t'' \<and> q2 = q1" using c2 by (auto simp: tm1(1) split: option.splits if_splits)
  then show ?thesis using p(1) r tm1(1) p2 by auto
qed

theorem set_timeout_adds_witness:
  "\<exists>to tm'. set_timeout_at vec_slab one_timer \<lparr>as_secs = 0, subsec_nanos = 500000000\<rparr> ''u'' = Some (Inr to, tm') \<and>
     to_tick to = 5 \<and> pending vec_slab tm' = (pending vec_slab one_timer)(to_token to \<mapsto> (5, ''u''))"
proof -
  let ?d = "\<lparr>as_secs = 0, subsec_nanos = 500000000\<rparr>"
  have "unat (millis ?d) = 500"
    using millis_nat[of ?d] by (simp add: duration_ok_def duration_nanos_def)
  then have "millis ?d = 500" by (simp add: word_unat_eq_iff)
  then have k: "duration_to_tick ?d (tm_tick_ms one_timer) = Some 5"
    by (simp add: duration_to_tick_def one_timer_inner saturating_add_def)
  have "tm_tick one_timer < - 1" and ge: "\<not> 5 < tm_tick one_timer"
    by (simp_all add: one_timer_inner word_less_nat_alt)
  moreover have "sl_insert vec_slab (tm_entries one_timer) e \<noteq> None" for e
    by (simp add: vec_slab_def one_timer_inner first_vacant_def)
  ultimately show ?thesis
    using set_timeout_adds[OF vec_timer.timer_slab_axioms one_timer_inv _ k, of "''u''"] by auto
qed

theorem cancel_timeout_once_witness:
  "\<exists>tm'. cancel_timeout vec_slab one_timer \<lparr>to_token = Token 0, to_tick = 2\<rparr> = Some (Some ''t'', tm') \<and>
     pending vec_slab tm' = (\<lambda>_. None) \<and>
     cancel_timeout vec_slab tm' \<lparr>to_token = Token 0, to_tick = 2\<rparr> = Some (None, tm')"
  using cancel_timeout_once[OF vec_timer.timer_slab_axioms one_timer_inv, of "\<lparr>to_token = Token 0, to_tick = 2\<rparr>"]
  by (auto simp: one_timer_pending)

theorem timer_new_empty_witness:
  "\<exists>tm. timer_new (vec_slab :: (string entry option list, string entry) slab_ops) 100 200 1000 = Some tm \<and>
     timer_inv vec_slab vec_slab_inv tm \<and> 200 \<le> length (tm_wheel tm)"
proof -
  have "unat (200 :: usize) \<le> 2 ^ 63" "unat (1000 :: usize) \<le> 2 ^ 63" by simp_all
  from timer_new_empty[OF vec_timer.timer_slab_axioms this, of 100] show ?thesis by fastforce
qed

text \<open>At 151 ms the timeout asked for 249 ms is due: both are tick 2, the nearest.\<close>

theorem timer_rounding_witness:
  "duration_to_tick \<lparr>as_secs = 0, subsec_nanos = 249000000\<rparr> 100 = Some 2 \<and>
   duration_to_tick \<lparr>as_secs = 0, subsec_nanos = 151000000\<rparr> 100 = Some 2"
proof -
  have m: "unat (millis \<lparr>as_secs = 0, subsec_nanos = 249000000\<rparr>) = 249"
    "unat (millis \<lparr>as_secs = 0, subsec_nanos = 151000000\<rparr>) = 151"
    using millis_nat[of "\<lparr>as_secs = 0, subsec_nanos = 249000000\<rparr>"]
      millis_nat[of "\<lparr>as_secs = 0, subsec_nanos = 151000000\<rparr>"]
    by (simp_all add: duration_ok_def duration_nanos_def)
  have h: "(100 :: u64) \<noteq> 0" "unat ((100 :: u64) div 2) = 50" "unat (100 :: u64) = 100" by simp_all
  have near: "unat k = 2" if "\<bar>2 * (int (unat (k :: tick)) * int 100) - 2 * int x\<bar> \<le> int 100" "x \<in> {151, 249}" for k x
  proof -
    define u where "u = unat k"
    show ?thesis using that unfolding u_def[symmetric] by auto
  qed
  have "unat (millis \<lparr>as_secs = 0, subsec_nanos = 249000000\<rparr>) + unat ((100 :: u64) div 2) < 2 ^ 64"
    "unat (millis \<lparr>as_secs = 0, subsec_nanos = 151000000\<rparr>) + unat ((100 :: u64) div 2) < 2 ^ 64"
    unfolding m h by simp_all
  note r = timer_rounding[OF h(1) this(1), of "\<lparr>as_secs = 0, subsec_nanos = 151000000\<rparr>"]
    timer_rounding[OF h(1) this(2), of "\<lparr>as_secs = 0, subsec_nanos = 151000000\<rparr>"]
  obtain k k' where "duration_to_tick \<lparr>as_secs = 0, subsec_nanos = 249000000\<rparr> 100 = Some k" "unat k = 2"
    "duration_to_tick \<lparr>as_secs = 0, subsec_nanos = 151000000\<rparr> 100 = Some k'" "unat k' = 2"
    using r near[of _ 249] near[of _ 151] unfolding m h(3) by auto
  then show ?thesis by (simp add: word_unat_eq_iff)
qed

end
