(* ===== verification/TimerWakeup.thy ===== *)
theory TimerWakeup
  imports TimerProps
begin

unbundle bit_operations_syntax

section \<open>The registered timer and its wake-up thread\<close>

text \<open>
  \<open>Evented for Timer\<close>, \<open>Drop for Inner\<close> and \<open>spawn_wakeup_thread\<close> of \<open>src/timer.rs\<close>. Registering
  gives the timer a node of the poller's readiness queue, a third handle of which goes to the
  wake-up thread; the two then share the wake-up tick and the thread's park token. The thread
  is a step relation, one step per atomic access or reading of the clock, that runs beside the clock, the stores of
  \<open>schedule_readiness\<close> and of \<open>Drop for Inner\<close> (each followed by its \<open>unpark\<close>) and spurious
  returns of \<open>park\<close>.
\<close>

subsection \<open>Registering\<close>

text \<open>\<open>k\<close> is the address the allocator returns for the node. \<open>None\<close> is a panic.\<close>

definition timer_register ::
    "('s, 't entry) slab_ops \<Rightarrow> 's timer \<times> ('j, 'p) rqueue \<Rightarrow> nat \<Rightarrow> token_entry \<Rightarrow> ready \<Rightarrow> poll_opt
       \<Rightarrow> (unit io_result \<times> 's timer \<times> ('j, 'p) rqueue) option" where
  "timer_register S st k tok interest opts =
     (case st of (tm, q) \<Rightarrow>
        if lc_borrow (tm_inner tm) \<noteq> None
        then Some (Inl (OtherError ''timer alreay registered''), tm, q)
        else do {
          (a, q) \<leftarrow> registration_new q k tok interest opts;
          q \<leftarrow> reg_clone q a;
          let (r, c) = lc_fill (tm_inner tm)
            \<lparr>in_registration = a, in_set_readiness = a, in_wakeup_state = - 1, in_unpark = False\<rparr>;
          case r of
            Inl _ \<Rightarrow> None
          | Inr _ \<Rightarrow>
              do { let tm = tm\<lparr>tm_inner := c\<rparr>;
                   n \<leftarrow> timer_next_tick S tm;
                   Some (Inr (), case n of Some tick \<Rightarrow> schedule_readiness tm tick | None \<Rightarrow> tm, q) } })"

definition not_registered :: io_error where
  "not_registered = OtherError ''receiver not register''"

definition timer_reregister ::
    "'p pipe_ops \<Rightarrow> 's timer \<Rightarrow> ('j, 'p) rqueue \<Rightarrow> token_entry \<Rightarrow> ready \<Rightarrow> poll_opt
       \<Rightarrow> (unit io_result \<times> ('j, 'p) rqueue) option" where
  "timer_reregister P tm q tok interest opts =
     (case lc_borrow (tm_inner tm) of
        Some inner \<Rightarrow> reg_update P q (in_registration inner) tok interest opts
                        (PrintJob ''null reregister for Timer'')
      | None \<Rightarrow> Some (Inl not_registered, q))"

definition timer_deregister ::
    "'p pipe_ops \<Rightarrow> 's timer \<Rightarrow> ('j, 'p) rqueue \<Rightarrow> (unit io_result \<times> ('j, 'p) rqueue) option" where
  "timer_deregister P tm q =
     (case lc_borrow (tm_inner tm) of
        Some inner \<Rightarrow> registration_deregister P q (in_registration inner)
      | None \<Rightarrow> Some (Inl not_registered, q))"

text \<open>Dropping a registered timer: \<open>Drop for Inner\<close>, then the two handles inside it. The thread
  gives back the third when it ends.\<close>

definition inner_drop ::
    "'p pipe_ops \<Rightarrow> timer_inner \<Rightarrow> ('j, 'p) rqueue \<Rightarrow> (timer_inner \<times> ('j, 'p) rqueue) option" where
  "inner_drop P inner q =
     do { let inner = inner\<lparr>in_wakeup_state := TERMINATE_THREAD\<rparr>;
          let inner = inner\<lparr>in_unpark := True\<rparr>;
          q \<leftarrow> registration_drop P q (in_registration inner);
          q \<leftarrow> set_readiness_drop q (in_set_readiness inner);
          Some (inner, q) }"

subsection \<open>The wake-up thread\<close>

text \<open>What the thread does at the top of its loop, where it reads the clock: it returns, parks (for a time
  in milliseconds or without limit), or tries to take the wake-up tick. \<open>None\<close> is a panic.\<close>

datatype wt_action = WtReturn | WtPark "u64 option" | WtTake

definition wakeup_iter :: "u64 \<Rightarrow> duration \<Rightarrow> tick \<Rightarrow> wt_action option" where
  "wakeup_iter tick_ms elapsed sleep_until_tick =
     (if sleep_until_tick = TERMINATE_THREAD then Some WtReturn
      else do { now_tick \<leftarrow> current_tick elapsed tick_ms;
                if now_tick < sleep_until_tick
                then Some (WtPark (checked_mul tick_ms (sleep_until_tick - now_tick)))
                else Some WtTake })"

text \<open>The compare-exchange of the wake-up tick for the largest: its result, and the tick afterwards.\<close>

definition wakeup_exchange :: "usize \<Rightarrow> usize \<Rightarrow> (usize + usize) \<times> usize" where
  "wakeup_exchange state sleep_until_tick = (if state = sleep_until_tick then (Inr state, - 1) else (Inl state, state))"

text \<open>Where the thread is: at the top of the loop, about to exchange the tick, parked (with the time at
  which its wait ends), about to load the tick, about to make the node ready, or gone.\<close>

datatype wt_pc = WtLoop tick | WtExchange tick | WtParked tick "nat option" | WtLoad | WtSet | WtDone

text \<open>The state the thread and its environment share. \<open>wt_unparks\<close> counts the threads that have
  stored a tick and not yet called \<open>unpark\<close>, \<open>wt_ms\<close> is the time since the timer's start in
  milliseconds, \<open>wt_fired\<close> counts the calls of \<open>set_readiness\<close>.\<close>

record wt =
  wt_pc :: wt_pc
  wt_state :: usize
  wt_token :: bool
  wt_unparks :: nat
  wt_ms :: u64
  wt_fired :: nat

definition wt_init :: "u64 \<Rightarrow> wt" where
  "wt_init ms = \<lparr>wt_pc = WtLoad, wt_state = - 1, wt_token = False, wt_unparks = 0, wt_ms = ms, wt_fired = 0\<rparr>"

inductive wt_thread :: "u64 \<Rightarrow> wt \<Rightarrow> wt \<Rightarrow> bool" for tick_ms :: u64 where
  iter_return: "wt_pc w = WtLoop s \<Longrightarrow> wakeup_iter tick_ms (from_millis (wt_ms w)) s = Some WtReturn \<Longrightarrow>
    wt_thread tick_ms w (w\<lparr>wt_pc := WtDone\<rparr>)"
| iter_park: "wt_pc w = WtLoop s \<Longrightarrow> wakeup_iter tick_ms (from_millis (wt_ms w)) s = Some (WtPark d) \<Longrightarrow>
    wt_thread tick_ms w (w\<lparr>wt_pc := WtParked s (map_option (\<lambda>d. unat (wt_ms w) + unat d) d)\<rparr>)"
| iter_take: "wt_pc w = WtLoop s \<Longrightarrow> wakeup_iter tick_ms (from_millis (wt_ms w)) s = Some WtTake \<Longrightarrow>
    wt_thread tick_ms w (w\<lparr>wt_pc := WtExchange s\<rparr>)"
| exchange: "wt_pc w = WtExchange s \<Longrightarrow> wakeup_exchange (wt_state w) s = (r, v) \<Longrightarrow>
    wt_thread tick_ms w (w\<lparr>wt_pc := (case r of Inr _ \<Rightarrow> WtSet | Inl seen \<Rightarrow> WtLoop seen), wt_state := v\<rparr>)"
| set_ready: "wt_pc w = WtSet \<Longrightarrow>
    wt_thread tick_ms w (w\<lparr>wt_pc := WtLoop (- 1), wt_fired := Suc (wt_fired w)\<rparr>)"
| unparked: "wt_pc w = WtParked s d \<Longrightarrow> wt_token w \<or> (\<exists>x. d = Some x \<and> x \<le> unat (wt_ms w)) \<Longrightarrow>
    wt_thread tick_ms w (w\<lparr>wt_pc := WtLoad, wt_token := False\<rparr>)"
| load: "wt_pc w = WtLoad \<Longrightarrow> wt_thread tick_ms w (w\<lparr>wt_pc := WtLoop (wt_state w)\<rparr>)"

text \<open>The stores of others: \<open>schedule_readiness\<close>, of any tick that is lower than the one there, tick zero
  included, and \<open>Drop for Inner\<close>.\<close>

inductive wt_store :: "wt \<Rightarrow> wt \<Rightarrow> bool" where
  schedule: "k < wt_state w \<Longrightarrow> wt_store w (w\<lparr>wt_state := k, wt_unparks := Suc (wt_unparks w)\<rparr>)"
| drop: "wt_store w (w\<lparr>wt_state := TERMINATE_THREAD, wt_unparks := Suc (wt_unparks w)\<rparr>)"

text \<open>Everything else that happens beside the thread.\<close>

inductive wt_env :: "wt \<Rightarrow> wt \<Rightarrow> bool" where
  clock: "wt_ms w \<le> ms \<Longrightarrow> wt_env w (w\<lparr>wt_ms := ms\<rparr>)"
| unpark: "wt_unparks w = Suc n \<Longrightarrow> wt_env w (w\<lparr>wt_token := True, wt_unparks := n\<rparr>)"
| spurious: "wt_pc w = WtParked s d \<Longrightarrow> wt_env w (w\<lparr>wt_pc := WtLoad\<rparr>)"

inductive wt_reach :: "u64 \<Rightarrow> wt \<Rightarrow> bool" for tick_ms :: u64 where
  init: "wt_reach tick_ms (wt_init ms)"
| thread: "wt_reach tick_ms w \<Longrightarrow> wt_thread tick_ms w w' \<Longrightarrow> wt_reach tick_ms w'"
| store: "wt_reach tick_ms w \<Longrightarrow> wt_store w w' \<Longrightarrow> wt_reach tick_ms w'"
| env: "wt_reach tick_ms w \<Longrightarrow> wt_env w w' \<Longrightarrow> wt_reach tick_ms w'"

text \<open>An interleaving with \<open>m\<close> steps of the thread and \<open>j\<close> stores.\<close>

inductive wt_runs :: "u64 \<Rightarrow> wt \<Rightarrow> nat \<Rightarrow> nat \<Rightarrow> wt \<Rightarrow> bool" for tick_ms :: u64 and w :: wt where
  start: "wt_runs tick_ms w 0 0 w"
| thread: "wt_runs tick_ms w m j w1 \<Longrightarrow> wt_thread tick_ms w1 w2 \<Longrightarrow> wt_runs tick_ms w (Suc m) j w2"
| store: "wt_runs tick_ms w m j w1 \<Longrightarrow> wt_store w1 w2 \<Longrightarrow> wt_runs tick_ms w m (Suc j) w2"
| env: "wt_runs tick_ms w m j w1 \<Longrightarrow> wt_env w1 w2 \<Longrightarrow> wt_runs tick_ms w m j w2"

inductive_cases wt_threadE: "wt_thread tick_ms w w'"
inductive_cases wt_storeE: "wt_store w w'"
inductive_cases wt_envE: "wt_env w w'"

subsection \<open>The invariant of the thread\<close>

text \<open>A thread that waits for a later tick than the stored one has a wake-up coming: its park token
  is set or a scheduler is about to set it.\<close>

definition wt_covered :: "wt \<Rightarrow> tick \<Rightarrow> bool" where
  "wt_covered w s \<longleftrightarrow> s \<le> wt_state w \<or> wt_token w \<or> 0 < wt_unparks w"

text \<open>Tick zero, once stored, stays: the thread has found it when it ends.\<close>

definition wt_inv :: "u64 \<Rightarrow> wt \<Rightarrow> bool" where
  "wt_inv tick_ms w \<longleftrightarrow>
     (case wt_pc w of
        WtLoop s \<Rightarrow> wt_covered w s \<and> (s = TERMINATE_THREAD \<longrightarrow> wt_state w = TERMINATE_THREAD)
      | WtExchange s \<Rightarrow> s \<noteq> TERMINATE_THREAD
      | WtParked s d \<Rightarrow> s \<noteq> TERMINATE_THREAD \<and> wt_covered w s \<and> 0 < tick_ms \<and>
          (case d of
             Some x \<Rightarrow> unat s \<le> (2 ^ 64 - 1) div unat tick_ms \<longrightarrow>
               x + unat (tick_ms div 2) < (unat s + 1) * unat tick_ms
           | None \<Rightarrow> 2 ^ 64 \<le> unat tick_ms * unat s)
      | WtLoad \<Rightarrow> True
      | WtSet \<Rightarrow> wt_covered w (- 1)
      | WtDone \<Rightarrow> wt_state w = TERMINATE_THREAD)"

lemma millis_from_millis: "millis (from_millis ms) = ms"
proof -
  have r: "unat (ms mod 1000) < 1000" by (simp add: unat_mod)
  have sub: "unat (subsec_nanos (from_millis ms)) = unat (ms mod 1000) * 1000000"
    using r by (simp add: from_millis_def unat_word_ariths unsigned_ucast_eq take_bit_nat_eq_self)
  have ok: "duration_ok (from_millis ms)"
    using sub r unfolding duration_ok_def by (simp add: word_less_nat_alt)
  have "unat ms div 1000 * 1000000000 + unat ms mod 1000 * 1000000 = unat ms * 1000000"
    using div_mult_mod_eq[of "unat ms" 1000] by linarith
  then have "duration_nanos (from_millis ms) = unat ms * 1000000"
    unfolding duration_nanos_def sub by (simp add: from_millis_def unat_div unat_mod)
  moreover have "unat ms < 2 ^ LENGTH(64)" by (rule unsigned_less)
  ultimately have "unat (millis (from_millis ms)) = unat ms"
    unfolding millis_nat[OF ok] by simp
  then show ?thesis by (simp add: word_unat_eq_iff)
qed

lemma current_tick_ms:
  assumes "current_tick (from_millis ms) tick_ms = Some n"
  shows "0 < unat tick_ms" "unat n = min (unat ms + unat (tick_ms div 2)) (2 ^ 64 - 1) div unat tick_ms"
  using assms by (auto simp: current_tick_def duration_to_tick_def millis_from_millis unat_div
      unat_saturating_add word_unat_eq_iff simp del: min_less_iff_conj split: if_splits)

lemma checked_mul_unat:
  "checked_mul a b = Some c \<Longrightarrow> unat c = unat a * unat b"
  "checked_mul a b = None \<Longrightarrow> 2 ^ 64 \<le> unat a * unat b"
  by (auto simp: checked_mul_def unat_word_ariths split: if_splits)

text \<open>The wait a parking thread begins ends before the tick after the one it waits for.\<close>

lemma park_deadline:
  assumes "wakeup_iter tick_ms (from_millis ms) s = Some (WtPark d)"
  shows "0 < unat tick_ms"
    and "d = Some x \<Longrightarrow> unat s \<le> (2 ^ 64 - 1) div unat tick_ms \<Longrightarrow>
      unat ms + unat x + unat (tick_ms div 2) < (unat s + 1) * unat tick_ms"
    and "d = None \<Longrightarrow> 2 ^ 64 \<le> unat tick_ms * unat s"
proof -
  let ?t = "unat tick_ms" and ?h = "unat (tick_ms div 2)"
  obtain n where n: "current_tick (from_millis ms) tick_ms = Some n" "n < s"
    "d = checked_mul tick_ms (s - n)"
    using assms by (auto simp: wakeup_iter_def bind_Some_iff split: if_splits)
  note t = current_tick_ms[OF n(1)]
  show "0 < ?t" by (rule t(1))
  have un: "unat (s - n) = unat s - unat n" "unat n < unat s"
    using n(2) unat_sub[OF less_imp_le[OF n(2)]] by (simp_all add: word_less_nat_alt)
  show "2 ^ 64 \<le> ?t * unat s" if "d = None"
  proof -
    have "2 ^ 64 \<le> ?t * (unat s - unat n)"
      using checked_mul_unat(2)[of tick_ms "s - n"] that n(3) un by simp
    also have "\<dots> \<le> ?t * unat s" by simp
    finally show ?thesis .
  qed
  show "unat ms + unat x + ?h < (unat s + 1) * ?t"
    if d: "d = Some x" and small: "unat s \<le> (2 ^ 64 - 1) div ?t"
  proof -
    have x: "unat x = ?t * (unat s - unat n)"
      using checked_mul_unat(1)[of tick_ms "s - n"] d n(3) un by simp
    have "unat n < (2 ^ 64 - 1) div ?t" using un(2) small by linarith
    then have "unat ms + ?h \<le> 2 ^ 64 - 1" using t(2) by (auto simp: min_def split: if_splits)
    then have n': "unat n = (unat ms + ?h) div ?t" using t(2) by simp
    have "unat ms + ?h < ?t * unat n + ?t"
      unfolding n' using mult_div_mod_eq[of ?t "unat ms + ?h"] mod_less_divisor[OF t(1), of "unat ms + ?h"] by linarith
    moreover have "?t * unat n + ?t * (unat s - unat n) = ?t * unat s"
      using un(2) by (simp flip: add_mult_distrib2)
    ultimately show ?thesis using x by (simp add: algebra_simps)
  qed
qed

lemma wakeup_iter_zero [simp]:
  "wakeup_iter tick_ms e s = Some WtReturn \<longleftrightarrow> s = TERMINATE_THREAD"
  "wakeup_iter tick_ms e TERMINATE_THREAD = Some WtReturn"
  by (auto simp: wakeup_iter_def bind_Some_iff split: if_splits)

lemma wakeup_iter_awake:
  assumes "wakeup_iter tick_ms e s = Some (WtPark d) \<or> wakeup_iter tick_ms e s = Some WtTake"
  shows "s \<noteq> TERMINATE_THREAD"
  using assms by auto

lemma max_tick_pos: "(0 :: u64) < - 1"
  by (simp add: word_less_nat_alt)

lemma zero_least: "s < TERMINATE_THREAD \<longleftrightarrow> False" "TERMINATE_THREAD \<le> s" "s \<le> TERMINATE_THREAD \<longleftrightarrow> s = TERMINATE_THREAD"
  by (simp_all add: TERMINATE_THREAD_def)

lemma wt_inv_init: "wt_inv tick_ms (wt_init ms)"
  by (simp add: wt_inv_def wt_init_def)

lemma wt_covered_upd [simp]:
  "wt_covered (w\<lparr>wt_pc := p\<rparr>) = wt_covered w" "wt_covered (w\<lparr>wt_ms := m\<rparr>) = wt_covered w"
  "wt_covered (w\<lparr>wt_fired := f\<rparr>) = wt_covered w"
  by (simp_all add: wt_covered_def fun_eq_iff)

lemma wt_thread_inv:
  assumes "wt_thread tick_ms w w'" "wt_inv tick_ms w"
  shows "wt_inv tick_ms w'"
  using assms
proof cases
  case (iter_park s d)
  have "0 < tick_ms" using park_deadline(1)[OF iter_park(3)] by (simp add: word_less_nat_alt)
  then show ?thesis
    using assms(2) iter_park park_deadline[OF iter_park(3)] wakeup_iter_awake[of tick_ms _ s d]
    by (auto simp: wt_inv_def split: option.splits)
next
  case (iter_take s)
  then show ?thesis using wakeup_iter_awake by (auto simp: wt_inv_def)
next
  case (exchange s r v)
  then show ?thesis
    by (auto simp: wt_inv_def wt_covered_def wakeup_exchange_def split: if_splits)
qed (auto simp: wt_inv_def wt_covered_def TERMINATE_THREAD_def)

lemma wt_store_inv:
  assumes "wt_store w w'" "wt_inv tick_ms w"
  shows "wt_inv tick_ms w'"
  using assms by cases (auto simp: wt_inv_def wt_covered_def zero_least split: wt_pc.splits)

lemma wt_env_inv:
  assumes "wt_env w w'" "wt_inv tick_ms w"
  shows "wt_inv tick_ms w'"
  using assms by cases (auto simp: wt_inv_def wt_covered_def split: wt_pc.splits)

lemma wt_reach_inv: "wt_reach tick_ms w \<Longrightarrow> wt_inv tick_ms w"
  by (induction rule: wt_reach.induct) (auto intro: wt_inv_init wt_thread_inv wt_store_inv wt_env_inv)

subsection \<open>Every scheduled tick fires\<close>

text \<open>A wait for a tick that has passed is over.\<close>

lemma parked_expired:
  assumes inv: "wt_inv tick_ms w" and pc: "wt_pc w = WtParked s d" and s: "s < n"
    and now: "current_tick (from_millis (wt_ms w)) tick_ms = Some n"
  shows "\<exists>x. d = Some x \<and> x \<le> unat (wt_ms w)"
proof -
  let ?t = "unat tick_ms" and ?h = "unat (tick_ms div 2)" and ?m = "unat (wt_ms w)"
  note t = current_tick_ms[OF now]
  have sn: "unat s + 1 \<le> unat n" using s by (simp add: word_less_nat_alt)
  have "unat n * ?t \<le> min (?m + ?h) (2 ^ 64 - 1)" unfolding t(2) by (rule div_times_less_eq_dividend)
  moreover have "(unat s + 1) * ?t \<le> unat n * ?t" using sn by (rule mult_le_mono1)
  ultimately have b: "(unat s + 1) * ?t \<le> ?m + ?h" "(unat s + 1) * ?t \<le> 2 ^ 64 - 1" by auto
  have s2: "unat s * ?t \<le> 2 ^ 64 - 1" using b(2) by simp
  then have small: "unat s \<le> (2 ^ 64 - 1) div ?t" using t(1) by (simp add: less_eq_div_iff_mult_less_eq)
  show ?thesis
  proof (cases d)
    case None
    then have "2 ^ 64 \<le> unat s * ?t" using inv pc by (simp add: wt_inv_def mult.commute)
    then show ?thesis using s2 by simp
  next
    case (Some x)
    then have "x + ?h < (unat s + 1) * ?t" using inv pc small by (simp add: wt_inv_def)
    then show ?thesis using Some b(1) by simp
  qed
qed

text \<open>A thread that has something to do: the stored tick has passed or is that of termination, and a
  later tick it waits for will not hold it up.\<close>

definition wt_due :: "tick \<Rightarrow> tick \<Rightarrow> bool" where
  "wt_due n s \<longleftrightarrow> s < n \<or> s = TERMINATE_THREAD"

definition wt_awaited :: "u64 \<Rightarrow> tick \<Rightarrow> wt \<Rightarrow> bool" where
  "wt_awaited tick_ms n w \<longleftrightarrow> wt_inv tick_ms w \<and>
     (\<exists>now. current_tick (from_millis (wt_ms w)) tick_ms = Some now \<and> n \<le> now) \<and>
     (wt_pc w = WtSet \<or> wt_pc w \<noteq> WtDone \<and> wt_due n (wt_state w))"

text \<open>The steps that are left to it before it fires or ends, if nothing is stored meanwhile.\<close>

fun wt_left :: "wt_pc \<Rightarrow> usize \<Rightarrow> nat" where
  "wt_left WtDone st = 0"
| "wt_left WtSet st = 1"
| "wt_left (WtExchange s) st = (if s = st then 2 else 4)"
| "wt_left (WtLoop s) st = (if s = st then 3 else 6)"
| "wt_left WtLoad st = 4"
| "wt_left (WtParked s d) st = 5"

lemma current_tick_mono:
  assumes "current_tick (from_millis ms) tick_ms = Some n" "ms \<le> ms'"
  shows "\<exists>n'. current_tick (from_millis ms') tick_ms = Some n' \<and> n \<le> n'"
proof -
  have t: "tick_ms \<noteq> 0" using current_tick_ms(1)[OF assms(1)] by auto
  then obtain n' where n': "current_tick (from_millis ms') tick_ms = Some n'"
    by (simp add: current_tick_def duration_to_tick_def)
  have "unat n \<le> unat n'"
    unfolding current_tick_ms(2)[OF assms(1)] current_tick_ms(2)[OF n']
    using assms(2) by (intro div_le_mono min.mono) (simp_all add: word_le_nat_alt)
  then show ?thesis using n' by (simp add: word_le_nat_alt)
qed

lemma awaited_env:
  assumes "wt_env w w'" "wt_awaited tick_ms n w"
  shows "wt_awaited tick_ms n w' \<and> wt_fired w' = wt_fired w \<and>
    wt_left (wt_pc w') (wt_state w') \<le> wt_left (wt_pc w) (wt_state w)"
proof -
  note i = wt_env_inv[OF assms(1), of tick_ms]
  obtain now where now: "current_tick (from_millis (wt_ms w)) tick_ms = Some now" "n \<le> now"
    using assms(2) unfolding wt_awaited_def by blast
  from assms(1) show ?thesis
  proof cases
    case (clock ms)
    then obtain now' where "current_tick (from_millis ms) tick_ms = Some now'" "now \<le> now'"
      using current_tick_mono[OF now(1)] by blast
    then show ?thesis using i assms(2) now clock by (auto simp: wt_awaited_def)
  qed (use i assms(2) in \<open>auto simp: wt_awaited_def\<close>)
qed

lemma awaited_store:
  assumes "wt_store w w'" "wt_awaited tick_ms n w"
  shows "wt_awaited tick_ms n w' \<and> wt_fired w' = wt_fired w \<and>
    wt_left (wt_pc w') (wt_state w') \<le> wt_left (wt_pc w) (wt_state w) + 3"
proof -
  have d: "wt_due n (wt_state w) \<Longrightarrow> wt_due n (wt_state w')" "wt_pc w' = wt_pc w" "wt_fired w' = wt_fired w" "wt_ms w' = wt_ms w"
    using assms(1) by (auto simp: wt_due_def zero_least elim!: wt_storeE)
  moreover have "wt_left p a \<le> wt_left p b + 3" for p a b by (cases p) auto
  ultimately show ?thesis using wt_store_inv[OF assms(1)] assms(2) by (auto simp: wt_awaited_def)
qed

lemma awaited_thread:
  assumes "wt_thread tick_ms w w'" "wt_awaited tick_ms n w"
  shows "wt_fired w < wt_fired w' \<or> wt_pc w' = WtDone \<or>
    wt_awaited tick_ms n w' \<and> wt_fired w' = wt_fired w \<and>
    Suc (wt_left (wt_pc w') (wt_state w')) \<le> wt_left (wt_pc w) (wt_state w)"
proof -
  obtain now where now: "current_tick (from_millis (wt_ms w)) tick_ms = Some now" "n \<le> now"
    using assms(2) unfolding wt_awaited_def by blast
  note i = wt_thread_inv[OF assms(1)]
  from assms(1) show ?thesis
  proof cases
    case (iter_park s d)
    have "now < s" using iter_park(3) now(1) by (auto simp: wakeup_iter_def split: if_splits)
    moreover have "s \<noteq> TERMINATE_THREAD" using iter_park(3) wakeup_iter_awake by blast
    moreover have "wt_due n (wt_state w)" using assms(2) iter_park(2) by (simp add: wt_awaited_def)
    ultimately have "s \<noteq> wt_state w" using now(2) by (auto simp: wt_due_def)
    then show ?thesis using i assms(2) iter_park by (auto simp: wt_awaited_def)
  next
    case (exchange s r v)
    then show ?thesis using i assms(2) by (auto simp: wt_awaited_def wakeup_exchange_def split: if_splits)
  qed (use i assms(2) in \<open>auto simp: wt_awaited_def\<close>)
qed

text \<open>It can go on, or an \<open>unpark\<close> is still to come.\<close>

lemma awaited_enabled:
  assumes "wt_awaited tick_ms n w"
  shows "(\<exists>w'. wt_thread tick_ms w w') \<or> 0 < wt_unparks w"
proof -
  have inv: "wt_inv tick_ms w" using assms by (simp add: wt_awaited_def)
  obtain now where now: "current_tick (from_millis (wt_ms w)) tick_ms = Some now" "n \<le> now"
    using assms unfolding wt_awaited_def by blast
  show ?thesis
  proof (cases "wt_pc w")
    case (WtLoop s)
    have "\<exists>a. wakeup_iter tick_ms (from_millis (wt_ms w)) s = Some a" using now(1) by (simp add: wakeup_iter_def)
    then obtain a where "wakeup_iter tick_ms (from_millis (wt_ms w)) s = Some a" ..
    then show ?thesis using wt_thread.intros(1-3)[OF WtLoop, of tick_ms] by (cases a) blast+
  next
    case (WtExchange s)
    then show ?thesis using wt_thread.exchange[OF WtExchange] by (metis surj_pair)
  next
    case (WtParked s d)
    show ?thesis
    proof (cases "wt_token w \<or> 0 < wt_unparks w")
      case True
      then show ?thesis
      proof
        assume "wt_token w"
        then have "wt_thread tick_ms w (w\<lparr>wt_pc := WtLoad, wt_token := False\<rparr>)"
          by (intro wt_thread.unparked[OF WtParked] disjI1)
        then show ?thesis by blast
      qed simp
    next
      case False
      then have "s \<le> wt_state w" "s \<noteq> TERMINATE_THREAD" using inv WtParked by (auto simp: wt_inv_def wt_covered_def)
      then have "s < now" using assms now(2) WtParked by (auto simp: wt_awaited_def wt_due_def zero_least)
      from parked_expired[OF inv WtParked this now(1)] show ?thesis using wt_thread.unparked[OF WtParked, of tick_ms] by blast
    qed
  next
    case WtLoad
    then show ?thesis using wt_thread.load by blast
  next
    case WtSet
    then show ?thesis using wt_thread.set_ready by blast
  next
    case WtDone
    then show ?thesis using assms by (simp add: wt_awaited_def)
  qed
qed

lemma wt_done_stays: "wt_pc w = WtDone \<Longrightarrow> \<not> wt_thread tick_ms w w'"
  by (auto elim: wt_threadE)

lemma wt_runs_inv: "wt_runs tick_ms w m j w' \<Longrightarrow> wt_inv tick_ms w \<Longrightarrow> wt_inv tick_ms w'"
  by (induction rule: wt_runs.induct) (auto intro: wt_thread_inv wt_store_inv wt_env_inv)

lemma fired_mono: "wt_thread tick_ms w w' \<or> wt_store w w' \<or> wt_env w w' \<Longrightarrow> wt_fired w \<le> wt_fired w'"
  by (auto elim!: wt_threadE wt_storeE wt_envE)

lemma runs_awaited:
  assumes "wt_runs tick_ms w m j w'" "wt_awaited tick_ms n w"
  shows "wt_fired w < wt_fired w' \<or> wt_pc w' = WtDone \<or>
    wt_awaited tick_ms n w' \<and> wt_fired w' = wt_fired w \<and>
    m + wt_left (wt_pc w') (wt_state w') \<le> wt_left (wt_pc w) (wt_state w) + 3 * j"
  using assms
proof (induction rule: wt_runs.induct)
  case (thread m j w1 w2)
  then show ?case using awaited_thread[OF thread(2), of n] fired_mono wt_done_stays[of w1 tick_ms w2] by fastforce
next
  case (store m j w1 w2)
  then have "wt_pc w2 = wt_pc w1" by (auto elim: wt_storeE)
  then show ?case using store awaited_store[OF store(2), of tick_ms n] fired_mono[of tick_ms w1 w2] by fastforce
next
  case (env m j w1 w2)
  have "wt_pc w1 = WtDone \<Longrightarrow> wt_pc w2 = WtDone" using env(2) by (auto elim: wt_envE)
  then show ?case using env awaited_env[OF env(2), of tick_ms n] fired_mono[of tick_ms w1 w2] by fastforce
qed simp

subsection \<open>A registered timer is armed\<close>

text \<open>The node of a registration with an extra handle on it.\<close>

lemma register_node:
  assumes inv: "reg_inv q cs H" and free: "rq_heap q (Node k) = None"
    and args: "ready_bits interest \<le> MASK_4" "opt_bits opts \<le> MASK_4"
  shows "\<exists>q1 q2. registration_new q k tok interest opts = Some (Node k, q1) \<and>
    reg_clone q1 (Node k) = Some q2 \<and> reg_inv q2 cs (H(k := 3)) \<and> rq_heap q2 (Node k) \<noteq> None"
proof -
  obtain q1 where q1: "registration_new q k tok interest opts = Some (Node k, q1)" "reg_inv q1 cs (H(k := 2))"
    using new_inv[OF inv free args] by blast
  obtain n where n: "rq_heap q1 (Node k) = Some n" "nd_ref_count n = 3"
    using q1(1) by (auto simp: registration_new_def node_new_def bind_Some_iff split: if_splits)
  have "unat (nd_ref_count n) < 2 ^ 63" using n(2) by simp
  from clone_inv[OF q1(2) n(1) this] obtain q2 where q2: "reg_clone q1 (Node k) = Some q2"
    "reg_inv q2 cs (H(k := 3))" by (auto simp: numeral_3_eq_3)
  moreover have "rq_heap q2 (Node k) \<noteq> None"
    using q2(1) n(1) by (auto simp: reg_clone_def node_modify_def Let_def split: if_splits)
  ultimately show ?thesis using q1(1) by blast
qed

context timer_slab
begin

lemma register_arms:
  assumes inv: "timer_inv S sok tm" and idle: "tm_next tm = EMPTY" and new: "tm_inner tm = lc_new"
    and q: "reg_inv q cs H" and free: "rq_heap q (Node k) = None"
    and args: "ready_bits interest \<le> MASK_4" "opt_bits opts \<le> MASK_4"
  shows "\<exists>tm' q'. timer_register S (tm, q) k tok interest opts = Some (Inr (), tm', q') \<and>
    timer_inv S sok tm' \<and> pending S tm' = pending S tm \<and> reg_inv q' cs (H(k := 3)) \<and>
    inner_live tm' q' \<and> armed S tm' \<and> lc_filled (tm_inner tm')"
proof -
  obtain q1 q2 where n: "registration_new q k tok interest opts = Some (Node k, q1)"
    "reg_clone q1 (Node k) = Some q2" "reg_inv q2 cs (H(k := 3))" "rq_heap q2 (Node k) \<noteq> None"
    using register_node[OF q free args] by blast
  let ?i = "\<lparr>in_registration = Node k, in_set_readiness = Node k, in_wakeup_state = - 1, in_unpark = False\<rparr>"
  define tm1 where "tm1 = tm\<lparr>tm_inner := \<lparr>lc_inner = Some ?i\<rparr>\<rparr>"
  obtain L xs ys where w: "wheel_inv S sok tm L xs ys" and nm: "none_missed S tm ys"
    and ct: "counted S tm (set ys)" using inv by (auto simp: timer_inv_def)
  have "EMPTY \<notin> set (L (slot_for tm (tm_tick tm)))"
    using w lists_okD(8) lists_okD(1) unfolding wheel_inv_def by blast
  then have ys: "ys = []" using w idle by (cases ys) (auto simp: wheel_inv_def)
  have "wheel_inv S sok tm1 L xs ys" "counted S tm1 {}" using w ct ys by (simp_all add: tm1_def)
  moreover have "none_before S tm1"
    using nm ys by (fastforce simp: tm1_def none_missed_def none_before_def)
  ultimately obtain t0 where t0: "timer_next_tick S tm1 = Some (Some t0)"
    "\<And>t e. ents S (tm_entries tm1) t = Some e \<Longrightarrow> t0 \<le> entry_tick e"
    using next_tick_spec by blast
  let ?tm' = "schedule_readiness tm1 t0"
  have run: "timer_register S (tm, q) k tok interest opts = Some (Inr (), ?tm', q2)"
    using n(1,2) t0(1) new
    by (simp add: timer_register_def lc_borrow_def lc_fill_def lc_new_def tm1_def)
  have b: "lc_borrow (tm_inner tm1) = Some ?i" by (simp add: tm1_def lc_borrow_def)
  obtain i' where i': "lc_borrow (tm_inner ?tm') = Some i'" "in_wakeup_state i' = min (- 1) t0"
    "in_set_readiness i' = Node k" using schedule_tick(2)[OF b, of t0] by auto
  have "armed S ?tm'"
    unfolding armed_def
  proof (intro allI impI)
    fix j t kk st assume j: "lc_borrow (tm_inner ?tm') = Some j" "pending S ?tm' t = Some (kk, st)"
    then have "pending S tm1 t = Some (kk, st)" by simp
    then obtain e where "ents S (tm_entries tm1) t = Some e" "entry_tick e = kk"
      by (auto simp: pending_ents)
    then have "t0 \<le> kk" using t0(2) by blast
    then show "in_wakeup_state j \<le> kk" using i' j(1) by (simp add: min.coboundedI2)
  qed
  moreover have "inner_live ?tm' q2" using i' n(4) by (simp add: inner_live_def)
  moreover have "lc_filled (tm_inner ?tm')" using i'(1) by (simp add: lc_filled_def lc_borrow_def)
  moreover have "timer_inv S sok ?tm'" "pending S ?tm' = pending S tm" using inv by (simp_all add: tm1_def)
  ultimately show ?thesis using run n(3) by blast
qed

end

subsection \<open>Dropping a registered timer\<close>

lemma inner_drop_inv:
  assumes inv: "reg_inv q cs H" and i: "in_registration i = Node k" "in_set_readiness i = Node k"
    and n: "rq_heap q (Node k) = Some n" and h: "2 \<le> H k" and live: "\<not> v_dropped (rs_view (nd_state n))"
  shows "\<exists>i' q' cs'. inner_drop P i q = Some (i', q') \<and> in_wakeup_state i' = TERMINATE_THREAD \<and> in_unpark i' \<and>
    reg_inv q' cs' (H(k := H k - 2)) \<and> length cs' \<le> Suc (length cs) \<and>
    (\<forall>n'. rq_heap q' (Node k) = Some n' \<longrightarrow> v_dropped (rs_view (nd_state n')))"
proof -
  have "0 < H k" using h by simp
  from registration_drop_inv[OF inv n this live, of P] obtain q1 where
    q1: "registration_drop P q (Node k) = Some q1"
      "reg_inv q1 (if Node k \<in> set cs \<or> nd_queue n = None then cs else cs @ [Node k]) (H(k := H k - 1))"
      "\<forall>n'. rq_heap q1 (Node k) = Some n' \<longrightarrow> v_dropped (rs_view (nd_state n'))" by blast
  let ?cs = "if Node k \<in> set cs \<or> nd_queue n = None then cs else cs @ [Node k]"
  have "0 < (H(k := H k - 1)) k" using h by simp
  from release_handle_inv[OF q1(2) this] obtain q2 where
    q2: "release_node q1 (Node k) = Some q2" "reg_inv q2 ?cs (H(k := H k - 1, k := (H(k := H k - 1)) k - 1))"
      "\<forall>n'. rq_heap q2 (Node k) = Some n' \<longrightarrow> (\<exists>n. rq_heap q1 (Node k) = Some n \<and> nd_state n' = nd_state n)" by blast
  have "H(k := H k - 1, k := (H(k := H k - 1)) k - 1) = H(k := H k - 2)" by (simp add: numeral_2_eq_2)
  moreover have "\<forall>n'. rq_heap q2 (Node k) = Some n' \<longrightarrow> v_dropped (rs_view (nd_state n'))"
    using q1(3) q2(3) by metis
  moreover have "length ?cs \<le> Suc (length cs)" by simp
  moreover have "inner_drop P i q = Some (i\<lparr>in_wakeup_state := TERMINATE_THREAD, in_unpark := True\<rparr>, q2)"
    using q1(1) q2(1) i by (simp add: inner_drop_def set_readiness_drop_def)
  ultimately show ?thesis using q2(2)
    by (intro exI[of _ "i\<lparr>in_wakeup_state := TERMINATE_THREAD, in_unpark := True\<rparr>"] exI[of _ q2] exI[of _ ?cs]) simp
qed

text \<open>The last handle on a node whose registration has been dropped is given back.\<close>

lemma last_handle:
  assumes inv: "reg_inv q cs H" and h: "H k = 1" and dr: "\<forall>n. rq_heap q (Node k) = Some n \<longrightarrow> v_dropped (rs_view (nd_state n))"
  shows "\<exists>q'. set_readiness_drop q (Node k) = Some q' \<and> reg_inv q' cs (H(k := 0)) \<and>
    (\<forall>n. rq_heap q' (Node k) = Some n \<longrightarrow> v_dropped (rs_view (nd_state n)))"
proof -
  have "0 < H k" using h by simp
  from release_handle_inv[OF inv this] obtain q' where
    "release_node q (Node k) = Some q'" "reg_inv q' cs (H(k := H k - 1))"
    "\<forall>n'. rq_heap q' (Node k) = Some n' \<longrightarrow> (\<exists>n. rq_heap q (Node k) = Some n \<and> nd_state n' = nd_state n)" by blast
  then show ?thesis using dr h unfolding set_readiness_drop_def by (metis diff_self_eq_0)
qed

lemma poll_then_last:
  assumes inv: "reg_inv q cs H" and h: "H k = 1" and dr: "\<forall>n. rq_heap q (Node k) = Some n \<longrightarrow> v_dropped (rs_view (nd_state n))"
    and room: "length cs \<le> events_capacity dst - events_len dst"
  shows "\<exists>q1 dst1 q2. rqueue_poll q dst = Some (q1, dst1) \<and> set_readiness_drop q1 (Node k) = Some q2 \<and> rq_heap q2 (Node k) = None"
proof -
  have v: "visited (rq_heap q) (events_capacity dst - events_len dst) cs = cs" using room by (rule visited_all)
  obtain n where n: "rq_heap q (Node k) = Some n" using inv h nodes_okD(2)[of q "set cs" H k] by (auto simp: reg_inv_def)
  have vd: "v_dropped (rs_view (nd_state n))" using dr n by blast
  obtain q1 dst1 where q1: "rqueue_poll q dst = Some (q1, dst1)" "reg_inv q1 (poll_kept (rq_heap q) cs) H"
    "\<forall>b. b \<notin> set cs \<longrightarrow> same_node q q1 b"
    "\<forall>k n. Node k \<in> set cs \<and> rq_heap q (Node k) = Some n \<and> v_dropped (rs_view (nd_state n)) \<longrightarrow>
       map_option nd_state (rq_heap q1 (Node k)) = (if H k = 0 then None else Some (nd_state n))"
    using rqueue_poll_inv[OF inv refl, of dst, unfolded v] by auto
  have "map_option nd_state (rq_heap q1 (Node k)) = Some (nd_state n)"
  proof (cases "Node k \<in> set cs")
    case True
    then have "map_option nd_state (rq_heap q1 (Node k)) = (if H k = 0 then None else Some (nd_state n))"
      using q1(4) n vd by blast
    then show ?thesis using h by simp
  next
    case False
    then have "same_node q q1 (Node k)" using q1(3) by blast
    then show ?thesis using same_node_state[of q q1 "Node k"] n by simp
  qed
  then have dr1: "\<forall>n. rq_heap q1 (Node k) = Some n \<longrightarrow> v_dropped (rs_view (nd_state n))" using vd by auto
  obtain q2 where q2: "set_readiness_drop q1 (Node k) = Some q2" "reg_inv q2 (poll_kept (rq_heap q) cs) (H(k := 0))"
    "\<forall>n. rq_heap q2 (Node k) = Some n \<longrightarrow> v_dropped (rs_view (nd_state n))"
    using last_handle[OF q1(2) h dr1] by blast
  have "Node k \<notin> set (poll_kept (rq_heap q) cs)" using n vd by (simp add: poll_kept_def node_stays_def node_reports_def)
  moreover have "length (poll_kept (rq_heap q) cs) \<le> events_capacity dst - events_len dst"
    using room by (auto simp: poll_kept_def intro: order_trans[OF length_filter_le])
  ultimately have "rq_heap q2 (Node k) = None" using poll_frees(1)[OF q2(2) _ q2(3)] by simp
  then show ?thesis using q1(1) q2(1) by blast
qed

subsection \<open>Properties\<close>

text \<open>Registering a timer at rest gives it a live node with three handles and arms it: the wake-up
  tick is no later than any pending timeout, also of those set before it was registered.\<close>

theorem timer_register_arms:
  assumes "timer_slab S sok" and "timer_inv S sok tm" and "tm_next tm = EMPTY" and "tm_inner tm = lc_new"
    and "reg_inv q cs H" and "rq_heap q (Node k) = None"
    and "ready_bits interest \<le> MASK_4" and "opt_bits opts \<le> MASK_4"
  shows "\<exists>tm' q'. timer_register S (tm, q) k tok interest opts = Some (Inr (), tm', q') \<and>
    timer_inv S sok tm' \<and> pending S tm' = pending S tm \<and> reg_inv q' cs (H(k := 3)) \<and>
    inner_live tm' q' \<and> armed S tm' \<and> lc_filled (tm_inner tm')"
  by (rule timer_slab.register_arms[OF assms])

theorem timer_register_arms_witness:
  "\<exists>tm' q'. timer_register vec_slab (one_timer, fresh_queue) 0 null_token ready_readable opt_edge =
      Some (Inr (), tm', q') \<and> inner_live tm' q' \<and> armed vec_slab tm'"
proof -
  have next0: "tm_next one_timer = EMPTY" by (simp add: one_timer_def small_timer_def)
  show ?thesis
    using timer_register_arms[OF vec_timer.timer_slab_axioms one_timer_inv next0 one_timer_inner(1)
        fresh_queue_inv fresh_queue_free ready_readable_fits] by blast
qed

text \<open>C18. No stored wake-up tick is lost, whatever the interleaving. From every state of the thread and its
  environment in which the stored tick has passed, or is \<open>TERMINATE_THREAD\<close>, and the thread has not ended:
  in every continuation with \<open>m\<close> steps of the thread and \<open>j\<close> further stores of ticks, the thread has made the node
  ready, or it has ended and the stored tick is \<open>TERMINATE_THREAD\<close>, or it has made at most \<open>6 + 3 j\<close> steps and
  can go on unless it waits for an \<open>unpark\<close> that a scheduler is about to call. (Tick zero is the code of
  termination and also a tick that \<open>set_timeout_at\<close> can schedule; see \<open>tick_zero_kills_wakeup\<close>.)\<close>

theorem wakeup_fires:
  assumes "wt_reach tick_ms w" and "wt_pc w \<noteq> WtDone"
    and "current_tick (from_millis (wt_ms w)) tick_ms = Some n"
    and "wt_state w < n \<or> wt_state w = TERMINATE_THREAD"
    and "wt_runs tick_ms w m j w'"
  shows "wt_fired w < wt_fired w' \<or>
    wt_pc w' = WtDone \<and> wt_state w' = TERMINATE_THREAD \<or>
    m \<le> 6 + 3 * j \<and> ((\<exists>w''. wt_thread tick_ms w' w'') \<or> 0 < wt_unparks w')"
proof -
  have inv: "wt_inv tick_ms w" "wt_inv tick_ms w'"
    using wt_reach_inv[OF assms(1)] wt_runs_inv[OF assms(5)] by blast+
  have "wt_awaited tick_ms n w" using inv(1) assms(2-4) by (simp add: wt_awaited_def wt_due_def)
  from runs_awaited[OF assms(5) this] show ?thesis
  proof (elim disjE conjE)
    assume "wt_pc w' = WtDone"
    then show ?thesis using inv(2) by (simp add: wt_inv_def)
  next
    assume a: "wt_awaited tick_ms n w'"
      "m + wt_left (wt_pc w') (wt_state w') \<le> wt_left (wt_pc w) (wt_state w) + 3 * j"
    have "wt_left (wt_pc w) (wt_state w) \<le> 6" by (cases "wt_pc w") auto
    then have "m \<le> 6 + 3 * j" using a(2) by linarith
    then show ?thesis using awaited_enabled[OF a(1)] by blast
  qed blast
qed

text \<open>A tick scheduled while the thread starts, seen at 1000 ms.\<close>

definition wt_late :: wt where
  "wt_late = (wt_init 1000)\<lparr>wt_state := 1, wt_unparks := 1\<rparr>"

lemma wt_late_reach: "wt_reach 100 wt_late"
proof -
  have "wt_store (wt_init 1000) ((wt_init 1000)\<lparr>wt_state := 1, wt_unparks := Suc (wt_unparks (wt_init 1000))\<rparr>)"
    by (rule wt_store.schedule) (simp add: wt_init_def word_less_nat_alt)
  from wt_reach.store[OF wt_reach.init this] show ?thesis by (simp add: wt_late_def wt_init_def)
qed

lemma wt_late_now: "current_tick (from_millis (wt_ms wt_late)) 100 = Some 10"
  by (simp add: wt_late_def wt_init_def current_tick_def duration_to_tick_def millis_from_millis saturating_add_def)

theorem wakeup_fires_witness:
  "(\<exists>w'. wt_runs 100 wt_late 4 0 w' \<and> wt_fired w' = 1) \<and>
   (\<nexists>w'. wt_runs 100 wt_late 7 0 w' \<and> wt_fired w' = 0 \<and> wt_state w' \<noteq> TERMINATE_THREAD)"
proof
  have l: "wt_pc wt_late = WtLoad" "wt_state wt_late = 1" "wt_fired wt_late = 0" "wt_ms wt_late = 1000"
    by (simp_all add: wt_late_def wt_init_def)
  let ?w1 = "wt_late\<lparr>wt_pc := WtLoop (wt_state wt_late)\<rparr>"
  let ?w2 = "?w1\<lparr>wt_pc := WtExchange 1\<rparr>"
  let ?w3 = "?w2\<lparr>wt_pc := WtSet, wt_state := - 1\<rparr>"
  have 1: "wt_thread 100 wt_late ?w1" using l by (intro wt_thread.load)
  have "wakeup_iter 100 (from_millis (wt_ms ?w1)) 1 = Some WtTake"
    using wt_late_now by (simp add: wakeup_iter_def TERMINATE_THREAD_def)
  then have 2: "wt_thread 100 ?w1 ?w2" using l by (intro wt_thread.iter_take) simp_all
  have 3: "wt_thread 100 ?w2 ?w3"
    using wt_thread.exchange[of ?w2 1 "Inr 1" "- 1" 100] l by (simp add: wakeup_exchange_def)
  have 4: "wt_thread 100 ?w3 (?w3\<lparr>wt_pc := WtLoop (- 1), wt_fired := Suc (wt_fired ?w3)\<rparr>)" by (rule wt_thread.set_ready) simp
  have "wt_runs 100 wt_late (Suc (Suc (Suc (Suc 0)))) 0 (?w3\<lparr>wt_pc := WtLoop (- 1), wt_fired := Suc (wt_fired ?w3)\<rparr>)"
    by (rule wt_runs.thread[OF wt_runs.thread[OF wt_runs.thread[OF wt_runs.thread[OF wt_runs.start 1] 2] 3] 4])
  moreover have "Suc (Suc (Suc (Suc 0))) = 4" by simp
  ultimately show "\<exists>w'. wt_runs 100 wt_late 4 0 w' \<and> wt_fired w' = 1" using l(3) by force
  have d: "wt_pc wt_late \<noteq> WtDone" "wt_state wt_late < 10 \<or> wt_state wt_late = TERMINATE_THREAD"
    using l by (simp_all add: word_less_nat_alt)
  show "\<nexists>w'. wt_runs 100 wt_late 7 0 w' \<and> wt_fired w' = 0 \<and> wt_state w' \<noteq> TERMINATE_THREAD"
    using wakeup_fires[OF wt_late_reach d(1) wt_late_now d(2)] l(3) by fastforce
qed

text \<open>C31. Dropping a registered timer leaks nothing. \<open>Drop for Inner\<close> stores \<open>TERMINATE_THREAD\<close>, calls \<open>unpark\<close> and gives
  back two of the three handles on the timer's node, first the registration, which flags and queues it; the node stays for
  the thread. The thread gives back the third when it ends, and the node is freed in whichever order that and the next
  poll with room come.\<close>

theorem timer_node_freed:
  assumes "reg_inv q cs H" and "in_registration i = Node k" and "in_set_readiness i = Node k"
    and "rq_heap q (Node k) = Some n" and "H k = 3" and "\<not> rs_is_dropped (nd_state n)"
    and "length cs < events_capacity dst - events_len dst"
  shows "\<exists>i' q1. inner_drop P i q = Some (i', q1) \<and> in_wakeup_state i' = TERMINATE_THREAD \<and> in_unpark i' \<and>
    rq_heap q1 (Node k) \<noteq> None \<and>
    (\<exists>q2 q3 dst3. set_readiness_drop q1 (Node k) = Some q2 \<and> rqueue_poll q2 dst = Some (q3, dst3) \<and>
       rq_heap q3 (Node k) = None) \<and>
    (\<exists>q2 dst2 q3. rqueue_poll q1 dst = Some (q2, dst2) \<and> set_readiness_drop q2 (Node k) = Some q3 \<and>
       rq_heap q3 (Node k) = None)"
proof -
  have h: "2 \<le> H k" and live: "\<not> v_dropped (rs_view (nd_state n))" using assms(5,6) by simp_all
  obtain i' q1 cs1 where d: "inner_drop P i q = Some (i', q1)" "in_wakeup_state i' = TERMINATE_THREAD" "in_unpark i'"
    "reg_inv q1 cs1 (H(k := H k - 2))" "length cs1 \<le> Suc (length cs)"
    "\<forall>n'. rq_heap q1 (Node k) = Some n' \<longrightarrow> v_dropped (rs_view (nd_state n'))"
    using inner_drop_inv[OF assms(1-4) h live] by blast
  have one: "(H(k := H k - 2)) k = 1" using assms(5) by simp
  have room: "length cs1 \<le> events_capacity dst - events_len dst" using d(5) assms(7) by simp
  have there: "rq_heap q1 (Node k) \<noteq> None"
    using d(4) one nodes_okD(2)[of q1 "set cs1" "H(k := H k - 2)" k] by (auto simp: reg_inv_def)
  obtain q2 where q2: "set_readiness_drop q1 (Node k) = Some q2" "reg_inv q2 cs1 (H(k := H k - 2, k := 0))"
    "\<forall>n. rq_heap q2 (Node k) = Some n \<longrightarrow> v_dropped (rs_view (nd_state n))"
    using last_handle[OF d(4) one d(6)] by blast
  have "(H(k := H k - 2, k := 0)) k = 0" by simp
  from poll_frees(2)[OF q2(2) this q2(3) room] obtain q3 dst3 where
    "rqueue_poll q2 dst = Some (q3, dst3)" "rq_heap q3 (Node k) = None" by blast
  then show ?thesis using d(1-3) there q2(1) poll_then_last[OF d(4) one d(6) room] by blast
qed

theorem timer_node_freed_witness:
  "\<exists>q q' i' q1 q2 dst2 q3. registration_new fresh_queue 0 null_token ready_readable opt_edge = Some (Node 0, q) \<and>
     reg_clone q (Node 0) = Some q' \<and>
     inner_drop (count_pipe 65536) \<lparr>in_registration = Node 0, in_set_readiness = Node 0, in_wakeup_state = - 1, in_unpark = False\<rparr>
       q' = Some (i', q1) \<and>
     rqueue_poll q1 (events_with_capacity 4) = Some (q2, dst2) \<and>
     set_readiness_drop q2 (Node 0) = Some q3 \<and> rq_heap q3 (Node 0) = None"
proof -
  let ?i = "\<lparr>in_registration = Node 0, in_set_readiness = Node 0, in_wakeup_state = - 1, in_unpark = False\<rparr>"
  obtain q q' where r: "registration_new fresh_queue 0 null_token ready_readable opt_edge = Some (Node 0, q)"
    "reg_clone q (Node 0) = Some q'" "reg_inv q' [] ((\<lambda>_. 0)(0 := 3))"
    using register_node[OF fresh_queue_inv fresh_queue_free ready_readable_fits] by blast
  obtain st where st: "rs_new ready_readable opt_edge = Some st" "\<not> rs_is_dropped st"
    using view_new[OF ready_readable_fits] by auto
  obtain n where n: "rq_heap q' (Node 0) = Some n" "nd_state n = st"
    using r(1,2) st(1) by (auto simp: registration_new_def node_new_def reg_clone_def node_modify_def Let_def bind_Some_iff split: if_splits)
  have room: "length ([] :: addr list) < events_capacity (events_with_capacity 4) - events_len (events_with_capacity 4 :: string events)"
    by (simp add: events_with_capacity_def events_capacity_def events_len_def)
  have h: "((\<lambda>_. 0)(0 := 3)) (0 :: nat) = (3 :: nat)" and live: "\<not> rs_is_dropped (nd_state n)" using n(2) st(2) by simp_all
  have i: "in_registration ?i = Node 0" "in_set_readiness ?i = Node 0" by simp_all
  from timer_node_freed[OF r(3) i n(1) h live room, of "count_pipe 65536"] r(1,2) show ?thesis by blast
qed

text \<open>Tick zero is the code for termination: a timeout without delay, set on a registered timer that
  has just been started, stores it as the wake-up tick. The thread returns, and since every
  later tick is larger nothing is scheduled any more.\<close>

theorem tick_zero_kills_wakeup:
  "\<exists>to tm1 i1. set_timeout_at vec_slab (small_timer \<lparr>lc_inner = Some i\<rparr>) duration_zero ''t'' = Some (Inr to, tm1) \<and>
     lc_borrow (tm_inner tm1) = Some i1 \<and> in_wakeup_state i1 = TERMINATE_THREAD \<and>
     (\<forall>k. schedule_readiness tm1 k = tm1) \<and>
     wakeup_iter (tm_tick_ms tm1) elapsed (in_wakeup_state i1) = Some WtReturn"
proof -
  let ?tm = "small_timer \<lparr>lc_inner = Some i\<rparr>"
  have four: "replicate 4 x = [x, x, x, x]" for x :: wheel_entry by (simp add: numeral_eq_Suc)
  have tick: "duration_to_tick duration_zero 100 = Some 0"
    by (simp add: duration_to_tick_def millis_zero saturating_add_def)
  define tm0 where "tm0 = ?tm\<lparr>tm_entries := [Some (entry_new ''t'' 0 EMPTY)],
      tm_wheel := (tm_wheel ?tm)[0 := \<lparr>we_next_tick = 0, we_head = Token 0\<rparr>]\<rparr>"
  have set: "set_timeout_at vec_slab ?tm duration_zero ''t'' =
      Some (Inr \<lparr>to_token = Token 0, to_tick = 0\<rparr>, schedule_readiness tm0 0)"
    using tick by (simp add: set_timeout_at_def small_timer_def timer_insert_def Let_def tm0_def
        vec_slab_def first_vacant_def four)
  have "lc_borrow (tm_inner tm0) = Some i" by (simp add: tm0_def small_timer_def lc_borrow_def)
  from vec_timer.schedule_tick(2)[OF this, of 0] obtain i1 where
    i1: "lc_borrow (tm_inner (schedule_readiness tm0 0)) = Some i1" "in_wakeup_state i1 = 0" by auto
  have "schedule_readiness (schedule_readiness tm0 0) k = schedule_readiness tm0 0" for k
    unfolding schedule_readiness_def[of "schedule_readiness tm0 0" k] i1 by (simp add: i1)
  then show ?thesis using set i1 by (auto simp: TERMINATE_THREAD_def wakeup_iter_def)
qed

end
