(* ===== verification/EventLoop.thy ===== *)
theory EventLoop
  imports Poll TimerWakeup
begin

section \<open>The event loop\<close>

text \<open>
  \<open>EventLoop\<close> of \<open>src/net/event_loop.rs\<close>: a poller, a timer registered with it, and the flag that
  keeps \<open>run\<close> going. The callbacks are parameters: running a job or a timer's job is a function of
  the loop and of the rest of the world, so that a callback may set timeouts, enqueue jobs or
  shut the loop down; \<open>None\<close> is a panic. The time since the timer's start is read off the
  world.
\<close>

record config =
  cf_notify_capacity :: usize
  cf_messages_per_tick :: usize
  cf_timer_tick :: duration
  cf_timer_wheel_size :: usize
  cf_timer_capacity :: usize

definition config_default :: config where
  "config_default = \<lparr>cf_notify_capacity = 4096, cf_messages_per_tick = 256, cf_timer_tick = from_millis 100,
     cf_timer_wheel_size = 1024, cf_timer_capacity = 65536\<rparr>"

record ('j, 'k, 'p, 's) event_loop =
  el_run :: bool
  el_poll :: "('j, 'k, 'p) poll"
  el_timer :: "'s timer"

record ('j, 't, 'k, 'p, 's, 'w) callbacks =
  cb_now :: "'w \<Rightarrow> duration"
  cb_job :: "'j job \<Rightarrow> usize \<Rightarrow> ('j, 'k, 'p, 's) event_loop \<times> 'w \<Rightarrow> (('j, 'k, 'p, 's) event_loop \<times> 'w) option"
  cb_timer :: "'t \<Rightarrow> ('j, 'k, 'p, 's) event_loop \<times> 'w \<Rightarrow> (('j, 'k, 'p, 's) event_loop \<times> 'w) option"

subsection \<open>Construction\<close>

definition timers_token :: token_entry where
  "timers_token = \<lparr>ttype = TimersEvent, te_token = Token 0\<rparr>"

text \<open>The parameters up to \<open>rfd\<close> are those of \<open>poll_new\<close>; \<open>node\<close> is the address of the timer's node.\<close>

definition loop_configured ::
    "'k epoll_ops \<Rightarrow> ('s, 't entry) slab_ops \<Rightarrow> 'k io_result \<Rightarrow> usize \<Rightarrow> nat \<Rightarrow> 'p io_result \<Rightarrow> i32 \<Rightarrow> nat
       \<Rightarrow> config \<Rightarrow> (('j, 'k, 'p, 's) event_loop io_result \<times> usize) option" where
  "loop_configured K S created next_id qid pipe rfd node config =
     do { (p, next_id) \<leftarrow> poll_new K created next_id qid pipe rfd;
          case p of
            Inl e \<Rightarrow> Some (Inl e, next_id)
          | Inr poll \<Rightarrow>
              do { timer \<leftarrow> builder_build S (builder_capacity (builder_num_slots
                     (builder_tick_duration builder_default (cf_timer_tick config))
                     (cf_timer_wheel_size config)) (cf_timer_capacity config));
                   (r, timer, q) \<leftarrow> timer_register S (timer, po_queue poll) node timers_token ready_readable opt_edge;
                   case r of
                     Inl e \<Rightarrow> Some (Inl e, next_id)
                   | Inr _ \<Rightarrow> Some (Inr \<lparr>el_run = False, el_poll = poll\<lparr>po_queue := q\<rparr>, el_timer = timer\<rparr>, next_id) } }"

definition loop_new ::
    "'k epoll_ops \<Rightarrow> ('s, 't entry) slab_ops \<Rightarrow> 'k io_result \<Rightarrow> usize \<Rightarrow> nat \<Rightarrow> 'p io_result \<Rightarrow> i32 \<Rightarrow> nat
       \<Rightarrow> (('j, 'k, 'p, 's) event_loop io_result \<times> usize) option" where
  "loop_new K S created next_id qid pipe rfd node =
     loop_configured K S created next_id qid pipe rfd node config_default"

definition elb_notify_capacity :: "config \<Rightarrow> usize \<Rightarrow> config" where
  "elb_notify_capacity c n = c\<lparr>cf_notify_capacity := n\<rparr>"

definition elb_messages_per_tick :: "config \<Rightarrow> usize \<Rightarrow> config" where
  "elb_messages_per_tick c n = c\<lparr>cf_messages_per_tick := n\<rparr>"

definition elb_timer_tick :: "config \<Rightarrow> duration \<Rightarrow> config" where
  "elb_timer_tick c d = c\<lparr>cf_timer_tick := d\<rparr>"

definition elb_timer_wheel_size :: "config \<Rightarrow> usize \<Rightarrow> config" where
  "elb_timer_wheel_size c n = c\<lparr>cf_timer_wheel_size := n\<rparr>"

definition elb_timer_capacity :: "config \<Rightarrow> usize \<Rightarrow> config" where
  "elb_timer_capacity c n = c\<lparr>cf_timer_capacity := n\<rparr>"

subsection \<open>Timeouts, shutdown and registration\<close>

definition el_timeout ::
    "('s, 't entry) slab_ops \<Rightarrow> duration \<Rightarrow> ('j, 'k, 'p, 's) event_loop \<Rightarrow> duration \<Rightarrow> 't
       \<Rightarrow> ((timer_error + timeout) \<times> ('j, 'k, 'p, 's) event_loop) option" where
  "el_timeout S elapsed el delay token =
     do { (r, tm) \<leftarrow> set_timeout S (el_timer el) elapsed delay token; Some (r, el\<lparr>el_timer := tm\<rparr>) }"

definition el_clear_timeout ::
    "('s, 't entry) slab_ops \<Rightarrow> ('j, 'k, 'p, 's) event_loop \<Rightarrow> timeout \<Rightarrow> (bool \<times> ('j, 'k, 'p, 's) event_loop) option" where
  "el_clear_timeout S el to =
     do { (r, tm) \<leftarrow> cancel_timeout S (el_timer el) to; Some (r \<noteq> None, el\<lparr>el_timer := tm\<rparr>) }"

text \<open>\<open>shutdown\<close> is one exchange, from true to false.\<close>

definition el_shutdown :: "('j, 'k, 'p, 's) event_loop \<Rightarrow> ('j, 'k, 'p, 's) event_loop" where
  "el_shutdown el = (if el_run el then el\<lparr>el_run := False\<rparr> else el)"

definition el_is_running :: "('j, 'k, 'p, 's) event_loop \<Rightarrow> bool" where
  "el_is_running el = el_run el"

definition el_register ::
    "'k epoll_ops \<Rightarrow> 'p pipe_ops \<Rightarrow> ('j, 'k, 'p, 's) event_loop \<Rightarrow> evented \<Rightarrow> token_entry \<Rightarrow> ready \<Rightarrow> poll_opt
       \<Rightarrow> 'j job \<Rightarrow> (unit io_result \<times> evented \<times> ('j, 'k, 'p, 's) event_loop) option" where
  "el_register K P el io tok interest opt job =
     do { (r, io, po) \<leftarrow> poll_register K P (el_poll el) io tok interest opt job; Some (r, io, el\<lparr>el_poll := po\<rparr>) }"

definition el_reregister ::
    "'k epoll_ops \<Rightarrow> 'p pipe_ops \<Rightarrow> ('j, 'k, 'p, 's) event_loop \<Rightarrow> evented \<Rightarrow> token_entry \<Rightarrow> ready \<Rightarrow> poll_opt
       \<Rightarrow> (unit io_result \<times> ('j, 'k, 'p, 's) event_loop) option" where
  "el_reregister K P el io tok interest opt =
     do { (r, po) \<leftarrow> poll_reregister K P (el_poll el) io tok interest opt; Some (r, el\<lparr>el_poll := po\<rparr>) }"

definition el_deregister ::
    "'k epoll_ops \<Rightarrow> 'p pipe_ops \<Rightarrow> bool \<Rightarrow> ('j, 'k, 'p, 's) event_loop \<Rightarrow> evented
       \<Rightarrow> (unit io_result \<times> ('j, 'k, 'p, 's) event_loop) option" where
  "el_deregister K P dbg el io =
     do { (r, po) \<leftarrow> poll_deregister K P dbg (el_poll el) io; Some (r, el\<lparr>el_poll := po\<rparr>) }"

subsection \<open>Running\<close>

text \<open>\<open>while let Some(t) = timer.poll()\<close>: \<open>None\<close> is a panic or a loop without end.\<close>

partial_function (option) timer_drain ::
    "'p pipe_ops \<Rightarrow> ('s, 't entry) slab_ops \<Rightarrow> ('j, 't, 'k, 'p, 's, 'w) callbacks
       \<Rightarrow> ('j, 'k, 'p, 's) event_loop \<times> 'w \<Rightarrow> (('j, 'k, 'p, 's) event_loop \<times> 'w) option" where
  "timer_drain P S C st =
     (case st of (el, w) \<Rightarrow>
        (case timer_poll P S (el_timer el, po_queue (el_poll el)) (cb_now C w) of
           None \<Rightarrow> None
         | Some (r, tm, q) \<Rightarrow>
             (case r of
                None \<Rightarrow> Some (el\<lparr>el_timer := tm, el_poll := (el_poll el)\<lparr>po_queue := q\<rparr>\<rparr>, w)
              | Some t \<Rightarrow>
                  (case cb_timer C t (el\<lparr>el_timer := tm, el_poll := (el_poll el)\<lparr>po_queue := q\<rparr>\<rparr>, w) of
                     None \<Rightarrow> None
                   | Some st \<Rightarrow> timer_drain P S C st))))"

definition process_entry ::
    "'p pipe_ops \<Rightarrow> ('s, 't entry) slab_ops \<Rightarrow> ('j, 't, 'k, 'p, 's, 'w) callbacks \<Rightarrow> 'j job_entry
       \<Rightarrow> ('j, 'k, 'p, 's) event_loop \<times> 'w \<Rightarrow> (('j, 'k, 'p, 's) event_loop \<times> 'w) option" where
  "process_entry P S C job_entry st =
     (case ttype (je_token_entry job_entry) of
        TimersEvent \<Rightarrow> timer_drain P S C st
      | _ \<Rightarrow> cb_job C (je_job job_entry) (ready_as_usize (je_ready job_entry)) st)"

fun process_loop ::
    "'p pipe_ops \<Rightarrow> ('s, 't entry) slab_ops \<Rightarrow> ('j, 't, 'k, 'p, 's, 'w) callbacks \<Rightarrow> 'j events \<Rightarrow> nat list
       \<Rightarrow> ('j, 'k, 'p, 's) event_loop \<times> 'w \<Rightarrow> (('j, 'k, 'p, 's) event_loop \<times> 'w) option" where
  "process_loop P S C evts [] st = Some st"
| "process_loop P S C evts (i # is) st =
     (case events_get_mut evts i of
        Some job_entry \<Rightarrow> do { st \<leftarrow> process_entry P S C job_entry st; process_loop P S C evts is st }
      | None \<Rightarrow> process_loop P S C evts is st)"

definition io_process ::
    "'p pipe_ops \<Rightarrow> ('s, 't entry) slab_ops \<Rightarrow> ('j, 't, 'k, 'p, 's, 'w) callbacks \<Rightarrow> 'j events \<Rightarrow> nat
       \<Rightarrow> ('j, 'k, 'p, 's) event_loop \<times> 'w \<Rightarrow> ('j events \<times> ('j, 'k, 'p, 's) event_loop \<times> 'w) option" where
  "io_process P S C evts cnt st =
     do { st \<leftarrow> process_loop P S C evts [0..<cnt] st; Some (events_clear evts, st) }"

definition run_once ::
    "'k epoll_ops \<Rightarrow> ('k \<Rightarrow> duration \<times> 'k) \<Rightarrow> 'p pipe_ops \<Rightarrow> ('s, 't entry) slab_ops
       \<Rightarrow> ('j, 't, 'k, 'p, 's, 'w) callbacks \<Rightarrow> duration option \<Rightarrow> ('j, 'k, 'p, 's) event_loop \<times> 'w
       \<Rightarrow> (unit io_result \<times> ('j, 'k, 'p, 's) event_loop \<times> 'w) option" where
  "run_once K clk P S C timeout st =
     (case st of (el, w) \<Rightarrow>
        do { let events = events_with_capacity (1024 * 4);
             (r, po, events) \<leftarrow> poll2 K clk P (el_poll el) events timeout False;
             let el = el\<lparr>el_poll := po\<rparr>;
             let go = (\<lambda>cnt. do { (_, st) \<leftarrow> io_process P S C events cnt (el, w); Some (Inr (), st) });
             case r of
               Inr cnt \<Rightarrow> go cnt
             | Inl err \<Rightarrow> if err = Interrupted then go 0 else Some (Inl err, el, w) })"

text \<open>The loop of \<open>run\<close>: \<open>None\<close> is a panic or a loop that nobody shuts down.\<close>

partial_function (option) run_loop ::
    "'k epoll_ops \<Rightarrow> ('k \<Rightarrow> duration \<times> 'k) \<Rightarrow> 'p pipe_ops \<Rightarrow> ('s, 't entry) slab_ops
       \<Rightarrow> ('j, 't, 'k, 'p, 's, 'w) callbacks \<Rightarrow> ('j, 'k, 'p, 's) event_loop \<times> 'w
       \<Rightarrow> (unit io_result \<times> ('j, 'k, 'p, 's) event_loop \<times> 'w) option" where
  "run_loop K clk P S C st =
     (if el_run (fst st)
      then (case run_once K clk P S C None st of
              None \<Rightarrow> None
            | Some (Inl e, st) \<Rightarrow> Some (Inl e, st)
            | Some (Inr _, st) \<Rightarrow> run_loop K clk P S C st)
      else Some (Inr (), st))"

definition loop_run ::
    "'k epoll_ops \<Rightarrow> ('k \<Rightarrow> duration \<times> 'k) \<Rightarrow> 'p pipe_ops \<Rightarrow> ('s, 't entry) slab_ops
       \<Rightarrow> ('j, 't, 'k, 'p, 's, 'w) callbacks \<Rightarrow> ('j, 'k, 'p, 's) event_loop \<times> 'w
       \<Rightarrow> (unit io_result \<times> ('j, 'k, 'p, 's) event_loop \<times> 'w) option" where
  "loop_run K clk P S C st =
     (case st of (el, w) \<Rightarrow>
        run_loop K clk P S C ((if el_run el then el else el\<lparr>el_run := True\<rparr>), w))"

subsection \<open>Dispatching\<close>

text \<open>The reference: one after the other, each entry once.\<close>

fun process_all ::
    "'p pipe_ops \<Rightarrow> ('s, 't entry) slab_ops \<Rightarrow> ('j, 't, 'k, 'p, 's, 'w) callbacks \<Rightarrow> 'j job_entry list
       \<Rightarrow> ('j, 'k, 'p, 's) event_loop \<times> 'w \<Rightarrow> (('j, 'k, 'p, 's) event_loop \<times> 'w) option" where
  "process_all P S C [] st = Some st"
| "process_all P S C (je # jes) st = do { st \<leftarrow> process_entry P S C je st; process_all P S C jes st }"

lemma process_all_append:
  "process_all P S C (xs @ ys) st = do { st \<leftarrow> process_all P S C xs st; process_all P S C ys st }"
  by (induction xs arbitrary: st) (simp_all add: bind_eq_Some_conv split: option.splits bind_splits)

lemma process_loop_all:
  "n \<le> length (evs_entries e) \<Longrightarrow>
    process_loop P S C e [length (evs_entries e) - n..<length (evs_entries e)] st =
    process_all P S C (drop (length (evs_entries e) - n) (evs_entries e)) st"
proof (induction n arbitrary: st)
  case (Suc n)
  let ?i = "length (evs_entries e) - Suc n"
  have i: "?i < length (evs_entries e)" "Suc ?i = length (evs_entries e) - n" using Suc.prems by simp_all
  have "[?i..<length (evs_entries e)] = ?i # [length (evs_entries e) - n..<length (evs_entries e)]"
    using upt_conv_Cons[OF i(1)] i(2) by simp
  moreover have "drop ?i (evs_entries e) = evs_entries e ! ?i # drop (length (evs_entries e) - n) (evs_entries e)"
    using Cons_nth_drop_Suc[OF i(1)] i(2) by simp
  moreover have "events_get_mut e ?i = Some (evs_entries e ! ?i)" using i(1) by (simp add: events_get_mut_def)
  ultimately show ?case using Suc by (simp cong: option.case_cong) (metis (no_types, lifting) Suc.IH Suc_leD)
qed simp

lemma io_process_all:
  "io_process P S C e (length (evs_entries e)) st = do { st \<leftarrow> process_all P S C (evs_entries e) st; Some (events_clear e, st) }"
  using process_loop_all[of "length (evs_entries e)" e P S C st] by (simp add: io_process_def)

lemma run_once_spec:
  assumes inv: "reg_inv (po_queue (el_poll el)) cs H" and pipe: "nonblocking_pipe P level cap"
    and wait: "k_wait K (sel_kernel (po_selector (el_poll el))) 4096 (select_timeout_ms (wait_time timeout cs)) = (Inr raw, k)"
    and room: "length raw \<le> 4096"
    and io: "io = concat (map (dispatch_entry (sel_events_map (po_selector (el_poll el)))) raw)"
    and vs: "vs = visited (rq_heap (po_queue (el_poll el))) (4096 - length io) cs"
  shows "\<exists>po. reg_inv (po_queue po) (drop (length vs) cs @ poll_kept (rq_heap (po_queue (el_poll el))) vs) H \<and>
    same_jobs (sel_events_map (po_selector (el_poll el))) (sel_events_map (po_selector po)) \<and>
    sel_id (po_selector po) = sel_id (po_selector (el_poll el)) \<and> sel_kernel (po_selector po) = k \<and>
    (finite (dom (rq_heap (po_queue (el_poll el)))) \<longrightarrow> finite (dom (rq_heap (po_queue po)))) \<and>
    run_once K clk P S C timeout (el, w) =
      map_option (Pair (Inr ())) (process_all P S C (io @ poll_entries (rq_heap (po_queue (el_poll el))) vs) (el\<lparr>el_poll := po\<rparr>, w))"
proof -
  let ?e = "events_with_capacity (1024 * 4) :: 'a events"
  have e: "evs_events_cap ?e = 4096" "events_capacity ?e = 4096"
    by (simp_all add: events_with_capacity_def events_capacity_def)
  note p = poll2_spec[OF inv pipe, of K ?e timeout raw k, unfolded e, OF wait room io vs]
  obtain po e' where po: "poll2 K clk P (el_poll el) ?e timeout False = Some (Inr (length (evs_entries e')), po, e')"
    "evs_entries e' = io @ poll_entries (rq_heap (po_queue (el_poll el))) vs"
    "reg_inv (po_queue po) (drop (length vs) cs @ poll_kept (rq_heap (po_queue (el_poll el))) vs) H"
    "same_jobs (sel_events_map (po_selector (el_poll el))) (sel_events_map (po_selector po))"
    "sel_id (po_selector po) = sel_id (po_selector (el_poll el))" "sel_kernel (po_selector po) = k"
    "finite (dom (rq_heap (po_queue (el_poll el)))) \<longrightarrow> finite (dom (rq_heap (po_queue po)))"
    using p[of clk False] by blast
  have "run_once K clk P S C timeout (el, w) =
      map_option (Pair (Inr ())) (process_all P S C (evs_entries e') (el\<lparr>el_poll := po\<rparr>, w))"
    using po(1) io_process_all[of P S C e' "(el\<lparr>el_poll := po\<rparr>, w)"]
    by (cases "process_all P S C (evs_entries e') (el\<lparr>el_poll := po\<rparr>, w)") (simp_all add: run_once_def Let_def)
  then show ?thesis using po(2-7) by auto
qed

text \<open>A round in which the queue holds jobs and nothing else: after the events of the kernel each job runs once,
  in order, and the queue is empty.\<close>

primrec run_jobs ::
    "('j, 't, 'k, 'p, 's, 'w) callbacks \<Rightarrow> 'j job list \<Rightarrow> ('j, 'k, 'p, 's) event_loop \<times> 'w
       \<Rightarrow> (('j, 'k, 'p, 's) event_loop \<times> 'w) option" where
  "run_jobs C [] st = Some st"
| "run_jobs C (j # js) st = do { st \<leftarrow> cb_job C j 0 st; run_jobs C js st }"

lemma process_jobs: "process_all P S C (map job_node_entry js) = run_jobs C js"
proof (induction js)
  case (Cons j js)
  have "process_entry P S C (job_node_entry j) = cb_job C j 0"
    by (rule ext) (simp add: process_entry_def job_node_entry_def ready_as_usize_def ready_empty_def)
  then show ?case by (intro ext) (simp add: Cons)
qed (rule ext, simp)

lemma queued_round:
  assumes q: "queued (po_queue (el_poll el)) js" and pipe: "nonblocking_pipe P level cap"
    and wait: "k_wait K (sel_kernel (po_selector (el_poll el))) 4096
      (select_timeout_ms (if js = [] then timeout else Some (from_millis 0))) = (Inr raw, k)"
    and room: "length raw + length js \<le> 4096"
    and io: "io = concat (map (dispatch_entry (sel_events_map (po_selector (el_poll el)))) raw)"
  shows "\<exists>po. queued (po_queue po) [] \<and>
    same_jobs (sel_events_map (po_selector (el_poll el))) (sel_events_map (po_selector po)) \<and>
    sel_id (po_selector po) = sel_id (po_selector (el_poll el)) \<and> sel_kernel (po_selector po) = k \<and>
    run_once K clk P S C timeout (el, w) =
      do { st \<leftarrow> process_all P S C io (el\<lparr>el_poll := po\<rparr>, w); st \<leftarrow> run_jobs C js st; Some (Inr (), st) }"
proof -
  let ?h = "rq_heap (po_queue (el_poll el))"
  obtain cs H where cs: "reg_inv (po_queue (el_poll el)) cs H" "length cs = length js"
    "poll_entries ?h cs = map job_node_entry js" "poll_kept ?h cs = []" and fin: "finite (dom ?h)"
    using q unfolding queued_def by blast
  have "length io \<le> length raw" unfolding io
    by (induction raw) (auto simp: dispatch_entry_def split: option.splits)
  then have v: "cs = visited ?h (4096 - length io) cs" using room cs(2) by (subst visited_all) simp_all
  have "wait_time timeout cs = (if js = [] then timeout else Some (from_millis 0))" using cs(2) by (auto simp: wait_time_def)
  with wait have wait': "k_wait K (sel_kernel (po_selector (el_poll el))) 4096 (select_timeout_ms (wait_time timeout cs)) = (Inr raw, k)"
    by simp
  obtain po where po: "reg_inv (po_queue po) [] H"
    "same_jobs (sel_events_map (po_selector (el_poll el))) (sel_events_map (po_selector po))"
    "sel_id (po_selector po) = sel_id (po_selector (el_poll el))" "sel_kernel (po_selector po) = k"
    "finite (dom (rq_heap (po_queue po)))"
    "run_once K clk P S C timeout (el, w) = map_option (Pair (Inr ())) (process_all P S C (io @ map job_node_entry js) (el\<lparr>el_poll := po\<rparr>, w))"
    using run_once_spec[OF cs(1) pipe wait' _ io v, of clk S C w] room cs(3,4) fin by auto
  have "run_once K clk P S C timeout (el, w) =
      do { st \<leftarrow> process_all P S C io (el\<lparr>el_poll := po\<rparr>, w); st \<leftarrow> run_jobs C js st; Some (Inr (), st) }"
    unfolding po(6) process_all_append process_jobs
    by (cases "process_all P S C io (el\<lparr>el_poll := po\<rparr>, w)") (auto simp: map_option_bind map_conv_bind_option comp_def)
  then show ?thesis using po(1-5) queued_empty by blast
qed

subsection \<open>Draining the timer\<close>

text \<open>A loop whose timer and queue are in order, and what a timer's job may do to it: cancel timeouts, use the queue
  and the selector, stop the loop; but not set timeouts.\<close>

definition loop_ok :: "('s, 't entry) slab_ops \<Rightarrow> ('s \<Rightarrow> bool) \<Rightarrow> ('j, 'k, 'p, 's) event_loop \<Rightarrow> bool" where
  "loop_ok S sok el \<longleftrightarrow> timer_inv S sok (el_timer el) \<and> (\<exists>cs H. reg_inv (po_queue (el_poll el)) cs H) \<and>
     inner_live (el_timer el) (po_queue (el_poll el))"

definition timer_job_keeps ::
    "('s, 't entry) slab_ops \<Rightarrow> ('s \<Rightarrow> bool) \<Rightarrow> ('j, 'k, 'p, 's) event_loop \<Rightarrow> ('j, 'k, 'p, 's) event_loop \<Rightarrow> bool" where
  "timer_job_keeps S sok el el' \<longleftrightarrow> loop_ok S sok el' \<and>
     (\<forall>t x. pending S (el_timer el') t = Some x \<longrightarrow> pending S (el_timer el) t = Some x) \<and>
     tm_tick (el_timer el') = tm_tick (el_timer el) \<and> tm_tick_ms (el_timer el') = tm_tick_ms (el_timer el)"

text \<open>The calls \<open>clear_timeout\<close> and \<open>deregister\<close>, which make up the job of a connect timeout, are such.\<close>

lemma timer_job_keeps_trans: "timer_job_keeps S sok el el1 \<Longrightarrow> timer_job_keeps S sok el1 el2 \<Longrightarrow> timer_job_keeps S sok el el2"
  by (simp add: timer_job_keeps_def)

lemma clear_timeout_keeps:
  assumes "timer_slab S sok" "loop_ok S sok el"
  shows "\<exists>b el'. el_clear_timeout S el to = Some (b, el') \<and> timer_job_keeps S sok el el' \<and> el_poll el' = el_poll el"
proof -
  obtain r tm' where c: "cancel_timeout S (el_timer el) to = Some (r, tm')" "timer_inv S sok tm'"
    "pending S tm' = (if r = None then pending S (el_timer el) else (pending S (el_timer el))(to_token to := None))"
    "same_frame (el_timer el) tm'"
    using timer_slab.cancel_inv[OF assms(1), of "el_timer el" to] assms(2) unfolding loop_ok_def by blast
  have "timer_job_keeps S sok el (el\<lparr>el_timer := tm'\<rparr>)"
    using c assms(2) by (auto simp: timer_job_keeps_def loop_ok_def inner_live_def same_frame_def split: if_splits)
  then show ?thesis using c(1) by (simp add: el_clear_timeout_def)
qed

lemma deregister_keeps:
  assumes "loop_ok S sok el" "el_deregister K P dbg el (EvSocket fd i) = Some (r, el')"
  shows "timer_job_keeps S sok el el'"
proof -
  have "el_timer el' = el_timer el" "po_queue (el_poll el') = po_queue (el_poll el)"
    using assms(2) by (auto simp: el_deregister_def poll_deregister_def bind_Some_iff)
  then show ?thesis using assms(1) by (simp add: timer_job_keeps_def loop_ok_def)
qed

text \<open>The jobs that a drain runs: \<open>ts\<close> are the timeouts fired, in order, \<open>X\<close> those that a job cancelled.\<close>

inductive timer_run ::
    "'p pipe_ops \<Rightarrow> ('s, 't entry) slab_ops \<Rightarrow> ('j, 't, 'k, 'p, 's, 'w) callbacks
       \<Rightarrow> ('j, 'k, 'p, 's) event_loop \<times> 'w \<Rightarrow> token list \<Rightarrow> token set \<Rightarrow> ('j, 'k, 'p, 's) event_loop \<times> 'w \<Rightarrow> bool"
    for P S C where
  idle: "timer_poll P S (el_timer el, po_queue (el_poll el)) (cb_now C w) = Some (None, tm, q) \<Longrightarrow>
    timer_run P S C (el, w) [] {} (el\<lparr>el_timer := tm, el_poll := (el_poll el)\<lparr>po_queue := q\<rparr>\<rparr>, w)"
| fire: "timer_poll P S (el_timer el, po_queue (el_poll el)) (cb_now C w) = Some (Some j, tm, q) \<Longrightarrow>
    pending S (el_timer el) t = Some (k, j) \<Longrightarrow> pending S tm = (pending S (el_timer el))(t := None) \<Longrightarrow>
    cb_timer C j (el\<lparr>el_timer := tm, el_poll := (el_poll el)\<lparr>po_queue := q\<rparr>\<rparr>, w) = Some (el1, w1) \<Longrightarrow>
    timer_run P S C (el1, w1) ts X st \<Longrightarrow>
    timer_run P S C (el, w) (t # ts) ((dom (pending S tm) - dom (pending S (el_timer el1))) \<union> X) st"

text \<open>What holds of a drain: no timeout fires twice or after it was cancelled, one that fires is due, and none that is due is left.\<close>

definition drained ::
    "('s, 't entry) slab_ops \<Rightarrow> ('s \<Rightarrow> bool) \<Rightarrow> ('j, 'k, 'p, 's) event_loop \<Rightarrow> token list \<Rightarrow> token set \<Rightarrow> ('j, 'k, 'p, 's) event_loop \<Rightarrow> bool" where
  "drained S sok el ts X el' \<longleftrightarrow> distinct ts \<and> set ts \<inter> X = {} \<and>
     dom (pending S (el_timer el)) = set ts \<union> X \<union> dom (pending S (el_timer el')) \<and>
     (set ts \<union> X) \<inter> dom (pending S (el_timer el')) = {} \<and>
     (\<forall>t x. pending S (el_timer el') t = Some x \<longrightarrow> pending S (el_timer el) t = Some x) \<and>
     (\<forall>t k j. t \<in> set ts \<and> pending S (el_timer el) t = Some (k, j) \<longrightarrow> k < tm_tick (el_timer el')) \<and>
     (\<forall>t k j. pending S (el_timer el') t = Some (k, j) \<longrightarrow> tm_tick (el_timer el') \<le> k) \<and>
     loop_ok S sok el' \<and> armed S (el_timer el')"

lemma drain_spec:
  assumes slab: "timer_slab S sok"
    and calls: "\<And>t el w. loop_ok S sok el \<Longrightarrow> W w \<Longrightarrow>
      \<exists>el' w'. cb_timer C t (el, w) = Some (el', w') \<and> timer_job_keeps S sok el el' \<and> W w' \<and> T w \<le> T w'"
    and clock: "\<And>w. current_tick (cb_now C w) ms = Some (T w)" "\<And>w. T w < - 1"
  shows "loop_ok S sok el \<Longrightarrow> W w \<Longrightarrow> tm_tick_ms (el_timer el) = ms \<Longrightarrow> tm_tick (el_timer el) < - 1 \<Longrightarrow>
    \<exists>el' w' ts X. timer_drain P S C (el, w) = Some (el', w') \<and> timer_run P S C (el, w) ts X (el', w') \<and>
      drained S sok el ts X el' \<and> T w \<le> T w' \<and> T w' < tm_tick (el_timer el') \<and> tm_tick (el_timer el) < tm_tick (el_timer el')"
proof (induction "card (dom (pending S (el_timer el)))" arbitrary: el w rule: less_induct)
  case less
  let ?tm = "el_timer el" and ?q = "po_queue (el_poll el)"
  obtain cs H where ok: "timer_inv S sok ?tm" "reg_inv ?q cs H" "inner_live ?tm ?q"
    using less.prems(1) unfolding loop_ok_def by blast
  have lim: "max (T w) (tm_tick ?tm) < - 1" using clock(2) less.prems(4) by (simp add: max_def)
  obtain r tm1 q1 cs1 where p: "poll_to P S (?tm, ?q) (T w) = Some (r, tm1, q1)" "timer_inv S sok tm1"
    "reg_inv q1 cs1 H" "inner_live tm1 q1"
    and c: "case r of
       Some st \<Rightarrow> q1 = ?q \<and> tm_inner tm1 = tm_inner ?tm \<and>
         (\<exists>t k. pending S ?tm t = Some (k, st) \<and> k \<le> max (T w) (tm_tick ?tm) \<and>
            pending S tm1 = (pending S ?tm)(t := None))
     | None \<Rightarrow> pending S tm1 = pending S ?tm \<and> tm_tick tm1 = max (T w) (tm_tick ?tm) + 1 \<and>
         (\<forall>t k st. pending S ?tm t = Some (k, st) \<longrightarrow> max (T w) (tm_tick ?tm) < k) \<and> armed S tm1"
    using timer_slab.poll_to_inv[OF slab ok(1) lim ok(2,3), of P] by blast
  note fr = timer_slab.poll_to_frame[OF slab ok(1) lim p(1)]
  let ?el = "el\<lparr>el_timer := tm1, el_poll := (el_poll el)\<lparr>po_queue := q1\<rparr>\<rparr>"
  have ok1: "loop_ok S sok ?el" using p(2-4) by (auto simp: loop_ok_def)
  have poll: "timer_poll P S (?tm, ?q) (cb_now C w) = Some (r, tm1, q1)"
    using clock(1) p(1) less.prems(3) by (simp add: timer_poll_def)
  show ?case
  proof (cases r)
    case None
    have n: "pending S tm1 = pending S ?tm" "tm_tick tm1 = max (T w) (tm_tick ?tm) + 1" "armed S tm1"
      and late: "\<And>t k st. pending S ?tm t = Some (k, st) \<Longrightarrow> max (T w) (tm_tick ?tm) < k"
      using c None by auto
    have gt: "max (T w) (tm_tick ?tm) < tm_tick tm1"
      using n(2) add_one_u64(2)[OF lim] by (simp add: word_less_nat_alt)
    have "tm_tick tm1 \<le> k" if "pending S ?tm t = Some (k, st)" for t k st
      using late[OF that] n(2) add_one_u64(2)[OF lim] by (simp add: word_less_nat_alt word_le_nat_alt)
    then have "drained S sok el [] {} ?el" using ok1 n(1,3) by (auto simp: drained_def)
    moreover have "timer_drain P S C (el, w) = Some (?el, w)" using poll None by (subst timer_drain.simps) simp
    moreover have "timer_run P S C (el, w) [] {} (?el, w)" by (rule timer_run.idle) (use poll None in simp)
    moreover have "T w < tm_tick tm1" "tm_tick ?tm < tm_tick tm1" using gt by simp_all
    ultimately show ?thesis by (intro exI[of _ ?el] exI[of _ w] exI[of _ "[]"] exI[of _ "{}"]) simp
  next
    case (Some st)
    obtain t k where t: "pending S ?tm t = Some (k, st)" "k \<le> max (T w) (tm_tick ?tm)"
      "pending S tm1 = (pending S ?tm)(t := None)" using c Some by auto
    obtain el2 w2 where j: "cb_timer C st (?el, w) = Some (el2, w2)" "timer_job_keeps S sok ?el el2" "W w2" "T w \<le> T w2"
      using calls[OF ok1 less.prems(2)] by blast
    note k = j(2)[unfolded timer_job_keeps_def, simplified]
    have sub: "dom (pending S (el_timer el2)) \<subseteq> dom (pending S tm1)" using k by auto
    have fin: "finite (dom (pending S ?tm))" using timer_slab.pending_finite[OF slab ok(1)] .
    have dom1: "dom (pending S tm1) = dom (pending S ?tm) - {t}" by (auto simp: t(3))
    have "t \<in> dom (pending S ?tm)" using t(1) by blast
    then have "dom (pending S (el_timer el2)) \<subset> dom (pending S ?tm)" using sub unfolding dom1 by blast
    then have "card (dom (pending S (el_timer el2))) < card (dom (pending S ?tm))"
      using fin by (rule psubset_card_mono[rotated])
    moreover have "tm_tick tm1 < - 1" using fr(2)[OF Some] lim by (rule le_less_trans)
    ultimately obtain el' w' ts X where IH: "timer_drain P S C (el2, w2) = Some (el', w')"
      "timer_run P S C (el2, w2) ts X (el', w')" "drained S sok el2 ts X el'" "T w2 \<le> T w'"
      "T w' < tm_tick (el_timer el')" "tm_tick tm1 < tm_tick (el_timer el')"
      using less.hyps[of el2 w2] k j(3) fr(1) less.prems(3) by auto
    let ?X = "(dom (pending S tm1) - dom (pending S (el_timer el2))) \<union> X"
    have step: "timer_drain P S C (el, w) = Some (el', w')"
      using poll Some j(1) IH(1) by (subst timer_drain.simps) simp
    have run: "timer_run P S C (el, w) (t # ts) ?X (el', w')"
      using poll Some t j(1) IH(2) by (intro timer_run.fire) auto
    have Tw: "T w < tm_tick (el_timer el')" "T w \<le> T w'" using j(4) IH(4,5) by (auto intro: le_less_trans order_trans)
    have tick: "tm_tick ?tm < tm_tick (el_timer el')" using fr(3)[OF Some] IH(6) by (rule le_less_trans)
    have d: "distinct ts" "set ts \<inter> X = {}" "dom (pending S (el_timer el2)) = set ts \<union> X \<union> dom (pending S (el_timer el'))"
      "(set ts \<union> X) \<inter> dom (pending S (el_timer el')) = {}"
      "\<And>t x. pending S (el_timer el') t = Some x \<Longrightarrow> pending S (el_timer el2) t = Some x"
      "\<And>t k j. t \<in> set ts \<Longrightarrow> pending S (el_timer el2) t = Some (k, j) \<Longrightarrow> k < tm_tick (el_timer el')"
      "\<forall>t k j. pending S (el_timer el') t = Some (k, j) \<longrightarrow> tm_tick (el_timer el') \<le> k"
      "loop_ok S sok el'" "armed S (el_timer el')"
      using IH(3) unfolding drained_def by blast+
    have old: "pending S ?tm u = Some x \<and> u \<noteq> t" if "pending S (el_timer el2) u = Some x" for u x
    proof -
      have "pending S tm1 u = Some x" using k that by (cases x) blast
      then show ?thesis by (auto simp: t(3) split: if_splits)
    qed
    have t2: "t \<notin> dom (pending S (el_timer el2))" using old by blast
    then have out: "t \<notin> set ts" "t \<notin> X" "t \<notin> dom (pending S (el_timer el'))" using d(3) by blast+
    have "k < tm_tick (el_timer el')" using t(2) Tw(1) tick by (auto simp: max_def split: if_splits intro: le_less_trans)
    then have due: "kk < tm_tick (el_timer el')" if "u \<in> set (t # ts)" "pending S ?tm u = Some (kk, jj)" for u kk jj
    proof (cases "u = t")
      case False
      then have "u \<in> set ts" using that by simp
      moreover from this obtain x where x: "pending S (el_timer el2) u = Some x" using d(3) by blast
      ultimately show ?thesis using d(6)[of u kk jj] old[OF x] that(2) by simp
    qed (use that t(1) in simp)
    have "drained S sok el (t # ts) ?X el'"
      unfolding drained_def
    proof (intro conjI)
      show "distinct (t # ts)" using d(1) out by simp
      show "set (t # ts) \<inter> ?X = {}" using d(2,3) out dom1 by auto
      show "dom (pending S ?tm) = set (t # ts) \<union> ?X \<union> dom (pending S (el_timer el'))"
      proof -
        have "dom (pending S ?tm) = insert t (dom (pending S tm1))" using dom1 t(1) by blast
        moreover have "dom (pending S tm1) = (dom (pending S tm1) - dom (pending S (el_timer el2))) \<union> (set ts \<union> X \<union> dom (pending S (el_timer el')))"
          using sub d(3) by blast
        ultimately show ?thesis by auto
      qed
      show "(set (t # ts) \<union> ?X) \<inter> dom (pending S (el_timer el')) = {}" using d(3,4) out(3) by auto
      show "\<forall>t x. pending S (el_timer el') t = Some x \<longrightarrow> pending S ?tm t = Some x" using d(5) old by blast
      show "\<forall>u k j. u \<in> set (t # ts) \<and> pending S ?tm u = Some (k, j) \<longrightarrow> k < tm_tick (el_timer el')" using due by blast
    qed (rule d(7-9))+
    then show ?thesis using step run Tw(2) IH(5) tick by blast
  qed
qed

subsection \<open>A new loop\<close>

lemma rqueue_new_reg: "\<exists>q :: ('j, 'p) rqueue. rqueue_new i p = Some q \<and> reg_inv q [] (\<lambda>_. 0) \<and> rq_pipe q = p \<and> (\<forall>k. rq_heap q (Node k) = None)"
proof -
  obtain q :: "('j, 'p) rqueue" where q: "rqueue_new i p = Some q" "queue_inv q [EndMarker]" "rq_pipe q = p"
    "\<forall>k. rq_heap q (Node k) = None" using rqueue_new_inv[of i p] by metis
  have "rq_repr q []" using q(2) queue_nodes_marker(1) unfolding rq_repr_def by blast
  moreover have "nodes_ok q {} (\<lambda>_. 0)" using q(4) by (simp add: nodes_ok_def)
  ultimately have "reg_inv q [] (\<lambda>_. 0)" by (simp add: reg_inv_def)
  then show ?thesis using q(1,3,4) by blast
qed

text \<open>A new event loop is complete: nothing is queued or pending, the timer's node is alive with its
  three handles, the timer is armed, and the awakener's reader is registered as the notifier.\<close>

lemma loop_configured_spec:
  assumes "timer_slab S sok" and "unat (cf_timer_wheel_size c) \<le> 2 ^ 63" and "unat (cf_timer_capacity c) \<le> 2 ^ 63"
    and "next_id \<noteq> - 1"
    and "k_ctl K k0 EPOLL_CTL_ADD rfd \<lparr>ee_events = ioevent_to_epoll ready_readable opt_edge, ee_u64 = scast rfd\<rparr> = (Inr (), k1)"
  shows "\<exists>el :: ('j, 'k, 'p, 's) event_loop. loop_configured K S (Inr k0) next_id qid (Inr p0) rfd node c = Some (Inr el, next_id + 1) \<and>
    \<not> el_run el \<and> timer_inv S sok (el_timer el) \<and> pending S (el_timer el) = (\<lambda>_. None) \<and>
    reg_inv (po_queue (el_poll el)) [] ((\<lambda>_. 0)(node := 3)) \<and>
    inner_live (el_timer el) (po_queue (el_poll el)) \<and> armed S (el_timer el) \<and> lc_filled (tm_inner (el_timer el)) \<and>
    sel_id (po_selector (el_poll el)) = next_id + 1 \<and> sel_events_map (po_selector (el_poll el)) =
      [rfd \<mapsto> \<lparr>je_token_entry = notify_token, je_job = Noop, je_ready = ready_empty\<rparr>]"
proof -
  have id: "add_u64 next_id 1 = Some (next_id + 1)"
    using assms(4) add_one_u64(1)[of next_id] by (simp add: word_order.not_eq_extremum)
  obtain q :: "('j, 'p) rqueue" where q: "rqueue_new qid p0 = Some q" "reg_inv q [] (\<lambda>_. 0)" "\<And>k. rq_heap q (Node k) = None"
    using rqueue_new_reg[of qid p0] by metis
  obtain tm where tm: "timer_new S (millis (cf_timer_tick c)) (cf_timer_wheel_size c) (cf_timer_capacity c) = Some tm"
    "timer_inv S sok tm" "pending S tm = (\<lambda>_. None)" "tm_next tm = EMPTY" "tm_inner tm = lc_new"
    using timer_new_spec[OF assms(1-3), of "millis (cf_timer_tick c)"] by metis
  obtain tm' q' where r: "timer_register S (tm, q) node timers_token ready_readable opt_edge = Some (Inr (), tm', q')"
    "timer_inv S sok tm'" "pending S tm' = pending S tm" "reg_inv q' [] ((\<lambda>_. 0)(node := 3))"
    "inner_live tm' q'" "armed S tm'" "lc_filled (tm_inner tm')"
    using timer_slab.register_arms[OF assms(1) tm(2,4,5) q(2) q(3) ready_readable_fits] by blast
  have b: "builder_build S (builder_capacity (builder_num_slots (builder_tick_duration builder_default (cf_timer_tick c))
      (cf_timer_wheel_size c)) (cf_timer_capacity c)) = Some tm"
    using tm(1) by (simp add: builder_build_def builder_capacity_def builder_num_slots_def builder_tick_duration_def)
  have "poll_new K (Inr k0) next_id qid (Inr p0) rfd = Some (Inr \<lparr>po_selector = \<lparr>sel_id = next_id + 1, sel_kernel = k1,
      sel_events_map = [rfd \<mapsto> \<lparr>je_token_entry = notify_token, je_job = Noop, je_ready = ready_empty\<rparr>]\<rparr>,
      po_queue = q\<rparr>, next_id + 1)"
    using assms(5) id q(1) by (simp add: poll_new_def selector_new_def selector_register_def)
  then show ?thesis using b r tm(3) by (simp add: loop_configured_def)
qed

subsection \<open>Properties\<close>

text \<open>C3. One round of the loop runs what its poll delivers, each entry once and in order: first the
  kernel's events, then the queued nodes that are ready; a panic of one is a panic of the round.\<close>

theorem run_once_dispatches:
  assumes "reg_inv (po_queue (el_poll el)) cs H" and "nonblocking_pipe P level cap"
    and "k_wait K (sel_kernel (po_selector (el_poll el))) 4096 (select_timeout_ms (wait_time timeout cs)) = (Inr raw, k)"
    and "length raw \<le> 4096"
    and "io = concat (map (dispatch_entry (sel_events_map (po_selector (el_poll el)))) raw)"
    and "vs = visited (rq_heap (po_queue (el_poll el))) (4096 - length io) cs"
  shows "\<exists>po. reg_inv (po_queue po) (drop (length vs) cs @ poll_kept (rq_heap (po_queue (el_poll el))) vs) H \<and>
    same_jobs (sel_events_map (po_selector (el_poll el))) (sel_events_map (po_selector po)) \<and>
    sel_id (po_selector po) = sel_id (po_selector (el_poll el)) \<and> sel_kernel (po_selector po) = k \<and>
    run_once K clk P S C timeout (el, w) =
      map_option (Pair (Inr ())) (process_all P S C (io @ poll_entries (rq_heap (po_queue (el_poll el))) vs) (el\<lparr>el_poll := po\<rparr>, w))"
  using run_once_spec[OF assms, of clk S C w] by (elim exE conjE) (intro exI conjI; assumption)

lemma enqueued_round:
  assumes inv: "reg_inv (po_queue (el_poll el)) cs H" and free: "rq_heap (po_queue (el_poll el)) (Node n) = None"
    and pipe: "nonblocking_pipe P level cap" "pipe_accepts P"
    and wait: "k_wait K (sel_kernel (po_selector (el_poll el))) 4096 (select_timeout_ms (Some (from_millis 0))) = (Inr raw, k)"
    and room: "length raw + length cs < 4096"
    and io: "io = concat (map (dispatch_entry (sel_events_map (po_selector (el_poll el)))) raw)"
  shows "\<exists>q po. enqueue_job P (po_queue (el_poll el)) n j = Some q \<and>
    reg_inv (po_queue po) (poll_kept (rq_heap (po_queue (el_poll el))) cs) (H(n := 2)) \<and>
    same_jobs (sel_events_map (po_selector (el_poll el))) (sel_events_map (po_selector po)) \<and>
    run_once K clk P S C timeout (el\<lparr>el_poll := (el_poll el)\<lparr>po_queue := q\<rparr>\<rparr>, w) =
      do { st \<leftarrow> process_all P S C (io @ poll_entries (rq_heap (po_queue (el_poll el))) cs) (el\<lparr>el_poll := po\<rparr>, w);
           st \<leftarrow> cb_job C j 0 st;
           Some (Inr (), st) }"
proof -
  let ?q = "po_queue (el_poll el)"
  obtain q1 nd where q1: "enqueue_job P ?q n j = Some q1" "reg_inv q1 (cs @ [Node n]) (H(n := 2))"
    "others_same ?q q1 (Node n)" "rq_heap q1 (Node n) = Some nd" "node_reports nd" "\<not> node_stays nd"
    "node_entry nd = \<lparr>je_token_entry = \<lparr>ttype = OtherEvent, te_token = Token 0\<rparr>, je_job = j, je_ready = ready_empty\<rparr>"
    using enqueue_job_inv[OF inv free pipe(2)] by blast
  have "Node n \<notin> set cs" using inv free rq_repr_alloc[of ?q cs "Node n"] by (auto simp: reg_inv_def)
  note l = poll_lists_others[OF inv q1(3) this]
  let ?el = "el\<lparr>el_poll := (el_poll el)\<lparr>po_queue := q1\<rparr>\<rparr>"
  have len: "length io \<le> length raw" unfolding io
    by (induction raw) (auto simp: dispatch_entry_def split: option.splits)
  have v: "cs @ [Node n] = visited (rq_heap q1) (4096 - length io) (cs @ [Node n])"
    using room len by (subst visited_all) simp_all
  have wt: "wait_time timeout (cs @ [Node n]) = Some (from_millis 0)" by (simp add: wait_time_def)
  have e: "poll_entries (rq_heap q1) (cs @ [Node n]) = poll_entries (rq_heap ?q) cs @ [node_entry nd]"
    "poll_kept (rq_heap q1) (cs @ [Node n]) = poll_kept (rq_heap ?q) cs"
    using l q1(4-6) by (simp_all add: poll_entries_def poll_kept_def)
  obtain po where po: "reg_inv (po_queue po) (poll_kept (rq_heap ?q) cs) (H(n := 2))"
    "same_jobs (sel_events_map (po_selector (el_poll el))) (sel_events_map (po_selector po))"
    "run_once K clk P S C timeout (?el, w) =
      map_option (Pair (Inr ())) (process_all P S C (io @ poll_entries (rq_heap ?q) cs @ [node_entry nd]) (?el\<lparr>el_poll := po\<rparr>, w))"
    using run_once_spec[of ?el "cs @ [Node n]" "H(n := 2)" P level cap K timeout raw k io "cs @ [Node n]" clk S C w]
      q1(2) pipe(1) wait room io v wt e by auto
  have "process_entry P S C (node_entry nd) st = cb_job C j 0 st" for st
    by (simp add: process_entry_def q1(7) ready_as_usize_def ready_empty_def)
  then have "run_once K clk P S C timeout (?el, w) =
      do { st \<leftarrow> process_all P S C (io @ poll_entries (rq_heap ?q) cs) (el\<lparr>el_poll := po\<rparr>, w);
           st \<leftarrow> cb_job C j 0 st;
           Some (Inr (), st) }"
    unfolding po(3) append_assoc[symmetric] process_all_append
    by (simp add: map_option_bind cong: option.case_cong split: bind_splits)
  then show ?thesis using q1(1) po(1,2) by blast
qed

text \<open>C4. A job given to \<open>enqueue_job\<close> runs in the next round, once, after everything that was queued
  before it, even when the round is asked to wait without limit.\<close>

theorem enqueued_job_runs:
  assumes "reg_inv (po_queue (el_poll el)) cs H" and "rq_heap (po_queue (el_poll el)) (Node n) = None"
    and "nonblocking_pipe P level cap" and "pipe_accepts P"
    and "k_wait K (sel_kernel (po_selector (el_poll el))) 4096 (select_timeout_ms (Some (from_millis 0))) = (Inr raw, k)"
    and "length raw + length cs < 4096"
    and "io = concat (map (dispatch_entry (sel_events_map (po_selector (el_poll el)))) raw)"
  shows "\<exists>q po. enqueue_job P (po_queue (el_poll el)) n j = Some q \<and>
    reg_inv (po_queue po) (poll_kept (rq_heap (po_queue (el_poll el))) cs) (H(n := 2)) \<and>
    same_jobs (sel_events_map (po_selector (el_poll el))) (sel_events_map (po_selector po)) \<and>
    run_once K clk P S C timeout (el\<lparr>el_poll := (el_poll el)\<lparr>po_queue := q\<rparr>\<rparr>, w) =
      do { st \<leftarrow> process_all P S C (io @ poll_entries (rq_heap (po_queue (el_poll el))) cs) (el\<lparr>el_poll := po\<rparr>, w);
           st \<leftarrow> cb_job C j 0 st;
           Some (Inr (), st) }"
  by (rule enqueued_round[OF assms])

text \<open>C5. A job that shuts the loop down ends \<open>run\<close>: enqueued on a loop whose other jobs do not panic,
  \<open>run\<close> returns without an error after the round that runs it.\<close>

theorem shutdown_job_stops:
  assumes inv: "reg_inv (po_queue (el_poll el)) cs H" and free: "rq_heap (po_queue (el_poll el)) (Node n) = None"
    and pipe: "nonblocking_pipe P level cap" "pipe_accepts P"
    and wait: "k_wait K (sel_kernel (po_selector (el_poll el))) 4096 (select_timeout_ms (Some (from_millis 0))) = (Inr raw, k)"
    and room: "length raw + length cs < 4096"
    and io: "io = concat (map (dispatch_entry (sel_events_map (po_selector (el_poll el)))) raw)"
    and others: "\<And>st. process_all P S C (io @ poll_entries (rq_heap (po_queue (el_poll el))) cs) st \<noteq> None"
    and job: "\<And>el w. cb_job C j 0 (el, w) = Some (el_shutdown el, w)"
  shows "\<exists>q el' w'. enqueue_job P (po_queue (el_poll el)) n j = Some q \<and>
    loop_run K clk P S C (el\<lparr>el_poll := (el_poll el)\<lparr>po_queue := q\<rparr>\<rparr>, w) = Some (Inr (), el', w') \<and>
    \<not> el_is_running el'"
proof -
  let ?el = "el\<lparr>el_run := True\<rparr>"
  obtain q po where q: "enqueue_job P (po_queue (el_poll el)) n j = Some q"
    and r: "run_once K clk P S C None (?el\<lparr>el_poll := (el_poll el)\<lparr>po_queue := q\<rparr>\<rparr>, w) =
      do { st \<leftarrow> process_all P S C (io @ poll_entries (rq_heap (po_queue (el_poll el))) cs) (?el\<lparr>el_poll := po\<rparr>, w);
           st \<leftarrow> cb_job C j 0 st;
           Some (Inr (), st) }"
    using enqueued_round[of ?el cs H n P level cap K raw k io j clk S C None w] inv free pipe wait room io by auto
  obtain el1 w1 where p: "process_all P S C (io @ poll_entries (rq_heap (po_queue (el_poll el))) cs)
      (?el\<lparr>el_poll := po\<rparr>, w) = Some (el1, w1)"
    using others by (metis not_None_eq surj_pair)
  have r': "run_once K clk P S C None (?el\<lparr>el_poll := (el_poll el)\<lparr>po_queue := q\<rparr>\<rparr>, w) =
      Some (Inr (), el_shutdown el1, w1)" unfolding r p by (simp add: job)
  have stop: "run_loop K clk P S C (el_shutdown el1, w1) = Some (Inr (), el_shutdown el1, w1)"
    by (subst run_loop.simps) (simp add: el_shutdown_def)
  have comm: "el_run el \<Longrightarrow> el\<lparr>el_poll := p\<rparr> = el\<lparr>el_run := True, el_poll := p\<rparr>"
    "el\<lparr>el_poll := p, el_run := True\<rparr> = el\<lparr>el_run := True, el_poll := p\<rparr>" for p by (cases el; simp)+
  have "loop_run K clk P S C (el\<lparr>el_poll := (el_poll el)\<lparr>po_queue := q\<rparr>\<rparr>, w) =
      run_loop K clk P S C (?el\<lparr>el_poll := (el_poll el)\<lparr>po_queue := q\<rparr>\<rparr>, w)"
    by (simp add: loop_run_def comm)
  also have "\<dots> = Some (Inr (), el_shutdown el1, w1)"
    using r' by (subst run_loop.simps) (simp add: stop)
  finally show ?thesis using q by (auto simp: el_is_running_def el_shutdown_def)
qed

text \<open>C2. Draining the timer returns, and fires the timeouts that are due. For a timer in order, a clock that does
  not run backwards, and jobs that may cancel timeouts, use the queue and deregister handles as the job
  of a connect timeout does, but set no timeouts: the timeouts pending before are divided among those fired (each once), those
  that a job cancelled, and those still pending; those fired are due, by the tick the timer has reached; none of those
  still pending is; and that tick lies after the clock's. (A timeout set for the
  current tick, which \<open>set_timeout_at\<close> puts where a poll does not look, is outside
  \<open>timer_inv\<close>: see \<open>current_tick_missed\<close>.)\<close>

theorem timers_fire:
  assumes slab: "timer_slab S sok"
    and calls: "\<And>t el w. loop_ok S sok el \<Longrightarrow> W w \<Longrightarrow>
      \<exists>el' w'. cb_timer C t (el, w) = Some (el', w') \<and> timer_job_keeps S sok el el' \<and> W w' \<and> T w \<le> T w'"
    and clock: "\<And>w. current_tick (cb_now C w) (tm_tick_ms (el_timer el)) = Some (T w)" "\<And>w. T w < - 1"
    and loop: "loop_ok S sok el" "W w" "tm_tick (el_timer el) < - 1"
  shows "\<exists>el' w' ts X. timer_drain P S C (el, w) = Some (el', w') \<and>
    timer_run P S C (el, w) ts X (el', w') \<and> distinct ts \<and> set ts \<inter> X = {} \<and>
    dom (pending S (el_timer el)) = set ts \<union> X \<union> dom (pending S (el_timer el')) \<and>
    (set ts \<union> X) \<inter> dom (pending S (el_timer el')) = {} \<and>
    (\<forall>t x. pending S (el_timer el') t = Some x \<longrightarrow> pending S (el_timer el) t = Some x) \<and>
    (\<forall>t k j. t \<in> set ts \<and> pending S (el_timer el) t = Some (k, j) \<longrightarrow> k < tm_tick (el_timer el')) \<and>
    (\<forall>t k j. pending S (el_timer el') t = Some (k, j) \<longrightarrow> tm_tick (el_timer el') \<le> k) \<and>
    T w' < tm_tick (el_timer el') \<and> timer_inv S sok (el_timer el') \<and> armed S (el_timer el')"
proof -
  obtain el' w' ts X where d: "timer_drain P S C (el, w) = Some (el', w')" "timer_run P S C (el, w) ts X (el', w')"
    "drained S sok el ts X el'" "T w' < tm_tick (el_timer el')"
    using drain_spec[where W = W and T = T and C = C and w = w and P = P, OF slab calls clock loop(1,2) refl loop(3)] by blast
  note f = d(3)[unfolded drained_def loop_ok_def]
  show ?thesis
    by (rule exI[of _ el'], rule exI[of _ w'], rule exI[of _ ts], rule exI[of _ X]) (use d(1,2,4) f in blast)
qed

subsection \<open>Concrete inputs\<close>

text \<open>A loop over the one-event kernel and the timer of theory TimerProps, and a world that is a list of
  what has been called, one call of a timer moving the clock by 100 ms.\<close>

definition one_loop :: "(string, nat, nat, string entry option list) event_loop" where
  "one_loop = \<lparr>el_run = False, el_poll = one_poll, el_timer = one_timer\<rparr>"

definition log_callbacks ::
    "(string, string, nat, nat, string entry option list, string list) callbacks" where
  "log_callbacks = \<lparr>
     cb_now = \<lambda>w. from_millis 200,
     cb_job = (\<lambda>j r st. case j of
         Job s \<Rightarrow> Some (if s = ''stop'' then (el_shutdown (fst st), snd st) else (fst st, s # snd st))
       | _ \<Rightarrow> Some st),
     cb_timer = (\<lambda>t st. Some (fst st, t # snd st))\<rparr>"

lemma one_loop_select:
  "k_wait one_event_kernel (sel_kernel (po_selector (el_poll one_loop))) 4096 t = (Inr [\<lparr>ee_events = 1, ee_u64 = 7\<rparr>], 1)"
  by (simp add: one_event_kernel_def one_poll_def one_loop_def)

lemma one_loop_inv: "reg_inv (po_queue (el_poll one_loop)) [] (\<lambda>_. 0)"
  "rq_heap (po_queue (el_poll one_loop)) (Node 0) = None"
  using fresh_queue_inv fresh_queue_free by (simp_all add: one_poll_def one_loop_def)

lemma one_loop_entries:
  "dispatch_entry (sel_events_map (po_selector (el_poll one_loop))) \<lparr>ee_events = 1, ee_u64 = 7\<rparr> =
     [\<lparr>je_token_entry = \<lparr>ttype = SocketEvent, te_token = Token 3\<rparr>, je_job = Job ''j'', je_ready = ready_of_epoll 1\<rparr>]"
  by (simp add: dispatch_entry_def one_poll_def one_loop_def)

lemma log_job: "process_entry P S log_callbacks
    \<lparr>je_token_entry = \<lparr>ttype = SocketEvent, te_token = t\<rparr>, je_job = Job ''j'', je_ready = r\<rparr> st = Some (fst st, ''j'' # snd st)"
  by (simp add: process_entry_def log_callbacks_def)

lemma log_hello: "cb_job log_callbacks (Job ''hello'') r st = Some (fst st, ''hello'' # snd st)"
  by (simp add: log_callbacks_def)

lemma one_loop_queue: "el_poll one_loop = one_poll" "po_queue one_poll = fresh_queue" "el_timer one_loop = one_timer"
  by (simp_all add: one_loop_def one_poll_def)

theorem run_once_dispatches_witness:
  "\<exists>el'. run_once one_event_kernel ms_clock (count_pipe 65536) vec_slab log_callbacks None (one_loop, []) =
     Some (Inr (), el', [''j''])"
proof -
  have "length [\<lparr>ee_events = 1 :: u32, ee_u64 = 7 :: u64\<rparr>] \<le> 4096" by simp
  from run_once_dispatches[OF one_loop_inv(1) count_pipe.nonblocking_pipe_axioms one_loop_select this refl refl,
      of ms_clock vec_slab log_callbacks None "[]"]
  show ?thesis by (auto simp: one_loop_entries poll_entries_def log_job)
qed

theorem enqueued_job_runs_witness:
  "\<exists>q el'. enqueue_job (count_pipe 65536) fresh_queue 0 (Job ''hello'') = Some q \<and>
     run_once one_event_kernel ms_clock (count_pipe 65536) vec_slab log_callbacks None
       (one_loop\<lparr>el_poll := one_poll\<lparr>po_queue := q\<rparr>\<rparr>, []) = Some (Inr (), el', [''hello'', ''j''])"
proof -
  have "length [\<lparr>ee_events = 1 :: u32, ee_u64 = 7 :: u64\<rparr>] + length ([] :: addr list) < 4096" by simp
  from enqueued_job_runs[OF one_loop_inv count_pipe.nonblocking_pipe_axioms count_pipe_accepts one_loop_select this refl,
      of "Job ''hello''" ms_clock vec_slab log_callbacks None "[]"]
  show ?thesis
    by (simp add: one_loop_entries poll_entries_def log_job)
      (auto simp: one_loop_queue log_hello)
qed

theorem shutdown_job_stops_witness:
  "\<exists>q el' w'. enqueue_job (count_pipe 65536) fresh_queue 0 (Job ''stop'') = Some q \<and>
     loop_run one_event_kernel ms_clock (count_pipe 65536) vec_slab log_callbacks
       (one_loop\<lparr>el_poll := one_poll\<lparr>po_queue := q\<rparr>\<rparr>, []) = Some (Inr (), el', w')"
proof -
  have len: "length [\<lparr>ee_events = 1 :: u32, ee_u64 = 7 :: u64\<rparr>] + length ([] :: addr list) < 4096" by simp
  have "process_all (count_pipe 65536) vec_slab log_callbacks
      (concat (map (dispatch_entry (sel_events_map (po_selector (el_poll one_loop)))) [\<lparr>ee_events = 1, ee_u64 = 7\<rparr>]) @
        poll_entries (rq_heap (po_queue (el_poll one_loop))) []) st \<noteq> None" for st
    by (simp add: one_loop_entries poll_entries_def log_job)
  moreover have "cb_job log_callbacks (Job ''stop'') 0 (el, w) = Some (el_shutdown el, w)" for el w
    by (simp add: log_callbacks_def)
  ultimately have "\<exists>q el' w'. enqueue_job (count_pipe 65536) (po_queue (el_poll one_loop)) 0 (Job ''stop'') = Some q \<and>
    loop_run one_event_kernel ms_clock (count_pipe 65536) vec_slab log_callbacks
      (one_loop\<lparr>el_poll := (el_poll one_loop)\<lparr>po_queue := q\<rparr>\<rparr>, []) = Some (Inr (), el', w') \<and> \<not> el_is_running el'"
    by (rule shutdown_job_stops[OF one_loop_inv count_pipe.nonblocking_pipe_axioms count_pipe_accepts one_loop_select len refl])
  then show ?thesis by (auto simp: one_loop_def one_poll_def)
qed

definition ok_kernel :: "nat epoll_ops" where
  "ok_kernel = \<lparr>k_ctl = \<lambda>k _ _ _. (Inr (), Suc k), k_wait = \<lambda>k _ _. (Inr [], k)\<rparr>"

text \<open>Jobs like that of a connect timeout, which clear their own timeout and deregister their socket.\<close>

definition connect_callbacks ::
    "(string, string, nat, nat, string entry option list, string list) callbacks" where
  "connect_callbacks = log_callbacks\<lparr>cb_timer := \<lambda>t st. case st of (el, w) \<Rightarrow>
     do { (_, el) \<leftarrow> el_clear_timeout vec_slab el \<lparr>to_token = Token 0, to_tick = 2\<rparr>;
          (_, el) \<leftarrow> el_deregister ok_kernel (count_pipe 65536) False el (EvSocket 7 1);
          Some (el, t # w) }\<rparr>"

lemma connect_callback:
  assumes "loop_ok vec_slab vec_slab_inv el"
  shows "\<exists>el'. cb_timer connect_callbacks t (el, w) = Some (el', t # w) \<and> timer_job_keeps vec_slab vec_slab_inv el el'"
proof -
  let ?P = "count_pipe 65536"
  obtain b el1 where c: "el_clear_timeout vec_slab el \<lparr>to_token = Token 0, to_tick = 2\<rparr> = Some (b, el1)"
    "timer_job_keeps vec_slab vec_slab_inv el el1"
    using clear_timeout_keeps[OF vec_timer.timer_slab_axioms assms] by blast
  have "\<exists>r el2. el_deregister ok_kernel ?P False el1 (EvSocket 7 1) = Some (r, el2)"
    by (simp add: el_deregister_def poll_deregister_def handle_fd_def selector_deregister_def ok_kernel_def)
  then obtain r el2 where d: "el_deregister ok_kernel ?P False el1 (EvSocket 7 1) = Some (r, el2)" by blast
  have "loop_ok vec_slab vec_slab_inv el1" using c(2) by (simp add: timer_job_keeps_def)
  from timer_job_keeps_trans[OF c(2) deregister_keeps[OF this d]] show ?thesis
    using c(1) d by (simp add: connect_callbacks_def)
qed

text \<open>At 200 ms the timeout of tick 2 fires.\<close>

theorem timers_fire_witness:
  "\<exists>el' w' X. timer_drain (count_pipe 65536) vec_slab connect_callbacks (one_loop, []) = Some (el', w') \<and>
     timer_run (count_pipe 65536) vec_slab connect_callbacks (one_loop, []) [Token 0] X (el', w') \<and>
     pending vec_slab (el_timer el') = (\<lambda>_. None)"
proof -
  have ms: "current_tick (cb_now connect_callbacks w) (tm_tick_ms (el_timer one_loop)) = Some 2" for w
    by (simp add: connect_callbacks_def log_callbacks_def one_loop_def one_timer_inner current_tick_def duration_to_tick_def
        millis_from_millis saturating_add_def)
  have tm: "el_timer one_loop = one_timer" "po_queue (el_poll one_loop) = fresh_queue"
    by (simp_all add: one_loop_def one_poll_def)
  have ok: "loop_ok vec_slab vec_slab_inv one_loop"
    using one_timer_inv fresh_queue_inv one_timer_live by (auto simp: loop_ok_def tm)
  have lim: "(2 :: tick) < - 1" "tm_tick (el_timer one_loop) < - 1"
    by (simp_all add: tm one_timer_inner word_less_nat_alt)
  have calls: "\<exists>el' w'. cb_timer connect_callbacks t (el, w) = Some (el', w') \<and>
      timer_job_keeps vec_slab vec_slab_inv el el' \<and> True \<and> (2 :: tick) \<le> 2"
    if "loop_ok vec_slab vec_slab_inv el" True for t el w using connect_callback[OF that(1)] by blast
  obtain el' w' ts X where d: "timer_drain (count_pipe 65536) vec_slab connect_callbacks (one_loop, []) = Some (el', w')"
    "timer_run (count_pipe 65536) vec_slab connect_callbacks (one_loop, []) ts X (el', w')" "distinct ts"
    "dom (pending vec_slab one_timer) = set ts \<union> X \<union> dom (pending vec_slab (el_timer el'))"
    "\<forall>t x. pending vec_slab (el_timer el') t = Some x \<longrightarrow> pending vec_slab one_timer t = Some x"
    "\<forall>t k j. pending vec_slab (el_timer el') t = Some (k, j) \<longrightarrow> tm_tick (el_timer el') \<le> k"
    "2 < tm_tick (el_timer el')"
    using timers_fire[where W = "\<lambda>_. True" and T = "\<lambda>_. 2" and w = "[]" and P = "count_pipe 65536",
      OF vec_timer.timer_slab_axioms calls ms lim(1) ok TrueI lim(2), unfolded tm] by blast
  have none: "pending vec_slab (el_timer el') = (\<lambda>_. None)"
  proof
    fix t
    show "pending vec_slab (el_timer el') t = None"
    proof (rule ccontr)
      assume "pending vec_slab (el_timer el') t \<noteq> None"
      then obtain k j where e: "pending vec_slab (el_timer el') t = Some (k, j)" by fast
      then have "pending vec_slab one_timer t = Some (k, j)" using d(5) by blast
      then have "k = 2" by (simp add: one_timer_pending split: if_splits)
      moreover have "tm_tick (el_timer el') \<le> k" using d(6) e by blast
      ultimately show False using d(7) by simp
    qed
  qed
  have "ts = [Token 0] \<or> ts = []"
  proof -
    have "set ts \<subseteq> {Token 0}" using d(4) by (auto simp: one_timer_pending)
    then show ?thesis using d(3) by (cases ts; cases "tl ts") auto
  qed
  moreover have "ts \<noteq> []"
  proof
    assume "ts = []"
    with d(2) show False
    proof cases
      case (idle tm q)
      have p: "poll_to (count_pipe 65536) vec_slab (one_timer, fresh_queue) 2 = Some (None, tm, q)"
        using idle ms[of "[]"] by (simp add: timer_poll_def tm)
      have lim2: "max 2 (tm_tick one_timer) < - 1" using lim by (simp add: tm max_def)
      from vec_timer.poll_to_inv[OF one_timer_inv lim2 fresh_queue_inv one_timer_live, of "count_pipe 65536"] p
      have "\<forall>t k st. pending vec_slab one_timer t = Some (k, st) \<longrightarrow> max 2 (tm_tick one_timer) < k" by auto
      moreover have "pending vec_slab one_timer (Token 0) = Some (2, ''t'')" by (simp add: one_timer_pending)
      ultimately have "max 2 (tm_tick one_timer) < 2" by blast
      then show False by simp
    qed simp
  qed
  ultimately show ?thesis using d(1,2) none by auto
qed

lemma loop_configured_example:
  "\<exists>el :: (string, nat, nat, string entry option list) event_loop.
     loop_configured ok_kernel vec_slab (Inr 0) 0 1 (Inr 0) 5 9 config_default = Some (Inr el, 1) \<and>
     armed vec_slab (el_timer el)"
proof -
  have c: "unat (cf_timer_wheel_size config_default) \<le> 2 ^ 63" "unat (cf_timer_capacity config_default) \<le> 2 ^ 63"
    by (simp_all add: config_default_def)
  have k: "k_ctl ok_kernel 0 EPOLL_CTL_ADD 5 \<lparr>ee_events = ioevent_to_epoll ready_readable opt_edge, ee_u64 = scast (5 :: i32)\<rparr> =
    (Inr (), Suc 0)" by (simp add: ok_kernel_def)
  from loop_configured_spec[OF vec_timer.timer_slab_axioms c _ k, of 0] show ?thesis by fastforce
qed

end
