(* ===== verification/Pool.thy ===== *)
theory Pool
  imports EventLoop
begin

section \<open>The pool of loop threads\<close>

text \<open>
  \<open>EventLoopBuilder::get_build\<close>, the current loop of a thread and \<open>EventLoopPool\<close> of
  \<open>src/net/event_loop.rs\<close>. A shared loop is known by its place in the list of all loops, a thread by a
  number; \<open>pr_current\<close> is the thread-local \<open>CURRENT_LOOP\<close>, whose initialiser panics. The maker of a
  pool waits for each thread's loop before it starts the next, so making the loops is sequential.
\<close>

record ('j, 'k, 'p, 's) process =
  pr_next_id :: usize
  pr_loops :: "('j, 'k, 'p, 's) event_loop list"
  pr_current :: "nat \<rightharpoonup> nat"

text \<open>What the calls that make a loop return: the arguments of \<open>loop_configured\<close>.\<close>

record ('k, 'p) loop_env =
  le_kernel :: "'k io_result"
  le_qid :: nat
  le_pipe :: "'p io_result"
  le_rfd :: i32
  le_node :: nat

record event_loop_builder =
  eb_config :: config
  eb_event_loop :: "nat option"

definition elb_new :: event_loop_builder where
  "elb_new = \<lparr>eb_config = config_default, eb_event_loop = None\<rparr>"

definition elb_build ::
    "'k epoll_ops \<Rightarrow> ('s, 't entry) slab_ops \<Rightarrow> ('k, 'p) loop_env \<Rightarrow> usize \<Rightarrow> event_loop_builder
       \<Rightarrow> (('j, 'k, 'p, 's) event_loop io_result \<times> usize) option" where
  "elb_build K S env next_id b =
     loop_configured K S (le_kernel env) next_id (le_qid env) (le_pipe env) (le_rfd env) (le_node env) (eb_config b)"

definition set_current_loop :: "nat \<Rightarrow> nat \<Rightarrow> ('j, 'k, 'p, 's) process \<Rightarrow> ('j, 'k, 'p, 's) process" where
  "set_current_loop thr l pr = pr\<lparr>pr_current := (pr_current pr)(thr \<mapsto> l)\<rparr>"

text \<open>\<open>None\<close> is the panic of the initialiser.\<close>

definition get_current_loop :: "nat \<Rightarrow> ('j, 'k, 'p, 's) process \<Rightarrow> nat option" where
  "get_current_loop thr pr = pr_current pr thr"

definition get_build ::
    "'k epoll_ops \<Rightarrow> ('s, 't entry) slab_ops \<Rightarrow> ('k, 'p) loop_env \<Rightarrow> nat \<Rightarrow> event_loop_builder \<Rightarrow> ('j, 'k, 'p, 's) process
       \<Rightarrow> (nat io_result \<times> event_loop_builder \<times> ('j, 'k, 'p, 's) process) option" where
  "get_build K S env thr b pr =
     do { (r, next_id) \<leftarrow> elb_build K S env (pr_next_id pr) b;
          case r of
            Inl e \<Rightarrow> None
          | Inr el \<Rightarrow>
              let l = length (pr_loops pr);
                  pr = pr\<lparr>pr_next_id := next_id, pr_loops := pr_loops pr @ [el]\<rparr>
              in Some (Inr l, b\<lparr>eb_event_loop := Some l\<rparr>, set_current_loop thr l pr) }"

subsection \<open>The pool\<close>

record loop_pool =
  lp_loops :: "nat list"
  lp_threads :: "nat list"

definition pool_builder :: event_loop_builder where
  "pool_builder = elb_new\<lparr>eb_config :=
     elb_timer_capacity (elb_timer_wheel_size (elb_timer_tick (elb_messages_per_tick
       (elb_notify_capacity (eb_config elb_new) 1048576) 64) (from_millis 100)) 1024) 65536\<rparr>"

text \<open>The closure of a thread up to the sending of its loop. If it panics the channel is closed, and the
  maker of the pool panics too.\<close>

definition pool_thread ::
    "'k epoll_ops \<Rightarrow> ('s, 't entry) slab_ops \<Rightarrow> ('k, 'p) loop_env \<Rightarrow> nat \<Rightarrow> ('j, 'k, 'p, 's) process
       \<Rightarrow> (nat \<times> ('j, 'k, 'p, 's) process) option" where
  "pool_thread K S env thr pr =
     do { (r, _, pr) \<leftarrow> get_build K S env thr pool_builder pr;
          case r of Inl e \<Rightarrow> None | Inr l \<Rightarrow> Some (l, pr) }"

text \<open>\<open>spawn i\<close> is what spawning the thread number \<open>i\<close> returned.\<close>

fun pool_loop ::
    "'k epoll_ops \<Rightarrow> ('s, 't entry) slab_ops \<Rightarrow> (nat \<Rightarrow> nat io_result) \<Rightarrow> (nat \<Rightarrow> ('k, 'p) loop_env) \<Rightarrow> nat list
       \<Rightarrow> loop_pool \<Rightarrow> ('j, 'k, 'p, 's) process \<Rightarrow> (loop_pool \<times> ('j, 'k, 'p, 's) process) option" where
  "pool_loop K S spawn env [] pool pr = Some (pool, pr)"
| "pool_loop K S spawn env (i # is) pool pr =
     (case spawn i of
        Inl e \<Rightarrow> None
      | Inr thr \<Rightarrow>
          do { (l, pr) \<leftarrow> pool_thread K S (env i) thr pr;
               pool_loop K S spawn env is
                 (pool\<lparr>lp_threads := lp_threads pool @ [thr], lp_loops := lp_loops pool @ [l]\<rparr>) pr })"

definition pool_new ::
    "'k epoll_ops \<Rightarrow> ('s, 't entry) slab_ops \<Rightarrow> (nat \<Rightarrow> nat io_result) \<Rightarrow> (nat \<Rightarrow> ('k, 'p) loop_env) \<Rightarrow> nat
       \<Rightarrow> ('j, 'k, 'p, 's) process \<Rightarrow> (loop_pool \<times> ('j, 'k, 'p, 's) process) option" where
  "pool_new K S spawn env sz pr = pool_loop K S spawn env [0..<sz] \<lparr>lp_loops = [], lp_threads = []\<rparr> pr"

text \<open>Indexing an empty pool panics.\<close>

definition get_first_poller :: "loop_pool \<Rightarrow> nat option" where
  "get_first_poller pool = (case lp_loops pool of [] \<Rightarrow> None | l # _ \<Rightarrow> Some l)"

definition get_all_poller :: "loop_pool \<Rightarrow> nat list" where
  "get_all_poller pool = lp_loops pool"

text \<open>\<open>joined t\<close> says whether thread \<open>t\<close> ended without a panic.\<close>

fun join_all :: "(nat \<Rightarrow> bool) \<Rightarrow> nat list \<Rightarrow> unit option" where
  "join_all joined [] = Some ()"
| "join_all joined (t # ts) = (if joined t then join_all joined ts else None)"

definition pool_wait :: "(nat \<Rightarrow> bool) \<Rightarrow> loop_pool \<Rightarrow> unit option" where
  "pool_wait joined pool = join_all joined (lp_threads pool)"

subsection \<open>Making a pool\<close>

text \<open>A loop fresh from its builder, with the given selector number.\<close>

definition fresh_loop ::
    "('s, 't entry) slab_ops \<Rightarrow> ('s \<Rightarrow> bool) \<Rightarrow> ('k, 'p) loop_env \<Rightarrow> usize \<Rightarrow> ('j, 'k, 'p, 's) event_loop \<Rightarrow> bool" where
  "fresh_loop S sok env i el \<longleftrightarrow>
     \<not> el_run el \<and> timer_inv S sok (el_timer el) \<and> pending S (el_timer el) = (\<lambda>_. None) \<and> armed S (el_timer el) \<and>
     reg_inv (po_queue (el_poll el)) [] ((\<lambda>_. 0)(le_node env := 3)) \<and>
     inner_live (el_timer el) (po_queue (el_poll el)) \<and> lc_filled (tm_inner (el_timer el)) \<and>
     sel_id (po_selector (el_poll el)) = i \<and>
     sel_events_map (po_selector (el_poll el)) =
       [le_rfd env \<mapsto> \<lparr>je_token_entry = notify_token, je_job = Noop, je_ready = ready_empty\<rparr>]"

definition env_ok :: "'k epoll_ops \<Rightarrow> ('k, 'p) loop_env \<Rightarrow> bool" where
  "env_ok K env \<longleftrightarrow> (\<exists>k0 k1 p0. le_kernel env = Inr k0 \<and> le_pipe env = Inr p0 \<and>
     k_ctl K k0 EPOLL_CTL_ADD (le_rfd env)
       \<lparr>ee_events = ioevent_to_epoll ready_readable opt_edge, ee_u64 = scast (le_rfd env)\<rparr> = (Inr (), k1))"

lemma pool_thread_spec:
  fixes pr :: "('j, 'k, 'p, 's) process"
  assumes slab: "timer_slab S sok" and e: "env_ok K env" and id: "pr_next_id pr \<noteq> - 1"
  shows "\<exists>el. pool_thread K S env thr pr = Some (length (pr_loops pr),
      \<lparr>pr_next_id = pr_next_id pr + 1, pr_loops = pr_loops pr @ [el], pr_current = (pr_current pr)(thr \<mapsto> length (pr_loops pr))\<rparr>) \<and>
    fresh_loop S sok env (pr_next_id pr + 1) el"
proof -
  obtain k0 k1 p0 where k: "le_kernel env = Inr k0" "le_pipe env = Inr p0"
    "k_ctl K k0 EPOLL_CTL_ADD (le_rfd env)
       \<lparr>ee_events = ioevent_to_epoll ready_readable opt_edge, ee_u64 = scast (le_rfd env)\<rparr> = (Inr (), k1)"
    using e unfolding env_ok_def by blast
  have c: "unat (cf_timer_wheel_size (eb_config pool_builder)) \<le> 2 ^ 63" "unat (cf_timer_capacity (eb_config pool_builder)) \<le> 2 ^ 63"
    by (simp_all add: pool_builder_def elb_new_def config_default_def elb_timer_capacity_def elb_timer_wheel_size_def
        elb_timer_tick_def elb_messages_per_tick_def elb_notify_capacity_def)
  obtain el :: "('j, 'k, 'p, 's) event_loop" where
    "loop_configured K S (Inr k0) (pr_next_id pr) (le_qid env) (Inr p0) (le_rfd env) (le_node env) (eb_config pool_builder)
      = Some (Inr el, pr_next_id pr + 1)" "fresh_loop S sok env (pr_next_id pr + 1) el"
    using loop_configured_spec[OF slab c id k(3), where 'j = 'j and 'p = 'p, of "le_qid env" p0 "le_node env"]
    unfolding fresh_loop_def by blast
  then show ?thesis
    using k by (intro exI[of _ el]) (simp add: pool_thread_def get_build_def elb_build_def Let_def set_current_loop_def)
qed

lemma pool_loop_spec:
  fixes pr :: "('j, 'k, 'p, 's) process"
  assumes slab: "timer_slab S sok"
  shows "(\<And>i. i \<in> set is \<Longrightarrow> spawn i = Inr (thr i) \<and> env_ok K (env i)) \<Longrightarrow> inj_on thr (set is) \<Longrightarrow> distinct is \<Longrightarrow>
    unat (pr_next_id pr) + length is < 2 ^ 64 \<Longrightarrow>
    \<exists>els cur. length els = length is \<and>
      pool_loop K S spawn env is pool pr = Some
        (pool\<lparr>lp_loops := lp_loops pool @ [length (pr_loops pr)..<length (pr_loops pr) + length is],
           lp_threads := lp_threads pool @ map thr is\<rparr>,
         \<lparr>pr_next_id = pr_next_id pr + of_nat (length is), pr_loops = pr_loops pr @ els, pr_current = cur\<rparr>) \<and>
      (\<forall>t. t \<notin> thr ` set is \<longrightarrow> cur t = pr_current pr t) \<and>
      (\<forall>n < length is. cur (thr (is ! n)) = Some (length (pr_loops pr) + n) \<and>
         fresh_loop S sok (env (is ! n)) (pr_next_id pr + of_nat (Suc n)) (els ! n))"
proof (induction "is" arbitrary: pool pr)
  case Nil
  then show ?case by (cases pr) auto
next
  case (Cons i "is")
  have "pr_next_id pr \<noteq> - 1"
    using Cons.prems(4) by auto
  then obtain el where el: "pool_thread K S (env i) (thr i) pr = Some (length (pr_loops pr),
      \<lparr>pr_next_id = pr_next_id pr + 1, pr_loops = pr_loops pr @ [el],
        pr_current = (pr_current pr)(thr i \<mapsto> length (pr_loops pr))\<rparr>)"
      "fresh_loop S sok (env i) (pr_next_id pr + 1) el"
    using pool_thread_spec[OF slab, of K "env i" pr "thr i"] Cons.prems(1) by auto
  let ?pr = "\<lparr>pr_next_id = pr_next_id pr + 1, pr_loops = pr_loops pr @ [el],
        pr_current = (pr_current pr)(thr i \<mapsto> length (pr_loops pr))\<rparr>"
  let ?pool = "pool\<lparr>lp_threads := lp_threads pool @ [thr i], lp_loops := lp_loops pool @ [length (pr_loops pr)]\<rparr>"
  have "unat (pr_next_id pr + 1) = unat (pr_next_id pr) + 1"
    using Cons.prems(4) by (simp add: unat_word_ariths)
  then have id: "unat (pr_next_id ?pr) + length is < 2 ^ 64" using Cons.prems(4) by simp
  obtain els cur where IH: "length els = length is"
    "pool_loop K S spawn env is ?pool ?pr = Some
        (?pool\<lparr>lp_loops := lp_loops ?pool @ [length (pr_loops ?pr)..<length (pr_loops ?pr) + length is],
           lp_threads := lp_threads ?pool @ map thr is\<rparr>,
         \<lparr>pr_next_id = pr_next_id ?pr + of_nat (length is), pr_loops = pr_loops ?pr @ els, pr_current = cur\<rparr>)"
    "\<And>t. t \<notin> thr ` set is \<Longrightarrow> cur t = pr_current ?pr t"
    "\<And>n. n < length is \<Longrightarrow> cur (thr (is ! n)) = Some (length (pr_loops ?pr) + n) \<and>
         fresh_loop S sok (env (is ! n)) (pr_next_id ?pr + of_nat (Suc n)) (els ! n)"
    using Cons.IH[of ?pr ?pool, OF _ _ _ id] Cons.prems(1-3) by auto
  have out: "thr i \<notin> thr ` set is" using Cons.prems(2,3) by (auto simp: inj_on_def)
  have upt: "[length (pr_loops pr)..<Suc (length (pr_loops pr) + length is)] =
      length (pr_loops pr) # [Suc (length (pr_loops pr))..<Suc (length (pr_loops pr) + length is)]"
    by (rule upt_conv_Cons) simp
  have "pool_loop K S spawn env (i # is) pool pr = Some
        (pool\<lparr>lp_loops := lp_loops pool @ [length (pr_loops pr)..<length (pr_loops pr) + length (i # is)],
           lp_threads := lp_threads pool @ map thr (i # is)\<rparr>,
         \<lparr>pr_next_id = pr_next_id pr + of_nat (length (i # is)), pr_loops = pr_loops pr @ (el # els), pr_current = cur\<rparr>)"
    using Cons.prems(1) el(1) IH(2) upt by (simp add: add.assoc)
  moreover have "cur (thr ((i # is) ! n)) = Some (length (pr_loops pr) + n) \<and>
         fresh_loop S sok (env ((i # is) ! n)) (pr_next_id pr + of_nat (Suc n)) ((el # els) ! n)"
    if "n < length (i # is)" for n
  proof (cases n)
    case 0
    then show ?thesis using el(2) IH(3)[OF out] by simp
  next
    case (Suc m)
    then show ?thesis using IH(4)[of m] that by (simp add: algebra_simps)
  qed
  ultimately show ?case using IH(1,3) out by (intro exI[of _ "el # els"] exI[of _ cur]) auto
qed

subsection \<open>Properties\<close>

text \<open>C15. A pool of \<open>sz\<close> loops: the threads are those spawned, in order; each thread's current loop is the loop
  it made, the pool hands out exactly these loops, and every one of them is complete and fresh: its
  timer armed and empty, its queue empty, its notifier registered. No two have the same selector
  number, so that a socket registered with one is refused by the others.\<close>

theorem pool_loops_ready:
  fixes pr :: "('j, 'k, 'p, 's) process"
  assumes "timer_slab S sok" and "\<And>i. i < sz \<Longrightarrow> spawn i = Inr (thr i) \<and> env_ok K (env i)" and "inj_on thr {..<sz}"
    and "unat (pr_next_id pr) + sz < 2 ^ 64" and "pr_loops pr = []"
  shows "\<exists>pool pr'. pool_new K S spawn env sz pr = Some (pool, pr') \<and>
    lp_threads pool = map thr [0..<sz] \<and> get_all_poller pool = [0..<sz] \<and> length (pr_loops pr') = sz \<and>
    (\<forall>i < sz. get_current_loop (thr i) pr' = Some i \<and>
       fresh_loop S sok (env i) (pr_next_id pr + of_nat (Suc i)) (pr_loops pr' ! i)) \<and>
    distinct (map (\<lambda>el. sel_id (po_selector (el_poll el))) (pr_loops pr'))"
proof -
  let ?pool = "\<lparr>lp_loops = [], lp_threads = []\<rparr> :: loop_pool"
  obtain els cur where p: "length els = sz"
      "pool_new K S spawn env sz pr = Some
        (\<lparr>lp_loops = [0..<sz], lp_threads = map thr [0..<sz]\<rparr>,
         \<lparr>pr_next_id = pr_next_id pr + of_nat sz, pr_loops = els, pr_current = cur\<rparr>)"
      "\<And>n. n < sz \<Longrightarrow> cur (thr n) = Some n \<and> fresh_loop S sok (env n) (pr_next_id pr + of_nat (Suc n)) (els ! n)"
    using pool_loop_spec[OF assms(1), of "[0..<sz]" spawn thr K env pr ?pool] assms(2-5)
    by (auto simp: pool_new_def lessThan_atLeast0)
  have "pr_next_id pr + of_nat (Suc i) \<noteq> pr_next_id pr + of_nat (Suc j)" if "i < sz" "j < sz" "i \<noteq> j" for i j
  proof
    assume "pr_next_id pr + of_nat (Suc i) = pr_next_id pr + of_nat (Suc j)"
    then have "unat (of_nat (Suc i) :: usize) = unat (of_nat (Suc j) :: usize)" by (simp del: of_nat_Suc)
    moreover have "Suc i < 2 ^ 64" "Suc j < 2 ^ 64" using that assms(4) by simp_all
    ultimately show False using that(3) by (simp add: unsigned_of_nat take_bit_nat_eq_self del: of_nat_Suc)
  qed
  moreover have "sel_id (po_selector (el_poll (els ! i))) = pr_next_id pr + of_nat (Suc i)" if "i < sz" for i
    using p(3)[OF that] by (simp add: fresh_loop_def)
  ultimately have "distinct (map (\<lambda>el. sel_id (po_selector (el_poll el))) els)"
    using p(1) by (simp add: distinct_conv_nth)
  then show ?thesis
    using p by (intro exI conjI) (assumption | simp add: get_all_poller_def get_current_loop_def)+
qed

subsection \<open>Concrete inputs\<close>

definition example_env :: "(nat, nat) loop_env" where
  "example_env = \<lparr>le_kernel = Inr 0, le_qid = 1, le_pipe = Inr 0, le_rfd = 5, le_node = 9\<rparr>"

definition example_process :: "(string, nat, nat, string entry option list) process" where
  "example_process = \<lparr>pr_next_id = 0, pr_loops = [], pr_current = Map.empty\<rparr>"

theorem pool_loops_ready_witness:
  "\<exists>pool pr'. pool_new ok_kernel vec_slab (\<lambda>i. Inr (i + 7)) (\<lambda>_. example_env) 2 example_process = Some (pool, pr') \<and>
    lp_threads pool = [7, 8] \<and> get_current_loop 8 pr' = Some 1 \<and> armed vec_slab (el_timer (pr_loops pr' ! 1))"
proof -
  have e: "env_ok ok_kernel example_env" by (simp add: env_ok_def example_env_def ok_kernel_def)
  have "\<exists>pool pr'. pool_new ok_kernel vec_slab (\<lambda>i. Inr (i + 7)) (\<lambda>_. example_env) 2 example_process = Some (pool, pr') \<and>
    lp_threads pool = map (\<lambda>i. i + 7) [0..<2] \<and> get_all_poller pool = [0..<2] \<and> length (pr_loops pr') = 2 \<and>
    (\<forall>i < 2. get_current_loop (i + 7) pr' = Some i \<and>
       fresh_loop vec_slab vec_slab_inv example_env (pr_next_id example_process + of_nat (Suc i)) (pr_loops pr' ! i)) \<and>
    distinct (map (\<lambda>el. sel_id (po_selector (el_poll el))) (pr_loops pr'))"
    by (rule pool_loops_ready[OF vec_timer.timer_slab_axioms, of 2 "\<lambda>i. Inr (i + 7)" "\<lambda>i. i + 7" ok_kernel "\<lambda>_. example_env" example_process])
      (use e in \<open>simp_all add: inj_on_def example_process_def\<close>)
  then show ?thesis by (force simp: fresh_loop_def numeral_2_eq_2)
qed

end
