(* ===== verification/NetIO.thy ===== *)
theory NetIO
  imports Prelude
begin

section \<open>Non-blocking reads and writes\<close>

text \<open>
  The traits \<open>MapNonBlock\<close>, \<open>TryRead\<close> and \<open>TryWrite\<close> of \<open>src/net/mod.rs\<close>. A stream is a parameter with its
  system calls, as is the \<open>BytesMut\<close> of the crate \<open>bytes\<close>; the two locales state what they document.
\<close>

text \<open>\<open>bs_chunk_mut\<close> is the length of the spare slice, which it may make room for; \<open>bs_fill\<close> writes bytes
  into it and advances. \<open>bs_split\<close> returns the contents and what is left.\<close>

record 'b bytes_ops =
  bs_with_capacity :: "nat \<Rightarrow> 'b"
  bs_chunk :: "'b \<Rightarrow> u8 list"
  bs_split :: "'b \<Rightarrow> 'b \<times> 'b"
  bs_put :: "'b \<Rightarrow> 'b \<Rightarrow> 'b"
  bs_chunk_mut :: "'b \<Rightarrow> nat \<times> 'b"
  bs_fill :: "'b \<Rightarrow> u8 list \<Rightarrow> 'b"
  bs_advance :: "'b \<Rightarrow> nat \<Rightarrow> 'b option"

definition bs_len :: "'b bytes_ops \<Rightarrow> 'b \<Rightarrow> nat" where
  "bs_len B b = length (bs_chunk B b)"

datatype shutdown = ShutRead | ShutWrite | ShutBoth

record 's stream_ops =
  ss_read :: "'s \<Rightarrow> nat \<Rightarrow> u8 list io_result \<times> 's"
  ss_write :: "'s \<Rightarrow> u8 list \<Rightarrow> nat io_result \<times> 's"
  ss_shutdown :: "'s \<Rightarrow> shutdown \<Rightarrow> unit io_result \<times> 's"

subsection \<open>Operations\<close>

definition map_non_block :: "'a io_result \<Rightarrow> 'a option io_result" where
  "map_non_block res =
     (case res of
        Inr value \<Rightarrow> Inr (Some value)
      | Inl err \<Rightarrow> if err = WouldBlock then Inr None else Inl err)"

definition try_read :: "'s stream_ops \<Rightarrow> 's \<Rightarrow> nat \<Rightarrow> u8 list option io_result \<times> 's" where
  "try_read S s n = (case ss_read S s n of (res, s) \<Rightarrow> (map_non_block res, s))"

definition try_write :: "'s stream_ops \<Rightarrow> 's \<Rightarrow> u8 list \<Rightarrow> nat option io_result \<times> 's" where
  "try_write S s src = (case ss_write S s src of (res, s) \<Rightarrow> (map_non_block res, s))"

definition try_read_buf :: "'b bytes_ops \<Rightarrow> 's stream_ops \<Rightarrow> 's \<Rightarrow> 'b \<Rightarrow> nat option io_result \<times> 's \<times> 'b" where
  "try_read_buf B S s buf =
     (case bs_chunk_mut B buf of
        (n, buf) \<Rightarrow>
          (case try_read S s n of
             (Inr (Some bytes), s) \<Rightarrow> (Inr (Some (length bytes)), s, bs_fill B buf bytes)
           | (Inr None, s) \<Rightarrow> (Inr None, s, buf)
           | (Inl e, s) \<Rightarrow> (Inl e, s, buf)))"

text \<open>\<open>None\<close> is the panic of \<open>advance\<close>.\<close>

definition try_write_buf :: "'b bytes_ops \<Rightarrow> 's stream_ops \<Rightarrow> 's \<Rightarrow> 'b \<Rightarrow> (nat option io_result \<times> 's \<times> 'b) option" where
  "try_write_buf B S s buf =
     (case try_write S s (bs_chunk B buf) of
        (res, s) \<Rightarrow>
          (case res of
             Inr (Some cnt) \<Rightarrow> do { buf \<leftarrow> bs_advance B buf cnt; Some (res, s, buf) }
           | _ \<Rightarrow> Some (res, s, buf)))"

subsection \<open>What the buffer and the socket document\<close>

locale byte_buffer =
  fixes B :: "'b bytes_ops"
  assumes chunk_new: "bs_chunk B (bs_with_capacity B n) = []"
    and chunk_split: "bs_split B b = (x, y) \<Longrightarrow> bs_chunk B x = bs_chunk B b \<and> bs_chunk B y = []"
    and chunk_put: "bs_chunk B (bs_put B b c) = bs_chunk B b @ bs_chunk B c"
    and spare: "bs_chunk_mut B b = (n, b') \<Longrightarrow>
      0 < n \<and> bs_chunk B b' = bs_chunk B b \<and> (length bs \<le> n \<longrightarrow> bs_chunk B (bs_fill B b' bs) = bs_chunk B b @ bs)"
    and chunk_advance: "n \<le> length (bs_chunk B b) \<Longrightarrow>
      \<exists>b'. bs_advance B b n = Some b' \<and> bs_chunk B b' = drop n (bs_chunk B b)"
begin

lemma len_new [simp]: "bs_len B (bs_with_capacity B n) = 0"
  by (simp add: bs_len_def chunk_new)

lemma split_cases:
  obtains x y where "bs_split B b = (x, y)" "bs_chunk B x = bs_chunk B b" "bs_chunk B y = []"
  using chunk_split by (cases "bs_split B b") blast

end

text \<open>A connected socket: \<open>incoming\<close> is what the peer has sent and nobody has read, \<open>ended\<close> says that the
  peer sends no more, \<open>outgoing\<close> is what has been written. A read of some length returns some of what
  is there, the empty list at the end, and otherwise would block; a write takes some of its bytes
  or none, and takes none only to say that it would block.\<close>

locale socket =
  fixes S :: "'s stream_ops" and incoming :: "'s \<Rightarrow> u8 list" and ended :: "'s \<Rightarrow> bool" and outgoing :: "'s \<Rightarrow> u8 list"
  assumes read_some: "incoming s \<noteq> [] \<Longrightarrow> 0 < n \<Longrightarrow>
      \<exists>bs s'. ss_read S s n = (Inr bs, s') \<and> bs \<noteq> [] \<and> length bs \<le> n \<and> incoming s = bs @ incoming s' \<and>
        ended s' = ended s \<and> outgoing s' = outgoing s"
    and read_wait: "incoming s = [] \<Longrightarrow> \<not> ended s \<Longrightarrow> ss_read S s n = (Inl WouldBlock, s)"
    and read_end: "incoming s = [] \<Longrightarrow> ended s \<Longrightarrow> ss_read S s n = (Inr [], s)"
    and write_some: "src \<noteq> [] \<Longrightarrow> ss_write S s src = (Inr k, s') \<Longrightarrow>
      0 < k \<and> k \<le> length src \<and> outgoing s' = outgoing s @ take k src \<and> incoming s' = incoming s \<and> ended s' = ended s"
    and write_none: "ss_write S s src = (Inl e, s') \<Longrightarrow> outgoing s' = outgoing s \<and> incoming s' = incoming s \<and> ended s' = ended s"

text \<open>Reading a socket into a buffer.\<close>

locale buffered_socket = byte_buffer B + socket S incoming ended outgoing
  for B :: "'b bytes_ops" and S :: "'s stream_ops" and incoming :: "'s \<Rightarrow> u8 list" and ended :: "'s \<Rightarrow> bool"
    and outgoing :: "'s \<Rightarrow> u8 list"
begin

lemma read_buf_some:
  assumes "incoming s \<noteq> []"
  shows "\<exists>r s' b' bs. try_read_buf B S s b = (Inr (Some r), s', b') \<and> 0 < r \<and> incoming s = bs @ incoming s' \<and>
    bs_chunk B b' = bs_chunk B b @ bs \<and> length (incoming s') < length (incoming s) \<and> ended s' = ended s \<and>
    (\<exists>n > 0. s' = snd (ss_read S s n))"
proof -
  obtain n c where c: "bs_chunk_mut B b = (n, c)" by (cases "bs_chunk_mut B b")
  note sp = spare[OF c]
  obtain bs s' where r: "ss_read S s n = (Inr bs, s')" "bs \<noteq> []" "length bs \<le> n" "incoming s = bs @ incoming s'" "ended s' = ended s"
    using read_some[OF assms, of n] sp by blast
  have "try_read_buf B S s b = (Inr (Some (length bs)), s', bs_fill B c bs)"
    by (simp add: try_read_buf_def c try_read_def r(1) map_non_block_def)
  moreover have "bs_chunk B (bs_fill B c bs) = bs_chunk B b @ bs" "0 < n" using sp r(3) by blast+
  moreover have "\<exists>n > 0. s' = snd (ss_read S s n)" using calculation(3) r(1) by (intro exI[of _ n]) simp
  ultimately show ?thesis using r by (intro exI conjI) (assumption | simp)+
qed

lemma read_buf_none:
  assumes "incoming s = []"
  shows "\<exists>b'. try_read_buf B S s b = (Inr (if ended s then Some 0 else None), s, b') \<and> bs_chunk B b' = bs_chunk B b"
proof -
  obtain n c where c: "bs_chunk_mut B b = (n, c)" by (cases "bs_chunk_mut B b")
  note sp = spare[OF c]
  show ?thesis
  proof (cases "ended s")
    case True
    then have "try_read_buf B S s b = (Inr (Some 0), s, bs_fill B c [])"
      by (simp add: try_read_buf_def c try_read_def read_end[OF assms] map_non_block_def)
    moreover have "bs_chunk B (bs_fill B c []) = bs_chunk B b" using sp[of "[]"] by simp
    ultimately show ?thesis using True by simp
  next
    case False
    then show ?thesis
      using sp by (simp add: try_read_buf_def c try_read_def read_wait[OF assms] map_non_block_def)
  qed
qed

lemma write_buf:
  assumes "bs_chunk B b \<noteq> []"
  shows "\<exists>res s' b'. try_write_buf B S s b = Some (res, s', b') \<and>
    (case fst (ss_write S s (bs_chunk B b)) of
       Inr k \<Rightarrow> res = Inr (Some k) \<and> 0 < k \<and> k \<le> bs_len B b \<and> bs_chunk B b' = drop k (bs_chunk B b) \<and>
         outgoing s' = outgoing s @ take k (bs_chunk B b)
     | Inl e \<Rightarrow> res = (if e = WouldBlock then Inr None else Inl e) \<and> b' = b \<and> outgoing s' = outgoing s) \<and>
    s' = snd (ss_write S s (bs_chunk B b))"
proof -
  obtain r s' where w: "ss_write S s (bs_chunk B b) = (r, s')" by (cases "ss_write S s (bs_chunk B b)")
  show ?thesis
  proof (cases r)
    case (Inl e)
    then show ?thesis using write_none[of s "bs_chunk B b" e s'] w
      by (auto simp: try_write_buf_def try_write_def map_non_block_def)
  next
    case (Inr k)
    note k = write_some[OF assms w[unfolded Inr]]
    then obtain b' where "bs_advance B b k = Some b'" "bs_chunk B b' = drop k (bs_chunk B b)"
      using chunk_advance by blast
    then show ?thesis using k w Inr by (simp add: try_write_buf_def try_write_def map_non_block_def bs_len_def)
  qed
qed

lemma read_keeps_outgoing: "0 < n \<Longrightarrow> outgoing (snd (ss_read S s n)) = outgoing s"
  using read_some[of s n] read_wait[of s n] read_end[of s n] by (cases "incoming s = []"; cases "ended s") auto

end

text \<open>A socket whose send buffer has a known \<open>room\<close>: what fits is written whole.\<close>

locale roomy_socket = buffered_socket B S incoming ended outgoing
  for B :: "'b bytes_ops" and S :: "'s stream_ops" and incoming :: "'s \<Rightarrow> u8 list" and ended :: "'s \<Rightarrow> bool"
    and outgoing :: "'s \<Rightarrow> u8 list" +
  fixes room :: "'s \<Rightarrow> nat"
  assumes read_room: "room (snd (ss_read S s n)) = room s"
    and write_room: "src \<noteq> [] \<Longrightarrow> length src \<le> room s \<Longrightarrow>
      \<exists>s'. ss_write S s src = (Inr (length src), s') \<and> room s' = room s - length src"
begin

lemma read_keeps: "0 < n \<Longrightarrow> outgoing s = out \<and> room s = m \<Longrightarrow>
    outgoing (snd (ss_read S s n)) = out \<and> room (snd (ss_read S s n)) = m"
  using read_keeps_outgoing read_room by simp

end

subsection \<open>A list buffer and a scripted socket\<close>

text \<open>The buffer is its contents and its spare capacity, and grows by 64 bytes when it is full.\<close>

definition list_bytes :: "(u8 list \<times> nat) bytes_ops" where
  "list_bytes = \<lparr>
     bs_with_capacity = \<lambda>n. ([], n),
     bs_chunk = fst,
     bs_split = \<lambda>b. (b, ([], snd b)),
     bs_put = \<lambda>b c. (fst b @ fst c, snd b - length (fst c)),
     bs_chunk_mut = \<lambda>b. (if snd b = 0 then (64, (fst b, 64)) else (snd b, b)),
     bs_fill = \<lambda>b bs. (fst b @ bs, snd b - length bs),
     bs_advance = \<lambda>b n. (if n \<le> length (fst b) then Some (drop n (fst b), snd b) else None)\<rparr>"

text \<open>A socket whose send buffer takes \<open>sk_room\<close> bytes more.\<close>

record sock =
  sk_in :: "u8 list"
  sk_ended :: bool
  sk_out :: "u8 list"
  sk_room :: nat

definition list_socket :: "sock stream_ops" where
  "list_socket = \<lparr>
     ss_read = \<lambda>s n.
       (if sk_in s \<noteq> [] then (Inr (take n (sk_in s)), s\<lparr>sk_in := drop n (sk_in s)\<rparr>)
        else if sk_ended s then (Inr [], s) else (Inl WouldBlock, s)),
     ss_write = \<lambda>s src.
       (if sk_room s = 0 then (Inl WouldBlock, s)
        else (Inr (min (sk_room s) (length src)),
              s\<lparr>sk_out := sk_out s @ take (sk_room s) src, sk_room := sk_room s - length src\<rparr>)),
     ss_shutdown = \<lambda>s how. (Inr (), s)\<rparr>"

interpretation list_io: buffered_socket list_bytes list_socket sk_in sk_ended sk_out
proof unfold_locales
  show "0 < k \<and> k \<le> length src \<and> sk_out s' = sk_out s @ take k src \<and> sk_in s' = sk_in s \<and> sk_ended s' = sk_ended s"
    if "src \<noteq> []" "ss_write list_socket s src = (Inr k, s')" for src s k s'
    using that by (auto simp: list_socket_def min_def split: if_splits)
  show "sk_out s' = sk_out s \<and> sk_in s' = sk_in s \<and> sk_ended s' = sk_ended s"
    if "ss_write list_socket s src = (Inl e, s')" for s src e s'
    using that by (auto simp: list_socket_def split: if_splits)
qed (auto simp: list_bytes_def list_socket_def split: if_splits)

interpretation list_room: roomy_socket list_bytes list_socket sk_in sk_ended sk_out sk_room
  by unfold_locales (auto simp: list_socket_def min_def)

end
