(* ===== verification/Connection.thy ===== *)
theory Connection
  imports EventLoop NetIO
begin

section \<open>A connection\<close>

text \<open>
  \<open>TcpConnection\<close> of \<open>src/net/connection.rs\<close>: a stream registered with an event loop, a buffer to read
  into, two to write from, and three jobs. A job is either the default one or a call of a
  handler, which is a parameter: a function of the world around the connection, that is of the event
  loop and of the rest. The connection itself is locked while its jobs run and so is not part
  of that world. \<open>None\<close> is a panic, or an endless read.
\<close>

datatype 'h conn_job = DefaultJob | HandlerJob 'h

record ('b, 's, 'h) tcp_connection =
  tc_handle :: evented
  tc_stream :: 's
  tc_read_buffer :: "'b option"
  tc_sending :: "'b option"
  tc_waiting :: "'b option"
  tc_read_job :: "'h conn_job"
  tc_writ_job :: "'h conn_job"
  tc_close_job :: "'h conn_job"
  tc_read_enabled :: bool
  tc_write_enabled :: bool
  tc_read_triggered :: bool
  tc_write_triggered :: bool
  tc_closed :: bool

text \<open>The handlers' calls and the other parameters of the operations.\<close>

record ('b, 's, 'k, 'p, 'h, 'e) net =
  nt_bytes :: "'b bytes_ops"
  nt_stream :: "'s stream_ops"
  nt_epoll :: "'k epoll_ops"
  nt_pipe :: "'p pipe_ops"
  nt_debug :: bool
  nt_recv :: "'h \<Rightarrow> 'b \<Rightarrow> 'e \<Rightarrow> ('b \<times> 'e) option"
  nt_written :: "'h \<Rightarrow> 'e \<Rightarrow> (bool \<times> 'e) option"
  nt_error :: "'h \<Rightarrow> 'e \<Rightarrow> 'e option"

type_synonym ('j, 'k, 'p, 't, 'w) world = "('j, 'k, 'p, 't) event_loop \<times> 'w"

definition unwrap :: "'a io_result \<Rightarrow> 'a option" where
  "unwrap r = (case r of Inl _ \<Rightarrow> None | Inr x \<Rightarrow> Some x)"

lemma unwrap_simps [simp]: "unwrap (Inr x) = Some x" "unwrap (Inl e) = None"
  by (simp_all add: unwrap_def)

subsection \<open>Construction and settings\<close>

definition conn_new :: "('b, 's, 'k, 'p, 'h, 'e) net \<Rightarrow> evented \<Rightarrow> 's \<Rightarrow> ('b, 's, 'h) tcp_connection" where
  "conn_new N handle stream = \<lparr>
     tc_handle = handle, tc_stream = stream,
     tc_read_buffer = Some (bs_with_capacity (nt_bytes N) 1024),
     tc_sending = Some (bs_with_capacity (nt_bytes N) 1024),
     tc_waiting = Some (bs_with_capacity (nt_bytes N) 1024),
     tc_read_job = DefaultJob, tc_writ_job = DefaultJob, tc_close_job = DefaultJob,
     tc_read_enabled = True, tc_write_enabled = True,
     tc_read_triggered = False, tc_write_triggered = False, tc_closed = False\<rparr>"

definition conn_connected :: "('b, 's, 'h) tcp_connection \<Rightarrow> bool" where
  "conn_connected c \<longleftrightarrow> tc_read_triggered c \<or> tc_write_triggered c"

definition set_read_job :: "('b, 's, 'h) tcp_connection \<Rightarrow> 'h conn_job \<Rightarrow> ('b, 's, 'h) tcp_connection" where
  "set_read_job c job = c\<lparr>tc_read_job := job\<rparr>"

definition set_writ_job :: "('b, 's, 'h) tcp_connection \<Rightarrow> 'h conn_job \<Rightarrow> ('b, 's, 'h) tcp_connection" where
  "set_writ_job c job = c\<lparr>tc_writ_job := job\<rparr>"

definition set_close_job :: "('b, 's, 'h) tcp_connection \<Rightarrow> 'h conn_job \<Rightarrow> ('b, 's, 'h) tcp_connection" where
  "set_close_job c job = c\<lparr>tc_close_job := job\<rparr>"

definition set_enabled :: "('b, 's, 'h) tcp_connection \<Rightarrow> bool \<Rightarrow> ('b, 's, 'h) tcp_connection" where
  "set_enabled c enable = c\<lparr>tc_read_enabled := enable, tc_write_enabled := enable\<rparr>"

subsection \<open>Running a job\<close>

definition run_read_job :: "('b, 's, 'k, 'p, 'h, 'e) net \<Rightarrow> 'h conn_job \<Rightarrow> 'b \<Rightarrow> 'e \<Rightarrow> ('b \<times> 'e) option" where
  "run_read_job N job buf st = (case job of DefaultJob \<Rightarrow> Some (buf, st) | HandlerJob h \<Rightarrow> nt_recv N h buf st)"

definition run_writ_job :: "('b, 's, 'k, 'p, 'h, 'e) net \<Rightarrow> 'h conn_job \<Rightarrow> 'e \<Rightarrow> (bool \<times> 'e) option" where
  "run_writ_job N job st = (case job of DefaultJob \<Rightarrow> Some (True, st) | HandlerJob h \<Rightarrow> nt_written N h st)"

definition run_close_job :: "('b, 's, 'k, 'p, 'h, 'e) net \<Rightarrow> 'h conn_job \<Rightarrow> 'e \<Rightarrow> 'e option" where
  "run_close_job N job st = (case job of DefaultJob \<Rightarrow> Some st | HandlerJob h \<Rightarrow> nt_error N h st)"

subsection \<open>Closing\<close>

definition close_stream ::
    "('b, 's, 'k, 'p, 'h, ('j, 'k, 'p, 't, 'w) world) net \<Rightarrow> ('b, 's, 'h) tcp_connection
       \<Rightarrow> ('j, 'k, 'p, 't, 'w) world \<Rightarrow> ('j, 'k, 'p, 't, 'w) world option" where
  "close_stream N c st =
     (case st of (el, w) \<Rightarrow>
        do { (r, el) \<leftarrow> el_deregister (nt_epoll N) (nt_pipe N) (nt_debug N) el (tc_handle c);
             _ \<leftarrow> unwrap r;
             Some (el, w) })"

definition handle_close ::
    "('b, 's, 'k, 'p, 'h, ('j, 'k, 'p, 't, 'w) world) net
       \<Rightarrow> ('b, 's, 'h) tcp_connection \<times> ('j, 'k, 'p, 't, 'w) world
       \<Rightarrow> (unit io_result \<times> ('b, 's, 'h) tcp_connection \<times> ('j, 'k, 'p, 't, 'w) world) option" where
  "handle_close N cst =
     (case cst of (c, st) \<Rightarrow>
        if tc_closed c then Some (Inr (), c, st)
        else do { let c = (set_enabled c False)\<lparr>tc_closed := True\<rparr>;
                  st \<leftarrow> run_close_job N (tc_close_job c) st;
                  st \<leftarrow> close_stream N c st;
                  Some (Inr (), c, st) })"

text \<open>\<open>handle_close().unwrap()\<close>.\<close>

definition close_unwrap ::
    "('b, 's, 'k, 'p, 'h, ('j, 'k, 'p, 't, 'w) world) net
       \<Rightarrow> ('b, 's, 'h) tcp_connection \<times> ('j, 'k, 'p, 't, 'w) world
       \<Rightarrow> (('b, 's, 'h) tcp_connection \<times> ('j, 'k, 'p, 't, 'w) world) option" where
  "close_unwrap N cst = do { (r, c, st) \<leftarrow> handle_close N cst; _ \<leftarrow> unwrap r; Some (c, st) }"

definition conn_shutdown ::
    "('b, 's, 'k, 'p, 'h, 'e) net \<Rightarrow> ('b, 's, 'h) tcp_connection \<Rightarrow> shutdown
       \<Rightarrow> unit io_result \<times> ('b, 's, 'h) tcp_connection" where
  "conn_shutdown N c how =
     (let c = (if how = ShutRead then c\<lparr>tc_read_enabled := False\<rparr>
               else if how = ShutWrite then c\<lparr>tc_write_enabled := False\<rparr>
               else set_enabled c False)
      in case ss_shutdown (nt_stream N) (tc_stream c) how of (r, s) \<Rightarrow> (r, c\<lparr>tc_stream := s\<rparr>))"

subsection \<open>Reading\<close>

partial_function (option) handle_read ::
    "('b, 's, 'k, 'p, 'h, ('j, 'k, 'p, 't, 'w) world) net
       \<Rightarrow> ('b, 's, 'h) tcp_connection \<times> ('j, 'k, 'p, 't, 'w) world
       \<Rightarrow> (unit io_result \<times> ('b, 's, 'h) tcp_connection \<times> ('j, 'k, 'p, 't, 'w) world) option" where
  "handle_read N cst =
     (case cst of (c, st) \<Rightarrow>
        do { buf \<leftarrow> tc_read_buffer c;
             let (res, s, buf) = try_read_buf (nt_bytes N) (nt_stream N) (tc_stream c) buf;
             let c = c\<lparr>tc_stream := s, tc_read_buffer := Some buf\<rparr>;
             case res of
               Inr None \<Rightarrow> Some (Inr (), c\<lparr>tc_read_triggered := False\<rparr>, st)
             | Inr (Some r) \<Rightarrow>
                 do { (buf, st) \<leftarrow> run_read_job N (tc_read_job c) buf st;
                      let c = c\<lparr>tc_read_buffer := Some buf\<rparr>;
                      if 0 < r then handle_read N (c, st)
                      else do { cst \<leftarrow> close_unwrap N (c\<lparr>tc_read_triggered := False\<rparr>, st);
                                Some (Inr (), cst) } }
             | Inl e \<Rightarrow>
                 do { cst \<leftarrow> close_unwrap N (c\<lparr>tc_read_triggered := False\<rparr>, st);
                      Some (Inr (), cst) } })"

subsection \<open>Writing\<close>

text \<open>The part of \<open>write_data\<close> that chooses what to write: \<open>None\<close> in the pair when nothing is there.\<close>

definition take_to_write ::
    "('b, 's, 'k, 'p, 'h, 'e) net \<Rightarrow> ('b, 's, 'h) tcp_connection \<Rightarrow> ('b option \<times> ('b, 's, 'h) tcp_connection) option" where
  "take_to_write N c =
     (let B = nt_bytes N; buf_tmp = bs_with_capacity B 1024 in
      do { buf_snd \<leftarrow> tc_sending c;
           let (buf_tmp, c) = (if 0 < bs_len B buf_snd
             then case bs_split B buf_snd of (x, y) \<Rightarrow> (x, c\<lparr>tc_sending := Some y\<rparr>)
             else (buf_tmp, c));
           if bs_len B buf_tmp = 0
           then do { buf \<leftarrow> tc_waiting c;
                     if 0 < bs_len B buf
                     then case bs_split B buf of (x, y) \<Rightarrow> Some (Some x, c\<lparr>tc_waiting := Some y\<rparr>)
                     else Some (None, c) }
           else Some (Some buf_tmp, c) })"

definition write_data ::
    "('b, 's, 'k, 'p, 'h, ('j, 'k, 'p, 't, 'w) world) net
       \<Rightarrow> ('b, 's, 'h) tcp_connection \<times> ('j, 'k, 'p, 't, 'w) world
       \<Rightarrow> (unit io_result \<times> ('b, 's, 'h) tcp_connection \<times> ('j, 'k, 'p, 't, 'w) world) option" where
  "write_data N cst =
     (case cst of (c, st) \<Rightarrow>
        do { (b, c) \<leftarrow> take_to_write N c;
             case b of
               None \<Rightarrow> Some (Inr (), c, st)
             | Some buf \<Rightarrow>
                 do { (res, s, buf) \<leftarrow> try_write_buf (nt_bytes N) (nt_stream N) (tc_stream c) buf;
                      let c = c\<lparr>tc_stream := s\<rparr>;
                      case res of
                        Inr None \<Rightarrow> Some (Inr (), c\<lparr>tc_write_triggered := False\<rparr>, st)
                      | Inr (Some _) \<Rightarrow>
                          if 0 < bs_len (nt_bytes N) buf then Some (Inr (), c, st)
                          else do { let c = c\<lparr>tc_write_triggered := False\<rparr>;
                                    (ret, st) \<leftarrow> run_writ_job N (tc_writ_job c) st;
                                    cst \<leftarrow> (if ret then Some (c, st) else close_unwrap N (c, st));
                                    Some (Inr (), cst) }
                      | Inl e \<Rightarrow>
                          do { cst \<leftarrow> close_unwrap N (c\<lparr>tc_write_triggered := False\<rparr>, st);
                               Some (Inr (), cst) } } })"

definition write_unwrap ::
    "('b, 's, 'k, 'p, 'h, ('j, 'k, 'p, 't, 'w) world) net
       \<Rightarrow> ('b, 's, 'h) tcp_connection \<times> ('j, 'k, 'p, 't, 'w) world
       \<Rightarrow> (('b, 's, 'h) tcp_connection \<times> ('j, 'k, 'p, 't, 'w) world) option" where
  "write_unwrap N cst = do { (r, c, st) \<leftarrow> write_data N cst; _ \<leftarrow> unwrap r; Some (c, st) }"

definition conn_send ::
    "('b, 's, 'k, 'p, 'h, ('j, 'k, 'p, 't, 'w) world) net
       \<Rightarrow> ('b, 's, 'h) tcp_connection \<times> ('j, 'k, 'p, 't, 'w) world \<Rightarrow> 'b
       \<Rightarrow> (nat io_result \<times> ('b, 's, 'h) tcp_connection \<times> ('j, 'k, 'p, 't, 'w) world) option" where
  "conn_send N cst bytes =
     (case cst of (c, st) \<Rightarrow>
        if \<not> tc_write_enabled c then Some (Inr 0, c, st)
        else let len = bs_len (nt_bytes N) bytes in
          if len = 0 then Some (Inr 0, c, st)
          else do { buffer \<leftarrow> tc_waiting c;
                    cst \<leftarrow> write_unwrap N (c\<lparr>tc_waiting := Some (bs_put (nt_bytes N) buffer bytes)\<rparr>, st);
                    Some (Inr len, cst) })"

definition handle_write ::
    "('b, 's, 'k, 'p, 'h, ('j, 'k, 'p, 't, 'w) world) net
       \<Rightarrow> ('b, 's, 'h) tcp_connection \<times> ('j, 'k, 'p, 't, 'w) world
       \<Rightarrow> (unit io_result \<times> ('b, 's, 'h) tcp_connection \<times> ('j, 'k, 'p, 't, 'w) world) option" where
  "handle_write N cst =
     (case cst of (c, st) \<Rightarrow>
        do { waiting \<leftarrow> tc_waiting c;
             sending \<leftarrow> tc_sending c;
             if bs_len (nt_bytes N) waiting = 0 \<and> bs_len (nt_bytes N) sending = 0
             then Some (Inr (), c, st)
             else do { cst \<leftarrow> write_unwrap N (c, st); Some (Inr (), cst) } })"

subsection \<open>Events\<close>

definition handle_event ::
    "('b, 's, 'k, 'p, 'h, ('j, 'k, 'p, 't, 'w) world) net
       \<Rightarrow> ('b, 's, 'h) tcp_connection \<times> ('j, 'k, 'p, 't, 'w) world \<Rightarrow> i64
       \<Rightarrow> (unit io_result \<times> ('b, 's, 'h) tcp_connection \<times> ('j, 'k, 'p, 't, 'w) world) option" where
  "handle_event N cst event =
     (case cst of (c, st) \<Rightarrow>
        let ready = ready_from_usize event in
        do { (c, st) \<leftarrow>
               (if ready_is_readable ready
                then do { (r, c, st) \<leftarrow> handle_read N (c\<lparr>tc_read_triggered := True\<rparr>, st); _ \<leftarrow> unwrap r; Some (c, st) }
                else Some (c, st));
             (c, st) \<leftarrow>
               (if ready_is_writable ready
                then do { (r, c, st) \<leftarrow> handle_write N (c\<lparr>tc_write_triggered := True\<rparr>, st); _ \<leftarrow> unwrap r; Some (c, st) }
                else Some (c, st));
             (c, st) \<leftarrow>
               (if ready_is_error ready \<or> ready_is_hup ready
                then close_unwrap N (c\<lparr>tc_read_triggered := True, tc_write_triggered := True\<rparr>, st)
                else Some (c, st));
             Some (Inr (), c, st) })"

lemma bind_pair: "m \<bind> (\<lambda>x. Some (a, x)) = map_option (Pair a) m"
  by (cases m) simp_all

subsection \<open>Reading delivers everything\<close>

text \<open>A handler that takes all it is given; \<open>got\<close> is what it has received.\<close>

definition takes_all :: "('b, 's, 'k, 'p, 'h, 'e) net \<Rightarrow> 'h conn_job \<Rightarrow> ('e \<Rightarrow> u8 list) \<Rightarrow> bool" where
  "takes_all N job got \<longleftrightarrow> (\<forall>b st. \<exists>b' st'. run_read_job N job b st = Some (b', st') \<and>
     bs_chunk (nt_bytes N) b' = [] \<and> got st' = got st @ bs_chunk (nt_bytes N) b)"

text \<open>Reading to the end keeps any statement \<open>J\<close> about what is in the buffer, what is yet to come and the world that
  each call of the job keeps, and any statement \<open>R\<close> about the stream that each read keeps.\<close>

definition job_keeps ::
    "('b, 's, 'k, 'p, 'h, 'e) net \<Rightarrow> 'h conn_job \<Rightarrow> (u8 list \<Rightarrow> u8 list \<Rightarrow> 'e \<Rightarrow> bool) \<Rightarrow> bool" where
  "job_keeps N job J \<longleftrightarrow> (\<forall>held bs rest b st. J held (bs @ rest) st \<longrightarrow> bs_chunk (nt_bytes N) b = held @ bs \<longrightarrow>
     (\<exists>b' st'. run_read_job N job b st = Some (b', st') \<and> J (bs_chunk (nt_bytes N) b') rest st'))"

lemma read_inv:
  assumes io: "buffered_socket (nt_bytes N) (nt_stream N) incoming ended outgoing"
    and job: "job_keeps N (tc_read_job c) J"
    and R: "\<And>s n. R s \<Longrightarrow> 0 < n \<Longrightarrow> R (snd (ss_read (nt_stream N) s n))"
  shows "tc_read_buffer c = Some b \<Longrightarrow> R (tc_stream c) \<Longrightarrow> J (bs_chunk (nt_bytes N) b) (incoming (tc_stream c)) st \<Longrightarrow>
    \<exists>s' b' st'. incoming s' = [] \<and> R s' \<and> J (bs_chunk (nt_bytes N) b') [] st' \<and> ended s' = ended (tc_stream c) \<and>
      handle_read N (c, st) =
        (let c' = c\<lparr>tc_stream := s', tc_read_buffer := Some b', tc_read_triggered := False\<rparr>
         in if ended (tc_stream c) then map_option (Pair (Inr ())) (close_unwrap N (c', st')) else Some (Inr (), c', st'))"
  using job
proof (induction "length (incoming (tc_stream c))" arbitrary: c b st rule: less_induct)
  case less
  let ?B = "nt_bytes N" and ?s = "tc_stream c"
  have step: "\<exists>b' st'. run_read_job N (tc_read_job c) b st = Some (b', st') \<and> J (bs_chunk ?B b') rest st'"
    if "J held (bs @ rest) st" "bs_chunk ?B b = held @ bs" for held bs rest b st
    using less.prems(4) that unfolding job_keeps_def by blast
  show ?case
  proof (cases "incoming ?s = []")
    case True
    obtain b1 where r: "try_read_buf ?B (nt_stream N) ?s b = (Inr (if ended ?s then Some 0 else None), ?s, b1)"
      "bs_chunk ?B b1 = bs_chunk ?B b"
      using buffered_socket.read_buf_none[OF io True, of b] by auto
    obtain b2 st2 where j: "run_read_job N (tc_read_job c) b1 st = Some (b2, st2)" "J (bs_chunk ?B b2) [] st2"
      using step[of "bs_chunk ?B b" "[]" "[]" st b1] less.prems(3) r(2) True by auto
    show ?thesis
    proof (cases "ended ?s")
      case e: True
      have "handle_read N (c, st) = map_option (Pair (Inr ()))
          (close_unwrap N (c\<lparr>tc_stream := ?s, tc_read_buffer := Some b2, tc_read_triggered := False\<rparr>, st2))"
        using less.prems(1) r(1) e j(1)
        by (subst handle_read.simps) (simp add: bind_pair)
      then show ?thesis using True e j(2) less.prems(2) by (intro exI[of _ ?s] exI[of _ b2] exI[of _ st2]) simp
    next
      case e: False
      have "handle_read N (c, st) = Some (Inr (), c\<lparr>tc_stream := ?s, tc_read_buffer := Some b1, tc_read_triggered := False\<rparr>, st)"
        using less.prems(1) r(1) e by (subst handle_read.simps) simp
      then show ?thesis using True e r(2) less.prems(2,3) by (intro exI[of _ ?s] exI[of _ b1] exI[of _ st]) simp
    qed
  next
    case False
    obtain r s1 b1 bs n where r: "try_read_buf ?B (nt_stream N) ?s b = (Inr (Some r), s1, b1)" "0 < r"
      "incoming ?s = bs @ incoming s1" "bs_chunk ?B b1 = bs_chunk ?B b @ bs" "length (incoming s1) < length (incoming ?s)"
      "ended s1 = ended ?s" "0 < n" "s1 = snd (ss_read (nt_stream N) ?s n)"
      using buffered_socket.read_buf_some[OF io False, of b] by blast
    obtain b2 st2 where j: "run_read_job N (tc_read_job c) b1 st = Some (b2, st2)" "J (bs_chunk ?B b2) (incoming s1) st2"
      using step[of "bs_chunk ?B b" bs "incoming s1" st b1] less.prems(3) r(3,4) by auto
    let ?c = "c\<lparr>tc_stream := s1, tc_read_buffer := Some b2\<rparr>"
    have go: "handle_read N (c, st) = handle_read N (?c, st2)"
      using less.prems(1) r(1,2) j(1) by (subst handle_read.simps) simp
    have "length (incoming (tc_stream ?c)) < length (incoming ?s)" "R (tc_stream ?c)"
      using r(5,7,8) R[OF less.prems(2)] by simp_all
    from less.hyps[OF this(1) _ this(2), of b2 st2] j(2) less.prems(4)
    obtain s' b' st' where IH: "incoming s' = []" "R s'" "J (bs_chunk ?B b') [] st'" "ended s' = ended s1"
      "handle_read N (?c, st2) = (let c' = ?c\<lparr>tc_stream := s', tc_read_buffer := Some b', tc_read_triggered := False\<rparr>
         in if ended s1 then map_option (Pair (Inr ())) (close_unwrap N (c', st')) else Some (Inr (), c', st'))"
      by auto
    then show ?thesis using r(6) go by (intro exI[of _ s'] exI[of _ b'] exI[of _ st']) (simp add: Let_def)
  qed
qed

lemma read_spec:
  assumes io: "buffered_socket (nt_bytes N) (nt_stream N) incoming ended outgoing"
    and job: "takes_all N (tc_read_job c) got"
    and b: "tc_read_buffer c = Some b" "bs_chunk (nt_bytes N) b = []"
  shows "\<exists>s' b' st'. incoming s' = [] \<and> bs_chunk (nt_bytes N) b' = [] \<and>
      got st' = got st @ incoming (tc_stream c) \<and> ended s' = ended (tc_stream c) \<and>
      handle_read N (c, st) =
        (let c' = c\<lparr>tc_stream := s', tc_read_buffer := Some b', tc_read_triggered := False\<rparr>
         in if ended (tc_stream c) then map_option (Pair (Inr ())) (close_unwrap N (c', st')) else Some (Inr (), c', st'))"
proof -
  define J where "J held rest st' \<longleftrightarrow> held = [] \<and> got st' @ rest = got st @ incoming (tc_stream c)" for held :: "u8 list" and rest st'
  have "job_keeps N (tc_read_job c) J"
    unfolding job_keeps_def J_def using job unfolding takes_all_def by (metis append.assoc append_Nil)
  note inv = read_inv[where J = J and R = "\<lambda>_. True" and c = c and b = b, OF io this TrueI b(1) TrueI]
  have "J (bs_chunk (nt_bytes N) b) (incoming (tc_stream c)) st" by (simp add: J_def b(2))
  from inv[OF this] show ?thesis
    by (auto simp: J_def)
qed

subsection \<open>Writing\<close>

lemma take_waiting:
  assumes io: "buffered_socket (nt_bytes N) (nt_stream N) incoming ended outgoing"
    and c: "tc_sending c = Some x" "bs_chunk (nt_bytes N) x = []" "tc_waiting c = Some y" "bs_chunk (nt_bytes N) y \<noteq> []"
  shows "\<exists>b y'. take_to_write N c = Some (Some b, c\<lparr>tc_waiting := Some y'\<rparr>) \<and>
    bs_chunk (nt_bytes N) b = bs_chunk (nt_bytes N) y \<and> bs_chunk (nt_bytes N) y' = []"
proof -
  have B: "byte_buffer (nt_bytes N)" using io by (rule buffered_socket.axioms(1))
  obtain b y' where sp: "bs_split (nt_bytes N) y = (b, y')" "bs_chunk (nt_bytes N) b = bs_chunk (nt_bytes N) y"
    "bs_chunk (nt_bytes N) y' = []" using byte_buffer.split_cases[OF B, of y] by metis
  have "bs_len (nt_bytes N) (bs_with_capacity (nt_bytes N) 1024) = 0" by (rule byte_buffer.len_new[OF B])
  then have "take_to_write N c = Some (Some b, c\<lparr>tc_waiting := Some y'\<rparr>)"
    using c sp(1) by (simp add: take_to_write_def Let_def bs_len_def)
  then show ?thesis using sp(2,3) by blast
qed

lemma send_of_write:
  assumes "write_data N (c\<lparr>tc_waiting := Some (bs_put (nt_bytes N) y bytes)\<rparr>, st) = map_option (Pair (Inr ())) X"
    and "tc_waiting c = Some y" "tc_write_enabled c" "bs_len (nt_bytes N) bytes \<noteq> 0"
  shows "conn_send N (c, st) bytes = map_option (Pair (Inr (bs_len (nt_bytes N) bytes))) X"
  using assms by (cases X) (auto simp: conn_send_def write_unwrap_def)

lemma send_spec:
  assumes io: "buffered_socket (nt_bytes N) (nt_stream N) incoming ended outgoing"
    and c: "tc_sending c = Some x" "bs_chunk (nt_bytes N) x = []" "tc_waiting c = Some y" "bs_chunk (nt_bytes N) y = []"
    and en: "tc_write_enabled c" and bytes: "bs_chunk (nt_bytes N) bytes \<noteq> []"
    and w: "fst (ss_write (nt_stream N) (tc_stream c) (bs_chunk (nt_bytes N) bytes)) = r"
  shows "\<exists>s' y'. bs_chunk (nt_bytes N) y' = [] \<and> s' = snd (ss_write (nt_stream N) (tc_stream c) (bs_chunk (nt_bytes N) bytes)) \<and>
    outgoing s' = outgoing (tc_stream c) @ (case r of Inr k \<Rightarrow> take k (bs_chunk (nt_bytes N) bytes) | Inl _ \<Rightarrow> []) \<and>
    conn_send N (c, st) bytes =
      map_option (Pair (Inr (bs_len (nt_bytes N) bytes)))
        (let c' = c\<lparr>tc_waiting := Some y', tc_stream := s'\<rparr>; c'' = c'\<lparr>tc_write_triggered := False\<rparr>
         in case r of
              Inr k \<Rightarrow> if k < bs_len (nt_bytes N) bytes then Some (c', st)
                else do { (ret, st) \<leftarrow> run_writ_job N (tc_writ_job c) st;
                          if ret then Some (c'', st) else close_unwrap N (c'', st) }
            | Inl e \<Rightarrow> if e = WouldBlock then Some (c'', st) else close_unwrap N (c'', st))"
proof -
  let ?B = "nt_bytes N"
  let ?y = "bs_put ?B y bytes"
  have B: "byte_buffer ?B" using io by (rule buffered_socket.axioms(1))
  have y: "bs_chunk ?B ?y = bs_chunk ?B bytes" using byte_buffer.chunk_put[OF B] c(4) by simp
  let ?c = "c\<lparr>tc_waiting := Some ?y\<rparr>"
  obtain b y' where t: "take_to_write N ?c = Some (Some b, c\<lparr>tc_waiting := Some y'\<rparr>)"
    "bs_chunk ?B b = bs_chunk ?B bytes" "bs_chunk ?B y' = []"
    using take_waiting[OF io, of ?c x ?y] c(1,2) bytes y by auto
  obtain res s' b' where tw: "try_write_buf ?B (nt_stream N) (tc_stream c) b = Some (res, s', b')"
    and s': "s' = snd (ss_write (nt_stream N) (tc_stream c) (bs_chunk ?B bytes))"
    and o': "case r of
       Inr k \<Rightarrow> res = Inr (Some k) \<and> 0 < k \<and> k \<le> bs_len ?B b \<and> bs_chunk ?B b' = drop k (bs_chunk ?B bytes) \<and>
         outgoing s' = outgoing (tc_stream c) @ take k (bs_chunk ?B bytes)
     | Inl e \<Rightarrow> res = (if e = WouldBlock then Inr None else Inl e) \<and> b' = b \<and> outgoing s' = outgoing (tc_stream c)"
    using buffered_socket.write_buf[OF io, of b "tc_stream c"] bytes unfolding t(2) w by blast
  have len: "0 < bs_len ?B bytes" "bs_len ?B b = bs_len ?B bytes" using bytes t(2) by (simp_all add: bs_len_def)
  let ?c' = "c\<lparr>tc_waiting := Some y', tc_stream := s'\<rparr>" and ?c'' = "c\<lparr>tc_waiting := Some y', tc_stream := s', tc_write_triggered := False\<rparr>"
  let ?X = "case r of
              Inr k \<Rightarrow> if k < bs_len ?B bytes then Some (?c', st)
                else do { (ret, st) \<leftarrow> run_writ_job N (tc_writ_job c) st;
                          if ret then Some (?c'', st) else close_unwrap N (?c'', st) }
            | Inl e \<Rightarrow> if e = WouldBlock then Some (?c'', st) else close_unwrap N (?c'', st)"
  have data: "write_data N (?c, st) = map_option (Pair (Inr ())) ?X"
  proof (cases r)
    case (Inl e)
    then show ?thesis using t(1) tw o' by (simp add: write_data_def bind_pair)
  next
    case (Inr k)
    then have "bs_len ?B b' = bs_len ?B bytes - k" using o' by (simp add: bs_len_def)
    then show ?thesis using t(1) tw o' Inr
      by (cases "run_writ_job N (tc_writ_job c) st") (auto simp: write_data_def bind_pair)
  qed
  have "outgoing s' = outgoing (tc_stream c) @ (case r of Inr k \<Rightarrow> take k (bs_chunk ?B bytes) | Inl _ \<Rightarrow> [])"
    using o' by (cases r) simp_all
  moreover have "conn_send N (c, st) bytes = map_option (Pair (Inr (bs_len ?B bytes))) ?X"
    using send_of_write[OF data c(3) en] len(1) by simp
  ultimately show ?thesis
    unfolding Let_def by (intro exI[of _ s'] exI[of _ y'] conjI t(3) s')
qed

text \<open>A message that fits.\<close>

lemma send_fits:
  assumes io: "roomy_socket (nt_bytes N) (nt_stream N) incoming ended outgoing room"
    and c: "tc_sending c = Some x" "bs_chunk (nt_bytes N) x = []" "tc_waiting c = Some y" "bs_chunk (nt_bytes N) y = []"
    and en: "tc_write_enabled c" and bytes: "bs_chunk (nt_bytes N) bytes \<noteq> []"
    and room: "length (bs_chunk (nt_bytes N) bytes) \<le> room (tc_stream c)"
  shows "\<exists>s' y'. bs_chunk (nt_bytes N) y' = [] \<and> outgoing s' = outgoing (tc_stream c) @ bs_chunk (nt_bytes N) bytes \<and>
    room s' = room (tc_stream c) - length (bs_chunk (nt_bytes N) bytes) \<and> incoming s' = incoming (tc_stream c) \<and>
    ended s' = ended (tc_stream c) \<and>
    conn_send N (c, st) bytes = map_option (Pair (Inr (bs_len (nt_bytes N) bytes)))
      (let c' = c\<lparr>tc_waiting := Some y', tc_stream := s', tc_write_triggered := False\<rparr>
       in do { (ret, st) \<leftarrow> run_writ_job N (tc_writ_job c) st;
               if ret then Some (c', st) else close_unwrap N (c', st) })"
proof -
  let ?bs = "bs_chunk (nt_bytes N) bytes"
  obtain s' where w: "ss_write (nt_stream N) (tc_stream c) ?bs = (Inr (length ?bs), s')"
    "room s' = room (tc_stream c) - length ?bs" using roomy_socket.write_room[OF io bytes room] by blast
  have b: "buffered_socket (nt_bytes N) (nt_stream N) incoming ended outgoing" using io by (rule roomy_socket.axioms(1))
  note k = socket.write_some[OF buffered_socket.axioms(2)[OF b] bytes w(1)]
  from send_spec[OF b c en bytes, of "Inr (length ?bs)" st] show ?thesis
    using k w by (auto simp: bs_len_def Let_def)
qed

subsection \<open>Closing\<close>

lemma close_spec:
  assumes "\<not> tc_closed c" and "run_close_job N (tc_close_job c) st = Some (el, w)"
    and "handle_fd (tc_handle c) = Some fd"
    and "k_ctl (nt_epoll N) (sel_kernel (po_selector (el_poll el))) EPOLL_CTL_DEL fd \<lparr>ee_events = 0, ee_u64 = 0\<rparr> = (Inr (), k)"
    and "nt_debug N \<Longrightarrow> sel_events_map (po_selector (el_poll el)) fd \<noteq> None"
  shows "\<exists>el'. handle_close N (c, st) =
      Some (Inr (), c\<lparr>tc_read_enabled := False, tc_write_enabled := False, tc_closed := True\<rparr>, el', w) \<and>
    el_run el' = el_run el \<and> el_timer el' = el_timer el \<and> po_queue (el_poll el') = po_queue (el_poll el) \<and>
    sel_events_map (po_selector (el_poll el')) = (sel_events_map (po_selector (el_poll el)))(fd := None)"
proof -
  obtain el' where el': "el_deregister (nt_epoll N) (nt_pipe N) (nt_debug N) el (tc_handle c) = Some (Inr (), el')"
    "el_run el' = el_run el" "el_timer el' = el_timer el" "po_queue (el_poll el') = po_queue (el_poll el)"
    "sel_events_map (po_selector (el_poll el')) = (sel_events_map (po_selector (el_poll el)))(fd := None)"
    using assms(3-5)
    by (cases "tc_handle c")
      (fastforce simp: el_deregister_def poll_deregister_def selector_deregister_def handle_fd_def Let_def)+
  then show ?thesis
    using assms(1,2) by (simp add: handle_close_def set_enabled_def close_stream_def)
qed

subsection \<open>Properties\<close>

text \<open>A connection delivers everything: when its stream becomes readable, the handler is given
  exactly the bytes that have come in, in order and without loss, however the kernel cuts them up;
  then the call returns, and it has closed the connection if the peer had finished.\<close>

theorem read_delivers:
  assumes "buffered_socket (nt_bytes N) (nt_stream N) incoming ended outgoing"
    and "takes_all N (tc_read_job c) got"
    and "tc_read_buffer c = Some b" and "bs_chunk (nt_bytes N) b = []"
  shows "\<exists>s' b' st'. incoming s' = [] \<and> bs_chunk (nt_bytes N) b' = [] \<and>
      got st' = got st @ incoming (tc_stream c) \<and> ended s' = ended (tc_stream c) \<and>
      handle_read N (c, st) =
        (let c' = c\<lparr>tc_stream := s', tc_read_buffer := Some b', tc_read_triggered := False\<rparr>
         in if ended (tc_stream c) then map_option (Pair (Inr ())) (close_unwrap N (c', st')) else Some (Inr (), c', st'))"
  by (rule read_spec[OF assms])

text \<open>A message the stream takes whole is written in order and \<open>send\<close> returns its length; then the
  write job has run, once, and has closed the connection if it said so.\<close>

theorem send_writes:
  assumes "buffered_socket (nt_bytes N) (nt_stream N) incoming ended outgoing"
    and "tc_sending c = Some x" and "bs_chunk (nt_bytes N) x = []" and "tc_waiting c = Some y" and "bs_chunk (nt_bytes N) y = []"
    and "tc_write_enabled c" and "bs_chunk (nt_bytes N) bytes \<noteq> []"
    and "fst (ss_write (nt_stream N) (tc_stream c) (bs_chunk (nt_bytes N) bytes)) = Inr (bs_len (nt_bytes N) bytes)"
  shows "\<exists>s' y'. bs_chunk (nt_bytes N) y' = [] \<and> outgoing s' = outgoing (tc_stream c) @ bs_chunk (nt_bytes N) bytes \<and>
    conn_send N (c, st) bytes = map_option (Pair (Inr (bs_len (nt_bytes N) bytes)))
      (let c' = c\<lparr>tc_waiting := Some y', tc_stream := s', tc_write_triggered := False\<rparr>
       in do { (ret, st) \<leftarrow> run_writ_job N (tc_writ_job c) st;
               if ret then Some (c', st) else close_unwrap N (c', st) })"
  using send_spec[OF assms, of st] by (simp add: bs_len_def Let_def) blast

text \<open>C8. A message the stream does not take whole is cut off: \<open>send\<close> returns the whole length, the
  stream has been given only the beginning (nothing when it would block), and both write buffers
  are empty, so that the rest is never written; the write job is not told.\<close>

theorem send_loses_rest:
  assumes "buffered_socket (nt_bytes N) (nt_stream N) incoming ended outgoing"
    and "tc_sending c = Some x" and "bs_chunk (nt_bytes N) x = []" and "tc_waiting c = Some y" and "bs_chunk (nt_bytes N) y = []"
    and "tc_write_enabled c" and "bs_chunk (nt_bytes N) bytes \<noteq> []"
    and "fst (ss_write (nt_stream N) (tc_stream c) (bs_chunk (nt_bytes N) bytes)) = r"
    and "r = Inr k \<and> k < bs_len (nt_bytes N) bytes \<and> n = k \<or> r = Inl WouldBlock \<and> n = 0"
  shows "\<exists>c'. conn_send N (c, st) bytes = Some (Inr (bs_len (nt_bytes N) bytes), c', st) \<and>
    outgoing (tc_stream c') = outgoing (tc_stream c) @ take n (bs_chunk (nt_bytes N) bytes) \<and>
    tc_sending c' = Some x \<and> (\<exists>y'. tc_waiting c' = Some y' \<and> bs_chunk (nt_bytes N) y' = [])"
  using send_spec[OF assms(1-8), of st] assms(2,9) by (auto simp: Let_def)

text \<open>C14. A connection is closed once: the first close runs the close job, takes the descriptor out of the
  loop's table, so that no event is dispatched to it any more, and leaves the rest of the loop
  alone; a second close does nothing and a later \<open>send\<close> writes nothing.\<close>

theorem close_once:
  assumes "\<not> tc_closed c" and "run_close_job N (tc_close_job c) st = Some (el, w)"
    and "handle_fd (tc_handle c) = Some fd"
    and "k_ctl (nt_epoll N) (sel_kernel (po_selector (el_poll el))) EPOLL_CTL_DEL fd \<lparr>ee_events = 0, ee_u64 = 0\<rparr> = (Inr (), k)"
    and "nt_debug N \<Longrightarrow> sel_events_map (po_selector (el_poll el)) fd \<noteq> None"
  shows "\<exists>c' el'. handle_close N (c, st) = Some (Inr (), c', el', w) \<and>
    dispatch_entry (sel_events_map (po_selector (el_poll el'))) \<lparr>ee_events = m, ee_u64 = scast fd\<rparr> = [] \<and>
    el_timer el' = el_timer el \<and> po_queue (el_poll el') = po_queue (el_poll el) \<and>
    handle_close N (c', st') = Some (Inr (), c', st') \<and> conn_send N (c', st') bytes = Some (Inr 0, c', st')"
proof -
  obtain el' where "handle_close N (c, st) =
      Some (Inr (), c\<lparr>tc_read_enabled := False, tc_write_enabled := False, tc_closed := True\<rparr>, el', w)"
    "el_timer el' = el_timer el" "po_queue (el_poll el') = po_queue (el_poll el)"
    "sel_events_map (po_selector (el_poll el')) = (sel_events_map (po_selector (el_poll el)))(fd := None)"
    using close_spec[OF assms] by blast
  then show ?thesis
    by (intro exI[of _ "c\<lparr>tc_read_enabled := False, tc_write_enabled := False, tc_closed := True\<rparr>"] exI[of _ el'])
      (simp add: dispatch_entry_def handle_close_def conn_send_def)
qed

subsection \<open>Concrete inputs\<close>

text \<open>Connections over the list buffer and the scripted socket; the world is what handlers have received.\<close>

definition log_net :: "(u8 list \<times> nat, sock, nat, nat, unit, (string, nat, nat, string entry option list, u8 list) world) net" where
  "log_net = \<lparr>nt_bytes = list_bytes, nt_stream = list_socket, nt_epoll = ok_kernel, nt_pipe = count_pipe 65536,
     nt_debug = False,
     nt_recv = \<lambda>h b st. Some (([], snd b), (fst st, snd st @ fst b)),
     nt_written = \<lambda>h st. Some (True, st),
     nt_error = \<lambda>h st. Some st\<rparr>"

definition one_conn :: "sock \<Rightarrow> (u8 list \<times> nat, sock, unit) tcp_connection" where
  "one_conn s = set_read_job (conn_new log_net (EvSocket 7 1) s) (HandlerJob ())"

lemma log_io: "buffered_socket (nt_bytes log_net) (nt_stream log_net) sk_in sk_ended sk_out"
  using list_io.buffered_socket_axioms by (simp add: log_net_def)

lemma log_takes_all: "takes_all log_net (tc_read_job (one_conn s)) snd"
  by (simp add: takes_all_def one_conn_def set_read_job_def run_read_job_def log_net_def list_bytes_def)

lemma one_conn_buffers: "tc_read_buffer (one_conn s) = Some ([], 1024)" "tc_sending (one_conn s) = Some ([], 1024)"
  "tc_waiting (one_conn s) = Some ([], 1024)" "tc_write_enabled (one_conn s)" "tc_stream (one_conn s) = s"
  "tc_writ_job (one_conn s) = DefaultJob" "tc_close_job (one_conn s) = DefaultJob" "\<not> tc_closed (one_conn s)"
  "tc_handle (one_conn s) = EvSocket 7 1"
  by (simp_all add: one_conn_def set_read_job_def conn_new_def log_net_def list_bytes_def)

lemma log_bytes: "bs_chunk (nt_bytes log_net) = fst" "bs_len (nt_bytes log_net) b = length (fst b)"
  by (simp_all add: log_net_def list_bytes_def bs_len_def)

theorem read_delivers_witness:
  "\<exists>c' st'. handle_read log_net (one_conn \<lparr>sk_in = [1, 2, 3], sk_ended = False, sk_out = [], sk_room = 0\<rparr>, one_loop, [9]) =
     Some (Inr (), c', st') \<and> snd st' = [9, 1, 2, 3] \<and> sk_in (tc_stream c') = []"
proof -
  let ?s = "\<lparr>sk_in = [1, 2, 3], sk_ended = False, sk_out = [], sk_room = 0\<rparr>"
  have e: "bs_chunk (nt_bytes log_net) ([], 1024) = []" by (simp add: log_bytes)
  from read_delivers[OF log_io log_takes_all one_conn_buffers(1)[of ?s] e, of "(one_loop, [9])"]
  show ?thesis by (auto simp: one_conn_buffers(5))
qed

theorem send_writes_witness:
  "\<exists>c' st'. conn_send log_net (one_conn \<lparr>sk_in = [], sk_ended = False, sk_out = [], sk_room = 10\<rparr>, one_loop, []) ([1, 2, 3], 0) =
     Some (Inr 3, c', st') \<and> sk_out (tc_stream c') = [1, 2, 3]"
proof -
  let ?s = "\<lparr>sk_in = [], sk_ended = False, sk_out = [], sk_room = 10\<rparr>"
  have e: "bs_chunk (nt_bytes log_net) ([], 1024) = []" "bs_chunk (nt_bytes log_net) ([1, 2, 3], 0) \<noteq> []"
    by (simp_all add: log_bytes)
  have w: "fst (ss_write (nt_stream log_net) (tc_stream (one_conn ?s)) (bs_chunk (nt_bytes log_net) ([1, 2, 3], 0))) =
      Inr (bs_len (nt_bytes log_net) ([1, 2, 3], 0))"
    by (simp add: one_conn_buffers log_bytes) (simp add: log_net_def list_socket_def)
  from send_writes[OF log_io one_conn_buffers(2) e(1) one_conn_buffers(3) e(1) one_conn_buffers(4) e(2) w, of "(one_loop, [])"]
  show ?thesis by (auto simp: one_conn_buffers run_writ_job_def log_bytes)
qed

text \<open>Of three bytes, the two the socket has room for are written.\<close>

theorem send_loses_rest_witness:
  "\<exists>c'. conn_send log_net (one_conn \<lparr>sk_in = [], sk_ended = False, sk_out = [], sk_room = 2\<rparr>, one_loop, []) ([1, 2, 3], 0) =
     Some (Inr 3, c', one_loop, []) \<and> sk_out (tc_stream c') = [1, 2]"
proof -
  let ?s = "\<lparr>sk_in = [], sk_ended = False, sk_out = [], sk_room = 2\<rparr>"
  have e: "bs_chunk (nt_bytes log_net) ([], 1024) = []" "bs_chunk (nt_bytes log_net) ([1, 2, 3], 0) \<noteq> []"
    by (simp_all add: log_bytes)
  have w: "fst (ss_write (nt_stream log_net) (tc_stream (one_conn ?s)) (bs_chunk (nt_bytes log_net) ([1, 2, 3], 0))) = Inr 2"
    by (simp add: one_conn_buffers log_bytes) (simp add: log_net_def list_socket_def)
  have k: "Inr 2 = Inr 2 \<and> 2 < bs_len (nt_bytes log_net) ([1, 2, 3], 0) \<and> (2 :: nat) = 2 \<or> Inr 2 = Inl WouldBlock \<and> 2 = 0"
    by (simp add: log_bytes)
  from send_loses_rest[OF log_io one_conn_buffers(2) e(1) one_conn_buffers(3) e(1) one_conn_buffers(4) e(2) w k, of "(one_loop, [])"]
  show ?thesis by (auto simp: one_conn_buffers log_bytes)
qed

theorem close_once_witness:
  "\<exists>c' el'. handle_close log_net (one_conn \<lparr>sk_in = [], sk_ended = True, sk_out = [], sk_room = 0\<rparr>, one_loop, []) =
       Some (Inr (), c', el', []) \<and>
     dispatch_entry (sel_events_map (po_selector (el_poll el'))) \<lparr>ee_events = 1, ee_u64 = scast (7 :: i32)\<rparr> = []"
proof -
  let ?c = "one_conn \<lparr>sk_in = [], sk_ended = True, sk_out = [], sk_room = 0\<rparr>"
  have j: "run_close_job log_net (tc_close_job ?c) (one_loop, []) = Some (one_loop, [])"
    by (simp add: run_close_job_def one_conn_buffers)
  have fd: "handle_fd (tc_handle ?c) = Some 7" by (simp add: handle_fd_def one_conn_buffers)
  have k: "k_ctl (nt_epoll log_net) (sel_kernel (po_selector (el_poll one_loop))) EPOLL_CTL_DEL 7 \<lparr>ee_events = 0, ee_u64 = 0\<rparr> =
      (Inr (), 1)" by (simp add: log_net_def ok_kernel_def one_loop_def one_poll_def)
  have "\<not> nt_debug log_net" by (simp add: log_net_def)
  then show ?thesis
    using close_once[OF one_conn_buffers(8) j fd k, of 1 "(one_loop, [])" "([1], 0)"] by blast
qed

end
