(* ===== verification/ConnectionInv.thy ===== *)
theory ConnectionInv
  imports Connection
begin

section \<open>Every connection in use\<close>

text \<open>
  The states a connection of \<open>src/net/connection.rs\<close> can reach from its construction, whatever its stream and its
  handlers do, and what is true of all of them. \<open>re\<close> says whether \<open>set_enabled\<close> has enabled it again after it was
  closed, which the method does not refuse and no caller does.
\<close>

inductive conn_reach ::
    "('b, 's, 'k, 'p, 'h, ('j, 'k, 'p, 't, 'w) world) net \<Rightarrow> evented \<Rightarrow> bool \<Rightarrow> ('b, 's, 'h) tcp_connection \<Rightarrow> bool"
  for N handle where
  made: "conn_reach N handle False (conn_new N handle s)"
| read_job: "conn_reach N handle re c \<Longrightarrow> conn_reach N handle re (set_read_job c job)"
| writ_job: "conn_reach N handle re c \<Longrightarrow> conn_reach N handle re (set_writ_job c job)"
| close_job: "conn_reach N handle re c \<Longrightarrow> conn_reach N handle re (set_close_job c job)"
| enabled: "conn_reach N handle re c \<Longrightarrow> conn_reach N handle (re \<or> enable \<and> tc_closed c) (set_enabled c enable)"
| shutdown: "conn_reach N handle re c \<Longrightarrow> conn_shutdown N c how = (r, c') \<Longrightarrow> conn_reach N handle re c'"
| sent: "conn_reach N handle re c \<Longrightarrow> conn_send N (c, st) bytes = Some (n, c', st') \<Longrightarrow> conn_reach N handle re c'"
| event: "conn_reach N handle re c \<Longrightarrow> handle_event N (c, st) ev = Some (u, c', st') \<Longrightarrow> conn_reach N handle re c'"

subsection \<open>What every operation keeps\<close>

definition conn_buffers :: "('b, 's, 'h) tcp_connection \<Rightarrow> bool" where
  "conn_buffers c \<longleftrightarrow> tc_read_buffer c \<noteq> None \<and> tc_sending c \<noteq> None \<and> tc_waiting c \<noteq> None"

definition conn_next :: "('b, 's, 'h) tcp_connection \<Rightarrow> ('b, 's, 'h) tcp_connection \<Rightarrow> bool" where
  "conn_next c c' \<longleftrightarrow> tc_handle c' = tc_handle c \<and> (conn_buffers c \<longrightarrow> conn_buffers c') \<and> (tc_closed c \<longrightarrow> tc_closed c') \<and>
     (tc_closed c' \<and> tc_write_enabled c' \<longrightarrow> tc_closed c \<and> tc_write_enabled c)"

lemma conn_next_refl [simp, intro]: "conn_next c c"
  by (simp add: conn_next_def)

lemma conn_next_trans [trans]: "conn_next a b \<Longrightarrow> conn_next b c \<Longrightarrow> conn_next a c"
  unfolding conn_next_def by metis

lemma conn_next_left [simp]:
  "conn_next (a\<lparr>tc_stream := s\<rparr>) c = conn_next a c" "conn_next (a\<lparr>tc_read_triggered := t\<rparr>) c = conn_next a c"
  "conn_next (a\<lparr>tc_write_triggered := t\<rparr>) c = conn_next a c"
  by (simp_all add: conn_next_def conn_buffers_def)

lemma conn_next_right [simp]:
  "conn_next a (c\<lparr>tc_stream := s\<rparr>) = conn_next a c" "conn_next a (c\<lparr>tc_read_triggered := t\<rparr>) = conn_next a c"
  "conn_next a (c\<lparr>tc_write_triggered := t\<rparr>) = conn_next a c"
  by (simp_all add: conn_next_def conn_buffers_def)

lemma conn_next_buffer [intro]:
  "conn_next c (c\<lparr>tc_read_buffer := Some b\<rparr>)" "conn_next c (c\<lparr>tc_sending := Some b\<rparr>)" "conn_next c (c\<lparr>tc_waiting := Some b\<rparr>)"
  by (simp_all add: conn_next_def conn_buffers_def)

lemma handle_close_next: "handle_close N (c, st) = Some (r, c', st') \<Longrightarrow> conn_next c c' \<and> r = Inr ()"
  by (auto simp: handle_close_def Let_def bind_Some_iff conn_next_def conn_buffers_def set_enabled_def split: if_splits)

lemma close_unwrap_next: "close_unwrap N (c, st) = Some (c', st') \<Longrightarrow> conn_next c c'"
  using handle_close_next[of N c st] by (fastforce simp: close_unwrap_def bind_Some_iff)

lemma handle_read_next:
  assumes "handle_read N (c, st) = Some (r, c', st')"
  shows "conn_next c c' \<and> r = Inr ()"
proof -
  have "conn_next (fst (c, st)) (fst (snd (r, c', st'))) \<and> fst (r, c', st') = Inr ()"
  proof (rule handle_read.raw_induct[where P = "\<lambda>N cst y. conn_next (fst cst) (fst (snd y)) \<and> fst y = Inr ()", OF _ assms],
      goal_cases)
    case (1 f N cst y)
    obtain c st where c: "cst = (c, st)" by (cases cst)
    have step: "conn_next c c'" if "conn_next (c\<lparr>tc_stream := s, tc_read_buffer := Some b\<rparr>) c'" for s b c'
      using that by (auto simp: conn_next_def conn_buffers_def)
    have IH: "conn_next c (fst (snd y)) \<and> fst y = Inr ()"
      if "f N (c\<lparr>tc_stream := s, tc_read_buffer := Some b\<rparr>, st) = Some y" for s b st
      using 1(1)[OF that] by (auto intro: step)
    have keep: "conn_next c (c\<lparr>tc_stream := s, tc_read_buffer := Some b\<rparr>)" for s b
      by (simp add: conn_next_def conn_buffers_def)
    obtain buf where buf: "tc_read_buffer c = Some buf" using 1(2) unfolding c by (auto simp: bind_Some_iff)
    obtain res s b where r: "try_read_buf (nt_bytes N) (nt_stream N) (tc_stream c) buf = (res, s, b)" by (metis prod_cases3)
    consider (blocked) "res = Inr None" | (got) k where "res = Inr (Some k)" | (failed) e where "res = Inl e"
      by (cases res) auto
    then show ?case
      using 1(2) unfolding c
      by cases (auto simp: buf r bind_Some_iff Let_def split: if_splits dest!: close_unwrap_next IH intro: step keep)
  qed
  then show ?thesis by simp
qed

lemma take_to_write_next:
  assumes "take_to_write N c = Some (b, c')"
  shows "conn_next c c'"
proof -
  obtain x where x: "tc_sending c = Some x" using assms by (auto simp: take_to_write_def Let_def bind_Some_iff)
  obtain x1 x2 where xs: "bs_split (nt_bytes N) x = (x1, x2)" by (cases "bs_split (nt_bytes N) x")
  have "\<exists>y1 y2. bs_split (nt_bytes N) y = (y1, y2)" for y by (cases "bs_split (nt_bytes N) y") simp
  then show ?thesis
    using assms x
    by (auto simp: take_to_write_def xs Let_def bind_Some_iff conn_next_def conn_buffers_def split: if_splits prod.split_asm)
qed

lemma write_data_next:
  assumes "write_data N (c, st) = Some (r, c', st')"
  shows "conn_next c c' \<and> r = Inr ()"
proof -
  obtain b c1 where t: "take_to_write N c = Some (b, c1)" using assms by (auto simp: write_data_def bind_Some_iff)
  have "conn_next c1 c' \<and> r = Inr ()"
  proof (cases b)
    case None
    then show ?thesis using assms by (simp add: write_data_def t)
  next
    case (Some buf)
    obtain res s rest where w: "try_write_buf (nt_bytes N) (nt_stream N) (tc_stream c1) buf = Some (res, s, rest)"
      using assms by (auto simp: write_data_def t Some bind_Some_iff)
    consider (blocked) "res = Inr None" | (written) k where "res = Inr (Some k)" | (failed) e where "res = Inl e"
      by (cases res) auto
    then show ?thesis
      using assms
      by cases (auto simp: write_data_def t Some w Let_def bind_Some_iff split: if_splits dest!: close_unwrap_next)
  qed
  then show ?thesis using take_to_write_next[OF t] conn_next_trans by blast
qed

lemma write_unwrap_next: "write_unwrap N (c, st) = Some (c', st') \<Longrightarrow> conn_next c c'"
  using write_data_next[of N c st] by (fastforce simp: write_unwrap_def bind_Some_iff)

lemma conn_send_next:
  assumes "conn_send N (c, st) bytes = Some (n, c', st')"
  shows "conn_next c c'"
proof -
  have step: "conn_next c c'" if "conn_next (c\<lparr>tc_waiting := Some b\<rparr>) c'" for b
    using that by (auto simp: conn_next_def conn_buffers_def)
  show ?thesis
    using assms by (auto simp: conn_send_def Let_def bind_Some_iff split: if_splits dest!: write_unwrap_next intro: step)
qed

lemma handle_write_next: "handle_write N (c, st) = Some (r, c', st') \<Longrightarrow> conn_next c c' \<and> r = Inr ()"
  using write_unwrap_next[of N c st] by (fastforce simp: handle_write_def bind_Some_iff split: if_splits)

lemma handle_event_next:
  assumes "handle_event N (c, st) ev = Some (r, c', st')"
  shows "conn_next c c' \<and> r = Inr ()"
  using assms
  by (auto simp: handle_event_def Let_def bind_Some_iff split: if_splits
      dest!: handle_read_next handle_write_next close_unwrap_next)
    (blast intro: conn_next_trans)+

lemma conn_shutdown_next: "conn_shutdown N c how = (r, c') \<Longrightarrow> conn_next c c'"
  by (auto simp: conn_shutdown_def set_enabled_def Let_def conn_next_def conn_buffers_def split: prod.splits if_splits)

subsection \<open>Properties\<close>

text \<open>C13. A connection stays well formed: whatever has been read, sent, shut down or closed on it, it keeps its handle and
  its three buffers, so that no access to a buffer panics; an event never ends with an error; and once it
  has been closed it stays closed and, unless \<open>set_enabled\<close> enables it again, sends nothing.\<close>

theorem connection_well_formed:
  assumes "conn_reach N handle re c"
  shows "tc_handle c = handle \<and> conn_buffers c \<and> take_to_write N c \<noteq> None \<and>
    (\<forall>u c' st'. handle_event N (c, st) ev = Some (u, c', st') \<longrightarrow> u = Inr () \<and> (tc_closed c \<longrightarrow> tc_closed c')) \<and>
    (tc_closed c \<and> \<not> re \<longrightarrow> conn_send N (c, st) bytes = Some (Inr 0, c, st))"
proof -
  have inv: "tc_handle c = handle \<and> conn_buffers c \<and> (tc_closed c \<and> tc_write_enabled c \<longrightarrow> re)"
    using assms
  proof induction
    case (shutdown re c how r c')
    then show ?case using conn_shutdown_next[of N c how r c'] unfolding conn_next_def by blast
  next
    case (sent re c st bytes n c' st')
    then show ?case using conn_send_next[of N c st bytes n c' st'] unfolding conn_next_def by blast
  next
    case (event re c st ev u c' st')
    then show ?case using handle_event_next[of N c st ev u c' st'] unfolding conn_next_def by blast
  qed (auto simp: conn_new_def conn_buffers_def set_read_job_def set_writ_job_def set_close_job_def set_enabled_def)
  have "conn_buffers c" using inv by blast
  then have "take_to_write N c \<noteq> None"
    by (auto simp: take_to_write_def conn_buffers_def Let_def split: prod.splits)
  moreover have "u = Inr () \<and> (tc_closed c \<longrightarrow> tc_closed c')" if "handle_event N (c, st) ev = Some (u, c', st')" for u c' st'
    using handle_event_next[OF that] unfolding conn_next_def by blast
  moreover have "conn_send N (c, st) bytes = Some (Inr 0, c, st)" if "tc_closed c \<and> \<not> re"
    using inv that by (simp add: conn_send_def)
  ultimately show ?thesis using inv by blast
qed

text \<open>A hang-up closes a connection.\<close>

theorem connection_well_formed_witness:
  "\<exists>c el. handle_event log_net (one_conn \<lparr>sk_in = [], sk_ended = True, sk_out = [], sk_room = 9\<rparr>, one_loop, []) 8 =
       Some (Inr (), c, el, []) \<and>
     tc_handle c = EvSocket 7 1 \<and> conn_buffers c \<and> conn_send log_net (c, one_loop, []) ([7], 0) = Some (Inr 0, c, one_loop, [])"
proof -
  let ?c = "one_conn \<lparr>sk_in = [], sk_ended = True, sk_out = [], sk_room = 9\<rparr>"
  let ?c1 = "?c\<lparr>tc_read_triggered := True, tc_write_triggered := True\<rparr>"
  have ready: "\<not> ready_is_readable (ready_from_usize 8)" "\<not> ready_is_writable (ready_from_usize 8)" "ready_is_hup (ready_from_usize 8)"
    by code_simp+
  have open_conn: "\<not> tc_closed ?c1" using one_conn_buffers(8) by simp
  have j: "run_close_job log_net (tc_close_job ?c1) (one_loop, []) = Some (one_loop, [])"
    by (simp add: run_close_job_def one_conn_buffers)
  have fd: "handle_fd (tc_handle ?c1) = Some 7" by (simp add: handle_fd_def one_conn_buffers)
  have k: "k_ctl (nt_epoll log_net) (sel_kernel (po_selector (el_poll one_loop))) EPOLL_CTL_DEL 7 \<lparr>ee_events = 0, ee_u64 = 0\<rparr> =
      (Inr (), 1)" by (simp add: log_net_def ok_kernel_def one_loop_def one_poll_def)
  have nd: "nt_debug log_net \<Longrightarrow> sel_events_map (po_selector (el_poll one_loop)) 7 \<noteq> None" by (simp add: log_net_def)
  let ?c2 = "?c1\<lparr>tc_read_enabled := False, tc_write_enabled := False, tc_closed := True\<rparr>"
  obtain el where "handle_close log_net (?c1, one_loop, []) = Some (Inr (), ?c2, el, [])"
    using close_spec[OF open_conn j fd k nd] by blast
  then have ev: "handle_event log_net (?c, one_loop, []) 8 = Some (Inr (), ?c2, el, [])"
    using ready by (simp add: handle_event_def close_unwrap_def)
  have "conn_reach log_net (EvSocket 7 1) False ?c" unfolding one_conn_def by (intro conn_reach.read_job conn_reach.made)
  then have "conn_reach log_net (EvSocket 7 1) False ?c2" by (rule conn_reach.event[OF _ ev])
  from connection_well_formed[OF this, of "(one_loop, [])" 0 "([7], 0)"] show ?thesis using ev by auto
qed

end
