(* ===== verification/Sys.thy ===== *)
theory Sys
  imports Prelude
begin

section \<open>Descriptors\<close>

text \<open>
  The calls of \<open>src/sys/unix\<close> that configure descriptors: \<open>cvt\<close> and \<open>pipe\<close> of \<open>mod.rs\<close>, \<open>set_nonblock\<close> and
  \<open>set_cloexec\<close> of \<open>io.rs\<close>, the lazily resolved symbols of \<open>dlsym.rs\<close>, and the length and result of the vectored
  calls of \<open>uio.rs\<close>. The calls of \<open>libc\<close> are
  parameters over the kernel's state. Dropping an \<open>Io\<close> closes its descriptor.
\<close>

datatype fcntl_cmd = F_GETFD | F_SETFD | F_GETFL | F_SETFL

record 'k libc =
  lc_fcntl :: "'k \<Rightarrow> i32 \<Rightarrow> fcntl_cmd \<Rightarrow> i32 \<Rightarrow> i32 \<times> 'k"
  lc_pipe :: "'k \<Rightarrow> i32 \<times> (i32 \<times> i32) \<times> 'k"
  lc_pipe2 :: "'k \<Rightarrow> i32 \<Rightarrow> i32 \<times> (i32 \<times> i32) \<times> 'k"
  lc_close :: "'k \<Rightarrow> i32 \<Rightarrow> 'k"
  lc_errno :: "'k \<Rightarrow> io_error"

definition O_NONBLOCK :: i32 where "O_NONBLOCK = 0x800"
definition O_CLOEXEC :: i32 where "O_CLOEXEC = 0x80000"
definition FD_CLOEXEC :: i32 where "FD_CLOEXEC = 1"

subsection \<open>Results of system calls\<close>

definition is_minus_one :: "'a::len word \<Rightarrow> bool" where
  "is_minus_one t \<longleftrightarrow> t = - 1"

definition cvt :: "'k libc \<Rightarrow> 'k \<Rightarrow> 'a::len word \<Rightarrow> 'a word io_result" where
  "cvt Y k t = (if is_minus_one t then Inl (lc_errno Y k) else Inr t)"

text \<open>\<open>readv\<close> and \<open>writev\<close>: the number of buffers passed on, and the result for the return value \<open>rc\<close>.\<close>

definition vec_len :: "nat \<Rightarrow> nat" where
  "vec_len n = min (2 ^ 31 - 1) n"

definition vec_result :: "'k libc \<Rightarrow> 'k \<Rightarrow> i64 \<Rightarrow> usize io_result" where
  "vec_result Y k rc = (if rc <s 0 then Inl (lc_errno Y k) else Inr rc)"

subsection \<open>Flags of a descriptor\<close>

definition set_nonblock :: "'k libc \<Rightarrow> 'k \<Rightarrow> i32 \<Rightarrow> unit io_result \<times> 'k" where
  "set_nonblock Y k fd =
     (case lc_fcntl Y k fd F_GETFL 0 of
        (flags, k) \<Rightarrow>
          (case lc_fcntl Y k fd F_SETFL (flags OR O_NONBLOCK) of
             (rc, k) \<Rightarrow> (map_sum id (\<lambda>_. ()) (cvt Y k rc), k)))"

definition set_cloexec :: "'k libc \<Rightarrow> 'k \<Rightarrow> i32 \<Rightarrow> unit io_result \<times> 'k" where
  "set_cloexec Y k fd =
     (case lc_fcntl Y k fd F_GETFD 0 of
        (flags, k) \<Rightarrow>
          (case lc_fcntl Y k fd F_SETFD (flags OR FD_CLOEXEC) of
             (rc, k) \<Rightarrow> (map_sum id (\<lambda>_. ()) (cvt Y k rc), k)))"

subsection \<open>Lazily resolved symbols\<close>

text \<open>\<open>addr\<close> is the symbol's cell: 0 when it has not been looked up, 1 when it does not exist.\<close>

definition dl_fetch :: "(string \<Rightarrow> usize) \<Rightarrow> string \<Rightarrow> usize" where
  "dl_fetch dlsym name = (let n = dlsym name in if n = 0 then 1 else n)"

definition dl_get :: "(string \<Rightarrow> usize) \<Rightarrow> string \<Rightarrow> usize \<Rightarrow> usize option \<times> usize" where
  "dl_get dlsym name addr =
     (let addr = (if addr = 0 then dl_fetch dlsym name else addr)
      in (if addr = 1 then None else Some addr, addr))"

subsection \<open>The awakener's pipe\<close>

text \<open>One step of the fallback: when it fails both ends are dropped.\<close>

definition pipe_step :: "'k libc \<Rightarrow> i32 \<times> i32 \<Rightarrow> i32 \<Rightarrow> fcntl_cmd \<Rightarrow> i32 \<Rightarrow> 'k \<Rightarrow> unit io_result \<times> 'k" where
  "pipe_step Y rw fd cmd arg k =
     (case lc_fcntl Y k fd cmd arg of
        (rc, k) \<Rightarrow>
          (case cvt Y k rc of
             Inl e \<Rightarrow> (Inl e, lc_close Y (lc_close Y k (snd rw)) (fst rw))
           | Inr _ \<Rightarrow> (Inr (), k)))"

text \<open>\<open>has_pipe2\<close> says whether the symbol \<open>pipe2\<close> exists.\<close>

definition sys_pipe :: "'k libc \<Rightarrow> bool \<Rightarrow> 'k \<Rightarrow> (i32 \<times> i32) io_result \<times> 'k" where
  "sys_pipe Y has_pipe2 k =
     (if has_pipe2
      then (case lc_pipe2 Y k (O_NONBLOCK OR O_CLOEXEC) of
              (rc, pipes, k) \<Rightarrow> (case cvt Y k rc of Inl e \<Rightarrow> (Inl e, k) | Inr _ \<Rightarrow> (Inr pipes, k)))
      else (case lc_pipe Y k of
              (rc, pipes, k) \<Rightarrow>
                (case cvt Y k rc of
                   Inl e \<Rightarrow> (Inl e, k)
                 | Inr _ \<Rightarrow>
                     (case pipe_step Y pipes (fst pipes) F_SETFD FD_CLOEXEC k of
                        (Inl e, k) \<Rightarrow> (Inl e, k)
                      | (Inr _, k) \<Rightarrow>
                          (case pipe_step Y pipes (snd pipes) F_SETFD FD_CLOEXEC k of
                             (Inl e, k) \<Rightarrow> (Inl e, k)
                           | (Inr _, k) \<Rightarrow>
                               (case pipe_step Y pipes (fst pipes) F_SETFL O_NONBLOCK k of
                                  (Inl e, k) \<Rightarrow> (Inl e, k)
                                | (Inr _, k) \<Rightarrow>
                                    (case pipe_step Y pipes (snd pipes) F_SETFL O_NONBLOCK k of
                                       (Inl e, k) \<Rightarrow> (Inl e, k)
                                     | (Inr _, k) \<Rightarrow> (Inr pipes, k))))))))"

subsection \<open>The descriptors of a poller\<close>

text \<open>\<open>Selector::new\<close> of \<open>epoll.rs\<close> and the whole of \<open>Poll::new\<close>, as far as descriptors go: \<open>has_create1\<close> says
  whether the symbol \<open>epoll_create1\<close> exists, \<open>ctl\<close> is the registering of the pipe's reading end. Whether
  closing on exec could be set does not matter to the fallback.\<close>

record 'k epoll_create =
  ec_create1 :: "'k \<Rightarrow> i32 \<Rightarrow> i32 \<times> 'k"
  ec_create :: "'k \<Rightarrow> i32 \<Rightarrow> i32 \<times> 'k"

definition EPOLL_CLOEXEC :: i32 where "EPOLL_CLOEXEC = 0x80000"

definition selector_fd :: "'k libc \<Rightarrow> 'k epoll_create \<Rightarrow> bool \<Rightarrow> 'k \<Rightarrow> i32 io_result \<times> 'k" where
  "selector_fd Y E has_create1 k =
     (if has_create1
      then (case ec_create1 E k EPOLL_CLOEXEC of (rc, k) \<Rightarrow> (cvt Y k rc, k))
      else (case ec_create E k 1024 of
              (rc, k) \<Rightarrow>
                (case cvt Y k rc of Inl e \<Rightarrow> (Inl e, k) | Inr fd \<Rightarrow> (Inr fd, snd (set_cloexec Y k fd)))))"

definition selector_drop :: "'k libc \<Rightarrow> 'k \<Rightarrow> i32 \<Rightarrow> 'k" where
  "selector_drop Y k epfd = lc_close Y k epfd"

definition awakener_drop :: "'k libc \<Rightarrow> 'k \<Rightarrow> i32 \<times> i32 \<Rightarrow> 'k" where
  "awakener_drop Y k rw = lc_close Y (lc_close Y k (fst rw)) (snd rw)"

definition poll_open ::
    "'k libc \<Rightarrow> 'k epoll_create \<Rightarrow> (i32 \<Rightarrow> i32 \<Rightarrow> 'k \<Rightarrow> unit io_result \<times> 'k) \<Rightarrow> bool \<Rightarrow> bool \<Rightarrow> 'k
       \<Rightarrow> (i32 \<times> i32 \<times> i32) io_result \<times> 'k" where
  "poll_open Y E ctl has_create1 has_pipe2 k =
     (case selector_fd Y E has_create1 k of
        (Inl e, k) \<Rightarrow> (Inl e, k)
      | (Inr epfd, k) \<Rightarrow>
          (case sys_pipe Y has_pipe2 k of
             (Inl e, k) \<Rightarrow> (Inl e, selector_drop Y k epfd)
           | (Inr rw, k) \<Rightarrow>
               (case ctl epfd (fst rw) k of
                  (Inl e, k) \<Rightarrow> (Inl e, awakener_drop Y (selector_drop Y k epfd) rw)
                | (Inr _, k) \<Rightarrow> (Inr (epfd, rw), k))))"

subsection \<open>What the kernel documents\<close>

text \<open>\<open>fds\<close> gives for each open descriptor whether it is non-blocking and whether it is closed on exec.\<close>

locale descriptor_table =
  fixes Y :: "'k libc" and fds :: "'k \<Rightarrow> i32 \<rightharpoonup> bool \<times> bool"
  assumes getfl: "lc_fcntl Y k fd F_GETFL a = (v, k') \<Longrightarrow> fds k' = fds k"
    and setfl: "lc_fcntl Y k fd F_SETFL v = (rc, k') \<Longrightarrow>
      (if rc = - 1 then fds k' = fds k
       else \<exists>nb ce. fds k fd = Some (nb, ce) \<and> fds k' = (fds k)(fd \<mapsto> (v AND O_NONBLOCK \<noteq> 0, ce)))"
    and setfd: "lc_fcntl Y k fd F_SETFD v = (rc, k') \<Longrightarrow>
      (if rc = - 1 then fds k' = fds k
       else \<exists>nb ce. fds k fd = Some (nb, ce) \<and> fds k' = (fds k)(fd \<mapsto> (nb, v AND FD_CLOEXEC \<noteq> 0)))"
    and getfd: "lc_fcntl Y k fd F_GETFD a = (v, k') \<Longrightarrow> fds k' = fds k"
    and pipe: "lc_pipe Y k = (rc, (r, w), k') \<Longrightarrow>
      (if rc = - 1 then fds k' = fds k
       else r \<noteq> w \<and> fds k r = None \<and> fds k w = None \<and> fds k' = (fds k)(r \<mapsto> (False, False), w \<mapsto> (False, False)))"
    and pipe2: "lc_pipe2 Y k v = (rc, (r, w), k') \<Longrightarrow>
      (if rc = - 1 then fds k' = fds k
       else r \<noteq> w \<and> fds k r = None \<and> fds k w = None \<and>
         fds k' = (fds k)(r \<mapsto> (v AND O_NONBLOCK \<noteq> 0, v AND O_CLOEXEC \<noteq> 0), w \<mapsto> (v AND O_NONBLOCK \<noteq> 0, v AND O_CLOEXEC \<noteq> 0)))"
    and close: "fds (lc_close Y k fd) = (fds k)(fd := None)"
begin

lemma nonblock_spec:
  assumes "set_nonblock Y k fd = (r, k')"
  shows "case r of Inr _ \<Rightarrow> \<exists>nb ce. fds k fd = Some (nb, ce) \<and> fds k' = (fds k)(fd \<mapsto> (True, ce)) | Inl _ \<Rightarrow> fds k' = fds k"
proof -
  obtain flags k1 where g: "lc_fcntl Y k fd F_GETFL 0 = (flags, k1)" by (cases "lc_fcntl Y k fd F_GETFL 0")
  obtain rc k2 where s: "lc_fcntl Y k1 fd F_SETFL (flags OR O_NONBLOCK) = (rc, k2)" by (cases "lc_fcntl Y k1 fd F_SETFL (flags OR O_NONBLOCK)")
  have "(flags OR O_NONBLOCK) AND O_NONBLOCK = O_NONBLOCK" by (simp add: bit.conj_disj_distrib2)
  then have "(flags OR O_NONBLOCK) AND O_NONBLOCK \<noteq> 0" by (simp add: O_NONBLOCK_def)
  then have "if rc = - 1 then fds k2 = fds k1
       else \<exists>nb ce. fds k1 fd = Some (nb, ce) \<and> fds k2 = (fds k1)(fd \<mapsto> (True, ce))"
    using setfl[OF s] by (auto split: if_splits)
  then show ?thesis
    using assms getfl[OF g] by (auto simp: set_nonblock_def g s cvt_def is_minus_one_def split: if_splits)
qed

lemma step_spec:
  assumes "pipe_step Y (r, w) fd cmd arg k = (res, k')" and "fds k = (t(r \<mapsto> x))(w \<mapsto> y)" and "t r = None" "t w = None"
    and "\<And>rc k1. lc_fcntl Y k fd cmd arg = (rc, k1) \<Longrightarrow> if rc = - 1 then fds k1 = fds k else fds k1 = (t(r \<mapsto> x'))(w \<mapsto> y')"
  shows "case res of Inl _ \<Rightarrow> fds k' = t | Inr _ \<Rightarrow> fds k' = (t(r \<mapsto> x'))(w \<mapsto> y')"
proof -
  obtain rc k1 where f: "lc_fcntl Y k fd cmd arg = (rc, k1)" by (cases "lc_fcntl Y k fd cmd arg")
  have "((t(r \<mapsto> x))(w \<mapsto> y))(w := None, r := None) = t" using assms(3,4) by (auto simp: fun_eq_iff)
  then show ?thesis
    using assms(1,2) assms(5)[OF f]
    by (auto simp: pipe_step_def f cvt_def is_minus_one_def close fun_upd_twist split: if_splits)
qed

lemma pipe_spec:
  assumes "sys_pipe Y has k = (res, k')"
  shows "case res of
      Inr (r, w) \<Rightarrow> r \<noteq> w \<and> fds k r = None \<and> fds k w = None \<and> fds k' = (fds k)(r \<mapsto> (True, True), w \<mapsto> (True, True))
    | Inl _ \<Rightarrow> fds k' = fds k"
proof (cases has)
  case True
  obtain rc r w k1 where p: "lc_pipe2 Y k (O_NONBLOCK OR O_CLOEXEC) = (rc, (r, w), k1)"
    by (cases "lc_pipe2 Y k (O_NONBLOCK OR O_CLOEXEC)") auto
  have "(O_NONBLOCK OR O_CLOEXEC) AND O_NONBLOCK \<noteq> 0" "(O_NONBLOCK OR O_CLOEXEC) AND O_CLOEXEC \<noteq> 0"
    by (simp_all add: O_NONBLOCK_def O_CLOEXEC_def)
  then show ?thesis
    using assms True pipe2[OF p] by (auto simp: sys_pipe_def p cvt_def is_minus_one_def split: if_splits)
next
  case False
  obtain rc r w k1 where p: "lc_pipe Y k = (rc, (r, w), k1)" by (cases "lc_pipe Y k") auto
  show ?thesis
  proof (cases "rc = - 1")
    case True
    then show ?thesis using assms False pipe[OF p] by (auto simp: sys_pipe_def p cvt_def is_minus_one_def)
  next
    case rc: False
    let ?t = "fds k"
    have t: "r \<noteq> w" "?t r = None" "?t w = None" "fds k1 = ?t(r \<mapsto> (False, False), w \<mapsto> (False, False))"
      using pipe[OF p] rc by simp_all
    have one: "FD_CLOEXEC AND FD_CLOEXEC \<noteq> 0" "O_NONBLOCK AND O_NONBLOCK \<noteq> 0" by (simp_all add: FD_CLOEXEC_def O_NONBLOCK_def)
    have twist: "(m(r \<mapsto> a, w \<mapsto> b))(r \<mapsto> c) = m(r \<mapsto> c, w \<mapsto> b)" for m :: "i32 \<rightharpoonup> bool \<times> bool" and a b c
      using t(1) by (simp add: fun_upd_twist)
    obtain r1 k2 where s1: "pipe_step Y (r, w) r F_SETFD FD_CLOEXEC k1 = (r1, k2)" by (cases "pipe_step Y (r, w) r F_SETFD FD_CLOEXEC k1")
    note c1 = step_spec[OF s1 t(4,2,3), of "(False, True)" "(False, False)"]
    obtain r2 k3 where s2: "pipe_step Y (r, w) w F_SETFD FD_CLOEXEC k2 = (r2, k3)" by (cases "pipe_step Y (r, w) w F_SETFD FD_CLOEXEC k2")
    note c2 = step_spec[OF s2 _ t(2,3), of "(False, True)" "(False, False)" "(False, True)" "(False, True)"]
    obtain r3 k4 where s3: "pipe_step Y (r, w) r F_SETFL O_NONBLOCK k3 = (r3, k4)" by (cases "pipe_step Y (r, w) r F_SETFL O_NONBLOCK k3")
    note c3 = step_spec[OF s3 _ t(2,3), of "(False, True)" "(False, True)" "(True, True)" "(False, True)"]
    obtain r4 k5 where s4: "pipe_step Y (r, w) w F_SETFL O_NONBLOCK k4 = (r4, k5)" by (cases "pipe_step Y (r, w) w F_SETFL O_NONBLOCK k4")
    note c4 = step_spec[OF s4 _ t(2,3), of "(True, True)" "(False, True)" "(True, True)" "(True, True)"]
    have d1: "case r1 of Inl _ \<Rightarrow> fds k2 = ?t | Inr _ \<Rightarrow> fds k2 = ?t(r \<mapsto> (False, True), w \<mapsto> (False, False))"
      using t one by (intro c1) (drule setfd, auto simp: twist split: if_splits)
    have d2: "case r2 of Inl _ \<Rightarrow> fds k3 = ?t | Inr _ \<Rightarrow> fds k3 = ?t(r \<mapsto> (False, True), w \<mapsto> (False, True))"
      if "fds k2 = ?t(r \<mapsto> (False, True), w \<mapsto> (False, False))"
      using t(1) one that by (intro c2) (assumption | drule setfd, auto split: if_splits)+
    have d3: "case r3 of Inl _ \<Rightarrow> fds k4 = ?t | Inr _ \<Rightarrow> fds k4 = ?t(r \<mapsto> (True, True), w \<mapsto> (False, True))"
      if "fds k3 = ?t(r \<mapsto> (False, True), w \<mapsto> (False, True))"
      using t(1) one that by (intro c3) (assumption | drule setfl, auto simp: twist split: if_splits)+
    have d4: "case r4 of Inl _ \<Rightarrow> fds k5 = ?t | Inr _ \<Rightarrow> fds k5 = ?t(r \<mapsto> (True, True), w \<mapsto> (True, True))"
      if "fds k4 = ?t(r \<mapsto> (True, True), w \<mapsto> (False, True))"
      using t(1) one that by (intro c4) (assumption | drule setfl, auto split: if_splits)+
    have "sys_pipe Y has k = (case r1 of Inl e \<Rightarrow> (Inl e, k2) | Inr _ \<Rightarrow>
        (case r2 of Inl e \<Rightarrow> (Inl e, k3) | Inr _ \<Rightarrow>
          (case r3 of Inl e \<Rightarrow> (Inl e, k4) | Inr _ \<Rightarrow>
            (case r4 of Inl e \<Rightarrow> (Inl e, k5) | Inr _ \<Rightarrow> (Inr (r, w), k5)))))"
      using False rc s1 s2 s3 s4 by (simp add: sys_pipe_def p cvt_def is_minus_one_def split: sum.splits)
    then show ?thesis
      using assms t(1-3) d1 d2 d3 d4 by (auto split: sum.splits)
  qed
qed

end

locale epoll_table = descriptor_table +
  fixes E :: "'a epoll_create" and ctl :: "i32 \<Rightarrow> i32 \<Rightarrow> 'a \<Rightarrow> unit io_result \<times> 'a"
  assumes create1: "ec_create1 E k v = (rc, k') \<Longrightarrow>
      (if rc = - 1 then fds k' = fds k
       else fds k rc = None \<and> fds k' = (fds k)(rc \<mapsto> (False, v AND EPOLL_CLOEXEC \<noteq> 0)))"
    and create: "ec_create E k n = (rc, k') \<Longrightarrow>
      (if rc = - 1 then fds k' = fds k else fds k rc = None \<and> fds k' = (fds k)(rc \<mapsto> (False, False)))"
    and ctl: "ctl ep fd k = (res, k') \<Longrightarrow> fds k' = fds k"
begin

lemma cloexec_spec:
  assumes "set_cloexec Y k fd = (r, k')" "fds k fd = Some (nb, ce)"
  shows "\<exists>ce'. fds k' = (fds k)(fd \<mapsto> (nb, ce'))"
proof -
  obtain flags k1 where g: "lc_fcntl Y k fd F_GETFD 0 = (flags, k1)" by (cases "lc_fcntl Y k fd F_GETFD 0")
  obtain rc k2 where s: "lc_fcntl Y k1 fd F_SETFD (flags OR FD_CLOEXEC) = (rc, k2)"
    by (cases "lc_fcntl Y k1 fd F_SETFD (flags OR FD_CLOEXEC)")
  show ?thesis
    using assms setfd[OF s] getfd[OF g] map_upd_triv[of "fds k" fd "(nb, ce)"]
    by (cases "rc = - 1") (auto simp: set_cloexec_def g s intro: exI[of _ ce])
qed

lemma selector_fd_spec:
  assumes "selector_fd Y E has k = (r, k')"
  shows "case r of Inr ep \<Rightarrow> fds k ep = None \<and> (\<exists>ce. fds k' = (fds k)(ep \<mapsto> (False, ce))) | Inl _ \<Rightarrow> fds k' = fds k"
proof (cases has)
  case True
  then show ?thesis using assms
    by (auto simp: selector_fd_def cvt_def is_minus_one_def dest!: create1 split: prod.splits if_splits)
next
  case False
  obtain rc k1 where c: "ec_create E k 1024 = (rc, k1)" by (cases "ec_create E k 1024")
  obtain u k2 where s: "set_cloexec Y k1 rc = (u, k2)" by (cases "set_cloexec Y k1 rc")
  show ?thesis using assms False c create[OF c] cloexec_spec[OF s, of False False] s
    by (auto simp: selector_fd_def cvt_def is_minus_one_def split: if_splits)
qed

lemma poll_open_spec:
  assumes "poll_open Y E ctl has1 has2 k = (res, k')"
  shows "case res of
      Inr (ep, r, w) \<Rightarrow> distinct [ep, r, w] \<and> fds k ep = None \<and> fds k r = None \<and> fds k w = None \<and>
        (\<exists>ce. fds k' = (fds k)(ep \<mapsto> (False, ce), r \<mapsto> (True, True), w \<mapsto> (True, True)))
    | Inl _ \<Rightarrow> fds k' = fds k"
proof -
  obtain re k1 where e: "selector_fd Y E has1 k = (re, k1)" by (cases "selector_fd Y E has1 k")
  show ?thesis
  proof (cases re)
    case (Inl err)
    then show ?thesis using assms e selector_fd_spec[OF e] by (auto simp: poll_open_def)
  next
    case (Inr ep)
    then obtain ce where ep: "fds k ep = None" "fds k1 = (fds k)(ep \<mapsto> (False, ce))" using selector_fd_spec[OF e] by auto
    obtain rp k2 where p: "sys_pipe Y has2 k1 = (rp, k2)" by (cases "sys_pipe Y has2 k1")
    show ?thesis
    proof (cases rp)
      case (Inl err)
      then show ?thesis using assms e Inr p pipe_spec[OF p] ep
        by (auto simp: poll_open_def selector_drop_def close fun_upd_idem)
    next
      case (Inr rw)
      obtain r w where rw: "rw = (r, w)" by (cases rw)
      then have f: "r \<noteq> w" "fds k1 r = None" "fds k1 w = None" "fds k2 = (fds k1)(r \<mapsto> (True, True), w \<mapsto> (True, True))"
        using pipe_spec[OF p] Inr by simp_all
      then have d: "distinct [ep, r, w]" "fds k r = None" "fds k w = None" using ep by (auto split: if_splits)
      obtain rc k3 where c: "ctl ep r k2 = (rc, k3)" by (cases "ctl ep r k2")
      then have k3: "fds k3 = (fds k)(ep \<mapsto> (False, ce), r \<mapsto> (True, True), w \<mapsto> (True, True))" using ctl[OF c] f ep by simp
      show ?thesis
      proof (cases rc)
        case (Inl err)
        then have "k' = awakener_drop Y (selector_drop Y k3 ep) rw" "res = Inl err"
          using assms e \<open>re = Inr ep\<close> p \<open>rp = Inr rw\<close> c rw by (simp_all add: poll_open_def)
        moreover have "((fds k)(ep \<mapsto> (False, ce), r \<mapsto> (True, True), w \<mapsto> (True, True)))(ep := None, r := None, w := None) = fds k"
          using d ep(1) by (auto simp: fun_eq_iff)
        ultimately show ?thesis using rw by (simp add: awakener_drop_def selector_drop_def close k3)
      next
        case (Inr u)
        then have "res = Inr (ep, r, w)" "k' = k3"
          using assms e \<open>re = Inr ep\<close> p \<open>rp = Inr rw\<close> c rw by (simp_all add: poll_open_def)
        then show ?thesis using d ep(1) k3 by auto
      qed
    qed
  qed
qed

end

subsection \<open>Properties\<close>

text \<open>Making a poller leaks nothing: it ends with three new descriptors, the selector's and a pipe whose
  ends are non-blocking and closed on exec, or with an error and the descriptors that were open
  before and no others, whichever call fails and whichever system calls exist.\<close>

theorem poll_new_no_leak:
  assumes "epoll_table Y fds E ctl" and "poll_open Y E ctl has1 has2 k = (res, k')"
  shows "case res of
      Inr (ep, r, w) \<Rightarrow> distinct [ep, r, w] \<and> fds k ep = None \<and> fds k r = None \<and> fds k w = None \<and>
        (\<exists>ce. fds k' = (fds k)(ep \<mapsto> (False, ce), r \<mapsto> (True, True), w \<mapsto> (True, True)))
    | Inl _ \<Rightarrow> fds k' = fds k"
  using assms by (rule epoll_table.poll_open_spec)

subsection \<open>Concrete inputs\<close>

text \<open>A table of sixteen descriptors, with a script of which calls of \<open>fcntl\<close> fail.\<close>

definition free_fds :: "(i32 \<rightharpoonup> bool \<times> bool) \<Rightarrow> i32 list" where
  "free_fds t = filter (\<lambda>i. t i = None) [0, 1, 2, 3, 4, 5, 6, 7, 8, 9, 10, 11, 12, 13, 14, 15]"

definition table_pipe :: "(i32 \<rightharpoonup> bool \<times> bool) \<times> bool list \<Rightarrow> bool \<times> bool
    \<Rightarrow> i32 \<times> (i32 \<times> i32) \<times> ((i32 \<rightharpoonup> bool \<times> bool) \<times> bool list)" where
  "table_pipe k fl = (case free_fds (fst k) of
      r # w # _ \<Rightarrow> (0, (r, w), ((fst k)(r \<mapsto> fl, w \<mapsto> fl), snd k))
    | _ \<Rightarrow> (- 1, (0, 0), k))"

definition table_libc :: "((i32 \<rightharpoonup> bool \<times> bool) \<times> bool list) libc" where
  "table_libc = \<lparr>
     lc_fcntl = \<lambda>k fd cmd arg.
       (case fst k fd of
          None \<Rightarrow> (- 1, k)
        | Some (nb, ce) \<Rightarrow>
            if snd k \<noteq> [] \<and> hd (snd k) then (- 1, (fst k, tl (snd k)))
            else (case cmd of
                F_GETFD \<Rightarrow> (if ce then FD_CLOEXEC else 0, (fst k, tl (snd k)))
              | F_GETFL \<Rightarrow> (if nb then O_NONBLOCK else 0, (fst k, tl (snd k)))
              | F_SETFD \<Rightarrow> (0, ((fst k)(fd \<mapsto> (nb, arg AND FD_CLOEXEC \<noteq> 0)), tl (snd k)))
              | F_SETFL \<Rightarrow> (0, ((fst k)(fd \<mapsto> (arg AND O_NONBLOCK \<noteq> 0, ce)), tl (snd k))))),
     lc_pipe = \<lambda>k. table_pipe k (False, False),
     lc_pipe2 = \<lambda>k v. table_pipe k (v AND O_NONBLOCK \<noteq> 0, v AND O_CLOEXEC \<noteq> 0),
     lc_close = \<lambda>k fd. ((fst k)(fd := None), snd k),
     lc_errno = \<lambda>k. OtherError ''errno''\<rparr>"

lemma table_pipe_spec:
  assumes "table_pipe k fl = (rc, (r, w), k')"
  shows "if rc = - 1 then fst k' = fst k
     else r \<noteq> w \<and> fst k r = None \<and> fst k w = None \<and> fst k' = (fst k)(r \<mapsto> fl, w \<mapsto> fl)"
proof (cases "\<exists>a b xs. free_fds (fst k) = a # b # xs")
  case True
  then obtain a b xs where f: "free_fds (fst k) = a # b # xs" by blast
  have "distinct (free_fds (fst k))" unfolding free_fds_def by (rule distinct_filter) simp
  then have "a \<noteq> b" unfolding f by simp
  moreover have "i \<in> set (free_fds (fst k)) \<Longrightarrow> fst k i = None" for i
    unfolding free_fds_def set_filter by blast
  then have "fst k a = None" "fst k b = None" unfolding f by simp_all
  ultimately have "a \<noteq> b" "fst k a = None" "fst k b = None" by simp_all
  then show ?thesis using assms f by (auto simp: table_pipe_def)
next
  case False
  then show ?thesis using assms by (auto simp: table_pipe_def split: list.splits)
qed

interpretation table: descriptor_table table_libc fst
proof unfold_locales
  show "fst k' = fst k" if "lc_fcntl table_libc k fd F_GETFL a = (v, k')" for k fd a v k'
    using that by (auto simp: table_libc_def split: option.splits if_splits)
  show "fst k' = fst k" if "lc_fcntl table_libc k fd F_GETFD a = (v, k')" for k fd a v k'
    using that by (auto simp: table_libc_def split: option.splits if_splits)
  show "if rc = - 1 then fst k' = fst k
      else \<exists>nb ce. fst k fd = Some (nb, ce) \<and> fst k' = (fst k)(fd \<mapsto> (v AND O_NONBLOCK \<noteq> 0, ce))"
    if "lc_fcntl table_libc k fd F_SETFL v = (rc, k')" for k fd v rc k'
    using that by (auto simp: table_libc_def split: option.splits if_splits)
  show "if rc = - 1 then fst k' = fst k
      else \<exists>nb ce. fst k fd = Some (nb, ce) \<and> fst k' = (fst k)(fd \<mapsto> (nb, v AND FD_CLOEXEC \<noteq> 0))"
    if "lc_fcntl table_libc k fd F_SETFD v = (rc, k')" for k fd v rc k'
    using that by (auto simp: table_libc_def split: option.splits if_splits)
qed (auto simp: table_libc_def dest: table_pipe_spec)

definition table_create :: "((i32 \<rightharpoonup> bool \<times> bool) \<times> bool list) epoll_create" where
  "table_create = \<lparr>
     ec_create1 = \<lambda>k v. (case free_fds (fst k) of
         fd # _ \<Rightarrow> if fd = - 1 then (- 1, k) else (fd, ((fst k)(fd \<mapsto> (False, v AND EPOLL_CLOEXEC \<noteq> 0)), snd k))
       | [] \<Rightarrow> (- 1, k)),
     ec_create = \<lambda>k n. (case free_fds (fst k) of
         fd # _ \<Rightarrow> if fd = - 1 then (- 1, k) else (fd, ((fst k)(fd \<mapsto> (False, False)), snd k))
       | [] \<Rightarrow> (- 1, k))\<rparr>"

lemma free_fds_hd: "free_fds t = fd # xs \<Longrightarrow> t fd = None"
  unfolding free_fds_def filter_eq_Cons_iff by blast

interpretation creating: epoll_table table_libc fst table_create "\<lambda>_ _ k. (Inl (OtherError ''epoll''), k)"
  by unfold_locales (auto simp: table_create_def dest: free_fds_hd split: list.splits if_splits)

text \<open>The registration fails: the table is as before.\<close>

theorem poll_new_no_leak_witness:
  "fst (snd (poll_open table_libc table_create (\<lambda>_ _ k. (Inl (OtherError ''epoll''), k)) True False (Map.empty, []))) = Map.empty"
proof -
  let ?ctl = "\<lambda>_ _ k. (Inl (OtherError ''epoll''), k)"
  let ?k = "(Map.empty, []) :: (i32 \<rightharpoonup> bool \<times> bool) \<times> bool list"
  obtain res k' where p: "poll_open table_libc table_create ?ctl True False ?k = (res, k')"
    by (cases "poll_open table_libc table_create ?ctl True False ?k")
  have "\<exists>e. fst (poll_open table_libc table_create ?ctl True False ?k) = Inl e"
    by (auto simp: poll_open_def split: prod.split sum.split)
  then show ?thesis using poll_new_no_leak[OF creating.epoll_table_axioms p] p by auto
qed

end
