(* ===== verification/Tcp.thy ===== *)
theory Tcp
  imports Poll Sys NetIO
begin

section \<open>Streams and listeners\<close>

text \<open>
  \<open>TcpStream\<close> and \<open>TcpListener\<close> of \<open>src/net/tcp.rs\<close> over those of \<open>src/sys/unix/tcp.rs\<close>. The sockets of the standard
  library, the \<open>TcpBuilder\<close> and the extensions of net2 are the parameter \<open>std_net\<close>, over the state of
  the kernel; a socket is its descriptor. What an operation takes by value and does not return is dropped:
  its descriptor is closed.
\<close>

type_synonym u16 = "16 word"

datatype socket_addr = V4 u32 u16 | V6 "128 word" u16 u32 u32

type_synonym ('k, 'v) getter = "'k \<Rightarrow> i32 \<Rightarrow> 'v io_result \<times> 'k"
type_synonym ('k, 'v) setter = "'k \<Rightarrow> i32 \<Rightarrow> 'v \<Rightarrow> unit io_result \<times> 'k"

text \<open>\<open>sn_to_stream\<close> and \<open>sn_listen\<close> take the descriptor out of a builder. An error of \<open>sn_connect\<close> has its number.\<close>

record 'k std_net =
  sn_new_v4 :: "'k \<Rightarrow> i32 io_result \<times> 'k"
  sn_new_v6 :: "'k \<Rightarrow> i32 io_result \<times> 'k"
  sn_to_stream :: "('k, i32) getter"
  sn_connect :: "'k \<Rightarrow> i32 \<Rightarrow> socket_addr \<Rightarrow> ((i32 option \<times> io_error) + unit) \<times> 'k"
  sn_reuse_address :: "('k, bool) setter"
  sn_reuse_port :: "('k, bool) setter"
  sn_bind :: "('k, socket_addr) setter"
  sn_listen :: "'k \<Rightarrow> i32 \<Rightarrow> i32 \<Rightarrow> i32 io_result \<times> 'k"
  sn_accept :: "('k, i32 \<times> socket_addr) getter"
  sn_try_clone :: "('k, i32) getter"
  sn_peer_addr :: "('k, socket_addr) getter"
  sn_local_addr :: "('k, socket_addr) getter"
  sn_shutdown :: "('k, shutdown) setter"
  sn_set_nodelay :: "('k, bool) setter"
  sn_nodelay :: "('k, bool) getter"
  sn_set_recv_buffer_size :: "('k, usize) setter"
  sn_recv_buffer_size :: "('k, usize) getter"
  sn_set_send_buffer_size :: "('k, usize) setter"
  sn_send_buffer_size :: "('k, usize) getter"
  sn_set_keepalive :: "('k, duration option) setter"
  sn_keepalive :: "('k, duration option) getter"
  sn_set_ttl :: "('k, u32) setter"
  sn_ttl :: "('k, u32) getter"
  sn_take_error :: "('k, io_error option) getter"
  sn_peek :: "'k \<Rightarrow> i32 \<Rightarrow> nat \<Rightarrow> u8 list io_result \<times> 'k"
  sn_read :: "'k \<Rightarrow> i32 \<Rightarrow> nat \<Rightarrow> u8 list io_result \<times> 'k"
  sn_write :: "'k \<Rightarrow> i32 \<Rightarrow> u8 list \<Rightarrow> usize io_result \<times> 'k"
  sn_flush :: "('k, unit) getter"
  sn_readv :: "'k \<Rightarrow> i32 \<Rightarrow> nat list \<Rightarrow> i64 \<times> u8 list \<times> 'k"
  sn_writev :: "'k \<Rightarrow> i32 \<Rightarrow> u8 list list \<Rightarrow> i64 \<times> 'k"

text \<open>A stream and a listener: the descriptor and the selector they are associated with, zero for none.\<close>

record tcp_stream =
  ts_sys :: i32
  ts_selector_id :: usize

record tcp_listener =
  tl_sys :: i32
  tl_selector_id :: usize

definition map_inr :: "('a \<Rightarrow> 'b) \<Rightarrow> 'a io_result \<times> 'k \<Rightarrow> 'b io_result \<times> 'k" where
  "map_inr f p = (case p of (Inl e, k) \<Rightarrow> (Inl e, k) | (Inr v, k) \<Rightarrow> (Inr (f v), k))"

subsection \<open>The streams of the system layer\<close>

definition EINPROGRESS :: i32 where "EINPROGRESS = 115"

definition sys_connect :: "'k libc \<Rightarrow> 'k std_net \<Rightarrow> 'k \<Rightarrow> i32 \<Rightarrow> socket_addr \<Rightarrow> i32 io_result \<times> 'k" where
  "sys_connect Y N k fd addr =
     (case set_nonblock Y k fd of
        (Inl e, k) \<Rightarrow> (Inl e, lc_close Y k fd)
      | (Inr _, k) \<Rightarrow>
          (case sn_connect N k fd addr of
             (Inr _, k) \<Rightarrow> (Inr fd, k)
           | (Inl (raw, e), k) \<Rightarrow> if raw = Some EINPROGRESS then (Inr fd, k) else (Inl e, lc_close Y k fd)))"

definition sys_try_clone :: "'k std_net \<Rightarrow> ('k, i32) getter" where
  "sys_try_clone N k fd = sn_try_clone N k fd"

definition sys_peer_addr :: "'k std_net \<Rightarrow> ('k, socket_addr) getter" where
  "sys_peer_addr N k fd = sn_peer_addr N k fd"

definition sys_local_addr :: "'k std_net \<Rightarrow> ('k, socket_addr) getter" where
  "sys_local_addr N k fd = sn_local_addr N k fd"

definition sys_shutdown :: "'k std_net \<Rightarrow> ('k, shutdown) setter" where
  "sys_shutdown N k fd v = sn_shutdown N k fd v"

definition sys_set_nodelay :: "'k std_net \<Rightarrow> ('k, bool) setter" where
  "sys_set_nodelay N k fd v = sn_set_nodelay N k fd v"

definition sys_nodelay :: "'k std_net \<Rightarrow> ('k, bool) getter" where
  "sys_nodelay N k fd = sn_nodelay N k fd"

definition sys_set_recv_buffer_size :: "'k std_net \<Rightarrow> ('k, usize) setter" where
  "sys_set_recv_buffer_size N k fd v = sn_set_recv_buffer_size N k fd v"

definition sys_recv_buffer_size :: "'k std_net \<Rightarrow> ('k, usize) getter" where
  "sys_recv_buffer_size N k fd = sn_recv_buffer_size N k fd"

definition sys_set_send_buffer_size :: "'k std_net \<Rightarrow> ('k, usize) setter" where
  "sys_set_send_buffer_size N k fd v = sn_set_send_buffer_size N k fd v"

definition sys_send_buffer_size :: "'k std_net \<Rightarrow> ('k, usize) getter" where
  "sys_send_buffer_size N k fd = sn_send_buffer_size N k fd"

definition sys_set_keepalive :: "'k std_net \<Rightarrow> ('k, duration option) setter" where
  "sys_set_keepalive N k fd v = sn_set_keepalive N k fd v"

definition sys_keepalive :: "'k std_net \<Rightarrow> ('k, duration option) getter" where
  "sys_keepalive N k fd = sn_keepalive N k fd"

definition sys_set_ttl :: "'k std_net \<Rightarrow> ('k, u32) setter" where
  "sys_set_ttl N k fd v = sn_set_ttl N k fd v"

definition sys_ttl :: "'k std_net \<Rightarrow> ('k, u32) getter" where
  "sys_ttl N k fd = sn_ttl N k fd"

definition sys_take_error :: "'k std_net \<Rightarrow> ('k, io_error option) getter" where
  "sys_take_error N k fd = sn_take_error N k fd"

definition sys_peek :: "'k std_net \<Rightarrow> 'k \<Rightarrow> i32 \<Rightarrow> nat \<Rightarrow> u8 list io_result \<times> 'k" where
  "sys_peek N k fd n = sn_peek N k fd n"

text \<open>The vectored calls of \<open>src/sys/unix/uio.rs\<close>: no more than \<open>2 ^ 31 - 1\<close> buffers are passed on.\<close>

definition sys_readv :: "'k libc \<Rightarrow> 'k std_net \<Rightarrow> 'k \<Rightarrow> i32 \<Rightarrow> nat list \<Rightarrow> usize io_result \<times> u8 list \<times> 'k" where
  "sys_readv Y N k fd bufs =
     (case sn_readv N k fd (take (vec_len (length bufs)) bufs) of (rc, bs, k) \<Rightarrow> (vec_result Y k rc, bs, k))"

definition sys_writev :: "'k libc \<Rightarrow> 'k std_net \<Rightarrow> 'k \<Rightarrow> i32 \<Rightarrow> u8 list list \<Rightarrow> usize io_result \<times> 'k" where
  "sys_writev Y N k fd bufs =
     (case sn_writev N k fd (take (vec_len (length bufs)) bufs) of (rc, k) \<Rightarrow> (vec_result Y k rc, k))"

definition sys_read :: "'k std_net \<Rightarrow> 'k \<Rightarrow> i32 \<Rightarrow> nat \<Rightarrow> u8 list io_result \<times> 'k" where
  "sys_read N k fd n = sn_read N k fd n"

definition sys_write :: "'k std_net \<Rightarrow> 'k \<Rightarrow> i32 \<Rightarrow> u8 list \<Rightarrow> usize io_result \<times> 'k" where
  "sys_write N k fd bs = sn_write N k fd bs"

definition sys_flush :: "'k std_net \<Rightarrow> ('k, unit) getter" where
  "sys_flush N k fd = sn_flush N k fd"

definition sys_listener_new :: "'k libc \<Rightarrow> 'k \<Rightarrow> i32 \<Rightarrow> i32 io_result \<times> 'k" where
  "sys_listener_new Y k fd =
     (case set_nonblock Y k fd of (Inl e, k) \<Rightarrow> (Inl e, lc_close Y k fd) | (Inr _, k) \<Rightarrow> (Inr fd, k))"

definition sys_accept :: "'k std_net \<Rightarrow> ('k, i32 \<times> socket_addr) getter" where
  "sys_accept N k fd = sn_accept N k fd"

subsection \<open>Streams\<close>

definition tcp_connect_stream ::
    "'k libc \<Rightarrow> 'k std_net \<Rightarrow> 'k \<Rightarrow> i32 \<Rightarrow> socket_addr \<Rightarrow> tcp_stream io_result \<times> 'k" where
  "tcp_connect_stream Y N k fd addr =
     (case set_nonblock Y k fd of
        (Inl e, k) \<Rightarrow> (Inl e, lc_close Y k fd)
      | (Inr _, k) \<Rightarrow> map_inr (\<lambda>s. \<lparr>ts_sys = s, ts_selector_id = 0\<rparr>) (sys_connect Y N k fd addr))"

definition tcp_connect :: "'k libc \<Rightarrow> 'k std_net \<Rightarrow> 'k \<Rightarrow> socket_addr \<Rightarrow> tcp_stream io_result \<times> 'k" where
  "tcp_connect Y N k addr =
     (case (case addr of V4 _ _ \<Rightarrow> sn_new_v4 N k | V6 _ _ _ _ \<Rightarrow> sn_new_v6 N k) of
        (Inl e, k) \<Rightarrow> (Inl e, k)
      | (Inr sock, k) \<Rightarrow>
          (case sn_to_stream N k sock of
             (Inl e, k) \<Rightarrow> (Inl e, lc_close Y k sock)
           | (Inr fd, k) \<Rightarrow> tcp_connect_stream Y N k fd addr))"

definition tcp_from_stream :: "'k libc \<Rightarrow> 'k \<Rightarrow> i32 \<Rightarrow> tcp_stream io_result \<times> 'k" where
  "tcp_from_stream Y k fd =
     (case set_nonblock Y k fd of
        (Inl e, k) \<Rightarrow> (Inl e, lc_close Y k fd)
      | (Inr _, k) \<Rightarrow> (Inr \<lparr>ts_sys = fd, ts_selector_id = 0\<rparr>, k))"

text \<open>A clone is another descriptor with the selector the stream has been associated with so far.\<close>

definition tcp_try_clone :: "'k std_net \<Rightarrow> 'k \<Rightarrow> tcp_stream \<Rightarrow> tcp_stream io_result \<times> 'k" where
  "tcp_try_clone N k s = map_inr (\<lambda>fd. \<lparr>ts_sys = fd, ts_selector_id = ts_selector_id s\<rparr>) (sys_try_clone N k (ts_sys s))"

definition tcp_peer_addr :: "'k std_net \<Rightarrow> 'k \<Rightarrow> tcp_stream \<Rightarrow> socket_addr io_result \<times> 'k" where
  "tcp_peer_addr N k s = sys_peer_addr N k (ts_sys s)"

definition tcp_local_addr :: "'k std_net \<Rightarrow> 'k \<Rightarrow> tcp_stream \<Rightarrow> socket_addr io_result \<times> 'k" where
  "tcp_local_addr N k s = sys_local_addr N k (ts_sys s)"

definition tcp_shutdown :: "'k std_net \<Rightarrow> 'k \<Rightarrow> tcp_stream \<Rightarrow> shutdown \<Rightarrow> unit io_result \<times> 'k" where
  "tcp_shutdown N k s v = sys_shutdown N k (ts_sys s) v"

definition tcp_set_nodelay :: "'k std_net \<Rightarrow> 'k \<Rightarrow> tcp_stream \<Rightarrow> bool \<Rightarrow> unit io_result \<times> 'k" where
  "tcp_set_nodelay N k s v = sys_set_nodelay N k (ts_sys s) v"

definition tcp_nodelay :: "'k std_net \<Rightarrow> 'k \<Rightarrow> tcp_stream \<Rightarrow> bool io_result \<times> 'k" where
  "tcp_nodelay N k s = sys_nodelay N k (ts_sys s)"

definition tcp_set_recv_buffer_size :: "'k std_net \<Rightarrow> 'k \<Rightarrow> tcp_stream \<Rightarrow> usize \<Rightarrow> unit io_result \<times> 'k" where
  "tcp_set_recv_buffer_size N k s v = sys_set_recv_buffer_size N k (ts_sys s) v"

definition tcp_recv_buffer_size :: "'k std_net \<Rightarrow> 'k \<Rightarrow> tcp_stream \<Rightarrow> usize io_result \<times> 'k" where
  "tcp_recv_buffer_size N k s = sys_recv_buffer_size N k (ts_sys s)"

definition tcp_set_send_buffer_size :: "'k std_net \<Rightarrow> 'k \<Rightarrow> tcp_stream \<Rightarrow> usize \<Rightarrow> unit io_result \<times> 'k" where
  "tcp_set_send_buffer_size N k s v = sys_set_send_buffer_size N k (ts_sys s) v"

definition tcp_send_buffer_size :: "'k std_net \<Rightarrow> 'k \<Rightarrow> tcp_stream \<Rightarrow> usize io_result \<times> 'k" where
  "tcp_send_buffer_size N k s = sys_send_buffer_size N k (ts_sys s)"

definition tcp_set_keepalive :: "'k std_net \<Rightarrow> 'k \<Rightarrow> tcp_stream \<Rightarrow> duration option \<Rightarrow> unit io_result \<times> 'k" where
  "tcp_set_keepalive N k s v = sys_set_keepalive N k (ts_sys s) v"

definition tcp_keepalive :: "'k std_net \<Rightarrow> 'k \<Rightarrow> tcp_stream \<Rightarrow> (duration option) io_result \<times> 'k" where
  "tcp_keepalive N k s = sys_keepalive N k (ts_sys s)"

definition tcp_set_ttl :: "'k std_net \<Rightarrow> 'k \<Rightarrow> tcp_stream \<Rightarrow> u32 \<Rightarrow> unit io_result \<times> 'k" where
  "tcp_set_ttl N k s v = sys_set_ttl N k (ts_sys s) v"

definition tcp_ttl :: "'k std_net \<Rightarrow> 'k \<Rightarrow> tcp_stream \<Rightarrow> u32 io_result \<times> 'k" where
  "tcp_ttl N k s = sys_ttl N k (ts_sys s)"

definition tcp_take_error :: "'k std_net \<Rightarrow> 'k \<Rightarrow> tcp_stream \<Rightarrow> (io_error option) io_result \<times> 'k" where
  "tcp_take_error N k s = sys_take_error N k (ts_sys s)"

text \<open>Milliseconds go in as they are; on the way out they are cut to 32 bits.\<close>

definition tcp_set_keepalive_ms :: "'k std_net \<Rightarrow> 'k \<Rightarrow> tcp_stream \<Rightarrow> u32 option \<Rightarrow> unit io_result \<times> 'k" where
  "tcp_set_keepalive_ms N k s v = tcp_set_keepalive N k s (map_option (\<lambda>v. from_millis (ucast v)) v)"

definition tcp_keepalive_ms :: "'k std_net \<Rightarrow> 'k \<Rightarrow> tcp_stream \<Rightarrow> u32 option io_result \<times> 'k" where
  "tcp_keepalive_ms N k s = map_inr (map_option (\<lambda>d. ucast (millis d))) (tcp_keepalive N k s)"

definition tcp_peek :: "'k std_net \<Rightarrow> 'k \<Rightarrow> tcp_stream \<Rightarrow> nat \<Rightarrow> u8 list io_result \<times> 'k" where
  "tcp_peek N k s n = sys_peek N k (ts_sys s) n"

definition tcp_read_bufs :: "'k libc \<Rightarrow> 'k std_net \<Rightarrow> 'k \<Rightarrow> tcp_stream \<Rightarrow> nat list \<Rightarrow> usize io_result \<times> u8 list \<times> 'k" where
  "tcp_read_bufs Y N k s bufs = sys_readv Y N k (ts_sys s) bufs"

definition tcp_write_bufs :: "'k libc \<Rightarrow> 'k std_net \<Rightarrow> 'k \<Rightarrow> tcp_stream \<Rightarrow> u8 list list \<Rightarrow> usize io_result \<times> 'k" where
  "tcp_write_bufs Y N k s bufs = sys_writev Y N k (ts_sys s) bufs"

definition tcp_read :: "'k std_net \<Rightarrow> 'k \<Rightarrow> tcp_stream \<Rightarrow> nat \<Rightarrow> u8 list io_result \<times> 'k" where
  "tcp_read N k s n = sys_read N k (ts_sys s) n"

definition tcp_write :: "'k std_net \<Rightarrow> 'k \<Rightarrow> tcp_stream \<Rightarrow> u8 list \<Rightarrow> usize io_result \<times> 'k" where
  "tcp_write N k s bs = sys_write N k (ts_sys s) bs"

definition tcp_flush :: "'k std_net \<Rightarrow> 'k \<Rightarrow> tcp_stream \<Rightarrow> unit io_result \<times> 'k" where
  "tcp_flush N k s = sys_flush N k (ts_sys s)"

definition inaddr_any :: "socket_addr \<Rightarrow> socket_addr" where
  "inaddr_any other = (case other of V4 _ _ \<Rightarrow> V4 0 0 | V6 _ _ _ _ \<Rightarrow> V6 0 0 0 0)"

subsection \<open>Listeners\<close>

definition tcp_listener_from_std :: "'k libc \<Rightarrow> 'k \<Rightarrow> i32 \<Rightarrow> tcp_listener io_result \<times> 'k" where
  "tcp_listener_from_std Y k fd = map_inr (\<lambda>s. \<lparr>tl_sys = s, tl_selector_id = 0\<rparr>) (sys_listener_new Y k fd)"

text \<open>An operation of a builder that ends \<open>bind\<close> when it fails; the builder is dropped then.\<close>

definition or_drop :: "'k libc \<Rightarrow> i32 \<Rightarrow> 'a io_result \<times> 'k \<Rightarrow> ('a \<Rightarrow> 'k \<Rightarrow> 'b io_result \<times> 'k) \<Rightarrow> 'b io_result \<times> 'k" where
  "or_drop Y sock p f = (case p of (Inl e, k) \<Rightarrow> (Inl e, lc_close Y k sock) | (Inr v, k) \<Rightarrow> f v k)"

definition tcp_bind :: "'k libc \<Rightarrow> 'k std_net \<Rightarrow> 'k \<Rightarrow> socket_addr \<Rightarrow> tcp_listener io_result \<times> 'k" where
  "tcp_bind Y N k addr =
     (case (case addr of V4 _ _ \<Rightarrow> sn_new_v4 N k | V6 _ _ _ _ \<Rightarrow> sn_new_v6 N k) of
        (Inl e, k) \<Rightarrow> (Inl e, k)
      | (Inr sock, k) \<Rightarrow>
          or_drop Y sock (sn_reuse_address N k sock True) (\<lambda>_ k.
          or_drop Y sock (sn_reuse_port N k sock True) (\<lambda>_ k.
          or_drop Y sock (sn_bind N k sock addr) (\<lambda>_ k.
          or_drop Y sock (sn_listen N k sock 1024) (\<lambda>listener k.
            map_inr (\<lambda>s. \<lparr>tl_sys = s, tl_selector_id = 0\<rparr>) (sys_listener_new Y k listener))))))"

text \<open>\<open>None\<close> is the panic of \<open>unwrap\<close>.\<close>

definition tcp_listener_new :: "'k libc \<Rightarrow> 'k std_net \<Rightarrow> 'k \<Rightarrow> socket_addr \<Rightarrow> (tcp_listener \<times> 'k) option" where
  "tcp_listener_new Y N k addr = (case tcp_bind Y N k addr of (Inl e, k) \<Rightarrow> None | (Inr l, k) \<Rightarrow> Some (l, k))"

definition tcp_accept_std :: "'k std_net \<Rightarrow> 'k \<Rightarrow> tcp_listener \<Rightarrow> (i32 \<times> socket_addr) io_result \<times> 'k" where
  "tcp_accept_std N k l = sys_accept N k (tl_sys l)"

definition tcp_accept :: "'k libc \<Rightarrow> 'k std_net \<Rightarrow> 'k \<Rightarrow> tcp_listener \<Rightarrow> (tcp_stream \<times> socket_addr) io_result \<times> 'k" where
  "tcp_accept Y N k l =
     (case tcp_accept_std N k l of
        (Inl e, k) \<Rightarrow> (Inl e, k)
      | (Inr (s, a), k) \<Rightarrow> map_inr (\<lambda>s. (s, a)) (tcp_from_stream Y k s))"

definition listener_try_clone :: "'k std_net \<Rightarrow> 'k \<Rightarrow> tcp_listener \<Rightarrow> tcp_listener io_result \<times> 'k" where
  "listener_try_clone N k l = map_inr (\<lambda>fd. \<lparr>tl_sys = fd, tl_selector_id = tl_selector_id l\<rparr>) (sys_try_clone N k (tl_sys l))"

subsection \<open>Registering\<close>

text \<open>\<open>EventedFd\<close> of \<open>src/sys/unix/eventedfd.rs\<close>, which the streams of the system layer, the pipe's ends and the
  awakener forward to.\<close>

definition eventedfd_register ::
    "'k epoll_ops \<Rightarrow> ('j, 'k, 'p) poll \<Rightarrow> i32 \<Rightarrow> token_entry \<Rightarrow> ready \<Rightarrow> poll_opt \<Rightarrow> 'j job \<Rightarrow> unit io_result \<times> ('j, 'k, 'p) poll" where
  "eventedfd_register K poll fd tok interest opts job =
     (case selector_register K (po_selector poll) fd tok interest opts job of (r, sel) \<Rightarrow> (r, poll\<lparr>po_selector := sel\<rparr>))"

definition eventedfd_reregister ::
    "'k epoll_ops \<Rightarrow> ('j, 'k, 'p) poll \<Rightarrow> i32 \<Rightarrow> token_entry \<Rightarrow> ready \<Rightarrow> poll_opt \<Rightarrow> unit io_result \<times> ('j, 'k, 'p) poll" where
  "eventedfd_reregister K poll fd tok interest opts =
     (case selector_reregister K (po_selector poll) fd tok interest opts of (r, sel) \<Rightarrow> (r, poll\<lparr>po_selector := sel\<rparr>))"

definition eventedfd_deregister ::
    "'k epoll_ops \<Rightarrow> bool \<Rightarrow> ('j, 'k, 'p) poll \<Rightarrow> i32 \<Rightarrow> (unit io_result \<times> ('j, 'k, 'p) poll) option" where
  "eventedfd_deregister K dbg poll fd =
     do { (r, sel) \<leftarrow> selector_deregister K dbg (po_selector poll) fd; Some (r, poll\<lparr>po_selector := sel\<rparr>) }"

definition tcp_register ::
    "'k epoll_ops \<Rightarrow> ('j, 'k, 'p) poll \<Rightarrow> tcp_stream \<Rightarrow> token_entry \<Rightarrow> ready \<Rightarrow> poll_opt \<Rightarrow> 'j job
       \<Rightarrow> unit io_result \<times> tcp_stream \<times> ('j, 'k, 'p) poll" where
  "tcp_register K poll s tok interest opts job =
     (case associate_selector (ts_selector_id s) poll of
        (Inl e, i) \<Rightarrow> (Inl e, s\<lparr>ts_selector_id := i\<rparr>, poll)
      | (Inr _, i) \<Rightarrow>
          (case eventedfd_register K poll (ts_sys s) tok interest opts job of
             (r, poll) \<Rightarrow> (r, s\<lparr>ts_selector_id := i\<rparr>, poll)))"

definition tcp_reregister ::
    "'k epoll_ops \<Rightarrow> ('j, 'k, 'p) poll \<Rightarrow> tcp_stream \<Rightarrow> token_entry \<Rightarrow> ready \<Rightarrow> poll_opt \<Rightarrow> unit io_result \<times> ('j, 'k, 'p) poll" where
  "tcp_reregister K poll s tok interest opts = eventedfd_reregister K poll (ts_sys s) tok interest opts"

definition tcp_deregister ::
    "'k epoll_ops \<Rightarrow> bool \<Rightarrow> ('j, 'k, 'p) poll \<Rightarrow> tcp_stream \<Rightarrow> (unit io_result \<times> ('j, 'k, 'p) poll) option" where
  "tcp_deregister K dbg poll s = eventedfd_deregister K dbg poll (ts_sys s)"

text \<open>The handle of a stream in the model of \<open>Poll\<close>, whose operations are these.\<close>

definition stream_handle :: "tcp_stream \<Rightarrow> evented" where
  "stream_handle s = EvSocket (ts_sys s) (ts_selector_id s)"

lemma poll_register_stream:
  "poll_register K P poll (stream_handle s) tok interest opts job =
     (case tcp_register K poll s tok interest opts job of (r, s, poll) \<Rightarrow> Some (r, stream_handle s, poll))"
  by (simp add: poll_register_def tcp_register_def stream_handle_def eventedfd_register_def split: prod.splits sum.splits)

lemma poll_reregister_stream:
  "poll_reregister K P poll (stream_handle s) tok interest opts = Some (tcp_reregister K poll s tok interest opts)"
  by (simp add: poll_reregister_def tcp_reregister_def stream_handle_def eventedfd_reregister_def handle_fd_def split: prod.splits)

lemma poll_deregister_stream:
  "poll_deregister K P dbg poll (stream_handle s) = tcp_deregister K dbg poll s"
  by (simp add: poll_deregister_def tcp_deregister_def stream_handle_def eventedfd_deregister_def handle_fd_def)

subsection \<open>What the kernel documents\<close>

text \<open>The descriptor of the result is one more than before and does not block, or there is none more than before.\<close>

definition opened :: "('k \<Rightarrow> i32 \<rightharpoonup> bool \<times> bool) \<Rightarrow> 'k \<Rightarrow> i32 io_result \<times> 'k \<Rightarrow> bool" where
  "opened fds k p \<longleftrightarrow> (case fst p of
       Inr fd \<Rightarrow> fds k fd = None \<and> fds (snd p) = (fds k)(fd \<mapsto> (True, True))
     | Inl _ \<Rightarrow> fds (snd p) = fds k)"

text \<open>Making and accepting a socket opens a descriptor, the other calls leave the open descriptors alone. A
  builder gives away its own descriptor.\<close>

locale socket_table = descriptor_table Y fds for Y :: "'k libc" and fds :: "'k \<Rightarrow> i32 \<rightharpoonup> bool \<times> bool" +
  fixes N :: "'k std_net"
  assumes new_v4: "sn_new_v4 N k = (r, k') \<Longrightarrow>
      (case r of Inr fd \<Rightarrow> fds k fd = None \<and> fds k' = (fds k)(fd \<mapsto> (False, True)) | Inl _ \<Rightarrow> fds k' = fds k)"
    and new_v6: "sn_new_v6 N k = (r, k') \<Longrightarrow>
      (case r of Inr fd \<Rightarrow> fds k fd = None \<and> fds k' = (fds k)(fd \<mapsto> (False, True)) | Inl _ \<Rightarrow> fds k' = fds k)"
    and accept: "sn_accept N k l = (ra, k') \<Longrightarrow>
      (case ra of Inr (fd, _) \<Rightarrow> fds k fd = None \<and> fds k' = (fds k)(fd \<mapsto> (False, True)) | Inl _ \<Rightarrow> fds k' = fds k)"
    and to_stream: "sn_to_stream N k fd = (r, k') \<Longrightarrow> fds k' = fds k \<and> (\<forall>fd'. r = Inr fd' \<longrightarrow> fd' = fd)"
    and listen: "sn_listen N k fd n = (r, k') \<Longrightarrow> fds k' = fds k \<and> (\<forall>fd'. r = Inr fd' \<longrightarrow> fd' = fd)"
    and connect: "sn_connect N k fd a = (rc, k') \<Longrightarrow> fds k' = fds k"
    and reuse_address: "sn_reuse_address N k fd b = (ru, k') \<Longrightarrow> fds k' = fds k"
    and reuse_port: "sn_reuse_port N k fd b = (ru, k') \<Longrightarrow> fds k' = fds k"
    and bind: "sn_bind N k fd a = (ru, k') \<Longrightarrow> fds k' = fds k"
begin

text \<open>A descriptor taken over: it was not open in \<open>k\<close> and is all that has been opened since. Closing it
  leaves the descriptors of \<open>k\<close>.\<close>

lemma owned_close: "fds k fd = None \<Longrightarrow> fds k1 = (fds k)(fd \<mapsto> x) \<Longrightarrow> fds (lc_close Y k1 fd) = fds k"
  by (auto simp: close)

lemma owned_nonblock:
  assumes "fds k fd = None" "fds k1 = (fds k)(fd \<mapsto> (b, True))" "set_nonblock Y k1 fd = (r, k2)"
  shows "case r of Inr _ \<Rightarrow> fds k2 = (fds k)(fd \<mapsto> (True, True)) | Inl _ \<Rightarrow> fds (lc_close Y k2 fd) = fds k"
  using nonblock_spec[OF assms(3)] assms(1,2) by (auto simp: close split: sum.splits)

lemma sys_connect_opened:
  assumes "fds k fd = None" "fds k1 = (fds k)(fd \<mapsto> (b, True))"
  shows "case sys_connect Y N k1 fd addr of (Inr v, k2) \<Rightarrow> v = fd \<and> fds k2 = (fds k)(fd \<mapsto> (True, True)) | (Inl _, k2) \<Rightarrow> fds k2 = fds k"
proof -
  obtain r k2 where n: "set_nonblock Y k1 fd = (r, k2)" by (cases "set_nonblock Y k1 fd")
  obtain rc k3 where c: "sn_connect N k2 fd addr = (rc, k3)" by (cases "sn_connect N k2 fd addr")
  show ?thesis
    using owned_nonblock[OF assms n] connect[OF c] assms(1) n c
    by (auto simp: sys_connect_def close split: sum.splits)
qed

lemma from_stream_opened:
  assumes "fds k fd = None" "fds k1 = (fds k)(fd \<mapsto> (b, True))"
  shows "opened fds k (map_inr ts_sys (tcp_from_stream Y k1 fd))"
proof -
  obtain r k2 where n: "set_nonblock Y k1 fd = (r, k2)" by (cases "set_nonblock Y k1 fd")
  show ?thesis
    using owned_nonblock[OF assms n] assms(1) n by (auto simp: tcp_from_stream_def map_inr_def opened_def split: sum.splits)
qed

lemma listener_opened:
  assumes "fds k fd = None" "fds k1 = (fds k)(fd \<mapsto> (b, True))"
  shows "opened fds k (sys_listener_new Y k1 fd)"
proof -
  obtain r k2 where n: "set_nonblock Y k1 fd = (r, k2)" by (cases "set_nonblock Y k1 fd")
  show ?thesis
    using owned_nonblock[OF assms n] assms(1) n by (auto simp: sys_listener_new_def opened_def split: sum.splits)
qed

lemma new_socket:
  assumes "(case addr of V4 _ _ \<Rightarrow> sn_new_v4 N k | V6 _ _ _ _ \<Rightarrow> sn_new_v6 N k) = (r, k')"
  shows "case r of Inr fd \<Rightarrow> fds k fd = None \<and> fds k' = (fds k)(fd \<mapsto> (False, True)) | Inl _ \<Rightarrow> fds k' = fds k"
  using assms by (cases addr) (auto dest!: new_v4 new_v6)

lemma connect_opened: "opened fds k (map_inr ts_sys (tcp_connect Y N k addr))"
proof -
  obtain r k1 where s: "(case addr of V4 _ _ \<Rightarrow> sn_new_v4 N k | V6 _ _ _ _ \<Rightarrow> sn_new_v6 N k) = (r, k1)" by fastforce
  note new = new_socket[OF s]
  show ?thesis
  proof (cases r)
    case (Inl e)
    then show ?thesis using s new by (simp add: tcp_connect_def opened_def map_inr_def)
  next
    case (Inr fd)
    then have o: "fds k fd = None" "fds k1 = (fds k)(fd \<mapsto> (False, True))" using new by simp_all
    obtain r2 k2 where t: "sn_to_stream N k1 fd = (r2, k2)" by (cases "sn_to_stream N k1 fd")
    have k2: "fds k2 = (fds k)(fd \<mapsto> (False, True))" "\<And>fd'. r2 = Inr fd' \<Longrightarrow> fd' = fd" using to_stream[OF t] o by simp_all
    obtain r3 k3 where n: "set_nonblock Y k2 fd = (r3, k3)" by (cases "set_nonblock Y k2 fd")
    note nb = owned_nonblock[OF o(1) k2(1) n]
    show ?thesis
    proof (cases "(\<exists>e. r2 = Inl e) \<or> (\<exists>e. r3 = Inl e)")
      case True
      then show ?thesis using s Inr t n nb k2 owned_close[OF o(1) k2(1)]
        by (cases r2) (auto simp: tcp_connect_def tcp_connect_stream_def opened_def map_inr_def split: sum.splits)
    next
      case False
      then obtain u where r: "r2 = Inr fd" "r3 = Inr u" using k2(2) by (metis sum.exhaust)
      then have "fds k3 = (fds k)(fd \<mapsto> (True, True))" using nb by simp
      from sys_connect_opened[OF o(1) this, of addr] show ?thesis
        using s Inr t n r o(1) by (auto simp: tcp_connect_def tcp_connect_stream_def opened_def map_inr_def split: sum.splits prod.splits)
    qed
  qed
qed

lemma or_drop_opened:
  assumes "fds k fd = None" "fds k1 = (fds k)(fd \<mapsto> x)" "fds (snd p) = fds k1"
    and "\<And>v k2. p = (Inr v, k2) \<Longrightarrow> fds k2 = (fds k)(fd \<mapsto> x) \<Longrightarrow> opened fds k (map_inr h (f v k2))"
  shows "opened fds k (map_inr h (or_drop Y fd p f))"
proof (cases p)
  case (Pair r k2)
  then show ?thesis
    using assms owned_close[OF assms(1), of k2 x] by (cases r) (auto simp: or_drop_def opened_def map_inr_def)
qed

lemma bind_opened: "opened fds k (map_inr tl_sys (tcp_bind Y N k addr))"
proof -
  obtain r k1 where s: "(case addr of V4 _ _ \<Rightarrow> sn_new_v4 N k | V6 _ _ _ _ \<Rightarrow> sn_new_v6 N k) = (r, k1)" by fastforce
  note new = new_socket[OF s]
  show ?thesis
  proof (cases r)
    case (Inl e)
    then show ?thesis using s new by (simp add: tcp_bind_def opened_def map_inr_def)
  next
    case (Inr fd)
    then have o: "fds k fd = None" "fds k1 = (fds k)(fd \<mapsto> (False, True))" using new by simp_all
    have f: "fds (snd (sn_reuse_address N k fd True)) = fds k" "fds (snd (sn_reuse_port N k fd True)) = fds k"
        "fds (snd (sn_bind N k fd addr)) = fds k" "fds (snd (sn_listen N k fd 1024)) = fds k"
      for k by (metis prod.collapse reuse_address, metis prod.collapse reuse_port, metis prod.collapse bind, metis prod.collapse listen)
    have "opened fds k (map_inr tl_sys (
          or_drop Y fd (sn_reuse_address N k1 fd True) (\<lambda>_ k.
          or_drop Y fd (sn_reuse_port N k fd True) (\<lambda>_ k.
          or_drop Y fd (sn_bind N k fd addr) (\<lambda>_ k.
          or_drop Y fd (sn_listen N k fd 1024) (\<lambda>listener k.
            map_inr (\<lambda>s. \<lparr>tl_sys = s, tl_selector_id = 0\<rparr>) (sys_listener_new Y k listener)))))))"
    proof (rule or_drop_opened[OF o f(1)], rule or_drop_opened[OF o(1) _ f(2)], assumption,
        rule or_drop_opened[OF o(1) _ f(3)], assumption, rule or_drop_opened[OF o(1) _ f(4)], assumption)
      fix ka kb v kc assume l: "sn_listen N ka fd 1024 = (Inr v, kc)" and kc: "fds kc = (fds k)(fd \<mapsto> (False, True))"
      then have "v = fd" using listen[OF l] by simp
      then show "opened fds k (map_inr tl_sys (map_inr (\<lambda>s. \<lparr>tl_sys = s, tl_selector_id = 0\<rparr>) (sys_listener_new Y kc v)))"
        using listener_opened[OF o(1) kc] by (auto simp: opened_def map_inr_def split: sum.splits prod.splits)
    qed
    then show ?thesis using s Inr by (simp add: tcp_bind_def)
  qed
qed

lemma accept_opened: "opened fds k (map_inr (\<lambda>(s, _). ts_sys s) (tcp_accept Y N k l))"
proof -
  obtain r k1 where a: "sn_accept N k (tl_sys l) = (r, k1)" by (cases "sn_accept N k (tl_sys l)")
  show ?thesis
  proof (cases r)
    case (Inl e)
    then show ?thesis using a accept[OF a] by (simp add: tcp_accept_def tcp_accept_std_def sys_accept_def opened_def map_inr_def)
  next
    case (Inr sa)
    obtain fd ad where sa: "sa = (fd, ad)" by (cases sa)
    then have o: "fds k fd = None" "fds k1 = (fds k)(fd \<mapsto> (False, True))" using accept[OF a] Inr by simp_all
    from from_stream_opened[OF o] show ?thesis using a Inr sa
      by (auto simp: tcp_accept_def tcp_accept_std_def sys_accept_def opened_def map_inr_def split: sum.splits prod.splits)
  qed
qed

end

subsection \<open>Properties\<close>

text \<open>C16. Sockets are neither leaked nor left blocking: connecting, binding and accepting each end with one new
  descriptor, non-blocking and closed on exec, or with an error and the descriptors that were open
  before, whichever call fails.\<close>

theorem sockets_no_leak:
  assumes "socket_table Y fds N"
  shows "opened fds k (map_inr ts_sys (tcp_connect Y N k addr)) \<and> opened fds k (map_inr tl_sys (tcp_bind Y N k addr)) \<and>
    opened fds k (map_inr (\<lambda>(s, _). ts_sys s) (tcp_accept Y N k l))"
  using socket_table.connect_opened[OF assms] socket_table.bind_opened[OF assms] socket_table.accept_opened[OF assms] by blast

text \<open>A socket belongs to one poller: once it is registered, neither it nor a clone of it can be registered
  with a poller of another selector, which is left as it was.\<close>

theorem socket_one_poller:
  assumes "tcp_register K p s tok interest opts job = (r, s', p')" and "ts_selector_id s = 0"
    and "sel_id (po_selector p) \<noteq> 0" and "sel_id (po_selector p2) \<noteq> sel_id (po_selector p)"
    and "tcp_try_clone N k s' = (Inr c, k')"
  shows "tcp_register K2 p2 s' tok2 interest2 opts2 job2 = (Inl socket_registered, s', p2) \<and>
    tcp_register K2 p2 c tok2 interest2 opts2 job2 = (Inl socket_registered, c, p2)"
proof -
  have "ts_selector_id s' = sel_id (po_selector p)"
    using assms(1,2) by (auto simp: tcp_register_def associate_selector_def split: prod.splits sum.splits)
  moreover from this have "ts_selector_id c = sel_id (po_selector p)"
    using assms(5) by (cases "sys_try_clone N k (ts_sys s')") (auto simp: tcp_try_clone_def map_inr_def split: sum.splits)
  ultimately show ?thesis using assms(3,4) by (simp add: tcp_register_def associate_selector_def)
qed

lemma millis_of_secs:
  fixes v :: u32
  shows "ucast (millis \<lparr>as_secs = ucast v div 1000, subsec_nanos = 0\<rparr>) = v - v mod 1000"
proof -
  let ?d = "\<lparr>as_secs = ucast v div 1000 :: u64, subsec_nanos = 0\<rparr>"
  have v: "unat (ucast v :: u64) = unat v" by (rule unat_ucast_u32)
  have lt: "unat v < 2 ^ 32" using unsigned_less[of v] by simp
  have n: "duration_nanos ?d = unat v div 1000 * 1000000000" by (simp add: duration_nanos_def unat_div v)
  have "(unat v div 1000 * 1000000000 + 999999) div 1000000 = unat v div 1000 * 1000" by simp
  moreover have "unat v div 1000 * 1000 \<le> unat v" by simp
  ultimately have m: "unat (millis ?d) = unat v div 1000 * 1000"
    using millis_nat[of ?d] n lt by (simp add: duration_ok_def)
  have le: "v mod 1000 \<le> v" by (simp add: word_le_nat_alt unat_mod)
  have "unat (ucast (millis ?d) :: u32) = unat v div 1000 * 1000"
    using m lt by (simp add: unsigned_ucast_eq take_bit_nat_eq_self)
  also have "\<dots> = unat (v - v mod 1000)"
  proof -
    have "unat (v - v mod 1000) = unat v - unat v mod 1000" using unat_sub[OF le] by (simp add: unat_mod)
    then show ?thesis by (simp only: minus_mod_eq_div_mult)
  qed
  finally show ?thesis by (simp add: word_unat_eq_iff)
qed

text \<open>The keep-alive interval makes the round trip up to whole seconds, which is what the system keeps: what
  \<open>keepalive_ms\<close> gives after \<open>set_keepalive_ms\<close> is the interval rounded down, for every 32-bit number
  of milliseconds.\<close>

theorem keepalive_roundtrip:
  assumes "tcp_set_keepalive_ms N k s (Some v) = (Inr (), k')"
    and "\<And>d k k'. sn_set_keepalive N k (ts_sys s) (Some d) = (Inr (), k') \<Longrightarrow>
      sn_keepalive N k' (ts_sys s) = (Inr (Some \<lparr>as_secs = as_secs d, subsec_nanos = 0\<rparr>), k')"
  shows "tcp_keepalive_ms N k' s = (Inr (Some (v - v mod 1000)), k')"
  using assms millis_of_secs[of v]
  by (auto simp: tcp_set_keepalive_ms_def tcp_set_keepalive_def sys_set_keepalive_def tcp_keepalive_ms_def
      tcp_keepalive_def sys_keepalive_def map_inr_def from_millis_def)

subsection \<open>Concrete inputs\<close>

text \<open>The table of descriptors with sockets; nobody connects, and the keep-alive interval is not kept.\<close>

definition table_socket :: "(i32 \<rightharpoonup> bool \<times> bool) \<times> bool list \<Rightarrow> i32 io_result \<times> ((i32 \<rightharpoonup> bool \<times> bool) \<times> bool list)" where
  "table_socket k = (case free_fds (fst k) of
      fd # _ \<Rightarrow> (Inr fd, ((fst k)(fd \<mapsto> (False, True)), snd k))
    | [] \<Rightarrow> (Inl (OtherError ''no descriptors''), k))"

definition quiet_net :: "('k \<Rightarrow> i32 io_result \<times> 'k) \<Rightarrow> 'k std_net" where
  "quiet_net sock = \<lparr>
     sn_new_v4 = sock, sn_new_v6 = sock, sn_to_stream = \<lambda>k fd. (Inr fd, k),
     sn_connect = \<lambda>k fd a. (Inl (Some EINPROGRESS, OtherError ''in progress''), k),
     sn_reuse_address = \<lambda>k fd b. (Inr (), k), sn_reuse_port = \<lambda>k fd b. (Inr (), k),
     sn_bind = \<lambda>k fd a. (Inr (), k), sn_listen = \<lambda>k fd n. (Inr fd, k),
     sn_accept = \<lambda>k l. map_inr (\<lambda>fd. (fd, V4 0 0)) (sock k), sn_try_clone = \<lambda>k fd. sock k,
     sn_peer_addr = \<lambda>k fd. (Inr (V4 0 0), k), sn_local_addr = \<lambda>k fd. (Inr (V4 0 0), k),
     sn_shutdown = \<lambda>k fd how. (Inr (), k),
     sn_set_nodelay = \<lambda>k fd v. (Inr (), k), sn_nodelay = \<lambda>k fd. (Inr False, k),
     sn_set_recv_buffer_size = \<lambda>k fd v. (Inr (), k), sn_recv_buffer_size = \<lambda>k fd. (Inr 0, k),
     sn_set_send_buffer_size = \<lambda>k fd v. (Inr (), k), sn_send_buffer_size = \<lambda>k fd. (Inr 0, k),
     sn_set_keepalive = \<lambda>k fd v. (Inr (), k), sn_keepalive = \<lambda>k fd. (Inr None, k),
     sn_set_ttl = \<lambda>k fd v. (Inr (), k), sn_ttl = \<lambda>k fd. (Inr 0, k),
     sn_take_error = \<lambda>k fd. (Inr None, k), sn_peek = \<lambda>k fd n. (Inl WouldBlock, k),
     sn_read = \<lambda>k fd n. (Inl WouldBlock, k), sn_write = \<lambda>k fd bs. (Inl WouldBlock, k), sn_flush = \<lambda>k fd. (Inr (), k),
     sn_readv = \<lambda>k fd ns. (- 1, [], k), sn_writev = \<lambda>k fd bs. (- 1, k)\<rparr>"

lemma table_socket_spec:
  assumes "table_socket k = (r, k')"
  shows "case r of Inr fd \<Rightarrow> fst k fd = None \<and> fst k' = (fst k)(fd \<mapsto> (False, True)) | Inl _ \<Rightarrow> fst k' = fst k"
proof (cases "free_fds (fst k)")
  case (Cons fd xs)
  have "i \<in> set (free_fds (fst k)) \<Longrightarrow> fst k i = None" for i unfolding free_fds_def set_filter by blast
  then have "fst k fd = None" unfolding Cons by simp
  then show ?thesis using assms Cons by (auto simp: table_socket_def)
qed (use assms in \<open>auto simp: table_socket_def\<close>)

interpretation sockets: socket_table table_libc fst "quiet_net table_socket"
  by unfold_locales (auto simp: quiet_net_def map_inr_def dest: table_socket_spec split: prod.splits sum.splits dest!: table_socket_spec)

text \<open>The second change of the flags fails: the socket is closed.\<close>

theorem sockets_no_leak_witness:
  "fst (snd (tcp_connect table_libc (quiet_net table_socket) (Map.empty, [False, False, False, True]) (V4 1 80))) = Map.empty"
proof -
  let ?k = "(Map.empty, [False, False, False, True]) :: (i32 \<rightharpoonup> bool \<times> bool) \<times> bool list"
  let ?N = "quiet_net table_socket"
  have "fst (tcp_connect table_libc ?N ?k (V4 1 80)) = Inl (OtherError ''errno'')"
    by (simp add: tcp_connect_def tcp_connect_stream_def sys_connect_def set_nonblock_def cvt_def is_minus_one_def
        table_libc_def quiet_net_def table_socket_def free_fds_def map_inr_def)
  moreover have "opened fst ?k (map_inr ts_sys (tcp_connect table_libc ?N ?k (V4 1 80)))"
    using sockets_no_leak[OF sockets.socket_table_axioms, of ?k "V4 1 80" "\<lparr>tl_sys = 0, tl_selector_id = 0\<rparr>"] by blast
  ultimately show ?thesis by (auto simp: opened_def map_inr_def split: prod.splits sum.splits)
qed

definition example_poll :: "usize \<Rightarrow> (string, nat, nat) poll" where
  "example_poll i = \<lparr>po_selector = \<lparr>sel_id = i, sel_kernel = 0, sel_events_map = Map.empty\<rparr>, po_queue = example_queue None 0\<rparr>"

definition null_ctl :: "nat epoll_ops" where
  "null_ctl = \<lparr>k_ctl = \<lambda>k _ _ _. (Inr (), Suc k), k_wait = \<lambda>k _ _. (Inr [], k)\<rparr>"

theorem socket_one_poller_witness:
  "tcp_register null_ctl (example_poll 2) \<lparr>ts_sys = 6, ts_selector_id = 1\<rparr> null_token ready_readable opt_edge Noop =
     (Inl socket_registered, \<lparr>ts_sys = 6, ts_selector_id = 1\<rparr>, example_poll 2)"
proof -
  let ?s = "\<lparr>ts_sys = 5, ts_selector_id = 0\<rparr>" and ?s' = "\<lparr>ts_sys = 5, ts_selector_id = 1\<rparr>"
  obtain r s' p' where p: "tcp_register null_ctl (example_poll 1) ?s null_token ready_readable opt_edge Noop = (r, s', p')"
    by (metis prod_cases3)
  have "fst (snd (tcp_register null_ctl (example_poll 1) ?s null_token ready_readable opt_edge Noop)) = ?s'"
    by (simp add: tcp_register_def associate_selector_def eventedfd_register_def example_poll_def split: prod.split)
  then have s': "s' = ?s'" using p by simp
  have "tcp_try_clone (quiet_net (\<lambda>k. (Inr 6, k))) () ?s' = (Inr \<lparr>ts_sys = 6, ts_selector_id = 1\<rparr>, ())"
    by (simp add: tcp_try_clone_def sys_try_clone_def quiet_net_def map_inr_def)
  from socket_one_poller[OF p[unfolded s'] _ _ _ this, of "example_poll 2"] show ?thesis by (simp add: example_poll_def)
qed

definition second_net :: "duration option std_net" where
  "second_net = (quiet_net (\<lambda>k. (Inl WouldBlock, k)))\<lparr>
     sn_set_keepalive := \<lambda>k fd v. (Inr (), map_option (\<lambda>d. \<lparr>as_secs = as_secs d, subsec_nanos = 0\<rparr>) v),
     sn_keepalive := \<lambda>k fd. (Inr k, k)\<rparr>"

theorem keepalive_roundtrip_witness:
  "tcp_keepalive_ms second_net (Some \<lparr>as_secs = 7, subsec_nanos = 0\<rparr>) \<lparr>ts_sys = 5, ts_selector_id = 0\<rparr> =
     (Inr (Some 7000), Some \<lparr>as_secs = 7, subsec_nanos = 0\<rparr>)"
proof -
  let ?s = "\<lparr>ts_sys = 5, ts_selector_id = 0\<rparr>" and ?k = "Some \<lparr>as_secs = 7, subsec_nanos = 0\<rparr>"
  have "tcp_set_keepalive_ms second_net None ?s (Some 7654) = (Inr (), ?k)"
    by (simp add: tcp_set_keepalive_ms_def tcp_set_keepalive_def sys_set_keepalive_def second_net_def quiet_net_def from_millis_def)
  then have "tcp_keepalive_ms second_net ?k ?s = (Inr (Some (7654 - 7654 mod 1000)), ?k)"
    by (rule keepalive_roundtrip) (auto simp: second_net_def quiet_net_def)
  then show ?thesis by simp
qed

end
