(* ===== verification/Facade.thy ===== *)
theory Facade
  imports Tcp Awakener Poll
begin

unbundle bit_operations_syntax

section \<open>Handles and entry points\<close>

text \<open>
  The types through which the rest of the library reaches descriptors and the poller: \<open>Io\<close> of
  \<open>src/sys/unix/io.rs\<close>, the ends and the registration of \<open>Awakener\<close> (\<open>src/sys/unix/awakener.rs\<close>), the \<open>Evented\<close>
  implementations of streams and listeners and their conversions from and to raw descriptors
  (\<open>src/sys/unix/tcp.rs\<close>, \<open>src/net/tcp.rs\<close>), \<open>Evented\<close> for boxes and reference counts (\<open>src/event_imp.rs\<close>), and
  \<open>SelectorId\<close>, \<open>Poll::poll\<close>, \<open>Events\<close> and \<open>SetReadiness\<close> of \<open>src/poll.rs\<close>. Files are a parameter, as sockets are.
\<close>

subsection \<open>Io\<close>

record 'k file_ops =
  sf_try_clone :: "('k, i32) getter"
  sf_read :: "'k \<Rightarrow> i32 \<Rightarrow> nat \<Rightarrow> u8 list io_result \<times> 'k"
  sf_write :: "'k \<Rightarrow> i32 \<Rightarrow> u8 list \<Rightarrow> nat io_result \<times> 'k"
  sf_flush :: "('k, unit) getter"

record io =
  io_fd :: i32

definition io_try_clone :: "'k file_ops \<Rightarrow> 'k \<Rightarrow> io \<Rightarrow> io io_result \<times> 'k" where
  "io_try_clone F k io = map_inr (\<lambda>fd. \<lparr>io_fd = fd\<rparr>) (sf_try_clone F k (io_fd io))"

definition io_from_raw_fd :: "i32 \<Rightarrow> io" where
  "io_from_raw_fd fd = \<lparr>io_fd = fd\<rparr>"

definition io_into_raw_fd :: "io \<Rightarrow> i32" where
  "io_into_raw_fd io = io_fd io"

definition io_as_raw_fd :: "io \<Rightarrow> i32" where
  "io_as_raw_fd io = io_fd io"

definition io_read :: "'k file_ops \<Rightarrow> 'k \<Rightarrow> io \<Rightarrow> nat \<Rightarrow> u8 list io_result \<times> 'k" where
  "io_read F k io n = sf_read F k (io_fd io) n"

definition io_write :: "'k file_ops \<Rightarrow> 'k \<Rightarrow> io \<Rightarrow> u8 list \<Rightarrow> nat io_result \<times> 'k" where
  "io_write F k io bs = sf_write F k (io_fd io) bs"

definition io_flush :: "'k file_ops \<Rightarrow> 'k \<Rightarrow> io \<Rightarrow> unit io_result \<times> 'k" where
  "io_flush F k io = sf_flush F k (io_fd io)"

definition io_register ::
    "'k epoll_ops \<Rightarrow> ('j, 'k, 'p) poll \<Rightarrow> io \<Rightarrow> token_entry \<Rightarrow> ready \<Rightarrow> poll_opt \<Rightarrow> 'j job \<Rightarrow> unit io_result \<times> ('j, 'k, 'p) poll" where
  "io_register K poll io tok interest opts job = eventedfd_register K poll (io_as_raw_fd io) tok interest opts job"

definition io_reregister ::
    "'k epoll_ops \<Rightarrow> ('j, 'k, 'p) poll \<Rightarrow> io \<Rightarrow> token_entry \<Rightarrow> ready \<Rightarrow> poll_opt \<Rightarrow> unit io_result \<times> ('j, 'k, 'p) poll" where
  "io_reregister K poll io tok interest opts = eventedfd_reregister K poll (io_as_raw_fd io) tok interest opts"

definition io_deregister ::
    "'k epoll_ops \<Rightarrow> bool \<Rightarrow> ('j, 'k, 'p) poll \<Rightarrow> io \<Rightarrow> (unit io_result \<times> ('j, 'k, 'p) poll) option" where
  "io_deregister K dbg poll io = eventedfd_deregister K dbg poll (io_as_raw_fd io)"

subsection \<open>The awakener\<close>

record awakener =
  aw_reader :: io
  aw_writer :: io

definition awakener_new :: "'k libc \<Rightarrow> bool \<Rightarrow> 'k \<Rightarrow> awakener io_result \<times> 'k" where
  "awakener_new Y has_pipe2 k =
     map_inr (\<lambda>(rd, wr). \<lparr>aw_reader = io_from_raw_fd rd, aw_writer = io_from_raw_fd wr\<rparr>) (sys_pipe Y has_pipe2 k)"

text \<open>The pipe that \<open>wakeup\<close> and \<open>cleanup\<close> work on is made of the two ends.\<close>

definition awakener_pipe :: "'k file_ops \<Rightarrow> awakener \<Rightarrow> 'k pipe_ops" where
  "awakener_pipe F aw = \<lparr>pipe_write = \<lambda>k bs. io_write F k (aw_writer aw) bs, pipe_read = \<lambda>k n. io_read F k (aw_reader aw) n\<rparr>"

definition awakener_register ::
    "'k epoll_ops \<Rightarrow> ('j, 'k, 'p) poll \<Rightarrow> awakener \<Rightarrow> token_entry \<Rightarrow> ready \<Rightarrow> poll_opt \<Rightarrow> 'j job \<Rightarrow> unit io_result \<times> ('j, 'k, 'p) poll" where
  "awakener_register K poll aw tok interest opts job = io_register K poll (aw_reader aw) tok interest opts job"

definition awakener_reregister ::
    "'k epoll_ops \<Rightarrow> ('j, 'k, 'p) poll \<Rightarrow> awakener \<Rightarrow> token_entry \<Rightarrow> ready \<Rightarrow> poll_opt \<Rightarrow> unit io_result \<times> ('j, 'k, 'p) poll" where
  "awakener_reregister K poll aw tok interest opts = io_reregister K poll (aw_reader aw) tok interest opts"

definition awakener_deregister ::
    "'k epoll_ops \<Rightarrow> bool \<Rightarrow> ('j, 'k, 'p) poll \<Rightarrow> awakener \<Rightarrow> (unit io_result \<times> ('j, 'k, 'p) poll) option" where
  "awakener_deregister K dbg poll aw = io_deregister K dbg poll (aw_reader aw)"

subsection \<open>Streams and listeners of the system layer\<close>

definition sys_stream_from_raw_fd :: "i32 \<Rightarrow> i32" where
  "sys_stream_from_raw_fd fd = fd"

definition sys_stream_into_raw_fd :: "i32 \<Rightarrow> i32" where
  "sys_stream_into_raw_fd inner = inner"

definition sys_stream_as_raw_fd :: "i32 \<Rightarrow> i32" where
  "sys_stream_as_raw_fd inner = inner"

definition sys_stream_register ::
    "'k epoll_ops \<Rightarrow> ('j, 'k, 'p) poll \<Rightarrow> i32 \<Rightarrow> token_entry \<Rightarrow> ready \<Rightarrow> poll_opt \<Rightarrow> 'j job \<Rightarrow> unit io_result \<times> ('j, 'k, 'p) poll" where
  "sys_stream_register K poll inner tok interest opts job =
     eventedfd_register K poll (sys_stream_as_raw_fd inner) tok interest opts job"

definition sys_stream_reregister ::
    "'k epoll_ops \<Rightarrow> ('j, 'k, 'p) poll \<Rightarrow> i32 \<Rightarrow> token_entry \<Rightarrow> ready \<Rightarrow> poll_opt \<Rightarrow> unit io_result \<times> ('j, 'k, 'p) poll" where
  "sys_stream_reregister K poll inner tok interest opts =
     eventedfd_reregister K poll (sys_stream_as_raw_fd inner) tok interest opts"

definition sys_stream_deregister ::
    "'k epoll_ops \<Rightarrow> bool \<Rightarrow> ('j, 'k, 'p) poll \<Rightarrow> i32 \<Rightarrow> (unit io_result \<times> ('j, 'k, 'p) poll) option" where
  "sys_stream_deregister K dbg poll inner = eventedfd_deregister K dbg poll (sys_stream_as_raw_fd inner)"

definition sys_listener_local_addr :: "'k std_net \<Rightarrow> ('k, socket_addr) getter" where
  "sys_listener_local_addr N k fd = sn_local_addr N k fd"

definition sys_listener_try_clone :: "'k std_net \<Rightarrow> ('k, i32) getter" where
  "sys_listener_try_clone N k fd = map_inr (\<lambda>s. s) (sn_try_clone N k fd)"

definition sys_listener_set_ttl :: "'k std_net \<Rightarrow> ('k, u32) setter" where
  "sys_listener_set_ttl N k fd v = sn_set_ttl N k fd v"

definition sys_listener_ttl :: "'k std_net \<Rightarrow> ('k, u32) getter" where
  "sys_listener_ttl N k fd = sn_ttl N k fd"

definition sys_listener_take_error :: "'k std_net \<Rightarrow> ('k, io_error option) getter" where
  "sys_listener_take_error N k fd = sn_take_error N k fd"

definition sys_listener_from_raw_fd :: "i32 \<Rightarrow> i32" where
  "sys_listener_from_raw_fd fd = fd"

definition sys_listener_into_raw_fd :: "i32 \<Rightarrow> i32" where
  "sys_listener_into_raw_fd inner = inner"

definition sys_listener_as_raw_fd :: "i32 \<Rightarrow> i32" where
  "sys_listener_as_raw_fd inner = inner"

definition sys_listener_register ::
    "'k epoll_ops \<Rightarrow> ('j, 'k, 'p) poll \<Rightarrow> i32 \<Rightarrow> token_entry \<Rightarrow> ready \<Rightarrow> poll_opt \<Rightarrow> 'j job \<Rightarrow> unit io_result \<times> ('j, 'k, 'p) poll" where
  "sys_listener_register K poll inner tok interest opts job =
     eventedfd_register K poll (sys_listener_as_raw_fd inner) tok interest opts job"

definition sys_listener_reregister ::
    "'k epoll_ops \<Rightarrow> ('j, 'k, 'p) poll \<Rightarrow> i32 \<Rightarrow> token_entry \<Rightarrow> ready \<Rightarrow> poll_opt \<Rightarrow> unit io_result \<times> ('j, 'k, 'p) poll" where
  "sys_listener_reregister K poll inner tok interest opts =
     eventedfd_reregister K poll (sys_listener_as_raw_fd inner) tok interest opts"

definition sys_listener_deregister ::
    "'k epoll_ops \<Rightarrow> bool \<Rightarrow> ('j, 'k, 'p) poll \<Rightarrow> i32 \<Rightarrow> (unit io_result \<times> ('j, 'k, 'p) poll) option" where
  "sys_listener_deregister K dbg poll inner = eventedfd_deregister K dbg poll (sys_listener_as_raw_fd inner)"

subsection \<open>SelectorId\<close>

definition selector_id_new :: usize where
  "selector_id_new = 0"

definition selector_id_clone :: "usize \<Rightarrow> usize" where
  "selector_id_clone selector_id = selector_id"

subsection \<open>Streams and listeners\<close>

text \<open>A stream made of a raw descriptor is associated with no selector, whatever the descriptor was before.\<close>

definition tcp_into_raw_fd :: "tcp_stream \<Rightarrow> i32" where
  "tcp_into_raw_fd s = sys_stream_into_raw_fd (ts_sys s)"

definition tcp_as_raw_fd :: "tcp_stream \<Rightarrow> i32" where
  "tcp_as_raw_fd s = sys_stream_as_raw_fd (ts_sys s)"

definition tcp_from_raw_fd :: "i32 \<Rightarrow> tcp_stream" where
  "tcp_from_raw_fd fd = \<lparr>ts_sys = sys_stream_from_raw_fd fd, ts_selector_id = selector_id_new\<rparr>"

definition listener_from_listener :: "'k libc \<Rightarrow> 'k \<Rightarrow> i32 \<Rightarrow> socket_addr \<Rightarrow> tcp_listener io_result \<times> 'k" where
  "listener_from_listener Y k listener addr = tcp_listener_from_std Y k listener"

definition listener_local_addr :: "'k std_net \<Rightarrow> 'k \<Rightarrow> tcp_listener \<Rightarrow> socket_addr io_result \<times> 'k" where
  "listener_local_addr N k l = sys_listener_local_addr N k (tl_sys l)"

definition listener_set_ttl :: "'k std_net \<Rightarrow> 'k \<Rightarrow> tcp_listener \<Rightarrow> u32 \<Rightarrow> unit io_result \<times> 'k" where
  "listener_set_ttl N k l v = sys_listener_set_ttl N k (tl_sys l) v"

definition listener_ttl :: "'k std_net \<Rightarrow> 'k \<Rightarrow> tcp_listener \<Rightarrow> u32 io_result \<times> 'k" where
  "listener_ttl N k l = sys_listener_ttl N k (tl_sys l)"

definition listener_take_error :: "'k std_net \<Rightarrow> 'k \<Rightarrow> tcp_listener \<Rightarrow> (io_error option) io_result \<times> 'k" where
  "listener_take_error N k l = sys_listener_take_error N k (tl_sys l)"

definition listener_register ::
    "'k epoll_ops \<Rightarrow> ('j, 'k, 'p) poll \<Rightarrow> tcp_listener \<Rightarrow> token_entry \<Rightarrow> ready \<Rightarrow> poll_opt \<Rightarrow> 'j job
       \<Rightarrow> unit io_result \<times> tcp_listener \<times> ('j, 'k, 'p) poll" where
  "listener_register K poll l tok interest opts job =
     (case associate_selector (tl_selector_id l) poll of
        (Inl e, i) \<Rightarrow> (Inl e, l\<lparr>tl_selector_id := i\<rparr>, poll)
      | (Inr _, i) \<Rightarrow>
          (case sys_listener_register K poll (tl_sys l) tok interest opts job of
             (r, poll) \<Rightarrow> (r, l\<lparr>tl_selector_id := i\<rparr>, poll)))"

definition listener_reregister ::
    "'k epoll_ops \<Rightarrow> ('j, 'k, 'p) poll \<Rightarrow> tcp_listener \<Rightarrow> token_entry \<Rightarrow> ready \<Rightarrow> poll_opt \<Rightarrow> unit io_result \<times> ('j, 'k, 'p) poll" where
  "listener_reregister K poll l tok interest opts = sys_listener_reregister K poll (tl_sys l) tok interest opts"

definition listener_deregister ::
    "'k epoll_ops \<Rightarrow> bool \<Rightarrow> ('j, 'k, 'p) poll \<Rightarrow> tcp_listener \<Rightarrow> (unit io_result \<times> ('j, 'k, 'p) poll) option" where
  "listener_deregister K dbg poll l = sys_listener_deregister K dbg poll (tl_sys l)"

definition listener_into_raw_fd :: "tcp_listener \<Rightarrow> i32" where
  "listener_into_raw_fd l = sys_listener_into_raw_fd (tl_sys l)"

definition listener_as_raw_fd :: "tcp_listener \<Rightarrow> i32" where
  "listener_as_raw_fd l = sys_listener_as_raw_fd (tl_sys l)"

definition listener_from_raw_fd :: "i32 \<Rightarrow> tcp_listener" where
  "listener_from_raw_fd fd = \<lparr>tl_sys = sys_listener_from_raw_fd fd, tl_selector_id = selector_id_new\<rparr>"

subsection \<open>Boxes and reference counts\<close>

text \<open>A handle behind any number of boxes and reference counts; each implementation calls that of what it holds.\<close>

datatype boxed = Unboxed evented | BoxDyn boxed | BoxOf boxed | ArcOf boxed

primrec boxed_register ::
    "'k epoll_ops \<Rightarrow> 'p pipe_ops \<Rightarrow> ('j, 'k, 'p) poll \<Rightarrow> boxed \<Rightarrow> token_entry \<Rightarrow> ready \<Rightarrow> poll_opt \<Rightarrow> 'j job
       \<Rightarrow> (unit io_result \<times> boxed \<times> ('j, 'k, 'p) poll) option" where
  "boxed_register K P poll (Unboxed handle) tok interest opts job =
     do { (r, handle, poll) \<leftarrow> poll_register K P poll handle tok interest opts job; Some (r, Unboxed handle, poll) }"
| "boxed_register K P poll (BoxDyn b) tok interest opts job =
     do { (r, b, poll) \<leftarrow> boxed_register K P poll b tok interest opts job; Some (r, BoxDyn b, poll) }"
| "boxed_register K P poll (BoxOf b) tok interest opts job =
     do { (r, b, poll) \<leftarrow> boxed_register K P poll b tok interest opts job; Some (r, BoxOf b, poll) }"
| "boxed_register K P poll (ArcOf b) tok interest opts job =
     do { (r, b, poll) \<leftarrow> boxed_register K P poll b tok interest opts job; Some (r, ArcOf b, poll) }"

primrec boxed_reregister ::
    "'k epoll_ops \<Rightarrow> 'p pipe_ops \<Rightarrow> ('j, 'k, 'p) poll \<Rightarrow> boxed \<Rightarrow> token_entry \<Rightarrow> ready \<Rightarrow> poll_opt
       \<Rightarrow> (unit io_result \<times> ('j, 'k, 'p) poll) option" where
  "boxed_reregister K P poll (Unboxed handle) tok interest opts = poll_reregister K P poll handle tok interest opts"
| "boxed_reregister K P poll (BoxDyn b) tok interest opts = boxed_reregister K P poll b tok interest opts"
| "boxed_reregister K P poll (BoxOf b) tok interest opts = boxed_reregister K P poll b tok interest opts"
| "boxed_reregister K P poll (ArcOf b) tok interest opts = boxed_reregister K P poll b tok interest opts"

primrec boxed_deregister ::
    "'k epoll_ops \<Rightarrow> 'p pipe_ops \<Rightarrow> bool \<Rightarrow> ('j, 'k, 'p) poll \<Rightarrow> boxed \<Rightarrow> (unit io_result \<times> ('j, 'k, 'p) poll) option" where
  "boxed_deregister K P dbg poll (Unboxed handle) = poll_deregister K P dbg poll handle"
| "boxed_deregister K P dbg poll (BoxDyn b) = boxed_deregister K P dbg poll b"
| "boxed_deregister K P dbg poll (BoxOf b) = boxed_deregister K P dbg poll b"
| "boxed_deregister K P dbg poll (ArcOf b) = boxed_deregister K P dbg poll b"

subsection \<open>Entry points of the poller\<close>

definition selector_id_of :: "('j, 'k) selector \<Rightarrow> usize" where
  "selector_id_of self = sel_id self"

text \<open>\<open>poll1\<close> for a caller that finds the lock free and has it to itself: the exchange of 0 for 1, the poll, and the
  release, which sees 1. \<open>None\<close> is a lock that is taken, for which see the theory \<open>PollLock\<close>, or a poll that does not return.\<close>

definition poll1_free ::
    "'k epoll_ops \<Rightarrow> ('k \<Rightarrow> duration \<times> 'k) \<Rightarrow> 'p pipe_ops \<Rightarrow> usize \<Rightarrow> ('j, 'k, 'p) poll \<Rightarrow> 'j events
       \<Rightarrow> duration option \<Rightarrow> bool \<Rightarrow> (nat io_result \<times> usize \<times> ('j, 'k, 'p) poll \<times> 'j events) option" where
  "poll1_free K clk P lock_state poll evts timeout interruptible =
     (if lock_state \<noteq> 0 then None
      else do { let lock_state = 1;
                (ret, poll, evts) \<leftarrow> poll2 K clk P poll evts timeout interruptible;
                if lock_state \<noteq> 1 then None else Some (ret, lock_state AND NOT 1, poll, evts) })"

definition poll_poll ::
    "'k epoll_ops \<Rightarrow> ('k \<Rightarrow> duration \<times> 'k) \<Rightarrow> 'p pipe_ops \<Rightarrow> usize \<Rightarrow> ('j, 'k, 'p) poll \<Rightarrow> 'j events
       \<Rightarrow> duration option \<Rightarrow> (nat io_result \<times> usize \<times> ('j, 'k, 'p) poll \<times> 'j events) option" where
  "poll_poll K clk P lock_state poll evts timeout = poll1_free K clk P lock_state poll evts timeout False"

definition poll_interruptible ::
    "'k epoll_ops \<Rightarrow> ('k \<Rightarrow> duration \<times> 'k) \<Rightarrow> 'p pipe_ops \<Rightarrow> usize \<Rightarrow> ('j, 'k, 'p) poll \<Rightarrow> 'j events
       \<Rightarrow> duration option \<Rightarrow> (nat io_result \<times> usize \<times> ('j, 'k, 'p) poll \<times> 'j events) option" where
  "poll_interruptible K clk P lock_state poll evts timeout = poll1_free K clk P lock_state poll evts timeout True"

text \<open>The \<open>Events\<close> of the library hold those of the selector.\<close>

record 'j poll_events =
  pe_inner :: "'j events"

definition poll_events_with_capacity :: "nat \<Rightarrow> 'j poll_events" where
  "poll_events_with_capacity capacity = \<lparr>pe_inner = events_with_capacity capacity\<rparr>"

definition poll_events_get_mut :: "'j poll_events \<Rightarrow> nat \<Rightarrow> 'j job_entry option" where
  "poll_events_get_mut e idx = events_get_mut (pe_inner e) idx"

definition poll_events_len :: "'j poll_events \<Rightarrow> nat" where
  "poll_events_len e = events_len (pe_inner e)"

definition poll_events_capacity :: "'j poll_events \<Rightarrow> nat" where
  "poll_events_capacity e = events_capacity (pe_inner e)"

definition poll_events_is_empty :: "'j poll_events \<Rightarrow> bool" where
  "poll_events_is_empty e = events_is_empty (pe_inner e)"

definition poll_events_clear :: "'j poll_events \<Rightarrow> 'j poll_events" where
  "poll_events_clear e = e\<lparr>pe_inner := events_clear (pe_inner e)\<rparr>"

subsection \<open>SetReadiness and Registration\<close>

definition set_readiness_readiness :: "('j, 'p) rqueue \<Rightarrow> addr \<Rightarrow> ready option" where
  "set_readiness_readiness q a = reg_readiness q a"

definition set_readiness_set_readiness ::
    "'p pipe_ops \<Rightarrow> ('j, 'p) rqueue \<Rightarrow> addr \<Rightarrow> ready \<Rightarrow> (unit io_result \<times> ('j, 'p) rqueue) option" where
  "set_readiness_set_readiness P q a ready = reg_set_readiness P q a ready"

text \<open>\<open>Evented::deregister\<close> of a \<open>Registration\<close>; its own \<open>deregister\<close> is the same call.\<close>

definition evented_registration_deregister ::
    "'p pipe_ops \<Rightarrow> ('j, 'p) rqueue \<Rightarrow> addr \<Rightarrow> (unit io_result \<times> ('j, 'p) rqueue) option" where
  "evented_registration_deregister P q a =
     reg_update P q a \<lparr>ttype = TokenEvent, te_token = Token 0\<rparr> ready_empty opt_empty Noop"

lemma evented_registration_deregister_eq: "evented_registration_deregister P q a = registration_deregister P q a"
  by (simp add: evented_registration_deregister_def registration_deregister_def null_token_def)

subsection \<open>Handles are descriptors\<close>

text \<open>What stands behind the boxes, and the same boxes around another handle.\<close>

primrec unbox :: "boxed \<Rightarrow> evented" where
  "unbox (Unboxed handle) = handle"
| "unbox (BoxDyn b) = unbox b"
| "unbox (BoxOf b) = unbox b"
| "unbox (ArcOf b) = unbox b"

primrec rebox :: "boxed \<Rightarrow> evented \<Rightarrow> boxed" where
  "rebox (Unboxed _) handle = Unboxed handle"
| "rebox (BoxDyn b) handle = BoxDyn (rebox b handle)"
| "rebox (BoxOf b) handle = BoxOf (rebox b handle)"
| "rebox (ArcOf b) handle = ArcOf (rebox b handle)"

text \<open>Boxes are transparent.\<close>

lemma boxed_register_unbox:
  "boxed_register K P poll b tok interest opts job =
     map_option (\<lambda>(r, handle, poll). (r, rebox b handle, poll)) (poll_register K P poll (unbox b) tok interest opts job)"
  by (induction b) (auto simp: map_option_bind map_option.compositionality comp_def map_conv_bind_option split_def)

lemma boxed_reregister_unbox: "boxed_reregister K P poll b tok interest opts = poll_reregister K P poll (unbox b) tok interest opts"
  by (induction b) simp_all

lemma boxed_deregister_unbox: "boxed_deregister K P dbg poll b = poll_deregister K P dbg poll (unbox b)"
  by (induction b) simp_all

text \<open>The handles of the model of \<open>Poll\<close> are these types: a bare descriptor is an \<open>Io\<close> or an awakener, a socket is
  a stream or a listener.\<close>

lemma poll_register_io:
  "poll_register K P poll (EvFd (io_fd io)) tok interest opts job =
     (case io_register K poll io tok interest opts job of (r, poll) \<Rightarrow> Some (r, EvFd (io_fd io), poll))"
  by (simp add: poll_register_def io_register_def eventedfd_register_def io_as_raw_fd_def split: prod.splits)

lemma poll_register_listener:
  "poll_register K P poll (EvSocket (tl_sys l) (tl_selector_id l)) tok interest opts job =
     (case listener_register K poll l tok interest opts job of
        (r, l, poll) \<Rightarrow> Some (r, EvSocket (tl_sys l) (tl_selector_id l), poll))"
  by (simp add: poll_register_def listener_register_def sys_listener_register_def sys_listener_as_raw_fd_def
      eventedfd_register_def split: prod.splits sum.splits)

text \<open>The awakener of the model of \<open>Poll::new\<close> is registered with the descriptor of its reader.\<close>

lemma awakener_register_reader:
  "awakener_register K poll aw tok interest opts job =
     (case selector_register K (po_selector poll) (io_fd (aw_reader aw)) tok interest opts job of
        (r, sel) \<Rightarrow> (r, poll\<lparr>po_selector := sel\<rparr>))"
  by (simp add: awakener_register_def io_register_def io_as_raw_fd_def eventedfd_register_def)

text \<open>What the kernel documents of the two ends of a non-blocking pipe, with \<open>level\<close> bytes in it, gives the contract of
  the awakener's pipe.\<close>

locale pipe_ends =
  fixes F :: "'k file_ops" and rd wr :: i32 and level :: "'k \<Rightarrow> nat" and cap :: nat
  assumes file_read_empty: "level k = 0 \<Longrightarrow> sf_read F k rd n = (Inl WouldBlock, k)"
    and file_read_some: "0 < level k \<Longrightarrow> 0 < n \<Longrightarrow>
      \<exists>bs k'. sf_read F k rd n = (Inr bs, k') \<and> length bs = min n (level k) \<and> level k' = level k - length bs"
    and file_write_byte: "level k < cap \<Longrightarrow> \<exists>k'. sf_write F k wr [b] = (Inr 1, k') \<and> level k' = Suc (level k)"
    and file_write_full: "cap \<le> level k \<Longrightarrow> sf_write F k wr [b] = (Inl WouldBlock, k)"
    and file_cap: "0 < cap"

sublocale pipe_ends \<subseteq> ends: nonblocking_pipe
  "awakener_pipe F \<lparr>aw_reader = io_from_raw_fd rd, aw_writer = io_from_raw_fd wr\<rparr>" level cap
  using file_read_some file_write_byte file_cap
  by unfold_locales
    (simp_all add: awakener_pipe_def io_read_def io_write_def io_from_raw_fd_def file_read_empty file_write_full)

text \<open>A kernel that has one pipe with a reading end 3 and a writing end 4.\<close>

definition count_files :: "nat \<Rightarrow> nat file_ops" where
  "count_files c = \<lparr>
     sf_try_clone = \<lambda>k fd. (Inl (OtherError ''no descriptors''), k),
     sf_read = \<lambda>k fd n. (if k = 0 then (Inl WouldBlock, k) else (Inr (replicate (min n k) 1), k - min n k)),
     sf_write = \<lambda>k fd bs. (if k < c then (Inr 1, Suc k) else (Inl WouldBlock, k)),
     sf_flush = \<lambda>k fd. (Inr (), k)\<rparr>"

interpretation count_files: pipe_ends "count_files 65536" 3 4 "\<lambda>k. k" 65536
  by unfold_locales (auto simp: count_files_def)

lemma poll_poll_free:
  "poll_poll K clk P 0 poll evts timeout =
     map_option (\<lambda>(ret, poll, evts). (ret, 0, poll, evts)) (poll2 K clk P poll evts timeout False)"
  by (simp add: poll_poll_def poll1_free_def map_conv_bind_option split_def comp_def)

subsection \<open>One selector for a stream\<close>

text \<open>Operations on a stream and any number of pollers, each with the state of the kernel it sees.\<close>

datatype 'j stream_op =
    OpRegister nat token_entry ready poll_opt "'j job"
  | OpReregister nat token_entry ready poll_opt
  | OpDeregister nat

definition stream_step ::
    "'k epoll_ops \<Rightarrow> bool \<Rightarrow> 'j stream_op \<Rightarrow> tcp_stream \<times> (nat \<Rightarrow> ('j, 'k, 'p) poll) \<Rightarrow> (tcp_stream \<times> (nat \<Rightarrow> ('j, 'k, 'p) poll)) option" where
  "stream_step K dbg opn sp =
     (case sp of (s, ps) \<Rightarrow>
        (case opn of
           OpRegister i tok interest opts job \<Rightarrow>
             (case tcp_register K (ps i) s tok interest opts job of (_, s, p) \<Rightarrow> Some (s, ps(i := p)))
         | OpReregister i tok interest opts \<Rightarrow>
             (case tcp_reregister K (ps i) s tok interest opts of (_, p) \<Rightarrow> Some (s, ps(i := p)))
         | OpDeregister i \<Rightarrow> do { (_, p) \<leftarrow> tcp_deregister K dbg (ps i) s; Some (s, ps(i := p)) }))"

primrec stream_run ::
    "'k epoll_ops \<Rightarrow> bool \<Rightarrow> 'j stream_op list \<Rightarrow> tcp_stream \<times> (nat \<Rightarrow> ('j, 'k, 'p) poll) \<Rightarrow> (tcp_stream \<times> (nat \<Rightarrow> ('j, 'k, 'p) poll)) option" where
  "stream_run K dbg [] sp = Some sp"
| "stream_run K dbg (opn # ops) sp = do { sp \<leftarrow> stream_step K dbg opn sp; stream_run K dbg ops sp }"

definition has_entry :: "('j, 'k, 'p) poll \<Rightarrow> i32 \<Rightarrow> bool" where
  "has_entry p fd \<longleftrightarrow> sel_events_map (po_selector p) fd \<noteq> None"

text \<open>Whatever poller has an entry for the descriptor is the one the stream is associated with.\<close>

definition stream_inv :: "i32 \<Rightarrow> (nat \<Rightarrow> usize) \<Rightarrow> tcp_stream \<times> (nat \<Rightarrow> ('j, 'k, 'p) poll) \<Rightarrow> bool" where
  "stream_inv fd ids sp \<longleftrightarrow> ts_sys (fst sp) = fd \<and> (\<forall>i. sel_id (po_selector (snd sp i)) = ids i) \<and>
     (\<forall>i. has_entry (snd sp i) fd \<longrightarrow> ts_selector_id (fst sp) = ids i)"

lemma tcp_register_entry:
  assumes "tcp_register K p s tok interest opts job = (r, s', p')"
  shows "ts_sys s' = ts_sys s \<and> sel_id (po_selector p') = sel_id (po_selector p) \<and>
    (if ts_selector_id s \<noteq> 0 \<and> ts_selector_id s \<noteq> sel_id (po_selector p) then s' = s \<and> p' = p
     else ts_selector_id s' = sel_id (po_selector p) \<and> (\<forall>fd. fd \<noteq> ts_sys s \<longrightarrow> has_entry p' fd = has_entry p fd))"
  using assms
  by (auto simp: tcp_register_def associate_selector_def eventedfd_register_def selector_register_def Let_def has_entry_def
      split: prod.splits sum.splits if_splits)

lemma tcp_reregister_entry:
  assumes "tcp_reregister K p s tok interest opts = (r, p')"
  shows "sel_id (po_selector p') = sel_id (po_selector p) \<and> has_entry p' fd = has_entry p fd"
  using assms
  by (auto simp: tcp_reregister_def eventedfd_reregister_def selector_reregister_def Let_def has_entry_def
      split: prod.splits sum.splits)

lemma tcp_deregister_entry:
  assumes "tcp_deregister K dbg p s = Some (r, p')"
  shows "sel_id (po_selector p') = sel_id (po_selector p) \<and> (has_entry p' fd \<longrightarrow> has_entry p fd)"
  using assms
  by (auto simp: tcp_deregister_def eventedfd_deregister_def selector_deregister_def Let_def has_entry_def bind_Some_iff
      split: prod.splits sum.splits if_splits)

lemma stream_step_inv:
  assumes "stream_inv fd ids sp" "\<And>i. ids i \<noteq> 0" "stream_step K dbg opn sp = Some sp'"
  shows "stream_inv fd ids sp'"
proof -
  obtain s ps where sp: "sp = (s, ps)" by (cases sp)
  note inv = assms(1)[unfolded stream_inv_def sp fst_conv snd_conv]
  show ?thesis
  proof (cases opn)
    case (OpRegister i tok interest opts job)
    obtain r s' p where r: "tcp_register K (ps i) s tok interest opts job = (r, s', p)" by (metis prod_cases3)
    have "sp' = (s', ps(i := p))" using assms(3) sp OpRegister r by (simp add: stream_step_def)
    then show ?thesis using tcp_register_entry[OF r] inv assms(2) unfolding stream_inv_def by (auto split: if_splits)
  next
    case (OpReregister i tok interest opts)
    obtain r p where r: "tcp_reregister K (ps i) s tok interest opts = (r, p)" by fastforce
    have "sp' = (s, ps(i := p))" using assms(3) sp OpReregister r by (simp add: stream_step_def)
    then show ?thesis using tcp_reregister_entry[OF r] inv unfolding stream_inv_def by auto
  next
    case (OpDeregister i)
    obtain r p where r: "tcp_deregister K dbg (ps i) s = Some (r, p)" "sp' = (s, ps(i := p))"
      using assms(3) sp OpDeregister by (auto simp: stream_step_def bind_Some_iff)
    then show ?thesis using tcp_deregister_entry[OF r(1)] inv unfolding stream_inv_def by auto
  qed
qed

lemma stream_run_inv:
  "stream_inv fd ids sp \<Longrightarrow> (\<And>i. ids i \<noteq> 0) \<Longrightarrow> stream_run K dbg ops sp = Some sp' \<Longrightarrow> stream_inv fd ids sp'"
proof (induction ops arbitrary: sp)
  case (Cons opn ops)
  then obtain sp1 where "stream_step K dbg opn sp = Some sp1" "stream_run K dbg ops sp1 = Some sp'"
    by (auto simp: bind_Some_iff)
  then show ?case using Cons.IH stream_step_inv[OF Cons.prems(1,2)] Cons.prems(2) by blast
qed simp

text \<open>C17. A stream is with one selector at most: after any sequence of registering, reregistering and deregistering it
  with the \<open>n\<close> pollers, successful or not, at most one poller has an entry for its descriptor, the one
  the stream is associated with, provided none had one at the beginning.\<close>

theorem stream_one_selector:
  assumes "stream_run K dbg ops (s, ps) = Some (s', ps')"
    and "inj_on (\<lambda>i. sel_id (po_selector (ps i))) {..<n}" "\<And>i. sel_id (po_selector (ps i)) \<noteq> 0"
    and "\<And>i. \<not> has_entry (ps i) (ts_sys s)"
    and "has_entry (ps' i) (ts_sys s)" "has_entry (ps' j) (ts_sys s)" "i < n" "j < n"
  shows "i = j \<and> ts_selector_id s' = sel_id (po_selector (ps i))"
proof -
  have "stream_inv (ts_sys s) (\<lambda>i. sel_id (po_selector (ps i))) (s, ps)" using assms(4) by (simp add: stream_inv_def)
  from stream_run_inv[OF this assms(3,1)]
  have e: "ts_selector_id s' = sel_id (po_selector (ps i))" "ts_selector_id s' = sel_id (po_selector (ps j))"
    using assms(5,6) unfolding stream_inv_def fst_conv snd_conv by blast+
  have "i = j" using inj_onD[OF assms(2) trans[OF e(1)[symmetric] e(2)]] assms(7,8) by simp
  then show ?thesis using e(1) by blast
qed

definition moved_ops :: "string stream_op list" where
  "moved_ops = [OpRegister 0 null_token ready_readable opt_edge Noop, OpDeregister 0,
     OpRegister 1 null_token ready_readable opt_edge Noop, OpRegister 0 null_token ready_readable opt_edge Noop]"

text \<open>A stream that has been deregistered cannot move to another poller, but can come back to its own.\<close>

theorem stream_one_selector_witness:
  "\<exists>s' ps'. stream_run null_ctl False moved_ops (\<lparr>ts_sys = 5, ts_selector_id = 0\<rparr>, \<lambda>i. example_poll (if i = 0 then 1 else 2)) = Some (s', ps') \<and>
     has_entry (ps' 0) 5 \<and> \<not> has_entry (ps' 1) 5"
proof -
  let ?s = "\<lparr>ts_sys = 5, ts_selector_id = 0\<rparr>" and ?ps = "\<lambda>i :: nat. example_poll (if i = 0 then 1 else 2)"
  obtain s' ps' where run: "stream_run null_ctl False moved_ops (?s, ?ps) = Some (s', ps')" "has_entry (ps' 0) 5"
    by (auto simp: moved_ops_def stream_step_def tcp_register_def associate_selector_def eventedfd_register_def
        selector_register_def tcp_deregister_def eventedfd_deregister_def selector_deregister_def null_ctl_def example_poll_def
        has_entry_def Let_def)
  have ids: "inj_on (\<lambda>i. sel_id (po_selector (?ps i))) {..<2}" "sel_id (po_selector (?ps i)) \<noteq> 0"
    "\<not> has_entry (?ps i) (ts_sys ?s)" for i
    by (auto simp: inj_on_def example_poll_def has_entry_def)
  have "has_entry (ps' 0) (ts_sys ?s)" using run(2) by simp
  note one = stream_one_selector[OF run(1) ids this, of 1]
  have "\<not> has_entry (ps' 1) 5"
  proof
    assume "has_entry (ps' 1) 5"
    then have "has_entry (ps' 1) (ts_sys ?s)" by simp
    from one[OF this] show False by simp
  qed
  then show ?thesis using run by blast
qed

text \<open>Going through the raw descriptor forgets the selector, so that the descriptor can be registered with another
  poller while the first still has its entry.\<close>

lemma raw_fd_forgets_selector:
  assumes "tcp_register K p s tok interest opts job = (r, s', p')" "ts_selector_id s = 0"
    and "tcp_register K2 p2 (tcp_from_raw_fd (tcp_into_raw_fd s')) tok2 interest2 opts2 job2 = (r2, s2, p2')"
  shows "has_entry p' (ts_sys s) \<and> has_entry p2' (ts_sys s)"
  using assms
  by (auto simp: tcp_register_def associate_selector_def eventedfd_register_def selector_register_def Let_def has_entry_def
      tcp_from_raw_fd_def tcp_into_raw_fd_def sys_stream_from_raw_fd_def sys_stream_into_raw_fd_def selector_id_new_def
      split: prod.splits sum.splits)

end
