(* ===== verification/Server.thy ===== *)
theory Server
  imports Connection
begin

section \<open>The server\<close>

text \<open>
  \<open>Acceptor\<close> of \<open>src/net/acceptor.rs\<close> and \<open>TcpServer\<close> of \<open>src/net/tcp_server.rs\<close>. The listener is a parameter
  with its system calls; connections live in a map from their addresses, and a connection that is
  locked is absent from it. The jobs the event loop calls are data, so that the loop's callback
  can be defined from the operations they stand for.
\<close>

datatype 'o loop_job = AcceptJob | ConnJob nat | OtherJob 'o

record ('l, 'x) acceptor =
  ac_listener :: 'l
  ac_handle :: evented
  ac_is_listening :: bool
  ac_job :: "'x conn_job"

text \<open>\<open>sw_token_id\<close> is the counter \<open>SOCKET_TOKEN_ID\<close>, \<open>sw_rest\<close> what belongs to the handlers; the
  acceptor is absent while it is locked.\<close>

record ('b, 's, 'h, 'l, 'v) server_world =
  sw_conns :: "nat \<rightharpoonup> ('b, 's, 'h) tcp_connection"
  sw_acceptor :: "('l, unit) acceptor option"
  sw_token_id :: usize
  sw_rest :: 'v

text \<open>\<open>ls_set_nonblock\<close> is the call on a fresh stream, \<open>ls_fd\<close> its descriptor.\<close>

record ('l, 's, 'a) listener_ops =
  ls_accept :: "'l \<Rightarrow> ('s \<times> 'a) io_result \<times> 'l"
  ls_set_nonblock :: "'s \<Rightarrow> unit io_result"
  ls_fd :: "'s \<Rightarrow> i32"

subsection \<open>The acceptor\<close>

definition listener_accept :: "('l, 's, 'a) listener_ops \<Rightarrow> 'l \<Rightarrow> (('s \<times> 'a) io_result \<times> 'l)" where
  "listener_accept L l =
     (case ls_accept L l of
        (Inl e, l) \<Rightarrow> (Inl e, l)
      | (Inr (s, a), l) \<Rightarrow>
          (case ls_set_nonblock L s of
             Inl e \<Rightarrow> (Inl e, l)
           | Inr _ \<Rightarrow> (Inr (s, a), l)))"

definition acceptor_new :: "'l \<Rightarrow> i32 \<Rightarrow> ('l, 'x) acceptor" where
  "acceptor_new l fd = \<lparr>ac_listener = l, ac_handle = EvSocket fd 0, ac_is_listening = False, ac_job = DefaultJob\<rparr>"

definition set_accept_job :: "('l, 'x) acceptor \<Rightarrow> 'x conn_job \<Rightarrow> ('l, 'x) acceptor" where
  "set_accept_job a job = a\<lparr>ac_job := job\<rparr>"

text \<open>The loop over the backlog, \<open>run\<close> being the acceptor's job; \<open>None\<close> is a panic or a loop without end.\<close>

partial_function (option) accept_loop ::
    "('l, 's, 'a) listener_ops \<Rightarrow> ('s \<Rightarrow> 'a \<Rightarrow> 'e \<Rightarrow> 'e option) \<Rightarrow> 'l \<times> 'e \<Rightarrow> ('l \<times> 'e) option" where
  "accept_loop L run lst =
     (case lst of (l, st) \<Rightarrow>
        (case listener_accept L l of
           (Inr (stream, addr), l) \<Rightarrow>
             (case run stream addr st of None \<Rightarrow> None | Some st \<Rightarrow> accept_loop L run (l, st))
         | (Inl e, l) \<Rightarrow> if e = Interrupted then accept_loop L run (l, st) else Some (l, st)))"

definition acceptor_handle_read ::
    "('l, 's, 'a) listener_ops \<Rightarrow> ('x \<Rightarrow> 's \<Rightarrow> 'a \<Rightarrow> 'e \<Rightarrow> 'e option)
       \<Rightarrow> ('l, 'x) acceptor \<times> 'e \<Rightarrow> (('l, 'x) acceptor \<times> 'e) option" where
  "acceptor_handle_read L run ast =
     (case ast of (a, st) \<Rightarrow>
        do { (l, st) \<leftarrow> accept_loop L
               (case ac_job a of DefaultJob \<Rightarrow> (\<lambda>_ _ st. Some st) | HandlerJob x \<Rightarrow> run x) (ac_listener a, st);
             Some (a\<lparr>ac_listener := l\<rparr>, st) })"

definition acceptor_bind ::
    "'k epoll_ops \<Rightarrow> 'p pipe_ops \<Rightarrow> ('l, 'x) acceptor \<Rightarrow> 'j job \<Rightarrow> ('j, 'k, 'p, 't, 'w) world
       \<Rightarrow> (('l, 'x) acceptor \<times> ('j, 'k, 'p, 't, 'w) world) option" where
  "acceptor_bind K P a job st =
     (case st of (el, w) \<Rightarrow>
        do { (r, io, el) \<leftarrow> el_register K P el (ac_handle a) \<lparr>ttype = AcceptEvent, te_token = Token 0\<rparr>
               ready_readable opt_edge job;
             _ \<leftarrow> unwrap r;
             Some (a\<lparr>ac_handle := io, ac_is_listening := True\<rparr>, el, w) })"

subsection \<open>The server's operations\<close>

text \<open>What a server adds to the parameters of its connections: the address of the next connection,
  making a session, and the two calls of \<open>Handler\<close> that accepting makes. \<open>sv_alloc\<close> is \<open>None\<close> until \<open>start\<close>.\<close>

record ('h, 'e) session_ops =
  sv_node :: "'e \<Rightarrow> nat"
  sv_alloc :: "('e \<Rightarrow> ('h \<times> 'e) option) option"
  sv_attach :: "'h \<Rightarrow> nat \<Rightarrow> 'e \<Rightarrow> 'e option"
  sv_on_accept :: "'h \<Rightarrow> 'e \<Rightarrow> 'e option"

type_synonym ('b, 's, 'h, 'l, 'k, 'p, 't, 'o, 'v) server_env =
  "('o loop_job, 'k, 'p, 't, ('b, 's, 'h, 'l, 'v) server_world) world"

text \<open>The session is attached and told first, with the
  connection unlocked, and then the jobs are set and the stream is registered.\<close>

definition on_accept_connection ::
    "('b, 's, 'k, 'p, 'h, ('b, 's, 'h, 'l, 'k, 'p, 't, 'o, 'v) server_env) net
       \<Rightarrow> ('h, ('b, 's, 'h, 'l, 'k, 'p, 't, 'o, 'v) server_env) session_ops \<Rightarrow> ('l, 's, 'a) listener_ops \<Rightarrow> 's
       \<Rightarrow> ('b, 's, 'h, 'l, 'k, 'p, 't, 'o, 'v) server_env \<Rightarrow> ('b, 's, 'h, 'l, 'k, 'p, 't, 'o, 'v) server_env option" where
  "on_accept_connection N V L stream st =
     (case st of (el, w) \<Rightarrow>
        do { let i = sv_node V st;
             let w = w\<lparr>sw_conns := (sw_conns w)(i \<mapsto> conn_new N (EvSocket (ls_fd L stream) 0) stream)\<rparr>;
             alloc \<leftarrow> sv_alloc V;
             (h, st) \<leftarrow> alloc (el, w);
             st \<leftarrow> sv_attach V h i st;
             (el, w) \<leftarrow> sv_on_accept V h st;
             c \<leftarrow> sw_conns w i;
             let c = set_close_job (set_writ_job (set_read_job c (HandlerJob h)) (HandlerJob h)) (HandlerJob h);
             token \<leftarrow> add_u64 (sw_token_id w) 1;
             let w = w\<lparr>sw_token_id := sw_token_id w + 1\<rparr>;
             (r, io, el) \<leftarrow> el_register (nt_epoll N) (nt_pipe N) el (tc_handle c)
               \<lparr>ttype = SocketEvent, te_token = Token token\<rparr> (ready_bitor ready_readable ready_writable) opt_edge
               (Job (ConnJob i));
             _ \<leftarrow> unwrap r;
             Some (el, w\<lparr>sw_conns := (sw_conns w)(i \<mapsto> c\<lparr>tc_handle := io\<rparr>)\<rparr>) })"

text \<open>The job of a connection: it is locked, handles the event, and is unlocked.\<close>

definition conn_event ::
    "('b, 's, 'k, 'p, 'h, ('b, 's, 'h, 'l, 'k, 'p, 't, 'o, 'v) server_env) net \<Rightarrow> nat \<Rightarrow> i64
       \<Rightarrow> ('b, 's, 'h, 'l, 'k, 'p, 't, 'o, 'v) server_env \<Rightarrow> ('b, 's, 'h, 'l, 'k, 'p, 't, 'o, 'v) server_env option" where
  "conn_event N i val st =
     (case st of (el, w) \<Rightarrow>
        do { c \<leftarrow> sw_conns w i;
             (r, c, el, w) \<leftarrow> handle_event N (c, el, w\<lparr>sw_conns := (sw_conns w)(i := None)\<rparr>) val;
             _ \<leftarrow> unwrap r;
             Some (el, w\<lparr>sw_conns := (sw_conns w)(i \<mapsto> c)\<rparr>) })"

text \<open>A server starts with no connection.\<close>

definition server_new :: "'l \<Rightarrow> i32 \<Rightarrow> 'v \<Rightarrow> ('b, 's, 'h, 'l, 'v) server_world" where
  "server_new l fd rest = \<lparr>sw_conns = (\<lambda>_. None), sw_acceptor = Some (acceptor_new l fd), sw_token_id = 0, sw_rest = rest\<rparr>"

text \<open>\<open>start_internal\<close>: bind first, then set the accept job.\<close>

definition start_internal ::
    "'k epoll_ops \<Rightarrow> 'p pipe_ops \<Rightarrow> ('b, 's, 'h, 'l, 'k, 'p, 't, 'o, 'v) server_env
       \<Rightarrow> ('b, 's, 'h, 'l, 'k, 'p, 't, 'o, 'v) server_env option" where
  "start_internal K P st =
     (case st of (el, w) \<Rightarrow>
        do { a \<leftarrow> sw_acceptor w;
             (a, el, w) \<leftarrow> acceptor_bind K P a (Job AcceptJob) (el, w);
             Some (el, w\<lparr>sw_acceptor := Some (set_accept_job a (HandlerJob ()))\<rparr>) })"

text \<open>The job of the listener: the acceptor is locked while it accepts.\<close>

definition accept_event ::
    "('b, 's, 'k, 'p, 'h, ('b, 's, 'h, 'l, 'k, 'p, 't, 'o, 'v) server_env) net
       \<Rightarrow> ('h, ('b, 's, 'h, 'l, 'k, 'p, 't, 'o, 'v) server_env) session_ops \<Rightarrow> ('l, 's, 'a) listener_ops
       \<Rightarrow> ('b, 's, 'h, 'l, 'k, 'p, 't, 'o, 'v) server_env \<Rightarrow> ('b, 's, 'h, 'l, 'k, 'p, 't, 'o, 'v) server_env option" where
  "accept_event N V L st =
     (case st of (el, w) \<Rightarrow>
        do { a \<leftarrow> sw_acceptor w;
             (a, el, w) \<leftarrow> acceptor_handle_read L (\<lambda>_ stream _. on_accept_connection N V L stream)
               (a, el, w\<lparr>sw_acceptor := None\<rparr>);
             Some (el, w\<lparr>sw_acceptor := Some a\<rparr>) })"

text \<open>The event loop's callback for the jobs of a server.\<close>

definition server_job ::
    "('b, 's, 'k, 'p, 'h, ('b, 's, 'h, 'l, 'k, 'p, 't, 'o, 'v) server_env) net
       \<Rightarrow> ('h, ('b, 's, 'h, 'l, 'k, 'p, 't, 'o, 'v) server_env) session_ops \<Rightarrow> ('l, 's, 'a) listener_ops
       \<Rightarrow> ('o \<Rightarrow> usize \<Rightarrow> ('b, 's, 'h, 'l, 'k, 'p, 't, 'o, 'v) server_env \<Rightarrow> ('b, 's, 'h, 'l, 'k, 'p, 't, 'o, 'v) server_env option)
       \<Rightarrow> 'o loop_job job \<Rightarrow> usize
       \<Rightarrow> ('b, 's, 'h, 'l, 'k, 'p, 't, 'o, 'v) server_env \<Rightarrow> ('b, 's, 'h, 'l, 'k, 'p, 't, 'o, 'v) server_env option" where
  "server_job N V L other job ready st =
     (case job of
        Job AcceptJob \<Rightarrow> accept_event N V L st
      | Job (ConnJob i) \<Rightarrow> conn_event N i ready st
      | Job (OtherJob v) \<Rightarrow> other v ready st
      | _ \<Rightarrow> Some st)"

subsection \<open>Accepting\<close>

text \<open>A listening socket: \<open>backlog\<close> holds the connections that wait, \<open>interrupts\<close> counts the signals that come
  before the next one is handed out.\<close>

locale backlog_listener =
  fixes L :: "('l, 's, 'a) listener_ops" and backlog :: "'l \<Rightarrow> ('s \<times> 'a) list" and interrupts :: "'l \<Rightarrow> nat"
  assumes accept_interrupted: "0 < interrupts l \<Longrightarrow>
      \<exists>l'. ls_accept L l = (Inl Interrupted, l') \<and> interrupts l' < interrupts l \<and> backlog l' = backlog l"
    and accept_next: "interrupts l = 0 \<Longrightarrow> backlog l = x # xs \<Longrightarrow> \<exists>l'. ls_accept L l = (Inr x, l') \<and> backlog l' = xs"
    and accept_none: "interrupts l = 0 \<Longrightarrow> backlog l = [] \<Longrightarrow> ls_accept L l = (Inl WouldBlock, l)"
    and nonblock_ok: "ls_set_nonblock L s = Inr ()"

fun run_all :: "('s \<Rightarrow> 'a \<Rightarrow> 'e \<Rightarrow> 'e option) \<Rightarrow> ('s \<times> 'a) list \<Rightarrow> 'e \<Rightarrow> 'e option" where
  "run_all run [] st = Some st"
| "run_all run ((s, a) # xs) st = do { st \<leftarrow> run s a st; run_all run xs st }"

lemma run_all_end: "run_all run [] = Some"
  by (rule ext) simp

context backlog_listener
begin

lemma accept_loop_all:
  "\<exists>l'. backlog l' = [] \<and> accept_loop L run (l, st) = map_option (Pair l') (run_all run (backlog l) st)"
proof (induction "(length (backlog l), interrupts l)" arbitrary: l st rule: wf_induct_rule[OF wf_lex_prod[OF wf_less_than wf_less_than]])
  case (1 l st)
  show ?case
  proof (cases "interrupts l = 0")
    case False
    then obtain l1 where l1: "ls_accept L l = (Inl Interrupted, l1)" "interrupts l1 < interrupts l" "backlog l1 = backlog l"
      using accept_interrupted[of l] by auto
    have "accept_loop L run (l, st) = accept_loop L run (l1, st)"
      using l1(1) by (subst accept_loop.simps) (simp add: listener_accept_def)
    moreover have "((length (backlog l1), interrupts l1), (length (backlog l), interrupts l)) \<in> less_than <*lex*> less_than"
      using l1(2,3) by simp
    from 1[OF this, of st] have "\<exists>l'. backlog l' = [] \<and>
      accept_loop L run (l1, st) = map_option (Pair l') (run_all run (backlog l) st)" using l1(3) by simp
    ultimately show ?thesis by simp
  next
    case i: True
    show ?thesis
    proof (cases "backlog l")
      case Nil
      then have "accept_loop L run (l, st) = Some (l, st)"
        using accept_none[OF i] by (subst accept_loop.simps) (simp add: listener_accept_def)
      then show ?thesis using Nil by (intro exI[of _ l]) simp
    next
      case (Cons x xs)
      obtain s a where x: "x = (s, a)" by (cases x)
      obtain l1 where l1: "ls_accept L l = (Inr (s, a), l1)" "backlog l1 = xs"
        using accept_next[OF i Cons] x by auto
      have step: "accept_loop L run (l, st) = (case run s a st of None \<Rightarrow> None | Some st \<Rightarrow> accept_loop L run (l1, st))"
        using l1(1) nonblock_ok[of s] by (subst accept_loop.simps) (simp add: listener_accept_def)
      show ?thesis
      proof (cases "run s a st")
        case None
        obtain l' where "backlog l' = []" using 1[of l1 st] l1(2) Cons by auto
        then show ?thesis using None step Cons x by (intro exI[of _ l']) simp
      next
        case (Some st1)
        have "((length (backlog l1), interrupts l1), (length (backlog l), interrupts l)) \<in> less_than <*lex*> less_than"
          using l1(2) Cons by simp
        from 1[OF this, of st1] show ?thesis using l1(2) Some step Cons x by simp
      qed
    qed
  qed
qed

end

subsection \<open>A server that receives\<close>

text \<open>Handlers that make a session, change nothing but their own part of the world, and take all they are
  given: \<open>got\<close> is what has been received there.\<close>

definition session_local ::
    "('h, ('b, 's, 'h, 'l, 'k, 'p, 't, 'o, 'v) server_env) session_ops \<Rightarrow> bool" where
  "session_local V \<longleftrightarrow>
     (\<exists>alloc. sv_alloc V = Some alloc \<and> (\<forall>el w. \<exists>h v. alloc (el, w) = Some (h, el, w\<lparr>sw_rest := v\<rparr>))) \<and>
     (\<forall>h i el w. \<exists>v. sv_attach V h i (el, w) = Some (el, w\<lparr>sw_rest := v\<rparr>)) \<and>
     (\<forall>h el w. \<exists>v. sv_on_accept V h (el, w) = Some (el, w\<lparr>sw_rest := v\<rparr>))"

lemma accept_steps:
  assumes i: "sv_node V (el, w) = i" and token: "sw_token_id w \<noteq> - 1" and al: "sv_alloc V = Some alloc"
    and w0: "w0 = w\<lparr>sw_conns := (sw_conns w)(i \<mapsto> conn_new N (EvSocket (ls_fd L s) 0) s)\<rparr>"
    and h: "alloc (el, w0) = Some (h, el, w0\<lparr>sw_rest := v1\<rparr>)"
      "sv_attach V h i (el, w0\<lparr>sw_rest := v1\<rparr>) = Some (el, w0\<lparr>sw_rest := v2\<rparr>)"
      "sv_on_accept V h (el, w0\<lparr>sw_rest := v2\<rparr>) = Some (el, w0\<lparr>sw_rest := v3\<rparr>)"
    and ctl: "k_ctl (nt_epoll N) (sel_kernel (po_selector (el_poll el))) EPOLL_CTL_ADD (ls_fd L s)
      \<lparr>ee_events = ioevent_to_epoll (ready_bitor ready_readable ready_writable) opt_edge, ee_u64 = scast (ls_fd L s)\<rparr> = (Inr (), k)"
  shows "\<exists>el' w'. on_accept_connection N V L s (el, w) = Some (el', w') \<and> sw_rest w' = v3 \<and>
    sw_conns w' = (sw_conns w)(i \<mapsto> (conn_new N (EvSocket (ls_fd L s) (sel_id (po_selector (el_poll el)))) s)
      \<lparr>tc_read_job := HandlerJob h, tc_writ_job := HandlerJob h, tc_close_job := HandlerJob h\<rparr>) \<and>
    sw_token_id w' = sw_token_id w + 1 \<and> sw_acceptor w' = sw_acceptor w \<and>
    sel_events_map (po_selector (el_poll el')) = (sel_events_map (po_selector (el_poll el)))(ls_fd L s \<mapsto>
      \<lparr>je_token_entry = \<lparr>ttype = SocketEvent, te_token = Token (sw_token_id w + 1)\<rparr>, je_job = Job (ConnJob i),
        je_ready = ready_empty\<rparr>) \<and>
    po_queue (el_poll el') = po_queue (el_poll el) \<and> el_timer el' = el_timer el"
proof -
  let ?fd = "ls_fd L s"
  have t: "add_u64 (sw_token_id w) 1 = Some (sw_token_id w + 1)"
    using token add_one_u64(1)[of "sw_token_id w"] by (simp add: word_order.not_eq_extremum)
  let ?el' = "el\<lparr>el_poll := (el_poll el)\<lparr>po_selector := (po_selector (el_poll el))\<lparr>sel_kernel := k, sel_events_map :=
      (sel_events_map (po_selector (el_poll el)))(?fd \<mapsto>
      \<lparr>je_token_entry = \<lparr>ttype = SocketEvent, te_token = Token (sw_token_id w + 1)\<rparr>, je_job = Job (ConnJob i),
        je_ready = ready_empty\<rparr>)\<rparr>\<rparr>\<rparr>"
  have reg: "el_register (nt_epoll N) (nt_pipe N) el (EvSocket ?fd 0)
      \<lparr>ttype = SocketEvent, te_token = Token (sw_token_id w + 1)\<rparr> (ready_bitor ready_readable ready_writable) opt_edge
      (Job (ConnJob i)) = Some (Inr (), EvSocket ?fd (sel_id (po_selector (el_poll el))), ?el')"
    using ctl by (simp add: el_register_def poll_register_def associate_selector_def selector_register_def Let_def)
  show ?thesis
    using i al h t reg unfolding w0
    by (simp add: on_accept_connection_def set_read_job_def set_writ_job_def set_close_job_def Let_def conn_new_def)
qed

lemma accept_spec:
  assumes V: "session_local V" and i: "sv_node V (el, w) = i" and token: "sw_token_id w \<noteq> - 1"
    and ctl: "k_ctl (nt_epoll N) (sel_kernel (po_selector (el_poll el))) EPOLL_CTL_ADD (ls_fd L s)
      \<lparr>ee_events = ioevent_to_epoll (ready_bitor ready_readable ready_writable) opt_edge, ee_u64 = scast (ls_fd L s)\<rparr> = (Inr (), k)"
  shows "\<exists>el' w' h. on_accept_connection N V L s (el, w) = Some (el', w') \<and>
    sw_conns w' = (sw_conns w)(i \<mapsto> (conn_new N (EvSocket (ls_fd L s) (sel_id (po_selector (el_poll el)))) s)
      \<lparr>tc_read_job := HandlerJob h, tc_writ_job := HandlerJob h, tc_close_job := HandlerJob h\<rparr>) \<and>
    sw_token_id w' = sw_token_id w + 1 \<and> sw_acceptor w' = sw_acceptor w \<and>
    sel_events_map (po_selector (el_poll el')) = (sel_events_map (po_selector (el_poll el)))(ls_fd L s \<mapsto>
      \<lparr>je_token_entry = \<lparr>ttype = SocketEvent, te_token = Token (sw_token_id w + 1)\<rparr>, je_job = Job (ConnJob i),
        je_ready = ready_empty\<rparr>) \<and>
    po_queue (el_poll el') = po_queue (el_poll el) \<and> el_timer el' = el_timer el"
proof -
  let ?w0 = "w\<lparr>sw_conns := (sw_conns w)(i \<mapsto> conn_new N (EvSocket (ls_fd L s) 0) s)\<rparr>"
  obtain alloc where al: "sv_alloc V = Some alloc" "\<And>el w. \<exists>h v. alloc (el, w) = Some (h, el, w\<lparr>sw_rest := v\<rparr>)"
    using V unfolding session_local_def by blast
  obtain h v1 where h: "alloc (el, ?w0) = Some (h, el, ?w0\<lparr>sw_rest := v1\<rparr>)" using al(2) by blast
  obtain v2 where v2: "sv_attach V h i (el, ?w0\<lparr>sw_rest := v1\<rparr>) = Some (el, (?w0\<lparr>sw_rest := v1\<rparr>)\<lparr>sw_rest := v2\<rparr>)"
    using V unfolding session_local_def by blast
  obtain v3 where v3: "sv_on_accept V h (el, ?w0\<lparr>sw_rest := v2\<rparr>) = Some (el, (?w0\<lparr>sw_rest := v2\<rparr>)\<lparr>sw_rest := v3\<rparr>)"
    using V unfolding session_local_def by blast
  from accept_steps[OF i token al(1) refl h _ _ ctl, of v2 v3] v2 v3 show ?thesis by auto
qed

text \<open>An event of a connection that can be read, with nothing to write and a peer that has not
  finished, for a handler that keeps \<open>J\<close>.\<close>

lemma conn_event_inv:
  assumes io: "buffered_socket (nt_bytes N) (nt_stream N) incoming ended outgoing"
    and c: "sw_conns w i = Some c" "tc_read_buffer c = Some b"
      "tc_sending c = Some x" "bs_chunk (nt_bytes N) x = []" "tc_waiting c = Some y" "bs_chunk (nt_bytes N) y = []"
    and going: "\<not> ended (tc_stream c)"
    and ev: "ready_is_readable (ready_from_usize val)" "\<not> ready_is_error (ready_from_usize val)" "\<not> ready_is_hup (ready_from_usize val)"
    and job: "job_keeps N (tc_read_job c) J"
    and R: "\<And>s n. R s \<Longrightarrow> 0 < n \<Longrightarrow> R (snd (ss_read (nt_stream N) s n))" and R0: "R (tc_stream c)"
    and J0: "J (bs_chunk (nt_bytes N) b) (incoming (tc_stream c)) (el, w\<lparr>sw_conns := (sw_conns w)(i := None)\<rparr>)"
  shows "\<exists>el' w' s' b' t. conn_event N i val (el, w) = Some (el', w'\<lparr>sw_conns := (sw_conns w')(i \<mapsto>
      c\<lparr>tc_stream := s', tc_read_buffer := Some b', tc_read_triggered := False, tc_write_triggered := t\<rparr>)\<rparr>) \<and>
    J (bs_chunk (nt_bytes N) b') [] (el', w') \<and> R s' \<and> incoming s' = [] \<and> \<not> ended s'"
proof -
  let ?w = "w\<lparr>sw_conns := (sw_conns w)(i := None)\<rparr>" and ?c = "c\<lparr>tc_read_triggered := True\<rparr>"
  have c': "tc_read_buffer ?c = Some b" "R (tc_stream ?c)" "J (bs_chunk (nt_bytes N) b) (incoming (tc_stream ?c)) (el, ?w)"
    using c(2) R0 J0 by simp_all
  have "job_keeps N (tc_read_job ?c) J" using job by simp
  from read_inv[where J = J and R = R, OF io this R c']
  obtain s' b' el' w' where r: "incoming s' = []" "R s'" "J (bs_chunk (nt_bytes N) b') [] (el', w')" "\<not> ended s'"
    "handle_read N (?c, el, ?w) = Some (Inr (), ?c\<lparr>tc_stream := s', tc_read_buffer := Some b', tc_read_triggered := False\<rparr>, el', w')"
    using going by (auto simp: Let_def)
  let ?c1 = "?c\<lparr>tc_stream := s', tc_read_buffer := Some b', tc_read_triggered := False\<rparr>"
  have wr: "handle_write N (?c1\<lparr>tc_write_triggered := True\<rparr>, el', w') = Some (Inr (), ?c1\<lparr>tc_write_triggered := True\<rparr>, el', w')"
    using c(3-6) by (simp add: handle_write_def bs_len_def)
  let ?t = "ready_is_writable (ready_from_usize val) \<or> tc_write_triggered c"
  have "handle_event N (c, el, ?w) val = Some (Inr (), ?c1\<lparr>tc_write_triggered := ?t\<rparr>, el', w')"
    using r(5) wr ev by (cases "ready_is_writable (ready_from_usize val)") (simp_all add: handle_event_def Let_def)
  then have "conn_event N i val (el, w) = Some (el', w'\<lparr>sw_conns := (sw_conns w')(i \<mapsto>
      c\<lparr>tc_stream := s', tc_read_buffer := Some b', tc_read_triggered := False, tc_write_triggered := ?t\<rparr>)\<rparr>)"
    using c(1) by (simp add: conn_event_def)
  then show ?thesis using r(1-4) by blast
qed

text \<open>An event of a connection that can be read, for a handler that takes all it is given.\<close>

lemma conn_event_spec:
  fixes w :: "('b, 's, 'h, 'l, 'v) server_world" and gotv :: "'v \<Rightarrow> u8 list"
  assumes io: "buffered_socket (nt_bytes N) (nt_stream N) incoming ended outgoing"
    and c: "sw_conns w i = Some c" "tc_read_buffer c = Some b" "bs_chunk (nt_bytes N) b = []"
      "tc_sending c = Some x" "bs_chunk (nt_bytes N) x = []" "tc_waiting c = Some y" "bs_chunk (nt_bytes N) y = []"
    and job: "takes_all N (tc_read_job c) (\<lambda>st. gotv (sw_rest (snd st)))" and going: "\<not> ended (tc_stream c)"
    and ev: "ready_is_readable (ready_from_usize val)" "\<not> ready_is_error (ready_from_usize val)" "\<not> ready_is_hup (ready_from_usize val)"
  shows "\<exists>el' w' c'. conn_event N i val (el, w) = Some (el', w') \<and>
    gotv (sw_rest w') = gotv (sw_rest w) @ incoming (tc_stream c) \<and>
    sw_conns w' i = Some c' \<and> incoming (tc_stream c') = [] \<and> \<not> ended (tc_stream c') \<and> tc_closed c' = tc_closed c"
proof -
  let ?J = "\<lambda>held rest st. held = [] \<and> gotv (sw_rest (snd st)) @ rest = gotv (sw_rest w) @ incoming (tc_stream c)"
  have keeps: "job_keeps N (tc_read_job c) ?J"
    unfolding job_keeps_def using job unfolding takes_all_def by (metis append.assoc append_Nil)
  have "?J (bs_chunk (nt_bytes N) b) (incoming (tc_stream c)) (el, w\<lparr>sw_conns := (sw_conns w)(i := None)\<rparr>)"
    by (simp add: c(3))
  from conn_event_inv[where J = ?J and R = "\<lambda>_. True", OF io c(1,2,4-7) going ev keeps TrueI TrueI this]
  show ?thesis by auto
qed

subsection \<open>Properties\<close>

text \<open>C7. An event of the listener takes in the whole backlog: every connection that waits is accepted, in
  order and however often signals interrupt, and the call returns with the backlog empty.\<close>

theorem accepts_backlog:
  assumes L: "backlog_listener L backlog interrupts" and a: "sw_acceptor w = Some a" "ac_job a = HandlerJob ()"
  shows "\<exists>l'. backlog l' = [] \<and> accept_event N V L (el, w) =
    map_option (\<lambda>(el, w). (el, w\<lparr>sw_acceptor := Some (a\<lparr>ac_listener := l'\<rparr>)\<rparr>))
      (run_all (\<lambda>stream _. on_accept_connection N V L stream) (backlog (ac_listener a)) (el, w\<lparr>sw_acceptor := None\<rparr>))"
proof -
  let ?run = "\<lambda>stream _. on_accept_connection N V L stream"
  let ?st = "(el, w\<lparr>sw_acceptor := None\<rparr>)"
  obtain l' where l': "backlog l' = []"
    "accept_loop L ?run (ac_listener a, ?st) = map_option (Pair l') (run_all ?run (backlog (ac_listener a)) ?st)"
    using backlog_listener.accept_loop_all[OF L, where run = ?run and l = "ac_listener a" and st = ?st] by blast
  have "accept_event N V L (el, w) = map_option (\<lambda>(el, w). (el, w\<lparr>sw_acceptor := Some (a\<lparr>ac_listener := l'\<rparr>)\<rparr>))
      (run_all ?run (backlog (ac_listener a)) ?st)"
    using a l'(2) by (cases "run_all ?run (backlog (ac_listener a)) ?st")
      (auto simp: accept_event_def acceptor_handle_read_def)
  then show ?thesis using l'(1) by blast
qed

text \<open>Accepting a connection makes a session for it, installs the session as the handler of reading,
  writing and closing, and registers the descriptor with the loop under the next token, with a
  job that is the connection's; the rest of the loop is left alone.\<close>

theorem accept_registers:
  assumes "session_local V" and "sv_node V (el, w) = i" and "sw_token_id w \<noteq> - 1"
    and "k_ctl (nt_epoll N) (sel_kernel (po_selector (el_poll el))) EPOLL_CTL_ADD (ls_fd L s)
      \<lparr>ee_events = ioevent_to_epoll (ready_bitor ready_readable ready_writable) opt_edge, ee_u64 = scast (ls_fd L s)\<rparr> = (Inr (), k)"
  shows "\<exists>el' w' h. on_accept_connection N V L s (el, w) = Some (el', w') \<and>
    sw_conns w' = (sw_conns w)(i \<mapsto> (conn_new N (EvSocket (ls_fd L s) (sel_id (po_selector (el_poll el)))) s)
      \<lparr>tc_read_job := HandlerJob h, tc_writ_job := HandlerJob h, tc_close_job := HandlerJob h\<rparr>) \<and>
    sw_token_id w' = sw_token_id w + 1 \<and> sw_acceptor w' = sw_acceptor w \<and>
    sel_events_map (po_selector (el_poll el')) = (sel_events_map (po_selector (el_poll el)))(ls_fd L s \<mapsto>
      \<lparr>je_token_entry = \<lparr>ttype = SocketEvent, te_token = Token (sw_token_id w + 1)\<rparr>, je_job = Job (ConnJob i),
        je_ready = ready_empty\<rparr>) \<and>
    po_queue (el_poll el') = po_queue (el_poll el) \<and> el_timer el' = el_timer el"
  by (rule accept_spec[OF assms])

text \<open>C6. From the kernel to the session: when the kernel reports that a registered connection can be read,
  one round of the event loop hands the session exactly the bytes that have come in, and the
  connection is afterwards back in its place, open, with nothing left to read.\<close>

theorem server_receives:
  fixes w :: "('b, 's, 'h, 'l, 'v) server_world" and gotv :: "'v \<Rightarrow> u8 list"
  assumes inv: "reg_inv (po_queue (el_poll el)) [] H" and pipe: "nonblocking_pipe P level cap"
    and wait: "k_wait K (sel_kernel (po_selector (el_poll el))) 4096 (select_timeout_ms timeout) = (Inr [\<lparr>ee_events = m, ee_u64 = scast (fd :: i32)\<rparr>], k)"
    and reg: "sel_events_map (po_selector (el_poll el)) fd =
      Some \<lparr>je_token_entry = \<lparr>ttype = SocketEvent, te_token = t\<rparr>, je_job = Job (ConnJob i), je_ready = r0\<rparr>"
    and io: "buffered_socket (nt_bytes N) (nt_stream N) incoming ended outgoing"
    and c: "sw_conns w i = Some c" "tc_read_buffer c = Some b" "bs_chunk (nt_bytes N) b = []"
      "tc_sending c = Some x" "bs_chunk (nt_bytes N) x = []" "tc_waiting c = Some y" "bs_chunk (nt_bytes N) y = []"
    and job: "takes_all N (tc_read_job c) (\<lambda>st. gotv (sw_rest (snd st)))" and going: "\<not> ended (tc_stream c)"
    and ev: "ready_is_readable (ready_of_epoll m)" "\<not> ready_is_error (ready_of_epoll m)" "\<not> ready_is_hup (ready_of_epoll m)"
    and C: "cb_job C = server_job N V L other"
  shows "\<exists>el' w' c'. run_once K clk P S C timeout (el, w) = Some (Inr (), el', w') \<and>
    gotv (sw_rest w') = gotv (sw_rest w) @ incoming (tc_stream c) \<and>
    sw_conns w' i = Some c' \<and> incoming (tc_stream c') = [] \<and> tc_closed c' = tc_closed c"
proof -
  let ?raw = "[\<lparr>ee_events = m, ee_u64 = scast fd\<rparr>]"
  let ?je = "\<lparr>je_token_entry = \<lparr>ttype = SocketEvent, te_token = t\<rparr>, je_job = Job (ConnJob i), je_ready = ready_of_epoll m\<rparr>"
  have io_entries: "[?je] = concat (map (dispatch_entry (sel_events_map (po_selector (el_poll el)))) ?raw)"
    using reg by (simp add: dispatch_entry_def)
  have wait': "k_wait K (sel_kernel (po_selector (el_poll el))) 4096 (select_timeout_ms (wait_time timeout [])) = (Inr ?raw, k)"
    using wait by (simp add: wait_time_def)
  have vs: "[] = visited (rq_heap (po_queue (el_poll el))) (4096 - length [?je]) []" by simp
  obtain po where run: "run_once K clk P S C timeout (el, w) =
      map_option (Pair (Inr ())) (process_all P S C ([?je] @ poll_entries (rq_heap (po_queue (el_poll el))) []) (el\<lparr>el_poll := po\<rparr>, w))"
    using run_once_spec[where clk = clk and S = S and C = C and w = w, OF inv pipe wait' _ io_entries vs] by auto
  have same: "ready_from_usize (ready_as_usize r) = r" for r
    by (cases r) (simp add: ready_from_usize_def ready_as_usize_def)
  obtain el' w' c' where e: "conn_event N i (ready_as_usize (ready_of_epoll m)) (el\<lparr>el_poll := po\<rparr>, w) = Some (el', w')"
    "gotv (sw_rest w') = gotv (sw_rest w) @ incoming (tc_stream c)"
    "sw_conns w' i = Some c'" "incoming (tc_stream c') = []" "tc_closed c' = tc_closed c"
    using conn_event_spec[where i = i and w = w and c = c and gotv = gotv, OF io c job going,
        of "ready_as_usize (ready_of_epoll m)" "el\<lparr>el_poll := po\<rparr>"] ev unfolding same by blast
  have "run_once K clk P S C timeout (el, w) = Some (Inr (), el', w')"
    unfolding run by (simp add: poll_entries_def process_entry_def C server_job_def e(1))
  then show ?thesis using e(2-5) by blast
qed

subsection \<open>Concrete inputs\<close>

text \<open>A listener that is interrupted some times and then hands out a list of connections.\<close>

definition list_listener :: "(nat \<times> (sock \<times> unit) list, sock, unit) listener_ops" where
  "list_listener = \<lparr>
     ls_accept = \<lambda>l. (case l of
         (Suc n, xs) \<Rightarrow> (Inl Interrupted, (n, xs))
       | (0, x # xs) \<Rightarrow> (Inr x, (0, xs))
       | (0, []) \<Rightarrow> (Inl WouldBlock, (0, []))),
     ls_set_nonblock = \<lambda>s. Inr (),
     ls_fd = \<lambda>s. 7\<rparr>"

interpretation list_listener: backlog_listener list_listener snd fst
  by unfold_locales (auto simp: list_listener_def split: nat.splits list.splits prod.splits)

type_synonym log_env =
  "(u8 list \<times> nat, sock, unit, nat \<times> (sock \<times> unit) list, nat, nat, string entry option list, unit, u8 list) server_env"

definition server_net :: "(u8 list \<times> nat, sock, nat, nat, unit, log_env) net" where
  "server_net = \<lparr>nt_bytes = list_bytes, nt_stream = list_socket, nt_epoll = ok_kernel, nt_pipe = count_pipe 65536,
     nt_debug = False,
     nt_recv = \<lambda>h b st. Some (([], snd b), (fst st, (snd st)\<lparr>sw_rest := sw_rest (snd st) @ fst b\<rparr>)),
     nt_written = \<lambda>h st. Some (True, st),
     nt_error = \<lambda>h st. Some st\<rparr>"

definition log_session :: "(unit, log_env) session_ops" where
  "log_session = \<lparr>sv_node = \<lambda>st. 0, sv_alloc = Some (\<lambda>st. Some ((), st)),
     sv_attach = \<lambda>h i st. Some st, sv_on_accept = \<lambda>h st. Some st\<rparr>"

definition quiet_sock :: "u8 list \<Rightarrow> sock" where
  "quiet_sock bs = \<lparr>sk_in = bs, sk_ended = False, sk_out = [], sk_room = 0\<rparr>"

definition server_conn :: "u8 list \<Rightarrow> (u8 list \<times> nat, sock, unit) tcp_connection" where
  "server_conn bs = set_read_job (conn_new server_net (EvSocket 7 1) (quiet_sock bs)) (HandlerJob ())"

definition server_queue :: "(unit loop_job, nat) rqueue" where
  "server_queue = the (rqueue_new 1 0)"

lemma server_queue_inv: "reg_inv server_queue [] (\<lambda>_. 0)"
proof -
  obtain q :: "(unit loop_job, nat) rqueue" where "rqueue_new 1 0 = Some q" "reg_inv q [] (\<lambda>_. 0)"
    using rqueue_new_reg[of 1 0] by metis
  then show ?thesis by (simp add: server_queue_def)
qed

definition server_loop :: "(unit loop_job, nat, nat, string entry option list) event_loop" where
  "server_loop = \<lparr>el_run = True, el_poll = \<lparr>
     po_selector = \<lparr>sel_id = 1, sel_kernel = 0, sel_events_map = [7 \<mapsto>
       \<lparr>je_token_entry = \<lparr>ttype = SocketEvent, te_token = Token 1\<rparr>, je_job = Job (ConnJob 0), je_ready = ready_empty\<rparr>]\<rparr>,
     po_queue = server_queue\<rparr>, el_timer = one_timer\<rparr>"

definition log_world :: "u8 list \<Rightarrow> (u8 list \<times> nat, sock, unit, nat \<times> (sock \<times> unit) list, u8 list) server_world" where
  "log_world bs = \<lparr>sw_conns = [0 \<mapsto> server_conn bs],
     sw_acceptor = Some \<lparr>ac_listener = (2, [(quiet_sock [], ())]), ac_handle = EvSocket 5 1, ac_is_listening = True,
       ac_job = HandlerJob ()\<rparr>,
     sw_token_id = 0, sw_rest = []\<rparr>"

definition server_callbacks :: "(unit loop_job, string, nat, nat, string entry option list,
    (u8 list \<times> nat, sock, unit, nat \<times> (sock \<times> unit) list, u8 list) server_world) callbacks" where
  "server_callbacks = \<lparr>cb_now = \<lambda>w. duration_zero, cb_job = server_job server_net log_session list_listener (\<lambda>v _. Some),
     cb_timer = \<lambda>t. Some\<rparr>"

lemma log_session_local: "session_local log_session"
  unfolding session_local_def
proof (intro conjI)
  have u: "w\<lparr>sw_rest := sw_rest w\<rparr> = w" for w :: "(u8 list \<times> nat, sock, unit, nat \<times> (sock \<times> unit) list, u8 list) server_world"
    by simp
  show "\<exists>alloc. sv_alloc log_session = Some alloc \<and> (\<forall>el w. \<exists>h v. alloc (el, w) = Some (h, el, w\<lparr>sw_rest := v\<rparr>))"
    by (simp add: log_session_def) (metis u)
  show "\<forall>h i el w. \<exists>v. sv_attach log_session h i (el, w) = Some (el, w\<lparr>sw_rest := v\<rparr>)"
    by (simp add: log_session_def) (metis u)
  show "\<forall>h el w. \<exists>v. sv_on_accept log_session h (el, w) = Some (el, w\<lparr>sw_rest := v\<rparr>)"
    by (simp add: log_session_def) (metis u)
qed

theorem accepts_backlog_witness:
  "\<exists>l'. snd l' = [] \<and> accept_event server_net log_session list_listener (server_loop, log_world []) =
    map_option (\<lambda>(el, w). (el, w\<lparr>sw_acceptor := Some \<lparr>ac_listener = l', ac_handle = EvSocket 5 1, ac_is_listening = True,
       ac_job = HandlerJob ()\<rparr>\<rparr>))
      (on_accept_connection server_net log_session list_listener (quiet_sock []) (server_loop, (log_world [])\<lparr>sw_acceptor := None\<rparr>))"
proof -
  have a: "sw_acceptor (log_world []) = Some \<lparr>ac_listener = (2, [(quiet_sock [], ())]), ac_handle = EvSocket 5 1,
      ac_is_listening = True, ac_job = HandlerJob ()\<rparr>" by (simp add: log_world_def)
  from accepts_backlog[OF list_listener.backlog_listener_axioms a, of server_net log_session server_loop]
  show ?thesis by (simp add: run_all_end)
qed

theorem accept_registers_witness:
  "\<exists>el' w'. on_accept_connection server_net log_session list_listener (quiet_sock [1]) (server_loop, log_world []) = Some (el', w') \<and>
     sw_token_id w' = 1"
proof -
  have i: "sv_node log_session (server_loop, log_world []) = 0" by (simp add: log_session_def)
  have t: "sw_token_id (log_world []) \<noteq> - 1" by (simp add: log_world_def)
  have k: "k_ctl (nt_epoll server_net) (sel_kernel (po_selector (el_poll server_loop))) EPOLL_CTL_ADD (ls_fd list_listener (quiet_sock [1]))
      \<lparr>ee_events = ioevent_to_epoll (ready_bitor ready_readable ready_writable) opt_edge, ee_u64 = scast (ls_fd list_listener (quiet_sock [1]))\<rparr> =
      (Inr (), 1)"
    by (simp add: server_net_def ok_kernel_def server_loop_def)
  from accept_registers[OF log_session_local i t k] show ?thesis by (auto simp: log_world_def)
qed

lemma epollin_ready: "ready_is_readable (ready_of_epoll 1)" "\<not> ready_is_error (ready_of_epoll 1)" "\<not> ready_is_hup (ready_of_epoll 1)"
  by code_simp+

theorem server_receives_witness:
  "\<exists>el' w'. run_once one_event_kernel ms_clock (count_pipe 65536) vec_slab server_callbacks None (server_loop, log_world [1, 2, 3]) =
     Some (Inr (), el', w') \<and> sw_rest w' = [1, 2, 3]"
proof -
  let ?w = "log_world [1, 2, 3]"
  have inv: "reg_inv (po_queue (el_poll server_loop)) [] (\<lambda>_. 0)" using server_queue_inv by (simp add: server_loop_def)
  have wait: "k_wait one_event_kernel (sel_kernel (po_selector (el_poll server_loop))) 4096 (select_timeout_ms None) =
      (Inr [\<lparr>ee_events = 1, ee_u64 = scast (7 :: i32)\<rparr>], 1)"
    by (simp add: one_event_kernel_def server_loop_def)
  have reg: "sel_events_map (po_selector (el_poll server_loop)) 7 =
      Some \<lparr>je_token_entry = \<lparr>ttype = SocketEvent, te_token = Token 1\<rparr>, je_job = Job (ConnJob 0), je_ready = ready_empty\<rparr>"
    by (simp add: server_loop_def)
  have io: "buffered_socket (nt_bytes server_net) (nt_stream server_net) sk_in sk_ended sk_out"
    using list_io.buffered_socket_axioms by (simp add: server_net_def)
  have c: "sw_conns ?w 0 = Some (server_conn [1, 2, 3])" by (simp add: log_world_def)
  have b: "tc_read_buffer (server_conn [1, 2, 3]) = Some ([], 1024)" "tc_sending (server_conn [1, 2, 3]) = Some ([], 1024)"
    "tc_waiting (server_conn [1, 2, 3]) = Some ([], 1024)" "bs_chunk (nt_bytes server_net) ([], 1024) = []"
    "\<not> sk_ended (tc_stream (server_conn [1, 2, 3]))" "sk_in (tc_stream (server_conn [1, 2, 3])) = [1, 2, 3]"
    by (simp_all add: server_conn_def set_read_job_def conn_new_def server_net_def list_bytes_def quiet_sock_def)
  have j: "takes_all server_net (tc_read_job (server_conn [1, 2, 3])) (\<lambda>st. (\<lambda>v. v) (sw_rest (snd st)))"
    by (simp add: takes_all_def server_conn_def set_read_job_def run_read_job_def server_net_def list_bytes_def)
  have C: "cb_job server_callbacks = server_job server_net log_session list_listener (\<lambda>v _. Some)"
    by (simp add: server_callbacks_def)
  from server_receives[OF inv count_pipe.nonblocking_pipe_axioms wait reg io c b(1,4,2,4,3,4) j b(5) epollin_ready C,
      where clk = ms_clock and S = vec_slab]
  show ?thesis using b(6) by (auto simp: log_world_def)
qed

end
