(* ===== verification/Handlers.thy ===== *)
theory Handlers
  imports Server
begin

section \<open>What the handlers of the example programs share\<close>

text \<open>
  The handlers of \<open>examples/\<close> look at a connection through a weak reference, lock it inside a job, and
  give jobs to the current loop of their thread, which is the loop that runs them. Whether a weak
  reference can still be upgraded and the address of the next node are parameters.
\<close>

record 'e handler_env =
  he_alive :: "'e \<Rightarrow> nat \<Rightarrow> bool"
  he_node :: "'e \<Rightarrow> nat"

definition upgrade :: "'e handler_env \<Rightarrow> 'e \<Rightarrow> nat option \<Rightarrow> nat option" where
  "upgrade E st conn = (case conn of Some i \<Rightarrow> if he_alive E st i then Some i else None | None \<Rightarrow> None)"

definition enqueue_current ::
    "'p pipe_ops \<Rightarrow> ('j, 'k, 'p, 't, 'w) world handler_env \<Rightarrow> 'j \<Rightarrow> ('j, 'k, 'p, 't, 'w) world
       \<Rightarrow> ('j, 'k, 'p, 't, 'w) world option" where
  "enqueue_current P E j st =
     (case st of (el, w) \<Rightarrow>
        do { q \<leftarrow> enqueue_job P (po_queue (el_poll el)) (he_node E (el, w)) (Job j);
             Some (el\<lparr>el_poll := (el_poll el)\<lparr>po_queue := q\<rparr>\<rparr>, w) })"

text \<open>A connection locked while \<open>f\<close> runs.\<close>

definition with_conn ::
    "nat \<Rightarrow> (('b, 's, 'h) tcp_connection \<times> ('b, 's, 'h, 'l, 'k, 'p, 't, 'o, 'v) server_env
         \<Rightarrow> ('x \<times> ('b, 's, 'h) tcp_connection \<times> ('b, 's, 'h, 'l, 'k, 'p, 't, 'o, 'v) server_env) option)
       \<Rightarrow> ('b, 's, 'h, 'l, 'k, 'p, 't, 'o, 'v) server_env \<Rightarrow> ('x \<times> ('b, 's, 'h, 'l, 'k, 'p, 't, 'o, 'v) server_env) option" where
  "with_conn i f st =
     (case st of (el, w) \<Rightarrow>
        do { c \<leftarrow> sw_conns w i;
             (x, c, el, w) \<leftarrow> f (c, el, w\<lparr>sw_conns := (sw_conns w)(i := None)\<rparr>);
             Some (x, el, w\<lparr>sw_conns := (sw_conns w)(i \<mapsto> c)\<rparr>) })"

text \<open>An object of the handlers' part of the world locked while \<open>f\<close> runs: \<open>get\<close> and \<open>upd\<close> are the field of its table.\<close>

definition with_obj ::
    "('v \<Rightarrow> nat \<rightharpoonup> 'o) \<Rightarrow> (((nat \<rightharpoonup> 'o) \<Rightarrow> nat \<rightharpoonup> 'o) \<Rightarrow> 'v \<Rightarrow> 'v) \<Rightarrow> nat
       \<Rightarrow> ('o \<times> ('b, 's, 'h, 'l, 'k, 'p, 't, 'j, 'v) server_env
         \<Rightarrow> ('x \<times> 'o \<times> ('b, 's, 'h, 'l, 'k, 'p, 't, 'j, 'v) server_env) option)
       \<Rightarrow> ('b, 's, 'h, 'l, 'k, 'p, 't, 'j, 'v) server_env \<Rightarrow> ('x \<times> ('b, 's, 'h, 'l, 'k, 'p, 't, 'j, 'v) server_env) option" where
  "with_obj get upd a f st =
     (case st of (el, w) \<Rightarrow>
        do { x \<leftarrow> get (sw_rest w) a;
             (r, x, el, w) \<leftarrow> f (x, el, w\<lparr>sw_rest := upd (\<lambda>m. m(a := None)) (sw_rest w)\<rparr>);
             Some (r, el, w\<lparr>sw_rest := upd (\<lambda>m. m(a \<mapsto> x)) (sw_rest w)\<rparr>) })"

text \<open>A field of a record that is a table of objects; locking an object that is put back as it was changes nothing.\<close>

locale object_table =
  fixes get :: "'v \<Rightarrow> nat \<rightharpoonup> 'o" and upd :: "((nat \<rightharpoonup> 'o) \<Rightarrow> nat \<rightharpoonup> 'o) \<Rightarrow> 'v \<Rightarrow> 'v"
  assumes get_upd: "get (upd f v) = f (get v)" and upd_upd: "upd f (upd g v) = upd (\<lambda>m. f (g m)) v"
    and upd_idem: "f (get v) = get v \<Longrightarrow> upd f v = v"
begin

lemma restore: "get v a = Some x \<Longrightarrow> upd (\<lambda>m. m(a \<mapsto> x)) (upd (\<lambda>m. m(a := None)) v) = v"
  by (simp add: upd_upd upd_idem fun_upd_idem)

lemma with_obj_keep:
  assumes "get (sw_rest w) a = Some x" and "sw_rest w' = sw_rest w"
    and "f (x, el, w\<lparr>sw_rest := upd (\<lambda>m. m(a := None)) (sw_rest w)\<rparr>) =
      Some (r, x, el', w'\<lparr>sw_rest := upd (\<lambda>m. m(a := None)) (sw_rest w)\<rparr>)"
  shows "with_obj get upd a f (el, w) = Some (r, el', w')"
proof -
  have "w'\<lparr>sw_rest := sw_rest w\<rparr> = w'" using assms(2) by (cases w') simp
  then show ?thesis using assms by (simp add: with_obj_def restore)
qed

end

text \<open>\<open>conn.send(bytes).unwrap()\<close>.\<close>

definition send_unwrap ::
    "('b, 's, 'k, 'p, 'h, ('j, 'k, 'p, 't, 'w) world) net \<Rightarrow> 'b \<Rightarrow> ('b, 's, 'h) tcp_connection \<times> ('j, 'k, 'p, 't, 'w) world
       \<Rightarrow> (nat \<times> ('b, 's, 'h) tcp_connection \<times> ('j, 'k, 'p, 't, 'w) world) option" where
  "send_unwrap N bytes cst = do { (r, cst) \<leftarrow> conn_send N cst bytes; n \<leftarrow> unwrap r; Some (n, cst) }"

text \<open>A connection that takes what it is sent: open for writing, with nothing left to write.\<close>

definition can_send :: "('b, 's, 'k, 'p, 'h, 'e) net \<Rightarrow> ('b, 's, 'h) tcp_connection \<Rightarrow> bool" where
  "can_send N c \<longleftrightarrow> tc_write_enabled c \<and> (\<exists>x y. tc_sending c = Some x \<and> bs_chunk (nt_bytes N) x = [] \<and>
     tc_waiting c = Some y \<and> bs_chunk (nt_bytes N) y = [])"

text \<open>The allocator: as long as the heap is finite there is room for another node.\<close>

definition fresh_nodes :: "('j, 'k, 'p, 't, 'w) world handler_env \<Rightarrow> bool" where
  "fresh_nodes E \<longleftrightarrow> (\<forall>el w. finite (dom (rq_heap (po_queue (el_poll el)))) \<longrightarrow> rq_heap (po_queue (el_poll el)) (Node (he_node E (el, w))) = None)"

lemma enqueue_current_queued:
  assumes "queued (po_queue (el_poll el)) js" and "fresh_nodes E" and "pipe_accepts P"
  shows "\<exists>q. enqueue_current P E j (el, w) = Some (el\<lparr>el_poll := (el_poll el)\<lparr>po_queue := q\<rparr>\<rparr>, w) \<and> queued q (js @ [Job j])"
proof -
  have "rq_heap (po_queue (el_poll el)) (Node (he_node E (el, w))) = None"
    using assms(1,2) unfolding queued_def fresh_nodes_def by blast
  from enqueue_queued[OF assms(1) this assms(3), of "Job j"] show ?thesis by (auto simp: enqueue_current_def)
qed

lemmas same_jobs_dom = same_jobs_entry(1)

lemma same_jobs_job:
  assumes "same_jobs m m'" and "m fd = Some je"
  shows "\<exists>je'. m' fd = Some je' \<and> je_job je' = je_job je \<and> je_token_entry je' = je_token_entry je"
proof -
  have "Some (je\<lparr>je_ready := ready_empty\<rparr>) = map_option (\<lambda>je. je\<lparr>je_ready := ready_empty\<rparr>) (m' fd)"
    using assms unfolding same_jobs_def by (metis option.map(2))
  then obtain je' where je': "m' fd = Some je'" "je\<lparr>je_ready := ready_empty\<rparr> = je'\<lparr>je_ready := ready_empty\<rparr>"
    by (cases "m' fd") auto
  have "je_job je' = je_job je" "je_token_entry je' = je_token_entry je"
    using arg_cong[OF je'(2), of je_job] arg_cong[OF je'(2), of je_token_entry] by simp_all
  then show ?thesis using je'(1) by simp
qed

lemma ready_usize [simp]: "ready_from_usize (ready_as_usize r) = r"
  by (cases r) (simp add: ready_from_usize_def ready_as_usize_def)

text \<open>One round whose only event is that of a connection, on an empty queue: the round is the connection's event.\<close>

lemma conn_round:
  assumes q: "queued (po_queue (el_poll el)) []" and pipe: "nonblocking_pipe P level cap"
    and wait: "k_wait K (sel_kernel (po_selector (el_poll el))) 4096 (select_timeout_ms timeout) = (Inr [\<lparr>ee_events = m, ee_u64 = scast (fd :: i32)\<rparr>], k)"
    and reg: "sel_events_map (po_selector (el_poll el)) fd =
      Some \<lparr>je_token_entry = \<lparr>ttype = SocketEvent, te_token = t\<rparr>, je_job = Job (ConnJob i), je_ready = r0\<rparr>"
    and C: "cb_job C = server_job N V L other"
  shows "\<exists>po. queued (po_queue po) [] \<and> same_jobs (sel_events_map (po_selector (el_poll el))) (sel_events_map (po_selector po)) \<and>
    sel_id (po_selector po) = sel_id (po_selector (el_poll el)) \<and> sel_kernel (po_selector po) = k \<and>
    run_once K clk P S C timeout (el, w) =
      map_option (Pair (Inr ())) (conn_event N i (ready_as_usize (ready_of_epoll m)) (el\<lparr>el_poll := po\<rparr>, w))"
proof -
  let ?raw = "[\<lparr>ee_events = m, ee_u64 = scast fd\<rparr>]"
  have io: "[\<lparr>je_token_entry = \<lparr>ttype = SocketEvent, te_token = t\<rparr>, je_job = Job (ConnJob i), je_ready = ready_of_epoll m\<rparr>] =
      concat (map (dispatch_entry (sel_events_map (po_selector (el_poll el)))) ?raw)"
    using reg by (simp add: dispatch_entry_def)
  have wait': "k_wait K (sel_kernel (po_selector (el_poll el))) 4096 (select_timeout_ms (if [] = [] then timeout else Some (from_millis 0))) =
      (Inr ?raw, k)" using wait by simp
  have len: "length ?raw + length ([] :: 'd loop_job job list) \<le> 4096" by simp
  from queued_round[where clk = clk and S = S and C = C and w = w, OF q pipe wait' _ io]
  show ?thesis by (auto simp: process_entry_def C server_job_def map_conv_bind_option comp_def)
qed

subsection \<open>Concrete inputs\<close>

text \<open>A kernel that first reports one event of descriptor 7 and then nothing, and a loop where that is a connection's;
  an allocator that takes the smallest free address.\<close>

definition once_kernel :: "u32 \<Rightarrow> nat epoll_ops" where
  "once_kernel m = \<lparr>k_ctl = \<lambda>k _ _ _. (Inr (), k),
     k_wait = \<lambda>k _ _. if k = 0 then (Inr [\<lparr>ee_events = m, ee_u64 = 7\<rparr>], 1) else (Inr [], k)\<rparr>"

definition list_net :: "u32 \<Rightarrow> (u8 list \<times> nat, sock, nat, nat, 'h, 'e) net" where
  "list_net m = \<lparr>nt_bytes = list_bytes, nt_stream = list_socket, nt_epoll = once_kernel m, nt_pipe = count_pipe 65536,
     nt_debug = False, nt_recv = \<lambda>h b st. Some (b, st), nt_written = \<lambda>h st. Some (True, st), nt_error = \<lambda>h. Some\<rparr>"

lemma epollout_ready: "ready_is_writable (ready_of_epoll 4)"
  by code_simp

definition least_env :: "('j, 'k, 'p, 't, 'w) world handler_env" where
  "least_env = \<lparr>he_alive = \<lambda>_ _. True,
     he_node = \<lambda>st. LEAST n. rq_heap (po_queue (el_poll (fst st))) (Node n) = None\<rparr>"

lemma least_env_fresh: "fresh_nodes least_env"
  unfolding fresh_nodes_def
proof (intro allI impI)
  fix el :: "('j, 'k, 'p, 't) event_loop" and w :: 'w
  let ?h = "rq_heap (po_queue (el_poll el))"
  assume "finite (dom ?h)"
  then have "finite (Node -` dom ?h)" by (simp add: finite_vimageI inj_def)
  then obtain n where "n \<notin> Node -` dom ?h" using ex_new_if_finite infinite_UNIV_nat by blast
  then have "?h (Node n) = None" by auto
  then have "?h (Node (LEAST n. ?h (Node n) = None)) = None" by (rule LeastI)
  then show "?h (Node (he_node least_env (el, w))) = None" by (simp add: least_env_def)
qed

definition request_loop :: "('o loop_job, nat, nat, string entry option list) event_loop" where
  "request_loop = \<lparr>el_run = True, el_poll = \<lparr>
     po_selector = \<lparr>sel_id = 1, sel_kernel = 0, sel_events_map = [7 \<mapsto>
       \<lparr>je_token_entry = \<lparr>ttype = SocketEvent, te_token = Token 1\<rparr>, je_job = Job (ConnJob 0), je_ready = ready_empty\<rparr>]\<rparr>,
     po_queue = the (rqueue_new 1 0)\<rparr>, el_timer = one_timer\<rparr>"

lemma new_queued: "queued (the (rqueue_new 1 0 :: ('j, nat) rqueue option)) []"
proof -
  obtain q :: "('j, nat) rqueue" where q: "rqueue_new 1 0 = Some q" "reg_inv q [] (\<lambda>_. 0)"
    using rqueue_new_reg[of 1 0] by metis
  then have "finite (dom (rq_heap q))" by (auto simp: rqueue_new_def bind_Some_iff)
  then have "queued q []" by (rule queued_empty[OF q(2)])
  then show ?thesis using q(1) by simp
qed

lemma request_loop_queued: "queued (po_queue (el_poll request_loop)) []"
  by (simp add: request_loop_def new_queued[simplified])

end
