(* ===== verification/TestServer.thy ===== *)
theory TestServer
  imports Handlers
begin

section \<open>The example server\<close>

text \<open>
  \<open>examples/tcp_server.rs\<close>: the handler \<open>Test\<close> answers a request with a fixed response and closes. Sessions live
  in a map from their addresses, where a locked one is absent; the response is sent by a job that
  \<open>on_recv\<close> gives to the loop.
\<close>

record test = te_conn :: "nat option"

datatype test_job = SendResponse nat

type_synonym ('b, 's, 'l, 'k, 'p, 't) test_env = "('b, 's, nat, 'l, 'k, 'p, 't, test_job, nat \<rightharpoonup> test) server_env"

definition crlf :: string where
  "crlf = [CHR 0x0D, CHR 0x0A]"

definition http_response :: "u8 list" where
  "http_response = map of_char (''HTTP/1.1 200 OK'' @ crlf @ ''Set-Cookie:k1=v1'' @ crlf @ ''Content-Length: 15'' @ crlf @
     ''Connection: Keep-Alive'' @ crlf @ crlf @ ''abcdefghijkldef'')"

lemma http_response_length: "length http_response = 96"
  by code_simp

subsection \<open>The handler\<close>

definition test_new :: test where
  "test_new = \<lparr>te_conn = None\<rparr>"

definition test_attach_connection :: "nat \<Rightarrow> test \<Rightarrow> test" where
  "test_attach_connection conn s = s\<lparr>te_conn := Some conn\<rparr>"

definition test_free_connection :: "test \<Rightarrow> test" where
  "test_free_connection s = s\<lparr>te_conn := None\<rparr>"

definition test_on_accept :: "test \<Rightarrow> test" where
  "test_on_accept s = s"

definition test_on_recv ::
    "('b, 's, 'k, 'p, nat, ('b, 's, 'l, 'k, 'p, 't) test_env) net \<Rightarrow> ('b, 's, 'l, 'k, 'p, 't) test_env handler_env
       \<Rightarrow> 'b \<Rightarrow> test \<times> ('b, 's, 'l, 'k, 'p, 't) test_env \<Rightarrow> ('b \<times> test \<times> ('b, 's, 'l, 'k, 'p, 't) test_env) option" where
  "test_on_recv N E bytes sst =
     (case sst of (s, st) \<Rightarrow>
        if bs_len (nt_bytes N) bytes \<le> 0 then Some (bytes, s, st)
        else do { bytes \<leftarrow> bs_advance (nt_bytes N) bytes (bs_len (nt_bytes N) bytes);
                  case upgrade E st (te_conn s) of
                    None \<Rightarrow> Some (bytes, s, st)
                  | Some conn \<Rightarrow>
                      do { st \<leftarrow> enqueue_current (nt_pipe N) E (OtherJob (SendResponse conn)) st;
                           Some (bytes, s, st) } })"

definition test_on_written :: "test \<Rightarrow> bool \<times> test" where
  "test_on_written s = (False, test_free_connection s)"

definition test_on_error :: "test \<Rightarrow> test" where
  "test_on_error s = s"

text \<open>A session locked while \<open>f\<close> runs.\<close>

definition with_test ::
    "nat \<Rightarrow> (test \<times> ('b, 's, 'l, 'k, 'p, 't) test_env \<Rightarrow> ('x \<times> test \<times> ('b, 's, 'l, 'k, 'p, 't) test_env) option)
       \<Rightarrow> ('b, 's, 'l, 'k, 'p, 't) test_env \<Rightarrow> ('x \<times> ('b, 's, 'l, 'k, 'p, 't) test_env) option" where
  "with_test h f st = with_obj (\<lambda>sessions. sessions) (\<lambda>f. f) h f st"

text \<open>The handler as the connection and the server call it; \<open>node\<close> and \<open>session\<close> are addresses of new objects.\<close>

definition test_net ::
    "('b, 's, 'k, 'p, nat, ('b, 's, 'l, 'k, 'p, 't) test_env) net \<Rightarrow> ('b, 's, 'l, 'k, 'p, 't) test_env handler_env
       \<Rightarrow> ('b, 's, 'k, 'p, nat, ('b, 's, 'l, 'k, 'p, 't) test_env) net" where
  "test_net N E = N\<lparr>
     nt_recv := \<lambda>h bytes. with_test h (test_on_recv N E bytes),
     nt_written := \<lambda>h. with_test h (\<lambda>(s, st). case test_on_written s of (r, s) \<Rightarrow> Some (r, s, st)),
     nt_error := \<lambda>h st. map_option snd (with_test h (\<lambda>(s, st). Some ((), test_on_error s, st)) st)\<rparr>"

definition test_sessions ::
    "(('b, 's, 'l, 'k, 'p, 't) test_env \<Rightarrow> nat) \<Rightarrow> (('b, 's, 'l, 'k, 'p, 't) test_env \<Rightarrow> nat)
       \<Rightarrow> (nat, ('b, 's, 'l, 'k, 'p, 't) test_env) session_ops" where
  "test_sessions node session = \<lparr>
     sv_node = node,
     sv_alloc = Some (\<lambda>(el, w). let h = session (el, w) in Some (h, el, w\<lparr>sw_rest := (sw_rest w)(h \<mapsto> test_new)\<rparr>)),
     sv_attach = \<lambda>h i st. map_option snd (with_test h (\<lambda>(s, st). Some ((), test_attach_connection i s, st)) st),
     sv_on_accept = \<lambda>h st. map_option snd (with_test h (\<lambda>(s, st). Some ((), test_on_accept s, st)) st)\<rparr>"

text \<open>The job of \<open>on_recv\<close>; \<open>mk\<close> makes a buffer of bytes.\<close>

definition test_run_job ::
    "('b, 's, 'k, 'p, nat, ('b, 's, 'l, 'k, 'p, 't) test_env) net \<Rightarrow> (u8 list \<Rightarrow> 'b) \<Rightarrow> test_job \<Rightarrow> usize
       \<Rightarrow> ('b, 's, 'l, 'k, 'p, 't) test_env \<Rightarrow> ('b, 's, 'l, 'k, 'p, 't) test_env option" where
  "test_run_job N mk job _ st =
     (case job of SendResponse conn \<Rightarrow> map_option snd (with_conn conn (send_unwrap N (mk http_response)) st))"

text \<open>What \<open>main\<close> does with each loop of the pool.\<close>

definition test_serve ::
    "'k epoll_ops \<Rightarrow> 'p pipe_ops \<Rightarrow> 'l \<Rightarrow> i32 \<Rightarrow> (test_job loop_job, 'k, 'p, 't) event_loop
       \<Rightarrow> ('b, 's, 'l, 'k, 'p, 't) test_env option" where
  "test_serve K P listener fd poller = start_internal K P (poller, server_new listener fd (\<lambda>_. None))"

subsection \<open>What the parts do\<close>

lemma test_net_simps [simp]: "nt_bytes (test_net N E) = nt_bytes N" "nt_stream (test_net N E) = nt_stream N"
  "nt_epoll (test_net N E) = nt_epoll N" "nt_pipe (test_net N E) = nt_pipe N" "nt_debug (test_net N E) = nt_debug N"
  "nt_recv (test_net N E) h bytes = with_test h (test_on_recv N E bytes)"
  "nt_written (test_net N E) h = with_test h (\<lambda>(s, st). case test_on_written s of (r, s) \<Rightarrow> Some (r, s, st))"
  "nt_error (test_net N E) h st = map_option snd (with_test h (\<lambda>(s, st). Some ((), test_on_error s, st)) st)"
  by (simp_all add: test_net_def)

text \<open>What is true while the request comes in: every chunk that has been taken is a job.\<close>

definition answering ::
    "nat \<Rightarrow> u8 list \<Rightarrow> ('b, 's, 'l, 'k, 'p, 't) test_env \<Rightarrow> u8 list \<Rightarrow> u8 list \<Rightarrow> ('b, 's, 'l, 'k, 'p, 't) test_env \<Rightarrow> bool" where
  "answering i request st0 held rest st \<longleftrightarrow>
     held = [] \<and> snd st = snd st0 \<and> po_selector (el_poll (fst st)) = po_selector (el_poll (fst st0)) \<and>
     (\<exists>n. queued (po_queue (el_poll (fst st))) (replicate n (Job (OtherJob (SendResponse i)))) \<and>
        n + length rest \<le> length request \<and> (n = 0 \<longrightarrow> rest = request))"

lemma request_taken:
  fixes N :: "('b, 's, 'k, 'p, nat, ('b, 's, 'l, 'k, 'p, 't) test_env) net"
  assumes B: "byte_buffer (nt_bytes N)" and s: "sw_rest w h = Some s" "te_conn s = Some i"
    and E: "fresh_nodes E" "\<And>st. he_alive E st i" and P: "pipe_accepts (nt_pipe N)"
  shows "job_keeps (test_net N E) (HandlerJob h) (answering i request (el, w))"
  unfolding job_keeps_def
proof (intro allI impI)
  fix held bs rest b and st :: "('b, 's, 'l, 'k, 'p, 't) test_env"
  assume J: "answering i request (el, w) held (bs @ rest) st" and b: "bs_chunk (nt_bytes (test_net N E)) b = held @ bs"
  obtain el1 where st: "st = (el1, w)" "held = []" "po_selector (el_poll el1) = po_selector (el_poll el)"
    using J by (cases st) (auto simp: answering_def)
  obtain n where n: "queued (po_queue (el_poll el1)) (replicate n (Job (OtherJob (SendResponse i))))"
    "n + length (bs @ rest) \<le> length request" "n = 0 \<longrightarrow> bs @ rest = request"
    using J unfolding answering_def st(1) by auto
  have w: "w\<lparr>sw_rest := (sw_rest w)(h \<mapsto> s)\<rparr> = w" using s(1) by (simp add: fun_upd_idem)
  show "\<exists>b' st'. run_read_job (test_net N E) (HandlerJob h) b st = Some (b', st') \<and>
      answering i request (el, w) (bs_chunk (nt_bytes (test_net N E)) b') rest st'"
  proof (cases "bs = []")
    case True
    then show ?thesis
      using J b s w st by (intro exI[of _ b] exI[of _ st]) (simp add: run_read_job_def with_test_def with_obj_def test_on_recv_def bs_len_def)
  next
    case False
    have c: "bs_chunk (nt_bytes N) b = bs" using b st(2) by simp
    obtain b' where b': "bs_advance (nt_bytes N) b (length bs) = Some b'" "bs_chunk (nt_bytes N) b' = []"
      using byte_buffer.chunk_advance[OF B, of "length bs" b] c by auto
    obtain q where q: "enqueue_current (nt_pipe N) E (OtherJob (SendResponse i)) (el1, w\<lparr>sw_rest := (sw_rest w)(h := None)\<rparr>) =
        Some (el1\<lparr>el_poll := (el_poll el1)\<lparr>po_queue := q\<rparr>\<rparr>, w\<lparr>sw_rest := (sw_rest w)(h := None)\<rparr>)"
      "queued q (replicate n (Job (OtherJob (SendResponse i))) @ [Job (OtherJob (SendResponse i))])"
      using enqueue_current_queued[OF n(1) E(1) P] by blast
    let ?st' = "(el1\<lparr>el_poll := (el_poll el1)\<lparr>po_queue := q\<rparr>\<rparr>, w)"
    have run: "run_read_job (test_net N E) (HandlerJob h) b st = Some (b', ?st')"
      using s E(2) q(1) b'(1) c False w
      by (simp add: st(1) run_read_job_def with_test_def with_obj_def test_on_recv_def bs_len_def upgrade_def)
    have "0 < length bs" using False by simp
    then have "Suc n + length rest \<le> length request" using n(2) unfolding length_append by linarith
    then have "answering i request (el, w) (bs_chunk (nt_bytes N) b') rest ?st'"
      using q(2) b'(2) st(3) unfolding answering_def by (auto simp: replicate_append_same intro!: exI[of _ "Suc n"])
    then show ?thesis using run by auto
  qed
qed

text \<open>The response is sent by the first of the jobs, which closes the connection, so that the others send nothing.\<close>

lemma closed_response:
  assumes "sw_conns w i = Some c" and "\<not> tc_write_enabled c"
  shows "test_run_job N mk (SendResponse i) r (el, w) = Some (el, w)"
proof -
  have "w\<lparr>sw_conns := (sw_conns w)(i \<mapsto> c)\<rparr> = w" using assms(1) by (simp add: fun_upd_idem)
  then show ?thesis using assms by (simp add: test_run_job_def with_conn_def send_unwrap_def conn_send_def)
qed

lemma closed_responses:
  assumes "sw_conns w i = Some c" and "\<not> tc_write_enabled c"
    and C: "cb_job C = server_job N V L (test_run_job N mk)"
  shows "run_jobs C (replicate n (Job (OtherJob (SendResponse i)))) (el, w) = Some (el, w)"
  by (induction n) (simp_all add: C server_job_def closed_response[OF assms(1,2)])

lemma first_response:
  assumes io: "roomy_socket (nt_bytes N) (nt_stream N) incoming ended outgoing room"
    and mk: "\<And>bs. bs_chunk (nt_bytes N) (mk bs) = bs"
    and c: "sw_conns w i = Some c" "tc_sending c = Some x" "bs_chunk (nt_bytes N) x = []"
      "tc_waiting c = Some y" "bs_chunk (nt_bytes N) y = []" "tc_write_enabled c" "\<not> tc_closed c" "96 \<le> room (tc_stream c)"
    and jobs: "tc_writ_job c = HandlerJob h" "tc_close_job c = HandlerJob h" and s: "sw_rest w h = Some s"
    and fd: "tc_handle c = EvSocket fd sid"
    and del: "k_ctl (nt_epoll N) (sel_kernel (po_selector (el_poll el))) EPOLL_CTL_DEL fd \<lparr>ee_events = 0, ee_u64 = 0\<rparr> = (Inr (), k)"
    and known: "sel_events_map (po_selector (el_poll el)) fd \<noteq> None"
  shows "\<exists>el' w' c'. test_run_job (test_net N E) mk (SendResponse i) r (el, w) = Some (el', w') \<and>
    sw_conns w' i = Some c' \<and> outgoing (tc_stream c') = outgoing (tc_stream c) @ http_response \<and>
    tc_closed c' \<and> \<not> tc_write_enabled c' \<and>
    sel_events_map (po_selector (el_poll el')) = (sel_events_map (po_selector (el_poll el)))(fd := None)"
proof -
  let ?N = "test_net N E" and ?w = "w\<lparr>sw_conns := (sw_conns w)(i := None)\<rparr>"
  let ?w1 = "?w\<lparr>sw_rest := (sw_rest w)(h \<mapsto> test_free_connection s)\<rparr>"
  have io': "roomy_socket (nt_bytes ?N) (nt_stream ?N) incoming ended outgoing room" using io by simp
  have b: "bs_chunk (nt_bytes ?N) (mk http_response) = http_response" by (simp add: mk)
  have r: "bs_chunk (nt_bytes ?N) (mk http_response) \<noteq> []" "length (bs_chunk (nt_bytes ?N) (mk http_response)) \<le> room (tc_stream c)"
    using http_response_length c(8) unfolding b by auto
  have e: "bs_chunk (nt_bytes ?N) x = []" "bs_chunk (nt_bytes ?N) y = []" using c by simp_all
  obtain s' y' where send: "outgoing s' = outgoing (tc_stream c) @ http_response"
    "conn_send ?N (c, el, ?w) (mk http_response) = map_option (Pair (Inr (bs_len (nt_bytes ?N) (mk http_response))))
      (let c' = c\<lparr>tc_waiting := Some y', tc_stream := s', tc_write_triggered := False\<rparr>
       in do { (ret, st) \<leftarrow> run_writ_job ?N (tc_writ_job c) (el, ?w);
               if ret then Some (c', st) else close_unwrap ?N (c', st) })"
    using send_fits[OF io' c(2) e(1) c(4) e(2) c(6) r, of "(el, ?w)"] unfolding b by blast
  let ?c = "c\<lparr>tc_waiting := Some y', tc_stream := s', tc_write_triggered := False\<rparr>"
  have w: "run_writ_job ?N (tc_writ_job c) (el, ?w) = Some (False, el, ?w1)"
    using s jobs by (simp add: run_writ_job_def with_test_def with_obj_def test_on_written_def)
  have cj: "run_close_job ?N (tc_close_job ?c) (el, ?w1) = Some (el, ?w1)"
    using jobs by (simp add: run_close_job_def with_test_def with_obj_def test_on_error_def)
  have h: "\<not> tc_closed ?c" "handle_fd (tc_handle ?c) = Some fd" using c(7) fd by (simp_all add: handle_fd_def)
  have d: "k_ctl (nt_epoll ?N) (sel_kernel (po_selector (el_poll el))) EPOLL_CTL_DEL fd \<lparr>ee_events = 0, ee_u64 = 0\<rparr> = (Inr (), k)"
    using del by simp
  obtain el' where cl: "handle_close ?N (?c, el, ?w1) =
      Some (Inr (), ?c\<lparr>tc_read_enabled := False, tc_write_enabled := False, tc_closed := True\<rparr>, el', ?w1)"
    "sel_events_map (po_selector (el_poll el')) = (sel_events_map (po_selector (el_poll el)))(fd := None)"
    using close_spec[OF h(1) cj h(2) d known] by blast
  let ?c' = "?c\<lparr>tc_read_enabled := False, tc_write_enabled := False, tc_closed := True\<rparr>"
  have "test_run_job ?N mk (SendResponse i) r (el, w) = Some (el', ?w1\<lparr>sw_conns := (sw_conns w)(i \<mapsto> ?c')\<rparr>)"
    using c(1) send(2) w cl(1) by (simp add: test_run_job_def with_conn_def send_unwrap_def close_unwrap_def)
  then show ?thesis using send(1) cl(2)
    by (intro exI[of _ el'] exI[of _ "?w1\<lparr>sw_conns := (sw_conns w)(i \<mapsto> ?c')\<rparr>"] exI[of _ ?c']) simp
qed

lemma responses_once:
  assumes io: "roomy_socket (nt_bytes N) (nt_stream N) incoming ended outgoing room"
    and mk: "\<And>bs. bs_chunk (nt_bytes N) (mk bs) = bs"
    and c: "sw_conns w i = Some c" "tc_sending c = Some x" "bs_chunk (nt_bytes N) x = []"
      "tc_waiting c = Some y" "bs_chunk (nt_bytes N) y = []" "tc_write_enabled c" "\<not> tc_closed c" "96 \<le> room (tc_stream c)"
    and jobs: "tc_writ_job c = HandlerJob h" "tc_close_job c = HandlerJob h" and s: "sw_rest w h = Some s"
    and fd: "tc_handle c = EvSocket fd sid"
    and del: "k_ctl (nt_epoll N) (sel_kernel (po_selector (el_poll el))) EPOLL_CTL_DEL fd \<lparr>ee_events = 0, ee_u64 = 0\<rparr> = (Inr (), k)"
    and known: "sel_events_map (po_selector (el_poll el)) fd \<noteq> None"
    and C: "cb_job C = server_job (test_net N E) V L (test_run_job (test_net N E) mk)" and n: "0 < n"
  shows "\<exists>el' w' c'. run_jobs C (replicate n (Job (OtherJob (SendResponse i)))) (el, w) = Some (el', w') \<and>
    sw_conns w' i = Some c' \<and> outgoing (tc_stream c') = outgoing (tc_stream c) @ http_response \<and> tc_closed c' \<and>
    sel_events_map (po_selector (el_poll el')) = (sel_events_map (po_selector (el_poll el)))(fd := None)"
proof -
  obtain el' w' c' where f: "test_run_job (test_net N E) mk (SendResponse i) 0 (el, w) = Some (el', w')"
    "sw_conns w' i = Some c'" "outgoing (tc_stream c') = outgoing (tc_stream c) @ http_response"
    "tc_closed c'" "\<not> tc_write_enabled c'"
    "sel_events_map (po_selector (el_poll el')) = (sel_events_map (po_selector (el_poll el)))(fd := None)"
    using first_response[OF io mk c jobs s fd del known] by blast
  obtain m where m: "n = Suc m" using n by (cases n) auto
  have "run_jobs C (replicate n (Job (OtherJob (SendResponse i)))) (el, w) = Some (el', w')"
    using closed_responses[OF f(2,5) C] f(1) by (simp add: m C server_job_def)
  then show ?thesis using f(2-4,6) by blast
qed

text \<open>The round in which the request comes in.\<close>

lemma request_round:
  assumes q: "queued (po_queue (el_poll el)) []" and pipe: "nonblocking_pipe (nt_pipe N) level cap" "pipe_accepts (nt_pipe N)"
    and E: "fresh_nodes E" "\<And>st. he_alive E st i"
    and wait: "k_wait (nt_epoll N) (sel_kernel (po_selector (el_poll el))) 4096 (select_timeout_ms timeout) =
      (Inr [\<lparr>ee_events = m, ee_u64 = scast (fd :: i32)\<rparr>], k)"
    and reg: "sel_events_map (po_selector (el_poll el)) fd =
      Some \<lparr>je_token_entry = \<lparr>ttype = SocketEvent, te_token = t\<rparr>, je_job = Job (ConnJob i), je_ready = r0\<rparr>"
    and ev: "ready_is_readable (ready_of_epoll m)" "\<not> ready_is_error (ready_of_epoll m)" "\<not> ready_is_hup (ready_of_epoll m)"
    and io: "roomy_socket (nt_bytes N) (nt_stream N) incoming ended outgoing room"
    and c: "sw_conns w i = Some c" "tc_read_buffer c = Some b" "bs_chunk (nt_bytes N) b = []"
      "tc_sending c = Some x" "bs_chunk (nt_bytes N) x = []" "tc_waiting c = Some y" "bs_chunk (nt_bytes N) y = []"
      "tc_read_job c = HandlerJob h"
    and s: "sw_rest w h = Some s" "te_conn s = Some i"
    and str: "incoming (tc_stream c) \<noteq> []" "\<not> ended (tc_stream c)"
    and C: "cb_job C = server_job (test_net N E) V L other"
  shows "\<exists>el' s' b' tr n. run_once (nt_epoll N) clk (nt_pipe N) S C timeout (el, w) = Some (Inr (), el', w\<lparr>sw_conns := (sw_conns w)(i \<mapsto>
      c\<lparr>tc_stream := s', tc_read_buffer := Some b', tc_read_triggered := False, tc_write_triggered := tr\<rparr>)\<rparr>) \<and>
    outgoing s' = outgoing (tc_stream c) \<and> room s' = room (tc_stream c) \<and>
    0 < n \<and> n \<le> length (incoming (tc_stream c)) \<and>
    queued (po_queue (el_poll el')) (replicate n (Job (OtherJob (SendResponse i)))) \<and>
    same_jobs (sel_events_map (po_selector (el_poll el))) (sel_events_map (po_selector (el_poll el'))) \<and>
    sel_kernel (po_selector (el_poll el')) = k"
proof -
  let ?N = "test_net N E" and ?s = "tc_stream c" and ?w = "w\<lparr>sw_conns := (sw_conns w)(i := None)\<rparr>"
  have bs: "buffered_socket (nt_bytes ?N) (nt_stream ?N) incoming ended outgoing" using io by (simp add: roomy_socket.axioms(1))
  obtain po where po: "queued (po_queue po) []" "same_jobs (sel_events_map (po_selector (el_poll el))) (sel_events_map (po_selector po))"
    "sel_kernel (po_selector po) = k"
    "run_once (nt_epoll N) clk (nt_pipe N) S C timeout (el, w) =
      map_option (Pair (Inr ())) (conn_event ?N i (ready_as_usize (ready_of_epoll m)) (el\<lparr>el_poll := po\<rparr>, w))"
    using conn_round[OF q pipe(1) wait reg C, of clk S w] by blast
  let ?el = "el\<lparr>el_poll := po\<rparr>" and ?val = "ready_as_usize (ready_of_epoll m)"
  let ?J = "answering i (incoming ?s) (?el, ?w)" and ?R = "\<lambda>s. outgoing s = outgoing ?s \<and> room s = room ?s"
  have J0: "?J (bs_chunk (nt_bytes ?N) b) (incoming ?s) (?el, ?w)"
    using po(1) c(3) by (auto simp: answering_def intro!: exI[of _ 0])
  have keeps: "job_keeps ?N (tc_read_job c) ?J"
    unfolding c(8) using bs s E pipe(2) by (intro request_taken) (simp_all add: buffered_socket.axioms(1))
  have R: "?R (snd (ss_read (nt_stream ?N) s n))" if "?R s" "0 < n" for s n
    using roomy_socket.read_keeps[OF io that(2)] that(1) by simp
  have e: "bs_chunk (nt_bytes ?N) x = []" "bs_chunk (nt_bytes ?N) y = []" using c(5,7) by simp_all
  have ev': "ready_is_readable (ready_from_usize ?val)" "\<not> ready_is_error (ready_from_usize ?val)" "\<not> ready_is_hup (ready_from_usize ?val)"
    using ev by simp_all
  obtain el1 w' s1 b1 tr where e: "conn_event ?N i ?val (?el, w) = Some (el1, w'\<lparr>sw_conns := (sw_conns w')(i \<mapsto>
        c\<lparr>tc_stream := s1, tc_read_buffer := Some b1, tc_read_triggered := False, tc_write_triggered := tr\<rparr>)\<rparr>)"
    "?J (bs_chunk (nt_bytes ?N) b1) [] (el1, w')" "?R s1"
    using conn_event_inv[where J = ?J and R = ?R, OF bs c(1,2,4) e(1) c(6) e(2) str(2) ev' keeps R _ J0] by blast
  obtain n where n: "w' = ?w" "po_selector (el_poll el1) = po_selector po" "0 < n" "n \<le> length (incoming ?s)"
    "queued (po_queue (el_poll el1)) (replicate n (Job (OtherJob (SendResponse i))))"
    using e(2) str(1) unfolding answering_def by auto
  show ?thesis
    using e(1,3) n po(2-4) by (intro exI[of _ el1] exI[of _ s1] exI[of _ b1] exI[of _ tr] exI[of _ n]) simp
qed

text \<open>Starting listens, and accepting makes a session that knows its connection.\<close>

lemma test_serve_listens:
  assumes "k_ctl K (sel_kernel (po_selector (el_poll el))) EPOLL_CTL_ADD fd
      \<lparr>ee_events = ioevent_to_epoll ready_readable opt_edge, ee_u64 = scast fd\<rparr> = (Inr (), k)"
  shows "\<exists>el' w a. test_serve K P l fd el = Some (el', w) \<and> sw_acceptor w = Some a \<and> ac_job a = HandlerJob () \<and>
    ac_is_listening a \<and> ac_listener a = l \<and> sw_conns w = (\<lambda>_. None) \<and> sw_rest w = (\<lambda>_. None) \<and>
    sel_events_map (po_selector (el_poll el')) = (sel_events_map (po_selector (el_poll el)))(fd \<mapsto>
      \<lparr>je_token_entry = \<lparr>ttype = AcceptEvent, te_token = Token 0\<rparr>, je_job = Job AcceptJob, je_ready = ready_empty\<rparr>)"
  using assms
  by (simp add: test_serve_def start_internal_def server_new_def acceptor_bind_def acceptor_new_def set_accept_job_def
      el_register_def poll_register_def associate_selector_def selector_register_def Let_def)

lemma test_accepts:
  assumes i: "node (el, w) = i" and h: "\<And>el w. session (el, w) = h" and token: "sw_token_id w \<noteq> - 1"
    and ctl: "k_ctl (nt_epoll N) (sel_kernel (po_selector (el_poll el))) EPOLL_CTL_ADD (ls_fd L s)
      \<lparr>ee_events = ioevent_to_epoll (ready_bitor ready_readable ready_writable) opt_edge, ee_u64 = scast (ls_fd L s)\<rparr> = (Inr (), k)"
  shows "\<exists>el' w'. on_accept_connection (test_net N E) (test_sessions node session) L s (el, w) = Some (el', w') \<and>
    sw_rest w' = (sw_rest w)(h \<mapsto> \<lparr>te_conn = Some i\<rparr>) \<and>
    sw_conns w' = (sw_conns w)(i \<mapsto> (conn_new (test_net N E) (EvSocket (ls_fd L s) (sel_id (po_selector (el_poll el)))) s)
      \<lparr>tc_read_job := HandlerJob h, tc_writ_job := HandlerJob h, tc_close_job := HandlerJob h\<rparr>) \<and>
    sel_events_map (po_selector (el_poll el')) = (sel_events_map (po_selector (el_poll el)))(ls_fd L s \<mapsto>
      \<lparr>je_token_entry = \<lparr>ttype = SocketEvent, te_token = Token (sw_token_id w + 1)\<rparr>, je_job = Job (ConnJob i),
        je_ready = ready_empty\<rparr>)"
proof -
  let ?V = "test_sessions node session" and ?N = "test_net N E"
  have V: "sv_node ?V (el, w) = i" "sv_alloc ?V = Some (\<lambda>(el, w). let h = session (el, w) in
      Some (h, el, w\<lparr>sw_rest := (sw_rest w)(h \<mapsto> test_new)\<rparr>))" using i by (simp_all add: test_sessions_def)
  have ctl': "k_ctl (nt_epoll ?N) (sel_kernel (po_selector (el_poll el))) EPOLL_CTL_ADD (ls_fd L s)
      \<lparr>ee_events = ioevent_to_epoll (ready_bitor ready_readable ready_writable) opt_edge, ee_u64 = scast (ls_fd L s)\<rparr> = (Inr (), k)"
    using ctl by simp
  have steps: "(\<lambda>(el, w). let h = session (el, w) in Some (h, el, w\<lparr>sw_rest := (sw_rest w)(h \<mapsto> test_new)\<rparr>)) (el, w0) =
      Some (h, el, w0\<lparr>sw_rest := (sw_rest w)(h \<mapsto> test_new)\<rparr>)"
    "sv_attach ?V h i (el, w0\<lparr>sw_rest := (sw_rest w)(h \<mapsto> test_new)\<rparr>) = Some (el, w0\<lparr>sw_rest := (sw_rest w)(h \<mapsto> \<lparr>te_conn = Some i\<rparr>)\<rparr>)"
    "sv_on_accept ?V h (el, w0\<lparr>sw_rest := (sw_rest w)(h \<mapsto> \<lparr>te_conn = Some i\<rparr>)\<rparr>) =
      Some (el, w0\<lparr>sw_rest := (sw_rest w)(h \<mapsto> \<lparr>te_conn = Some i\<rparr>)\<rparr>)"
    if "sw_rest w0 = sw_rest w" for w0
    using that h by (simp_all add: test_sessions_def with_test_def with_obj_def test_new_def test_attach_connection_def test_on_accept_def)
  from accept_steps[OF V(1) token V(2) refl steps ctl'] show ?thesis by auto
qed

subsection \<open>Properties\<close>

text \<open>C9. A request is answered once: when the kernel reports that a connection of the example server can be
  read, two rounds of the loop later the response has been written to it, exactly once in however
  many pieces the request was read, and the connection is closed and out of the loop's table.\<close>

theorem request_answered:
  assumes q: "queued (po_queue (el_poll el)) []" and pipe: "nonblocking_pipe (nt_pipe N) level cap" "pipe_accepts (nt_pipe N)"
    and E: "fresh_nodes E" "\<And>st. he_alive E st i" and mk: "\<And>bs. bs_chunk (nt_bytes N) (mk bs) = bs"
    and wait1: "k_wait (nt_epoll N) (sel_kernel (po_selector (el_poll el))) 4096 (select_timeout_ms timeout) =
      (Inr [\<lparr>ee_events = m, ee_u64 = scast (fd :: i32)\<rparr>], k1)"
    and wait2: "k_wait (nt_epoll N) k1 4096 (select_timeout_ms (Some (from_millis 0))) = (Inr [], k2)"
    and del: "k_ctl (nt_epoll N) k2 EPOLL_CTL_DEL fd \<lparr>ee_events = 0, ee_u64 = 0\<rparr> = (Inr (), k3)"
    and reg: "sel_events_map (po_selector (el_poll el)) fd =
      Some \<lparr>je_token_entry = \<lparr>ttype = SocketEvent, te_token = t\<rparr>, je_job = Job (ConnJob i), je_ready = r0\<rparr>"
    and ev: "ready_is_readable (ready_of_epoll m)" "\<not> ready_is_error (ready_of_epoll m)" "\<not> ready_is_hup (ready_of_epoll m)"
    and io: "roomy_socket (nt_bytes N) (nt_stream N) incoming ended outgoing room"
    and c: "sw_conns w i = Some c" "tc_handle c = EvSocket fd sid" "tc_read_buffer c = Some b" "bs_chunk (nt_bytes N) b = []"
      "tc_sending c = Some x" "bs_chunk (nt_bytes N) x = []" "tc_waiting c = Some y" "bs_chunk (nt_bytes N) y = []"
      "tc_write_enabled c" "\<not> tc_closed c"
    and jobs: "tc_read_job c = HandlerJob h" "tc_writ_job c = HandlerJob h" "tc_close_job c = HandlerJob h"
    and s: "sw_rest w h = Some s" "te_conn s = Some i"
    and str: "incoming (tc_stream c) \<noteq> []" "length (incoming (tc_stream c)) \<le> 4096" "\<not> ended (tc_stream c)" "96 \<le> room (tc_stream c)"
    and C: "cb_job C = server_job (test_net N E) V L (test_run_job (test_net N E) mk)"
  shows "\<exists>el1 w1 el2 w2 c'. run_once (nt_epoll N) clk (nt_pipe N) S C timeout (el, w) = Some (Inr (), el1, w1) \<and>
    run_once (nt_epoll N) clk (nt_pipe N) S C timeout (el1, w1) = Some (Inr (), el2, w2) \<and>
    sw_conns w2 i = Some c' \<and> outgoing (tc_stream c') = outgoing (tc_stream c) @ http_response \<and> tc_closed c' \<and>
    sel_events_map (po_selector (el_poll el2)) fd = None"
proof -
  obtain el1 s1 b1 tr n where r1: "run_once (nt_epoll N) clk (nt_pipe N) S C timeout (el, w) = Some (Inr (), el1, w\<lparr>sw_conns := (sw_conns w)(i \<mapsto>
      c\<lparr>tc_stream := s1, tc_read_buffer := Some b1, tc_read_triggered := False, tc_write_triggered := tr\<rparr>)\<rparr>)"
    "outgoing s1 = outgoing (tc_stream c)" "room s1 = room (tc_stream c)" "0 < n" "n \<le> length (incoming (tc_stream c))"
    "queued (po_queue (el_poll el1)) (replicate n (Job (OtherJob (SendResponse i))))"
    "same_jobs (sel_events_map (po_selector (el_poll el))) (sel_events_map (po_selector (el_poll el1)))"
    "sel_kernel (po_selector (el_poll el1)) = k1"
    using request_round[OF q pipe E wait1 reg ev io c(1,3-8) jobs(1) s str(1,3) C, of clk S] by blast
  let ?c1 = "c\<lparr>tc_stream := s1, tc_read_buffer := Some b1, tc_read_triggered := False, tc_write_triggered := tr\<rparr>"
  let ?w1 = "w\<lparr>sw_conns := (sw_conns w)(i \<mapsto> ?c1)\<rparr>"
  have wait2': "k_wait (nt_epoll N) (sel_kernel (po_selector (el_poll el1))) 4096
      (select_timeout_ms (if replicate n (Job (OtherJob (SendResponse i))) = [] then timeout else Some (from_millis 0))) = (Inr [], k2)"
    using wait2 r1(4,8) by simp
  have io0: "[] = concat (map (dispatch_entry (sel_events_map (po_selector (el_poll el1)))) [])" by simp
  obtain po2 where po2: "same_jobs (sel_events_map (po_selector (el_poll el1))) (sel_events_map (po_selector po2))"
    "sel_kernel (po_selector po2) = k2"
    "run_once (nt_epoll N) clk (nt_pipe N) S C timeout (el1, ?w1) =
      do { st \<leftarrow> run_jobs C (replicate n (Job (OtherJob (SendResponse i)))) (el1\<lparr>el_poll := po2\<rparr>, ?w1); Some (Inr (), st) }"
    using queued_round[OF r1(6) pipe(1) wait2' _ io0, of clk S C ?w1] r1(5) str(2) by auto
  have known: "sel_events_map (po_selector (el_poll (el1\<lparr>el_poll := po2\<rparr>))) fd \<noteq> None"
    using same_jobs_dom[OF r1(7), of fd] same_jobs_dom[OF po2(1), of fd] reg by simp
  have del': "k_ctl (nt_epoll N) (sel_kernel (po_selector (el_poll (el1\<lparr>el_poll := po2\<rparr>)))) EPOLL_CTL_DEL fd \<lparr>ee_events = 0, ee_u64 = 0\<rparr> = (Inr (), k3)"
    using del po2(2) by simp
  obtain el2 w2 c' where f: "run_jobs C (replicate n (Job (OtherJob (SendResponse i)))) (el1\<lparr>el_poll := po2\<rparr>, ?w1) = Some (el2, w2)"
    "sw_conns w2 i = Some c'" "outgoing (tc_stream c') = outgoing (tc_stream ?c1) @ http_response" "tc_closed c'"
    "sel_events_map (po_selector (el_poll el2)) = (sel_events_map (po_selector (el_poll (el1\<lparr>el_poll := po2\<rparr>))))(fd := None)"
    using responses_once[OF io mk, of ?w1 i ?c1 x y h s fd sid "el1\<lparr>el_poll := po2\<rparr>" k3 C E V L n] c(2,5-10) jobs(2,3) s(1)
      str(4) r1(3,4) known del' C by auto
  show ?thesis using r1(1,2) po2(3) f by (intro exI[of _ el1] exI[of _ ?w1] exI[of _ el2] exI[of _ w2] exI[of _ c']) simp
qed

subsection \<open>A concrete run\<close>

text \<open>A connection on which a request of three bytes has come in.\<close>

type_synonym list_env = "(u8 list \<times> nat, sock, nat \<times> (sock \<times> unit) list, nat, nat, string entry option list) test_env"

definition request_conn :: "(u8 list \<times> nat, sock, nat) tcp_connection" where
  "request_conn = (conn_new (list_net 1 :: (u8 list \<times> nat, sock, nat, nat, nat, list_env) net) (EvSocket 7 1)
       \<lparr>sk_in = [71, 69, 84], sk_ended = False, sk_out = [], sk_room = 200\<rparr>)
     \<lparr>tc_read_job := HandlerJob 3, tc_writ_job := HandlerJob 3, tc_close_job := HandlerJob 3\<rparr>"

definition request_world :: "(u8 list \<times> nat, sock, nat, nat \<times> (sock \<times> unit) list, nat \<rightharpoonup> test) server_world" where
  "request_world = \<lparr>sw_conns = [0 \<mapsto> request_conn], sw_acceptor = None, sw_token_id = 1, sw_rest = [3 \<mapsto> \<lparr>te_conn = Some 0\<rparr>]\<rparr>"

definition test_callbacks :: "(test_job loop_job, string, nat, nat, string entry option list,
    (u8 list \<times> nat, sock, nat, nat \<times> (sock \<times> unit) list, nat \<rightharpoonup> test) server_world) callbacks" where
  "test_callbacks = \<lparr>cb_now = \<lambda>w. duration_zero,
     cb_job = server_job (test_net (list_net 1) least_env) (test_sessions (\<lambda>_. 1) (\<lambda>_. 4)) list_listener
       (test_run_job (test_net (list_net 1) least_env) (\<lambda>bs. (bs, 0))),
     cb_timer = \<lambda>t. Some\<rparr>"

theorem request_answered_witness:
  "\<exists>el1 w1 el2 w2 c. run_once (once_kernel 1) ms_clock (count_pipe 65536) vec_slab test_callbacks None (request_loop, request_world) =
       Some (Inr (), el1, w1) \<and>
     run_once (once_kernel 1) ms_clock (count_pipe 65536) vec_slab test_callbacks None (el1, w1) = Some (Inr (), el2, w2) \<and>
     sw_conns w2 0 = Some c \<and> sk_out (tc_stream c) = http_response \<and> tc_closed c"
proof -
  let ?N = "list_net 1 :: (u8 list \<times> nat, sock, nat, nat, nat, list_env) net"
  have k: "nt_epoll ?N = once_kernel 1" "nt_pipe ?N = count_pipe 65536" by (simp_all add: list_net_def)
  have pipe: "nonblocking_pipe (nt_pipe ?N) (\<lambda>p. p) 65536" "pipe_accepts (nt_pipe ?N)"
    using count_pipe.nonblocking_pipe_axioms count_pipe_accepts by (simp_all add: k)
  have E: "he_alive (least_env :: list_env handler_env) st 0" for st by (simp add: least_env_def)
  have mk: "bs_chunk (nt_bytes ?N) (bs, 0) = bs" for bs by (simp add: list_net_def list_bytes_def)
  have w1: "k_wait (nt_epoll ?N) (sel_kernel (po_selector (el_poll request_loop))) 4096 (select_timeout_ms None) =
      (Inr [\<lparr>ee_events = 1, ee_u64 = scast (7 :: i32)\<rparr>], 1)" by (simp add: k once_kernel_def request_loop_def)
  have w2: "k_wait (nt_epoll ?N) 1 4096 (select_timeout_ms (Some (from_millis 0))) = (Inr [], 1)"
    and del: "k_ctl (nt_epoll ?N) 1 EPOLL_CTL_DEL 7 \<lparr>ee_events = 0, ee_u64 = 0\<rparr> = (Inr (), 1)"
    by (simp_all add: k once_kernel_def)
  have reg: "sel_events_map (po_selector (el_poll request_loop)) 7 =
      Some \<lparr>je_token_entry = \<lparr>ttype = SocketEvent, te_token = Token 1\<rparr>, je_job = Job (ConnJob 0), je_ready = ready_empty\<rparr>"
    by (simp add: request_loop_def)
  have io: "roomy_socket (nt_bytes ?N) (nt_stream ?N) sk_in sk_ended sk_out sk_room"
    using list_room.roomy_socket_axioms by (simp add: list_net_def)
  have c: "sw_conns request_world 0 = Some request_conn" "tc_handle request_conn = EvSocket 7 1"
    "tc_read_buffer request_conn = Some ([], 1024)" "bs_chunk (nt_bytes ?N) ([], 1024) = []"
    "tc_sending request_conn = Some ([], 1024)" "tc_waiting request_conn = Some ([], 1024)"
    "tc_write_enabled request_conn" "\<not> tc_closed request_conn"
    "tc_read_job request_conn = HandlerJob 3" "tc_writ_job request_conn = HandlerJob 3" "tc_close_job request_conn = HandlerJob 3"
    by (simp_all add: request_world_def request_conn_def conn_new_def list_net_def list_bytes_def)
  have s: "sw_rest request_world 3 = Some \<lparr>te_conn = Some 0\<rparr>" "te_conn \<lparr>te_conn = Some 0\<rparr> = Some 0"
    by (simp_all add: request_world_def)
  have str: "sk_in (tc_stream request_conn) \<noteq> []" "length (sk_in (tc_stream request_conn)) \<le> 4096"
    "\<not> sk_ended (tc_stream request_conn)" "96 \<le> sk_room (tc_stream request_conn)" "sk_out (tc_stream request_conn) = []"
    by (simp_all add: request_conn_def conn_new_def)
  have C: "cb_job test_callbacks = server_job (test_net ?N least_env) (test_sessions (\<lambda>_. 1) (\<lambda>_. 4)) list_listener
      (test_run_job (test_net ?N least_env) (\<lambda>bs. (bs, 0)))" by (simp add: test_callbacks_def)
  from request_answered[OF request_loop_queued pipe least_env_fresh E mk w1 w2 del reg epollin_ready io c(1-5,4,6,4,7-11) s str(1-4) C,
      of ms_clock vec_slab]
  show ?thesis unfolding k str(5) by auto
qed

end
