(* ===== verification/Client.thy ===== *)
theory Client
  imports Connection
begin

section \<open>The client\<close>

text \<open>
  \<open>Connector\<close> of \<open>src/net/connector.rs\<close> and \<open>TcpClient\<close> of \<open>src/net/tcp_server.rs\<close>. As for the server, the
  jobs given to the loop are data, connections live in a map, and what is locked is absent. The
  current loop of the thread is the loop the connector was made with. \<open>None\<close> is a panic.
\<close>

datatype 'o client_job = ConnectorJob | ClientConnJob nat | ClientOther 'o

record ('s, 'h) connector =
  cr_timer :: "timeout option"
  cr_stream :: "('s \<times> evented) option"
  cr_job :: "'h conn_job"

record ('b, 's, 'h, 'v) client_world =
  cl_connector :: "('s, 'h) connector option"
  cl_conns :: "nat \<rightharpoonup> ('b, 's, 'h) tcp_connection"
  cl_rest :: 'v

type_synonym ('b, 's, 'h, 'k, 'p, 't, 'o, 'v) client_env =
  "('o client_job, 'k, 'p, 't, ('b, 's, 'h, 'v) client_world) world"

text \<open>What the client needs of a stream beside reading and writing, the address of a new connection, and the
  calls of \<open>ClientHandler\<close> that \<open>net\<close> does not have.\<close>

record ('s, 'h, 'e) client_ops =
  ch_take_error :: "'s \<Rightarrow> io_error option io_result \<times> 's"
  ch_fd :: "'s \<Rightarrow> i32"
  ch_node :: "'e \<Rightarrow> nat"
  ch_attach :: "'h \<Rightarrow> nat \<Rightarrow> 'e \<Rightarrow> 'e option"
  ch_on_connect :: "'h \<Rightarrow> nat \<Rightarrow> 'e \<Rightarrow> 'e option"

text \<open>Where the connections are kept, and the job of a connection.\<close>

record ('b, 's, 'h, 'j, 'w) conn_store =
  cs_get :: "'w \<Rightarrow> nat \<Rightarrow> ('b, 's, 'h) tcp_connection option"
  cs_put :: "nat \<Rightarrow> ('b, 's, 'h) tcp_connection \<Rightarrow> 'w \<Rightarrow> 'w"
  cs_job :: "nat \<Rightarrow> 'j"

definition client_store :: "('b, 's, 'h, 'o client_job, ('b, 's, 'h, 'v) client_world) conn_store" where
  "client_store = \<lparr>cs_get = cl_conns, cs_put = \<lambda>i c w. w\<lparr>cl_conns := (cl_conns w)(i \<mapsto> c)\<rparr>, cs_job = ClientConnJob\<rparr>"

subsection \<open>When the connection is there\<close>

definition connector_new :: "('s, 'h) connector" where
  "connector_new = \<lparr>cr_timer = None, cr_stream = None, cr_job = DefaultJob\<rparr>"

definition set_conn_job :: "('s, 'h) connector \<Rightarrow> 'h conn_job \<Rightarrow> ('s, 'h) connector" where
  "set_conn_job c job = c\<lparr>cr_job := job\<rparr>"

text \<open>The job that \<open>start_connect\<close> gives to the connector: false when the connect has failed.\<close>

definition client_connected ::
    "('b, 's, 'h, 'j, 'w) conn_store \<Rightarrow> ('b, 's, 'k, 'p, 'h, ('j, 'k, 'p, 't, 'w) world) net
       \<Rightarrow> ('s, 'h, ('j, 'k, 'p, 't, 'w) world) client_ops \<Rightarrow> 'h \<Rightarrow> 's \<times> evented
       \<Rightarrow> ('j, 'k, 'p, 't, 'w) world \<Rightarrow> (bool \<times> ('j, 'k, 'p, 't, 'w) world) option" where
  "client_connected X N V h stream st =
     (case ch_take_error V (fst stream) of
        (Inr (Some _), _) \<Rightarrow> do { st \<leftarrow> nt_error N h st; Some (False, st) }
      | (_, s) \<Rightarrow>
          (case st of (el, w) \<Rightarrow>
             do { let i = ch_node V (el, w);
                  let w = cs_put X i (conn_new N (snd stream) s) w;
                  (el, w) \<leftarrow> ch_attach V h i (el, w);
                  c \<leftarrow> cs_get X w i;
                  let c = set_close_job (set_writ_job (set_read_job c (HandlerJob h)) (HandlerJob h)) (HandlerJob h);
                  (r, el) \<leftarrow> el_deregister (nt_epoll N) (nt_pipe N) (nt_debug N) el (tc_handle c);
                  _ \<leftarrow> unwrap r;
                  let fd = ch_fd V (tc_stream c);
                  let c = set_enabled c True;
                  (r, io, el) \<leftarrow> el_register (nt_epoll N) (nt_pipe N) el (tc_handle c)
                    \<lparr>ttype = SocketEvent, te_token = Token (scast fd)\<rparr>
                    (ready_bitor ready_readable ready_writable) opt_edge (Job (cs_job X i));
                  _ \<leftarrow> unwrap r;
                  st \<leftarrow> ch_on_connect V h i (el, cs_put X i (c\<lparr>tc_handle := io\<rparr>) w);
                  Some (True, st) }))"

subsection \<open>The connector\<close>

definition handle_on_connect ::
    "('h \<Rightarrow> 's \<times> evented \<Rightarrow> 'e \<Rightarrow> (bool \<times> 'e) option) \<Rightarrow> ('s, 'h) connector \<times> 'e
       \<Rightarrow> (unit io_result \<times> ('s, 'h) connector \<times> 'e) option" where
  "handle_on_connect run cst =
     (case cst of (c, st) \<Rightarrow>
        do { stream \<leftarrow> cr_stream c;
             let c = c\<lparr>cr_stream := None\<rparr>;
             (_, st) \<leftarrow> (case cr_job c of DefaultJob \<Rightarrow> Some (True, st) | HandlerJob h \<Rightarrow> run h stream st);
             Some (Inr (), c, st) })"

text \<open>With debug logging on, the event's first line unwraps the stream.\<close>

definition connector_handle_event ::
    "bool \<Rightarrow> ('t, 'x entry) slab_ops \<Rightarrow> ('h \<Rightarrow> 's \<times> evented \<Rightarrow> ('j, 'k, 'p, 't, 'w) world \<Rightarrow> (bool \<times> ('j, 'k, 'p, 't, 'w) world) option)
       \<Rightarrow> ('s, 'h) connector \<times> ('j, 'k, 'p, 't, 'w) world \<Rightarrow> i64
       \<Rightarrow> (unit io_result \<times> ('s, 'h) connector \<times> ('j, 'k, 'p, 't, 'w) world) option" where
  "connector_handle_event dbg S run cst event =
     (case cst of (c, el, w) \<Rightarrow>
        let ready = ready_from_usize event in
        if dbg \<and> cr_stream c = None then None
        else do { (_, el) \<leftarrow> (case cr_timer c of
                    Some timer \<Rightarrow> el_clear_timeout S el timer
                  | None \<Rightarrow> Some (False, el));
                  (c, el, w) \<leftarrow>
                    (if ready_is_writable ready
                     then do { (r, cst) \<leftarrow> handle_on_connect run (c, el, w); _ \<leftarrow> unwrap r; Some cst }
                     else Some (c, el, w));
                  Some (Inr (), c, el, w) })"

definition connector_handle_close ::
    "'k epoll_ops \<Rightarrow> 'p pipe_ops \<Rightarrow> bool \<Rightarrow> ('s, 'h) connector \<times> ('j, 'k, 'p, 't, 'w) world
       \<Rightarrow> (unit io_result \<times> ('s, 'h) connector \<times> ('j, 'k, 'p, 't, 'w) world) option" where
  "connector_handle_close K P dbg cst =
     (case cst of (c, el, w) \<Rightarrow>
        (case cr_stream c of
           Some stream \<Rightarrow>
             do { (r, el) \<leftarrow> el_deregister K P dbg el (snd stream); _ \<leftarrow> unwrap r; Some (Inr (), c, el, w) }
         | None \<Rightarrow> Some (Inr (), c, el, w)))"

text \<open>The timer job of \<open>connect\<close>.\<close>

definition connect_timed_out ::
    "'k epoll_ops \<Rightarrow> 'p pipe_ops \<Rightarrow> bool \<Rightarrow> ('t, 'x entry) slab_ops \<Rightarrow> ('s, 'h) connector \<times> ('j, 'k, 'p, 't, 'w) world
       \<Rightarrow> (('s, 'h) connector \<times> ('j, 'k, 'p, 't, 'w) world) option" where
  "connect_timed_out K P dbg S cst =
     (case cst of (c, el, w) \<Rightarrow>
        do { timer \<leftarrow> cr_timer c;
             (_, el) \<leftarrow> el_clear_timeout S el timer;
             stream \<leftarrow> cr_stream c;
             (r, el) \<leftarrow> el_deregister K P dbg el (snd stream);
             _ \<leftarrow> unwrap r;
             Some (c, el, w) })"

text \<open>It is a job of the kind that \<open>EventLoop.timers_fire\<close> allows.\<close>

lemma connect_timed_out_keeps:
  assumes "timer_slab S sok" "loop_ok S sok el" "connect_timed_out K P dbg S (c, el, w) = Some (c', el', w')"
    and "cr_stream c = Some (s, EvSocket fd i)"
  shows "timer_job_keeps S sok el el' \<and> c' = c \<and> w' = w"
proof -
  obtain timer b el1 r where t: "el_clear_timeout S el timer = Some (b, el1)"
    "el_deregister K P dbg el1 (EvSocket fd i) = Some (r, el')" "c' = c" "w' = w"
    using assms(3,4) by (auto simp: connect_timed_out_def bind_Some_iff)
  have k: "timer_job_keeps S sok el el1" using clear_timeout_keeps[OF assms(1,2), of timer] t(1) by auto
  then have "loop_ok S sok el1" by (simp add: timer_job_keeps_def)
  from timer_job_keeps_trans[OF k deregister_keeps[OF this t(2)]] show ?thesis using t(3,4) by blast
qed

text \<open>\<open>connected\<close> is what \<open>TcpStream::connect\<close> returned, a stream and its descriptor; \<open>job\<close> and \<open>timer_job\<close>
  are the two closures.\<close>

definition connector_connect ::
    "'k epoll_ops \<Rightarrow> 'p pipe_ops \<Rightarrow> ('t, 'x entry) slab_ops \<Rightarrow> duration \<Rightarrow> ('s \<times> i32) io_result \<Rightarrow> usize \<Rightarrow> 'j job \<Rightarrow> 'x
       \<Rightarrow> ('s, 'h) connector \<times> ('j, 'k, 'p, 't, 'w) world \<Rightarrow> (('s, 'h) connector \<times> ('j, 'k, 'p, 't, 'w) world) option" where
  "connector_connect K P S elapsed connected timeout_ms job timer_job cst =
     (case cst of (c, el, w) \<Rightarrow>
        do { (s, fd) \<leftarrow> unwrap connected;
             let c = c\<lparr>cr_stream := Some (s, EvSocket fd 0)\<rparr>;
             (failed, c, el) \<leftarrow>
               (if timeout_ms \<noteq> - 1
                then do { (timer, el) \<leftarrow> el_timeout S elapsed el (from_millis timeout_ms) timer_job;
                          case timer of
                            Inr timer \<Rightarrow> Some (False, c\<lparr>cr_timer := Some timer\<rparr>, el)
                          | Inl _ \<Rightarrow> Some (True, c, el) }
                else Some (False, c, el));
             if failed then Some (c, el, w)
             else do { (r, io, el) \<leftarrow> el_register K P el (EvSocket fd 0)
                         \<lparr>ttype = SocketEvent, te_token = Token 9999999\<rparr>
                         (ready_bitor ready_writable ready_readable) (opt_bitor opt_edge opt_oneshot) job;
                       _ \<leftarrow> unwrap r;
                       Some (c\<lparr>cr_stream := Some (s, io)\<rparr>, el, w) } })"

subsection \<open>The client's operations\<close>

definition client_new :: "'v \<Rightarrow> ('b, 's, 'h, 'v) client_world" where
  "client_new rest = \<lparr>cl_connector = Some connector_new, cl_conns = (\<lambda>_. None), cl_rest = rest\<rparr>"

definition start_connect ::
    "('b, 's, 'k, 'p, 'h, ('b, 's, 'h, 'k, 'p, 't, 'o, 'v) client_env) net \<Rightarrow> ('t, 'x entry) slab_ops \<Rightarrow> duration
       \<Rightarrow> ('s \<times> i32) io_result \<Rightarrow> 'x \<Rightarrow> 'h
       \<Rightarrow> ('b, 's, 'h, 'k, 'p, 't, 'o, 'v) client_env \<Rightarrow> ('b, 's, 'h, 'k, 'p, 't, 'o, 'v) client_env option" where
  "start_connect N S elapsed connected timer_job h st =
     (case st of (el, w) \<Rightarrow>
        do { c \<leftarrow> cl_connector w;
             (c, el, w) \<leftarrow> connector_connect (nt_epoll N) (nt_pipe N) S elapsed connected (- 1) (Job ConnectorJob) timer_job
               (set_conn_job c (HandlerJob h), el, w);
             Some (el, w\<lparr>cl_connector := Some c\<rparr>) })"

text \<open>The jobs of the connector and of a connection, each locked while it handles its event.\<close>

definition connector_event ::
    "('b, 's, 'k, 'p, 'h, ('b, 's, 'h, 'k, 'p, 't, 'o, 'v) client_env) net
       \<Rightarrow> ('s, 'h, ('b, 's, 'h, 'k, 'p, 't, 'o, 'v) client_env) client_ops \<Rightarrow> ('t, 'x entry) slab_ops \<Rightarrow> i64
       \<Rightarrow> ('b, 's, 'h, 'k, 'p, 't, 'o, 'v) client_env \<Rightarrow> ('b, 's, 'h, 'k, 'p, 't, 'o, 'v) client_env option" where
  "connector_event N V S val st =
     (case st of (el, w) \<Rightarrow>
        do { c \<leftarrow> cl_connector w;
             (r, c, el, w) \<leftarrow> connector_handle_event (nt_debug N) S (client_connected client_store N V) (c, el, w\<lparr>cl_connector := None\<rparr>) val;
             _ \<leftarrow> unwrap r;
             Some (el, w\<lparr>cl_connector := Some c\<rparr>) })"

definition client_conn_event ::
    "('b, 's, 'k, 'p, 'h, ('b, 's, 'h, 'k, 'p, 't, 'o, 'v) client_env) net \<Rightarrow> nat \<Rightarrow> i64
       \<Rightarrow> ('b, 's, 'h, 'k, 'p, 't, 'o, 'v) client_env \<Rightarrow> ('b, 's, 'h, 'k, 'p, 't, 'o, 'v) client_env option" where
  "client_conn_event N i val st =
     (case st of (el, w) \<Rightarrow>
        do { c \<leftarrow> cl_conns w i;
             (r, c, el, w) \<leftarrow> handle_event N (c, el, w\<lparr>cl_conns := (cl_conns w)(i := None)\<rparr>) val;
             _ \<leftarrow> unwrap r;
             Some (el, w\<lparr>cl_conns := (cl_conns w)(i \<mapsto> c)\<rparr>) })"

definition client_job ::
    "('b, 's, 'k, 'p, 'h, ('b, 's, 'h, 'k, 'p, 't, 'o, 'v) client_env) net
       \<Rightarrow> ('s, 'h, ('b, 's, 'h, 'k, 'p, 't, 'o, 'v) client_env) client_ops \<Rightarrow> ('t, 'x entry) slab_ops
       \<Rightarrow> ('o \<Rightarrow> ('b, 's, 'h, 'k, 'p, 't, 'o, 'v) client_env \<Rightarrow> ('b, 's, 'h, 'k, 'p, 't, 'o, 'v) client_env option)
       \<Rightarrow> 'o client_job job \<Rightarrow> usize
       \<Rightarrow> ('b, 's, 'h, 'k, 'p, 't, 'o, 'v) client_env \<Rightarrow> ('b, 's, 'h, 'k, 'p, 't, 'o, 'v) client_env option" where
  "client_job N V S other job ready st =
     (case job of
        Job ConnectorJob \<Rightarrow> connector_event N V S ready st
      | Job (ClientConnJob i) \<Rightarrow> client_conn_event N i ready st
      | Job (ClientOther v) \<Rightarrow> other v st
      | _ \<Rightarrow> Some st)"

subsection \<open>Connecting\<close>

text \<open>Handlers that change nothing but their own part of the world.\<close>

definition client_local ::
    "('s, 'h, ('b, 's, 'h, 'k, 'p, 't, 'o, 'v) client_env) client_ops \<Rightarrow> 'h \<Rightarrow> ('v \<Rightarrow> 'v) \<Rightarrow> ('v \<Rightarrow> 'v) \<Rightarrow> bool" where
  "client_local V h attach connect \<longleftrightarrow>
     (\<forall>i el w. ch_attach V h i (el, w) = Some (el, w\<lparr>cl_rest := attach (cl_rest w)\<rparr>)) \<and>
     (\<forall>i el w. ch_on_connect V h i (el, w) = Some (el, w\<lparr>cl_rest := connect (cl_rest w)\<rparr>))"

text \<open>What \<open>on_connect\<close> is called with: the connection in its place with the handler behind its jobs, and its
  entry in the loop's table.\<close>

lemma connected_handover:
  assumes V: "ch_take_error V s = (Inr None, s')" "ch_fd V s' = fd" "ch_node V (el, w) = i"
    and att: "ch_attach V h i (el, cs_put X i (conn_new N (EvSocket fd sid) s') w) = Some (el, w1)"
    and get: "cs_get X w1 i = Some (conn_new N (EvSocket fd sid) s')"
    and sid: "sid = sel_id (po_selector (el_poll el))"
    and del: "k_ctl (nt_epoll N) (sel_kernel (po_selector (el_poll el))) EPOLL_CTL_DEL fd \<lparr>ee_events = 0, ee_u64 = 0\<rparr> = (Inr (), k1)"
    and add: "k_ctl (nt_epoll N) k1 EPOLL_CTL_ADD fd
      \<lparr>ee_events = ioevent_to_epoll (ready_bitor ready_readable ready_writable) opt_edge, ee_u64 = scast fd\<rparr> = (Inr (), k2)"
    and known: "sel_events_map (po_selector (el_poll el)) fd \<noteq> None"
  shows "\<exists>el'. client_connected X N V h (s, EvSocket fd sid) (el, w) =
      do { st \<leftarrow> ch_on_connect V h i (el', cs_put X i ((conn_new N (EvSocket fd sid) s')
             \<lparr>tc_read_job := HandlerJob h, tc_writ_job := HandlerJob h, tc_close_job := HandlerJob h\<rparr>) w1);
           Some (True, st) } \<and>
    sel_id (po_selector (el_poll el')) = sid \<and> sel_kernel (po_selector (el_poll el')) = k2 \<and>
    sel_events_map (po_selector (el_poll el')) = (sel_events_map (po_selector (el_poll el)))(fd \<mapsto>
      \<lparr>je_token_entry = \<lparr>ttype = SocketEvent, te_token = Token (scast fd)\<rparr>, je_job = Job (cs_job X i),
        je_ready = ready_empty\<rparr>) \<and>
    po_queue (el_poll el') = po_queue (el_poll el) \<and> el_timer el' = el_timer el"
proof -
  let ?m = "sel_events_map (po_selector (el_poll el))"
  let ?el = "\<lambda>k m. el\<lparr>el_poll := (el_poll el)\<lparr>po_selector := (po_selector (el_poll el))\<lparr>sel_kernel := k, sel_events_map := m\<rparr>\<rparr>\<rparr>"
  let ?entry = "\<lparr>je_token_entry = \<lparr>ttype = SocketEvent, te_token = Token (scast fd)\<rparr>, je_job = Job (cs_job X i), je_ready = ready_empty\<rparr>"
  have d: "el_deregister (nt_epoll N) (nt_pipe N) (nt_debug N) el (EvSocket fd sid) = Some (Inr (), ?el k1 (?m(fd := None)))"
    using del known by (simp add: el_deregister_def poll_deregister_def handle_fd_def selector_deregister_def Let_def)
  have r: "el_register (nt_epoll N) (nt_pipe N) (?el k1 (?m(fd := None))) (EvSocket fd sid)
      \<lparr>ttype = SocketEvent, te_token = Token (scast fd)\<rparr> (ready_bitor ready_readable ready_writable) opt_edge
      (Job (cs_job X i)) = Some (Inr (), EvSocket fd sid, ?el k2 (?m(fd \<mapsto> ?entry)))"
    using add sid by (simp add: el_register_def poll_register_def associate_selector_def selector_register_def Let_def)
  show ?thesis
    using V att get d r sid
    by (intro exI[of _ "?el k2 (?m(fd \<mapsto> ?entry))"])
      (simp add: client_connected_def Let_def set_read_job_def set_writ_job_def set_close_job_def set_enabled_def conn_new_def)
qed

lemma connected_spec:
  fixes w :: "('b, 's, 'h, 'v) client_world"
  assumes V: "client_local V h attach connect" "ch_take_error V s = (Inr None, s')" "ch_fd V s' = fd"
    and sid: "sid = sel_id (po_selector (el_poll el))"
    and del: "k_ctl (nt_epoll N) (sel_kernel (po_selector (el_poll el))) EPOLL_CTL_DEL fd \<lparr>ee_events = 0, ee_u64 = 0\<rparr> = (Inr (), k1)"
    and add: "k_ctl (nt_epoll N) k1 EPOLL_CTL_ADD fd
      \<lparr>ee_events = ioevent_to_epoll (ready_bitor ready_readable ready_writable) opt_edge, ee_u64 = scast fd\<rparr> = (Inr (), k2)"
    and known: "sel_events_map (po_selector (el_poll el)) fd \<noteq> None" and i: "\<And>st. ch_node V st = i"
  shows "\<exists>el' w'. client_connected client_store N V h (s, EvSocket fd sid) (el, w) = Some (True, el', w') \<and>
    cl_connector w' = cl_connector w \<and> cl_rest w' = connect (attach (cl_rest w)) \<and>
    cl_conns w' = (cl_conns w)(i \<mapsto> (conn_new N (EvSocket fd sid) s')
      \<lparr>tc_read_job := HandlerJob h, tc_writ_job := HandlerJob h, tc_close_job := HandlerJob h\<rparr>) \<and>
    sel_events_map (po_selector (el_poll el')) = (sel_events_map (po_selector (el_poll el)))(fd \<mapsto>
      \<lparr>je_token_entry = \<lparr>ttype = SocketEvent, te_token = Token (scast fd)\<rparr>, je_job = Job (ClientConnJob i),
        je_ready = ready_empty\<rparr>) \<and>
    po_queue (el_poll el') = po_queue (el_poll el) \<and> el_timer el' = el_timer el"
proof -
  let ?c = "conn_new N (EvSocket fd sid) s'"
  let ?w = "(w\<lparr>cl_conns := (cl_conns w)(i \<mapsto> ?c)\<rparr>)\<lparr>cl_rest := attach (cl_rest w)\<rparr>"
  have at: "ch_attach V h i (el, cs_put client_store i ?c w) = Some (el, ?w)" and get: "cs_get client_store ?w i = Some ?c"
    using V(1) by (simp_all add: client_local_def client_store_def)
  have con: "ch_on_connect V h i (el', w') = Some (el', w'\<lparr>cl_rest := connect (cl_rest w')\<rparr>)" for el' w'
    using V(1) by (simp add: client_local_def)
  from connected_handover[OF V(2,3) i at get sid del add known] show ?thesis
    by (auto simp: con client_store_def)
qed

subsection \<open>Properties\<close>

text \<open>A connect that succeeds hands over once: when the connector's descriptor becomes writable the
  stream leaves the connector, a connection is made for it with the handler behind all its jobs,
  the descriptor's entry becomes the connection's, and the handler is attached and then told.\<close>

theorem client_connects:
  fixes w :: "('b, 's, 'h, 'v) client_world"
  assumes "client_local V h attach connect" and "ch_take_error V s = (Inr None, s')" and "ch_fd V s' = fd"
    and "sid = sel_id (po_selector (el_poll el))"
    and "k_ctl (nt_epoll N) (sel_kernel (po_selector (el_poll el))) EPOLL_CTL_DEL fd \<lparr>ee_events = 0, ee_u64 = 0\<rparr> = (Inr (), k1)"
    and "k_ctl (nt_epoll N) k1 EPOLL_CTL_ADD fd
      \<lparr>ee_events = ioevent_to_epoll (ready_bitor ready_readable ready_writable) opt_edge, ee_u64 = scast fd\<rparr> = (Inr (), k2)"
    and "sel_events_map (po_selector (el_poll el)) fd \<noteq> None" and "\<And>st. ch_node V st = i"
    and c: "cl_connector w = Some c" "cr_stream c = Some (s, EvSocket fd sid)" "cr_timer c = None" "cr_job c = HandlerJob h"
    and ev: "ready_is_writable (ready_from_usize val)"
  shows "\<exists>el' w'. connector_event N V S val (el, w) = Some (el', w') \<and>
    cl_connector w' = Some (c\<lparr>cr_stream := None\<rparr>) \<and> cl_rest w' = connect (attach (cl_rest w)) \<and>
    cl_conns w' = (cl_conns w)(i \<mapsto> (conn_new N (EvSocket fd sid) s')
      \<lparr>tc_read_job := HandlerJob h, tc_writ_job := HandlerJob h, tc_close_job := HandlerJob h\<rparr>) \<and>
    sel_events_map (po_selector (el_poll el')) = (sel_events_map (po_selector (el_poll el)))(fd \<mapsto>
      \<lparr>je_token_entry = \<lparr>ttype = SocketEvent, te_token = Token (scast fd)\<rparr>, je_job = Job (ClientConnJob i),
        je_ready = ready_empty\<rparr>)"
proof -
  let ?w = "w\<lparr>cl_connector := None\<rparr>"
  obtain el' w' where k: "client_connected client_store N V h (s, EvSocket fd sid) (el, ?w) = Some (True, el', w')"
    "cl_rest w' = connect (attach (cl_rest w))"
    "cl_conns w' = (cl_conns w)(i \<mapsto> (conn_new N (EvSocket fd sid) s')
      \<lparr>tc_read_job := HandlerJob h, tc_writ_job := HandlerJob h, tc_close_job := HandlerJob h\<rparr>)"
    "sel_events_map (po_selector (el_poll el')) = (sel_events_map (po_selector (el_poll el)))(fd \<mapsto>
      \<lparr>je_token_entry = \<lparr>ttype = SocketEvent, te_token = Token (scast fd)\<rparr>, je_job = Job (ClientConnJob i),
        je_ready = ready_empty\<rparr>)"
    using connected_spec[OF assms(1-8), of ?w] by auto
  have "connector_event N V S val (el, w) = Some (el', w'\<lparr>cl_connector := Some (c\<lparr>cr_stream := None\<rparr>)\<rparr>)"
    using c ev k(1) by (simp add: connector_event_def connector_handle_event_def handle_on_connect_def Let_def)
  then show ?thesis using k(2-4) by auto
qed

text \<open>A connect that fails is reported to the handler, once and without a connection; but the stream is
  dropped without being deregistered, so that the connector's entry for its descriptor stays in
  the loop's table, where a later event of that number would call the connector again, and panic.\<close>

theorem connect_failure_keeps_entry:
  assumes "ch_take_error V s = (Inr (Some e), s')" and "nt_error N h (el, w\<lparr>cl_connector := None\<rparr>) = Some (el, w\<lparr>cl_connector := None, cl_rest := v\<rparr>)"
    and c: "cl_connector w = Some c" "cr_stream c = Some (s, EvSocket fd sid)" "cr_timer c = None" "cr_job c = HandlerJob h"
    and ev: "ready_is_writable (ready_from_usize val)"
  shows "\<exists>w'. connector_event N V S val (el, w) = Some (el, w') \<and> cl_rest w' = v \<and> cl_conns w' = cl_conns w \<and>
    cl_connector w' = Some (c\<lparr>cr_stream := None\<rparr>) \<and> connector_event N V S val (el, w') = None"
proof -
  have "connector_event N V S val (el, w) = Some (el, w\<lparr>cl_rest := v, cl_connector := Some (c\<lparr>cr_stream := None\<rparr>)\<rparr>)"
    using assms by (simp add: connector_event_def connector_handle_event_def handle_on_connect_def client_connected_def Let_def)
  then show ?thesis
    using c(3) ev by (simp add: connector_event_def connector_handle_event_def handle_on_connect_def Let_def)
qed

subsection \<open>Concrete inputs\<close>

type_synonym client_log_env = "(u8 list \<times> nat, sock, unit, nat, nat, string entry option list, unit, nat) client_env"

definition client_net :: "(u8 list \<times> nat, sock, nat, nat, unit, client_log_env) net" where
  "client_net = \<lparr>nt_bytes = list_bytes, nt_stream = list_socket, nt_epoll = ok_kernel, nt_pipe = count_pipe 65536,
     nt_debug = False, nt_recv = \<lambda>h b st. Some (b, st), nt_written = \<lambda>h st. Some (True, st),
     nt_error = \<lambda>h st. Some (fst st, (snd st)\<lparr>cl_rest := 99\<rparr>)\<rparr>"

definition client_handler :: "io_error option \<Rightarrow> (sock, unit, client_log_env) client_ops" where
  "client_handler e = \<lparr>ch_take_error = \<lambda>s. (Inr e, s), ch_fd = \<lambda>s. 7, ch_node = \<lambda>st. 0,
     ch_attach = \<lambda>h i st. Some (fst st, (snd st)\<lparr>cl_rest := cl_rest (snd st) + 1\<rparr>),
     ch_on_connect = \<lambda>h i st. Some (fst st, (snd st)\<lparr>cl_rest := cl_rest (snd st) * 10\<rparr>)\<rparr>"

definition pending_connector :: "(sock, unit) connector" where
  "pending_connector = \<lparr>cr_timer = None,
     cr_stream = Some (\<lparr>sk_in = [], sk_ended = False, sk_out = [], sk_room = 9\<rparr>, EvSocket 7 1), cr_job = HandlerJob ()\<rparr>"

definition client_before :: "(u8 list \<times> nat, sock, unit, nat) client_world" where
  "client_before = \<lparr>cl_connector = Some pending_connector, cl_conns = (\<lambda>_. None), cl_rest = 2\<rparr>"

definition client_loop :: "(unit client_job, nat, nat, string entry option list) event_loop" where
  "client_loop = \<lparr>el_run = True, el_poll = \<lparr>
     po_selector = \<lparr>sel_id = 1, sel_kernel = 0, sel_events_map = [7 \<mapsto>
       \<lparr>je_token_entry = \<lparr>ttype = SocketEvent, te_token = Token 9999999\<rparr>, je_job = Job ConnectorJob, je_ready = ready_empty\<rparr>]\<rparr>,
     po_queue = the (rqueue_new 1 0)\<rparr>, el_timer = one_timer\<rparr>"

lemma client_handler_local: "client_local (client_handler e) h (\<lambda>v. v + 1) (\<lambda>v. v * 10)"
  by (simp add: client_local_def client_handler_def)

lemma two_writable: "ready_is_writable (ready_from_usize 2)"
  by code_simp

theorem client_connects_witness:
  "\<exists>el' w'. connector_event client_net (client_handler None) (vec_slab :: (string entry option list, string entry) slab_ops) 2
     (client_loop, client_before) = Some (el', w') \<and> cl_rest w' = 30 \<and> cl_conns w' 0 \<noteq> None"
proof -
  let ?s = "\<lparr>sk_in = [], sk_ended = False, sk_out = [], sk_room = 9\<rparr>"
  have t: "ch_take_error (client_handler None) ?s = (Inr None, ?s)" "ch_fd (client_handler None) ?s = 7"
    "\<And>st. ch_node (client_handler None) st = 0" by (simp_all add: client_handler_def)
  have id: "1 = sel_id (po_selector (el_poll client_loop))" by (simp add: client_loop_def)
  have d: "k_ctl (nt_epoll client_net) (sel_kernel (po_selector (el_poll client_loop))) EPOLL_CTL_DEL 7 \<lparr>ee_events = 0, ee_u64 = 0\<rparr> = (Inr (), 1)"
    by (simp add: client_net_def client_loop_def ok_kernel_def)
  have a: "k_ctl (nt_epoll client_net) 1 EPOLL_CTL_ADD 7
      \<lparr>ee_events = ioevent_to_epoll (ready_bitor ready_readable ready_writable) opt_edge, ee_u64 = scast (7 :: i32)\<rparr> = (Inr (), 2)"
    by (simp add: client_net_def ok_kernel_def)
  have k: "sel_events_map (po_selector (el_poll client_loop)) 7 \<noteq> None" by (simp add: client_loop_def)
  have c: "cl_connector client_before = Some pending_connector" "cr_stream pending_connector = Some (?s, EvSocket 7 1)"
    "cr_timer pending_connector = None" "cr_job pending_connector = HandlerJob ()"
    by (simp_all add: client_before_def pending_connector_def)
  from client_connects[OF client_handler_local t(1,2) id d a k t(3) c two_writable, of vec_slab]
  show ?thesis by (auto simp: client_before_def)
qed

theorem connect_failure_keeps_entry_witness:
  "\<exists>w'. connector_event client_net (client_handler (Some Interrupted)) (vec_slab :: (string entry option list, string entry) slab_ops) 2
     (client_loop, client_before) = Some (client_loop, w') \<and> cl_rest w' = 99"
proof -
  let ?s = "\<lparr>sk_in = [], sk_ended = False, sk_out = [], sk_room = 9\<rparr>"
  have t: "ch_take_error (client_handler (Some Interrupted)) ?s = (Inr (Some Interrupted), ?s)"
    by (simp add: client_handler_def)
  have e: "nt_error client_net () (client_loop, client_before\<lparr>cl_connector := None\<rparr>) =
      Some (client_loop, client_before\<lparr>cl_connector := None, cl_rest := 99\<rparr>)" by (simp add: client_net_def)
  have c: "cl_connector client_before = Some pending_connector" "cr_stream pending_connector = Some (?s, EvSocket 7 1)"
    "cr_timer pending_connector = None" "cr_job pending_connector = HandlerJob ()"
    by (simp_all add: client_before_def pending_connector_def)
  from connect_failure_keeps_entry[OF t e c two_writable, of vec_slab] show ?thesis by auto
qed

end
