(* ===== verification/TestClient.thy ===== *)
theory TestClient
  imports Client Handlers
begin

section \<open>The example client\<close>

text \<open>
  \<open>examples/client.rs\<close>: on each loop a client connects, sends a request by a job once the connection is there, and
  throws away what it receives. The handler has no state.
\<close>

datatype test_client_job = StartClient | SendRequest nat

type_synonym ('b, 's, 'k, 'p, 't) test_client_env = "('b, 's, unit, 'k, 'p, 't, test_client_job, unit) client_env"

definition http_request :: "u8 list" where
  "http_request = (let crlf = [CHR 0x0D, CHR 0x0A] in map of_char (''GET /klsdjf HTTP/1.1'' @ crlf @ ''Host: 0.0.0.0:90'' @ crlf @
     ''User-Agent: curl/7.61.1'' @ crlf @ ''Accept: */*'' @ crlf))"

lemma http_request_length: "length http_request = 78"
  by code_simp

subsection \<open>The handler\<close>

definition test_client_on_connect ::
    "'p pipe_ops \<Rightarrow> ('b, 's, 'k, 'p, 't) test_client_env handler_env \<Rightarrow> nat
       \<Rightarrow> ('b, 's, 'k, 'p, 't) test_client_env \<Rightarrow> ('b, 's, 'k, 'p, 't) test_client_env option" where
  "test_client_on_connect P E conn st = enqueue_current P E (ClientOther (SendRequest conn)) st"

definition test_client_on_recv :: "'b bytes_ops \<Rightarrow> 'b \<Rightarrow> 'b option" where
  "test_client_on_recv B bytes = bs_advance B bytes (bs_len B bytes)"

definition test_client_net ::
    "('b, 's, 'k, 'p, unit, ('b, 's, 'k, 'p, 't) test_client_env) net
       \<Rightarrow> ('b, 's, 'k, 'p, unit, ('b, 's, 'k, 'p, 't) test_client_env) net" where
  "test_client_net N = N\<lparr>
     nt_recv := \<lambda>_ bytes st. map_option (\<lambda>bytes. (bytes, st)) (test_client_on_recv (nt_bytes N) bytes),
     nt_written := \<lambda>_ st. Some (True, st),
     nt_error := \<lambda>_ st. Some st\<rparr>"

text \<open>\<open>V\<close> gives the calls on streams and the address of the next connection.\<close>

definition test_client_ops ::
    "'p pipe_ops \<Rightarrow> ('b, 's, 'k, 'p, 't) test_client_env handler_env \<Rightarrow> ('s, unit, ('b, 's, 'k, 'p, 't) test_client_env) client_ops
       \<Rightarrow> ('s, unit, ('b, 's, 'k, 'p, 't) test_client_env) client_ops" where
  "test_client_ops P E V = V\<lparr>
     ch_attach := \<lambda>_ _ st. Some st,
     ch_on_connect := \<lambda>_. test_client_on_connect P E\<rparr>"

subsection \<open>The jobs\<close>

text \<open>The job of \<open>main\<close> makes a client and connects; \<open>connected\<close> is what the connect call returned. The job of
  \<open>on_connect\<close> locks the connection and sends; \<open>mk\<close> makes a buffer of bytes.\<close>

definition test_client_run_job ::
    "('b, 's, 'k, 'p, unit, ('b, 's, 'k, 'p, 't) test_client_env) net \<Rightarrow> ('t, 'x entry) slab_ops \<Rightarrow> duration
       \<Rightarrow> ('s \<times> i32) io_result \<Rightarrow> 'x \<Rightarrow> (u8 list \<Rightarrow> 'b) \<Rightarrow> test_client_job
       \<Rightarrow> ('b, 's, 'k, 'p, 't) test_client_env \<Rightarrow> ('b, 's, 'k, 'p, 't) test_client_env option" where
  "test_client_run_job N S elapsed connected timer_job mk job st =
     (case st of (el, w) \<Rightarrow>
        (case job of
           StartClient \<Rightarrow> start_connect N S elapsed connected timer_job () (el, w\<lparr>cl_connector := Some connector_new\<rparr>)
         | SendRequest i \<Rightarrow>
             do { c \<leftarrow> cl_conns w i;
                  (_, c, el, w) \<leftarrow> send_unwrap N (mk http_request) (c, el, w\<lparr>cl_conns := (cl_conns w)(i := None)\<rparr>);
                  Some (el, w\<lparr>cl_conns := (cl_conns w)(i \<mapsto> c)\<rparr>) }))"

subsection \<open>What the parts do\<close>

lemma test_client_net_simps [simp]: "nt_bytes (test_client_net N) = nt_bytes N" "nt_stream (test_client_net N) = nt_stream N"
  "nt_epoll (test_client_net N) = nt_epoll N" "nt_pipe (test_client_net N) = nt_pipe N" "nt_debug (test_client_net N) = nt_debug N"
  "nt_written (test_client_net N) h st = Some (True, st)" "nt_error (test_client_net N) h st = Some st"
  "nt_recv (test_client_net N) h bytes st = map_option (\<lambda>bytes. (bytes, st)) (test_client_on_recv (nt_bytes N) bytes)"
  by (simp_all add: test_client_net_def)

lemma test_client_ops_simps [simp]: "ch_attach (test_client_ops P E V) h i st = Some st"
  "ch_on_connect (test_client_ops P E V) h i st = test_client_on_connect P E i st"
  "ch_take_error (test_client_ops P E V) = ch_take_error V" "ch_fd (test_client_ops P E V) = ch_fd V"
  "ch_node (test_client_ops P E V) = ch_node V"
  by (simp_all add: test_client_ops_def)

lemma request_sent:
  assumes io: "roomy_socket (nt_bytes N) (nt_stream N) incoming ended outgoing room"
    and mk: "\<And>bs. bs_chunk (nt_bytes N) (mk bs) = bs"
    and c: "cl_conns w i = Some c" "tc_sending c = Some x" "bs_chunk (nt_bytes N) x = []"
      "tc_waiting c = Some y" "bs_chunk (nt_bytes N) y = []" "tc_write_enabled c" "78 \<le> room (tc_stream c)" "tc_writ_job c = HandlerJob ()"
  shows "\<exists>w' c'. test_client_run_job (test_client_net N) S elapsed connected timer_job mk (SendRequest i) (el, w) = Some (el, w') \<and>
    cl_conns w' i = Some c' \<and> outgoing (tc_stream c') = outgoing (tc_stream c) @ http_request \<and>
    tc_closed c' = tc_closed c \<and> tc_write_enabled c'"
proof -
  let ?N = "test_client_net N" and ?w = "w\<lparr>cl_conns := (cl_conns w)(i := None)\<rparr>"
  have io': "roomy_socket (nt_bytes ?N) (nt_stream ?N) incoming ended outgoing room" using io by simp
  have b: "bs_chunk (nt_bytes ?N) (mk http_request) = http_request" by (simp add: mk)
  have r: "bs_chunk (nt_bytes ?N) (mk http_request) \<noteq> []" "length (bs_chunk (nt_bytes ?N) (mk http_request)) \<le> room (tc_stream c)"
    using http_request_length c(7) unfolding b by auto
  have e: "bs_chunk (nt_bytes ?N) x = []" "bs_chunk (nt_bytes ?N) y = []" using c by simp_all
  obtain s' y' where send: "outgoing s' = outgoing (tc_stream c) @ http_request"
    "conn_send ?N (c, el, ?w) (mk http_request) = map_option (Pair (Inr (bs_len (nt_bytes ?N) (mk http_request))))
      (let c' = c\<lparr>tc_waiting := Some y', tc_stream := s', tc_write_triggered := False\<rparr>
       in do { (ret, st) \<leftarrow> run_writ_job ?N (tc_writ_job c) (el, ?w);
               if ret then Some (c', st) else close_unwrap ?N (c', st) })"
    using send_fits[OF io' c(2) e(1) c(4) e(2) c(6) r, of "(el, ?w)"] unfolding b by blast
  then show ?thesis using c(1,6,8) by (simp add: test_client_run_job_def send_unwrap_def run_writ_job_def)
qed

text \<open>The connector's event hands the stream over and queues the request.\<close>

lemma connected_queues:
  fixes w :: "('b, 's, unit, unit) client_world" and N :: "('b, 's, 'k, 'p, unit, ('b, 's, 'k, 'p, 't) test_client_env) net"
  assumes V: "ch_take_error V s = (Inr None, s')" "ch_fd V s' = fd" "\<And>st. ch_node V st = i"
    and sid: "sid = sel_id (po_selector (el_poll el))"
    and del: "k_ctl (nt_epoll N) (sel_kernel (po_selector (el_poll el))) EPOLL_CTL_DEL fd \<lparr>ee_events = 0, ee_u64 = 0\<rparr> = (Inr (), k1)"
    and add: "k_ctl (nt_epoll N) k1 EPOLL_CTL_ADD fd
      \<lparr>ee_events = ioevent_to_epoll (ready_bitor ready_readable ready_writable) opt_edge, ee_u64 = scast fd\<rparr> = (Inr (), k2)"
    and known: "sel_events_map (po_selector (el_poll el)) fd \<noteq> None"
    and c: "cl_connector w = Some c" "cr_stream c = Some (s, EvSocket fd sid)" "cr_timer c = None" "cr_job c = HandlerJob ()"
    and ev: "ready_is_writable (ready_from_usize val)"
    and q: "queued (po_queue (el_poll el)) []" and E: "fresh_nodes E" and P: "pipe_accepts (nt_pipe N)"
  shows "\<exists>el' w'. connector_event (test_client_net N) (test_client_ops (nt_pipe N) E V) S val (el, w) = Some (el', w') \<and>
    cl_conns w' i = Some ((conn_new N (EvSocket fd sid) s')
      \<lparr>tc_read_job := HandlerJob (), tc_writ_job := HandlerJob (), tc_close_job := HandlerJob ()\<rparr>) \<and>
    queued (po_queue (el_poll el')) [Job (ClientOther (SendRequest i))] \<and> sel_kernel (po_selector (el_poll el')) = k2 \<and>
    (\<exists>je. sel_events_map (po_selector (el_poll el')) fd = Some je \<and> je_job je = Job (ClientConnJob i))"
proof -
  let ?N = "test_client_net N" and ?V = "test_client_ops (nt_pipe N) E V" and ?w = "w\<lparr>cl_connector := None\<rparr>"
  let ?c = "conn_new ?N (EvSocket fd sid) s'"
  let ?w1 = "?w\<lparr>cl_conns := (cl_conns w)(i \<mapsto> ?c)\<rparr>"
  have V': "ch_take_error ?V s = (Inr None, s')" "ch_fd ?V s' = fd" "ch_node ?V (el, ?w) = i" using V by simp_all
  have at: "ch_attach ?V () i (el, cs_put client_store i ?c ?w) = Some (el, ?w1)" "cs_get client_store ?w1 i = Some ?c"
    by (simp_all add: client_store_def)
  have del': "k_ctl (nt_epoll ?N) (sel_kernel (po_selector (el_poll el))) EPOLL_CTL_DEL fd \<lparr>ee_events = 0, ee_u64 = 0\<rparr> = (Inr (), k1)"
    and add': "k_ctl (nt_epoll ?N) k1 EPOLL_CTL_ADD fd
      \<lparr>ee_events = ioevent_to_epoll (ready_bitor ready_readable ready_writable) opt_edge, ee_u64 = scast fd\<rparr> = (Inr (), k2)"
    using del add by simp_all
  let ?c' = "?c\<lparr>tc_read_job := HandlerJob (), tc_writ_job := HandlerJob (), tc_close_job := HandlerJob ()\<rparr>"
  let ?w2 = "?w\<lparr>cl_conns := (cl_conns w)(i \<mapsto> ?c')\<rparr>"
  obtain el1 where el1: "client_connected client_store ?N ?V () (s, EvSocket fd sid) (el, ?w) =
      do { st \<leftarrow> test_client_on_connect (nt_pipe N) E i (el1, ?w2); Some (True, st) }"
    "sel_kernel (po_selector (el_poll el1)) = k2" "po_queue (el_poll el1) = po_queue (el_poll el)"
    "sel_events_map (po_selector (el_poll el1)) fd = Some \<lparr>je_token_entry = \<lparr>ttype = SocketEvent, te_token = Token (scast fd)\<rparr>,
        je_job = Job (ClientConnJob i), je_ready = ready_empty\<rparr>"
    using connected_handover[OF V' at sid del' add' known] by (auto simp: client_store_def)
  have "queued (po_queue (el_poll el1)) []" using q el1(3) by simp
  from enqueue_current_queued[OF this E P, of "ClientOther (SendRequest i)" ?w2] obtain q1 where
    q1: "enqueue_current (nt_pipe N) E (ClientOther (SendRequest i)) (el1, ?w2) = Some (el1\<lparr>el_poll := (el_poll el1)\<lparr>po_queue := q1\<rparr>\<rparr>, ?w2)"
    "queued q1 [Job (ClientOther (SendRequest i))]" by auto
  let ?w3 = "?w2\<lparr>cl_connector := Some (c\<lparr>cr_stream := None\<rparr>)\<rparr>"
  have "connector_event ?N ?V S val (el, w) = Some (el1\<lparr>el_poll := (el_poll el1)\<lparr>po_queue := q1\<rparr>\<rparr>, ?w3)"
    using c ev el1(1) q1(1)
    by (simp add: connector_event_def connector_handle_event_def handle_on_connect_def test_client_on_connect_def Let_def)
  then show ?thesis using q1(2) el1(2,4)
    by (intro exI[of _ "el1\<lparr>el_poll := (el_poll el1)\<lparr>po_queue := q1\<rparr>\<rparr>"] exI[of _ ?w3]) (simp add: conn_new_def)
qed

subsection \<open>Properties\<close>

text \<open>A client that connects sends its request: when the kernel reports that the connect has succeeded, the
  next round but one of the loop has handed the descriptor to a connection and written the request
  on it, once and whole, and the connection stays open for the answer.\<close>

theorem client_requests:
  fixes w :: "('b, 's, unit, unit) client_world" and N :: "('b, 's, 'k, 'p, unit, ('b, 's, 'k, 'p, 't) test_client_env) net"
  assumes q: "queued (po_queue (el_poll el)) []" and pipe: "nonblocking_pipe (nt_pipe N) level cap" "pipe_accepts (nt_pipe N)"
    and E: "fresh_nodes E" and mk: "\<And>bs. bs_chunk (nt_bytes N) (mk bs) = bs"
    and wait1: "k_wait (nt_epoll N) (sel_kernel (po_selector (el_poll el))) 4096 (select_timeout_ms timeout) =
      (Inr [\<lparr>ee_events = m, ee_u64 = scast (fd :: i32)\<rparr>], k0)"
    and del: "k_ctl (nt_epoll N) k0 EPOLL_CTL_DEL fd \<lparr>ee_events = 0, ee_u64 = 0\<rparr> = (Inr (), k1)"
    and add: "k_ctl (nt_epoll N) k1 EPOLL_CTL_ADD fd
      \<lparr>ee_events = ioevent_to_epoll (ready_bitor ready_readable ready_writable) opt_edge, ee_u64 = scast fd\<rparr> = (Inr (), k2)"
    and wait2: "k_wait (nt_epoll N) k2 4096 (select_timeout_ms (Some (from_millis 0))) = (Inr [], k3)"
    and reg: "sel_events_map (po_selector (el_poll el)) fd =
      Some \<lparr>je_token_entry = \<lparr>ttype = SocketEvent, te_token = t\<rparr>, je_job = Job ConnectorJob, je_ready = r0\<rparr>"
    and ev: "ready_is_writable (ready_of_epoll m)"
    and V: "ch_take_error V s = (Inr None, s')" "ch_fd V s' = fd" "\<And>st. ch_node V st = i"
    and sid: "sid = sel_id (po_selector (el_poll el))"
    and c: "cl_connector w = Some c" "cr_stream c = Some (s, EvSocket fd sid)" "cr_timer c = None" "cr_job c = HandlerJob ()"
    and io: "roomy_socket (nt_bytes N) (nt_stream N) incoming ended outgoing room" and room: "78 \<le> room s'"
    and C: "cb_job C = client_job (test_client_net N) (test_client_ops (nt_pipe N) E V) S
      (test_client_run_job (test_client_net N) S elapsed connected timer_job mk)"
  shows "\<exists>el1 w1 el2 w2 c'. run_once (nt_epoll N) clk (nt_pipe N) S C timeout (el, w) = Some (Inr (), el1, w1) \<and>
    run_once (nt_epoll N) clk (nt_pipe N) S C timeout (el1, w1) = Some (Inr (), el2, w2) \<and>
    cl_conns w2 i = Some c' \<and> outgoing (tc_stream c') = outgoing s' @ http_request \<and> \<not> tc_closed c' \<and>
    (\<exists>je. sel_events_map (po_selector (el_poll el2)) fd = Some je \<and> je_job je = Job (ClientConnJob i))"
proof -
  let ?N = "test_client_net N" and ?V = "test_client_ops (nt_pipe N) E V" and ?val = "ready_as_usize (ready_of_epoll m)"
  let ?je = "\<lparr>je_token_entry = \<lparr>ttype = SocketEvent, te_token = t\<rparr>, je_job = Job ConnectorJob, je_ready = ready_of_epoll m\<rparr>"
  have io1: "[?je] = concat (map (dispatch_entry (sel_events_map (po_selector (el_poll el)))) [\<lparr>ee_events = m, ee_u64 = scast fd\<rparr>])"
    using reg by (simp add: dispatch_entry_def)
  obtain po where po: "queued (po_queue po) []" "same_jobs (sel_events_map (po_selector (el_poll el))) (sel_events_map (po_selector po))"
    "sel_id (po_selector po) = sid" "sel_kernel (po_selector po) = k0"
    "run_once (nt_epoll N) clk (nt_pipe N) S C timeout (el, w) =
      map_option (Pair (Inr ())) (connector_event ?N ?V S ?val (el\<lparr>el_poll := po\<rparr>, w))"
    using queued_round[OF q pipe(1) _ _ io1, of "nt_epoll N" timeout k0 clk S C w] wait1 sid
    by (auto simp: process_entry_def C client_job_def map_conv_bind_option comp_def)
  have known: "sel_events_map (po_selector po) fd \<noteq> None" using same_jobs_dom[OF po(2), of fd] reg by simp
  have val: "ready_is_writable (ready_from_usize ?val)" using ev by simp
  obtain el1 w1 where e: "connector_event ?N ?V S ?val (el\<lparr>el_poll := po\<rparr>, w) = Some (el1, w1)"
    "cl_conns w1 i = Some ((conn_new N (EvSocket fd sid) s')
      \<lparr>tc_read_job := HandlerJob (), tc_writ_job := HandlerJob (), tc_close_job := HandlerJob ()\<rparr>)"
    "queued (po_queue (el_poll el1)) [Job (ClientOther (SendRequest i))]" "sel_kernel (po_selector (el_poll el1)) = k2"
    "\<exists>je. sel_events_map (po_selector (el_poll el1)) fd = Some je \<and> je_job je = Job (ClientConnJob i)"
    using connected_queues[OF V, of sid "el\<lparr>el_poll := po\<rparr>" N k1 k2 w c ?val E S] po(1,3,4) del add known c val E pipe(2) by auto
  have io2: "[] = concat (map (dispatch_entry (sel_events_map (po_selector (el_poll el1)))) [])" by simp
  obtain po2 where po2: "same_jobs (sel_events_map (po_selector (el_poll el1))) (sel_events_map (po_selector po2))"
    "run_once (nt_epoll N) clk (nt_pipe N) S C timeout (el1, w1) =
      do { st \<leftarrow> test_client_run_job ?N S elapsed connected timer_job mk (SendRequest i) (el1\<lparr>el_poll := po2\<rparr>, w1); Some (Inr (), st) }"
    using queued_round[OF e(3) pipe(1) _ _ io2, of "nt_epoll N" timeout k3 clk S C w1] wait2 e(4)
    by (auto simp: C client_job_def)
  have B: "byte_buffer (nt_bytes N)"
    using buffered_socket.axioms(1)[OF roomy_socket.axioms(1)[OF io]] .
  let ?c1 = "(conn_new N (EvSocket fd sid) s')\<lparr>tc_read_job := HandlerJob (), tc_writ_job := HandlerJob (), tc_close_job := HandlerJob ()\<rparr>"
  have c1: "tc_sending ?c1 = Some (bs_with_capacity (nt_bytes N) 1024)" "tc_waiting ?c1 = Some (bs_with_capacity (nt_bytes N) 1024)"
    "bs_chunk (nt_bytes N) (bs_with_capacity (nt_bytes N) 1024) = []" "tc_write_enabled ?c1" "78 \<le> room (tc_stream ?c1)"
    "tc_writ_job ?c1 = HandlerJob ()" "\<not> tc_closed ?c1" "tc_stream ?c1 = s'"
    using room byte_buffer.chunk_new[OF B] by (simp_all add: conn_new_def)
  obtain w2 c' where f: "test_client_run_job ?N S elapsed connected timer_job mk (SendRequest i) (el1\<lparr>el_poll := po2\<rparr>, w1) =
      Some (el1\<lparr>el_poll := po2\<rparr>, w2)" "cl_conns w2 i = Some c'" "outgoing (tc_stream c') = outgoing s' @ http_request" "\<not> tc_closed c'"
    using request_sent[OF io mk e(2) c1(1,3,2,3-6), of S elapsed connected timer_job "el1\<lparr>el_poll := po2\<rparr>"] c1(7,8) by auto
  have "\<exists>je. sel_events_map (po_selector po2) fd = Some je \<and> je_job je = Job (ClientConnJob i)"
    using e(5) same_jobs_job[OF po2(1), of fd] by auto
  then show ?thesis
    using po(5) e(1) po2(2) f by (intro exI[of _ el1] exI[of _ w1] exI[of _ "el1\<lparr>el_poll := po2\<rparr>"] exI[of _ w2] exI[of _ c']) simp
qed

subsection \<open>A concrete run\<close>

type_synonym list_client_env = "(u8 list \<times> nat, sock, nat, nat, string entry option list) test_client_env"

definition list_client_calls :: "(sock, unit, list_client_env) client_ops" where
  "list_client_calls = \<lparr>ch_take_error = \<lambda>s. (Inr None, s), ch_fd = \<lambda>s. 7, ch_node = \<lambda>st. 0,
     ch_attach = \<lambda>_ _. Some, ch_on_connect = \<lambda>_ _. Some\<rparr>"

definition connecting_sock :: sock where
  "connecting_sock = \<lparr>sk_in = [], sk_ended = False, sk_out = [], sk_room = 90\<rparr>"

definition connecting_world :: "(u8 list \<times> nat, sock, unit, unit) client_world" where
  "connecting_world = \<lparr>cl_connector = Some \<lparr>cr_timer = None, cr_stream = Some (connecting_sock, EvSocket 7 1), cr_job = HandlerJob ()\<rparr>,
     cl_conns = (\<lambda>_. None), cl_rest = ()\<rparr>"

definition connecting_loop :: "(test_client_job client_job, nat, nat, string entry option list) event_loop" where
  "connecting_loop = \<lparr>el_run = True, el_poll = \<lparr>
     po_selector = \<lparr>sel_id = 1, sel_kernel = 0, sel_events_map = [7 \<mapsto>
       \<lparr>je_token_entry = \<lparr>ttype = SocketEvent, te_token = Token 9999999\<rparr>, je_job = Job ConnectorJob, je_ready = ready_empty\<rparr>]\<rparr>,
     po_queue = the (rqueue_new 1 0)\<rparr>, el_timer = one_timer\<rparr>"

definition test_client_callbacks :: "(test_client_job client_job, string, nat, nat, string entry option list,
    (u8 list \<times> nat, sock, unit, unit) client_world) callbacks" where
  "test_client_callbacks = \<lparr>cb_now = \<lambda>w. duration_zero,
     cb_job = client_job (test_client_net (list_net 4)) (test_client_ops (nt_pipe (list_net 4 :: (u8 list \<times> nat, sock, nat, nat, unit, list_client_env) net))
         least_env list_client_calls) (vec_slab :: (string entry option list, string entry) slab_ops)
       (test_client_run_job (test_client_net (list_net 4)) vec_slab duration_zero (Inl WouldBlock) ''t'' (\<lambda>bs. (bs, 0))),
     cb_timer = \<lambda>t. Some\<rparr>"

theorem client_requests_witness:
  "\<exists>el1 w1 el2 w2 c. run_once (once_kernel 4) ms_clock (count_pipe 65536) vec_slab test_client_callbacks None (connecting_loop, connecting_world) =
       Some (Inr (), el1, w1) \<and>
     run_once (once_kernel 4) ms_clock (count_pipe 65536) vec_slab test_client_callbacks None (el1, w1) = Some (Inr (), el2, w2) \<and>
     cl_conns w2 0 = Some c \<and> sk_out (tc_stream c) = http_request \<and> \<not> tc_closed c"
proof -
  let ?N = "list_net 4 :: (u8 list \<times> nat, sock, nat, nat, unit, list_client_env) net"
  have k: "nt_epoll ?N = once_kernel 4" "nt_pipe ?N = count_pipe 65536" by (simp_all add: list_net_def)
  have q: "queued (po_queue (el_poll connecting_loop)) []" by (simp add: connecting_loop_def new_queued[simplified])
  have pipe: "nonblocking_pipe (nt_pipe ?N) (\<lambda>p. p) 65536" "pipe_accepts (nt_pipe ?N)"
    using count_pipe.nonblocking_pipe_axioms count_pipe_accepts by (simp_all add: k)
  have mk: "bs_chunk (nt_bytes ?N) (bs, 0) = bs" for bs by (simp add: list_net_def list_bytes_def)
  have w1: "k_wait (nt_epoll ?N) (sel_kernel (po_selector (el_poll connecting_loop))) 4096 (select_timeout_ms None) =
      (Inr [\<lparr>ee_events = 4, ee_u64 = scast (7 :: i32)\<rparr>], 1)" by (simp add: k once_kernel_def connecting_loop_def)
  have del: "k_ctl (nt_epoll ?N) 1 EPOLL_CTL_DEL 7 \<lparr>ee_events = 0, ee_u64 = 0\<rparr> = (Inr (), 1)"
    and add: "k_ctl (nt_epoll ?N) 1 EPOLL_CTL_ADD 7
      \<lparr>ee_events = ioevent_to_epoll (ready_bitor ready_readable ready_writable) opt_edge, ee_u64 = scast (7 :: i32)\<rparr> = (Inr (), 1)"
    and w2: "k_wait (nt_epoll ?N) 1 4096 (select_timeout_ms (Some (from_millis 0))) = (Inr [], 1)"
    by (simp_all add: k once_kernel_def)
  have reg: "sel_events_map (po_selector (el_poll connecting_loop)) 7 =
      Some \<lparr>je_token_entry = \<lparr>ttype = SocketEvent, te_token = Token 9999999\<rparr>, je_job = Job ConnectorJob, je_ready = ready_empty\<rparr>"
    and sid: "1 = sel_id (po_selector (el_poll connecting_loop))" by (simp_all add: connecting_loop_def)
  have V: "ch_take_error list_client_calls connecting_sock = (Inr None, connecting_sock)" "ch_fd list_client_calls connecting_sock = 7"
    "\<And>st. ch_node list_client_calls st = 0" by (simp_all add: list_client_calls_def)
  let ?c = "\<lparr>cr_timer = None, cr_stream = Some (connecting_sock, EvSocket 7 1), cr_job = HandlerJob ()\<rparr>"
  have c: "cl_connector connecting_world = Some ?c" "cr_stream ?c = Some (connecting_sock, EvSocket 7 1)"
    "cr_timer ?c = None" "cr_job ?c = HandlerJob ()" by (simp_all add: connecting_world_def)
  have io: "roomy_socket (nt_bytes ?N) (nt_stream ?N) sk_in sk_ended sk_out sk_room" and room: "78 \<le> sk_room connecting_sock"
    and out: "sk_out connecting_sock = []"
    using list_room.roomy_socket_axioms by (simp_all add: list_net_def connecting_sock_def)
  have C: "cb_job test_client_callbacks = client_job (test_client_net ?N) (test_client_ops (nt_pipe ?N) least_env list_client_calls) vec_slab
      (test_client_run_job (test_client_net ?N) vec_slab duration_zero (Inl WouldBlock) ''t'' (\<lambda>bs. (bs, 0)))"
    by (simp add: test_client_callbacks_def)
  from client_requests[OF q pipe least_env_fresh mk w1 del add w2 reg epollout_ready V sid c io room C, of ms_clock]
  show ?thesis unfolding k out by auto
qed

end
