(* ===== verification/Tunnel.thy ===== *)
theory Tunnel
  imports Client Handlers
begin

section \<open>The example tunnel\<close>

text \<open>
  \<open>examples/tunnel.rs\<close>: for each connection it accepts, the tunnel connects to another server and copies the bytes
  of one to the other. Three objects belong to a client: the handler \<open>TunnelServer\<close> of its connection, the
  \<open>Tunnel\<close> with the connector, and the handler \<open>ServerSession\<close> of the connection to the server. Each lives in a map
  from its address and is absent while it is locked; the references between them are weak, except
  that of a \<open>TunnelServer\<close> to its \<open>Tunnel\<close>.
\<close>

datatype tunnel_handler = TunnelServer nat | ServerSession nat

datatype 'b tunnel_job = ConnectJob nat | Flush nat nat | Send nat 'b | ShutdownServer nat | ShutdownClient nat

record server_session =
  se_client_conn :: "nat option"
  se_server_conn :: "nat option"

record tunnel =
  tu_addr :: string
  tu_client :: nat
  tu_server_session :: "nat option"
  tu_client_conn :: "nat option"

record tunnel_server =
  tv_client_conn :: "nat option"
  tv_tunnel :: "nat option"

record 's tunnel_rest =
  tr_servers :: "nat \<rightharpoonup> tunnel_server"
  tr_tunnels :: "nat \<rightharpoonup> tunnel"
  tr_sessions :: "nat \<rightharpoonup> server_session"
  tr_connectors :: "nat \<rightharpoonup> ('s, tunnel_handler) connector"

type_synonym ('b, 's, 'l, 'k, 'p, 't) tunnel_env =
  "('b, 's, tunnel_handler, 'l, 'k, 'p, 't, 'b tunnel_job, 's tunnel_rest) server_env"

text \<open>What the handlers need beside a loop to give jobs to: whether a session can still be upgraded, the addresses of
  new objects, and what a connect to an address returns; \<open>tn_calls\<close> are the calls on streams.\<close>

record ('s, 'e) tunnel_ops = "'e handler_env" +
  tn_session_alive :: "'e \<Rightarrow> nat \<Rightarrow> bool"
  tn_server :: "'e \<Rightarrow> nat"
  tn_tunnel :: "'e \<Rightarrow> nat"
  tn_session :: "'e \<Rightarrow> nat"
  tn_connector :: "'e \<Rightarrow> nat"
  tn_conn :: "'e \<Rightarrow> nat"
  tn_connect :: "'e \<Rightarrow> string \<Rightarrow> ('s \<times> i32) io_result"
  tn_take_error :: "'s \<Rightarrow> io_error option io_result \<times> 's"
  tn_fd :: "'s \<Rightarrow> i32"

abbreviation base_env :: "('s, 'e) tunnel_ops \<Rightarrow> 'e handler_env" where
  "base_env E \<equiv> handler_env.truncate E"

subsection \<open>The session of the server's side\<close>

definition session_new :: "nat \<Rightarrow> server_session" where
  "session_new conn = \<lparr>se_client_conn = Some conn, se_server_conn = None\<rparr>"

definition session_get_client_conn :: "('s, 'e) tunnel_ops \<Rightarrow> 'e \<Rightarrow> server_session \<Rightarrow> nat option" where
  "session_get_client_conn E st s = upgrade (base_env E) st (se_client_conn s)"

definition session_get_server_conn :: "('s, 'e) tunnel_ops \<Rightarrow> 'e \<Rightarrow> server_session \<Rightarrow> nat option" where
  "session_get_server_conn E st s = upgrade (base_env E) st (se_server_conn s)"

definition session_attach_connection :: "nat \<Rightarrow> server_session \<Rightarrow> server_session" where
  "session_attach_connection conn s = s\<lparr>se_server_conn := Some conn\<rparr>"

definition session_on_connect ::
    "('b, 's, 'k, 'p, tunnel_handler, ('b, 's, 'l, 'k, 'p, 't) tunnel_env) net \<Rightarrow> ('s, ('b, 's, 'l, 'k, 'p, 't) tunnel_env) tunnel_ops
       \<Rightarrow> nat \<Rightarrow> server_session \<times> ('b, 's, 'l, 'k, 'p, 't) tunnel_env
       \<Rightarrow> (unit \<times> server_session \<times> ('b, 's, 'l, 'k, 'p, 't) tunnel_env) option" where
  "session_on_connect N E new_conn sst =
     (case sst of (s, st) \<Rightarrow>
        do { (res, st) \<leftarrow> with_conn new_conn (\<lambda>(c, st).
               case tn_take_error E (tc_stream c) of (r, str) \<Rightarrow> Some (r, c\<lparr>tc_stream := str\<rparr>, st)) st;
             case res of
               Inr (Some _) \<Rightarrow> Some ((), s, st)
             | _ \<Rightarrow>
                 (case session_get_client_conn E st s of
                    None \<Rightarrow> Some ((), s, st)
                  | Some cs \<Rightarrow>
                      do { st \<leftarrow> enqueue_current (nt_pipe N) (base_env E) (OtherJob (Flush new_conn cs)) st;
                           Some ((), s, st) }) })"

text \<open>The session stays locked while it sends.\<close>

definition session_on_recv ::
    "('b, 's, 'k, 'p, tunnel_handler, ('b, 's, 'l, 'k, 'p, 't) tunnel_env) net \<Rightarrow> ('s, ('b, 's, 'l, 'k, 'p, 't) tunnel_env) tunnel_ops
       \<Rightarrow> 'b \<Rightarrow> server_session \<times> ('b, 's, 'l, 'k, 'p, 't) tunnel_env
       \<Rightarrow> ('b \<times> server_session \<times> ('b, 's, 'l, 'k, 'p, 't) tunnel_env) option" where
  "session_on_recv N E bytes sst =
     (case sst of (s, st) \<Rightarrow>
        (case session_get_client_conn E st s of
           None \<Rightarrow> Some (bytes, s, st)
         | Some cs \<Rightarrow>
             if 0 < bs_len (nt_bytes N) bytes
             then do { (_, st) \<leftarrow> with_conn cs (send_unwrap N bytes) st;
                       bytes \<leftarrow> bs_advance (nt_bytes N) bytes (bs_len (nt_bytes N) bytes);
                       Some (bytes, s, st) }
             else Some (bytes, s, st)))"

definition session_on_written :: "server_session \<Rightarrow> bool \<times> server_session" where
  "session_on_written s = (True, s)"

definition session_on_error ::
    "('b, 's, 'k, 'p, tunnel_handler, ('b, 's, 'l, 'k, 'p, 't) tunnel_env) net \<Rightarrow> ('s, ('b, 's, 'l, 'k, 'p, 't) tunnel_env) tunnel_ops
       \<Rightarrow> server_session \<times> ('b, 's, 'l, 'k, 'p, 't) tunnel_env
       \<Rightarrow> (unit \<times> server_session \<times> ('b, 's, 'l, 'k, 'p, 't) tunnel_env) option" where
  "session_on_error N E sst =
     (case sst of (s, st) \<Rightarrow>
        (case session_get_client_conn E st s of
           None \<Rightarrow> Some ((), s, st)
         | Some cs \<Rightarrow>
             do { st \<leftarrow> enqueue_current (nt_pipe N) (base_env E) (OtherJob (ShutdownClient cs)) st;
                  Some ((), s, st) }))"

subsection \<open>The tunnel\<close>

abbreviation "with_session \<equiv> with_obj tr_sessions tr_sessions_update"
abbreviation "with_tunnel \<equiv> with_obj tr_tunnels tr_tunnels_update"
abbreviation "with_server \<equiv> with_obj tr_servers tr_servers_update"
abbreviation "with_connector \<equiv> with_obj tr_connectors tr_connectors_update"

definition tunnel_new :: "nat \<Rightarrow> string \<Rightarrow> nat \<Rightarrow> tunnel" where
  "tunnel_new client addr conn =
     \<lparr>tu_addr = addr, tu_client = client, tu_server_session = None, tu_client_conn = Some conn\<rparr>"

definition tunnel_get_client_conn :: "('s, 'e) tunnel_ops \<Rightarrow> 'e \<Rightarrow> tunnel \<Rightarrow> nat option" where
  "tunnel_get_client_conn E st t = upgrade (base_env E) st (tu_client_conn t)"

definition tunnel_get_server_session :: "('s, 'e) tunnel_ops \<Rightarrow> 'e \<Rightarrow> tunnel \<Rightarrow> nat option" where
  "tunnel_get_server_session E st t =
     (case tu_server_session t of Some h \<Rightarrow> if tn_session_alive E st h then Some h else None | None \<Rightarrow> None)"

text \<open>The session is locked to be asked for its connection.\<close>

definition tunnel_get_server_conn ::
    "('s, ('b, 's, 'l, 'k, 'p, 't) tunnel_env) tunnel_ops \<Rightarrow> tunnel \<times> ('b, 's, 'l, 'k, 'p, 't) tunnel_env
       \<Rightarrow> (nat option \<times> tunnel \<times> ('b, 's, 'l, 'k, 'p, 't) tunnel_env) option" where
  "tunnel_get_server_conn E tst =
     (case tst of (t, st) \<Rightarrow>
        (case tunnel_get_server_session E st t of
           Some h \<Rightarrow> do { (r, st) \<leftarrow> with_session h (\<lambda>(s, st). Some (session_get_server_conn E st s, s, st)) st; Some (r, t, st) }
         | None \<Rightarrow> Some (None, t, st)))"

text \<open>\<open>start_connect\<close> of the tunnel's client; \<open>S\<close>, \<open>elapsed\<close> and \<open>timer_job\<close> are for a timeout, which is not used.\<close>

definition tunnel_start_connect ::
    "('b, 's, 'k, 'p, tunnel_handler, ('b, 's, 'l, 'k, 'p, 't) tunnel_env) net \<Rightarrow> ('s, ('b, 's, 'l, 'k, 'p, 't) tunnel_env) tunnel_ops
       \<Rightarrow> ('t, 'x entry) slab_ops \<Rightarrow> duration \<Rightarrow> 'x \<Rightarrow> nat \<Rightarrow> string \<Rightarrow> tunnel_handler
       \<Rightarrow> ('b, 's, 'l, 'k, 'p, 't) tunnel_env \<Rightarrow> (unit \<times> ('b, 's, 'l, 'k, 'p, 't) tunnel_env) option" where
  "tunnel_start_connect N E S elapsed timer_job k addr h st =
     with_connector k (\<lambda>(c, st). do {
       (c, st) \<leftarrow> connector_connect (nt_epoll N) (nt_pipe N) S elapsed (tn_connect E st addr) (- 1) (Job (OtherJob (ConnectJob k)))
         timer_job (set_conn_job c (HandlerJob h), st);
       Some ((), c, st) }) st"

definition tunnel_connect ::
    "('b, 's, 'k, 'p, tunnel_handler, ('b, 's, 'l, 'k, 'p, 't) tunnel_env) net \<Rightarrow> ('s, ('b, 's, 'l, 'k, 'p, 't) tunnel_env) tunnel_ops
       \<Rightarrow> ('t, 'x entry) slab_ops \<Rightarrow> duration \<Rightarrow> 'x \<Rightarrow> tunnel \<times> ('b, 's, 'l, 'k, 'p, 't) tunnel_env
       \<Rightarrow> (unit \<times> tunnel \<times> ('b, 's, 'l, 'k, 'p, 't) tunnel_env) option" where
  "tunnel_connect N E S elapsed timer_job tst =
     (case tst of (t, el, w) \<Rightarrow>
        (case tunnel_get_client_conn E (el, w) t of
           None \<Rightarrow> Some ((), t, el, w)
         | Some cs \<Rightarrow>
             do { let h = tn_session E (el, w);
                  let w = w\<lparr>sw_rest := tr_sessions_update (\<lambda>m. m(h \<mapsto> session_new cs)) (sw_rest w)\<rparr>;
                  (_, st) \<leftarrow> tunnel_start_connect N E S elapsed timer_job (tu_client t) (tu_addr t) (ServerSession h) (el, w);
                  Some ((), t\<lparr>tu_server_session := Some h\<rparr>, st) }))"

subsection \<open>The session of the client's side\<close>

definition tunnel_server_new :: tunnel_server where
  "tunnel_server_new = \<lparr>tv_client_conn = None, tv_tunnel = None\<rparr>"

definition tunnel_server_get_client_conn :: "('s, 'e) tunnel_ops \<Rightarrow> 'e \<Rightarrow> tunnel_server \<Rightarrow> nat option" where
  "tunnel_server_get_client_conn E st v = upgrade (base_env E) st (tv_client_conn v)"

definition tunnel_server_get_server_conn ::
    "('s, ('b, 's, 'l, 'k, 'p, 't) tunnel_env) tunnel_ops \<Rightarrow> tunnel_server \<times> ('b, 's, 'l, 'k, 'p, 't) tunnel_env
       \<Rightarrow> (nat option \<times> tunnel_server \<times> ('b, 's, 'l, 'k, 'p, 't) tunnel_env) option" where
  "tunnel_server_get_server_conn E vst =
     (case vst of (v, st) \<Rightarrow>
        (case tv_tunnel v of
           Some t \<Rightarrow> do { (r, st) \<leftarrow> with_tunnel t (tunnel_get_server_conn E) st; Some (r, v, st) }
         | None \<Rightarrow> Some (None, v, st)))"

definition tunnel_server_attach_connection :: "nat \<Rightarrow> tunnel_server \<Rightarrow> tunnel_server" where
  "tunnel_server_attach_connection conn v = v\<lparr>tv_client_conn := Some conn\<rparr>"

definition tunnel_server_free_connection :: "tunnel_server \<Rightarrow> tunnel_server" where
  "tunnel_server_free_connection v = v\<lparr>tv_client_conn := None\<rparr>"

definition tunnel_server_on_accept ::
    "('b, 's, 'k, 'p, tunnel_handler, ('b, 's, 'l, 'k, 'p, 't) tunnel_env) net \<Rightarrow> ('s, ('b, 's, 'l, 'k, 'p, 't) tunnel_env) tunnel_ops
       \<Rightarrow> ('t, 'x entry) slab_ops \<Rightarrow> duration \<Rightarrow> 'x \<Rightarrow> tunnel_server \<times> ('b, 's, 'l, 'k, 'p, 't) tunnel_env
       \<Rightarrow> (unit \<times> tunnel_server \<times> ('b, 's, 'l, 'k, 'p, 't) tunnel_env) option" where
  "tunnel_server_on_accept N E S elapsed timer_job vst =
     (case vst of (v, el, w) \<Rightarrow>
        (case tunnel_server_get_client_conn E (el, w) v of
           None \<Rightarrow> Some ((), v, el, w)
         | Some cc \<Rightarrow>
             do { let k = tn_connector E (el, w);
                  let t = tn_tunnel E (el, w);
                  let w = w\<lparr>sw_rest := tr_tunnels_update (\<lambda>m. m(t \<mapsto> tunnel_new k ''127.0.0.1:80'' cc))
                    (tr_connectors_update (\<lambda>m. m(k \<mapsto> connector_new)) (sw_rest w))\<rparr>;
                  (_, st) \<leftarrow> with_tunnel t (tunnel_connect N E S elapsed timer_job) (el, w);
                  Some ((), v\<lparr>tv_tunnel := Some t\<rparr>, st) }))"

definition tunnel_server_on_recv ::
    "('b, 's, 'k, 'p, tunnel_handler, ('b, 's, 'l, 'k, 'p, 't) tunnel_env) net \<Rightarrow> ('s, ('b, 's, 'l, 'k, 'p, 't) tunnel_env) tunnel_ops
       \<Rightarrow> 'b \<Rightarrow> tunnel_server \<times> ('b, 's, 'l, 'k, 'p, 't) tunnel_env
       \<Rightarrow> ('b \<times> tunnel_server \<times> ('b, 's, 'l, 'k, 'p, 't) tunnel_env) option" where
  "tunnel_server_on_recv N E bytes vst =
     (case vst of (v, st) \<Rightarrow>
        if bs_len (nt_bytes N) bytes \<le> 0 then Some (bytes, v, st)
        else do { (conn, v, st) \<leftarrow> tunnel_server_get_server_conn E (v, st);
                  case conn of
                    None \<Rightarrow> Some (bytes, v, st)
                  | Some ss \<Rightarrow>
                      do { let bytes_clone = bytes;
                           bytes \<leftarrow> bs_advance (nt_bytes N) bytes (bs_len (nt_bytes N) bytes);
                           st \<leftarrow> enqueue_current (nt_pipe N) (base_env E) (OtherJob (Send ss bytes_clone)) st;
                           Some (bytes, v, st) } })"

definition tunnel_server_on_written :: "tunnel_server \<Rightarrow> bool \<times> tunnel_server" where
  "tunnel_server_on_written v = (True, v)"

definition tunnel_server_on_error ::
    "('b, 's, 'k, 'p, tunnel_handler, ('b, 's, 'l, 'k, 'p, 't) tunnel_env) net \<Rightarrow> ('s, ('b, 's, 'l, 'k, 'p, 't) tunnel_env) tunnel_ops
       \<Rightarrow> tunnel_server \<times> ('b, 's, 'l, 'k, 'p, 't) tunnel_env
       \<Rightarrow> (unit \<times> tunnel_server \<times> ('b, 's, 'l, 'k, 'p, 't) tunnel_env) option" where
  "tunnel_server_on_error N E vst =
     (case vst of (v, st) \<Rightarrow>
        do { let v = tunnel_server_free_connection v;
             (conn, v, st) \<leftarrow> tunnel_server_get_server_conn E (v, st);
             case conn of
               None \<Rightarrow> Some ((), v, st)
             | Some ss \<Rightarrow>
                 do { st \<leftarrow> enqueue_current (nt_pipe N) (base_env E) (OtherJob (ShutdownServer ss)) st;
                      Some ((), v, st) } })"

subsection \<open>The handlers as the library calls them\<close>

text \<open>A handler is locked for each of its calls. The calls that writing and closing make do not depend on
  the one that reading makes, so that the session can send while it receives.\<close>

definition tunnel_net0 ::
    "('b, 's, 'k, 'p, tunnel_handler, ('b, 's, 'l, 'k, 'p, 't) tunnel_env) net \<Rightarrow> ('s, ('b, 's, 'l, 'k, 'p, 't) tunnel_env) tunnel_ops
       \<Rightarrow> ('b, 's, 'k, 'p, tunnel_handler, ('b, 's, 'l, 'k, 'p, 't) tunnel_env) net" where
  "tunnel_net0 N E = N\<lparr>
     nt_written := \<lambda>h. (case h of
         TunnelServer a \<Rightarrow> with_server a (\<lambda>(v, st). case tunnel_server_on_written v of (r, v) \<Rightarrow> Some (r, v, st))
       | ServerSession a \<Rightarrow> with_session a (\<lambda>(s, st). case session_on_written s of (r, s) \<Rightarrow> Some (r, s, st))),
     nt_error := \<lambda>h st. map_option snd (case h of
         TunnelServer a \<Rightarrow> with_server a (tunnel_server_on_error N E) st
       | ServerSession a \<Rightarrow> with_session a (session_on_error N E) st)\<rparr>"

definition tunnel_net ::
    "('b, 's, 'k, 'p, tunnel_handler, ('b, 's, 'l, 'k, 'p, 't) tunnel_env) net \<Rightarrow> ('s, ('b, 's, 'l, 'k, 'p, 't) tunnel_env) tunnel_ops
       \<Rightarrow> ('b, 's, 'k, 'p, tunnel_handler, ('b, 's, 'l, 'k, 'p, 't) tunnel_env) net" where
  "tunnel_net N E = (tunnel_net0 N E)\<lparr>
     nt_recv := \<lambda>h bytes. (case h of
         TunnelServer a \<Rightarrow> with_server a (tunnel_server_on_recv N E bytes)
       | ServerSession a \<Rightarrow> with_session a (session_on_recv (tunnel_net0 N E) E bytes))\<rparr>"

text \<open>A server only makes handlers of its own kind and a connector is only given sessions, so that the other
  cases do not arise.\<close>

definition tunnel_sessions ::
    "('b, 's, 'k, 'p, tunnel_handler, ('b, 's, 'l, 'k, 'p, 't) tunnel_env) net \<Rightarrow> ('s, ('b, 's, 'l, 'k, 'p, 't) tunnel_env) tunnel_ops
       \<Rightarrow> ('t, 'x entry) slab_ops \<Rightarrow> duration \<Rightarrow> 'x \<Rightarrow> (tunnel_handler, ('b, 's, 'l, 'k, 'p, 't) tunnel_env) session_ops" where
  "tunnel_sessions N E S elapsed timer_job = \<lparr>
     sv_node = tn_conn E,
     sv_alloc = Some (\<lambda>(el, w). let a = tn_server E (el, w) in
       Some (TunnelServer a, el, w\<lparr>sw_rest := tr_servers_update (\<lambda>m. m(a \<mapsto> tunnel_server_new)) (sw_rest w)\<rparr>)),
     sv_attach = \<lambda>h i st. (case h of
         TunnelServer a \<Rightarrow> map_option snd (with_server a (\<lambda>(v, st). Some ((), tunnel_server_attach_connection i v, st)) st)
       | ServerSession _ \<Rightarrow> None),
     sv_on_accept = \<lambda>h st. (case h of
         TunnelServer a \<Rightarrow> map_option snd (with_server a (tunnel_server_on_accept N E S elapsed timer_job) st)
       | ServerSession _ \<Rightarrow> None)\<rparr>"

definition tunnel_client ::
    "('b, 's, 'k, 'p, tunnel_handler, ('b, 's, 'l, 'k, 'p, 't) tunnel_env) net \<Rightarrow> ('s, ('b, 's, 'l, 'k, 'p, 't) tunnel_env) tunnel_ops
       \<Rightarrow> ('s, tunnel_handler, ('b, 's, 'l, 'k, 'p, 't) tunnel_env) client_ops" where
  "tunnel_client N E = \<lparr>
     ch_take_error = tn_take_error E, ch_fd = tn_fd E, ch_node = tn_conn E,
     ch_attach = \<lambda>h i st. (case h of
         ServerSession a \<Rightarrow> map_option snd (with_session a (\<lambda>(s, st). Some ((), session_attach_connection i s, st)) st)
       | TunnelServer _ \<Rightarrow> None),
     ch_on_connect = \<lambda>h i st. (case h of
         ServerSession a \<Rightarrow> map_option snd (with_session a (session_on_connect N E i) st)
       | TunnelServer _ \<Rightarrow> None)\<rparr>"

definition server_store :: "('b, 's, 'h, 'o loop_job, ('b, 's, 'h, 'l, 'v) server_world) conn_store" where
  "server_store = \<lparr>cs_get = sw_conns, cs_put = \<lambda>i c w. w\<lparr>sw_conns := (sw_conns w)(i \<mapsto> c)\<rparr>, cs_job = ConnJob\<rparr>"

subsection \<open>The jobs\<close>

text \<open>The job of \<open>on_connect\<close> passes on what has come in before the server was there; \<open>on_recv\<close> and the two \<open>on_error\<close>
  make the jobs that send and shut down. \<open>tunnel_run_job\<close> runs them and the connector's.\<close>

definition tunnel_flush ::
    "('b, 's, 'k, 'p, tunnel_handler, ('b, 's, 'l, 'k, 'p, 't) tunnel_env) net \<Rightarrow> nat \<Rightarrow> nat
       \<Rightarrow> ('b, 's, 'l, 'k, 'p, 't) tunnel_env \<Rightarrow> (unit \<times> ('b, 's, 'l, 'k, 'p, 't) tunnel_env) option" where
  "tunnel_flush N new_conn cs st =
     with_conn new_conn (\<lambda>(ss, st).
       do { (ss, st) \<leftarrow> with_conn cs (\<lambda>(cc, st).
              do { bytes \<leftarrow> tc_read_buffer cc;
                   let len = bs_len (nt_bytes N) bytes;
                   if 0 < len
                   then do { (_, ss, st) \<leftarrow> send_unwrap N bytes (ss, st);
                             bytes \<leftarrow> bs_advance (nt_bytes N) bytes len;
                             Some (ss, cc\<lparr>tc_read_buffer := Some bytes\<rparr>, st) }
                   else Some (ss, cc, st) }) st;
            Some ((), ss, st) }) st"

definition tunnel_send ::
    "('b, 's, 'k, 'p, tunnel_handler, ('b, 's, 'l, 'k, 'p, 't) tunnel_env) net \<Rightarrow> nat \<Rightarrow> 'b
       \<Rightarrow> ('b, 's, 'l, 'k, 'p, 't) tunnel_env \<Rightarrow> (nat \<times> ('b, 's, 'l, 'k, 'p, 't) tunnel_env) option" where
  "tunnel_send N ss bytes st = with_conn ss (send_unwrap N bytes) st"

definition tunnel_shutdown_server ::
    "('b, 's, 'k, 'p, tunnel_handler, ('b, 's, 'l, 'k, 'p, 't) tunnel_env) net \<Rightarrow> nat
       \<Rightarrow> ('b, 's, 'l, 'k, 'p, 't) tunnel_env \<Rightarrow> (unit \<times> ('b, 's, 'l, 'k, 'p, 't) tunnel_env) option" where
  "tunnel_shutdown_server N ss st = with_conn ss (\<lambda>(c, st). case conn_shutdown N c ShutWrite of (_, c) \<Rightarrow> Some ((), c, st)) st"

definition tunnel_shutdown_client ::
    "('b, 's, 'k, 'p, tunnel_handler, ('b, 's, 'l, 'k, 'p, 't) tunnel_env) net \<Rightarrow> nat
       \<Rightarrow> ('b, 's, 'l, 'k, 'p, 't) tunnel_env \<Rightarrow> (unit \<times> ('b, 's, 'l, 'k, 'p, 't) tunnel_env) option" where
  "tunnel_shutdown_client N cs st =
     with_conn cs (\<lambda>(c, st). case conn_shutdown N c ShutWrite of (r, c) \<Rightarrow> do { _ \<leftarrow> unwrap r; Some ((), c, st) }) st"

definition tunnel_run_job ::
    "('b, 's, 'k, 'p, tunnel_handler, ('b, 's, 'l, 'k, 'p, 't) tunnel_env) net \<Rightarrow> ('s, ('b, 's, 'l, 'k, 'p, 't) tunnel_env) tunnel_ops
       \<Rightarrow> ('t, 'x entry) slab_ops \<Rightarrow> 'b tunnel_job \<Rightarrow> usize
       \<Rightarrow> ('b, 's, 'l, 'k, 'p, 't) tunnel_env \<Rightarrow> ('b, 's, 'l, 'k, 'p, 't) tunnel_env option" where
  "tunnel_run_job N E S job val st =
     (case job of
        ConnectJob k \<Rightarrow>
          map_option snd (with_connector k (\<lambda>(c, st).
            do { (r, c, st) \<leftarrow> connector_handle_event (nt_debug N) S (client_connected server_store N (tunnel_client N E)) (c, st) val;
                 _ \<leftarrow> unwrap r;
                 Some ((), c, st) }) st)
      | Flush new_conn cs \<Rightarrow> map_option snd (tunnel_flush N new_conn cs st)
      | Send ss bytes \<Rightarrow> map_option snd (tunnel_send N ss bytes st)
      | ShutdownServer ss \<Rightarrow> map_option snd (tunnel_shutdown_server N ss st)
      | ShutdownClient cs \<Rightarrow> map_option snd (tunnel_shutdown_client N cs st))"

text \<open>What \<open>main\<close> does with each loop of the pool.\<close>

definition tunnel_serve ::
    "'k epoll_ops \<Rightarrow> 'p pipe_ops \<Rightarrow> 'l \<Rightarrow> i32 \<Rightarrow> ('b tunnel_job loop_job, 'k, 'p, 't) event_loop
       \<Rightarrow> ('b, 's, 'l, 'k, 'p, 't) tunnel_env option" where
  "tunnel_serve K P listener fd poller =
     start_internal K P (poller, server_new listener fd
       \<lparr>tr_servers = \<lambda>_. None, tr_tunnels = \<lambda>_. None, tr_sessions = \<lambda>_. None, tr_connectors = \<lambda>_. None\<rparr>)"

subsection \<open>Locking\<close>

interpretation servers: object_table tr_servers tr_servers_update
  by unfold_locales auto

interpretation tunnels: object_table tr_tunnels tr_tunnels_update
  by unfold_locales auto

interpretation sessions: object_table tr_sessions tr_sessions_update
  by unfold_locales auto

interpretation connectors: object_table tr_connectors tr_connectors_update
  by unfold_locales auto

lemma base_env_simps [simp]: "he_alive (base_env E) = he_alive E" "he_node (base_env E) = he_node E"
  by (simp_all add: handler_env.truncate_def)

lemma tunnel_net_simps [simp]: "nt_bytes (tunnel_net0 N E) = nt_bytes N" "nt_stream (tunnel_net0 N E) = nt_stream N"
  "nt_epoll (tunnel_net0 N E) = nt_epoll N" "nt_pipe (tunnel_net0 N E) = nt_pipe N" "nt_debug (tunnel_net0 N E) = nt_debug N"
  "nt_bytes (tunnel_net N E) = nt_bytes N" "nt_stream (tunnel_net N E) = nt_stream N"
  "nt_epoll (tunnel_net N E) = nt_epoll N" "nt_pipe (tunnel_net N E) = nt_pipe N" "nt_debug (tunnel_net N E) = nt_debug N"
  by (simp_all add: tunnel_net0_def tunnel_net_def)

text \<open>The call that reading makes is not used by sending.\<close>

lemma send_any_recv: "conn_send (N\<lparr>nt_recv := f\<rparr>) cst bytes = conn_send N cst bytes"
proof (cases N)
  case (fields B S K P d r w e)
  show ?thesis
    unfolding fields net.update_convs net.select_convs conn_send_def write_unwrap_def write_data_def take_to_write_def
      close_unwrap_def handle_close_def run_writ_job_def run_close_job_def close_stream_def
    by (rule refl)
qed

subsection \<open>From the server to the client\<close>

lemma client_written:
  assumes "tr_servers (sw_rest w) k = Some v"
  shows "run_writ_job (tunnel_net0 N E) (HandlerJob (TunnelServer k)) (el, w) = Some (True, el, w)"
proof -
  have "with_server k (\<lambda>(v, st). case tunnel_server_on_written v of (r, v) \<Rightarrow> Some (r, v, st)) (el, w) = Some (True, el, w)"
    using assms by (rule servers.with_obj_keep) (simp_all add: tunnel_server_on_written_def)
  then show ?thesis by (simp add: run_writ_job_def tunnel_net0_def)
qed

lemma session_sends:
  assumes io: "roomy_socket (nt_bytes N) (nt_stream N) incoming ended outgoing room"
    and s: "tr_sessions (sw_rest w) h = Some s" "se_client_conn s = Some i" and alive: "\<And>st. he_alive E st i"
    and c: "sw_conns w i = Some c" "can_send N c" "tc_writ_job c = HandlerJob (TunnelServer k)" and v: "tr_servers (sw_rest w) k = Some v"
    and b: "bs_chunk (nt_bytes N) b \<noteq> []" "length (bs_chunk (nt_bytes N) b) \<le> room (tc_stream c)"
  shows "\<exists>b' c'. run_read_job (tunnel_net N E) (HandlerJob (ServerSession h)) b (el, w) =
      Some (b', el, w\<lparr>sw_conns := (sw_conns w)(i \<mapsto> c')\<rparr>) \<and>
    bs_chunk (nt_bytes N) b' = [] \<and> can_send N c' \<and> tc_writ_job c' = tc_writ_job c \<and>
    outgoing (tc_stream c') = outgoing (tc_stream c) @ bs_chunk (nt_bytes N) b \<and>
    room (tc_stream c') = room (tc_stream c) - length (bs_chunk (nt_bytes N) b)"
proof -
  let ?N = "tunnel_net0 N E" and ?rest = "tr_sessions_update (\<lambda>m. m(h := None)) (sw_rest w)"
  let ?w = "w\<lparr>sw_rest := ?rest, sw_conns := (sw_conns w)(i := None)\<rparr>"
  obtain x y where xy: "tc_sending c = Some x" "bs_chunk (nt_bytes N) x = []" "tc_waiting c = Some y" "bs_chunk (nt_bytes N) y = []"
    "tc_write_enabled c" using c(2) unfolding can_send_def by blast
  have io': "roomy_socket (nt_bytes ?N) (nt_stream ?N) incoming ended outgoing room" using io by simp
  have e: "bs_chunk (nt_bytes ?N) x = []" "bs_chunk (nt_bytes ?N) y = []" "bs_chunk (nt_bytes ?N) b \<noteq> []"
    "length (bs_chunk (nt_bytes ?N) b) \<le> room (tc_stream c)" using xy b by simp_all
  obtain s' y' where send: "bs_chunk (nt_bytes N) y' = []" "outgoing s' = outgoing (tc_stream c) @ bs_chunk (nt_bytes N) b"
    "room s' = room (tc_stream c) - length (bs_chunk (nt_bytes N) b)"
    "conn_send ?N (c, el, ?w) b = map_option (Pair (Inr (bs_len (nt_bytes ?N) b)))
      (let c' = c\<lparr>tc_waiting := Some y', tc_stream := s', tc_write_triggered := False\<rparr>
       in do { (ret, st) \<leftarrow> run_writ_job ?N (tc_writ_job c) (el, ?w);
               if ret then Some (c', st) else close_unwrap ?N (c', st) })"
    using send_fits[OF io' xy(1) e(1) xy(3) e(2) xy(5) e(3,4), of "(el, ?w)"] by auto
  let ?c = "c\<lparr>tc_waiting := Some y', tc_stream := s', tc_write_triggered := False\<rparr>"
  have "tr_servers (sw_rest ?w) k = Some v" using v by simp
  from client_written[OF this, of N E el] have "conn_send ?N (c, el, ?w) b = Some (Inr (bs_len (nt_bytes N) b), ?c, el, ?w)"
    unfolding send(4) c(3) Let_def by simp
  then have su: "with_conn i (send_unwrap ?N b) (el, w\<lparr>sw_rest := ?rest\<rparr>) =
      Some (bs_len (nt_bytes N) b, el, (w\<lparr>sw_conns := (sw_conns w)(i \<mapsto> ?c)\<rparr>)\<lparr>sw_rest := ?rest\<rparr>)"
    using c(1) by (simp add: with_conn_def send_unwrap_def)
  have B: "byte_buffer (nt_bytes N)" using buffered_socket.axioms(1)[OF roomy_socket.axioms(1)[OF io]] .
  obtain b' where b': "bs_advance (nt_bytes N) b (bs_len (nt_bytes N) b) = Some b'" "bs_chunk (nt_bytes N) b' = []"
    using byte_buffer.chunk_advance[OF B, of "bs_len (nt_bytes N) b" b] by (auto simp: bs_len_def)
  have "with_session h (session_on_recv ?N E b) (el, w) = Some (b', el, w\<lparr>sw_conns := (sw_conns w)(i \<mapsto> ?c)\<rparr>)"
    using s(1) by (rule sessions.with_obj_keep)
      (use s(2) alive su b'(1) b(1) in \<open>simp_all add: session_on_recv_def session_get_client_conn_def upgrade_def bs_len_def\<close>)
  moreover have "can_send N ?c" using xy send(1) by (simp add: can_send_def)
  ultimately show ?thesis using b'(2) send(2,3)
    by (intro exI[of _ b'] exI[of _ ?c]) (simp add: run_read_job_def tunnel_net_def)
qed

text \<open>What is true while the session passes bytes on.\<close>

definition passing_on ::
    "('b, 's, 'k, 'p, tunnel_handler, ('b, 's, 'l, 'k, 'p, 't) tunnel_env) net \<Rightarrow> ('s \<Rightarrow> u8 list) \<Rightarrow> ('s \<Rightarrow> nat) \<Rightarrow> nat \<Rightarrow> nat
       \<Rightarrow> u8 list \<Rightarrow> ('b, 's, 'l, 'k, 'p, 't) tunnel_env \<Rightarrow> u8 list \<Rightarrow> u8 list \<Rightarrow> ('b, 's, 'l, 'k, 'p, 't) tunnel_env \<Rightarrow> bool" where
  "passing_on N outgoing room i k sent st0 held rest st \<longleftrightarrow> held = [] \<and> fst st = fst st0 \<and>
     (\<exists>c. snd st = (snd st0)\<lparr>sw_conns := (sw_conns (snd st0))(i \<mapsto> c)\<rparr> \<and> can_send N c \<and>
        tc_writ_job c = HandlerJob (TunnelServer k) \<and> outgoing (tc_stream c) @ rest = sent \<and> length rest \<le> room (tc_stream c))"

lemma session_keeps:
  assumes io: "roomy_socket (nt_bytes N) (nt_stream N) incoming ended outgoing room"
    and s: "tr_sessions (sw_rest w) h = Some s" "se_client_conn s = Some i" and alive: "\<And>st. he_alive E st i"
    and v: "tr_servers (sw_rest w) k = Some v"
  shows "job_keeps (tunnel_net N E) (HandlerJob (ServerSession h)) (passing_on N outgoing room i k sent (el, w))"
  unfolding job_keeps_def
proof (intro allI impI)
  fix held bs rest b st
  assume J: "passing_on N outgoing room i k sent (el, w) held (bs @ rest) st" and b: "bs_chunk (nt_bytes (tunnel_net N E)) b = held @ bs"
  obtain c where c: "st = (el, w\<lparr>sw_conns := (sw_conns w)(i \<mapsto> c)\<rparr>)" "can_send N c" "tc_writ_job c = HandlerJob (TunnelServer k)"
    "outgoing (tc_stream c) @ bs @ rest = sent" "length (bs @ rest) \<le> room (tc_stream c)"
    using J by (cases st) (auto simp: passing_on_def)
  have bs: "bs_chunk (nt_bytes N) b = bs" using b J by (simp add: passing_on_def)
  let ?w = "w\<lparr>sw_conns := (sw_conns w)(i \<mapsto> c)\<rparr>"
  have s': "tr_sessions (sw_rest ?w) h = Some s" "tr_servers (sw_rest ?w) k = Some v" "sw_conns ?w i = Some c" using s v by simp_all
  show "\<exists>b' st'. run_read_job (tunnel_net N E) (HandlerJob (ServerSession h)) b st = Some (b', st') \<and>
      passing_on N outgoing room i k sent (el, w) (bs_chunk (nt_bytes (tunnel_net N E)) b') rest st'"
  proof (cases "bs = []")
    case True
    have "with_session h (session_on_recv (tunnel_net0 N E) E b) (el, ?w) = Some (b, el, ?w)"
      using s'(1) by (rule sessions.with_obj_keep)
        (use s(2) alive bs True in \<open>simp_all add: session_on_recv_def session_get_client_conn_def upgrade_def bs_len_def\<close>)
    then show ?thesis using J bs True c(1)
      by (intro exI[of _ b] exI[of _ st]) (simp add: run_read_job_def tunnel_net_def passing_on_def)
  next
    case False
    obtain b' c' where r: "run_read_job (tunnel_net N E) (HandlerJob (ServerSession h)) b (el, ?w) =
        Some (b', el, ?w\<lparr>sw_conns := (sw_conns ?w)(i \<mapsto> c')\<rparr>)"
      "bs_chunk (nt_bytes N) b' = []" "can_send N c'" "tc_writ_job c' = tc_writ_job c"
      "outgoing (tc_stream c') = outgoing (tc_stream c) @ bs" "room (tc_stream c') = room (tc_stream c) - length bs"
      using session_sends[OF io s'(1) s(2) alive s'(3) c(2,3) s'(2), of b el] False c(5) unfolding bs by auto
    then show ?thesis using c(3-5) unfolding c(1)
      by (intro exI[of _ b'] exI[of _ "(el, w\<lparr>sw_conns := (sw_conns w)(i \<mapsto> c')\<rparr>)"]) (auto simp: passing_on_def)
  qed
qed

subsection \<open>From the client to the server\<close>

lemma get_server_conn_spec:
  assumes v: "tv_tunnel v = Some t" and t: "tr_tunnels (sw_rest w) t = Some tun" "tu_server_session tun = Some h"
    and h: "\<And>st. tn_session_alive E st h" "tr_sessions (sw_rest w) h = Some s"
    and alive: "\<And>st j. se_server_conn s = Some j \<Longrightarrow> he_alive E st j"
  shows "tunnel_server_get_server_conn E (v, el, w) = Some (se_server_conn s, v, el, w)"
proof -
  let ?w = "w\<lparr>sw_rest := tr_tunnels_update (\<lambda>m. m(t := None)) (sw_rest w)\<rparr>"
  have up: "session_get_server_conn E st s = se_server_conn s" for st
    using alive by (simp add: session_get_server_conn_def upgrade_def split: option.split)
  have "tr_sessions (sw_rest ?w) h = Some s" using h(2) by simp
  then have "with_session h (\<lambda>(s, st). Some (session_get_server_conn E st s, s, st)) (el, ?w) = Some (se_server_conn s, el, ?w)"
    by (rule sessions.with_obj_keep) (simp_all add: up)
  then have "tunnel_get_server_conn E (tun, el, ?w) = Some (se_server_conn s, tun, el, ?w)"
    using t(2) h(1) by (simp add: tunnel_get_server_conn_def tunnel_get_server_session_def)
  with t(1) have "with_tunnel t (tunnel_get_server_conn E) (el, w) = Some (se_server_conn s, el, w)"
    by (rule tunnels.with_obj_keep[OF _ refl])
  then show ?thesis using v by (simp add: tunnel_server_get_server_conn_def)
qed

text \<open>The handler \<open>k\<close> of a client's connection with its tunnel and the session \<open>h\<close>, whose connection to the server
  is \<open>conn\<close> when it is there.\<close>

definition tunnel_joined ::
    "('s, 'e) tunnel_ops \<Rightarrow> 's tunnel_rest \<Rightarrow> nat \<Rightarrow> nat \<Rightarrow> nat option \<Rightarrow> bool" where
  "tunnel_joined E rest k h conn \<longleftrightarrow> (\<exists>v t tun s. tr_servers rest k = Some v \<and> tv_tunnel v = Some t \<and>
     tr_tunnels rest t = Some tun \<and> tu_server_session tun = Some h \<and> (\<forall>st. tn_session_alive E st h) \<and>
     tr_sessions rest h = Some s \<and> se_server_conn s = conn \<and> (\<forall>st j. conn = Some j \<longrightarrow> he_alive E st j))"

text \<open>What is true while the handler queues bytes for the server: what has been taken is in the jobs, in order.\<close>

definition sending_up ::
    "('b, 's, 'k, 'p, tunnel_handler, ('b, 's, 'l, 'k, 'p, 't) tunnel_env) net \<Rightarrow> nat \<Rightarrow> u8 list
       \<Rightarrow> ('b, 's, 'l, 'k, 'p, 't) tunnel_env \<Rightarrow> u8 list \<Rightarrow> u8 list \<Rightarrow> ('b, 's, 'l, 'k, 'p, 't) tunnel_env \<Rightarrow> bool" where
  "sending_up N j bytes st0 held rest st \<longleftrightarrow> held = [] \<and> snd st = snd st0 \<and>
     po_selector (el_poll (fst st)) = po_selector (el_poll (fst st0)) \<and>
     (\<exists>bss. queued (po_queue (el_poll (fst st))) (map (\<lambda>b. Job (OtherJob (Send j b))) bss) \<and>
        concat (map (bs_chunk (nt_bytes N)) bss) @ rest = bytes \<and> length bss + length rest \<le> length bytes \<and>
        (\<forall>b \<in> set bss. bs_chunk (nt_bytes N) b \<noteq> []))"

lemma server_queues:
  fixes N :: "('b, 's, 'k, 'p, tunnel_handler, ('b, 's, 'l, 'k, 'p, 't) tunnel_env) net"
  assumes B: "byte_buffer (nt_bytes N)" and E: "fresh_nodes (base_env E)" and P: "pipe_accepts (nt_pipe N)"
    and joined: "tunnel_joined E (sw_rest w) k h (Some j)"
  shows "job_keeps (tunnel_net N E) (HandlerJob (TunnelServer k)) (sending_up N j bytes (el, w))"
  unfolding job_keeps_def
proof (intro allI impI)
  obtain v t tun s where v: "tr_servers (sw_rest w) k = Some v" "tv_tunnel v = Some t"
    and t: "tr_tunnels (sw_rest w) t = Some tun" "tu_server_session tun = Some h"
    and h: "\<And>st. tn_session_alive E st h" "tr_sessions (sw_rest w) h = Some s" "se_server_conn s = Some j" "\<And>st. he_alive E st j"
    using joined unfolding tunnel_joined_def by blast
  fix held bs rest b and st :: "('b, 's, 'l, 'k, 'p, 't) tunnel_env"
  assume J: "sending_up N j bytes (el, w) held (bs @ rest) st" and b: "bs_chunk (nt_bytes (tunnel_net N E)) b = held @ bs"
  obtain el1 where st: "st = (el1, w)" "held = []" "po_selector (el_poll el1) = po_selector (el_poll el)"
    using J by (cases st) (auto simp: sending_up_def)
  obtain bss where bss: "queued (po_queue (el_poll el1)) (map (\<lambda>b. Job (OtherJob (Send j b))) bss)"
    "concat (map (bs_chunk (nt_bytes N)) bss) @ bs @ rest = bytes" "length bss + length (bs @ rest) \<le> length bytes"
    "\<forall>b \<in> set bss. bs_chunk (nt_bytes N) b \<noteq> []" using J unfolding sending_up_def st(1) by auto
  have c: "bs_chunk (nt_bytes N) b = bs" using b st(2) by simp
  let ?w = "w\<lparr>sw_rest := tr_servers_update (\<lambda>m. m(k := None)) (sw_rest w)\<rparr>"
  show "\<exists>b' st'. run_read_job (tunnel_net N E) (HandlerJob (TunnelServer k)) b st = Some (b', st') \<and>
      sending_up N j bytes (el, w) (bs_chunk (nt_bytes (tunnel_net N E)) b') rest st'"
  proof (cases "bs = []")
    case True
    have "with_server k (tunnel_server_on_recv N E b) (el1, w) = Some (b, el1, w)"
      using v(1) by (rule servers.with_obj_keep) (use c True in \<open>simp_all add: tunnel_server_on_recv_def bs_len_def\<close>)
    then show ?thesis using J c True st
      by (intro exI[of _ b] exI[of _ st]) (simp add: run_read_job_def tunnel_net_def)
  next
    case False
    obtain b' where b': "bs_advance (nt_bytes N) b (length bs) = Some b'" "bs_chunk (nt_bytes N) b' = []"
      using byte_buffer.chunk_advance[OF B, of "length bs" b] c by auto
    obtain q where q: "enqueue_current (nt_pipe N) (base_env E) (OtherJob (Send j b)) (el1, ?w) =
        Some (el1\<lparr>el_poll := (el_poll el1)\<lparr>po_queue := q\<rparr>\<rparr>, ?w)"
      "queued q (map (\<lambda>b. Job (OtherJob (Send j b))) bss @ [Job (OtherJob (Send j b))])"
      using enqueue_current_queued[OF bss(1) E P] by blast
    have get: "tunnel_server_get_server_conn E (v, el1, ?w) = Some (Some j, v, el1, ?w)"
      using get_server_conn_spec[of v t ?w tun h E s el1] v(2) t h by simp
    let ?st' = "(el1\<lparr>el_poll := (el_poll el1)\<lparr>po_queue := q\<rparr>\<rparr>, w)"
    have "with_server k (tunnel_server_on_recv N E b) (el1, w) = Some (b', ?st')"
      using v(1) by (rule servers.with_obj_keep)
        (use c False get q(1) b'(1) in \<open>simp_all add: tunnel_server_on_recv_def bs_len_def\<close>)
    then have run: "run_read_job (tunnel_net N E) (HandlerJob (TunnelServer k)) b st = Some (b', ?st')"
      by (simp add: st(1) run_read_job_def tunnel_net_def)
    have "length (bss @ [b]) + length rest \<le> length bytes" using bss(3) False by (cases bs) simp_all
    then have "sending_up N j bytes (el, w) (bs_chunk (nt_bytes N) b') rest ?st'"
      using q(2) b'(2) st(3) bss(2,4) c False unfolding sending_up_def by (simp, intro exI[of _ "bss @ [b]"]) simp
    then show ?thesis using run by auto
  qed
qed

lemma server_written:
  assumes "tr_sessions (sw_rest w) h = Some s"
  shows "run_writ_job (tunnel_net N E) (HandlerJob (ServerSession h)) (el, w) = Some (True, el, w)"
proof -
  have "with_session h (\<lambda>(s, st). case session_on_written s of (r, s) \<Rightarrow> Some (r, s, st)) (el, w) = Some (True, el, w)"
    using assms by (rule sessions.with_obj_keep) (simp_all add: session_on_written_def)
  then show ?thesis by (simp add: run_writ_job_def tunnel_net0_def tunnel_net_def)
qed

lemma sends_all:
  assumes io: "roomy_socket (nt_bytes N) (nt_stream N) incoming ended outgoing room"
    and h: "tr_sessions (sw_rest w) h = Some s"
  shows "sw_conns w j = Some c \<Longrightarrow> can_send N c \<Longrightarrow> tc_writ_job c = HandlerJob (ServerSession h) \<Longrightarrow>
    length (concat (map (bs_chunk (nt_bytes N)) bss)) \<le> room (tc_stream c) \<Longrightarrow> \<forall>b \<in> set bss. bs_chunk (nt_bytes N) b \<noteq> [] \<Longrightarrow>
    cb_job C = server_job (tunnel_net N E) V L (tunnel_run_job (tunnel_net N E) E S) \<Longrightarrow>
    \<exists>c'. run_jobs C (map (\<lambda>b. Job (OtherJob (Send j b))) bss) (el, w) = Some (el, w\<lparr>sw_conns := (sw_conns w)(j \<mapsto> c')\<rparr>) \<and>
      outgoing (tc_stream c') = outgoing (tc_stream c) @ concat (map (bs_chunk (nt_bytes N)) bss) \<and> can_send N c'"
  using h
proof (induction bss arbitrary: w c)
  case Nil
  have w: "w\<lparr>sw_conns := (sw_conns w)(j \<mapsto> c)\<rparr> = w" using Nil.prems(1) by (simp add: fun_upd_idem)
  show ?case by (rule exI[of _ c], unfold w) (use Nil.prems(2) in simp)
next
  case (Cons b bss)
  let ?N = "tunnel_net N E" and ?w = "w\<lparr>sw_conns := (sw_conns w)(j := None)\<rparr>"
  obtain x y where xy: "tc_sending c = Some x" "bs_chunk (nt_bytes N) x = []" "tc_waiting c = Some y" "bs_chunk (nt_bytes N) y = []"
    "tc_write_enabled c" using Cons.prems(2) unfolding can_send_def by blast
  have io': "roomy_socket (nt_bytes ?N) (nt_stream ?N) incoming ended outgoing room" using io by simp
  have e: "bs_chunk (nt_bytes ?N) x = []" "bs_chunk (nt_bytes ?N) y = []" "bs_chunk (nt_bytes ?N) b \<noteq> []"
    "length (bs_chunk (nt_bytes ?N) b) \<le> room (tc_stream c)" using xy Cons.prems(4,5) by simp_all
  obtain s' y' where send: "bs_chunk (nt_bytes N) y' = []" "outgoing s' = outgoing (tc_stream c) @ bs_chunk (nt_bytes N) b"
    "room s' = room (tc_stream c) - length (bs_chunk (nt_bytes N) b)"
    "conn_send ?N (c, el, ?w) b = map_option (Pair (Inr (bs_len (nt_bytes ?N) b)))
      (let c' = c\<lparr>tc_waiting := Some y', tc_stream := s', tc_write_triggered := False\<rparr>
       in do { (ret, st) \<leftarrow> run_writ_job ?N (tc_writ_job c) (el, ?w);
               if ret then Some (c', st) else close_unwrap ?N (c', st) })"
    using send_fits[OF io' xy(1) e(1) xy(3) e(2) xy(5) e(3,4), of "(el, ?w)"] by auto
  let ?c = "c\<lparr>tc_waiting := Some y', tc_stream := s', tc_write_triggered := False\<rparr>"
  let ?w1 = "w\<lparr>sw_conns := (sw_conns w)(j \<mapsto> ?c)\<rparr>"
  have "tr_sessions (sw_rest ?w) h = Some s" using Cons.prems(7) by simp
  from server_written[OF this, of N E el] have "conn_send ?N (c, el, ?w) b = Some (Inr (bs_len (nt_bytes N) b), ?c, el, ?w)"
    unfolding send(4) Cons.prems(3) Let_def by simp
  then have one: "cb_job C (Job (OtherJob (Send j b))) 0 (el, w) = Some (el, ?w1)"
    using Cons.prems(1,6) by (simp add: server_job_def tunnel_run_job_def tunnel_send_def with_conn_def send_unwrap_def)
  have p: "sw_conns ?w1 j = Some ?c" "can_send N ?c" "tc_writ_job ?c = HandlerJob (ServerSession h)"
    "length (concat (map (bs_chunk (nt_bytes N)) bss)) \<le> room (tc_stream ?c)" "\<forall>b \<in> set bss. bs_chunk (nt_bytes N) b \<noteq> []"
    "tr_sessions (sw_rest ?w1) h = Some s"
    using xy send(1,3) Cons.prems by (auto simp: can_send_def)
  obtain c' where c': "run_jobs C (map (\<lambda>b. Job (OtherJob (Send j b))) bss) (el, ?w1) = Some (el, ?w1\<lparr>sw_conns := (sw_conns ?w1)(j \<mapsto> c')\<rparr>)"
    "outgoing (tc_stream c') = outgoing (tc_stream ?c) @ concat (map (bs_chunk (nt_bytes N)) bss)" "can_send N c'"
    using Cons.IH[OF p(1-5) Cons.prems(6) p(6)] by blast
  have "run_jobs C (map (\<lambda>b. Job (OtherJob (Send j b))) (b # bss)) (el, w) = Some (el, w\<lparr>sw_conns := (sw_conns w)(j \<mapsto> c')\<rparr>)"
    using one c'(1) by simp
  moreover have "outgoing (tc_stream c') = outgoing (tc_stream c) @ concat (map (bs_chunk (nt_bytes N)) (b # bss))"
    using c'(2) send(2) by simp
  ultimately show ?case using c'(3) by blast
qed

text \<open>The round in which bytes come in from the client: they become jobs.\<close>

lemma upstream_round:
  assumes q: "queued (po_queue (el_poll el)) []" and pipe: "nonblocking_pipe (nt_pipe N) level cap" "pipe_accepts (nt_pipe N)"
    and E: "fresh_nodes (base_env E)"
    and wait: "k_wait (nt_epoll N) (sel_kernel (po_selector (el_poll el))) 4096 (select_timeout_ms timeout) =
      (Inr [\<lparr>ee_events = m, ee_u64 = scast (fd :: i32)\<rparr>], kn)"
    and reg: "sel_events_map (po_selector (el_poll el)) fd =
      Some \<lparr>je_token_entry = \<lparr>ttype = SocketEvent, te_token = tok\<rparr>, je_job = Job (ConnJob i), je_ready = r0\<rparr>"
    and ev: "ready_is_readable (ready_of_epoll m)" "\<not> ready_is_error (ready_of_epoll m)" "\<not> ready_is_hup (ready_of_epoll m)"
    and io: "roomy_socket (nt_bytes N) (nt_stream N) incoming ended outgoing room"
    and ci: "sw_conns w i = Some ci" "tc_read_job ci = HandlerJob (TunnelServer k)" "can_send N ci"
      "tc_read_buffer ci = Some b" "bs_chunk (nt_bytes N) b = []" "\<not> ended (tc_stream ci)"
    and joined: "tunnel_joined E (sw_rest w) k h (Some j)"
    and C: "cb_job C = server_job (tunnel_net N E) V L other"
  shows "\<exists>el' ci' bss. run_once (nt_epoll N) clk (nt_pipe N) S C timeout (el, w) = Some (Inr (), el', w\<lparr>sw_conns := (sw_conns w)(i \<mapsto> ci')\<rparr>) \<and>
    queued (po_queue (el_poll el')) (map (\<lambda>b. Job (OtherJob (Send j b))) bss) \<and> sel_kernel (po_selector (el_poll el')) = kn \<and>
    concat (map (bs_chunk (nt_bytes N)) bss) = incoming (tc_stream ci) \<and> length bss \<le> length (incoming (tc_stream ci)) \<and>
    (\<forall>b \<in> set bss. bs_chunk (nt_bytes N) b \<noteq> [])"
proof -
  let ?N = "tunnel_net N E" and ?val = "ready_as_usize (ready_of_epoll m)" and ?w = "w\<lparr>sw_conns := (sw_conns w)(i := None)\<rparr>"
  let ?in = "incoming (tc_stream ci)"
  have bs: "buffered_socket (nt_bytes ?N) (nt_stream ?N) incoming ended outgoing" using io by (simp add: roomy_socket.axioms(1))
  have B: "byte_buffer (nt_bytes N)" using bs by (simp add: buffered_socket.axioms(1))
  obtain x y where xy: "tc_sending ci = Some x" "bs_chunk (nt_bytes ?N) x = []" "tc_waiting ci = Some y" "bs_chunk (nt_bytes ?N) y = []"
    using ci(3) unfolding can_send_def by auto
  obtain po where po: "queued (po_queue po) []" "sel_kernel (po_selector po) = kn"
    "run_once (nt_epoll N) clk (nt_pipe N) S C timeout (el, w) = map_option (Pair (Inr ())) (conn_event ?N i ?val (el\<lparr>el_poll := po\<rparr>, w))"
    using conn_round[OF q pipe(1) wait reg C, of clk S w] by blast
  let ?el = "el\<lparr>el_poll := po\<rparr>"
  let ?J = "sending_up N j ?in (?el, ?w)"
  have J0: "?J (bs_chunk (nt_bytes ?N) b) ?in (?el, ?w)"
    using po(1) ci(5) by (auto simp: sending_up_def intro!: exI[of _ "[]"])
  have "tunnel_joined E (sw_rest ?w) k h (Some j)" using joined by simp
  then have keeps: "job_keeps ?N (tc_read_job ci) ?J" unfolding ci(2) by (rule server_queues[OF B E pipe(2)])
  have ev': "ready_is_readable (ready_from_usize ?val)" "\<not> ready_is_error (ready_from_usize ?val)" "\<not> ready_is_hup (ready_from_usize ?val)"
    using ev by simp_all
  obtain el1 w' s' b' tr where e: "conn_event ?N i ?val (?el, w) = Some (el1, w'\<lparr>sw_conns := (sw_conns w')(i \<mapsto>
        ci\<lparr>tc_stream := s', tc_read_buffer := Some b', tc_read_triggered := False, tc_write_triggered := tr\<rparr>)\<rparr>)"
    "?J (bs_chunk (nt_bytes ?N) b') [] (el1, w')"
    using conn_event_inv[where J = ?J and R = "\<lambda>_. True", OF bs ci(1,4) xy ci(6) ev' keeps TrueI TrueI J0] by blast
  let ?ci = "ci\<lparr>tc_stream := s', tc_read_buffer := Some b', tc_read_triggered := False, tc_write_triggered := tr\<rparr>"
  obtain bss where bss: "w' = ?w" "po_selector (el_poll el1) = po_selector po"
    "queued (po_queue (el_poll el1)) (map (\<lambda>b. Job (OtherJob (Send j b))) bss)"
    "concat (map (bs_chunk (nt_bytes N)) bss) = ?in" "length bss \<le> length ?in" "\<forall>b \<in> set bss. bs_chunk (nt_bytes N) b \<noteq> []"
    using e(2) unfolding sending_up_def by auto
  have "run_once (nt_epoll N) clk (nt_pipe N) S C timeout (el, w) = Some (Inr (), el1, w\<lparr>sw_conns := (sw_conns w)(i \<mapsto> ?ci)\<rparr>)"
    unfolding po(3) e(1) bss(1) by simp
  then show ?thesis using bss(2-6) po(2)
    by (intro exI[of _ el1] exI[of _ ?ci] exI[of _ bss] conjI) simp_all
qed

subsection \<open>Before the server is there\<close>

text \<open>Bytes that come in before the connection to the server is there stay in the read buffer.\<close>

lemma server_holds:
  assumes joined: "tunnel_joined E (sw_rest w) k h None"
  shows "job_keeps (tunnel_net N E) (HandlerJob (TunnelServer k)) (\<lambda>held rest st. st = (el, w) \<and> held @ rest = bytes)"
  unfolding job_keeps_def
proof (intro allI impI)
  fix held bs rest b st
  assume J: "st = (el, w) \<and> held @ bs @ rest = bytes" and b: "bs_chunk (nt_bytes (tunnel_net N E)) b = held @ bs"
  obtain v t tun s where v: "tr_servers (sw_rest w) k = Some v" "tv_tunnel v = Some t"
    and t: "tr_tunnels (sw_rest w) t = Some tun" "tu_server_session tun = Some h"
    and h: "\<And>st. tn_session_alive E st h" "tr_sessions (sw_rest w) h = Some s" "se_server_conn s = None"
    using joined unfolding tunnel_joined_def by blast
  let ?w = "w\<lparr>sw_rest := tr_servers_update (\<lambda>m. m(k := None)) (sw_rest w)\<rparr>"
  have "tunnel_server_get_server_conn E (v, el, ?w) = Some (None, v, el, ?w)"
    using get_server_conn_spec[of v t ?w tun h E s el] v(2) t h by simp
  then have "tunnel_server_on_recv N E b (v, el, ?w) = Some (b, v, el, ?w)" by (simp add: tunnel_server_on_recv_def)
  with v(1) have "with_server k (tunnel_server_on_recv N E b) (el, w) = Some (b, el, w)" by (rule servers.with_obj_keep[OF _ refl])
  then show "\<exists>b' st'. run_read_job (tunnel_net N E) (HandlerJob (TunnelServer k)) b st = Some (b', st') \<and>
      st' = (el, w) \<and> bs_chunk (nt_bytes (tunnel_net N E)) b' @ rest = bytes"
    using J b by (intro exI[of _ b] exI[of _ st]) (simp add: run_read_job_def tunnel_net_def)
qed

text \<open>When it is there the session is told and queues the job that passes them on.\<close>

lemma session_connected:
  fixes N :: "('b, 's, 'k, 'p, tunnel_handler, ('b, 's, 'l, 'k, 'p, 't) tunnel_env) net"
  assumes c: "tr_connectors (sw_rest w) kc = Some c" "cr_stream c = Some (s0, EvSocket fd sid)" "cr_timer c = None"
      "cr_job c = HandlerJob (ServerSession h)"
    and s: "tr_sessions (sw_rest w) h = Some s" "se_client_conn s = Some i" and alive: "\<And>st. he_alive E st i"
    and E: "tn_take_error E s0 = (Inr None, s1)" "tn_take_error E s1 = (Inr None, s2)" "tn_fd E s1 = fd" "\<And>st. tn_conn E st = j"
    and sid: "sid = sel_id (po_selector (el_poll el))"
    and del: "k_ctl (nt_epoll N) (sel_kernel (po_selector (el_poll el))) EPOLL_CTL_DEL fd \<lparr>ee_events = 0, ee_u64 = 0\<rparr> = (Inr (), k1)"
    and add: "k_ctl (nt_epoll N) k1 EPOLL_CTL_ADD fd
      \<lparr>ee_events = ioevent_to_epoll (ready_bitor ready_readable ready_writable) opt_edge, ee_u64 = scast fd\<rparr> = (Inr (), k2)"
    and known: "sel_events_map (po_selector (el_poll el)) fd \<noteq> None"
    and q: "queued (po_queue (el_poll el)) []" and fresh: "fresh_nodes (base_env E)" and P: "pipe_accepts (nt_pipe N)"
    and ev: "ready_is_writable (ready_from_usize val)"
  shows "\<exists>el' w'. tunnel_run_job (tunnel_net N E) E S (ConnectJob kc) val (el, w) = Some (el', w') \<and>
    sw_conns w' = (sw_conns w)(j \<mapsto> (conn_new N (EvSocket fd sid) s2)
      \<lparr>tc_read_job := HandlerJob (ServerSession h), tc_writ_job := HandlerJob (ServerSession h), tc_close_job := HandlerJob (ServerSession h)\<rparr>) \<and>
    queued (po_queue (el_poll el')) [Job (OtherJob (Flush j i))] \<and> sel_kernel (po_selector (el_poll el')) = k2 \<and>
    tr_sessions (sw_rest w') = (tr_sessions (sw_rest w))(h \<mapsto> s\<lparr>se_server_conn := Some j\<rparr>)"
proof -
  let ?N = "tunnel_net N E" and ?h = "HandlerJob (ServerSession h)"
  let ?V = "tunnel_client ?N E"
  let ?w = "w\<lparr>sw_rest := tr_connectors_update (\<lambda>m. m(kc := None)) (sw_rest w)\<rparr>"
  let ?c = "conn_new ?N (EvSocket fd sid) s1"
  let ?wa = "?w\<lparr>sw_conns := (sw_conns w)(j \<mapsto> ?c)\<rparr>"
  let ?s = "s\<lparr>se_server_conn := Some j\<rparr>"
  let ?w1 = "?wa\<lparr>sw_rest := tr_sessions_update (\<lambda>m. m(h \<mapsto> ?s)) (sw_rest ?wa)\<rparr>"
  have V: "ch_take_error ?V s0 = (Inr None, s1)" "ch_fd ?V s1 = fd" "ch_node ?V (el, ?w) = j"
    using E by (simp_all add: tunnel_client_def)
  have at: "ch_attach ?V (ServerSession h) j (el, cs_put server_store j ?c ?w) = Some (el, ?w1)" "cs_get server_store ?w1 j = Some ?c"
    using s(1) by (simp_all add: tunnel_client_def with_obj_def session_attach_connection_def server_store_def)
  have del': "k_ctl (nt_epoll ?N) (sel_kernel (po_selector (el_poll el))) EPOLL_CTL_DEL fd \<lparr>ee_events = 0, ee_u64 = 0\<rparr> = (Inr (), k1)"
    and add': "k_ctl (nt_epoll ?N) k1 EPOLL_CTL_ADD fd
      \<lparr>ee_events = ioevent_to_epoll (ready_bitor ready_readable ready_writable) opt_edge, ee_u64 = scast fd\<rparr> = (Inr (), k2)"
    using del add by simp_all
  let ?c1 = "?c\<lparr>tc_read_job := ?h, tc_writ_job := ?h, tc_close_job := ?h\<rparr>"
  let ?c2 = "(conn_new ?N (EvSocket fd sid) s2)\<lparr>tc_read_job := ?h, tc_writ_job := ?h, tc_close_job := ?h\<rparr>"
  let ?w2 = "?w1\<lparr>sw_conns := (sw_conns w)(j \<mapsto> ?c1)\<rparr>" and ?w3 = "?w1\<lparr>sw_conns := (sw_conns w)(j \<mapsto> ?c2)\<rparr>"
  obtain el1 where el1: "client_connected server_store ?N ?V (ServerSession h) (s0, EvSocket fd sid) (el, ?w) =
      do { st \<leftarrow> ch_on_connect ?V (ServerSession h) j (el1, ?w2); Some (True, st) }"
    "sel_kernel (po_selector (el_poll el1)) = k2" "po_queue (el_poll el1) = po_queue (el_poll el)"
    using connected_handover[OF V at sid del' add' known] by (auto simp: server_store_def)
  have "queued (po_queue (el_poll el1)) []" using q el1(3) by simp
  let ?locked = "?w3\<lparr>sw_rest := tr_sessions_update (\<lambda>m. m(h := None)) (sw_rest ?w3)\<rparr>"
  obtain qq where qq: "enqueue_current (nt_pipe N) (base_env E) (OtherJob (Flush j i)) (el1, ?locked) =
      Some (el1\<lparr>el_poll := (el_poll el1)\<lparr>po_queue := qq\<rparr>\<rparr>, ?locked)" "queued qq [Job (OtherJob (Flush j i))]"
    using enqueue_current_queued[OF \<open>queued (po_queue (el_poll el1)) []\<close> fresh P, of "OtherJob (Flush j i)" ?locked] by auto
  let ?el = "el1\<lparr>el_poll := (el_poll el1)\<lparr>po_queue := qq\<rparr>\<rparr>"
  have "with_session h (session_on_connect ?N E j) (el1, ?w2) = Some ((), ?el, ?w3)"
  proof (rule sessions.with_obj_keep)
    show "tr_sessions (sw_rest ?w2) h = Some ?s" by simp
    have "with_conn j (\<lambda>(c, st). case tn_take_error E (tc_stream c) of (r, str) \<Rightarrow> Some (r, c\<lparr>tc_stream := str\<rparr>, st))
        (el1, ?w2\<lparr>sw_rest := tr_sessions_update (\<lambda>m. m(h := None)) (sw_rest ?w2)\<rparr>) = Some (Inr None, el1, ?locked)"
      using E(2) by (simp add: with_conn_def conn_new_def)
    then show "session_on_connect ?N E j (?s, el1, ?w2\<lparr>sw_rest := tr_sessions_update (\<lambda>m. m(h := None)) (sw_rest ?w2)\<rparr>) =
        Some ((), ?s, ?el, ?w3\<lparr>sw_rest := tr_sessions_update (\<lambda>m. m(h := None)) (sw_rest ?w2)\<rparr>)"
      using s(2) alive qq(1) by (simp add: session_on_connect_def session_get_client_conn_def upgrade_def)
  qed simp
  then have con: "client_connected server_store ?N ?V (ServerSession h) (s0, EvSocket fd sid) (el, ?w) = Some (True, ?el, ?w3)"
    unfolding el1(1) by (simp add: tunnel_client_def)
  let ?w4 = "?w3\<lparr>sw_rest := tr_connectors_update (\<lambda>m. m(kc \<mapsto> c\<lparr>cr_stream := None\<rparr>)) (sw_rest ?w3)\<rparr>"
  have "tunnel_run_job ?N E S (ConnectJob kc) val (el, w) = Some (?el, ?w4)"
    using c ev con by (simp add: tunnel_run_job_def with_obj_def connector_handle_event_def handle_on_connect_def Let_def)
  then show ?thesis using qq(2) el1(2) by (intro exI[of _ ?el] exI[of _ ?w4]) (simp add: conn_new_def)
qed

lemma flush_spec:
  assumes io: "roomy_socket (nt_bytes N) (nt_stream N) incoming ended outgoing room"
    and cj: "sw_conns w j = Some cj" "can_send N cj" "tc_writ_job cj = HandlerJob (ServerSession h)" and s: "tr_sessions (sw_rest w) h = Some s"
    and ci: "sw_conns w i = Some ci" "tc_read_buffer ci = Some b" and ij: "i \<noteq> j"
    and room: "length (bs_chunk (nt_bytes N) b) \<le> room (tc_stream cj)"
  shows "\<exists>w' cj' b'. tunnel_flush (tunnel_net N E) j i (el, w) = Some ((), el, w') \<and>
    sw_conns w' j = Some cj' \<and> outgoing (tc_stream cj') = outgoing (tc_stream cj) @ bs_chunk (nt_bytes N) b \<and> can_send N cj' \<and>
    sw_conns w' i = Some (ci\<lparr>tc_read_buffer := Some b'\<rparr>) \<and> bs_chunk (nt_bytes N) b' = []"
proof (cases "bs_chunk (nt_bytes N) b = []")
  case True
  have "tunnel_flush (tunnel_net N E) j i (el, w) = Some ((), el, w\<lparr>sw_conns := (sw_conns w)(i \<mapsto> ci, j \<mapsto> cj)\<rparr>)"
    using cj(1) ci ij True by (simp add: tunnel_flush_def with_conn_def bs_len_def fun_upd_twist)
  then show ?thesis using True cj(2) ci(2) ij
    by (intro exI[of _ "w\<lparr>sw_conns := (sw_conns w)(i \<mapsto> ci, j \<mapsto> cj)\<rparr>"] exI[of _ cj] exI[of _ b]) simp
next
  case False
  let ?N = "tunnel_net N E" and ?w = "w\<lparr>sw_conns := (sw_conns w)(j := None, i := None)\<rparr>"
  obtain x y where xy: "tc_sending cj = Some x" "bs_chunk (nt_bytes N) x = []" "tc_waiting cj = Some y" "bs_chunk (nt_bytes N) y = []"
    "tc_write_enabled cj" using cj(2) unfolding can_send_def by blast
  have io': "roomy_socket (nt_bytes ?N) (nt_stream ?N) incoming ended outgoing room" using io by simp
  have e: "bs_chunk (nt_bytes ?N) x = []" "bs_chunk (nt_bytes ?N) y = []" "bs_chunk (nt_bytes ?N) b \<noteq> []"
    "length (bs_chunk (nt_bytes ?N) b) \<le> room (tc_stream cj)" using xy False room by simp_all
  obtain s' y' where send: "bs_chunk (nt_bytes N) y' = []" "outgoing s' = outgoing (tc_stream cj) @ bs_chunk (nt_bytes N) b"
    "conn_send ?N (cj, el, ?w) b = map_option (Pair (Inr (bs_len (nt_bytes ?N) b)))
      (let c' = cj\<lparr>tc_waiting := Some y', tc_stream := s', tc_write_triggered := False\<rparr>
       in do { (ret, st) \<leftarrow> run_writ_job ?N (tc_writ_job cj) (el, ?w);
               if ret then Some (c', st) else close_unwrap ?N (c', st) })"
    using send_fits[OF io' xy(1) e(1) xy(3) e(2) xy(5) e(3,4), of "(el, ?w)"] by auto
  let ?cj = "cj\<lparr>tc_waiting := Some y', tc_stream := s', tc_write_triggered := False\<rparr>"
  have "tr_sessions (sw_rest ?w) h = Some s" using s by simp
  from server_written[OF this, of N E el] have sent: "conn_send ?N (cj, el, ?w) b = Some (Inr (bs_len (nt_bytes N) b), ?cj, el, ?w)"
    unfolding send(3) cj(3) Let_def by simp
  have B: "byte_buffer (nt_bytes N)" using buffered_socket.axioms(1)[OF roomy_socket.axioms(1)[OF io]] .
  obtain b' where b': "bs_advance (nt_bytes N) b (bs_len (nt_bytes N) b) = Some b'" "bs_chunk (nt_bytes N) b' = []"
    using byte_buffer.chunk_advance[OF B, of "bs_len (nt_bytes N) b" b] by (auto simp: bs_len_def)
  let ?w' = "w\<lparr>sw_conns := (sw_conns w)(i \<mapsto> ci\<lparr>tc_read_buffer := Some b'\<rparr>, j \<mapsto> ?cj)\<rparr>"
  have "tunnel_flush ?N j i (el, w) = Some ((), el, ?w')"
    using cj(1) ci ij False sent b'(1)
    by (simp add: tunnel_flush_def with_conn_def send_unwrap_def bs_len_def fun_upd_twist)
  moreover have "can_send N ?cj" using xy send(1) by (simp add: can_send_def)
  ultimately show ?thesis using send(2) b'(2) ij
    by (intro exI[of _ ?w'] exI[of _ ?cj] exI[of _ b']) simp
qed

lemma early_round:
  assumes q: "queued (po_queue (el_poll el)) []" and pipe: "nonblocking_pipe (nt_pipe N) level cap"
    and wait: "k_wait (nt_epoll N) (sel_kernel (po_selector (el_poll el))) 4096 (select_timeout_ms timeout) =
      (Inr [\<lparr>ee_events = m, ee_u64 = scast (fd :: i32)\<rparr>], kn)"
    and reg: "sel_events_map (po_selector (el_poll el)) fd =
      Some \<lparr>je_token_entry = \<lparr>ttype = SocketEvent, te_token = tok\<rparr>, je_job = Job (ConnJob i), je_ready = r0\<rparr>"
    and ev: "ready_is_readable (ready_of_epoll m)" "\<not> ready_is_error (ready_of_epoll m)" "\<not> ready_is_hup (ready_of_epoll m)"
    and io: "buffered_socket (nt_bytes N) (nt_stream N) incoming ended outgoing"
    and ci: "sw_conns w i = Some ci" "tc_read_job ci = HandlerJob (TunnelServer k)" "can_send N ci"
      "tc_read_buffer ci = Some b" "\<not> ended (tc_stream ci)"
    and joined: "tunnel_joined E (sw_rest w) k h None"
    and C: "cb_job C = server_job (tunnel_net N E) V L other"
  shows "\<exists>el' ci' b'. run_once (nt_epoll N) clk (nt_pipe N) S C timeout (el, w) = Some (Inr (), el', w\<lparr>sw_conns := (sw_conns w)(i \<mapsto> ci')\<rparr>) \<and>
    tc_read_buffer ci' = Some b' \<and> bs_chunk (nt_bytes N) b' = bs_chunk (nt_bytes N) b @ incoming (tc_stream ci) \<and>
    queued (po_queue (el_poll el')) [] \<and> sel_kernel (po_selector (el_poll el')) = kn \<and>
    sel_id (po_selector (el_poll el')) = sel_id (po_selector (el_poll el)) \<and>
    same_jobs (sel_events_map (po_selector (el_poll el))) (sel_events_map (po_selector (el_poll el')))"
proof -
  let ?N = "tunnel_net N E" and ?val = "ready_as_usize (ready_of_epoll m)" and ?w = "w\<lparr>sw_conns := (sw_conns w)(i := None)\<rparr>"
  have bs: "buffered_socket (nt_bytes ?N) (nt_stream ?N) incoming ended outgoing" using io by simp
  obtain x y where xy: "tc_sending ci = Some x" "bs_chunk (nt_bytes ?N) x = []" "tc_waiting ci = Some y" "bs_chunk (nt_bytes ?N) y = []"
    using ci(3) unfolding can_send_def by auto
  obtain po where po: "queued (po_queue po) []" "same_jobs (sel_events_map (po_selector (el_poll el))) (sel_events_map (po_selector po))"
    "sel_id (po_selector po) = sel_id (po_selector (el_poll el))" "sel_kernel (po_selector po) = kn"
    "run_once (nt_epoll N) clk (nt_pipe N) S C timeout (el, w) = map_option (Pair (Inr ())) (conn_event ?N i ?val (el\<lparr>el_poll := po\<rparr>, w))"
    using conn_round[OF q pipe wait reg C, of clk S w] by blast
  let ?el = "el\<lparr>el_poll := po\<rparr>" and ?all = "bs_chunk (nt_bytes N) b @ incoming (tc_stream ci)"
  let ?J = "\<lambda>held rest st. st = (?el, ?w) \<and> held @ rest = ?all"
  have J0: "?J (bs_chunk (nt_bytes ?N) b) (incoming (tc_stream ci)) (?el, ?w)" by simp
  have "tunnel_joined E (sw_rest ?w) k h None" using joined by simp
  then have keeps: "job_keeps ?N (tc_read_job ci) ?J" unfolding ci(2) by (rule server_holds)
  have ev': "ready_is_readable (ready_from_usize ?val)" "\<not> ready_is_error (ready_from_usize ?val)" "\<not> ready_is_hup (ready_from_usize ?val)"
    using ev by simp_all
  obtain s' b' tr where e: "conn_event ?N i ?val (?el, w) = Some (?el, ?w\<lparr>sw_conns := (sw_conns ?w)(i \<mapsto>
        ci\<lparr>tc_stream := s', tc_read_buffer := Some b', tc_read_triggered := False, tc_write_triggered := tr\<rparr>)\<rparr>)"
    "bs_chunk (nt_bytes N) b' = ?all"
    using conn_event_inv[where J = ?J and R = "\<lambda>_. True", OF bs ci(1,4) xy ci(5) ev' keeps TrueI TrueI J0] by auto
  let ?ci = "ci\<lparr>tc_stream := s', tc_read_buffer := Some b', tc_read_triggered := False, tc_write_triggered := tr\<rparr>"
  show ?thesis
    using po(1-4) e(2) by (intro exI[of _ ?el] exI[of _ ?ci] exI[of _ b']) (simp add: po(5) e(1))
qed

text \<open>The round in which the connect succeeds, and the next one.\<close>

lemma flush_rounds:
  fixes N :: "('b, 's, 'k, 'p, tunnel_handler, ('b, 's, 'l, 'k, 'p, 't) tunnel_env) net"
  assumes q: "queued (po_queue (el_poll el)) []" and pipe: "nonblocking_pipe (nt_pipe N) level cap" "pipe_accepts (nt_pipe N)"
    and fresh: "fresh_nodes (base_env E)"
    and wait1: "k_wait (nt_epoll N) (sel_kernel (po_selector (el_poll el))) 4096 (select_timeout_ms timeout) =
      (Inr [\<lparr>ee_events = m, ee_u64 = scast (fd :: i32)\<rparr>], kn)"
    and del: "k_ctl (nt_epoll N) kn EPOLL_CTL_DEL fd \<lparr>ee_events = 0, ee_u64 = 0\<rparr> = (Inr (), k1)"
    and add: "k_ctl (nt_epoll N) k1 EPOLL_CTL_ADD fd
      \<lparr>ee_events = ioevent_to_epoll (ready_bitor ready_readable ready_writable) opt_edge, ee_u64 = scast fd\<rparr> = (Inr (), k2)"
    and wait2: "k_wait (nt_epoll N) k2 4096 (select_timeout_ms (Some (from_millis 0))) = (Inr [], k3)"
    and reg: "\<exists>je. sel_events_map (po_selector (el_poll el)) fd = Some je \<and> je_job je = Job (OtherJob (ConnectJob kc)) \<and>
      ttype (je_token_entry je) = SocketEvent"
    and ev: "ready_is_writable (ready_of_epoll m)"
    and c: "tr_connectors (sw_rest w) kc = Some c" "cr_stream c = Some (s0, EvSocket fd sid)" "cr_timer c = None"
      "cr_job c = HandlerJob (ServerSession h)"
    and s: "tr_sessions (sw_rest w) h = Some s" "se_client_conn s = Some i" and alive: "\<And>st. he_alive E st i"
    and E: "tn_take_error E s0 = (Inr None, s1)" "tn_take_error E s1 = (Inr None, s2)" "tn_fd E s1 = fd" "\<And>st. tn_conn E st = j"
    and sid: "sid = sel_id (po_selector (el_poll el))"
    and io: "roomy_socket (nt_bytes N) (nt_stream N) incoming ended outgoing room"
    and ci: "sw_conns w i = Some ci" "tc_read_buffer ci = Some b" and ij: "i \<noteq> j"
    and room: "length (bs_chunk (nt_bytes N) b) \<le> room s2"
    and C: "cb_job C = server_job (tunnel_net N E) V L (tunnel_run_job (tunnel_net N E) E S)"
  shows "\<exists>el1 w1 el2 w2 cj b'. run_once (nt_epoll N) clk (nt_pipe N) S C timeout (el, w) = Some (Inr (), el1, w1) \<and>
    run_once (nt_epoll N) clk (nt_pipe N) S C timeout (el1, w1) = Some (Inr (), el2, w2) \<and>
    sw_conns w2 j = Some cj \<and> outgoing (tc_stream cj) = outgoing s2 @ bs_chunk (nt_bytes N) b \<and> can_send N cj \<and>
    sw_conns w2 i = Some (ci\<lparr>tc_read_buffer := Some b'\<rparr>) \<and> bs_chunk (nt_bytes N) b' = []"
proof -
  let ?N = "tunnel_net N E" and ?val = "ready_as_usize (ready_of_epoll m)"
  obtain je where je: "sel_events_map (po_selector (el_poll el)) fd = Some je" "je_job je = Job (OtherJob (ConnectJob kc))"
    "ttype (je_token_entry je) = SocketEvent" using reg by blast
  have io1: "[je\<lparr>je_ready := ready_of_epoll m\<rparr>] =
      concat (map (dispatch_entry (sel_events_map (po_selector (el_poll el)))) [\<lparr>ee_events = m, ee_u64 = scast fd\<rparr>])"
    using je by (simp add: dispatch_entry_def)
  obtain po where po: "queued (po_queue po) []" "same_jobs (sel_events_map (po_selector (el_poll el))) (sel_events_map (po_selector po))"
    "sel_id (po_selector po) = sid" "sel_kernel (po_selector po) = kn"
    "run_once (nt_epoll N) clk (nt_pipe N) S C timeout (el, w) =
      map_option (Pair (Inr ())) (tunnel_run_job ?N E S (ConnectJob kc) ?val (el\<lparr>el_poll := po\<rparr>, w))"
    using queued_round[OF q pipe(1) _ _ io1, of "nt_epoll N" timeout kn clk S C w] wait1 sid je(2,3)
    by (auto simp: process_entry_def C server_job_def map_conv_bind_option comp_def)
  have known: "sel_events_map (po_selector po) fd \<noteq> None" using same_jobs_dom[OF po(2), of fd] je(1) by simp
  have val: "ready_is_writable (ready_from_usize ?val)" using ev by simp
  let ?cj = "(conn_new N (EvSocket fd sid) s2)
      \<lparr>tc_read_job := HandlerJob (ServerSession h), tc_writ_job := HandlerJob (ServerSession h), tc_close_job := HandlerJob (ServerSession h)\<rparr>"
  obtain el1 w1 where e: "tunnel_run_job ?N E S (ConnectJob kc) ?val (el\<lparr>el_poll := po\<rparr>, w) = Some (el1, w1)"
    "sw_conns w1 = (sw_conns w)(j \<mapsto> ?cj)" "queued (po_queue (el_poll el1)) [Job (OtherJob (Flush j i))]"
    "sel_kernel (po_selector (el_poll el1)) = k2" "tr_sessions (sw_rest w1) = (tr_sessions (sw_rest w))(h \<mapsto> s\<lparr>se_server_conn := Some j\<rparr>)"
    using session_connected[OF c s alive E, of "el\<lparr>el_poll := po\<rparr>" N k1 k2 ?val S] po(1,3,4) del add known fresh pipe(2) val by auto
  have io2: "[] = concat (map (dispatch_entry (sel_events_map (po_selector (el_poll el1)))) [])" by simp
  obtain po2 where r2: "run_once (nt_epoll N) clk (nt_pipe N) S C timeout (el1, w1) =
      do { st \<leftarrow> map_option snd (tunnel_flush ?N j i (el1\<lparr>el_poll := po2\<rparr>, w1)); Some (Inr (), st) }"
    using queued_round[OF e(3) pipe(1) _ _ io2, of "nt_epoll N" timeout k3 clk S C w1] wait2 e(4)
    by (auto simp: C server_job_def tunnel_run_job_def)
  have B: "byte_buffer (nt_bytes N)" using buffered_socket.axioms(1)[OF roomy_socket.axioms(1)[OF io]] .
  have cj: "sw_conns w1 j = Some ?cj" "can_send N ?cj" "tc_writ_job ?cj = HandlerJob (ServerSession h)"
    using byte_buffer.chunk_new[OF B] by (simp_all add: e(2) can_send_def conn_new_def)
  have ss: "tr_sessions (sw_rest w1) h = Some (s\<lparr>se_server_conn := Some j\<rparr>)" by (simp add: e(5))
  have ci': "sw_conns w1 i = Some ci" "tc_stream ?cj = s2" using ci(1) ij by (simp_all add: e(2) conn_new_def)
  obtain w2 cj' b' where f: "tunnel_flush ?N j i (el1\<lparr>el_poll := po2\<rparr>, w1) = Some ((), el1\<lparr>el_poll := po2\<rparr>, w2)"
    "sw_conns w2 j = Some cj'" "outgoing (tc_stream cj') = outgoing s2 @ bs_chunk (nt_bytes N) b" "can_send N cj'"
    "sw_conns w2 i = Some (ci\<lparr>tc_read_buffer := Some b'\<rparr>)" "bs_chunk (nt_bytes N) b' = []"
    using flush_spec[OF io cj ss ci'(1) ci(2) ij, of E "el1\<lparr>el_poll := po2\<rparr>"] room unfolding ci'(2) by blast
  have "run_once (nt_epoll N) clk (nt_pipe N) S C timeout (el, w) = Some (Inr (), el1, w1)"
    "run_once (nt_epoll N) clk (nt_pipe N) S C timeout (el1, w1) = Some (Inr (), el1\<lparr>el_poll := po2\<rparr>, w2)"
    unfolding po(5) e(1) r2 f(1) by simp_all
  then show ?thesis using f(2-6) by blast
qed

end
