(* ===== verification/TunnelProps.thy ===== *)
theory TunnelProps
  imports Tunnel
begin

section \<open>What the example tunnel does\<close>

text \<open>
  The bytes of each side reach the other, those that come in before the other side is there included; and
  what a failed write does. Concrete runs of each.
\<close>

text \<open>What the server sends reaches the client: when the kernel reports that the connection to the server can be
  read, the same round of the loop has written exactly the bytes that have come in to the client's
  connection, in order and however they were cut up, as long as its socket has room for them.\<close>

theorem tunnel_downstream:
  assumes q: "queued (po_queue (el_poll el)) []" and pipe: "nonblocking_pipe (nt_pipe N) level cap"
    and wait: "k_wait (nt_epoll N) (sel_kernel (po_selector (el_poll el))) 4096 (select_timeout_ms timeout) =
      (Inr [\<lparr>ee_events = m, ee_u64 = scast (fd :: i32)\<rparr>], kn)"
    and reg: "sel_events_map (po_selector (el_poll el)) fd =
      Some \<lparr>je_token_entry = \<lparr>ttype = SocketEvent, te_token = t\<rparr>, je_job = Job (ConnJob j), je_ready = r0\<rparr>"
    and ev: "ready_is_readable (ready_of_epoll m)" "\<not> ready_is_error (ready_of_epoll m)" "\<not> ready_is_hup (ready_of_epoll m)"
    and io: "roomy_socket (nt_bytes N) (nt_stream N) incoming ended outgoing room"
    and cj: "sw_conns w j = Some cj" "tc_read_job cj = HandlerJob (ServerSession h)" "can_send N cj"
      "tc_read_buffer cj = Some b" "bs_chunk (nt_bytes N) b = []" "\<not> ended (tc_stream cj)"
    and s: "tr_sessions (sw_rest w) h = Some s" "se_client_conn s = Some i" and alive: "\<And>st. he_alive E st i" and ij: "i \<noteq> j"
    and ci: "sw_conns w i = Some ci" "tc_writ_job ci = HandlerJob (TunnelServer k)" "can_send N ci" and v: "tr_servers (sw_rest w) k = Some v"
    and room: "length (incoming (tc_stream cj)) \<le> room (tc_stream ci)"
    and C: "cb_job C = server_job (tunnel_net N E) V L other"
  shows "\<exists>el' w' ci' cj'. run_once (nt_epoll N) clk (nt_pipe N) S C timeout (el, w) = Some (Inr (), el', w') \<and>
    sw_conns w' i = Some ci' \<and> outgoing (tc_stream ci') = outgoing (tc_stream ci) @ incoming (tc_stream cj) \<and> can_send N ci' \<and>
    sw_conns w' j = Some cj' \<and> incoming (tc_stream cj') = [] \<and> tc_closed cj' = tc_closed cj \<and> sw_rest w' = sw_rest w"
proof -
  let ?N = "tunnel_net N E" and ?val = "ready_as_usize (ready_of_epoll m)" and ?w = "w\<lparr>sw_conns := (sw_conns w)(j := None)\<rparr>"
  let ?sent = "outgoing (tc_stream ci) @ incoming (tc_stream cj)"
  have bs: "buffered_socket (nt_bytes ?N) (nt_stream ?N) incoming ended outgoing" using io by (simp add: roomy_socket.axioms(1))
  obtain x y where xy: "tc_sending cj = Some x" "bs_chunk (nt_bytes ?N) x = []" "tc_waiting cj = Some y" "bs_chunk (nt_bytes ?N) y = []"
    using cj(3) unfolding can_send_def by auto
  obtain po where run: "run_once (nt_epoll N) clk (nt_pipe N) S C timeout (el, w) =
      map_option (Pair (Inr ())) (conn_event ?N j ?val (el\<lparr>el_poll := po\<rparr>, w))"
    using conn_round[OF q pipe wait reg C, of clk S w] by blast
  let ?el = "el\<lparr>el_poll := po\<rparr>"
  let ?J = "passing_on N outgoing room i k ?sent (?el, ?w)"
  have "?w = ?w\<lparr>sw_conns := (sw_conns ?w)(i \<mapsto> ci)\<rparr>" using ci(1) ij by (simp add: fun_upd_idem)
  then have J0: "?J (bs_chunk (nt_bytes ?N) b) (incoming (tc_stream cj)) (?el, ?w)"
    unfolding passing_on_def using ci(2,3) cj(5) room by (simp, intro exI[of _ ci]) simp
  have keeps: "job_keeps ?N (tc_read_job cj) ?J"
    unfolding cj(2) using s v by (intro session_keeps[OF io _ s(2) alive]) simp_all
  have ev': "ready_is_readable (ready_from_usize ?val)" "\<not> ready_is_error (ready_from_usize ?val)" "\<not> ready_is_hup (ready_from_usize ?val)"
    using ev by simp_all
  obtain el' w' s' b' tr where e: "conn_event ?N j ?val (?el, w) = Some (el', w'\<lparr>sw_conns := (sw_conns w')(j \<mapsto>
        cj\<lparr>tc_stream := s', tc_read_buffer := Some b', tc_read_triggered := False, tc_write_triggered := tr\<rparr>)\<rparr>)"
    "?J (bs_chunk (nt_bytes ?N) b') [] (el', w')" "incoming s' = []"
    using conn_event_inv[where J = ?J and R = "\<lambda>_. True", OF bs cj(1,4) xy cj(6) ev' keeps TrueI TrueI J0] by blast
  obtain ci' where ci': "w' = ?w\<lparr>sw_conns := (sw_conns ?w)(i \<mapsto> ci')\<rparr>" "can_send N ci'" "outgoing (tc_stream ci') = ?sent"
    using e(2) unfolding passing_on_def by auto
  show ?thesis unfolding run e(1) using ci' e(3) ij by simp
qed

text \<open>C10. What the client sends reaches the server: the round in which the kernel reports that the client's connection
  can be read gives what has come in to jobs of the loop, and the next round has written exactly those
  bytes, in order, to the connection to the server, as long as its socket has room for them.\<close>

theorem tunnel_upstream:
  assumes q: "queued (po_queue (el_poll el)) []" and pipe: "nonblocking_pipe (nt_pipe N) level cap" "pipe_accepts (nt_pipe N)"
    and E: "fresh_nodes (base_env E)"
    and wait1: "k_wait (nt_epoll N) (sel_kernel (po_selector (el_poll el))) 4096 (select_timeout_ms timeout) =
      (Inr [\<lparr>ee_events = m, ee_u64 = scast (fd :: i32)\<rparr>], k1)"
    and wait2: "k_wait (nt_epoll N) k1 4096 (select_timeout_ms (Some (from_millis 0))) = (Inr [], k2)"
    and reg: "sel_events_map (po_selector (el_poll el)) fd =
      Some \<lparr>je_token_entry = \<lparr>ttype = SocketEvent, te_token = tok\<rparr>, je_job = Job (ConnJob i), je_ready = r0\<rparr>"
    and ev: "ready_is_readable (ready_of_epoll m)" "\<not> ready_is_error (ready_of_epoll m)" "\<not> ready_is_hup (ready_of_epoll m)"
    and io: "roomy_socket (nt_bytes N) (nt_stream N) incoming ended outgoing room"
    and ci: "sw_conns w i = Some ci" "tc_read_job ci = HandlerJob (TunnelServer k)" "can_send N ci"
      "tc_read_buffer ci = Some b" "bs_chunk (nt_bytes N) b = []" "\<not> ended (tc_stream ci)"
    and some: "incoming (tc_stream ci) \<noteq> []" "length (incoming (tc_stream ci)) \<le> 4096"
    and joined: "tunnel_joined E (sw_rest w) k h (Some j)" and ij: "i \<noteq> j"
    and cj: "sw_conns w j = Some cj" "tc_writ_job cj = HandlerJob (ServerSession h)" "can_send N cj"
    and room: "length (incoming (tc_stream ci)) \<le> room (tc_stream cj)"
    and C: "cb_job C = server_job (tunnel_net N E) V L (tunnel_run_job (tunnel_net N E) E S)"
  shows "\<exists>el1 w1 el2 w2 cj'. run_once (nt_epoll N) clk (nt_pipe N) S C timeout (el, w) = Some (Inr (), el1, w1) \<and>
    sw_conns w1 j = Some cj \<and>
    run_once (nt_epoll N) clk (nt_pipe N) S C timeout (el1, w1) = Some (Inr (), el2, w2) \<and>
    sw_conns w2 j = Some cj' \<and> outgoing (tc_stream cj') = outgoing (tc_stream cj) @ incoming (tc_stream ci) \<and> can_send N cj'"
proof -
  let ?in = "incoming (tc_stream ci)"
  obtain el1 ci1 bss where r1: "run_once (nt_epoll N) clk (nt_pipe N) S C timeout (el, w) =
      Some (Inr (), el1, w\<lparr>sw_conns := (sw_conns w)(i \<mapsto> ci1)\<rparr>)"
    "queued (po_queue (el_poll el1)) (map (\<lambda>b. Job (OtherJob (Send j b))) bss)" "sel_kernel (po_selector (el_poll el1)) = k1"
    "concat (map (bs_chunk (nt_bytes N)) bss) = ?in" "length bss \<le> length ?in" "\<forall>b \<in> set bss. bs_chunk (nt_bytes N) b \<noteq> []"
    using upstream_round[OF q pipe E wait1 reg ev io ci joined C, of clk S] by blast
  let ?w1 = "w\<lparr>sw_conns := (sw_conns w)(i \<mapsto> ci1)\<rparr>"
  have "bss \<noteq> []" using r1(4) some(1) by auto
  then have wait2': "k_wait (nt_epoll N) (sel_kernel (po_selector (el_poll el1))) 4096
      (select_timeout_ms (if map (\<lambda>b. Job (OtherJob (Send j b))) bss = [] then timeout else Some (from_millis 0))) = (Inr [], k2)"
    using wait2 r1(3) by simp
  have io0: "[] = concat (map (dispatch_entry (sel_events_map (po_selector (el_poll el1)))) [])" by simp
  obtain po2 where r2: "run_once (nt_epoll N) clk (nt_pipe N) S C timeout (el1, ?w1) =
      do { st \<leftarrow> run_jobs C (map (\<lambda>b. Job (OtherJob (Send j b))) bss) (el1\<lparr>el_poll := po2\<rparr>, ?w1); Some (Inr (), st) }"
    using queued_round[OF r1(2) pipe(1) wait2' _ io0, of clk S C ?w1] r1(5) some(2) by auto
  obtain s where s: "tr_sessions (sw_rest ?w1) h = Some s" using joined unfolding tunnel_joined_def by auto
  have cj': "sw_conns ?w1 j = Some cj" using cj(1) ij by simp
  obtain cj' where f: "run_jobs C (map (\<lambda>b. Job (OtherJob (Send j b))) bss) (el1\<lparr>el_poll := po2\<rparr>, ?w1) =
      Some (el1\<lparr>el_poll := po2\<rparr>, ?w1\<lparr>sw_conns := (sw_conns ?w1)(j \<mapsto> cj')\<rparr>)"
    "outgoing (tc_stream cj') = outgoing (tc_stream cj) @ concat (map (bs_chunk (nt_bytes N)) bss)" "can_send N cj'"
    using sends_all[OF io s cj' cj(3,2) _ r1(6) C] room unfolding r1(4) by blast
  have "run_once (nt_epoll N) clk (nt_pipe N) S C timeout (el1, ?w1) =
      Some (Inr (), el1\<lparr>el_poll := po2\<rparr>, ?w1\<lparr>sw_conns := (sw_conns ?w1)(j \<mapsto> cj')\<rparr>)"
    unfolding r2 f(1) by simp
  moreover have "sw_conns (?w1\<lparr>sw_conns := (sw_conns ?w1)(j \<mapsto> cj')\<rparr>) j = Some cj'" by simp
  ultimately show ?thesis using r1(1) f(2,3) cj' unfolding r1(4) by blast
qed


text \<open>C12. A server that sends while the client's connection is broken does not get through its event, which deadlocks or panics: the session is locked
  while it sends, a failed write closes the client's connection at once, and closing asks the same session
  for its connection.\<close>

theorem tunnel_write_error_blocks:
  assumes io: "buffered_socket (nt_bytes N) (nt_stream N) incoming ended outgoing"
    and cj: "sw_conns w j = Some cj" "tc_read_job cj = HandlerJob (ServerSession h)" "tc_read_buffer cj = Some b" "incoming (tc_stream cj) \<noteq> []"
    and s: "tr_sessions (sw_rest w) h = Some s" "se_client_conn s = Some i" and alive: "\<And>st. he_alive E st i" and ij: "i \<noteq> j"
    and ci: "sw_conns w i = Some ci" "tc_close_job ci = HandlerJob (TunnelServer k)" "can_send N ci" "\<not> tc_closed ci"
    and broken: "\<And>src. src \<noteq> [] \<Longrightarrow> fst (ss_write (nt_stream N) (tc_stream ci) src) = Inl e" and e: "e \<noteq> WouldBlock"
    and joined: "tunnel_joined E (sw_rest w) k h conn"
    and ev: "ready_is_readable (ready_from_usize val)"
  shows "conn_event (tunnel_net N E) j val (el, w) = None"
proof -
  let ?N0 = "tunnel_net0 N E" and ?w = "w\<lparr>sw_conns := (sw_conns w)(j := None)\<rparr>"
  let ?rest = "tr_sessions_update (\<lambda>m. m(h := None)) (sw_rest w)"
  let ?wl = "w\<lparr>sw_rest := ?rest, sw_conns := (sw_conns w)(j := None, i := None)\<rparr>"
  obtain v t tun where v: "tr_servers (sw_rest w) k = Some v" "tv_tunnel v = Some t" "tr_tunnels (sw_rest w) t = Some tun"
    "tu_server_session tun = Some h" "\<And>st. tn_session_alive E st h" using joined unfolding tunnel_joined_def by blast
  obtain x y where xy: "tc_sending ci = Some x" "bs_chunk (nt_bytes ?N0) x = []" "tc_waiting ci = Some y" "bs_chunk (nt_bytes ?N0) y = []"
    "tc_write_enabled ci" using ci(3) unfolding can_send_def by auto
  obtain r s1 b1 bs where rd: "try_read_buf (nt_bytes N) (nt_stream N) (tc_stream cj) b = (Inr (Some r), s1, b1)"
    "0 < r" "incoming (tc_stream cj) = bs @ incoming s1" "bs_chunk (nt_bytes N) b1 = bs_chunk (nt_bytes N) b @ bs"
    "length (incoming s1) < length (incoming (tc_stream cj))"
    using buffered_socket.read_buf_some[OF io cj(4), of b] by blast
  have ne: "bs_chunk (nt_bytes ?N0) b1 \<noteq> []" using rd(3-5) by auto
  have close: "run_close_job ?N0 (tc_close_job ci) (el, ?wl) = None"
    using ci(2) v by (simp add: run_close_job_def tunnel_net0_def with_obj_def tunnel_server_on_error_def
        tunnel_server_free_connection_def tunnel_server_get_server_conn_def tunnel_get_server_conn_def tunnel_get_server_session_def)
  have io0: "buffered_socket (nt_bytes ?N0) (nt_stream ?N0) incoming ended outgoing" using io by simp
  have w: "fst (ss_write (nt_stream ?N0) (tc_stream ci) (bs_chunk (nt_bytes ?N0) b1)) = Inl e" using broken ne by simp
  have "conn_send ?N0 (ci, el, ?wl) b1 = None"
    using send_spec[OF io0 xy(1-5) ne w, of "(el, ?wl)"] e ci(4) close
    by (auto simp: Let_def close_unwrap_def handle_close_def set_enabled_def)
  then have "with_session h (session_on_recv ?N0 E b1) (el, ?w) = None"
    using s alive ci(1) ij ne
    by (simp add: with_obj_def session_on_recv_def session_get_client_conn_def upgrade_def with_conn_def send_unwrap_def bs_len_def)
  then have "run_read_job (tunnel_net N E) (HandlerJob (ServerSession h)) b1 (el, ?w) = None"
    by (simp add: run_read_job_def tunnel_net_def)
  then have "handle_read (tunnel_net N E) (cj\<lparr>tc_read_triggered := True\<rparr>, el, ?w) = None"
    using cj(2,3) rd(1) by (subst handle_read.simps) simp
  then show ?thesis using cj(1) ev by (simp add: conn_event_def handle_event_def Let_def)
qed

subsection \<open>Concrete runs\<close>

text \<open>A handler at address 3 with its tunnel at 4, whose session is at 5 and whose connector is at 6.\<close>

type_synonym list_tunnel_env = "(u8 list \<times> nat, sock, nat \<times> (sock \<times> unit) list, nat, nat, string entry option list) tunnel_env"

type_synonym list_tunnel_net = "(u8 list \<times> nat, sock, nat, nat, tunnel_handler, list_tunnel_env) net"

definition list_tunnel_ops :: "(sock, list_tunnel_env) tunnel_ops" where
  "list_tunnel_ops = \<lparr>he_alive = \<lambda>_ _. True, he_node = he_node least_env, tn_session_alive = \<lambda>_ _. True,
     tn_server = \<lambda>_. 3, tn_tunnel = \<lambda>_. 4, tn_session = \<lambda>_. 5, tn_connector = \<lambda>_. 6, tn_conn = \<lambda>_. 1,
     tn_connect = \<lambda>_ _. Inl WouldBlock, tn_take_error = \<lambda>s. (Inr None, s), tn_fd = \<lambda>_. 8\<rparr>"

definition list_sock :: "u8 list \<Rightarrow> sock" where
  "list_sock bytes = \<lparr>sk_in = bytes, sk_ended = False, sk_out = [], sk_room = 100\<rparr>"

definition list_conn :: "i32 \<Rightarrow> u8 list \<Rightarrow> tunnel_handler \<Rightarrow> (u8 list \<times> nat, sock, tunnel_handler) tcp_connection" where
  "list_conn fd bytes h = (conn_new (list_net 1 :: list_tunnel_net) (EvSocket fd 1) (list_sock bytes))
     \<lparr>tc_read_job := HandlerJob h, tc_writ_job := HandlerJob h, tc_close_job := HandlerJob h\<rparr>"

definition list_tunnel :: "nat \<Rightarrow> nat option \<Rightarrow> sock tunnel_rest" where
  "list_tunnel client server = \<lparr>
     tr_servers = [3 \<mapsto> \<lparr>tv_client_conn = Some client, tv_tunnel = Some 4\<rparr>],
     tr_tunnels = [4 \<mapsto> \<lparr>tu_addr = ''127.0.0.1:80'', tu_client = 6, tu_server_session = Some 5, tu_client_conn = Some client\<rparr>],
     tr_sessions = [5 \<mapsto> \<lparr>se_client_conn = Some client, se_server_conn = server\<rparr>],
     tr_connectors = [6 \<mapsto> \<lparr>cr_timer = None, cr_stream = Some (list_sock [], EvSocket 8 1), cr_job = HandlerJob (ServerSession 5)\<rparr>]\<rparr>"

definition tunnel_world ::
    "(nat \<rightharpoonup> (u8 list \<times> nat, sock, tunnel_handler) tcp_connection) \<Rightarrow> sock tunnel_rest
       \<Rightarrow> (u8 list \<times> nat, sock, tunnel_handler, nat \<times> (sock \<times> unit) list, sock tunnel_rest) server_world" where
  "tunnel_world conns rest = \<lparr>sw_conns = conns, sw_acceptor = None, sw_token_id = 1, sw_rest = rest\<rparr>"

definition tunnel_callbacks :: "list_tunnel_net \<Rightarrow> ((u8 list \<times> nat) tunnel_job loop_job, string, nat, nat, string entry option list,
    (u8 list \<times> nat, sock, tunnel_handler, nat \<times> (sock \<times> unit) list, sock tunnel_rest) server_world) callbacks" where
  "tunnel_callbacks N = \<lparr>cb_now = \<lambda>w. duration_zero,
     cb_job = server_job (tunnel_net N list_tunnel_ops)
       (tunnel_sessions N list_tunnel_ops (vec_slab :: (string entry option list, string entry) slab_ops) duration_zero ''t'') list_listener
       (tunnel_run_job (tunnel_net N list_tunnel_ops) list_tunnel_ops vec_slab),
     cb_timer = \<lambda>t. Some\<rparr>"



text \<open>A socket on which every write fails.\<close>

definition broken_socket :: "sock stream_ops" where
  "broken_socket = list_socket\<lparr>ss_write := \<lambda>s src. (Inl (OtherError ''EPIPE''), s)\<rparr>"

lemma broken_io: "buffered_socket list_bytes broken_socket sk_in sk_ended sk_out"
proof -
  have [simp]: "ss_read broken_socket = ss_read list_socket" "ss_write broken_socket s src = (Inl (OtherError ''EPIPE''), s)" for s src
    by (simp_all add: broken_socket_def)
  show ?thesis by unfold_locales (auto simp: list_bytes_def list_socket_def split: if_splits)
qed

lemma list_ops_simps [simp]: "he_alive list_tunnel_ops st i" "tn_session_alive list_tunnel_ops st h"
  "tn_take_error list_tunnel_ops s = (Inr None, s)" "tn_fd list_tunnel_ops s = 8" "tn_conn list_tunnel_ops st = 1"
  "base_env list_tunnel_ops = least_env"
  by (simp_all add: list_tunnel_ops_def handler_env.truncate_def least_env_def)

lemma list_tunnel_joined: "tunnel_joined list_tunnel_ops (list_tunnel client server) 3 5 server"
  by (simp add: tunnel_joined_def list_tunnel_def)

lemma list_conn_simps [simp]: "tc_read_job (list_conn fd bytes h) = HandlerJob h" "tc_writ_job (list_conn fd bytes h) = HandlerJob h"
  "tc_close_job (list_conn fd bytes h) = HandlerJob h" "tc_stream (list_conn fd bytes h) = list_sock bytes"
  "tc_read_buffer (list_conn fd bytes h) = Some ([], 1024)" "\<not> tc_closed (list_conn fd bytes h)"
  by (simp_all add: list_conn_def conn_new_def list_net_def list_bytes_def)

lemma list_sock_simps [simp]: "sk_in (list_sock bytes) = bytes" "\<not> sk_ended (list_sock bytes)" "sk_out (list_sock bytes) = []"
  "sk_room (list_sock bytes) = 100"
  by (simp_all add: list_sock_def)

lemma list_conn_can_send: "nt_bytes N = list_bytes \<Longrightarrow> can_send N (list_conn fd bytes h)"
  by (simp add: can_send_def list_conn_def conn_new_def list_net_def list_bytes_def)

lemma list_tunnel_tables: "tr_servers (list_tunnel c s) 3 = Some \<lparr>tv_client_conn = Some c, tv_tunnel = Some 4\<rparr>"
  "tr_sessions (list_tunnel c s) 5 = Some \<lparr>se_client_conn = Some c, se_server_conn = s\<rparr>"
  "tr_connectors (list_tunnel c s) 6 = Some \<lparr>cr_timer = None, cr_stream = Some (list_sock [], EvSocket 8 1), cr_job = HandlerJob (ServerSession 5)\<rparr>"
  by (simp_all add: list_tunnel_def)

lemma list_net_pipe: "nonblocking_pipe (nt_pipe (list_net m)) (\<lambda>p. p) 65536" "pipe_accepts (nt_pipe (list_net m))"
  using count_pipe.nonblocking_pipe_axioms count_pipe_accepts by (simp_all add: list_net_def)

lemma list_net_io: "roomy_socket (nt_bytes (list_net m)) (nt_stream (list_net m)) sk_in sk_ended sk_out sk_room"
  using list_room.roomy_socket_axioms by (simp add: list_net_def)

lemma list_net_wait: "k_wait (nt_epoll (list_net m)) (sel_kernel (po_selector (el_poll request_loop))) 4096 t =
    (Inr [\<lparr>ee_events = m, ee_u64 = scast (7 :: i32)\<rparr>], 1)" "k_wait (nt_epoll (list_net m)) 1 4096 t = (Inr [], 1)"
  by (simp_all add: list_net_def once_kernel_def request_loop_def)

lemma request_loop_entry: "sel_events_map (po_selector (el_poll request_loop)) 7 =
    Some \<lparr>je_token_entry = \<lparr>ttype = SocketEvent, te_token = Token 1\<rparr>, je_job = Job (ConnJob 0), je_ready = ready_empty\<rparr>"
  by (simp add: request_loop_def)

lemma tunnel_callbacks_job: "cb_job (tunnel_callbacks N) = server_job (tunnel_net N list_tunnel_ops)
    (tunnel_sessions N list_tunnel_ops vec_slab duration_zero ''t'') list_listener
    (tunnel_run_job (tunnel_net N list_tunnel_ops) list_tunnel_ops vec_slab)"
  by (simp add: tunnel_callbacks_def)

text \<open>The connection to the server is 0 here, and that of the client 1.\<close>

theorem tunnel_downstream_witness:
  "\<exists>el' w' c. run_once (once_kernel 1) ms_clock (count_pipe 65536) vec_slab (tunnel_callbacks (list_net 1)) None
       (request_loop, tunnel_world [0 \<mapsto> list_conn 7 [104, 105] (ServerSession 5), 1 \<mapsto> list_conn 8 [] (TunnelServer 3)]
          (list_tunnel 1 (Some 0))) = Some (Inr (), el', w') \<and>
     sw_conns w' 1 = Some c \<and> sk_out (tc_stream c) = [104, 105]"
proof -
  let ?N = "list_net 1 :: list_tunnel_net" and ?cj = "list_conn 7 [104, 105] (ServerSession 5)" and ?ci = "list_conn 8 [] (TunnelServer 3)"
  let ?w = "tunnel_world [0 \<mapsto> ?cj, 1 \<mapsto> ?ci] (list_tunnel 1 (Some 0))"
  have k: "nt_epoll ?N = once_kernel 1" "nt_pipe ?N = count_pipe 65536" "nt_bytes ?N = list_bytes" by (simp_all add: list_net_def)
  have can: "can_send ?N ?cj" "can_send ?N ?ci" using k(3) by (simp_all add: list_conn_can_send)
  have cj: "sw_conns ?w 0 = Some ?cj" "sw_conns ?w 1 = Some ?ci" by (simp_all add: tunnel_world_def)
  have b: "bs_chunk (nt_bytes ?N) ([], 1024) = []" by (simp add: k(3) list_bytes_def)
  have r: "tr_sessions (sw_rest ?w) 5 = Some \<lparr>se_client_conn = Some 1, se_server_conn = Some 0\<rparr>"
    "tr_servers (sw_rest ?w) 3 = Some \<lparr>tv_client_conn = Some 1, tv_tunnel = Some 4\<rparr>"
    by (simp_all add: tunnel_world_def list_tunnel_tables)
  have room: "length (sk_in (tc_stream ?cj)) \<le> sk_room (tc_stream ?ci)" by simp
  have ended: "\<not> sk_ended (tc_stream ?cj)" by simp
  from tunnel_downstream[OF request_loop_queued list_net_pipe(1) list_net_wait(1) request_loop_entry epollin_ready list_net_io
      cj(1) list_conn_simps(1) can(1) list_conn_simps(5) b ended r(1) server_session.select_convs(1) list_ops_simps(1) _
      cj(2) list_conn_simps(2) can(2) r(2) room tunnel_callbacks_job, of ms_clock vec_slab None]
  show ?thesis unfolding k by auto
qed

text \<open>From here on the connection of the client is 0, and that to the server 1.\<close>

theorem tunnel_upstream_witness:
  "\<exists>el1 w1 el2 w2 c. run_once (once_kernel 1) ms_clock (count_pipe 65536) vec_slab (tunnel_callbacks (list_net 1)) None
       (request_loop, tunnel_world [0 \<mapsto> list_conn 7 [104, 105] (TunnelServer 3), 1 \<mapsto> list_conn 8 [] (ServerSession 5)]
          (list_tunnel 0 (Some 1))) = Some (Inr (), el1, w1) \<and>
     run_once (once_kernel 1) ms_clock (count_pipe 65536) vec_slab (tunnel_callbacks (list_net 1)) None (el1, w1) = Some (Inr (), el2, w2) \<and>
     sw_conns w2 1 = Some c \<and> sk_out (tc_stream c) = [104, 105]"
proof -
  let ?N = "list_net 1 :: list_tunnel_net" and ?ci = "list_conn 7 [104, 105] (TunnelServer 3)" and ?cj = "list_conn 8 [] (ServerSession 5)"
  let ?w = "tunnel_world [0 \<mapsto> ?ci, 1 \<mapsto> ?cj] (list_tunnel 0 (Some 1))"
  have k: "nt_epoll ?N = once_kernel 1" "nt_pipe ?N = count_pipe 65536" "nt_bytes ?N = list_bytes" by (simp_all add: list_net_def)
  have fresh: "fresh_nodes (base_env list_tunnel_ops)" unfolding list_ops_simps(6) by (rule least_env_fresh)
  have can: "can_send ?N ?ci" "can_send ?N ?cj" using k(3) by (simp_all add: list_conn_can_send)
  have c: "sw_conns ?w 0 = Some ?ci" "sw_conns ?w 1 = Some ?cj" by (simp_all add: tunnel_world_def)
  have b: "bs_chunk (nt_bytes ?N) ([], 1024) = []" by (simp add: k(3) list_bytes_def)
  have r: "tunnel_joined list_tunnel_ops (sw_rest ?w) 3 5 (Some 1)" using list_tunnel_joined by (simp add: tunnel_world_def)
  have str: "\<not> sk_ended (tc_stream ?ci)" "sk_in (tc_stream ?ci) \<noteq> []" "length (sk_in (tc_stream ?ci)) \<le> 4096"
    "length (sk_in (tc_stream ?ci)) \<le> sk_room (tc_stream ?cj)" by simp_all
  from tunnel_upstream[OF request_loop_queued list_net_pipe fresh list_net_wait request_loop_entry epollin_ready list_net_io
      c(1) list_conn_simps(1) can(1) list_conn_simps(5) b str(1-3) r _ c(2) list_conn_simps(2) can(2) str(4) tunnel_callbacks_job,
      of ms_clock None]
  show ?thesis unfolding k by auto
qed


theorem tunnel_write_error_blocks_witness:
  "conn_event (tunnel_net ((list_net 1)\<lparr>nt_stream := broken_socket\<rparr>) list_tunnel_ops) 1 1
     (request_loop, tunnel_world [1 \<mapsto> list_conn 8 [104, 105] (ServerSession 5), 0 \<mapsto> list_conn 7 [] (TunnelServer 3)]
        (list_tunnel 0 (Some 1))) = None"
proof -
  let ?N = "(list_net 1)\<lparr>nt_stream := broken_socket\<rparr> :: list_tunnel_net"
  let ?ci = "list_conn 7 [] (TunnelServer 3)" and ?cj = "list_conn 8 [104, 105] (ServerSession 5)"
  let ?w = "tunnel_world [1 \<mapsto> ?cj, 0 \<mapsto> ?ci] (list_tunnel 0 (Some 1))"
  have k: "nt_bytes ?N = list_bytes" "nt_stream ?N = broken_socket" by (simp_all add: list_net_def)
  have io: "buffered_socket (nt_bytes ?N) (nt_stream ?N) sk_in sk_ended sk_out" unfolding k by (rule broken_io)
  have c: "sw_conns ?w 1 = Some ?cj" "sw_conns ?w 0 = Some ?ci" "can_send ?N ?ci" "sk_in (tc_stream ?cj) \<noteq> []"
    using k(1) by (simp_all add: tunnel_world_def list_conn_can_send)
  have r: "tr_sessions (sw_rest ?w) 5 = Some \<lparr>se_client_conn = Some 0, se_server_conn = Some 1\<rparr>"
    "tunnel_joined list_tunnel_ops (sw_rest ?w) 3 5 (Some 1)"
    using list_tunnel_joined by (simp_all add: tunnel_world_def list_tunnel_tables)
  have broken: "fst (ss_write (nt_stream ?N) (tc_stream ?ci) src) = Inl (OtherError ''EPIPE'')" for src
    by (simp add: k(2) broken_socket_def)
  have ev: "ready_is_readable (ready_from_usize 1)" by code_simp
  show ?thesis
    by (rule tunnel_write_error_blocks[OF io c(1) list_conn_simps(1,5) c(4) r(1) server_session.select_convs(1) list_ops_simps(1) _
          c(2) list_conn_simps(3) c(3) list_conn_simps(6) broken _ r(2) ev]) simp_all
qed

end
