(* ===== verification/Spec2Isabelle.thy ===== *)
theory Spec2Isabelle
  imports LazyCell QueueClose NodeThreads PollLock Pool ConnectionInv Facade TestServer TestClient TunnelProps
begin

text \<open>
  \<^bold>\<open>Sickle: a verified model of its poller, timer, event loop, connections and example programs.\<close>

  Sickle is an event library in the style of mio. A \<open>Poll\<close> waits for the events of file descriptors
  through epoll and for those of user space through a readiness queue that any thread may append
  to; an \<open>EventLoop\<close> drives one \<open>Poll\<close>, runs the jobs of what it delivers, and fires the
  timeouts of a timer wheel that is itself registered with the readiness queue. On top of it a
  \<open>TcpServer\<close> accepts connections and a \<open>TcpClient\<close> makes them; each is a job of the loop. The examples are a server, a
  client and a tunnel that is both.

  \<^bold>\<open>Theories and sources.\<close>

  \<^item> Prelude: \<open>u32\<close>, \<open>u64\<close> and \<open>usize\<close> as words, I/O results as a sum with the error on the left, checked
    arithmetic (\<open>None\<close> is a panic), and lemmas on words, maps and monadic binds.
  \<^item> EventImp (\<open>src/event_imp.rs\<close>, \<open>src/token.rs\<close>, \<open>src/sys/unix/ready.rs\<close>): flag sets, tokens, job entries.
  \<^item> LazyCell (\<open>src/lazycell.rs\<close>); Convert (\<open>src/lib.rs\<close>: \<open>convert::millis\<close>).
  \<^item> ReadinessState (\<open>src/poll.rs\<close>): the seven fields packed in one word.
  \<^item> Awakener (\<open>src/sys/unix/awakener.rs\<close>): the pipe that ends a wait.
  \<^item> ReadinessQueue, Registration, QueuePoll (\<open>src/poll.rs\<close>, and \<open>enqueue_job\<close> of \<open>src/net/event_loop.rs\<close>): the
    intrusive queue, the handles on its nodes, and the visit of a poll. QueueThreads: the queue again, one
    memory access at a time, with any number of threads; QueueClose: its closing in the same steps. NodeThreads: in the same way the state word of one node,
    with \<open>set_readiness\<close>, \<open>update\<close>, the drop of the registration and the poller's visit.
  \<^item> Epoll (\<open>src/sys/unix/epoll.rs\<close>): events, \<open>select\<close> and registration over a kernel.
  \<^item> Poll, PollLock (\<open>src/poll.rs\<close>): the poller, and the lock that lets one thread poll at a time.
  \<^item> Slab, TimerList, Timer, TimerInv, TimerOps, TimerProps, TimerWakeup (\<open>src/timer.rs\<close>): the wheel and its
    entries in a slab, the operations, the invariant, and the wake-up thread.
  \<^item> EventLoop, Pool (\<open>src/net/event_loop.rs\<close>): construction, timeouts, rounds, \<open>run\<close>; the current loop of a thread
    and the pool of threads.
  \<^item> NetIO (\<open>src/net/mod.rs\<close>), Connection (\<open>src/net/connection.rs\<close>), Server (\<open>src/net/acceptor.rs\<close> and \<open>TcpServer\<close> of
    \<open>src/net/tcp_server.rs\<close>), Client (\<open>src/net/connector.rs\<close> and \<open>TcpClient\<close>): reading and writing without
    blocking, a connection and its buffers, and the jobs that put connections on the loop. ConnectionInv: every state
    a connection can reach.
  \<^item> Sys (\<open>src/sys/unix\<close>: \<open>mod.rs\<close>, \<open>io.rs\<close>, \<open>dlsym.rs\<close>, \<open>uio.rs\<close>, and \<open>Selector::new\<close> and \<open>Poll::new\<close>): system calls
    on descriptors, and who closes them. Tcp (\<open>src/net/tcp.rs\<close>, \<open>src/sys/unix/tcp.rs\<close>, \<open>eventedfd.rs\<close>): streams
    and listeners. Facade (\<open>io.rs\<close>, \<open>awakener.rs\<close>, and the forwarding parts of \<open>src/poll.rs\<close>, \<open>src/event_imp.rs\<close>, \<open>src/net/tcp.rs\<close> and
    \<open>src/sys/unix/tcp.rs\<close>): the handles and entry points over all of these.
  \<^item> Handlers: weak references, locking and jobs as the handlers of \<open>examples/\<close> use them. TestServer
    (\<open>tcp_server.rs\<close>), TestClient (\<open>client.rs\<close>), Tunnel and TunnelProps (\<open>tunnel.rs\<close>): the handlers and what \<open>main\<close> does with
    each loop.

  \<^bold>\<open>What the definitions are.\<close> An operation is a function of its state that returns the new state;
  results of \<open>io::Result\<close> are sums, and \<open>None\<close> of an option around them is a panic or, for the
  loops that need not end (\<open>poll_loop\<close>, \<open>poll_to_loop\<close>, \<open>poll2_loop\<close>, \<open>timer_drain\<close>, \<open>run_loop\<close>, \<open>handle_read\<close>, \<open>accept_loop\<close>
  and others, all \<open>partial_function (option)\<close>), a loop without end; no fuel is used, and that they return is
  proved where the code returns. Integers have their width. Nodes of the readiness queue live in
  a heap, a map from addresses. Four parts whose point is their interleaving are step relations of
  their atomic accesses: the readiness queue (\<open>prod_step\<close>, \<open>cons_step\<close>, and \<open>close_step\<close>, \<open>late_step\<close> for its closing), a node's state word (\<open>node_step\<close>, \<open>visit_step\<close>), the wake-up thread (\<open>wt_thread\<close>,
  \<open>wt_store\<close>, \<open>wt_env\<close>) and \<open>poll1\<close> (\<open>poll1_step\<close>). Closures given to
  the loop are data (\<open>loop_job\<close>, \<open>client_job\<close>) with a function that runs them; an object behind a lock is
  absent from the world while it is locked, so that locking it again is a panic of the model.

  \<^bold>\<open>Parameters.\<close> The kernel's epoll calls (\<open>epoll_ops\<close>), the awakener's pipe (\<open>pipe_ops\<close>), the \<open>slab\<close> crate
  (\<open>slab_ops\<close>), the byte buffers (\<open>bytes_ops\<close>), streams and listeners (\<open>stream_ops\<close>, \<open>listener_ops\<close>), \<open>libc\<close>, the
  sockets of the standard library and net2 (\<open>std_net\<close>), files (\<open>file_ops\<close>), the clock, the jobs (\<open>callbacks\<close>) and the handlers (\<open>net\<close>, \<open>session_ops\<close>, \<open>client_ops\<close>) are arguments of the
  definitions; for the handlers of the examples it is whether a weak reference can be upgraded, and the addresses of new
  objects (\<open>handler_env\<close>, \<open>tunnel_ops\<close>). What is relied on is stated in locales, \<open>nonblocking_pipe\<close>, \<open>slab\<close>, \<open>byte_buffer\<close>, \<open>socket\<close>, \<open>roomy_socket\<close>,
  \<open>backlog_listener\<close>, \<open>descriptor_table\<close>, \<open>epoll_table\<close>, \<open>socket_table\<close> and \<open>pipe_ends\<close>, each interpreted on a concrete instance; \<open>timer_slab\<close> and
  \<open>buffered_socket\<close> hold the lemmas over those laws. \<open>object_table\<close> is the locking of an object in a table of the world; each
  table of the tunnel is one.

  \<^bold>\<open>What the lemmas show.\<close>

  \<^item> Refinement: the packed state is the record of its fields; the linked queue with its markers is
    a first-in first-out list (\<open>rq_repr\<close>); a timer is the finite map of its pending timeouts (\<open>pending\<close>).
  \<^item> Invariants: \<open>reg_inv\<close> (queue, reference counts and node states), \<open>timer_inv\<close> (wheel lists, entries, and the
    next tick of each slot), \<open>armed\<close> (the scheduled wake-up is no later than any pending timeout),
    \<open>wt_inv\<close>, \<open>qt_inv\<close> (the chain from tail to head of which links may still be missing, and who will store
    them), \<open>nt_inv\<close> (who answers for the queued bit of a node, who holds its update lock, and which token slots are in
    use), \<open>close_with\<close> (the chain that is left to the closing thread), \<open>stream_inv\<close> (which poller has a stream), and \<open>lock_inv\<close> and \<open>awake_inv\<close> of the lock; every operation keeps them.
  \<^item> Behaviour: each operation on each branch, up to a round of the event loop, which runs each
    delivered entry once and in order, and the drain of the timer, which fires each due timeout once unless a job
    cancels it first. What a timer's job may do there is \<open>timer_job_keeps\<close>; the job of a connect timeout is one (\<open>connect_timed_out_keeps\<close>).
    \<open>timer_inv\<close> does not hold of a timer with a timeout set for its current tick, which the code misses.
  \<^item> Composition: an event of a registered connection, from the kernel's report through one round of the
    loop to the bytes the session is given; the accepting of a backlog; the handing over of a connect; the
    response of the example server, the request of the example client, and the bytes of both sides of the tunnel,
    from the kernel's report to the bytes written, over the rounds of the loop that it takes.
  \<^item> Resources: a node is freed after its last handle, in whichever order the handles go; no error leaks a descriptor, a socket belongs to one poller, a thread to its own loop.
  \<^item> Progress: polls return, wake-ups fire within a bounded number of steps and are not lost, the wake-up thread ends once
    told to, the closing of the queue ends once no append is half done, \<open>run\<close> ends.
  \<^item> Typing: a connection in use has its buffers and its handle, and a closed one sends nothing unless it is enabled again (\<open>conn_reach\<close>).
  \<^item> Faults of the code, each proved on a concrete or general state: timeouts of the current tick
    are missed, tick 0 ends the wake-up thread, polling twice in a tick runs ahead, a job
    registered before its node is ready is lost, the job of an update races with the poller and may be cleared, a node appended while the queue is closed may be forgotten, a message that does not fit is cut off, a refused registration replaces the job, \<open>reregister\<close>
    gives the kernel the wrong datum, a failed write of the tunnel locks its session twice, and \<open>Ready::all()\<close> overwrites the neighbouring field.

  \<^bold>\<open>Bounds.\<close> The timer's theorems ask for ticks below the largest word, which a clock in ticks never
  reaches; those of a round ask for no more than the 4096 entries that the loop makes room for. What is sent in one piece
  is written whole only where the socket has room for it, which the theorems on the examples ask for: the rest is lost (\<open>send_loses_rest\<close>).

  \<^bold>\<open>Not modelled.\<close> Memory orderings (each atomic access is one step); the formatting of values other than the flag sets; logging, with the set-up of the logger in the
  \<open>main\<close> of each example.
\<close>

end
